(* ===== verification/Prelude.thy ===== *)
theory Prelude
  imports Complex_Main "HOL-Library.Word" "HOL-Library.Code_Target_Numeral"
begin

text \<open>
  Shared vocabulary of the development: Python byte strings as lists of 8-bit words, Python
  text as lists of code points, fallible computations as values of a sum type (\<open>Inl\<close> is the
  raised exception), the string methods the sources call, and the generic list lemmas the
  component theories use.
\<close>

unbundle bit_operations_syntax

named_theorems res_simps \<open>equations of the result combinators\<close>
named_theorems str_simps \<open>equations of the string methods\<close>

section \<open>Types\<close>

type_synonym byte = "8 word"
type_synonym bytes = "8 word list"

text \<open>A Python \<open>str\<close> is a sequence of code points.\<close>

type_synonym str = "nat list"

section \<open>Fallible computations\<close>

text \<open>Sequencing: an exception in the first computation skips the second.\<close>

definition rbind :: "'e + 'a \<Rightarrow> ('a \<Rightarrow> 'e + 'b) \<Rightarrow> 'e + 'b" where
  "rbind m f = (case m of Inl e \<Rightarrow> Inl e | Inr x \<Rightarrow> f x)"

text \<open>\<open>if not c: raise e\<close>.\<close>

definition ensure :: "bool \<Rightarrow> 'e \<Rightarrow> 'e + unit" where
  "ensure c e = (if c then Inr () else Inl e)"

text \<open>A list comprehension whose body may raise: the first exception wins.\<close>

fun rmap :: "('a \<Rightarrow> 'e + 'b) \<Rightarrow> 'a list \<Rightarrow> 'e + 'b list" where
  "rmap f [] = Inr []"
| "rmap f (x # xs) = rbind (f x) (\<lambda>y. rbind (rmap f xs) (\<lambda>ys. Inr (y # ys)))"

text \<open>A \<open>for\<close> loop whose body updates a state and may raise.\<close>

fun rfold :: "('s \<Rightarrow> 'a \<Rightarrow> 'e + 's) \<Rightarrow> 's \<Rightarrow> 'a list \<Rightarrow> 'e + 's" where
  "rfold f s [] = Inr s"
| "rfold f s (x # xs) = rbind (f s x) (\<lambda>s'. rfold f s' xs)"

declare rbind_def [code_unfold]

lemma rbind_Inl [simp, res_simps]: "rbind (Inl e) f = Inl e"
  and rbind_Inr [simp, res_simps]: "rbind (Inr x) f = f x"
  by (simp_all add: rbind_def)

lemma ensure_True [simp, res_simps]: "ensure True e = Inr ()"
  and ensure_False [simp, res_simps]: "ensure False e = Inl e"
  by (simp_all add: ensure_def)

lemma rbind_eq_Inr [res_simps]:
  "rbind m f = Inr y \<longleftrightarrow> (\<exists>x. m = Inr x \<and> f x = Inr y)"
  by (cases m) auto

lemma rbind_eq_Inl [res_simps]:
  "rbind m f = Inl e \<longleftrightarrow> m = Inl e \<or> (\<exists>x. m = Inr x \<and> f x = Inl e)"
  by (cases m) auto

lemma ensure_eq_Inr [simp, res_simps]: "ensure c e = Inr u \<longleftrightarrow> c"
  by (simp add: ensure_def)

lemma ensure_eq_Inl [simp, res_simps]: "ensure c e = Inl e' \<longleftrightarrow> \<not> c \<and> e' = e"
  by (auto simp: ensure_def)

lemma rmap_Inr_iff:
  "rmap f xs = Inr ys \<longleftrightarrow> length ys = length xs \<and> (\<forall>i < length xs. f (xs ! i) = Inr (ys ! i))"
proof (induction xs arbitrary: ys)
  case Nil
  then show ?case by auto
next
  case (Cons x xs)
  show ?case
  proof
    assume "rmap f (x # xs) = Inr ys"
    then obtain y zs where "f x = Inr y" "rmap f xs = Inr zs" "ys = y # zs"
      by (auto simp: rbind_eq_Inr)
    then show "length ys = length (x # xs) \<and> (\<forall>i < length (x # xs). f ((x # xs) ! i) = Inr (ys ! i))"
      using Cons.IH [of zs] by (auto simp: nth_Cons split: nat.splits)
  next
    assume a: "length ys = length (x # xs) \<and> (\<forall>i < length (x # xs). f ((x # xs) ! i) = Inr (ys ! i))"
    then obtain y zs where ys: "ys = y # zs" by (cases ys) auto
    with a have "f x = Inr y" by auto
    moreover have "rmap f xs = Inr zs"
      using a ys Cons.IH [of zs] by fastforce
    ultimately show "rmap f (x # xs) = Inr ys" using ys by simp
  qed
qed

lemma rmap_length: "rmap f xs = Inr ys \<Longrightarrow> length ys = length xs"
  by (simp add: rmap_Inr_iff)

lemma rmap_all_Inr: "(\<And>x. x \<in> set xs \<Longrightarrow> f x = Inr (g x)) \<Longrightarrow> rmap f xs = Inr (map g xs)"
  by (induction xs) auto

lemma rmap_Inr_mem: "rmap f xs = Inr ys \<Longrightarrow> x \<in> set xs \<Longrightarrow> \<exists>y. f x = Inr y"
  by (induction xs arbitrary: ys) (auto simp: rbind_eq_Inr)

lemma rfold_append:
  "rfold f s (xs @ ys) = rbind (rfold f s xs) (\<lambda>s'. rfold f s' ys)"
proof (induction xs arbitrary: s)
  case Nil
  then show ?case by simp
next
  case (Cons x xs)
  then show ?case by (cases "f s x") auto
qed

lemma rfold_invariant:
  assumes "rfold f s xs = Inr s'" and "P s"
    and "\<And>s x s'. P s \<Longrightarrow> x \<in> set xs \<Longrightarrow> f s x = Inr s' \<Longrightarrow> P s'"
  shows "P s'"
  using assms
proof (induction xs arbitrary: s)
  case Nil
  then show ?case by simp
next
  case (Cons x xs)
  from Cons.prems(1) obtain t where t: "f s x = Inr t" "rfold f t xs = Inr s'"
    by (auto simp: rbind_eq_Inr)
  have "P t" using Cons.prems(3) [OF Cons.prems(2) _ t(1)] by simp
  from t(2) this show ?case
    by (rule Cons.IH) (rule Cons.prems(3), auto)
qed

section \<open>Text\<close>

text \<open>A string literal of the source, as code points.\<close>

definition ascii :: "string \<Rightarrow> str" where
  "ascii s = map of_char s"

lemma ascii_eq_iff [simp]: "ascii a = ascii b \<longleftrightarrow> a = b"
  unfolding ascii_def by (rule inj_map_eq_map) (simp add: inj_def)

lemma ascii_Nil_iff [simp]: "ascii a = [] \<longleftrightarrow> a = []"
  and ascii_Nil_iff' [simp]: "[] = ascii a \<longleftrightarrow> a = []"
  by (auto simp: ascii_def)

lemma length_ascii [simp]: "length (ascii s) = length s"
  by (simp add: ascii_def)

text \<open>\<open>str.isspace\<close> for one code point (the Unicode white space CPython strips).\<close>

definition py_isspace :: "nat \<Rightarrow> bool" where
  "py_isspace c \<longleftrightarrow> c \<in> {9, 10, 11, 12, 13, 28, 29, 30, 31, 32, 133, 160, 5760,
     8192, 8193, 8194, 8195, 8196, 8197, 8198, 8199, 8200, 8201, 8202,
     8232, 8233, 8239, 8287, 12288}"

definition lstrip_of :: "('a \<Rightarrow> bool) \<Rightarrow> 'a list \<Rightarrow> 'a list" where
  "lstrip_of p s = dropWhile p s"

definition rstrip_of :: "('a \<Rightarrow> bool) \<Rightarrow> 'a list \<Rightarrow> 'a list" where
  "rstrip_of p s = rev (dropWhile p (rev s))"

text \<open>\<open>str.strip()\<close>.\<close>

definition strip :: "str \<Rightarrow> str" where
  "strip s = rstrip_of py_isspace (lstrip_of py_isspace s)"

text \<open>\<open>str.lower()\<close> on the ASCII letters; every other code point is left alone.\<close>

definition lower_ascii :: "str \<Rightarrow> str" where
  "lower_ascii s = map (\<lambda>c. if 65 \<le> c \<and> c \<le> 90 then c + 32 else c) s"

text \<open>\<open>s.split(sep)\<close> for a one-element separator: always at least one part.\<close>

fun split_on :: "'a \<Rightarrow> 'a list \<Rightarrow> 'a list list" where
  "split_on sep [] = [[]]"
| "split_on sep (c # cs) =
     (if c = sep then [] # split_on sep cs
      else case split_on sep cs of [] \<Rightarrow> [[c]] | p # ps \<Rightarrow> (c # p) # ps)"

text \<open>\<open>sep.join(parts)\<close> for a one-element separator.\<close>

fun join_with :: "'a \<Rightarrow> 'a list list \<Rightarrow> 'a list" where
  "join_with sep [] = []"
| "join_with sep [p] = p"
| "join_with sep (p # ps) = p @ sep # join_with sep ps"

definition is_prefix_of :: "'a list \<Rightarrow> 'a list \<Rightarrow> bool" where
  "is_prefix_of p s \<longleftrightarrow> take (length p) s = p"

text \<open>\<open>needle in haystack\<close> for sequences.\<close>

fun contains_sub :: "'a list \<Rightarrow> 'a list \<Rightarrow> bool" where
  "contains_sub needle [] = (needle = [])"
| "contains_sub needle (c # cs) = (is_prefix_of needle (c # cs) \<or> contains_sub needle cs)"

text \<open>\<open>s[-n:]\<close> for a positive \<open>n\<close>.\<close>

definition last_n :: "nat \<Rightarrow> 'a list \<Rightarrow> 'a list" where
  "last_n n s = drop (length s - n) s"

lemma split_on_not_Nil [simp]: "split_on sep s \<noteq> []"
  by (induction s) (auto split: list.splits)

lemma join_split [simp]: "join_with sep (split_on sep s) = s"
proof (induction s)
  case Nil
  then show ?case by simp
next
  case (Cons c cs)
  obtain p ps where ps: "split_on sep cs = p # ps"
    by (cases "split_on sep cs") auto
  show ?case
  proof (cases "c = sep")
    case True
    with Cons.IH ps show ?thesis by simp
  next
    case False
    with Cons.IH ps show ?thesis by (cases ps) simp_all
  qed
qed

lemma split_on_no_sep: "sep \<notin> set s \<Longrightarrow> split_on sep s = [s]"
  by (induction s) auto

lemma split_on_append:
  "sep \<notin> set p \<Longrightarrow> split_on sep (p @ sep # s) = p # split_on sep s"
  by (induction p) auto

lemma split_join:
  "ps \<noteq> [] \<Longrightarrow> \<forall>p \<in> set ps. sep \<notin> set p \<Longrightarrow> split_on sep (join_with sep ps) = ps"
proof (induction sep ps rule: join_with.induct)
  case (2 sep p)
  then show ?case by (simp add: split_on_no_sep)
next
  case (3 sep p q ps)
  then show ?case by (simp add: split_on_append)
qed simp

lemma split_on_parts: "p \<in> set (split_on sep s) \<Longrightarrow> sep \<notin> set p"
proof (induction s arbitrary: p)
  case Nil
  then show ?case by simp
next
  case (Cons c cs)
  then show ?case
    by (cases "split_on sep cs") (auto split: if_splits)
qed

lemma is_prefix_of_iff: "is_prefix_of p s \<longleftrightarrow> (\<exists>t. s = p @ t)"
proof
  assume "is_prefix_of p s"
  then have "s = p @ drop (length p) s"
    by (metis append_take_drop_id is_prefix_of_def)
  then show "\<exists>t. s = p @ t" by blast
next
  assume "\<exists>t. s = p @ t"
  then show "is_prefix_of p s" by (auto simp: is_prefix_of_def)
qed

lemma is_prefix_of_append [simp]: "is_prefix_of p (p @ t)"
  by (simp add: is_prefix_of_def)

lemma contains_sub_iff: "contains_sub n s \<longleftrightarrow> (\<exists>a b. s = a @ n @ b)"
proof (induction s)
  case Nil
  then show ?case by auto
next
  case (Cons c cs)
  show ?case
  proof
    assume "contains_sub n (c # cs)"
    then consider "is_prefix_of n (c # cs)" | "contains_sub n cs" by auto
    then show "\<exists>a b. c # cs = a @ n @ b"
    proof cases
      case 1
      then show ?thesis by (metis append_Nil is_prefix_of_iff)
    next
      case 2
      with Cons.IH obtain a b where "cs = a @ n @ b" by blast
      then have "c # cs = (c # a) @ n @ b" by simp
      then show ?thesis by blast
    qed
  next
    assume "\<exists>a b. c # cs = a @ n @ b"
    then obtain a b where ab: "c # cs = a @ n @ b" by blast
    show "contains_sub n (c # cs)"
    proof (cases a)
      case Nil
      with ab have "is_prefix_of n (c # cs)" by (auto simp: is_prefix_of_iff)
      then show ?thesis by simp
    next
      case (Cons d a')
      with ab have "cs = a' @ n @ b" by simp
      with \<open>contains_sub n cs = _\<close> show ?thesis by auto
    qed
  qed
qed

lemma length_last_n [simp]: "length (last_n n s) = min n (length s)"
  by (simp add: last_n_def)

lemma last_n_suffix: "\<exists>t. s = t @ last_n n s"
  by (metis append_take_drop_id last_n_def)

lemma set_strip: "set (strip s) \<subseteq> set s"
  unfolding strip_def rstrip_of_def lstrip_of_def
  by (metis set_dropWhileD set_rev subsetI)

section \<open>Machine integers inside Python integers\<close>

text \<open>\<open>x & 0xFF\<close> as one element of a \<open>bytes\<close> object.\<close>

definition byte_of :: "int \<Rightarrow> byte" where
  "byte_of x = word_of_int x"

lemma uint_byte_of: "uint (byte_of x) = x mod 256"
  by (simp add: byte_of_def uint_word_of_int)

lemma uint_byte_of_small [simp]: "0 \<le> x \<Longrightarrow> x < 256 \<Longrightarrow> uint (byte_of x) = x"
  by (simp add: uint_byte_of)

lemma byte_of_uint [simp]: "byte_of (uint (b :: byte)) = b"
  by (simp add: byte_of_def)

lemma uint_byte_range [simp]: "0 \<le> uint (b :: byte)" "uint (b :: byte) < 256"
  using uint_bounded [of b] by simp_all

lemma int_or_shift: "0 \<le> a \<Longrightarrow> a < 2 ^ k \<Longrightarrow> (a :: int) OR push_bit k b = a + 2 ^ k * b"
proof -
  assume a: "0 \<le> a" "a < 2 ^ k"
  have "a AND push_bit k b = 0"
  proof (rule bit_eqI)
    fix n
    have "\<not> bit a n" if "k \<le> n"
    proof -
      have "a = take_bit k a" using a by (simp add: take_bit_int_eq_self)
      then show ?thesis using that by (metis bit_take_bit_iff leD)
    qed
    then show "bit (a AND push_bit k b) n = bit 0 n"
      by (auto simp: bit_and_iff bit_push_bit_iff)
  qed
  then have "a OR push_bit k b = a + push_bit k b"
    by (simp add: disjunctive_add_eq_or)
  then show ?thesis by (simp add: push_bit_eq_mult)
qed

lemma int_or_shift8: "0 \<le> a \<Longrightarrow> a < 256 \<Longrightarrow> (a :: int) OR push_bit 8 b = a + 256 * b"
  using int_or_shift [of a 8 b] by simp

lemma int_split8: "(x :: int) = x mod 256 + 256 * (x div 256)"
  by simp

end
