(* ===== verification/Py_Float.thy ===== *)
theory Py_Float
  imports Prelude "HOL-Library.Log_Nat"
begin

text \<open>
  Python's \<open>float\<close> (IEEE 754 binary64) and the binary32 format of \<open>struct\<close>'s \<open>f\<close>, as bit
  patterns, with the operations the Modbus and Sparkplug codecs use: the widening done by
  \<open>struct.unpack\<close>, the rounding done by \<open>struct.pack\<close> and by \<open>float(int)\<close>, products,
  quotients, \<open>round()\<close>, and numeric equality. Every finite value of a format is an integer
  multiple of its smallest subnormal, so rounding is integer arithmetic: \<open>fp_scaled\<close> is that
  multiple and \<open>fp_round\<close> the pattern nearest to a fraction of it (ties to even). Not-a-number
  payloads are quieted on conversion, as the hardware conversion does.
\<close>

type_synonym f64 = "64 word"
type_synonym f32 = "32 word"

section \<open>Rounding\<close>

definition round_half_even :: "nat \<Rightarrow> nat \<Rightarrow> nat" where
  "round_half_even n d =
     (let q = n div d; r = n mod d in
      if 2 * r < d then q
      else if d < 2 * r then q + 1
      else if even q then q else q + 1)"

definition fp_scaled :: "nat \<Rightarrow> nat \<Rightarrow> nat" where
  "fp_scaled fb p =
     (let e = p div 2 ^ fb; f = p mod 2 ^ fb in
      if e = 0 then f else (2 ^ fb + f) * 2 ^ (e - 1))"

definition fp_shift :: "nat \<Rightarrow> nat \<Rightarrow> nat" where
  "fp_shift fb t = (if t < 2 ^ (fb + 1) then 0 else floorlog 2 t - (fb + 1))"

definition fp_round :: "nat \<Rightarrow> nat \<Rightarrow> nat \<Rightarrow> nat" where
  "fp_round fb n d =
     (let k = fp_shift fb (n div d) in k * 2 ^ fb + round_half_even n (d * 2 ^ k))"

section \<open>The two formats\<close>

definition f64_inf :: nat where "f64_inf = 0x7FF0000000000000"
definition f32_inf :: nat where "f32_inf = 0x7F800000"

text \<open>The units: binary64 counts \<open>2^-1074\<close>, binary32 counts \<open>2^-149\<close>.\<close>

definition f64_unit_exp :: nat where "f64_unit_exp = 1074"
definition f64_per_f32 :: nat where "f64_per_f32 = 2 ^ 925"

definition f64_neg :: "f64 \<Rightarrow> bool" where "f64_neg w \<longleftrightarrow> 2 ^ 63 \<le> unat w"
definition f64_mag :: "f64 \<Rightarrow> nat" where "f64_mag w = unat w mod 2 ^ 63"
definition f32_neg :: "f32 \<Rightarrow> bool" where "f32_neg w \<longleftrightarrow> 2 ^ 31 \<le> unat w"
definition f32_mag :: "f32 \<Rightarrow> nat" where "f32_mag w = unat w mod 2 ^ 31"

definition mk_f64 :: "bool \<Rightarrow> nat \<Rightarrow> f64" where
  "mk_f64 s m = of_nat (m + (if s then 2 ^ 63 else 0))"
definition mk_f32 :: "bool \<Rightarrow> nat \<Rightarrow> f32" where
  "mk_f32 s m = of_nat (m + (if s then 2 ^ 31 else 0))"

definition f64_isnan :: "f64 \<Rightarrow> bool" where "f64_isnan w \<longleftrightarrow> f64_inf < f64_mag w"
definition f64_isinf :: "f64 \<Rightarrow> bool" where "f64_isinf w \<longleftrightarrow> f64_mag w = f64_inf"
definition f64_isfinite :: "f64 \<Rightarrow> bool" where "f64_isfinite w \<longleftrightarrow> f64_mag w < f64_inf"
definition f32_isnan :: "f32 \<Rightarrow> bool" where "f32_isnan w \<longleftrightarrow> f32_inf < f32_mag w"

definition f64_zero :: f64 where "f64_zero = 0"
definition f64_one :: f64 where "f64_one = 0x3FF0000000000000"
definition f64_nan :: f64 where "f64_nan = 0x7FF8000000000000"

text \<open>\<open>bool(x)\<close>: only the two zeros are false.\<close>

definition f64_truthy :: "f64 \<Rightarrow> bool" where "f64_truthy w \<longleftrightarrow> f64_mag w \<noteq> 0"

definition f64_scaled :: "f64 \<Rightarrow> nat" where "f64_scaled w = fp_scaled 52 (f64_mag w)"

text \<open>Round a magnitude \<open>n / d\<close> (in units of \<open>2^-1074\<close>); \<open>None\<close> when it exceeds the format.\<close>

definition f64_of_ratio :: "bool \<Rightarrow> nat \<Rightarrow> nat \<Rightarrow> f64 option" where
  "f64_of_ratio s n d =
     (let p = fp_round 52 n d in if p < f64_inf then Some (mk_f64 s p) else None)"

section \<open>Operations\<close>

text \<open>\<open>float(i)\<close>: \<open>None\<close> is the \<open>OverflowError\<close>.\<close>

definition f64_of_int :: "int \<Rightarrow> f64 option" where
  "f64_of_int i = f64_of_ratio (i < 0) (nat \<bar>i\<bar> * 2 ^ f64_unit_exp) 1"

text \<open>\<open>struct.unpack("f", ...)\<close>.\<close>

definition f64_of_f32 :: "f32 \<Rightarrow> f64" where
  "f64_of_f32 w =
     (let m = f32_mag w in
      if f32_inf < m then mk_f64 (f32_neg w) (f64_inf + ((m mod 2 ^ 22) + 2 ^ 22) * 2 ^ 29)
      else if m = f32_inf then mk_f64 (f32_neg w) f64_inf
      else mk_f64 (f32_neg w) (fp_round 52 (fp_scaled 23 m * f64_per_f32) 1))"

text \<open>\<open>struct.pack("f", x)\<close>: \<open>None\<close> is the \<open>OverflowError\<close> for a finite value too large.\<close>

definition f32_of_f64 :: "f64 \<Rightarrow> f32 option" where
  "f32_of_f64 w =
     (let m = f64_mag w in
      if f64_inf < m then Some (mk_f32 (f64_neg w) (f32_inf + 2 ^ 22 + (m div 2 ^ 29) mod 2 ^ 22))
      else if m = f64_inf then Some (mk_f32 (f64_neg w) f32_inf)
      else let p = fp_round 23 (fp_scaled 52 m) f64_per_f32 in
           if p < f32_inf then Some (mk_f32 (f64_neg w) p) else None)"

definition f64_mul :: "f64 \<Rightarrow> f64 \<Rightarrow> f64" where
  "f64_mul a b =
     (let s = (f64_neg a \<noteq> f64_neg b) in
      if f64_isnan a \<or> f64_isnan b then f64_nan
      else if f64_isinf a \<or> f64_isinf b then
        (if \<not> f64_truthy a \<or> \<not> f64_truthy b then f64_nan else mk_f64 s f64_inf)
      else case f64_of_ratio s (f64_scaled a * f64_scaled b) (2 ^ f64_unit_exp) of
             Some r \<Rightarrow> r | None \<Rightarrow> mk_f64 s f64_inf)"

text \<open>\<open>a / b\<close> for a non-zero \<open>b\<close> (the callers test \<open>b\<close> first).\<close>

definition f64_div :: "f64 \<Rightarrow> f64 \<Rightarrow> f64" where
  "f64_div a b =
     (let s = (f64_neg a \<noteq> f64_neg b) in
      if f64_isnan a \<or> f64_isnan b then f64_nan
      else if f64_isinf a then (if f64_isinf b then f64_nan else mk_f64 s f64_inf)
      else if f64_isinf b then mk_f64 s 0
      else case f64_of_ratio s (f64_scaled a * 2 ^ f64_unit_exp) (f64_scaled b) of
             Some r \<Rightarrow> r | None \<Rightarrow> mk_f64 s f64_inf)"

text \<open>\<open>round(x)\<close> of a finite float: the nearest integer, ties to even.\<close>

definition f64_round :: "f64 \<Rightarrow> int" where
  "f64_round w =
     (let r = int (round_half_even (f64_scaled w) (2 ^ f64_unit_exp)) in
      if f64_neg w then - r else r)"

text \<open>\<open>==\<close> between two floats, and between an integer and a float.\<close>

definition f64_eq :: "f64 \<Rightarrow> f64 \<Rightarrow> bool" where
  "f64_eq a b \<longleftrightarrow> \<not> f64_isnan a \<and> \<not> f64_isnan b \<and>
     (a = b \<or> (f64_mag a = 0 \<and> f64_mag b = 0))"

definition f64_eq_int :: "f64 \<Rightarrow> int \<Rightarrow> bool" where
  "f64_eq_int a i \<longleftrightarrow> f64_isfinite a \<and> f64_scaled a = nat \<bar>i\<bar> * 2 ^ f64_unit_exp \<and>
     (f64_scaled a = 0 \<or> f64_neg a = (i < 0))"

section \<open>Exactness\<close>

lemma round_half_even_exact: "0 < d \<Longrightarrow> round_half_even (q * d) d = q"
  by (simp add: round_half_even_def Let_def)

lemma round_half_even_1 [simp]: "round_half_even q 1 = q" "round_half_even q (Suc 0) = q"
  by (simp_all add: round_half_even_def Let_def)

lemma round_half_even_cancel: "0 < c \<Longrightarrow> round_half_even (n * c) (d * c) = round_half_even n d"
proof -
  assume c: "0 < c"
  have "(n * c) mod (d * c) = (n mod d) * c" by (rule mult_mod_left [symmetric])
  moreover have "2 * (r * c) < d * c \<longleftrightarrow> 2 * r < d" "d * c < 2 * (r * c) \<longleftrightarrow> d < 2 * r" for r
    using c by (metis mult.assoc mult_less_cancel2)+
  ultimately show ?thesis using c by (simp add: round_half_even_def Let_def)
qed

lemma fp_round_cancel: "0 < c \<Longrightarrow> fp_round fb (n * c) c = fp_round fb n 1"
  using round_half_even_cancel [of c n "2 ^ fp_shift fb n"]
  by (simp add: fp_round_def Let_def mult.commute)

lemma floorlog_eqI:
  assumes "2 ^ k \<le> t" "t < (2 :: nat) ^ (k + 1)"
  shows "floorlog 2 t = k + 1"
  using floorlog_leI [OF assms(2)] floorlog_ge_SucI [OF assms(1)] by simp

text \<open>Rounding a value of the format gives back its own pattern.\<close>

lemma fp_round_scaled [simp]: "fp_round fb (fp_scaled fb p) 1 = p"
proof (cases "p div 2 ^ fb \<le> 1")
  case True
  have p: "p = (p div 2 ^ fb) * 2 ^ fb + p mod 2 ^ fb" by (rule div_mult_mod_eq [symmetric])
  have f: "p mod 2 ^ fb < 2 ^ fb" by simp
  have s: "fp_scaled fb p = p"
    using True p by (cases "p div 2 ^ fb") (auto simp: fp_scaled_def Let_def)
  have "p < 2 ^ (fb + 1)"
  proof -
    have "(p div 2 ^ fb) * 2 ^ fb \<le> 1 * 2 ^ fb" using True by (rule mult_le_mono1)
    with p f have "p < 1 * 2 ^ fb + 2 ^ fb" by linarith
    then show ?thesis by simp
  qed
  with s show ?thesis by (simp add: fp_round_def fp_shift_def)
next
  case False
  define e where "e = p div 2 ^ fb"
  define f where "f = p mod 2 ^ fb"
  have e: "2 \<le> e" using False e_def by simp
  have f: "f < 2 ^ fb" by (simp add: f_def)
  have s: "fp_scaled fb p = (2 ^ fb + f) * 2 ^ (e - 1)"
    using e by (simp add: fp_scaled_def Let_def e_def f_def)
  have lo: "2 ^ (fb + (e - 1)) \<le> fp_scaled fb p"
    unfolding s power_add by (rule mult_le_mono1) simp
  have hi: "fp_scaled fb p < 2 ^ (fb + (e - 1) + 1)"
  proof -
    have "(2 ^ fb + f) * 2 ^ (e - 1) < (2 ^ fb + 2 ^ fb) * 2 ^ (e - 1)" using f by simp
    also have "\<dots> = 2 ^ (fb + (e - 1) + 1)" by (simp add: power_add)
    finally show ?thesis by (simp add: s)
  qed
  have fl: "floorlog 2 (fp_scaled fb p) = fb + (e - 1) + 1"
    by (rule floorlog_eqI [OF lo hi])
  have "(2 :: nat) ^ (fb + 1) \<le> 2 ^ (fb + (e - 1))"
    using e by (intro power_increasing) auto
  with lo have big: "\<not> fp_scaled fb p < 2 ^ (fb + 1)" by linarith
  have k: "fp_shift fb (fp_scaled fb p) = e - 1"
    using big fl by (simp add: fp_shift_def)
  have "fp_round fb (fp_scaled fb p) 1 = (e - 1) * 2 ^ fb + (2 ^ fb + f)"
    using k s round_half_even_exact [of "2 ^ (e - 1)" "2 ^ fb + f"]
    by (simp add: fp_round_def Let_def)
  also have "\<dots> = e * 2 ^ fb + f"
    using e by (cases e) auto
  also have "\<dots> = p" unfolding e_def f_def by (rule div_mult_mod_eq)
  finally show ?thesis .
qed

text \<open>A multiple of a power of two with at most \<open>fb + 1\<close> significant bits is represented exactly.\<close>

lemma fp_scaled_round_exact:
  assumes m: "m < 2 ^ (fb + 1)"
  shows "fp_scaled fb (fp_round fb (m * 2 ^ j) 1) = m * 2 ^ j"
proof (cases "m * 2 ^ j < 2 ^ (fb + 1)")
  case True
  define n where "n = m * 2 ^ j"
  have n: "n < 2 * 2 ^ fb" using True n_def by simp
  have "fp_round fb n 1 = n" using True by (simp add: fp_round_def fp_shift_def n_def)
  moreover have "fp_scaled fb n = n"
  proof (cases "n < 2 ^ fb")
    case False
    then have "n div 2 ^ fb = 1" using n by (intro div_nat_eqI) auto
    then show ?thesis
      using div_mult_mod_eq [of n "2 ^ fb"] by (simp add: fp_scaled_def Let_def)
  qed (simp add: fp_scaled_def)
  ultimately show ?thesis by (simp add: n_def)
next
  case False
  define n where "n = m * 2 ^ j"
  define k where "k = floorlog 2 n - (fb + 1)"
  have m0: "0 < m" using False by (cases m) auto
  have fl: "floorlog 2 n = floorlog 2 m + j" unfolding n_def using m0 by (intro floorlog_power) auto
  have flm: "floorlog 2 m \<le> fb + 1" using m by (intro floorlog_leI) auto
  then have kj: "k \<le> j" using fl by (simp add: k_def)
  have big: "fb + 1 < floorlog 2 n"
  proof -
    have "2 ^ (fb + 1) \<le> n" using False n_def by simp
    then show ?thesis using floorlog_ge_SucI [of 2 "fb + 1" n] by simp
  qed
  then have kfl: "floorlog 2 n = fb + 1 + k" and k0: "0 < k" by (simp_all add: k_def)
  define q where "q = m * 2 ^ (j - k)"
  have nq: "n = q * 2 ^ k"
    using kj by (simp add: q_def n_def mult.assoc flip: power_add)
  have n0: "0 < n" using m0 n_def by simp
  have "2 ^ (fb + k) \<le> n \<and> n < 2 ^ (fb + 1 + k)"
    using floorlog_bounds [OF n0, of 2] kfl by simp
  then have "2 ^ fb * 2 ^ k \<le> q * 2 ^ k \<and> q * 2 ^ k < (2 ^ fb * 2) * 2 ^ k"
    by (simp add: nq power_add mult.commute mult.left_commute)
  then have ql: "2 ^ fb \<le> q" and qh: "q < 2 * 2 ^ fb" by auto
  have sh: "fp_shift fb n = k"
    using False by (simp add: fp_shift_def k_def n_def)
  have r: "fp_round fb n 1 = k * 2 ^ fb + q"
    using sh round_half_even_exact [of "2 ^ k" q] by (simp add: fp_round_def Let_def nq)
  have e: "(k * 2 ^ fb + q) div 2 ^ fb = k + 1"
  proof -
    have "q div 2 ^ fb = 1" using ql qh by (intro div_nat_eqI) auto
    then show ?thesis by simp
  qed
  have f: "(k * 2 ^ fb + q) mod 2 ^ fb = q - 2 ^ fb"
  proof -
    have "q mod 2 ^ fb = (q - 2 ^ fb) mod 2 ^ fb" using ql by (simp add: le_mod_geq)
    also have "\<dots> = q - 2 ^ fb" using ql qh by simp
    finally show ?thesis by simp
  qed
  have "fp_scaled fb (k * 2 ^ fb + q) = q * 2 ^ k"
    unfolding fp_scaled_def Let_def e f using ql by simp
  with r nq show ?thesis by (simp add: n_def)
qed

lemma fp_scaled_bound:
  assumes "fp_scaled fb p < 2 ^ (fb + c)"
  shows "p < (c + 1) * 2 ^ fb"
proof (rule ccontr)
  assume "\<not> p < (c + 1) * 2 ^ fb"
  then have e: "c + 1 \<le> p div 2 ^ fb"
    by (simp add: less_eq_div_iff_mult_less_eq)
  then have "2 ^ fb * 2 ^ c \<le> (2 ^ fb + p mod 2 ^ fb) * 2 ^ (p div 2 ^ fb - 1)"
    by (intro mult_le_mono power_increasing) auto
  also have "\<dots> = fp_scaled fb p" using e by (simp add: fp_scaled_def Let_def)
  finally show False using assms by (simp add: power_add)
qed

section \<open>Patterns\<close>

lemma f64_mk [simp]:
  assumes "m < 2 ^ 63"
  shows "f64_mag (mk_f64 s m) = m" and "f64_neg (mk_f64 s m) = s"
proof -
  have u: "unat (mk_f64 s m) = m + (if s then 2 ^ 63 else 0)"
    using assms by (simp add: mk_f64_def unat_of_nat del: of_nat_add)
  show "f64_mag (mk_f64 s m) = m" and "f64_neg (mk_f64 s m) = s"
    using assms by (auto simp: f64_mag_def f64_neg_def u)
qed

lemma mk_f32_self [simp]: "mk_f32 (f32_neg w) (f32_mag w) = w"
proof -
  have "unat w < 2 * 2 ^ 31" using unsigned_less [of w] by simp
  then have "f32_mag w + (if f32_neg w then 2 ^ 31 else 0) = unat w"
    by (simp add: f32_mag_def f32_neg_def le_mod_geq)
  then show ?thesis by (simp add: mk_f32_def)
qed

lemma f32_mag_less: "f32_mag w < 2 ^ 31"
  by (simp add: f32_mag_def)

lemma fp_scaled_f32:
  assumes "p < f32_inf"
  obtains m j where "fp_scaled 23 p = m * 2 ^ j" "m < 2 ^ 24" "j \<le> 253"
proof -
  have e: "p div 2 ^ 23 < 255" using assms by (simp add: f32_inf_def less_mult_imp_div_less)
  have f: "p mod 2 ^ 23 < 2 ^ 23" by simp
  show ?thesis
  proof (cases "p div 2 ^ 23 = 0")
    case True
    then have "fp_scaled 23 p = (p mod 2 ^ 23) * 2 ^ 0" by (simp add: fp_scaled_def Let_def)
    with f show ?thesis by (intro that) auto
  next
    case False
    then have "fp_scaled 23 p = (2 ^ 23 + p mod 2 ^ 23) * 2 ^ (p div 2 ^ 23 - 1)"
      by (simp add: fp_scaled_def Let_def)
    with f e False show ?thesis by (intro that) auto
  qed
qed

text \<open>Widening a finite value is exact.\<close>

lemma f64_of_f32_exact:
  assumes p: "f32_mag w < f32_inf"
  obtains q where "f64_of_f32 w = mk_f64 (f32_neg w) q" "q < f64_inf" "q < 2 ^ 63"
    "fp_scaled 52 q = fp_scaled 23 (f32_mag w) * f64_per_f32"
proof -
  define n where "n = fp_scaled 23 (f32_mag w) * f64_per_f32"
  define q where "q = fp_round 52 n 1"
  obtain m j where mj: "fp_scaled 23 (f32_mag w) = m * 2 ^ j" "m < 2 ^ 24" "j \<le> 253"
    using p by (rule fp_scaled_f32)
  have nmj: "n = m * 2 ^ (j + 925)"
    by (simp add: n_def mj(1) f64_per_f32_def power_add)
  have "m < 2 ^ (52 + 1)" using mj(2) by simp
  then have ex: "fp_scaled 52 q = n"
    unfolding q_def nmj by (rule fp_scaled_round_exact)
  have "n < 2 ^ 24 * 2 ^ (j + 925)" unfolding nmj using mj(2) by simp
  also have "\<dots> \<le> 2 ^ 24 * 2 ^ 1178"
    using mj(3) by (intro mult_le_mono2 power_increasing) auto
  finally have "fp_scaled 52 q < 2 ^ (52 + 1150)" unfolding ex by (simp flip: power_add)
  then have "q < 1151 * 2 ^ 52" using fp_scaled_bound [of 52 q 1150] by simp
  then have "q < 2 ^ 63" "q < f64_inf" by (simp_all add: f64_inf_def)
  moreover have "f64_of_f32 w = mk_f64 (f32_neg w) q"
    using p by (simp add: f64_of_f32_def Let_def q_def n_def)
  ultimately show ?thesis using ex n_def that by blast
qed

lemma f64_of_f32_finite: "f32_mag w < f32_inf \<Longrightarrow> f64_isfinite (f64_of_f32 w)"
  by (erule f64_of_f32_exact) (simp add: f64_isfinite_def)

text \<open>Packing the widened value restores every pattern but a not-a-number.\<close>

lemma f32_of_f64_of_f32:
  assumes "\<not> f32_isnan w"
  shows "f32_of_f64 (f64_of_f32 w) = Some w"
proof (cases "f32_mag w = f32_inf")
  case True
  have "f64_of_f32 w = mk_f64 (f32_neg w) f64_inf"
    using True by (simp add: f64_of_f32_def Let_def)
  then show ?thesis
    using True mk_f32_self [of w] by (simp add: f32_of_f64_def f64_inf_def)
next
  case False
  then have p: "f32_mag w < f32_inf" using assms by (simp add: f32_isnan_def)
  then obtain q where q: "f64_of_f32 w = mk_f64 (f32_neg w) q" "q < f64_inf" "q < 2 ^ 63"
    "fp_scaled 52 q = fp_scaled 23 (f32_mag w) * f64_per_f32"
    by (rule f64_of_f32_exact)
  have "fp_round 23 (fp_scaled 52 q) f64_per_f32 = f32_mag w"
    unfolding q(4) using fp_round_cancel [of f64_per_f32 23 "fp_scaled 23 (f32_mag w)"]
      fp_round_scaled [of 23 "f32_mag w"] by (simp add: f64_per_f32_def del: fp_round_scaled)
  then show ?thesis
    using p q mk_f32_self [of w] by (simp add: f32_of_f64_def Let_def)
qed

end
