(* ===== verification/Py_Value.thy ===== *)
theory Py_Value
  imports Py_Float
begin

text \<open>
  The dynamically typed values that reach a run-time type test in the sources
  (\<open>isinstance(value, int)\<close>, \<open>isinstance(value, bool)\<close>, ...), Python's truth value and its
  \<open>==\<close> on them, and the big-endian integer layouts of \<open>struct\<close> and \<open>int.to_bytes\<close>.
\<close>

datatype pyval =
    VNone
  | VBool bool
  | VInt int
  | VFloat f64
  | VStr str
  | VBytes bytes
  | VList "pyval list"

text \<open>\<open>isinstance(v, int)\<close> holds of booleans too; \<open>as_int\<close> is the integer such a value stands for.\<close>

fun as_int :: "pyval \<Rightarrow> int option" where
  "as_int (VBool b) = Some (of_bool b)"
| "as_int (VInt i) = Some i"
| "as_int _ = None"

text \<open>\<open>isinstance(v, int) and not isinstance(v, bool)\<close>.\<close>

fun proper_int :: "pyval \<Rightarrow> int option" where
  "proper_int (VInt i) = Some i"
| "proper_int _ = None"

fun truthy :: "pyval \<Rightarrow> bool" where
  "truthy VNone = False"
| "truthy (VBool b) = b"
| "truthy (VInt i) = (i \<noteq> 0)"
| "truthy (VFloat f) = f64_truthy f"
| "truthy (VStr s) = (s \<noteq> [])"
| "truthy (VBytes b) = (b \<noteq> [])"
| "truthy (VList l) = (l \<noteq> [])"

text \<open>\<open>==\<close>: numbers compare by value across \<open>bool\<close>, \<open>int\<close> and \<open>float\<close>.\<close>

fun py_eq :: "pyval \<Rightarrow> pyval \<Rightarrow> bool" where
  "py_eq VNone VNone = True"
| "py_eq (VFloat a) (VFloat b) = f64_eq a b"
| "py_eq (VFloat a) (VInt i) = f64_eq_int a i"
| "py_eq (VInt i) (VFloat a) = f64_eq_int a i"
| "py_eq (VFloat a) (VBool b) = f64_eq_int a (of_bool b)"
| "py_eq (VBool b) (VFloat a) = f64_eq_int a (of_bool b)"
| "py_eq (VInt i) (VInt j) = (i = j)"
| "py_eq (VBool a) (VBool b) = (a = b)"
| "py_eq (VInt i) (VBool b) = (i = of_bool b)"
| "py_eq (VBool b) (VInt i) = (i = of_bool b)"
| "py_eq (VStr a) (VStr b) = (a = b)"
| "py_eq (VBytes a) (VBytes b) = (a = b)"
| "py_eq (VList []) (VList []) = True"
| "py_eq (VList (x # xs)) (VList (y # ys)) = (py_eq x y \<and> py_eq (VList xs) (VList ys))"
| "py_eq _ _ = False"

section \<open>Big-endian integers\<close>

text \<open>\<open>int.from_bytes(b, "big")\<close>.\<close>

definition be_uint :: "bytes \<Rightarrow> int" where
  "be_uint bs = foldl (\<lambda>a b. a * 256 + uint b) 0 bs"

text \<open>The low \<open>n\<close> bytes of an integer, most significant first (two's complement for a negative one).\<close>

fun be_bytes :: "nat \<Rightarrow> int \<Rightarrow> bytes" where
  "be_bytes 0 x = []"
| "be_bytes (Suc n) x = be_bytes n (x div 256) @ [byte_of x]"

definition to_signed :: "nat \<Rightarrow> int \<Rightarrow> int" where
  "to_signed bits x = (if x < 2 ^ (bits - 1) then x else x - 2 ^ bits)"

lemma length_be_bytes [simp]: "length (be_bytes n x) = n"
  by (induction n arbitrary: x) auto

lemma be_uint_append [simp]: "be_uint (bs @ [b]) = be_uint bs * 256 + uint b"
  by (simp add: be_uint_def)

lemma be_uint_Nil [simp]: "be_uint [] = 0"
  by (simp add: be_uint_def)

lemma be_uint_nonneg [simp]: "0 \<le> be_uint bs"
  by (induction bs rule: rev_induct) auto

lemma be_uint_less: "be_uint bs < 256 ^ length bs"
proof (induction bs rule: rev_induct)
  case Nil
  then show ?case by simp
next
  case (snoc b bs)
  have "be_uint bs * 256 + uint b < (be_uint bs + 1) * 256" using uint_byte_range(2) [of b] by simp
  also have "\<dots> \<le> 256 ^ length bs * 256" using snoc by (intro mult_right_mono) auto
  finally show ?case by simp
qed

lemma be_uint_be_bytes: "be_uint (be_bytes n x) = x mod 256 ^ n"
proof (induction n arbitrary: x)
  case 0
  then show ?case by simp
next
  case (Suc n)
  have "be_uint (be_bytes (Suc n) x) = (x div 256) mod 256 ^ n * 256 + x mod 256"
    by (simp add: Suc uint_byte_of)
  also have "\<dots> = x mod (256 * 256 ^ n)"
    by (metis mod_mult2_eq' add.commute mult.commute zmod_zmult2_eq zero_le_numeral zero_le_power)
  finally show ?case by simp
qed

lemma be_bytes_be_uint [simp]: "be_bytes (length bs) (be_uint bs) = bs"
proof (induction bs rule: rev_induct)
  case Nil
  then show ?case by simp
next
  case (snoc b bs)
  have "(be_uint bs * 256 + uint b) div 256 = be_uint bs" by simp
  moreover have "byte_of (be_uint bs * 256 + uint b) = b"
    by (rule word_uint_eqI) (simp add: uint_byte_of)
  ultimately show ?case using snoc by simp
qed

lemma to_signed_mod:
  assumes "0 < bits" "- (2 ^ (bits - 1)) \<le> x" "x < 2 ^ (bits - 1)"
  shows "to_signed bits (x mod 2 ^ bits) = x"
proof -
  have b: "(2 :: int) ^ bits = 2 * 2 ^ (bits - 1)"
    using assms(1) by (cases bits) auto
  show ?thesis
  proof (cases "0 \<le> x")
    case True
    then have "x mod 2 ^ bits = x" using assms(3) b by simp
    then show ?thesis using assms(3) by (simp add: to_signed_def)
  next
    case False
    have "x mod 2 ^ bits = (x + 2 ^ bits) mod 2 ^ bits" by simp
    also have "\<dots> = x + 2 ^ bits"
      using False assms(2) b by (intro mod_pos_pos_trivial) auto
    finally have "x mod 2 ^ bits = x + 2 ^ bits" .
    then show ?thesis using False assms(2) b by (simp add: to_signed_def)
  qed
qed

end
