(* ===== verification/Framing.thy ===== *)
theory Framing
  imports Prelude
begin

text \<open>
  The interface between a streaming frame parser and the loop that drains a receive buffer with
  it. Both the Modbus/TCP server (\<open>ModbusGatewayRunner._on_client\<close>) and the MQTT line publisher
  (\<open>MqttPublisher.feed\<close>) append each received chunk to a buffer and pop complete frames until
  none is left. What such a loop delivers must not depend on how the network cut the stream
  into chunks.
\<close>

text \<open>Pop frames until the parser reports an incomplete buffer or an error.\<close>

fun drain :: "nat \<Rightarrow> ('b list \<Rightarrow> 'e + ('f \<times> 'b list) option) \<Rightarrow> 'b list \<Rightarrow> 'f list \<times> 'e option \<times> 'b list" where
  "drain 0 take_frame buf = ([], None, buf)"
| "drain (Suc n) take_frame buf =
     (case take_frame buf of
        Inl e \<Rightarrow> ([], Some e, buf)
      | Inr None \<Rightarrow> ([], None, buf)
      | Inr (Some (f, rest)) \<Rightarrow>
          (let r = drain n take_frame rest in (f # fst r, snd r)))"

text \<open>One iteration of the receive loop: \<open>buf += data\<close>, then drain.\<close>

definition feed :: "('b list \<Rightarrow> 'e + ('f \<times> 'b list) option) \<Rightarrow> 'b list \<Rightarrow> 'b list \<Rightarrow> 'f list \<times> 'e option \<times> 'b list" where
  "feed take_frame buf data = drain (Suc (length (buf @ data))) take_frame (buf @ data)"

text \<open>The receive loop over a sequence of chunks; a framing error ends it.\<close>

fun feed_all :: "('b list \<Rightarrow> 'e + ('f \<times> 'b list) option) \<Rightarrow> 'b list \<Rightarrow> 'b list list \<Rightarrow> 'f list \<times> 'e option \<times> 'b list" where
  "feed_all take_frame buf [] = ([], None, buf)"
| "feed_all take_frame buf (c # cs) =
     (case feed take_frame buf c of
        (fs, Some e, b) \<Rightarrow> (fs, Some e, b)
      | (fs, None, b) \<Rightarrow> (let r = feed_all take_frame b cs in (fs @ fst r, snd r)))"

locale stream_framing =
  fixes enc :: "'f \<Rightarrow> 'b list"
    and take_frame :: "'b list \<Rightarrow> 'e + ('f \<times> 'b list) option"
    and valid :: "'f \<Rightarrow> bool"
  assumes take_enc: "valid f \<Longrightarrow> take_frame (enc f @ rest) = Inr (Some (f, rest))"
    and take_sound: "take_frame buf = Inr (Some (f, rest)) \<Longrightarrow> valid f \<and> buf = enc f @ rest"
    and take_partial: "valid f \<Longrightarrow> enc f = p @ q \<Longrightarrow> q \<noteq> [] \<Longrightarrow> take_frame p = Inr None"
    and enc_nonempty: "valid f \<Longrightarrow> enc f \<noteq> []"
begin

lemma drain_stream:
  assumes "\<forall>f \<in> set fs. valid f" and "take_frame p = Inr None" and "length fs \<le> n"
  shows "drain n take_frame (concat (map enc fs) @ p) = (fs, None, p)"
  using assms
proof (induction fs arbitrary: n)
  case Nil
  then show ?case by (cases n) auto
next
  case (Cons f fs)
  from Cons.prems(3) obtain m where n: "n = Suc m" "length fs \<le> m"
    by (cases n) auto
  have "take_frame (enc f @ concat (map enc fs) @ p) = Inr (Some (f, concat (map enc fs) @ p))"
    using Cons.prems(1) by (simp add: take_enc)
  moreover have "drain m take_frame (concat (map enc fs) @ p) = (fs, None, p)"
    using Cons.prems n by (intro Cons.IH) auto
  ultimately show ?case using n by simp
qed

lemma enc_injective:
  assumes "valid f" "valid g" "enc f @ x = enc g @ y"
  shows "f = g \<and> x = y"
proof -
  have "take_frame (enc g @ y) = Inr (Some (f, x))"
    using take_enc [OF assms(1), of x] unfolding assms(3) .
  moreover have "take_frame (enc g @ y) = Inr (Some (g, y))" using assms(2) by (rule take_enc)
  ultimately show ?thesis by simp
qed

lemma length_frames: "\<forall>f \<in> set fs. valid f \<Longrightarrow> length fs \<le> length (concat (map enc fs))"
proof (induction fs)
  case Nil
  then show ?case by simp
next
  case (Cons f fs)
  have "0 < length (enc f)" using Cons.prems enc_nonempty by simp
  moreover have "length fs \<le> length (concat (map enc fs))" using Cons by simp
  ultimately have "Suc (length fs) \<le> length (enc f) + length (concat (map enc fs))" by linarith
  then show ?case by simp
qed

text \<open>Any prefix of a stream of frames is some whole frames and a buffer the parser calls incomplete.\<close>

lemma prefix_of_stream:
  assumes "\<forall>f \<in> set fs. valid f"
    and "x @ y = concat (map enc fs) @ p"
    and "\<forall>a b. p = a @ b \<longrightarrow> take_frame a = Inr None"
  shows "\<exists>gs hs r. fs = gs @ hs \<and> x = concat (map enc gs) @ r \<and> take_frame r = Inr None
           \<and> r @ y = concat (map enc hs) @ p"
  using assms
proof (induction fs arbitrary: x)
  case Nil
  then have "take_frame x = Inr None" by auto
  with Nil show ?case by (intro exI [of _ "[]"] exI [of _ x]) simp
next
  case (Cons f fs)
  have vf: "valid f" using Cons.prems(1) by simp
  have "x @ y = enc f @ (concat (map enc fs) @ p)" using Cons.prems(2) by simp
  then obtain us where us: "x = enc f @ us \<or> enc f = x @ us"
    unfolding append_eq_append_conv2 by metis
  show ?case
  proof (cases "length (enc f) \<le> length x")
    case True
    then obtain z where x: "x = enc f @ z" using us by auto
    then have "z @ y = concat (map enc fs) @ p" using Cons.prems(2) by simp
    with Cons.IH [of z] Cons.prems(1,3) obtain gs hs r where
      "fs = gs @ hs" "z = concat (map enc gs) @ r" "take_frame r = Inr None"
      "r @ y = concat (map enc hs) @ p"
      by auto
    with x show ?thesis by (intro exI [of _ "f # gs"] exI [of _ hs] exI [of _ r]) simp
  next
    case False
    then obtain q where q: "enc f = x @ q" "q \<noteq> []" using us by force
    then have "take_frame x = Inr None" using take_partial vf by blast
    with Cons.prems(2) show ?thesis
      by (intro exI [of _ "[]"] exI [of _ "f # fs"] exI [of _ x]) simp
  qed
qed

text \<open>
  The receive loop delivers exactly the frames of the stream, in order, however the stream is cut
  into chunks, and keeps the incomplete tail buffered.
\<close>

lemma feed_all_stream:
  assumes "\<forall>f \<in> set fs. valid f"
    and "buf @ concat cs = concat (map enc fs) @ p"
    and "\<forall>a b. p = a @ b \<longrightarrow> take_frame a = Inr None"
    and "take_frame buf = Inr None"
  shows "feed_all take_frame buf cs = (fs, None, p)"
  using assms
proof (induction cs arbitrary: buf fs)
  case Nil
  have "fs = []"
  proof (cases fs)
    case (Cons f gs)
    with Nil.prems have "take_frame buf = Inr (Some (f, concat (map enc gs) @ p))"
      by (simp add: take_enc)
    with Nil.prems(4) show ?thesis by simp
  qed
  with Nil.prems show ?case by simp
next
  case (Cons c cs)
  have "(buf @ c) @ concat cs = concat (map enc fs) @ p" using Cons.prems(2) by simp
  from prefix_of_stream [OF Cons.prems(1) this Cons.prems(3)] obtain gs hs r where
    fs: "fs = gs @ hs" and x: "buf @ c = concat (map enc gs) @ r" and r: "take_frame r = Inr None"
    and rest: "r @ concat cs = concat (map enc hs) @ p"
    by blast
  have "length gs \<le> length (concat (map enc gs))"
    using Cons.prems(1) fs by (intro length_frames) auto
  then have "length gs \<le> Suc (length (buf @ c))" unfolding x by simp
  then have "feed take_frame buf c = (gs, None, r)"
    using Cons.prems(1) fs r x unfolding feed_def by (metis drain_stream Un_iff set_append)
  moreover have "feed_all take_frame r cs = (hs, None, p)"
    using Cons.prems fs r rest by (intro Cons.IH) auto
  ultimately show ?case using fs by simp
qed

end

end
