(* ===== verification/Modbus.thy ===== *)
theory Modbus
  imports Py_Value Framing
begin

text \<open>
  \<open>app/engine/modbus.py\<close>: the Modbus/RTU and Modbus/TCP envelopes, the request builders, the
  response checks and the register value codec. Every \<open>ValueError\<close> of the source is a
  constructor of \<open>mb_error\<close>; a function that may raise returns \<open>mb_error + 'a\<close>.
\<close>

unbundle bit_operations_syntax

datatype mb_error =
    RtuTooShort | RtuCrcMismatch
  | NotModbusTcp | InvalidMbapLength int
  | EmptyPdu | ModbusException int | UnexpectedFunction | ShortData
  | UnknownDtype | NotEnoughData
  | BadInt | RunsPastEnd | BadCoil | BadReadFunction | BadBitCount
  | NotWriteRequest | ShortWriteResponse | WriteMismatch
  | NotANumber | NotFinite | BadScale | OutOfRange

section \<open>Constants\<close>

definition MBAP_LEN :: nat where "MBAP_LEN = 7"
definition MAX_PDU :: nat where "MAX_PDU = 253"
definition GATEWAY_TARGET_FAILED :: int where "GATEWAY_TARGET_FAILED = 0x0B"
definition READ_COILS :: int where "READ_COILS = 1"
definition READ_DISCRETE_INPUTS :: int where "READ_DISCRETE_INPUTS = 2"
definition WRITE_SINGLE_COIL :: int where "WRITE_SINGLE_COIL = 5"
definition WRITE_SINGLE_REGISTER :: int where "WRITE_SINGLE_REGISTER = 6"
definition WRITE_MULTIPLE_COILS :: int where "WRITE_MULTIPLE_COILS = 15"
definition WRITE_MULTIPLE_REGISTERS :: int where "WRITE_MULTIPLE_REGISTERS = 16"
definition MAX_READ_BITS :: int where "MAX_READ_BITS = 2000"
definition MAX_WRITE_COILS :: int where "MAX_WRITE_COILS = 1968"
definition MAX_WRITE_REGISTERS :: int where "MAX_WRITE_REGISTERS = 123"

lemmas modbus_consts = MBAP_LEN_def MAX_PDU_def GATEWAY_TARGET_FAILED_def READ_COILS_def
  READ_DISCRETE_INPUTS_def WRITE_SINGLE_COIL_def WRITE_SINGLE_REGISTER_def
  WRITE_MULTIPLE_COILS_def WRITE_MULTIPLE_REGISTERS_def MAX_READ_BITS_def
  MAX_WRITE_COILS_def MAX_WRITE_REGISTERS_def

section \<open>The RTU envelope\<close>

definition crc_bit :: "int \<Rightarrow> int" where
  "crc_bit crc = (if crc AND 1 \<noteq> 0 then drop_bit 1 crc XOR 0xA001 else drop_bit 1 crc)"

definition crc_byte :: "int \<Rightarrow> byte \<Rightarrow> int" where
  "crc_byte crc byte = (crc_bit ^^ 8) (crc XOR uint byte)"

definition crc16 :: "bytes \<Rightarrow> int" where
  "crc16 data = foldl crc_byte 0xFFFF data AND 0xFFFF"

definition rtu_wrap :: "int \<Rightarrow> bytes \<Rightarrow> bytes" where
  "rtu_wrap unit pdu =
     (let body = byte_of (unit AND 0xFF) # pdu; crc = crc16 body
      in body @ [byte_of (crc AND 0xFF), byte_of (drop_bit 8 crc AND 0xFF)])"

definition rtu_unwrap :: "bytes \<Rightarrow> mb_error + (int \<times> bytes)" where
  "rtu_unwrap frame =
     (if length frame < 4 then Inl RtuTooShort
      else let n = length frame; body = take (n - 2) frame;
               crc_lo = uint (frame ! (n - 2)); crc_hi = uint (frame ! (n - 1))
           in if crc16 body \<noteq> crc_lo OR push_bit 8 crc_hi then Inl RtuCrcMismatch
              else Inr (uint (hd body), tl body))"

section \<open>The TCP envelope\<close>

definition build_tcp_adu :: "int \<Rightarrow> int \<Rightarrow> bytes \<Rightarrow> bytes" where
  "build_tcp_adu txn unit pdu =
     (let len = int (length pdu) + 1 in
      [byte_of (drop_bit 8 txn AND 0xFF), byte_of (txn AND 0xFF), 0, 0,
       byte_of (drop_bit 8 len AND 0xFF), byte_of (len AND 0xFF), byte_of (unit AND 0xFF)] @ pdu)"

text \<open>
  \<open>Inr None\<close>: no complete frame is buffered yet and the buffer is untouched; \<open>Inr (Some (f, rest))\<close>:
  the frame and the buffer after \<open>del buf[:total]\<close>.
\<close>

definition take_tcp_adu :: "bytes \<Rightarrow> mb_error + ((int \<times> int \<times> bytes) \<times> bytes) option" where
  "take_tcp_adu buf =
     (if length buf < MBAP_LEN then Inr None
      else let txn = push_bit 8 (uint (buf ! 0)) OR uint (buf ! 1);
               proto = push_bit 8 (uint (buf ! 2)) OR uint (buf ! 3);
               len = push_bit 8 (uint (buf ! 4)) OR uint (buf ! 5);
               unit = uint (buf ! 6)
           in if proto \<noteq> 0 then Inl NotModbusTcp
              else if \<not> (1 \<le> len \<and> len \<le> int MAX_PDU + 1) then Inl (InvalidMbapLength len)
              else let total = MBAP_LEN + nat (len - 1)
                   in if length buf < total then Inr None
                      else Inr (Some ((txn, unit, drop MBAP_LEN (take total buf)), drop total buf)))"

definition exception_pdu :: "int \<Rightarrow> int \<Rightarrow> bytes" where
  "exception_pdu function code = [byte_of ((function OR 0x80) AND 0xFF), byte_of (code AND 0xFF)]"

section \<open>Reads\<close>

definition read_pdu :: "int \<Rightarrow> int \<Rightarrow> int \<Rightarrow> bytes" where
  "read_pdu function address count =
     [byte_of (function AND 0xFF), byte_of (drop_bit 8 address AND 0xFF), byte_of (address AND 0xFF),
      byte_of (drop_bit 8 count AND 0xFF), byte_of (count AND 0xFF)]"

definition response_data :: "bytes \<Rightarrow> int \<Rightarrow> mb_error + bytes" where
  "response_data pdu function =
     (if pdu = [] then Inl EmptyPdu
      else if uint (pdu ! 0) = (function OR 0x80) AND 0xFF then
        Inl (ModbusException (if length pdu > 1 then uint (pdu ! 1) else 0))
      else if uint (pdu ! 0) \<noteq> function \<or> length pdu < 2 then Inl UnexpectedFunction
      else let byte_count = unat (pdu ! 1); data = take byte_count (drop 2 pdu)
           in if length data \<noteq> byte_count then Inl ShortData else Inr data)"

definition dtype_regs_table :: "(str \<times> nat) list" where
  "dtype_regs_table =
     [(ascii ''uint16'', 1), (ascii ''int16'', 1), (ascii ''uint32'', 2),
      (ascii ''int32'', 2), (ascii ''float32'', 2)]"

definition dtype_registers :: "str \<Rightarrow> mb_error + nat" where
  "dtype_registers dtype =
     (case map_of dtype_regs_table dtype of None \<Rightarrow> Inl UnknownDtype | Some n \<Rightarrow> Inr n)"

text \<open>\<open>struct.unpack(fmt, chunk)[0]\<close> for the five formats.\<close>

definition unpack_dtype :: "str \<Rightarrow> bytes \<Rightarrow> pyval" where
  "unpack_dtype dtype chunk =
     (if dtype = ascii ''uint16'' \<or> dtype = ascii ''uint32'' then VInt (be_uint chunk)
      else if dtype = ascii ''int16'' then VInt (to_signed 16 (be_uint chunk))
      else if dtype = ascii ''int32'' then VInt (to_signed 32 (be_uint chunk))
      else VFloat (f64_of_f32 (word_of_int (be_uint chunk))))"

text \<open>\<open>if scale and scale != 1.0\<close>.\<close>

definition scaled :: "f64 \<Rightarrow> bool" where
  "scaled scale \<longleftrightarrow> f64_truthy scale \<and> \<not> f64_eq scale f64_one"

text \<open>\<open>value * scale\<close>: a register value is at most 32 bits wide, so \<open>float(value)\<close> cannot overflow.\<close>

fun mul_scale :: "pyval \<Rightarrow> f64 \<Rightarrow> pyval" where
  "mul_scale (VInt i) scale =
     (case f64_of_int i of Some x \<Rightarrow> VFloat (f64_mul x scale) | None \<Rightarrow> VFloat f64_nan)"
| "mul_scale (VFloat x) scale = VFloat (f64_mul x scale)"
| "mul_scale v scale = v"

definition decode_value :: "bytes \<Rightarrow> str \<Rightarrow> f64 \<Rightarrow> mb_error + pyval" where
  "decode_value data dtype scale =
     rbind (dtype_registers dtype) (\<lambda>regs.
       let need = regs * 2; chunk = take need data in
       if length chunk < need then Inl NotEnoughData
       else let value = unpack_dtype dtype chunk in
            Inr (if scaled scale then mul_scale value scale else value))"

section \<open>Argument checks\<close>

definition check_int :: "pyval \<Rightarrow> int \<Rightarrow> int \<Rightarrow> mb_error + int" where
  "check_int v lo hi =
     (case proper_int v of
        Some i \<Rightarrow> if lo \<le> i \<and> i \<le> hi then Inr i else Inl BadInt
      | None \<Rightarrow> Inl BadInt)"

definition check_span :: "pyval \<Rightarrow> int \<Rightarrow> mb_error + int" where
  "check_span address count =
     rbind (check_int address 0 0xFFFF) (\<lambda>a.
       if a + count > 0x10000 then Inl RunsPastEnd else Inr a)"

definition coil_state :: "pyval \<Rightarrow> mb_error + bool" where
  "coil_state v =
     (case as_int v of
        Some i \<Rightarrow> if i = 0 \<or> i = 1 then Inr (i \<noteq> 0) else Inl BadCoil
      | None \<Rightarrow> Inl BadCoil)"

section \<open>Bit reads\<close>

definition read_bits_pdu :: "int \<Rightarrow> pyval \<Rightarrow> pyval \<Rightarrow> mb_error + bytes" where
  "read_bits_pdu function address count =
     (if function \<noteq> READ_COILS \<and> function \<noteq> READ_DISCRETE_INPUTS then Inl BadReadFunction
      else rbind (check_int count 1 MAX_READ_BITS) (\<lambda>n.
           rbind (check_span address n) (\<lambda>a. Inr (read_pdu function a n))))"

definition decode_bits :: "bytes \<Rightarrow> pyval \<Rightarrow> mb_error + bool list" where
  "decode_bits data count =
     (case proper_int count of
        None \<Rightarrow> Inl BadBitCount
      | Some n \<Rightarrow>
          if n < 0 then Inl BadBitCount
          else let need = (n + 7) div 8 in
               if int (length data) < need then Inl NotEnoughData
               else Inr (map (\<lambda>i. drop_bit (i mod 8) (uint (data ! (i div 8))) AND 1 \<noteq> 0) [0..<nat n]))"

section \<open>Writes\<close>

definition write_single_coil_pdu :: "pyval \<Rightarrow> pyval \<Rightarrow> mb_error + bytes" where
  "write_single_coil_pdu address on =
     rbind (check_int address 0 0xFFFF) (\<lambda>a.
     rbind (coil_state on) (\<lambda>s.
       let value = (if s then 0xFF00 else 0) :: int in
       Inr [byte_of WRITE_SINGLE_COIL, byte_of (drop_bit 8 a), byte_of (a AND 0xFF),
            byte_of (drop_bit 8 value), byte_of (value AND 0xFF)]))"

definition write_single_register_pdu :: "pyval \<Rightarrow> pyval \<Rightarrow> mb_error + bytes" where
  "write_single_register_pdu address raw =
     rbind (check_int address 0 0xFFFF) (\<lambda>a.
     rbind (check_int raw 0 0xFFFF) (\<lambda>r.
       Inr [byte_of WRITE_SINGLE_REGISTER, byte_of (drop_bit 8 a), byte_of (a AND 0xFF),
            byte_of (drop_bit 8 r), byte_of (r AND 0xFF)]))"

text \<open>The packing loop: \<open>packed[i // 8] |= 1 << (i % 8)\<close> for every coil that is on.\<close>

fun pack_coils :: "bytes \<Rightarrow> nat \<Rightarrow> bool list \<Rightarrow> bytes" where
  "pack_coils packed i [] = packed"
| "pack_coils packed i (on # states) =
     pack_coils (if on then packed[i div 8 := (packed ! (i div 8)) OR push_bit (i mod 8) 1] else packed)
       (i + 1) states"

definition write_multiple_coils_pdu :: "pyval \<Rightarrow> pyval list \<Rightarrow> mb_error + bytes" where
  "write_multiple_coils_pdu address values =
     rbind (rmap coil_state values) (\<lambda>states.
     rbind (check_int (VInt (int (length states))) 1 MAX_WRITE_COILS) (\<lambda>count.
     rbind (check_span address count) (\<lambda>a.
       let packed = pack_coils (replicate (nat ((count + 7) div 8)) 0) 0 states in
       Inr ([byte_of WRITE_MULTIPLE_COILS, byte_of (drop_bit 8 a), byte_of (a AND 0xFF),
             byte_of (drop_bit 8 count), byte_of (count AND 0xFF), byte_of (int (length packed))]
            @ packed))))"

definition write_multiple_registers_pdu :: "pyval \<Rightarrow> pyval list \<Rightarrow> mb_error + bytes" where
  "write_multiple_registers_pdu address registers =
     rbind (rmap (\<lambda>r. check_int r 0 0xFFFF) registers) (\<lambda>regs.
     rbind (check_int (VInt (int (length regs))) 1 MAX_WRITE_REGISTERS) (\<lambda>count.
     rbind (check_span address count) (\<lambda>a.
       let data = concat (map (be_bytes 2) regs) in
       Inr ([byte_of WRITE_MULTIPLE_REGISTERS, byte_of (drop_bit 8 a), byte_of (a AND 0xFF),
             byte_of (drop_bit 8 count), byte_of (count AND 0xFF), byte_of (int (length data))]
            @ data))))"

definition write_functions :: "int list" where
  "write_functions = [WRITE_SINGLE_COIL, WRITE_SINGLE_REGISTER,
                      WRITE_MULTIPLE_COILS, WRITE_MULTIPLE_REGISTERS]"

definition check_write_response :: "bytes \<Rightarrow> bytes \<Rightarrow> mb_error + unit" where
  "check_write_response pdu request =
     (if length request < 5 \<or> uint (request ! 0) \<notin> set write_functions then Inl NotWriteRequest
      else let function = uint (request ! 0) in
      if pdu = [] then Inl EmptyPdu
      else if uint (pdu ! 0) = function OR 0x80 then
        Inl (ModbusException (if length pdu > 1 then uint (pdu ! 1) else 0))
      else if uint (pdu ! 0) \<noteq> function then Inl UnexpectedFunction
      else let single = (function = WRITE_SINGLE_COIL \<or> function = WRITE_SINGLE_REGISTER);
               expected = (if single then request else take 5 request) in
      if length pdu < length expected then Inl ShortWriteResponse
      else if pdu \<noteq> expected then Inl WriteMismatch
      else Inr ())"

section \<open>Encoding register values\<close>

definition int_range_table :: "(str \<times> int \<times> int) list" where
  "int_range_table =
     [(ascii ''uint16'', 0, 0xFFFF), (ascii ''int16'', - 0x8000, 0x7FFF),
      (ascii ''uint32'', 0, 0xFFFFFFFF), (ascii ''int32'', - 0x80000000, 0x7FFFFFFF)]"

text \<open>\<open>raw = value / scale\<close>, or the value itself when the scale is 0 or 1.\<close>

definition encode_raw :: "pyval \<Rightarrow> f64 \<Rightarrow> mb_error + pyval" where
  "encode_raw v scale =
     (if scaled scale then
        (if \<not> f64_isfinite scale then Inl BadScale
         else let num = (case v of VInt i \<Rightarrow> f64_of_int i | VFloat x \<Rightarrow> Some x | _ \<Rightarrow> None) in
              (case num of
                 None \<Rightarrow> Inl OutOfRange
               | Some x \<Rightarrow> (let raw = f64_div x scale in
                             if f64_isfinite raw then Inr (VFloat raw) else Inl OutOfRange)))
      else Inr v)"

text \<open>\<open>[int.from_bytes(packed[i:i + 2], "big") for i in range(0, len(packed), 2)]\<close>.\<close>

fun words_of :: "bytes \<Rightarrow> int list" where
  "words_of (a # b # rest) = be_uint [a, b] # words_of rest"
| "words_of [a] = [be_uint [a]]"
| "words_of [] = []"

definition encode_value :: "pyval \<Rightarrow> str \<Rightarrow> f64 \<Rightarrow> mb_error + int list" where
  "encode_value v dtype scale =
     rbind (dtype_registers dtype) (\<lambda>regs.
     rbind (case v of VInt i \<Rightarrow> Inr () | VFloat x \<Rightarrow> ensure (f64_isfinite x) NotFinite
                    | _ \<Rightarrow> Inl NotANumber) (\<lambda>_.
     rbind (encode_raw v scale) (\<lambda>raw.
     rbind
       (if dtype = ascii ''float32'' then
          (case (case raw of VInt i \<Rightarrow> f64_of_int i | VFloat x \<Rightarrow> Some x | _ \<Rightarrow> None) of
             None \<Rightarrow> Inl OutOfRange
           | Some x \<Rightarrow> (case f32_of_f64 x of
                           None \<Rightarrow> Inl OutOfRange
                         | Some w \<Rightarrow> Inr (be_bytes 4 (uint w))))
        else
          (let number = (case raw of VInt i \<Rightarrow> i | VFloat x \<Rightarrow> f64_round x | _ \<Rightarrow> 0);
               range = (case map_of int_range_table dtype of Some r \<Rightarrow> r | None \<Rightarrow> (0, 0)) in
           if fst range \<le> number \<and> number \<le> snd range
           then Inr (be_bytes (2 * regs) number) else Inl OutOfRange))
       (\<lambda>packed. Inr (words_of packed)))))"

section \<open>Lemmas: the CRC register\<close>

definition crc_range :: "int \<Rightarrow> bool" where
  "crc_range c \<longleftrightarrow> 0 \<le> c \<and> c < 0x10000"

lemma crc_range_xor: "crc_range a \<Longrightarrow> crc_range b \<Longrightarrow> crc_range (a XOR b)"
  using XOR_upper [of a 16 b] by (simp add: crc_range_def)

lemma crc_range_byte [simp]: "crc_range (uint (b :: byte))"
  using uint_byte_range [of b] unfolding crc_range_def by linarith

lemma crc_bit_alt: "crc_bit c = (if odd c then (c div 2) XOR 0xA001 else c div 2)"
  by (simp add: crc_bit_def and_one_eq drop_bit_eq_div odd_iff_mod_2_eq_one)

lemma crc_range_bit: "crc_range c \<Longrightarrow> crc_range (crc_bit c)"
  using crc_range_xor [of "c div 2" "0xA001"] by (auto simp: crc_bit_alt crc_range_def)

lemma bit15_small: "0 \<le> c \<Longrightarrow> c < 0x8000 \<Longrightarrow> \<not> bit (c :: int) 15"
  by (simp add: bit_iff_odd)

lemma bit15_crc_bit: "crc_range c \<Longrightarrow> bit (crc_bit c) 15 = odd c"
proof -
  assume "crc_range c"
  then have "\<not> bit (c div 2) 15" by (intro bit15_small) (auto simp: crc_range_def)
  moreover have "bit (0xA001 :: int) 15" by (simp add: bit_iff_odd)
  ultimately show ?thesis by (simp add: crc_bit_alt bit_xor_iff)
qed

lemma crc_bit_inj:
  assumes "crc_range c" "crc_range d" "crc_bit c = crc_bit d"
  shows "c = d"
proof -
  have odd: "odd c = odd d"
    using bit15_crc_bit [OF assms(1)] bit15_crc_bit [OF assms(2)] assms(3) by simp
  have "c div 2 = d div 2"
  proof (cases "odd c")
    case True
    then have "(c div 2) XOR 0xA001 = (d div 2) XOR (0xA001 :: int)"
      using assms(3) odd by (simp add: crc_bit_alt)
    then have "((c div 2) XOR 0xA001) XOR 0xA001 = ((d div 2) XOR 0xA001) XOR (0xA001 :: int)" by simp
    then show ?thesis by (simp add: xor.assoc del: xor_numerals)
  next
    case False
    then show ?thesis using assms(3) odd by (simp add: crc_bit_alt)
  qed
  with odd show ?thesis by (metis odd_two_times_div_two_succ even_two_times_div_two)
qed

lemma crc_bits_range: "crc_range c \<Longrightarrow> crc_range ((crc_bit ^^ n) c)"
  by (induction n) (auto intro: crc_range_bit)

lemma crc_bits_inj:
  "crc_range c \<Longrightarrow> crc_range d \<Longrightarrow> (crc_bit ^^ n) c = (crc_bit ^^ n) d \<Longrightarrow> c = d"
proof (induction n)
  case (Suc n)
  then show ?case
    using crc_bit_inj [of "(crc_bit ^^ n) c" "(crc_bit ^^ n) d"] crc_bits_range by simp
qed simp

lemma crc_byte_range: "crc_range c \<Longrightarrow> crc_range (crc_byte c b)"
  by (simp add: crc_byte_def crc_bits_range crc_range_xor)

lemma xor_left_cancel: "(a :: int) XOR b = a XOR c \<longleftrightarrow> b = c"
  by (metis xor.assoc xor_self_eq xor.left_neutral)

lemma crc_byte_inj_state:
  "crc_range c \<Longrightarrow> crc_range d \<Longrightarrow> crc_byte c b = crc_byte d b \<Longrightarrow> c = d"
  unfolding crc_byte_def
  by (metis crc_bits_inj crc_range_xor crc_range_byte xor.commute xor_left_cancel)

lemma crc_byte_inj_data:
  "crc_range c \<Longrightarrow> crc_byte c a = crc_byte c b \<Longrightarrow> a = b"
  unfolding crc_byte_def
  by (metis crc_bits_inj crc_range_xor crc_range_byte xor_left_cancel word_uint_eqI)

lemma crc_fold_range: "crc_range c \<Longrightarrow> crc_range (foldl crc_byte c xs)"
  by (induction xs arbitrary: c) (auto intro: crc_byte_range)

lemma crc_fold_inj:
  "crc_range c \<Longrightarrow> crc_range d \<Longrightarrow> foldl crc_byte c xs = foldl crc_byte d xs \<Longrightarrow> c = d"
  by (induction xs arbitrary: c d) (auto dest: crc_byte_inj_state intro: crc_byte_range)

lemma crc16_fold: "crc16 data = foldl crc_byte 0xFFFF data"
proof -
  have "crc_range (foldl crc_byte 0xFFFF data)"
    by (rule crc_fold_range) (simp add: crc_range_def)
  then have "take_bit 16 (foldl crc_byte 0xFFFF data) = foldl crc_byte 0xFFFF data"
    by (simp add: crc_range_def take_bit_int_eq_self)
  moreover have "take_bit 16 x = x AND 0xFFFF" for x :: int
    by (simp add: take_bit_eq_mask mask_numeral)
  ultimately show ?thesis by (simp add: crc16_def)
qed

lemma crc16_range: "0 \<le> crc16 data" "crc16 data < 0x10000"
  using crc_fold_range [of "0xFFFF" data] by (simp_all add: crc16_fold crc_range_def)

text \<open>Changing one byte of the data changes the checksum.\<close>

lemma crc16_one_byte:
  assumes "a \<noteq> b"
  shows "crc16 (pre @ a # post) \<noteq> crc16 (pre @ b # post)"
proof
  assume eq: "crc16 (pre @ a # post) = crc16 (pre @ b # post)"
  define c where "c = foldl crc_byte 0xFFFF pre"
  have c: "crc_range c" unfolding c_def by (rule crc_fold_range) (simp add: crc_range_def)
  from eq have "foldl crc_byte (crc_byte c a) post = foldl crc_byte (crc_byte c b) post"
    by (simp add: crc16_fold c_def)
  then have "crc_byte c a = crc_byte c b"
    by (rule crc_fold_inj [OF crc_byte_range [OF c] crc_byte_range [OF c]])
  then show False using c assms by (auto dest: crc_byte_inj_data)
qed

section \<open>Lemmas: the envelopes\<close>

lemma and_0xFF: "(x :: int) AND 0xFF = x mod 256"
proof -
  have "x AND 0xFF = take_bit 8 x" by (simp add: take_bit_eq_mask mask_numeral)
  then show ?thesis by (simp add: take_bit_eq_mod)
qed

lemma byte_of_mod [simp]: "byte_of (x mod 256) = byte_of x"
  by (rule word_uint_eqI) (simp add: uint_byte_of)

lemma byte_of_and [simp]: "byte_of (x AND 0xFF) = byte_of x"
  by (simp add: and_0xFF)

lemma drop_bit_8: "drop_bit 8 (x :: int) = x div 256"
  by (simp add: drop_bit_eq_div)

lemma be16_or: "push_bit 8 (uint (a :: byte)) OR uint (b :: byte) = uint a * 256 + uint b"
  using int_or_shift8 [of "uint b" "uint a"] uint_byte_range [of b] by (simp add: or.commute)

lemmas envelope_simps = byte_of_and drop_bit_8 uint_byte_of be16_or

lemma rtu_unwrap_wrap:
  assumes "pdu \<noteq> []"
  shows "rtu_unwrap (rtu_wrap unit pdu) = Inr (unit mod 256, pdu)"
proof -
  define body where "body = byte_of unit # pdu"
  define crc where "crc = crc16 body"
  have crc: "0 \<le> crc" "crc < 0x10000" unfolding crc_def by (rule crc16_range)+
  have w: "rtu_wrap unit pdu = body @ [byte_of crc, byte_of (crc div 256)]"
    by (simp add: rtu_wrap_def Let_def body_def crc_def envelope_simps)
  have len: "length (rtu_wrap unit pdu) = length body + 2" by (simp add: w)
  have "uint (byte_of crc) OR push_bit 8 (uint (byte_of (crc div 256))) = crc mod 256 + 256 * (crc div 256)"
    using crc int_or_shift8 [of "crc mod 256" "crc div 256"] by (simp add: uint_byte_of)
  then have c: "uint (byte_of crc) OR push_bit 8 (uint (byte_of (crc div 256))) = crc16 body"
    by (simp add: crc_def)
  have "length pdu \<ge> 1" using assms by (cases pdu) auto
  then have "\<not> length body + 2 < 4" by (auto simp: body_def)
  then show ?thesis
    unfolding rtu_unwrap_def Let_def len
    by (simp add: w nth_append c) (simp add: body_def uint_byte_of)
qed

lemma crc_field_eq:
  "crc = uint (lo :: byte) OR push_bit 8 (uint (hi :: byte)) \<longleftrightarrow> crc = uint lo + 256 * uint hi"
  using int_or_shift8 [of "uint lo" "uint hi"] by simp

definition tcp_frame_ok :: "int \<times> int \<times> bytes \<Rightarrow> bool" where
  "tcp_frame_ok = (\<lambda>(txn, unit, pdu). 0 \<le> txn \<and> txn < 0x10000 \<and> 0 \<le> unit \<and> unit < 256 \<and> length pdu \<le> MAX_PDU)"

definition tcp_frame_bytes :: "int \<times> int \<times> bytes \<Rightarrow> bytes" where
  "tcp_frame_bytes = (\<lambda>(txn, unit, pdu). build_tcp_adu txn unit pdu)"

lemma build_tcp_adu_alt:
  "build_tcp_adu txn unit pdu =
     byte_of (txn div 256) # byte_of txn # 0 # 0 # byte_of ((int (length pdu) + 1) div 256)
       # byte_of (int (length pdu) + 1) # byte_of unit # pdu"
  by (simp add: build_tcp_adu_def Let_def envelope_simps)

text \<open>The parser on a buffer with a full header.\<close>

lemma take_tcp_adu_header:
  "take_tcp_adu (t1 # t0 # p1 # p0 # l1 # l0 # un # tail) =
     (let len = uint l1 * 256 + uint l0 in
      if uint p1 * 256 + uint p0 \<noteq> 0 then Inl NotModbusTcp
      else if \<not> (1 \<le> len \<and> len \<le> 254) then Inl (InvalidMbapLength len)
      else let k = nat (len - 1) in
        if length tail < k then Inr None
        else Inr (Some ((uint t1 * 256 + uint t0, uint un, take k tail), drop k tail)))"
proof -
  have d: "drop (7 + k) xs = drop k (drop 7 xs)" for k :: nat and xs :: bytes
    by (simp add: add.commute)
  show ?thesis
    unfolding take_tcp_adu_def be16_or Let_def modbus_consts
    by (simp add: drop_take d del: drop_drop)
qed

lemma length_ge_7E:
  assumes "7 \<le> length buf"
  obtains t1 t0 p1 p0 l1 l0 un tail where "buf = t1 # t0 # p1 # p0 # l1 # l0 # un # tail"
  using assms by (auto simp: numeral_eq_Suc Suc_le_length_iff)

lemma take_tcp_adu_short: "length buf < 7 \<Longrightarrow> take_tcp_adu buf = Inr None"
  by (simp add: take_tcp_adu_def modbus_consts)

lemma take_tcp_adu_build:
  assumes "tcp_frame_ok (txn, unit, pdu)"
  shows "take_tcp_adu (build_tcp_adu txn unit pdu @ rest) = Inr (Some ((txn, unit, pdu), rest))"
proof -
  have l: "int (length pdu) + 1 < 256" "0 \<le> int (length pdu) + 1"
    using assms by (auto simp: tcp_frame_ok_def modbus_consts)
  have "uint (byte_of (txn div 256)) * 256 + uint (byte_of txn) = txn"
  proof -
    have "txn div 256 < 256" "0 \<le> txn div 256" using assms by (auto simp: tcp_frame_ok_def)
    then show ?thesis by (simp add: uint_byte_of)
  qed
  moreover have "uint (byte_of unit) = unit" using assms by (simp add: tcp_frame_ok_def)
  moreover have "uint (byte_of ((int (length pdu) + 1) div 256)) * 256
      + uint (byte_of (int (length pdu) + 1)) = int (length pdu) + 1"
    using l by simp
  moreover have "uint (0 :: byte) = 0" by simp
  ultimately show ?thesis
    using assms unfolding build_tcp_adu_alt append_Cons take_tcp_adu_header Let_def
    by (simp add: tcp_frame_ok_def modbus_consts)
qed

lemma take_tcp_adu_sound:
  assumes "take_tcp_adu buf = Inr (Some ((txn, unit, pdu), rest))"
  shows "tcp_frame_ok (txn, unit, pdu) \<and> buf = build_tcp_adu txn unit pdu @ rest"
proof -
  have "7 \<le> length buf" using assms take_tcp_adu_short [of buf] by (cases "length buf < 7") auto
  then obtain t1 t0 p1 p0 l1 l0 un tail where buf: "buf = t1 # t0 # p1 # p0 # l1 # l0 # un # tail"
    by (rule length_ge_7E)
  define len where "len = uint l1 * 256 + uint l0"
  have facts: "uint p1 * 256 + uint p0 = 0" "1 \<le> len" "len \<le> 254" "nat (len - 1) \<le> length tail"
    "txn = uint t1 * 256 + uint t0" "unit = uint un" "pdu = take (nat (len - 1)) tail"
    "rest = drop (nat (len - 1)) tail"
    using assms unfolding buf take_tcp_adu_header
    by (auto simp: Let_def len_def not_less split: if_splits)
  have p: "p1 = 0" "p0 = 0"
  proof -
    have "0 \<le> uint p1" "0 \<le> uint p0" by simp_all
    with facts(1) have "uint p1 = 0" "uint p0 = 0" by linarith+
    then show "p1 = 0" "p0 = 0" by (simp_all add: uint_0_iff)
  qed
  have lp: "int (length pdu) + 1 = len" using facts by simp
  have bytes: "byte_of (txn div 256) = t1" "byte_of txn = t0" "byte_of (len div 256) = l1"
    "byte_of len = l0" "byte_of unit = un"
    unfolding facts len_def by (rule word_uint_eqI, simp add: uint_byte_of)+
  have "buf = build_tcp_adu txn unit pdu @ rest"
    unfolding build_tcp_adu_alt lp bytes buf using p facts by simp
  moreover have "txn < 0x10000"
    using facts(5) uint_byte_range(2) [of t1] uint_byte_range(2) [of t0] by linarith
  ultimately show ?thesis
    using facts lp by (simp add: tcp_frame_ok_def modbus_consts)
qed

lemma take_tcp_adu_partial:
  assumes "tcp_frame_ok (txn, unit, pdu)" "build_tcp_adu txn unit pdu = p @ q" "q \<noteq> []"
  shows "take_tcp_adu p = Inr None"
proof (cases "length p < 7")
  case True
  then show ?thesis by (rule take_tcp_adu_short)
next
  case False
  then obtain t1 t0 p1 p0 l1 l0 un tail where p: "p = t1 # t0 # p1 # p0 # l1 # l0 # un # tail"
    by (metis length_ge_7E linorder_not_less)
  have l: "int (length pdu) + 1 < 256" using assms(1) by (auto simp: tcp_frame_ok_def modbus_consts)
  have h: "p1 = 0" "p0 = 0" "byte_of ((int (length pdu) + 1) div 256) = l1"
    "byte_of (int (length pdu) + 1) = l0" "pdu = tail @ q"
    using assms(2) unfolding p build_tcp_adu_alt list.inject append_Cons by blast+
  have "(int (length pdu) + 1) div 256 = 0" using l by simp
  then have "uint l1 * 256 + uint l0 = int (length pdu) + 1"
    using l unfolding h(3,4) [symmetric] by (simp add: uint_byte_of)
  moreover have "length tail < length pdu" using h(5) assms(3) by simp
  ultimately show ?thesis
    unfolding p take_tcp_adu_header Let_def using h(1,2) assms(1)
    by (simp add: tcp_frame_ok_def modbus_consts)
qed

interpretation tcp: stream_framing tcp_frame_bytes take_tcp_adu tcp_frame_ok
proof unfold_locales
  fix f :: "int \<times> int \<times> bytes" and rest
  assume "tcp_frame_ok f"
  then show "take_tcp_adu (tcp_frame_bytes f @ rest) = Inr (Some (f, rest))"
    by (cases f) (simp add: tcp_frame_bytes_def take_tcp_adu_build)
next
  fix buf f rest
  assume "take_tcp_adu buf = Inr (Some (f, rest))"
  then show "tcp_frame_ok f \<and> buf = tcp_frame_bytes f @ rest"
    by (cases f) (auto simp: tcp_frame_bytes_def dest: take_tcp_adu_sound)
next
  fix f p q
  assume "tcp_frame_ok f" "tcp_frame_bytes f = p @ q" "q \<noteq> []"
  then show "take_tcp_adu p = Inr None"
    by (cases f) (auto simp: tcp_frame_bytes_def intro: take_tcp_adu_partial)
next
  fix f
  show "tcp_frame_bytes f \<noteq> []"
    by (cases f) (simp add: tcp_frame_bytes_def build_tcp_adu_alt)
qed

lemma take_tcp_adu_decreases:
  "take_tcp_adu buf = Inr (Some (f, rest)) \<Longrightarrow> length rest + 7 \<le> length buf"
  by (cases f) (auto dest!: take_tcp_adu_sound simp: build_tcp_adu_alt)

section \<open>Coils\<close>

lemma length_pack_coils [simp]: "length (pack_coils packed i states) = length packed"
  by (induction packed i states rule: pack_coils.induct) auto

definition coil_bit :: "bytes \<Rightarrow> nat \<Rightarrow> bool" where
  "coil_bit data j = bit (data ! (j div 8)) (j mod 8)"

lemma coil_bit_set:
  assumes "i < 8 * length packed" "j < 8 * length packed"
  shows "coil_bit (packed[i div 8 := packed ! (i div 8) OR push_bit (i mod 8) 1]) j
    = (coil_bit packed j \<or> j = i)"
proof -
  have id: "i div 8 < length packed" "j div 8 < length packed" using assms by auto
  show ?thesis
  proof (cases "j div 8 = i div 8")
    case True
    then have "j = i \<longleftrightarrow> j mod 8 = i mod 8" by (metis div_mult_mod_eq)
    with True id show ?thesis
      by (auto simp: coil_bit_def bit_or_iff bit_simps)
  next
    case False
    with id show ?thesis by (auto simp: coil_bit_def)
  qed
qed

lemma coil_bit_pack:
  assumes "i + length states \<le> 8 * length packed" "j < 8 * length packed"
  shows "coil_bit (pack_coils packed i states) j
    = (coil_bit packed j \<or> (i \<le> j \<and> j < i + length states \<and> states ! (j - i)))"
  using assms
proof (induction packed i states rule: pack_coils.induct)
  case (1 packed i)
  then show ?case by auto
next
  case (2 packed i on states)
  define packed' where
    "packed' = (if on then packed[i div 8 := packed ! (i div 8) OR push_bit (i mod 8) 1] else packed)"
  have len: "length packed' = length packed" by (simp add: packed'_def)
  have b: "coil_bit packed' j = (coil_bit packed j \<or> (on \<and> j = i))"
    using 2(2,3) coil_bit_set [of i packed j] by (simp add: packed'_def)
  have "coil_bit (pack_coils packed' (i + 1) states) j
    = (coil_bit packed' j \<or> (i + 1 \<le> j \<and> j < i + 1 + length states \<and> states ! (j - (i + 1))))"
    using 2(1) [folded packed'_def] 2(2,3) len by simp
  then have r: "coil_bit (pack_coils packed i (on # states)) j
    = (coil_bit packed j \<or> (on \<and> j = i)
       \<or> (i + 1 \<le> j \<and> j < i + 1 + length states \<and> states ! (j - (i + 1))))"
    unfolding b by (simp add: packed'_def)
  show ?case unfolding r by (cases "j = i") (auto simp: nth_Cons')
qed

lemma bit_test: "(drop_bit k (uint (b :: byte)) AND 1 \<noteq> 0) = bit b k" if "k < 8"
  using that by (simp add: and_one_eq odd_iff_mod_2_eq_one [symmetric] bit_uint_iff
      flip: bit_iff_odd_drop_bit)

lemma decode_pack_coils:
  assumes "length states \<le> 8 * k" "k = (length states + 7) div 8"
  shows "decode_bits (pack_coils (replicate k 0) 0 states) (VInt (int (length states))) = Inr states"
proof -
  let ?p = "pack_coils (replicate k 0) 0 states"
  have "map (\<lambda>i. drop_bit (i mod 8) (uint (?p ! (i div 8))) AND 1 \<noteq> 0) [0..<length states] = states"
  proof (rule nth_equalityI)
    fix j assume "j < length (map (\<lambda>i. drop_bit (i mod 8) (uint (?p ! (i div 8))) AND 1 \<noteq> 0) [0..<length states])"
    then have j: "j < length states" by simp
    have "coil_bit ?p j = states ! j"
      using j assms coil_bit_pack [of 0 states "replicate k 0" j]
      by (simp add: coil_bit_def less_mult_imp_div_less)
    then show "map (\<lambda>i. drop_bit (i mod 8) (uint (?p ! (i div 8))) AND 1 \<noteq> 0) [0..<length states] ! j = states ! j"
      using j bit_test [of "j mod 8" "?p ! (j div 8)"] by (simp add: coil_bit_def)
  qed simp
  moreover have "(int (length states) + 7) div 8 = int k"
    using assms(2) by (simp add: zdiv_int)
  ultimately show ?thesis by (simp add: decode_bits_def Let_def)
qed

section \<open>Registers\<close>

lemma check_int_Inr_iff [simp]: "check_int v lo hi = Inr i \<longleftrightarrow> v = VInt i \<and> lo \<le> i \<and> i \<le> hi"
  by (cases v) (auto simp: check_int_def)

lemma check_span_Inr_iff [simp]:
  "check_span v n = Inr a \<longleftrightarrow> v = VInt a \<and> 0 \<le> a \<and> a \<le> 0xFFFF \<and> a + n \<le> 0x10000"
  by (cases v) (auto simp: check_span_def check_int_def)

lemma words_of_concat:
  "\<forall>r \<in> set regs. 0 \<le> r \<and> r \<le> 0xFFFF \<Longrightarrow> words_of (concat (map (be_bytes 2) regs)) = regs"
proof (induction regs)
  case Nil
  then show ?case by simp
next
  case (Cons r regs)
  have two: "be_bytes 2 r = [byte_of (r div 256), byte_of r]"
    by (simp add: numeral_2_eq_2)
  have "be_uint (be_bytes 2 r) = r"
    using Cons.prems by (simp add: be_uint_be_bytes)
  then show ?case using Cons by (simp add: two)
qed

lemma concat_words_of: "even (length bs) \<Longrightarrow> concat (map (be_bytes 2) (words_of bs)) = bs"
proof (induction bs rule: words_of.induct)
  case (1 a b rest)
  have "be_bytes 2 (be_uint [a, b]) = [a, b]"
    using be_bytes_be_uint [of "[a, b]"] by (simp add: numeral_2_eq_2)
  with 1 show ?case by simp
qed auto

lemma length_words_of: "even (length bs) \<Longrightarrow> 2 * length (words_of bs) = length bs"
  by (induction bs rule: words_of.induct) auto

lemma length_concat_be2 [simp]: "length (concat (map (be_bytes 2) regs)) = 2 * length regs"
  by (induction regs) auto

section \<open>Replies\<close>

lemma check_write_response_ok:
  "check_write_response pdu request = Inr u \<longleftrightarrow>
     5 \<le> length request \<and> uint (request ! 0) \<in> {5, 6, 15, 16}
     \<and> pdu = (if uint (request ! 0) \<in> {5, 6} then request else take 5 request)"
proof
  assume "check_write_response pdu request = Inr u"
  then show "5 \<le> length request \<and> uint (request ! 0) \<in> {5, 6, 15, 16}
     \<and> pdu = (if uint (request ! 0) \<in> {5, 6} then request else take 5 request)"
    unfolding check_write_response_def write_functions_def Let_def modbus_consts
    by (auto split: if_splits)
next
  assume a: "5 \<le> length request \<and> uint (request ! 0) \<in> {5, 6, 15, 16}
     \<and> pdu = (if uint (request ! 0) \<in> {5, 6} then request else take 5 request)"
  then have "pdu \<noteq> []" "pdu ! 0 = request ! 0" by (auto split: if_splits)
  moreover have "uint (request ! 0) \<noteq> uint (request ! 0) OR 0x80" using a by auto
  ultimately show "check_write_response pdu request = Inr u"
    using a unfolding check_write_response_def write_functions_def Let_def modbus_consts
    by (auto split: if_splits)
qed

section \<open>Values\<close>

definition dtypes :: "str list" where
  "dtypes = [ascii ''uint16'', ascii ''int16'', ascii ''uint32'', ascii ''int32'', ascii ''float32'']"

lemma dtype_registers_cases:
  assumes "dtype_registers dtype = Inr n"
  obtains "dtype = ascii ''uint16''" "n = 1" | "dtype = ascii ''int16''" "n = 1"
    | "dtype = ascii ''uint32''" "n = 2" | "dtype = ascii ''int32''" "n = 2"
    | "dtype = ascii ''float32''" "n = 2"
  using assms by (auto simp: dtype_registers_def dtype_regs_table_def split: if_splits)

lemma be_uint_2: "length bs = 2 \<Longrightarrow> be_uint bs < 65536"
  and be_uint_4: "length bs = 4 \<Longrightarrow> be_uint bs < 4294967296"
  using be_uint_less [of bs] by simp_all

lemma be_bytes_signed:
  assumes "length bs = n"
  shows "be_bytes n (to_signed (8 * n) (be_uint bs)) = bs"
proof -
  have shift: "be_bytes n (x - 256 ^ n) = be_bytes n x" for n x
  proof (induction n arbitrary: x)
    case (Suc n)
    have "(x - 256 * 256 ^ n) div 256 = x div 256 - 256 ^ n" by simp
    moreover have "byte_of (x - 256 * 256 ^ n) = byte_of x"
      by (rule word_uint_eqI) (simp add: uint_byte_of mod_diff_eq [symmetric])
    ultimately show ?case using Suc by simp
  qed simp
  have "(2 :: int) ^ (8 * n) = 256 ^ n" by (simp add: power_mult)
  then show ?thesis
    using shift [of n "be_uint bs"] be_bytes_be_uint [of bs] assms by (simp add: to_signed_def)
qed

lemma to_signed_range:
  assumes "0 < bits" "0 \<le> x" "x < 2 ^ bits"
  shows "- (2 ^ (bits - 1)) \<le> to_signed bits x" "to_signed bits x < 2 ^ (bits - 1)"
proof -
  have "(2 :: int) ^ bits = 2 * 2 ^ (bits - 1)" using assms(1) by (cases bits) auto
  then show "- (2 ^ (bits - 1)) \<le> to_signed bits x" "to_signed bits x < 2 ^ (bits - 1)"
    using assms by (auto simp: to_signed_def)
qed

lemma encode_value_int:
  assumes "encode_raw (VInt i) scale = Inr (VInt i)" "dtype_registers dtype = Inr n"
    and "map_of int_range_table dtype = Some (lo, hi)" "lo \<le> i" "i \<le> hi"
  shows "encode_value (VInt i) dtype scale = Inr (words_of (be_bytes (2 * n) i))"
proof -
  have "dtype \<noteq> ascii ''float32''" using assms(3) by (auto simp: int_range_table_def)
  then show ?thesis using assms by (simp add: encode_value_def Let_def)
qed

lemma rtu_unwrap_Inr:
  "rtu_unwrap frame = Inr (u, pdu) \<longleftrightarrow> pdu \<noteq> [] \<and> 0 \<le> u \<and> u < 256 \<and> frame = rtu_wrap u pdu"
proof
  assume a: "rtu_unwrap frame = Inr (u, pdu)"
  define n where "n = length frame"
  define body where "body = take (n - 2) frame"
  define lo where "lo = frame ! (n - 2)"
  define hi where "hi = frame ! (n - 1)"
  from a have n: "4 \<le> n" and crc: "crc16 body = uint lo OR push_bit 8 (uint hi)"
    and u: "u = uint (hd body)" "pdu = tl body"
    by (auto simp: rtu_unwrap_def Let_def n_def body_def lo_def hi_def split: if_splits)
  have len: "length body = n - 2" by (simp add: body_def n_def)
  then obtain b0 b1 bs where body: "body = b0 # b1 # bs"
    using n by (metis (no_types, lifting) One_nat_def Suc_le_length_iff diff_le_mono numeral_2_eq_2
      numeral_Bit0 add_diff_cancel_left')
  have frame: "frame = body @ [lo, hi]"
  proof -
    have "frame = take (n - 2) frame @ drop (n - 2) frame" by simp
    also have "drop (n - 2) frame = [lo, hi]"
      using n unfolding n_def lo_def hi_def
      by (intro nth_equalityI) (auto simp: less_Suc_eq numeral_2_eq_2 nth_Cons' Suc_diff_Suc)
    finally show ?thesis by (simp add: body_def)
  qed
  have c: "crc16 body = uint lo + 256 * uint hi" using crc by (simp add: crc_field_eq)
  have lohi: "byte_of (crc16 body) = lo" "byte_of (crc16 body div 256) = hi"
    unfolding c by (rule word_uint_eqI, simp add: uint_byte_of)+
  show "pdu \<noteq> [] \<and> 0 \<le> u \<and> u < 256 \<and> frame = rtu_wrap u pdu"
    using u frame lohi by (simp add: body rtu_wrap_def Let_def envelope_simps)
next
  assume "pdu \<noteq> [] \<and> 0 \<le> u \<and> u < 256 \<and> frame = rtu_wrap u pdu"
  then show "rtu_unwrap frame = Inr (u, pdu)" using rtu_unwrap_wrap [of pdu u] by simp
qed

section \<open>Properties\<close>

text \<open>C17: \<open>rtu_unwrap\<close> accepts exactly the frames \<open>rtu_wrap\<close> builds: it returns unit and PDU if and
  only if the frame is the wrapping of a non-empty PDU for that unit (0..255).\<close>
theorem rtu_unwrap_iff:
  "rtu_unwrap frame = Inr (u, pdu) \<longleftrightarrow> pdu \<noteq> [] \<and> 0 \<le> u \<and> u < 256 \<and> frame = rtu_wrap u pdu"
  by (rule rtu_unwrap_Inr)

text \<open>C5: Error detection on the serial bus. Replacing any single byte of a wrapped frame (unit, PDU
  or checksum) by a different one makes \<open>rtu_unwrap\<close> raise the CRC error: no one-byte corruption
  is ever delivered as a reply.\<close>
theorem rtu_detects_byte_error:
  assumes pdu: "pdu \<noteq> []" and i: "i < length (rtu_wrap unit pdu)"
    and b: "b \<noteq> rtu_wrap unit pdu ! i"
  shows "rtu_unwrap ((rtu_wrap unit pdu)[i := b]) = Inl RtuCrcMismatch"
proof -
  define body where "body = byte_of unit # pdu"
  define crc where "crc = crc16 body"
  define frame where "frame = (rtu_wrap unit pdu)[i := b]"
  have w: "rtu_wrap unit pdu = body @ [byte_of crc, byte_of (crc div 256)]"
    by (simp add: rtu_wrap_def Let_def body_def crc_def envelope_simps)
  have len: "length frame = length body + 2" by (simp add: frame_def w)
  have lb: "2 \<le> length body" using pdu by (cases pdu) (auto simp: body_def)
  have crcok: "uint (byte_of crc) + 256 * uint (byte_of (crc div 256)) = crc"
    using crc16_range [of body] by (simp add: uint_byte_of crc_def)
  have ne: "crc16 (take (length body) frame)
      \<noteq> uint (frame ! length body) + 256 * uint (frame ! Suc (length body))"
  proof (cases "i < length body")
    case True
    have "take (length body) frame = body[i := b]"
      using True by (simp add: frame_def w list_update_append)
    also have "\<dots> = take i body @ b # drop (Suc i) body" using True by (simp add: upd_conv_take_nth_drop)
    finally have t: "take (length body) frame = take i body @ b # drop (Suc i) body" .
    have "body = take i body @ (body ! i) # drop (Suc i) body" using True by (simp add: id_take_nth_drop)
    moreover have "body ! i \<noteq> b" using b True by (simp add: w nth_append)
    ultimately have "crc16 body \<noteq> crc16 (take (length body) frame)"
      unfolding t using crc16_one_byte by metis
    moreover have "frame ! length body = byte_of crc" "frame ! Suc (length body) = byte_of (crc div 256)"
      using True by (simp_all add: frame_def w nth_append list_update_append)
    ultimately show ?thesis using crcok by (simp add: crc_def)
  next
    case False
    then consider "i = length body" | "i = Suc (length body)" using i by (fastforce simp: w)
    then show ?thesis
    proof cases
      case 1
      then have "take (length body) frame = body" "frame ! length body = b"
        "frame ! Suc (length body) = byte_of (crc div 256)" "b \<noteq> byte_of crc"
        using b by (simp_all add: frame_def w nth_append list_update_append)
      then show ?thesis using crcok
        by (simp add: crc_def) (metis add_right_cancel word_uint_eqI)
    next
      case 2
      then have "take (length body) frame = body" "frame ! length body = byte_of crc"
        "frame ! Suc (length body) = b" "b \<noteq> byte_of (crc div 256)"
        using b by (simp_all add: frame_def w nth_append list_update_append)
      then show ?thesis using crcok
        by (simp add: crc_def) (metis add_left_cancel mult_cancel_left word_uint_eqI zero_neq_numeral)
    qed
  qed
  then show ?thesis
    unfolding frame_def [symmetric] rtu_unwrap_def Let_def len using lb
    by (simp add: crc_field_eq)
qed

theorem rtu_detects_byte_error_witness:
  "rtu_unwrap ((rtu_wrap 17 [3, 0, 107, 0, 3])[2 := 1]) = Inl RtuCrcMismatch"
  by (rule rtu_detects_byte_error) (simp_all add: rtu_wrap_def Let_def)

text \<open>C2: A Modbus/TCP byte stream is parsed into the same transactions whatever the chunking: if the
  chunks concatenate to whole frames followed by a proper prefix of another frame, the receive loop
  delivers exactly those frames in order, reports no framing error and keeps the prefix buffered.\<close>
theorem tcp_stream_chunking:
  assumes "\<forall>f \<in> set fs. tcp_frame_ok f" and "tcp_frame_ok g" and "tcp_frame_bytes g = p @ q" "q \<noteq> []"
    and "concat chunks = concat (map tcp_frame_bytes fs) @ p"
  shows "feed_all take_tcp_adu [] chunks = (fs, None, p)"
proof (rule tcp.feed_all_stream)
  show "\<forall>a b. p = a @ b \<longrightarrow> take_tcp_adu a = Inr None"
    using assms(2-4) tcp.take_partial [of g] by auto
qed (use assms in \<open>simp_all add: take_tcp_adu_short\<close>)

theorem tcp_stream_chunking_witness:
  "feed_all take_tcp_adu [] [[0], [1, 0, 0, 0], [6, 17, 3, 0, 107, 0, 3, 0]] = ([(1, 17, [3, 0, 107, 0, 3])], None, [0])"
  by (rule tcp_stream_chunking [where g = "(0, 17, [3])" and q = "[0, 0, 0, 0, 2, 17, 3]"])
    (simp_all add: tcp_frame_ok_def tcp_frame_bytes_def build_tcp_adu_alt modbus_consts byte_of_def)

text \<open>FC15 requests: an accepted list of coil states is sent with the requested start address, the
  number of coils and a correct byte count, stays within the Modbus PDU limit, and unpacking its
  data with \<open>decode_bits\<close> gives back the states in order.\<close>
theorem write_coils_roundtrip:
  assumes "write_multiple_coils_pdu address values = Inr pdu"
  shows "\<exists>states a. rmap coil_state values = Inr states \<and> address = VInt a
    \<and> take 5 pdu = [15, byte_of (a div 256), byte_of a,
                     byte_of (int (length values) div 256), byte_of (int (length values))]
    \<and> unat (pdu ! 5) = length (drop 6 pdu) \<and> length pdu \<le> MAX_PDU
    \<and> decode_bits (drop 6 pdu) (VInt (int (length values))) = Inr states"
proof -
  from assms obtain states a where st: "rmap coil_state values = Inr states"
    and c: "1 \<le> int (length states)" "int (length states) \<le> 1968"
    and a: "address = VInt a" "0 \<le> a"
    and pdu: "pdu = [byte_of 15, byte_of (a div 256), byte_of a,
        byte_of (int (length states) div 256), byte_of (int (length states)),
        byte_of (int (length (pack_coils (replicate (nat ((int (length states) + 7) div 8)) 0) 0 states)))]
        @ pack_coils (replicate (nat ((int (length states) + 7) div 8)) 0) 0 states"
    unfolding write_multiple_coils_pdu_def check_span_def check_int_def
    by (auto simp: rbind_eq_Inr modbus_consts Let_def envelope_simps split: option.splits if_splits
        elim!: proper_int.elims)
  have len: "length states = length values" using st by (rule rmap_length)
  define k where "k = (length states + 7) div 8"
  have k: "nat ((int (length states) + 7) div 8) = k"
    using nat_div_distrib [of "int (length states) + 7" 8] by (simp add: k_def nat_add_distrib)
  note pdu = pdu [unfolded k]
  have kb: "k \<le> 246" "length states \<le> 8 * k" using c by (auto simp: k_def)
  have "decode_bits (drop 6 pdu) (VInt (int (length values))) = Inr states"
    using decode_pack_coils [of states k] kb k_def by (simp add: pdu len)
  moreover have "take 5 pdu = [15, byte_of (a div 256), byte_of a,
                     byte_of (int (length values) div 256), byte_of (int (length values))]"
    by (simp add: pdu len byte_of_def)
  moreover have "unat (pdu ! 5) = length (drop 6 pdu)"
    using kb by (simp add: pdu byte_of_def unat_of_nat)
  moreover have "length pdu \<le> MAX_PDU" using kb by (simp add: pdu modbus_consts)
  ultimately show ?thesis using st a by blast
qed

theorem write_coils_roundtrip_witness:
  "\<exists>states a. rmap coil_state [VBool True, VInt 0, VInt 1] = Inr states \<and> VInt 19 = VInt a
    \<and> take 5 [15, 0, 19, 0, 3, 1, 5] = [15, byte_of (a div 256), byte_of a,
         byte_of (int (length [VBool True, VInt 0, VInt 1]) div 256),
         byte_of (int (length [VBool True, VInt 0, VInt 1]))]
    \<and> unat ([15, 0, 19, 0, 3, 1, 5 :: byte] ! 5) = length (drop 6 [15, 0, 19, 0, 3, 1, 5 :: byte])
    \<and> length [15, 0, 19, 0, 3, 1, 5 :: byte] \<le> MAX_PDU
    \<and> decode_bits (drop 6 [15, 0, 19, 0, 3, 1, 5]) (VInt (int (length [VBool True, VInt 0, VInt 1]))) = Inr states"
  by (rule write_coils_roundtrip) code_simp

text \<open>FC16 requests: an accepted list of register values is sent with the requested start address,
  the register count and a correct byte count, stays within the PDU limit, and its data is the
  values as big-endian words.\<close>
theorem write_registers_roundtrip:
  assumes "write_multiple_registers_pdu address registers = Inr pdu"
  shows "\<exists>regs a. rmap (\<lambda>r. check_int r 0 0xFFFF) registers = Inr regs \<and> address = VInt a
    \<and> take 5 pdu = [16, byte_of (a div 256), byte_of a,
                     byte_of (int (length registers) div 256), byte_of (int (length registers))]
    \<and> unat (pdu ! 5) = length (drop 6 pdu) \<and> length pdu \<le> MAX_PDU
    \<and> words_of (drop 6 pdu) = regs"
proof -
  from assms obtain regs a where rg: "rmap (\<lambda>r. check_int r 0 0xFFFF) registers = Inr regs"
    and c: "int (length regs) \<le> 123" and a: "address = VInt a"
    and pdu: "pdu = [byte_of 16, byte_of (a div 256), byte_of a,
        byte_of (int (length regs) div 256), byte_of (int (length regs)),
        byte_of (int (length (concat (map (be_bytes 2) regs))))] @ concat (map (be_bytes 2) regs)"
    unfolding write_multiple_registers_pdu_def
    by (auto simp: rbind_eq_Inr modbus_consts Let_def envelope_simps)
  have len: "length regs = length registers" using rg by (rule rmap_length)
  have "\<forall>r \<in> set regs. 0 \<le> r \<and> r \<le> 0xFFFF"
    using rg by (auto simp: rmap_Inr_iff in_set_conv_nth)
  then have "words_of (drop 6 pdu) = regs" by (simp add: pdu words_of_concat)
  moreover have "take 5 pdu = [16, byte_of (a div 256), byte_of a,
                     byte_of (int (length registers) div 256), byte_of (int (length registers))]"
    by (simp add: pdu len byte_of_def)
  moreover have "unat (pdu ! 5) = length (drop 6 pdu)"
    using c by (simp add: pdu byte_of_def unat_word_ariths unat_of_nat)
  moreover have "length pdu \<le> MAX_PDU" using c by (simp add: pdu modbus_consts)
  ultimately show ?thesis using rg a by blast
qed

theorem write_registers_roundtrip_witness:
  "\<exists>regs a. rmap (\<lambda>r. check_int r 0 0xFFFF) [VInt 10, VInt 258] = Inr regs \<and> VInt 1 = VInt a
    \<and> take 5 [16, 0, 1, 0, 2, 4, 0, 10, 1, 2] = [16, byte_of (a div 256), byte_of a,
         byte_of (int (length [VInt 10, VInt 258]) div 256), byte_of (int (length [VInt 10, VInt 258]))]
    \<and> unat ([16, 0, 1, 0, 2, 4, 0, 10, 1, 2 :: byte] ! 5) = length (drop 6 [16, 0, 1, 0, 2, 4, 0, 10, 1, 2 :: byte])
    \<and> length [16, 0, 1, 0, 2, 4, 0, 10, 1, 2 :: byte] \<le> MAX_PDU
    \<and> words_of (drop 6 [16, 0, 1, 0, 2, 4, 0, 10, 1, 2]) = regs"
  by (rule write_registers_roundtrip) code_simp

text \<open>\<open>response_data\<close> accepts a read reply exactly when it carries the requested function code, a
  byte count and at least that many data bytes, and returns precisely those bytes.\<close>
theorem response_data_iff:
  assumes "function \<in> {1, 2, 3, 4}"
  shows "response_data pdu function = Inr data \<longleftrightarrow>
    (\<exists>rest. pdu = byte_of function # byte_of (int (length data)) # data @ rest \<and> length data < 256)"
proof
  assume r: "response_data pdu function = Inr data"
  then obtain f c rest where p: "pdu = f # c # rest"
    by (cases pdu; cases "tl pdu") (auto simp: response_data_def split: if_splits)
  from r have f: "uint f = function" and d: "data = take (unat c) rest" "length data = unat c"
    by (auto simp: response_data_def p Let_def split: if_splits)
  have "f = byte_of function" using f by (metis byte_of_uint)
  moreover have "c = byte_of (int (length data))" using d by (simp add: byte_of_def)
  moreover have "rest = data @ drop (unat c) rest" by (simp add: d(1))
  moreover have "length data < 256" using d(2) unsigned_less [of c] by simp
  ultimately show "\<exists>rest. pdu = byte_of function # byte_of (int (length data)) # data @ rest \<and> length data < 256"
    using p by metis
next
  assume "\<exists>rest. pdu = byte_of function # byte_of (int (length data)) # data @ rest \<and> length data < 256"
  then obtain rest where p: "pdu = byte_of function # byte_of (int (length data)) # data @ rest"
    and l: "length data < 256" by blast
  have "unat (byte_of (int (length data))) = length data"
    using l by (simp add: byte_of_def unat_of_nat)
  moreover have "uint (byte_of function) = function" "function \<noteq> (function OR 0x80) AND 0xFF"
    using assms by auto
  ultimately show "response_data pdu function = Inr data"
    by (simp add: response_data_def p Let_def)
qed

theorem response_data_iff_witness:
  "response_data [3, 2, 0, 7, 9] 3 = Inr [0, 7] \<longleftrightarrow>
    (\<exists>rest. [3, 2, 0, 7, 9] = byte_of 3 # byte_of (int (length [0, 7 :: byte])) # [0, 7] @ rest
       \<and> length [0, 7 :: byte] < 256)"
  by (rule response_data_iff) simp

text \<open>Register values survive a read followed by a write: for every data type and an unscaled point,
  encoding the value decoded from the registers (a finite one for float32) reproduces the registers.\<close>
theorem encode_decode_registers:
  assumes dec: "decode_value data dtype scale = Inr v" and unscaled: "\<not> scaled scale"
    and len: "dtype_registers dtype = Inr n" "length data = 2 * n"
    and fin: "dtype = ascii ''float32'' \<longrightarrow> f32_mag (word_of_int (be_uint data)) < f32_inf"
  shows "encode_value v dtype scale = Inr (words_of data)"
proof -
  have v: "v = unpack_dtype dtype data"
    using dec unscaled len by (simp add: decode_value_def Let_def)
  have raw: "encode_raw v scale = Inr v" using unscaled by (simp add: encode_raw_def)
  from len(1) show ?thesis
  proof (cases rule: dtype_registers_cases)
    case 5
    define w :: f32 where "w = word_of_int (be_uint data)"
    have u: "uint w = be_uint data"
      using be_uint_4 [of data] len(2) 5 by (simp add: w_def uint_word_of_int)
    have w: "f32_mag w < f32_inf" using fin 5 by (simp add: w_def)
    then have "\<not> f32_isnan w" by (simp add: f32_isnan_def)
    then show ?thesis
      using len 5 raw w be_bytes_be_uint [of data]
      by (simp add: encode_value_def v unpack_dtype_def f64_of_f32_finite f32_of_f64_of_f32 u
          flip: w_def)
  next
    case 1
    then show ?thesis
      using encode_value_int [of "be_uint data" scale dtype n 0 "0xFFFF"] raw len
        be_bytes_be_uint [of data] be_uint_2 [of data]
      by (simp add: v unpack_dtype_def int_range_table_def)
  next
    case 2
    then show ?thesis
      using encode_value_int [of "to_signed 16 (be_uint data)" scale dtype n "- 0x8000" "0x7FFF"] raw len
        be_bytes_signed [of data 2] be_uint_2 [of data] to_signed_range [of 16 "be_uint data"]
      by (simp add: v unpack_dtype_def int_range_table_def)
  next
    case 3
    then show ?thesis
      using encode_value_int [of "be_uint data" scale dtype n 0 "0xFFFFFFFF"] raw len
        be_bytes_be_uint [of data] be_uint_4 [of data]
      by (simp add: v unpack_dtype_def int_range_table_def)
  next
    case 4
    then show ?thesis
      using encode_value_int [of "to_signed 32 (be_uint data)" scale dtype n "- 0x80000000" "0x7FFFFFFF"]
        raw len be_bytes_signed [of data 4] be_uint_4 [of data] to_signed_range [of 32 "be_uint data"]
      by (simp add: v unpack_dtype_def int_range_table_def)
  qed
qed

theorem encode_decode_registers_witness:
  "encode_value (VInt (- 2)) (ascii ''int16'') f64_one = Inr (words_of [255, 254])"
proof (rule encode_decode_registers [where n = 1])
  show "\<not> scaled f64_one" by (simp add: scaled_def f64_truthy_def f64_eq_def f64_one_def f64_mag_def
        f64_isnan_def f64_inf_def)
  then show "decode_value [255, 254] (ascii ''int16'') f64_one = Inr (VInt (- 2))"
    by (simp add: decode_value_def dtype_registers_def dtype_regs_table_def unpack_dtype_def Let_def
        to_signed_def be_uint_def)
qed (simp_all add: dtype_registers_def dtype_regs_table_def)

end
