(* ===== verification/Py_Parse.thy ===== *)
theory Py_Parse
  imports Py_Value
begin

text \<open>
  The conversions of text to numbers that the sources use: \<open>int(s)\<close>, \<open>int(s, 16)\<close>-style digit
  strings, \<open>float(s)\<close>, and decimal printing. \<open>None\<close> stands for \<open>ValueError\<close>.
\<close>

section \<open>Digits\<close>

text \<open>The zeros of the decimal digit blocks of Unicode (category Nd).\<close>

definition decimal_zeros :: "nat list" where
  "decimal_zeros = [0x30, 0x660, 0x6f0, 0x7c0, 0x966, 0x9e6, 0xa66, 0xae6, 0xb66, 0xbe6, 0xc66, 0xce6,
     0xd66, 0xde6, 0xe50, 0xed0, 0xf20, 0x1040, 0x1090, 0x17e0, 0x1810, 0x1946, 0x19d0, 0x1a80, 0x1a90,
     0x1b50, 0x1bb0, 0x1c40, 0x1c50, 0xa620, 0xa8d0, 0xa900, 0xa9d0, 0xa9f0, 0xaa50, 0xabf0, 0xff10,
     0x104a0, 0x10d30, 0x11066, 0x110f0, 0x11136, 0x111d0, 0x112f0, 0x11450, 0x114d0, 0x11650, 0x116c0,
     0x11730, 0x118e0, 0x11950, 0x11c50, 0x11d50, 0x11da0, 0x16a60, 0x16ac0, 0x16b50, 0x1d7ce, 0x1d7d8,
     0x1d7e2, 0x1d7ec, 0x1d7f6, 0x1e140, 0x1e2f0, 0x1e950, 0x1fbf0]"

definition py_digit :: "nat \<Rightarrow> nat option" where
  "py_digit c = (case filter (\<lambda>z. z \<le> c \<and> c < z + 10) decimal_zeros of
       [] \<Rightarrow> None | z # _ \<Rightarrow> Some (c - z))"

text \<open>\<open>s.isascii() and s.isdigit()\<close>.\<close>

definition ascii_digit :: "nat \<Rightarrow> bool" where
  "ascii_digit c \<longleftrightarrow> 48 \<le> c \<and> c \<le> 57"

definition ascii_digits :: "str \<Rightarrow> bool" where
  "ascii_digits s \<longleftrightarrow> s \<noteq> [] \<and> list_all ascii_digit s"

definition dec_value :: "str \<Rightarrow> nat" where
  "dec_value s = foldl (\<lambda>n c. n * 10 + (c - 48)) 0 s"

definition hex_digit :: "nat \<Rightarrow> nat option" where
  "hex_digit c =
     (if 48 \<le> c \<and> c \<le> 57 then Some (c - 48)
      else if 97 \<le> c \<and> c \<le> 102 then Some (c - 87)
      else if 65 \<le> c \<and> c \<le> 70 then Some (c - 55) else None)"

fun hex_value :: "nat \<Rightarrow> str \<Rightarrow> nat option" where
  "hex_value acc [] = Some acc"
| "hex_value acc (c # cs) = (case hex_digit c of None \<Rightarrow> None | Some d \<Rightarrow> hex_value (16 * acc + d) cs)"

section \<open>Integers\<close>

text \<open>Decimal digits with single underscores between them; the flag says that the last character read
  was a digit.\<close>

fun digits_us :: "bool \<Rightarrow> nat \<Rightarrow> str \<Rightarrow> nat option" where
  "digits_us after acc [] = (if after then Some acc else None)"
| "digits_us after acc (c # cs) =
     (if c = 95 then (if after then digits_us False acc cs else None)
      else case py_digit c of None \<Rightarrow> None | Some d \<Rightarrow> digits_us True (10 * acc + d) cs)"

fun split_sign :: "str \<Rightarrow> bool \<times> str" where
  "split_sign [] = (False, [])"
| "split_sign (c # cs) = (if c = 45 then (True, cs) else if c = 43 then (False, cs) else (False, c # cs))"

definition py_int :: "str \<Rightarrow> int option" where
  "py_int s = (let (neg, ds) = split_sign (strip s) in
     map_option (\<lambda>n. if neg then - int n else int n) (digits_us False 0 ds))"

text \<open>\<open>str(n)\<close>.\<close>

fun dec_digits :: "nat \<Rightarrow> str" where
  "dec_digits n = (if n < 10 then [48 + n] else dec_digits (n div 10) @ [48 + n mod 10])"

declare dec_digits.simps [simp del]

definition dec_str :: "int \<Rightarrow> str" where
  "dec_str i = (if i < 0 then 45 # dec_digits (nat (- i)) else dec_digits (nat i))"

lemma py_digit_ascii: "d < 10 \<Longrightarrow> py_digit (48 + d) = Some d"
  by (simp add: py_digit_def decimal_zeros_def)

lemma digits_us_append:
  "ds \<noteq> [] \<Longrightarrow> digits_us after acc ds = Some n \<Longrightarrow> digits_us after acc (ds @ es) = digits_us True n es"
proof (induction ds arbitrary: after acc)
  case (Cons c ds)
  show ?case
  proof (cases "ds = []")
    case True
    then show ?thesis using Cons.prems by (auto split: if_splits option.splits)
  next
    case False
    then show ?thesis using Cons.prems Cons.IH by (auto split: if_splits option.splits)
  qed
qed simp

lemma dec_digits_nonempty [simp]: "dec_digits n \<noteq> []"
  by (subst dec_digits.simps) simp

lemma digits_us_dec: "digits_us False 0 (dec_digits n) = Some n"
proof (induction n rule: dec_digits.induct)
  case (1 n)
  show ?case
  proof (cases "n < 10")
    case True
    then show ?thesis by (subst dec_digits.simps) (simp add: py_digit_ascii)
  next
    case False
    have "digits_us False 0 (dec_digits (n div 10) @ [48 + n mod 10]) = digits_us True (n div 10) [48 + n mod 10]"
      by (rule digits_us_append) (simp_all add: 1 False)
    also have "\<dots> = Some n" by (simp add: py_digit_ascii)
    finally show ?thesis using False by (subst dec_digits.simps) simp
  qed
qed

lemma dec_digits_ascii: "c \<in> set (dec_digits n) \<Longrightarrow> 48 \<le> c \<and> c \<le> 57"
proof (induction n rule: dec_digits.induct)
  case (1 n)
  then show ?case by (subst (asm) (2) dec_digits.simps) (auto split: if_splits)
qed

lemma dec_digits_inject [simp]: "dec_digits m = dec_digits n \<longleftrightarrow> m = n"
  by (metis digits_us_dec option.inject)

section \<open>Floats\<close>

text \<open>The value \<open>m * 10 ^ e\<close> rounded to a binary64 number; a magnitude out of range is infinite.\<close>

definition f64_of_decimal :: "bool \<Rightarrow> nat \<Rightarrow> int \<Rightarrow> f64" where
  "f64_of_decimal neg m e =
     (case (if 0 \<le> e then f64_of_ratio neg (m * 10 ^ nat e * 2 ^ f64_unit_exp) 1
            else f64_of_ratio neg (m * 2 ^ f64_unit_exp) (10 ^ nat (- e))) of
        Some x \<Rightarrow> x | None \<Rightarrow> mk_f64 neg f64_inf)"

text \<open>An exponent part \<open>e[+-]digits\<close>.\<close>

definition parse_exponent :: "str \<Rightarrow> int option" where
  "parse_exponent s = (let (neg, ds) = split_sign s in
     map_option (\<lambda>n. if neg then - int n else int n) (digits_us False 0 ds))"

text \<open>A mantissa \<open>digits[.digits]\<close> or \<open>.digits\<close>, as the digits without the point and the number of
  digits after it.\<close>

definition count_digits :: "str \<Rightarrow> nat" where
  "count_digits s = length (filter (\<lambda>c. c \<noteq> 95) s)"

definition parse_mantissa :: "str \<Rightarrow> (nat \<times> nat) option" where
  "parse_mantissa s =
     (case split_on 46 s of
        [a] \<Rightarrow> map_option (\<lambda>n. (n, 0)) (digits_us False 0 a)
      | [a, b] \<Rightarrow>
          if a = [] \<and> b = [] then None
          else if b = [] then map_option (\<lambda>n. (n, 0)) (digits_us False 0 a)
          else (case (if a = [] then Some 0 else digits_us False 0 a) of
                  None \<Rightarrow> None
                | Some n \<Rightarrow> map_option (\<lambda>m. (n * 10 ^ count_digits b + m, count_digits b)) (digits_us False 0 b))
      | _ \<Rightarrow> None)"

definition split_exponent :: "str \<Rightarrow> str \<times> str option" where
  "split_exponent s = (case dropWhile (\<lambda>c. c \<noteq> 101 \<and> c \<noteq> 69) s of
       [] \<Rightarrow> (s, None)
     | _ # e \<Rightarrow> (takeWhile (\<lambda>c. c \<noteq> 101 \<and> c \<noteq> 69) s, Some e))"

definition py_float :: "str \<Rightarrow> f64 option" where
  "py_float s =
     (let (neg, t) = split_sign (strip s); l = lower_ascii t in
      if l = ascii ''inf'' \<or> l = ascii ''infinity'' then Some (mk_f64 neg f64_inf)
      else if l = ascii ''nan'' then Some (if neg then mk_f64 True (f64_mag f64_nan) else f64_nan)
      else let (ms, es) = split_exponent t in
        case (parse_mantissa ms, case es of None \<Rightarrow> Some 0 | Some e \<Rightarrow> parse_exponent e) of
          (Some (m, k), Some e) \<Rightarrow> Some (f64_of_decimal neg m (e - int k))
        | _ \<Rightarrow> None)"

text \<open>\<open>x.is_integer()\<close> and \<open>int(x)\<close> (truncation; \<open>None\<close> for the \<open>OverflowError\<close> and \<open>ValueError\<close> of
  infinities and NaN).\<close>

definition f64_is_integer :: "f64 \<Rightarrow> bool" where
  "f64_is_integer x \<longleftrightarrow> f64_isfinite x \<and> f64_scaled x mod 2 ^ f64_unit_exp = 0"

definition f64_trunc :: "f64 \<Rightarrow> int option" where
  "f64_trunc x = (if f64_isfinite x
     then Some (let n = int (f64_scaled x div 2 ^ f64_unit_exp) in if f64_neg x then - n else n) else None)"

text \<open>Comparison of numbers: \<open>a \<le> b\<close> for Python ints and floats (exact, false for NaN).\<close>

definition f64_signed_scaled :: "f64 \<Rightarrow> int" where
  "f64_signed_scaled x = (if f64_neg x then - int (f64_scaled x) else int (f64_scaled x))"

fun num_le_int :: "pyval \<Rightarrow> int \<Rightarrow> bool" where
  "num_le_int (VInt i) n = (i \<le> n)"
| "num_le_int (VBool b) n = (of_bool b \<le> n)"
| "num_le_int (VFloat x) n =
     (if f64_isnan x then False else if f64_isinf x then f64_neg x
      else f64_signed_scaled x \<le> n * 2 ^ f64_unit_exp)"
| "num_le_int _ n = False"

fun num_ge_int :: "pyval \<Rightarrow> int \<Rightarrow> bool" where
  "num_ge_int (VInt i) n = (n \<le> i)"
| "num_ge_int (VBool b) n = (n \<le> of_bool b)"
| "num_ge_int (VFloat x) n =
     (if f64_isnan x then False else if f64_isinf x then \<not> f64_neg x
      else n * 2 ^ f64_unit_exp \<le> f64_signed_scaled x)"
| "num_ge_int _ n = False"

section \<open>Lemmas\<close>

text \<open>The comparisons as a witness evaluates them: with the float's fraction and its power of two, not in units of \<open>2^-1074\<close>.\<close>

definition f64_parts :: "f64 \<Rightarrow> int \<times> nat" where
  "f64_parts x =
     (let e = f64_mag x div 2 ^ 52; f = int (f64_mag x mod 2 ^ 52); m = (if e = 0 then f else 2 ^ 52 + f) * 2 ^ (e - 1 - 1074) in
      (if f64_neg x then - m else m, 1074 - (e - 1)))"

lemma f64_parts_scaled: "f64_signed_scaled x = fst (f64_parts x) * 2 ^ (1074 - snd (f64_parts x)) \<and> snd (f64_parts x) \<le> 1074"
proof -
  have "0 < e \<Longrightarrow> (2::int) ^ (e - 1) = 2 ^ (e - 1075) * 2 ^ (1074 - (1075 - e))" for e by (simp flip: power_add)
  then show ?thesis by (simp add: f64_parts_def f64_signed_scaled_def f64_scaled_def fp_scaled_def Let_def)
qed

lemma f64_scaled_compare:
  "f64_signed_scaled x \<le> n * 2 ^ f64_unit_exp \<longleftrightarrow> (case f64_parts x of (m, k) \<Rightarrow> m \<le> n * 2 ^ k)"
  "n * 2 ^ f64_unit_exp \<le> f64_signed_scaled x \<longleftrightarrow> (case f64_parts x of (m, k) \<Rightarrow> n * 2 ^ k \<le> m)"
proof -
  obtain m k where p: "f64_parts x = (m, k)" by fastforce
  have s: "f64_signed_scaled x = m * 2 ^ (1074 - k)" "k \<le> 1074" using f64_parts_scaled [of x] p by auto
  have u: "n * 2 ^ f64_unit_exp = (n * 2 ^ k) * 2 ^ (1074 - k)" using s(2) by (simp add: f64_unit_exp_def flip: power_add)
  show "f64_signed_scaled x \<le> n * 2 ^ f64_unit_exp \<longleftrightarrow> (case f64_parts x of (m, k) \<Rightarrow> m \<le> n * 2 ^ k)"
    "n * 2 ^ f64_unit_exp \<le> f64_signed_scaled x \<longleftrightarrow> (case f64_parts x of (m, k) \<Rightarrow> n * 2 ^ k \<le> m)"
    unfolding u s(1) p by (simp_all only: mult_le_cancel_right_pos zero_less_power zero_less_numeral prod.case)
qed

lemmas num_le_int_code [code] = num_le_int.simps [unfolded f64_scaled_compare]
lemmas num_ge_int_code [code] = num_ge_int.simps [unfolded f64_scaled_compare]

end
