(* ===== verification/Ipaddr.thy ===== *)
theory Ipaddr
  imports Py_Parse
begin

text \<open>
  What the sources use of the standard \<open>ipaddress\<close> module: parsing of addresses and networks
  (\<open>strict=False\<close>), membership, \<open>is_multicast\<close>, \<open>is_reserved\<close> and \<open>ipv4_mapped\<close>. \<open>None\<close> stands for
  \<open>ValueError\<close>. An address is its number; an IPv6 address also carries its scope id.
\<close>

datatype ipaddr = V4 nat | V6 nat "str option"
datatype ipnet = N4 nat nat | N6 nat nat

section \<open>IPv4\<close>

definition parse_octet :: "str \<Rightarrow> nat option" where
  "parse_octet s =
     (if \<not> ascii_digits s \<or> length s > 3 \<or> (s \<noteq> [48] \<and> hd s = 48) \<or> dec_value s > 255
      then None else Some (dec_value s))"

definition parse_ipv4 :: "str \<Rightarrow> nat option" where
  "parse_ipv4 s =
     (case map parse_octet (split_on 46 s) of
        [Some a, Some b, Some c, Some d] \<Rightarrow> Some (((a * 256 + b) * 256 + c) * 256 + d)
      | _ \<Rightarrow> None)"

section \<open>IPv6\<close>

definition parse_hextet :: "str \<Rightarrow> nat option" where
  "parse_hextet s = (if length s > 4 then None else hex_value 0 s)"

fun hextets :: "nat \<Rightarrow> str list \<Rightarrow> nat option" where
  "hextets acc [] = Some acc"
| "hextets acc (p # ps) = (case parse_hextet p of None \<Rightarrow> None | Some h \<Rightarrow> hextets (acc * 65536 + h) ps)"

text \<open>The dotted-quad tail, replaced by two groups: the parts and the values of the last two groups.\<close>

definition hex_digits16 :: "nat \<Rightarrow> str" where
  "hex_digits16 n = map (\<lambda>d. if d < 10 then 48 + d else 87 + d)
     [n div 4096 mod 16, n div 256 mod 16, n div 16 mod 16, n mod 16]"

definition expand_quad :: "str list \<Rightarrow> str list option" where
  "expand_quad parts =
     (if 46 \<in> set (last parts) then
        (case parse_ipv4 (last parts) of
           None \<Rightarrow> None
         | Some v \<Rightarrow> Some (butlast parts @ [hex_digits16 (v div 65536), hex_digits16 (v mod 65536)]))
      else Some parts)"

text \<open>The positions of the empty inner parts.\<close>

definition inner_empty :: "str list \<Rightarrow> nat list" where
  "inner_empty parts = filter (\<lambda>i. parts ! i = []) [1 ..< length parts - 1]"

definition assemble_ipv6 :: "str list \<Rightarrow> nat option" where
  "assemble_ipv6 parts =
     (case inner_empty parts of
        [] \<Rightarrow> if length parts \<noteq> 8 \<or> hd parts = [] \<or> last parts = [] then None else hextets 0 parts
      | [skip] \<Rightarrow>
          (let hi = skip; lo = length parts - skip - 1;
               hi' = (if hd parts = [] then hi - 1 else hi);
               lo' = (if last parts = [] then lo - 1 else lo) in
           if hd parts = [] \<and> hi' \<noteq> 0 \<or> last parts = [] \<and> lo' \<noteq> 0 \<or> hi' + lo' > 7 then None
           else case hextets 0 (take hi' parts) of
                  None \<Rightarrow> None
                | Some h \<Rightarrow> hextets (h * 65536 ^ (8 - (hi' + lo'))) (drop (length parts - lo') parts))
      | _ \<Rightarrow> None)"

definition parse_ipv6_int :: "str \<Rightarrow> nat option" where
  "parse_ipv6_int s =
     (let parts = split_on 58 s in
      if length parts < 3 then None
      else case expand_quad parts of
        None \<Rightarrow> None
      | Some ps \<Rightarrow> if length ps > 9 then None else assemble_ipv6 ps)"

definition split_scope :: "str \<Rightarrow> (str \<times> str option) option" where
  "split_scope s =
     (case split_on 37 s of
        [a] \<Rightarrow> Some (a, None)
      | [a, b] \<Rightarrow> if b = [] then None else Some (a, Some b)
      | _ \<Rightarrow> None)"

definition parse_ipv6 :: "str \<Rightarrow> ipaddr option" where
  "parse_ipv6 s =
     (case split_scope s of
        None \<Rightarrow> None
      | Some (a, scope) \<Rightarrow> map_option (\<lambda>n. V6 n scope) (parse_ipv6_int a))"

section \<open>\<open>ip_address\<close>, \<open>ip_network\<close>\<close>

definition ip_address :: "str \<Rightarrow> ipaddr option" where
  "ip_address s =
     (if 47 \<in> set s then None
      else case parse_ipv4 s of Some n \<Rightarrow> Some (V4 n) | None \<Rightarrow> parse_ipv6 s)"

definition prefix_from_string :: "nat \<Rightarrow> str \<Rightarrow> nat option" where
  "prefix_from_string bits s = (if ascii_digits s \<and> dec_value s \<le> bits then Some (dec_value s) else None)"

text \<open>The length of a mask of the form \<open>1...10...0\<close>.\<close>

definition prefix_from_ip_int :: "nat \<Rightarrow> nat option" where
  "prefix_from_ip_int n = (case filter (\<lambda>p. n = 2 ^ 32 - 2 ^ (32 - p)) [0 ..< 33] of
       [] \<Rightarrow> None | p # _ \<Rightarrow> Some p)"

definition prefix_from_ip_string :: "str \<Rightarrow> nat option" where
  "prefix_from_ip_string s =
     (case parse_ipv4 s of
        None \<Rightarrow> None
      | Some n \<Rightarrow> (case prefix_from_ip_int n of Some p \<Rightarrow> Some p | None \<Rightarrow> prefix_from_ip_int (2 ^ 32 - 1 - n)))"

definition mask_to :: "nat \<Rightarrow> nat \<Rightarrow> nat \<Rightarrow> nat" where
  "mask_to bits p n = n - n mod 2 ^ (bits - p)"

definition ip_network :: "str \<Rightarrow> ipnet option" where
  "ip_network s =
     (let parts = split_on 47 s; a = hd parts;
          v4 = (case parse_ipv4 a of
                  None \<Rightarrow> None
                | Some n \<Rightarrow>
                    map_option (\<lambda>p. N4 (mask_to 32 p n) p)
                      (if length parts = 1 then Some 32
                       else case prefix_from_string 32 (parts ! 1) of
                              Some p \<Rightarrow> Some p | None \<Rightarrow> prefix_from_ip_string (parts ! 1)));
          v6 = (case parse_ipv6 a of
                  Some (V6 n _) \<Rightarrow>
                    map_option (\<lambda>p. N6 (mask_to 128 p n) p)
                      (if length parts = 1 then Some 128 else prefix_from_string 128 (parts ! 1))
                | _ \<Rightarrow> None) in
      if length parts > 2 then None else case v4 of Some x \<Rightarrow> Some x | None \<Rightarrow> v6)"

fun in_net :: "ipaddr \<Rightarrow> ipnet \<Rightarrow> bool" where
  "in_net (V4 n) (N4 a p) = (mask_to 32 p n = a)"
| "in_net (V6 n _) (N6 a p) = (mask_to 128 p n = a)"
| "in_net _ _ = False"

fun ipv4_mapped :: "ipaddr \<Rightarrow> ipaddr option" where
  "ipv4_mapped (V6 n _) = (if n div 2 ^ 32 = 0xFFFF then Some (V4 (n mod 2 ^ 32)) else None)"
| "ipv4_mapped (V4 n) = None"

fun is_multicast :: "ipaddr \<Rightarrow> bool" where
  "is_multicast (V4 n) = (n div 2 ^ 28 = 14)"
| "is_multicast (V6 n _) = (n div 2 ^ 120 = 255)"

text \<open>The reserved IPv6 blocks as (first 16 bits, prefix length).\<close>

definition reserved6 :: "(nat \<times> nat) list" where
  "reserved6 = [(0, 8), (0x100, 8), (0x200, 7), (0x400, 6), (0x800, 5), (0x1000, 4), (0x4000, 3),
     (0x6000, 3), (0x8000, 3), (0xA000, 3), (0xC000, 3), (0xE000, 4), (0xF000, 5), (0xF800, 6), (0xFE00, 9)]"

fun is_reserved :: "ipaddr \<Rightarrow> bool" where
  "is_reserved (V4 n) = (n div 2 ^ 28 = 15)"
| "is_reserved (V6 n _) = list_ex (\<lambda>(h, p). n div 2 ^ (128 - p) = h * 2 ^ 112 div 2 ^ (128 - p)) reserved6"

text \<open>\<open>str(ip) in ("0.0.0.0", "::")\<close>.\<close>

fun is_any_address :: "ipaddr \<Rightarrow> bool" where
  "is_any_address (V4 n) = (n = 0)"
| "is_any_address (V6 n scope) = (n = 0 \<and> scope = None)"

section \<open>Lemmas\<close>

lemma mask_to_eq_iff: "mask_to bits p m = mask_to bits p n \<longleftrightarrow> m div 2 ^ (bits - p) = n div 2 ^ (bits - p)"
proof -
  have "mask_to bits p x = x div 2 ^ (bits - p) * 2 ^ (bits - p)" for x
    by (metis mask_to_def minus_mod_eq_div_mult)
  then show ?thesis by simp
qed

lemma dec_value_append: "dec_value (s @ [c]) = dec_value s * 10 + (c - 48)"
  by (simp add: dec_value_def)

lemma parse_octet_less: "parse_octet s = Some n \<Longrightarrow> n < 256"
  by (auto simp: parse_octet_def split: if_splits)

lemma parse_ipv4_less: "parse_ipv4 s = Some n \<Longrightarrow> n < 2 ^ 32"
proof -
  assume "parse_ipv4 s = Some n"
  then obtain a b c d where p: "map parse_octet (split_on 46 s) = [Some a, Some b, Some c, Some d]"
    and n: "n = ((a * 256 + b) * 256 + c) * 256 + d"
    by (auto simp: parse_ipv4_def split: list.splits option.splits)
  then have "a < 256" "b < 256" "c < 256" "d < 256"
    using parse_octet_less by (auto simp: map_eq_Cons_conv)
  then show ?thesis by (simp add: n)
qed

text \<open>A bare wildcard network contains every address of its family.\<close>

lemma in_net_any4: "n < 2 ^ 32 \<Longrightarrow> in_net (V4 n) (N4 0 0)"
  by (simp add: mask_to_def)

lemma in_net_any6: "n < 2 ^ 128 \<Longrightarrow> in_net (V6 n sc) (N6 0 0)"
  by (simp add: mask_to_def)

end
