(* ===== verification/Config.thy ===== *)
theory Config
  imports Ipaddr
begin

text \<open>
  \<open>app/config.py\<close>: the configuration records, their validation, the normalisation of legacy values and
  the cross-mapping checks. A field that the validators test with \<open>isinstance\<close> is a \<open>pyval\<close>; the
  existence of a file (\<open>os.path.isfile\<close>) is a parameter. A \<open>ConfigError\<close> carries a
  label in place of its message.
\<close>

text \<open>A \<open>ConfigError\<close>, by a label for its message.\<close>

datatype config_error = ConfigError string

section \<open>Constants and value tests\<close>

definition BYTESIZES :: "pyval list" where "BYTESIZES = map VInt [5, 6, 7, 8]"
definition PARITIES :: "str list" where
  "PARITIES = [ascii ''N'', ascii ''E'', ascii ''O'', ascii ''M'', ascii ''S'']"
text \<open>1, 1.5 and 2.\<close>
definition STOPBITS :: "pyval list" where "STOPBITS = [VInt 1, VFloat 0x3FF8000000000000, VInt 2]"
definition FLOWCONTROLS :: "str list" where
  "FLOWCONTROLS = [ascii ''none'', ascii ''rtscts'', ascii ''xonxoff'', ascii ''dsrdtr'']"
definition LINE_STATES :: "str list" where "LINE_STATES = [ascii ''on'', ascii ''off'', ascii ''keep'']"
definition PROTOCOLS :: "str list" where
  "PROTOCOLS = [ascii ''raw'', ascii ''telnet'', ascii ''rfc2217'', ascii ''modbus'']"
definition NET_MODES :: "str list" where "NET_MODES = [ascii ''server'', ascii ''client'', ascii ''udp'']"
definition MQTT_FORMATS :: "str list" where "MQTT_FORMATS = [ascii ''plain'', ascii ''sparkplug_b'']"
definition MODBUS_DTYPES :: "str list" where
  "MODBUS_DTYPES = [ascii ''uint16'', ascii ''int16'', ascii ''uint32'', ascii ''int32'', ascii ''float32'', ascii ''bool'']"
definition MAPPING_KINDS :: "str list" where "MAPPING_KINDS = [ascii ''net'', ascii ''serialbridge'']"
definition UI_LANGUAGES :: "str list" where "UI_LANGUAGES = [ascii ''auto'', ascii ''en'', ascii ''tr'']"
definition ROLES :: "str list" where "ROLES = [ascii ''admin'', ascii ''operator'', ascii ''viewer'']"
definition ROLE_RANK :: "(str \<times> int) list" where
  "ROLE_RANK = [(ascii ''viewer'', 1), (ascii ''operator'', 2), (ascii ''admin'', 3)]"
definition MAX_TIMER_S :: int where "MAX_TIMER_S = 365 * 86400"
definition SESSION_TIMEOUT_DEFAULT_S :: int where "SESSION_TIMEOUT_DEFAULT_S = 8 * 3600"
definition SESSION_TIMEOUT_MIN_S :: int where "SESSION_TIMEOUT_MIN_S = 5 * 60"
definition SESSION_TIMEOUT_MAX_S :: int where "SESSION_TIMEOUT_MAX_S = 30 * 86400"
definition WEBHOOK_FORMATS :: "str list" where
  "WEBHOOK_FORMATS = [ascii ''json'', ascii ''slack'', ascii ''teams'', ascii ''discord'', ascii ''telegram'']"
definition SMTP_SECURITY :: "str list" where "SMTP_SECURITY = [ascii ''starttls'', ascii ''ssl'', ascii ''none'']"
definition NOTIFY_EVENTS :: "str list" where
  "NOTIFY_EVENTS = [ascii ''device_lost'', ascii ''device_back'', ascii ''start_failed'',
     ascii ''client_connected'', ascii ''client_disconnected'', ascii ''login_failed'']"

definition is_int :: "pyval \<Rightarrow> bool" where
  "is_int v \<longleftrightarrow> proper_int v \<noteq> None"

definition is_number :: "pyval \<Rightarrow> bool" where
  "is_number v \<longleftrightarrow> (case v of VInt _ \<Rightarrow> True | VFloat _ \<Rightarrow> True | _ \<Rightarrow> False)"

text \<open>\<open>lo <= v <= hi\<close>.\<close>

definition between :: "int \<Rightarrow> pyval \<Rightarrow> int \<Rightarrow> bool" where
  "between lo v hi \<longleftrightarrow> num_ge_int v lo \<and> num_le_int v hi"

text \<open>\<open>isinstance(v, int) and lo <= v <= hi\<close>.\<close>

definition int_between :: "int \<Rightarrow> pyval \<Rightarrow> int \<Rightarrow> bool" where
  "int_between lo v hi \<longleftrightarrow> (case as_int v of None \<Rightarrow> False | Some i \<Rightarrow> lo \<le> i \<and> i \<le> hi)"

definition py_mem :: "pyval \<Rightarrow> pyval list \<Rightarrow> bool" where
  "py_mem v vs \<longleftrightarrow> list_ex (py_eq v) vs"

text \<open>\<open>0.1 <= v\<close>, with the float nearest to 0.1.\<close>

definition at_least_tenth :: "pyval \<Rightarrow> bool" where
  "at_least_tenth v = (case v of
       VInt i \<Rightarrow> 1 \<le> i
     | VFloat x \<Rightarrow> \<not> f64_isnan x \<and> \<not> f64_neg x \<and> 0x3FB999999999999A \<le> f64_mag x
     | _ \<Rightarrow> False)"

section \<open>Normalisation of stored values\<close>

definition legacy_seconds :: "pyval \<Rightarrow> pyval" where
  "legacy_seconds v =
     (let clamp = (\<lambda>w. if \<not> is_number w \<or> (case w of VFloat x \<Rightarrow> \<not> f64_isfinite x | _ \<Rightarrow> False)
                          \<or> \<not> num_ge_int w 0 then VInt 0
                       else if num_le_int w MAX_TIMER_S then w else VInt MAX_TIMER_S) in
      case v of
        VStr s \<Rightarrow>
          (case py_float (strip s) of
             None \<Rightarrow> VInt 0
           | Some x \<Rightarrow> clamp (if f64_is_integer x then (case f64_trunc x of Some i \<Rightarrow> VInt i | None \<Rightarrow> VFloat x)
                               else VFloat x))
      | _ \<Rightarrow> clamp v)"

definition TRACE_DEFAULT_NAME :: str where "TRACE_DEFAULT_NAME = ascii ''trace.log''"

text \<open>\<open>re.split(r"[\\/]", raw)[-1]\<close>.\<close>

definition last_component :: "str \<Rightarrow> str" where
  "last_component s = rev (takeWhile (\<lambda>c. c \<noteq> 47 \<and> c \<noteq> 92) (rev s))"

text \<open>\<open>[^\w.-]+\<close> replaced by one underscore per run; \<open>isword\<close> is the Unicode table behind \<open>\w\<close>.\<close>

fun sub_bad_runs :: "(nat \<Rightarrow> bool) \<Rightarrow> bool \<Rightarrow> str \<Rightarrow> str" where
  "sub_bad_runs isword inrun [] = []"
| "sub_bad_runs isword inrun (c # cs) =
     (if isword c \<or> c = 46 \<or> c = 45 then c # sub_bad_runs isword False cs
      else if inrun then sub_bad_runs isword True cs
      else 95 # sub_bad_runs isword True cs)"

definition dot_or_space :: "nat \<Rightarrow> bool" where
  "dot_or_space c \<longleftrightarrow> c = 46 \<or> c = 32"

definition trace_file_name :: "(nat \<Rightarrow> bool) \<Rightarrow> str \<Rightarrow> str" where
  "trace_file_name isword v =
     (let raw = strip v in
      if raw = [] then []
      else let name = sub_bad_runs isword False (last_component raw);
               name = rstrip_of dot_or_space (take 80 (rstrip_of dot_or_space (lstrip_of dot_or_space name)))
           in if name = [] then TRACE_DEFAULT_NAME else name)"

definition normalize_cidr :: "str \<Rightarrow> str" where
  "normalize_cidr v =
     (let v = strip v in
      if v = ascii ''0.0.0.0'' then ascii ''0.0.0.0/0''
      else if v = ascii ''::'' then ascii ''::/0'' else v)"

definition session_timeout :: "pyval \<Rightarrow> int" where
  "session_timeout v =
     (case (case v of
              VInt i \<Rightarrow> (case f64_of_int i of Some x \<Rightarrow> f64_trunc x | None \<Rightarrow> None)
            | VBool b \<Rightarrow> Some (of_bool b)
            | VFloat x \<Rightarrow> f64_trunc x
            | VStr s \<Rightarrow> (case py_float s of Some x \<Rightarrow> f64_trunc x | None \<Rightarrow> None)
            | _ \<Rightarrow> None) of
        None \<Rightarrow> SESSION_TIMEOUT_DEFAULT_S
      | Some s \<Rightarrow> min (max s SESSION_TIMEOUT_MIN_S) SESSION_TIMEOUT_MAX_S)"

section \<open>Serial settings\<close>

record serial_settings =
  ss_port :: str
  ss_match :: "(str \<times> pyval) list"
  ss_baudrate :: pyval
  ss_bytesize :: pyval
  ss_parity :: str
  ss_stopbits :: pyval
  ss_flowcontrol :: str
  ss_rts_on_open :: str
  ss_dtr_on_open :: str
  ss_exclusive :: bool
  ss_rs485_enabled :: bool
  ss_rs485_delay_before_tx_ms :: f64
  ss_rs485_delay_after_tx_ms :: f64
  ss_rs485_rts_level_for_tx :: bool
  ss_hangup_when_done :: bool
  ss_nobreak :: bool

definition validate_serial :: "serial_settings \<Rightarrow> config_error + unit" where
  "validate_serial s =
     rbind (ensure (ss_port s \<noteq> []) (ConfigError ''PortRequired'')) (\<lambda>_.
     rbind (ensure (case as_int (ss_baudrate s) of None \<Rightarrow> False | Some b \<Rightarrow> 0 < b) (ConfigError ''BadBaud'')) (\<lambda>_.
     rbind (ensure (py_mem (ss_bytesize s) BYTESIZES) (ConfigError ''BadBytesize'')) (\<lambda>_.
     rbind (ensure (ss_parity s \<in> set PARITIES) (ConfigError ''BadParity'')) (\<lambda>_.
     rbind (ensure (py_mem (ss_stopbits s) STOPBITS) (ConfigError ''BadStopbits'')) (\<lambda>_.
     rbind (ensure (ss_flowcontrol s \<in> set FLOWCONTROLS) (ConfigError ''BadFlow'')) (\<lambda>_.
     rbind (ensure (ss_rts_on_open s \<in> set LINE_STATES \<and> ss_dtr_on_open s \<in> set LINE_STATES) (ConfigError ''BadLineState'')) (\<lambda>_.
     ensure (\<not> (ss_rs485_enabled s \<and> ss_flowcontrol s = ascii ''rtscts'')) (ConfigError ''Rs485Conflict''))))))))"

section \<open>Network settings\<close>

record network_settings =
  ns_mode :: str
  ns_protocol :: str
  ns_bind_ip :: str
  ns_port :: pyval
  ns_remote_host :: str
  ns_remote_port :: pyval
  ns_max_connections :: pyval
  ns_kick_old_user :: bool
  ns_allowed_client_ips :: "str list"
  ns_priority_client_ips :: "str list"
  ns_read_only :: bool
  ns_client_queue_max :: pyval
  ns_tcp_keepalive :: bool
  ns_keepalive_idle_s :: pyval
  ns_keepalive_interval_s :: pyval
  ns_keepalive_count :: pyval
  ns_connect_timeout_s :: pyval
  ns_tls :: bool
  ns_tls_cert :: str
  ns_tls_key :: str

definition listens :: "network_settings \<Rightarrow> bool" where
  "listens n \<longleftrightarrow> ns_mode n = ascii ''server'' \<or> ns_mode n = ascii ''udp''"

definition validate_endpoint :: "network_settings \<Rightarrow> config_error + unit" where
  "validate_endpoint n =
     (if listens n then
        rbind (case ip_address (ns_bind_ip n) of None \<Rightarrow> Inl (ConfigError ''BadBindIp'') | Some ip \<Rightarrow> Inr ip) (\<lambda>ip.
        rbind (ensure (\<not> (is_multicast ip \<or> is_reserved ip \<and> \<not> is_any_address ip)) (ConfigError ''BindIpNotAllowed'')) (\<lambda>_.
        ensure (int_between 1 (ns_port n) 65535) (ConfigError ''BadPort'')))
      else
        rbind (ensure (strip (ns_remote_host n) \<noteq> []) (ConfigError ''NoRemoteHost'')) (\<lambda>_.
        ensure (int_between 1 (ns_remote_port n) 65535) (ConfigError ''BadRemotePort'')))"

definition validate_cidrs :: "str list \<Rightarrow> config_error + unit" where
  "validate_cidrs cidrs =
     rfold (\<lambda>_ c. ensure (ip_network (normalize_cidr c) \<noteq> None) (ConfigError ''BadClientCidr'')) () cidrs"

text \<open>For evaluation: the check of one address as a function, so that nothing is computed for a symbolic address.\<close>

definition check_cidr :: "unit \<Rightarrow> str \<Rightarrow> config_error + unit" where
  "check_cidr u c = ensure (ip_network (normalize_cidr c) \<noteq> None) (ConfigError ''BadClientCidr'')"

lemma validate_cidrs_code [code]: "validate_cidrs cidrs = rfold check_cidr () cidrs"
  by (simp add: validate_cidrs_def check_cidr_def [abs_def])

definition validate_tls :: "(str \<Rightarrow> bool) \<Rightarrow> network_settings \<Rightarrow> config_error + unit" where
  "validate_tls isfile n =
     (if ns_tls n then
        rbind (ensure (ns_mode n \<noteq> ascii ''udp'') (ConfigError ''TlsUdp'')) (\<lambda>_.
        rbind (ensure (ns_tls_cert n \<noteq> [] \<and> ns_tls_key n \<noteq> []) (ConfigError ''TlsFilesNeeded'')) (\<lambda>_.
        rfold (\<lambda>_ p. ensure (isfile p) (ConfigError ''TlsFileMissing'')) () [ns_tls_cert n, ns_tls_key n]))
      else Inr ())"

definition validate_network :: "(str \<Rightarrow> bool) \<Rightarrow> network_settings \<Rightarrow> config_error + unit" where
  "validate_network isfile n =
     rbind (ensure (ns_mode n \<in> set NET_MODES) (ConfigError ''BadNetMode'')) (\<lambda>_.
     rbind (ensure (ns_protocol n \<in> set PROTOCOLS) (ConfigError ''BadProtocol'')) (\<lambda>_.
     rbind (validate_endpoint n) (\<lambda>_.
     rbind (ensure (case as_int (ns_max_connections n) of None \<Rightarrow> False | Some i \<Rightarrow> 1 \<le> i) (ConfigError ''BadMaxConnections'')) (\<lambda>_.
     rbind (ensure (case as_int (ns_client_queue_max n) of None \<Rightarrow> False | Some i \<Rightarrow> 16 \<le> i) (ConfigError ''BadClientQueue'')) (\<lambda>_.
     rbind (rfold (\<lambda>_ (v, high). ensure (is_int v \<and> between 1 v high) (ConfigError ''BadKeepalive'')) ()
              [(ns_keepalive_idle_s n, 32767), (ns_keepalive_interval_s n, 32767), (ns_keepalive_count n, 127)]) (\<lambda>_.
     rbind (ensure (is_number (ns_connect_timeout_s n) \<and> between 0 (ns_connect_timeout_s n) 3600) (ConfigError ''BadConnectTimeout'')) (\<lambda>_.
     rbind (ensure (\<not> (ns_protocol n = ascii ''rfc2217'' \<and> ns_mode n = ascii ''udp'')) (ConfigError ''Rfc2217Udp'')) (\<lambda>_.
     rbind (ensure (\<not> (ns_protocol n = ascii ''modbus'' \<and> ns_mode n \<noteq> ascii ''server'')) (ConfigError ''ModbusNotServer'')) (\<lambda>_.
     rbind (ensure (\<not> (ns_protocol n = ascii ''rfc2217'' \<and>
              (case as_int (ns_max_connections n) of None \<Rightarrow> False | Some i \<Rightarrow> 1 < i))) (ConfigError ''Rfc2217Single'')) (\<lambda>_.
     rbind (validate_tls isfile n) (\<lambda>_.
     rbind (validate_cidrs (ns_allowed_client_ips n)) (\<lambda>_.
     validate_cidrs (ns_priority_client_ips n)))))))))))))"

section \<open>Mapping options\<close>

record mapping_options =
  mo_banner :: str
  mo_openstr :: str
  mo_closestr :: str
  mo_closeon :: str
  mo_idle_timeout_s :: pyval
  mo_max_connection_time_s :: pyval
  mo_trace_both :: str
  mo_trace_hexdump :: bool
  mo_trace_timestamp :: bool
  mo_trace_max_mb :: pyval
  mo_trace_keep :: pyval
  mo_rfc2217_poll_modem_interval_s :: f64
  mo_rfc2217_net_timeout_s :: f64
  mo_modbus_response_timeout_s :: f64

definition validate_options :: "mapping_options \<Rightarrow> config_error + unit" where
  "validate_options o' =
     rbind (rfold (\<lambda>_ v. ensure (is_number v \<and> between 0 v MAX_TIMER_S) (ConfigError ''BadTimer'')) ()
              [mo_idle_timeout_s o', mo_max_connection_time_s o']) (\<lambda>_.
     rbind (ensure (is_number (mo_trace_max_mb o') \<and> at_least_tenth (mo_trace_max_mb o')
              \<and> num_le_int (mo_trace_max_mb o') 1024) (ConfigError ''BadTraceSize'')) (\<lambda>_.
     ensure (is_int (mo_trace_keep o') \<and> between 0 (mo_trace_keep o') 50) (ConfigError ''BadTraceKeep'')))"

section \<open>MQTT settings\<close>

record mqtt_settings =
  mq_enabled :: bool
  mq_host :: str
  mq_port :: pyval
  mq_base_topic :: str
  mq_qos :: pyval
  mq_tls :: bool
  mq_username :: str
  mq_password :: str
  mq_client_id :: str
  mq_payload_format :: str
  mq_group_id :: str
  mq_node_id :: str

text \<open>\<open>any(c in value for c in "/+#")\<close>.\<close>

definition has_topic_char :: "str \<Rightarrow> bool" where
  "has_topic_char v \<longleftrightarrow> list_ex (\<lambda>c. c = 47 \<or> c = 43 \<or> c = 35) v"

definition validate_mqtt :: "mqtt_settings \<Rightarrow> config_error + unit" where
  "validate_mqtt q =
     (if \<not> mq_enabled q then Inr ()
      else
        rbind (ensure (strip (mq_host q) \<noteq> []) (ConfigError ''MqttNoHost'')) (\<lambda>_.
        rbind (ensure (strip (mq_base_topic q) \<noteq> []) (ConfigError ''MqttNoTopic'')) (\<lambda>_.
        rbind (ensure (int_between 1 (mq_port q) 65535) (ConfigError ''MqttBadPort'')) (\<lambda>_.
        rbind (ensure (py_mem (mq_qos q) [VInt 0, VInt 1, VInt 2]) (ConfigError ''MqttBadQos'')) (\<lambda>_.
        rbind (ensure (mq_payload_format q \<in> set MQTT_FORMATS) (ConfigError ''MqttBadFormat'')) (\<lambda>_.
        if mq_payload_format q = ascii ''sparkplug_b'' then
          rbind (rfold (\<lambda>_ v. ensure (\<not> has_topic_char v) (ConfigError ''SparkplugBadId'')) () [mq_group_id q, mq_node_id q]) (\<lambda>_.
          ensure (strip (mq_group_id q) \<noteq> []) (ConfigError ''SparkplugNoGroup''))
        else Inr ()))))))"

section \<open>Modbus poll points\<close>

record modbus_point =
  mp_name :: str
  mp_unit :: int
  mp_fn :: int
  mp_address :: int
  mp_dtype :: str
  mp_scale :: f64
  mp_writable :: bool

record modbus_poll =
  poll_interval_s :: f64
  poll_points :: "modbus_point list"

text \<open>One round of the loop over the points; the state is the set \<open>seen\<close>.\<close>

definition validate_point :: "str list \<Rightarrow> modbus_point \<Rightarrow> config_error + str list" where
  "validate_point seen p =
     rbind (ensure (strip (mp_name p) \<noteq> []) (ConfigError ''PointNoName'')) (\<lambda>_.
     rbind (ensure (mp_name p \<notin> set seen) (ConfigError ''PointDuplicate'')) (\<lambda>_.
     rbind (ensure (0 \<le> mp_unit p \<and> mp_unit p \<le> 255) (ConfigError ''PointUnit'')) (\<lambda>_.
     rbind (ensure (mp_fn p \<in> set [1, 2, 3, 4]) (ConfigError ''PointFn'')) (\<lambda>_.
     rbind (ensure (0 \<le> mp_address p \<and> mp_address p \<le> 65535) (ConfigError ''PointAddress'')) (\<lambda>_.
     rbind (ensure (mp_dtype p \<in> set MODBUS_DTYPES) (ConfigError ''PointDtype'')) (\<lambda>_.
     rbind (ensure (mp_fn p \<in> set [1, 2] \<longleftrightarrow> mp_dtype p = ascii ''bool'') (ConfigError ''PointDtypeFn'')) (\<lambda>_.
     rbind (ensure (\<not> (mp_writable p \<and> mp_fn p \<notin> set [1, 3])) (ConfigError ''PointNotWritable'')) (\<lambda>_.
     Inr (mp_name p # seen)))))))))"

definition f64_le_zero :: "f64 \<Rightarrow> bool" where
  "f64_le_zero x \<longleftrightarrow> num_le_int (VFloat x) 0"

definition validate_poll :: "modbus_poll \<Rightarrow> config_error + unit" where
  "validate_poll p =
     (if poll_points p = [] then Inr ()
      else rbind (ensure (\<not> f64_le_zero (poll_interval_s p)) (ConfigError ''PollInterval'')) (\<lambda>_.
           rbind (rfold validate_point [] (poll_points p)) (\<lambda>_. Inr ())))"

section \<open>Mappings\<close>

record mapping_config =
  mc_id :: str
  mc_name :: str
  mc_enabled :: bool
  mc_kind :: str
  mc_serial :: serial_settings
  mc_serial_b :: serial_settings
  mc_network :: network_settings
  mc_options :: mapping_options
  mc_mqtt :: mqtt_settings
  mc_poll :: modbus_poll

definition validate_mapping :: "(str \<Rightarrow> bool) \<Rightarrow> mapping_config \<Rightarrow> config_error + unit" where
  "validate_mapping isfile m =
     rbind (ensure (strip (mc_name m) \<noteq> []) (ConfigError ''MappingNoName'')) (\<lambda>_.
     rbind (ensure (mc_kind m \<in> set MAPPING_KINDS) (ConfigError ''MappingBadKind'')) (\<lambda>_.
     rbind (validate_serial (mc_serial m)) (\<lambda>_.
     rbind (if mc_kind m = ascii ''serialbridge'' then
              rbind (validate_serial (mc_serial_b m)) (\<lambda>_.
              ensure (ss_port (mc_serial_b m) \<noteq> ss_port (mc_serial m)) (ConfigError ''BridgeSamePort''))
            else validate_network isfile (mc_network m)) (\<lambda>_.
     rbind (validate_options (mc_options m)) (\<lambda>_.
     rbind (validate_mqtt (mc_mqtt m)) (\<lambda>_.
     rbind (validate_poll (mc_poll m)) (\<lambda>_.
     rbind (ensure (\<not> (poll_points (mc_poll m) \<noteq> [] \<and>
              \<not> (mc_kind m = ascii ''net'' \<and> ns_protocol (mc_network m) = ascii ''modbus''))) (ConfigError ''PollNeedsModbus'')) (\<lambda>_.
     ensure (\<not> (mq_enabled (mc_mqtt m) \<and> mq_payload_format (mc_mqtt m) = ascii ''sparkplug_b''
              \<and> poll_points (mc_poll m) = [])) (ConfigError ''SparkplugNeedsPoints'')))))))))"

end
