(* ===== verification/Utf8.thy ===== *)
theory Utf8
  imports Prelude
begin

text \<open>
  Python's strict UTF-8 codec (\<open>str.encode("utf-8")\<close>, \<open>bytes.decode("utf-8")\<close>) on code points:
  \<open>None\<close> stands for \<open>UnicodeEncodeError\<close> and \<open>UnicodeDecodeError\<close>. Encoding refuses surrogates;
  decoding refuses overlong forms, surrogates, values above U+10FFFF and truncated sequences.
\<close>

definition scalar_value :: "nat \<Rightarrow> bool" where
  "scalar_value c \<longleftrightarrow> c < 0xD800 \<or> (0xE000 \<le> c \<and> c \<le> 0x10FFFF)"

definition nbyte :: "nat \<Rightarrow> byte" where
  "nbyte n = of_nat n"

lemma unat_nbyte [simp]: "n < 256 \<Longrightarrow> unat (nbyte n) = n"
  by (simp add: nbyte_def unat_of_nat)

definition utf8_char :: "nat \<Rightarrow> bytes" where
  "utf8_char c =
     (if c < 0x80 then [nbyte c]
      else if c < 0x800 then [nbyte (0xC0 + c div 64), nbyte (0x80 + c mod 64)]
      else if c < 0x10000 then
        [nbyte (0xE0 + c div 4096), nbyte (0x80 + c div 64 mod 64), nbyte (0x80 + c mod 64)]
      else [nbyte (0xF0 + c div 262144), nbyte (0x80 + c div 4096 mod 64),
            nbyte (0x80 + c div 64 mod 64), nbyte (0x80 + c mod 64)])"

definition utf8_encode :: "str \<Rightarrow> bytes option" where
  "utf8_encode s = (if list_all scalar_value s then Some (concat (map utf8_char s)) else None)"

definition is_cont :: "byte \<Rightarrow> bool" where
  "is_cont b \<longleftrightarrow> 0x80 \<le> unat b \<and> unat b < 0xC0"

text \<open>The first character and the bytes after it.\<close>

fun utf8_next :: "bytes \<Rightarrow> (nat \<times> bytes) option" where
  "utf8_next [] = None"
| "utf8_next (b # bs) =
     (let n = unat b in
      if n < 0x80 then Some (n, bs)
      else if n < 0xE0 then
        (case bs of
           b1 # r \<Rightarrow>
             let c = (n - 0xC0) * 64 + (unat b1 - 0x80) in
             if 0xC2 \<le> n \<and> is_cont b1 then Some (c, r) else None
         | _ \<Rightarrow> None)
      else if n < 0xF0 then
        (case bs of
           b1 # b2 # r \<Rightarrow>
             let c = (n - 0xE0) * 4096 + (unat b1 - 0x80) * 64 + (unat b2 - 0x80) in
             if is_cont b1 \<and> is_cont b2 \<and> 0x800 \<le> c \<and> scalar_value c then Some (c, r) else None
         | _ \<Rightarrow> None)
      else
        (case bs of
           b1 # b2 # b3 # r \<Rightarrow>
             let c = (n - 0xF0) * 262144 + (unat b1 - 0x80) * 4096 + (unat b2 - 0x80) * 64 + (unat b3 - 0x80) in
             if is_cont b1 \<and> is_cont b2 \<and> is_cont b3 \<and> 0x10000 \<le> c \<and> c \<le> 0x10FFFF then Some (c, r) else None
         | _ \<Rightarrow> None))"

lemma utf8_next_shorter: "utf8_next bs = Some (c, r) \<Longrightarrow> length r < length bs"
  by (cases bs) (auto simp: Let_def split: if_splits list.splits)

function utf8_decode :: "bytes \<Rightarrow> str option" where
  "utf8_decode bs =
     (if bs = [] then Some []
      else case utf8_next bs of
        None \<Rightarrow> None
      | Some (c, r) \<Rightarrow> map_option (\<lambda>s. c # s) (utf8_decode r))"
  by pat_completeness auto
termination by (relation "measure length") (auto dest: utf8_next_shorter)

declare utf8_decode.simps [simp del]

lemma utf8_next_char:
  assumes "scalar_value c"
  shows "utf8_next (utf8_char c @ rest) = Some (c, rest)"
proof -
  have c: "c \<le> 0x10FFFF" using assms by (auto simp: scalar_value_def)
  consider "c < 0x80" | "0x80 \<le> c" "c < 0x800" | "0x800 \<le> c" "c < 0x10000" | "0x10000 \<le> c"
    by linarith
  then show ?thesis
  proof cases
    case 1
    then show ?thesis by (simp add: utf8_char_def)
  next
    case 2
    then have "0xC2 \<le> 0xC0 + c div 64" "0xC0 + c div 64 < 0xE0" by auto
    then show ?thesis using 2 by (simp add: utf8_char_def is_cont_def Let_def)
  next
    case 3
    define q where "q = c div 64"
    have "c div 4096 = q div 64" by (simp add: q_def div_mult2_eq [symmetric])
    moreover have "q div 64 < 16" using 3 by (simp add: q_def)
    moreover have "q div 64 * 4096 + q mod 64 * 64 + c mod 64 = c"
      using div_mult_mod_eq [of q 64] div_mult_mod_eq [of c 64] unfolding q_def [symmetric] by linarith
    ultimately show ?thesis
      using 3 assms by (simp add: utf8_char_def is_cont_def Let_def flip: q_def)
  next
    case 4
    define q where "q = c div 64"
    define p where "p = q div 64"
    have d: "c div 4096 = p" "c div 262144 = p div 64"
      by (simp_all add: p_def q_def div_mult2_eq [symmetric])
    moreover have "p div 64 < 5" using c by (simp flip: d)
    moreover have "p div 64 * 262144 + p mod 64 * 4096 + q mod 64 * 64 + c mod 64 = c"
      using div_mult_mod_eq [of p 64] div_mult_mod_eq [of q 64] div_mult_mod_eq [of c 64]
      unfolding q_def [symmetric] p_def [symmetric] by linarith
    ultimately show ?thesis
      using 4 c by (simp add: utf8_char_def is_cont_def Let_def flip: q_def)
  qed
qed

lemma utf8_char_nonempty [simp]: "utf8_char c \<noteq> []"
  by (simp add: utf8_char_def)

lemma utf8_decode_Nil [simp]: "utf8_decode [] = Some []"
  by (simp add: utf8_decode.simps)

lemma utf8_decode_encode: "utf8_encode s = Some bs \<Longrightarrow> utf8_decode bs = Some s"
proof (induction s arbitrary: bs)
  case Nil
  then show ?case by (simp add: utf8_encode_def)
next
  case (Cons c s)
  then have bs: "bs = utf8_char c @ concat (map utf8_char s)" and c: "scalar_value c"
    and s: "utf8_encode s = Some (concat (map utf8_char s))"
    by (auto simp: utf8_encode_def split: if_splits)
  show ?case
    using Cons.IH [OF s] by (subst utf8_decode.simps) (simp add: bs utf8_next_char [OF c])
qed

lemma utf8_decode_scalar: "utf8_decode bs = Some s \<Longrightarrow> list_all scalar_value s"
proof (induction bs arbitrary: s rule: utf8_decode.induct)
  case (1 bs)
  show ?case
  proof (cases "bs = []")
    case True
    then show ?thesis using 1(2) by simp
  next
    case False
    then obtain c r s' where n: "utf8_next bs = Some (c, r)" "utf8_decode r = Some s'" "s = c # s'"
      using 1(2) by (subst (asm) utf8_decode.simps) (auto split: option.splits)
    have "scalar_value c"
      using n(1) by (cases bs) (auto simp: Let_def scalar_value_def is_cont_def split: if_splits list.splits)
    then show ?thesis using n 1(1) [OF False n(1) refl n(2)] by simp
  qed
qed

end
