(* ===== verification/Json.thy ===== *)
theory Json
  imports Py_Parse Utf8
begin

text \<open>
  What the sources use of the standard \<open>json\<close> module and of lenient UTF-8 decoding: \<open>json.loads\<close> of a
  text (Python's dialect: \<open>NaN\<close> and \<open>Infinity\<close> are numbers, control characters are not allowed in
  strings) and \<open>bytes.decode("utf-8", "replace")\<close>. \<open>None\<close> stands for \<open>JSONDecodeError\<close>.
\<close>

datatype json =
    JNull | JBool bool | JInt int | JFloat f64 | JStr str | JList "json list" | JDict "(str \<times> json) list"

section \<open>Lexical parts\<close>

definition json_ws :: "nat \<Rightarrow> bool" where
  "json_ws c \<longleftrightarrow> c = 32 \<or> c = 9 \<or> c = 10 \<or> c = 13"

definition skip_ws :: "str \<Rightarrow> str" where
  "skip_ws s = dropWhile json_ws s"

definition hex4 :: "str \<Rightarrow> (nat \<times> str) option" where
  "hex4 s = (if length s < 4 then None
     else map_option (\<lambda>n. (n, drop 4 s)) (hex_value 0 (take 4 s)))"

definition json_escape :: "nat \<Rightarrow> nat option" where
  "json_escape c = map_of [(34, 34), (92, 92), (47, 47), (98, 8), (102, 12), (110, 10), (114, 13), (116, 9)] c"

text \<open>A \<open>\uXXXX\<close> escape after the \<open>u\<close>; a high surrogate takes a following low surrogate escape.\<close>

definition json_unicode :: "str \<Rightarrow> (nat \<times> str) option" where
  "json_unicode s =
     (case hex4 s of
        None \<Rightarrow> None
      | Some (u, r) \<Rightarrow>
          if 0xD800 \<le> u \<and> u \<le> 0xDBFF \<and> take 2 r = [92, 117] then
            (case hex4 (drop 2 r) of
               None \<Rightarrow> None
             | Some (v, r') \<Rightarrow>
                 if 0xDC00 \<le> v \<and> v \<le> 0xDFFF then Some (0x10000 + (u - 0xD800) * 1024 + (v - 0xDC00), r')
                 else Some (u, r))
          else Some (u, r))"

text \<open>The body of a string, after the opening quote; the first argument bounds the recursion by the
  number of characters left.\<close>

fun json_string :: "nat \<Rightarrow> str \<Rightarrow> (str \<times> str) option" where
  "json_string 0 s = None"
| "json_string (Suc n) s =
     (case s of
        [] \<Rightarrow> None
      | c # r \<Rightarrow>
          if c = 34 then Some ([], r)
          else if c < 32 then None
          else if c = 92 then
            (case r of
               [] \<Rightarrow> None
             | e # r' \<Rightarrow>
                 (case (if e = 117 then json_unicode r' else map_option (\<lambda>x. (x, r')) (json_escape e)) of
                    None \<Rightarrow> None
                  | Some (x, r'') \<Rightarrow> map_option (\<lambda>(t, q). (x # t, q)) (json_string n r'')))
          else map_option (\<lambda>(t, q). (c # t, q)) (json_string n r))"

text \<open>A number: \<open>-?(0|[1-9][0-9]*)(\.[0-9]+)?([eE][+-]?[0-9]+)?\<close>, an integer when it has neither fraction
  nor exponent.\<close>

definition json_number :: "str \<Rightarrow> (json \<times> str) option" where
  "json_number s =
     (let neg = (s \<noteq> [] \<and> hd s = 45); s1 = (if neg then tl s else s);
          ip = takeWhile ascii_digit s1; ip = (if ip \<noteq> [] \<and> hd ip = 48 then [48] else ip);
          r1 = drop (length ip) s1;
          fp = (if r1 \<noteq> [] \<and> hd r1 = 46 then takeWhile ascii_digit (tl r1) else []);
          r2 = (if fp = [] then r1 else drop (Suc (length fp)) r1);
          es = (if r2 \<noteq> [] \<and> hd r2 \<in> {101, 69} then tl r2 else []);
          esign = (if es \<noteq> [] \<and> hd es \<in> {43, 45} then [hd es] else []);
          ed = takeWhile ascii_digit (drop (length esign) es);
          r3 = (if ed = [] then r2 else drop (Suc (length esign + length ed)) r2);
          ex = (if esign = [45] then - int (dec_value ed) else int (dec_value ed)) in
      if ip = [] then None
      else if fp = [] \<and> ed = [] then Some (JInt (if neg then - int (dec_value ip) else int (dec_value ip)), r3)
      else Some (JFloat (f64_of_decimal neg (dec_value (ip @ fp)) (ex - int (length fp))), r3))"

definition json_constants :: "(str \<times> json) list" where
  "json_constants = [(ascii ''null'', JNull), (ascii ''true'', JBool True), (ascii ''false'', JBool False),
     (ascii ''NaN'', JFloat f64_nan), (ascii ''Infinity'', JFloat (mk_f64 False f64_inf)),
     (ascii ''-Infinity'', JFloat (mk_f64 True f64_inf))]"

definition json_constant :: "str \<Rightarrow> (json \<times> str) option" where
  "json_constant s = (case filter (\<lambda>(w, _). is_prefix_of w s) json_constants of
       [] \<Rightarrow> None | (w, v) # _ \<Rightarrow> Some (v, drop (length w) s))"

section \<open>Values\<close>

text \<open>A later key replaces an earlier one, as in a \<open>dict\<close>.\<close>

definition dict_put :: "(str \<times> json) list \<Rightarrow> str \<Rightarrow> json \<Rightarrow> (str \<times> json) list" where
  "dict_put d k v = (if k \<in> fst ` set d then map (\<lambda>(k', w). if k' = k then (k', v) else (k', w)) d else d @ [(k, v)])"

fun json_value :: "nat \<Rightarrow> str \<Rightarrow> (json \<times> str) option"
and json_items :: "nat \<Rightarrow> json list \<Rightarrow> str \<Rightarrow> (json \<times> str) option"
and json_pairs :: "nat \<Rightarrow> (str \<times> json) list \<Rightarrow> str \<Rightarrow> (json \<times> str) option" where
  "json_value 0 s = None"
| "json_value (Suc n) s =
     (case s of
        [] \<Rightarrow> None
      | c # r \<Rightarrow>
          if c = 34 then map_option (\<lambda>(t, q). (JStr t, q)) (json_string n r)
          else if c = 91 then
            (case skip_ws r of
               [] \<Rightarrow> None
             | d # q \<Rightarrow> if d = 93 then Some (JList [], q) else json_items n [] (d # q))
          else if c = 123 then
            (case skip_ws r of
               [] \<Rightarrow> None
             | d # q \<Rightarrow> if d = 125 then Some (JDict [], q) else json_pairs n [] (d # q))
          else (case json_constant s of Some x \<Rightarrow> Some x | None \<Rightarrow> json_number s))"
| "json_items 0 acc s = None"
| "json_items (Suc n) acc s =
     (case json_value n s of
        None \<Rightarrow> None
      | Some (v, r) \<Rightarrow>
          (case skip_ws r of
             [] \<Rightarrow> None
           | c # q \<Rightarrow>
               if c = 93 then Some (JList (acc @ [v]), q)
               else if c = 44 then json_items n (acc @ [v]) (skip_ws q)
               else None))"
| "json_pairs 0 acc s = None"
| "json_pairs (Suc n) acc s =
     (case s of
        [] \<Rightarrow> None
      | c # r \<Rightarrow>
          if c \<noteq> 34 then None
          else (case json_string n r of
                  None \<Rightarrow> None
                | Some (k, q) \<Rightarrow>
                    (case skip_ws q of
                       [] \<Rightarrow> None
                     | d # q1 \<Rightarrow>
                         if d \<noteq> 58 then None
                         else (case json_value n (skip_ws q1) of
                                 None \<Rightarrow> None
                               | Some (v, q2) \<Rightarrow>
                                   (case skip_ws q2 of
                                      [] \<Rightarrow> None
                                    | e # q3 \<Rightarrow>
                                        if e = 125 then Some (JDict (dict_put acc k v), q3)
                                        else if e = 44 then json_pairs n (dict_put acc k v) (skip_ws q3)
                                        else None)))))"

text \<open>Every nested call reads at least one character first, so the length of the text bounds the depth.\<close>

definition json_loads :: "str \<Rightarrow> json option" where
  "json_loads s =
     (case json_value (Suc (2 * length s)) (skip_ws s) of
        Some (v, r) \<Rightarrow> if skip_ws r = [] then Some v else None
      | None \<Rightarrow> None)"

section \<open>Lenient UTF-8 decoding\<close>

text \<open>The allowed range of the second byte after a lead byte.\<close>

definition second_range :: "nat \<Rightarrow> nat \<times> nat" where
  "second_range n =
     (if n = 0xE0 then (0xA0, 0xBF) else if n = 0xED then (0x80, 0x9F)
      else if n = 0xF0 then (0x90, 0xBF) else if n = 0xF4 then (0x80, 0x8F) else (0x80, 0xBF))"

definition second_ok :: "nat \<Rightarrow> byte \<Rightarrow> bool" where
  "second_ok n b \<longleftrightarrow> fst (second_range n) \<le> unat b \<and> unat b \<le> snd (second_range n)"

text \<open>The number of bytes that one replacement character stands for: the longest prefix of a valid
  sequence, at least one byte.\<close>

definition bad_length :: "bytes \<Rightarrow> nat" where
  "bad_length bs =
     (case bs of
        [] \<Rightarrow> 1
      | b # r \<Rightarrow>
          (let n = unat b in
           if n < 0xE0 \<or> 0xF4 < n then 1
           else case r of
             [] \<Rightarrow> 1
           | b1 # r1 \<Rightarrow>
               if \<not> second_ok n b1 then 1
               else if n < 0xF0 then 2
               else (case r1 of [] \<Rightarrow> 2 | b2 # _ \<Rightarrow> if is_cont b2 then 3 else 2)))"

function utf8_replace :: "bytes \<Rightarrow> str" where
  "utf8_replace bs =
     (if bs = [] then []
      else case utf8_next bs of
        Some (c, r) \<Rightarrow> c # utf8_replace r
      | None \<Rightarrow> 0xFFFD # utf8_replace (drop (bad_length bs) bs))"
  by pat_completeness auto
termination
proof (relation "measure length")
  show "wf (measure length)" by simp
next
  fix bs :: bytes and x c r
  assume "utf8_next bs = Some x" "(c, r) = x"
  then show "(r, bs) \<in> measure length" using utf8_next_shorter [of bs c r] by auto
next
  fix bs :: bytes
  assume "bs \<noteq> []"
  moreover have "0 < bad_length bs"
    by (auto simp: bad_length_def Let_def split: list.splits)
  ultimately show "(drop (bad_length bs) bs, bs) \<in> measure length" by auto
qed

declare utf8_replace.simps [simp del]

lemma utf8_replace_decode: "utf8_decode bs = Some s \<Longrightarrow> utf8_replace bs = s"
proof (induction bs arbitrary: s rule: utf8_decode.induct)
  case (1 bs)
  then show ?case
    by (subst (asm) (2) utf8_decode.simps, subst utf8_replace.simps) (auto split: if_splits option.splits)
qed

end
