(* ===== verification/Gateway.thy ===== *)
theory Gateway
  imports Modbus Config Json
begin

text \<open>
  \<open>app/engine/modbus_gateway.py\<close>: the Modbus/TCP to RTU gateway. The bus is an explicit input: for each
  transaction the outcomes of the serial reads and of the write. The gateway state is a record; a
  handler returns its result and the new state. The bus lock makes transactions atomic, so a run is a
  sequence of them.
\<close>

section \<open>Access lists and timers\<close>

definition parse_nets :: "str list \<Rightarrow> ipnet list" where
  "parse_nets cidrs = concat (map (\<lambda>c. case ip_network (normalize_cidr c) of Some n \<Rightarrow> [n] | None \<Rightarrow> []) cidrs)"

text \<open>The IPv4 address inside an IPv4-mapped IPv6 address.\<close>

definition unmap :: "ipaddr \<Rightarrow> ipaddr" where
  "unmap a = (case ipv4_mapped a of Some b \<Rightarrow> b | None \<Rightarrow> a)"

definition ip_in_nets :: "str \<Rightarrow> ipnet list \<Rightarrow> bool" where
  "ip_in_nets ip nets =
     (if nets = [] then False
      else case ip_address ip of None \<Rightarrow> False | Some a \<Rightarrow> list_ex (in_net (unmap a)) nets)"

text \<open>Seconds until the next timer of a master fires; \<open>now\<close> is \<open>time.monotonic()\<close>.\<close>

definition next_timer :: "real \<Rightarrow> real option \<Rightarrow> real \<Rightarrow> real option" where
  "next_timer idle_s deadline now =
     (case ((if idle_s > 0 then [idle_s] else []) @
            (case deadline of None \<Rightarrow> [] | Some d \<Rightarrow> [max 0 (d - now)])) of
        [] \<Rightarrow> None | w # ws \<Rightarrow> Some (fold min ws w))"

section \<open>The bus\<close>

text \<open>The outcome of one \<open>reader.read\<close> under its timeout. \<open>R_eof\<close> is the empty read.\<close>

datatype bus_read = R_data bytes | R_eof | R_timeout | R_error

text \<open>What happens on the bus during one transaction: no open port, or the outcome of write and drain
  and the outcomes of the reads (an exhausted list means silence).\<close>

record bus =
  bus_write_ok :: bool
  bus_reads :: "bus_read list"

text \<open>Discard stale bytes: read until a timeout, the end of the stream or an error.\<close>

fun discard_stale :: "bus_read list \<Rightarrow> bus_read list" where
  "discard_stale (R_data d # rs) = discard_stale rs"
| "discard_stale (_ # rs) = rs"
| "discard_stale [] = []"

text \<open>The drain loop of \<open>_read_rtu_response\<close>: until silence or end of stream; \<open>None\<close> is a raised error.\<close>

fun read_rest :: "bytes \<Rightarrow> bus_read list \<Rightarrow> bytes option" where
  "read_rest buf (R_data d # rs) = read_rest (buf @ d) rs"
| "read_rest buf (R_error # rs) = None"
| "read_rest buf _ = Some buf"

definition read_rtu_response :: "bus_read list \<Rightarrow> bytes option" where
  "read_rtu_response rs = (case rs of R_data d # rest \<Rightarrow> read_rest d rest | _ \<Rightarrow> None)"

section \<open>The gateway state\<close>

definition FROM_DEVICE :: int where "FROM_DEVICE = 0"
definition TO_DEVICE :: int where "TO_DEVICE = 1"

text \<open>A connected master: its identity, peer and connection time.\<close>

record master =
  ms_id :: nat
  ms_peer :: str
  ms_connected_at :: int

record gateway =
  gw_clients :: "master list"
  gw_client_count :: nat
  gw_bytes_in :: nat
  gw_bytes_out :: nat
  gw_monitor_feed :: "bytes list"
  gw_traffic :: "(int \<times> bytes) list"
  gw_trace :: "(str \<times> bytes) list"
  gw_txns :: nat

text \<open>\<open>_transaction\<close>: \<open>env n\<close> is what the bus does in the \<open>n\<close>-th transaction.\<close>

definition failed_pdu :: "bytes \<Rightarrow> bytes" where
  "failed_pdu pdu = exception_pdu (case pdu of [] \<Rightarrow> 0 | f # _ \<Rightarrow> uint f) GATEWAY_TARGET_FAILED"

definition transaction :: "(nat \<Rightarrow> bus option) \<Rightarrow> gateway \<Rightarrow> int \<Rightarrow> bytes \<Rightarrow> bytes \<times> gateway" where
  "transaction env g unit pdu =
     (let g0 = g\<lparr>gw_txns := Suc (gw_txns g)\<rparr> in
      case env (gw_txns g) of
        None \<Rightarrow> (failed_pdu pdu, g0)
      | Some b \<Rightarrow>
          (let reads = discard_stale (bus_reads b);
               req = rtu_wrap unit pdu;
               g1 = g0\<lparr>gw_monitor_feed := gw_monitor_feed g @ [[0xBB, 32, 116, 120, 32] @ req],
                       gw_trace := gw_trace g @ [(ascii ''net>ser'', req)],
                       gw_traffic := gw_traffic g @ [(TO_DEVICE, req)]\<rparr> in
           if \<not> bus_write_ok b then (failed_pdu pdu, g1)
           else
             let g2 = g1\<lparr>gw_bytes_out := gw_bytes_out g + length req\<rparr> in
             case read_rtu_response reads of
               None \<Rightarrow> (failed_pdu pdu, g2)
             | Some resp \<Rightarrow>
                 (let g3 = g2\<lparr>gw_monitor_feed := gw_monitor_feed g2 @ [[0xAA, 32, 114, 120, 32] @ resp],
                              gw_trace := gw_trace g2 @ [(ascii ''ser>net'', resp)],
                              gw_traffic := gw_traffic g2 @ [(FROM_DEVICE, resp)],
                              gw_bytes_in := gw_bytes_in g + length resp\<rparr> in
                  case rtu_unwrap resp of
                    Inl _ \<Rightarrow> (failed_pdu pdu, g3)
                  | Inr (runit, rpdu) \<Rightarrow> if runit \<noteq> unit then (failed_pdu pdu, g3) else (rpdu, g3))))"

section \<open>Serving a master\<close>

text \<open>The transactions of the complete frames of one read, with the replies written to the master.\<close>

fun serve_frames :: "(nat \<Rightarrow> bus option) \<Rightarrow> gateway \<Rightarrow> (int \<times> int \<times> bytes) list \<Rightarrow> bytes \<times> gateway" where
  "serve_frames env g [] = ([], g)"
| "serve_frames env g ((txn, unit, pdu) # fs) =
     (let (rpdu, g1) = transaction env g unit pdu; (out, g2) = serve_frames env g1 fs
      in (build_tcp_adu txn unit rpdu @ out, g2))"

text \<open>The loop of \<open>_on_client\<close> over the chunks a master sends: the bytes written back, the framing error
  that ended it, and the unconsumed buffer. Framing does not depend on the transactions, so the frames
  of a chunk are cut first (\<open>feed\<close>) and answered in order; a framing error comes after the frames
  before it are answered.\<close>

fun serve_client :: "(nat \<Rightarrow> bus option) \<Rightarrow> gateway \<Rightarrow> bytes \<Rightarrow> bytes list \<Rightarrow> bytes \<times> gateway \<times> mb_error option \<times> bytes" where
  "serve_client env g buf [] = ([], g, None, buf)"
| "serve_client env g buf (data # chunks) =
     (case feed take_tcp_adu buf data of
        (frames, err, buf') \<Rightarrow>
          (let (out, g1) = serve_frames env g frames in
           case err of
             Some e \<Rightarrow> (out, g1, Some e, buf')
           | None \<Rightarrow> (let (outs, g2, e, b) = serve_client env g1 buf' chunks in (out @ outs, g2, e, b))))"

text \<open>Admission: \<open>False\<close> closes the connection.\<close>

definition admit_master :: "ipnet list \<Rightarrow> int \<Rightarrow> gateway \<Rightarrow> str \<Rightarrow> bool" where
  "admit_master allowed max_connections g peer_ip \<longleftrightarrow>
     \<not> (allowed \<noteq> [] \<and> \<not> ip_in_nets peer_ip allowed) \<and> \<not> (int (length (gw_clients g)) \<ge> max_connections)"

definition refresh_clients :: "gateway \<Rightarrow> gateway" where
  "refresh_clients g = g\<lparr>gw_client_count := length (gw_clients g)\<rparr>"

text \<open>\<open>_on_client\<close> up to the serving loop, and its \<open>finally\<close>.\<close>

definition connect_master :: "ipnet list \<Rightarrow> int \<Rightarrow> gateway \<Rightarrow> str \<Rightarrow> master \<Rightarrow> gateway" where
  "connect_master allowed max_connections g peer_ip m =
     (if admit_master allowed max_connections g peer_ip
      then refresh_clients (g\<lparr>gw_clients := m # gw_clients g\<rparr>) else g)"

definition disconnect_master :: "gateway \<Rightarrow> nat \<Rightarrow> gateway" where
  "disconnect_master g i = refresh_clients (g\<lparr>gw_clients := filter (\<lambda>m. ms_id m \<noteq> i) (gw_clients g)\<rparr>)"

section \<open>Poll points\<close>

text \<open>Errors of \<open>_read_point\<close> and \<open>write_point\<close>: a codec error, or a point that is not writable.\<close>

datatype point_error = Codec mb_error | NotWritable

definition lift_codec :: "mb_error + 'a \<Rightarrow> point_error + 'a" where
  "lift_codec r = (case r of Inl e \<Rightarrow> Inl (Codec e) | Inr x \<Rightarrow> Inr x)"

definition read_point :: "(nat \<Rightarrow> bus option) \<Rightarrow> gateway \<Rightarrow> modbus_point \<Rightarrow> (point_error + pyval) \<times> gateway" where
  "read_point env g p =
     (if mp_fn p \<in> set [READ_COILS, READ_DISCRETE_INPUTS] then
        (case read_bits_pdu (mp_fn p) (VInt (mp_address p)) (VInt 1) of
           Inl e \<Rightarrow> (Inl (Codec e), g)
         | Inr req \<Rightarrow>
             (let (rpdu, g') = transaction env g (mp_unit p) req in
              (lift_codec (rbind (response_data rpdu (mp_fn p)) (\<lambda>data.
                 rbind (decode_bits data (VInt 1)) (\<lambda>bits. Inr (VBool (hd bits))))), g')))
      else
        (case dtype_registers (mp_dtype p) of
           Inl e \<Rightarrow> (Inl (Codec e), g)
         | Inr n \<Rightarrow>
             (let (rpdu, g') = transaction env g (mp_unit p) (read_pdu (mp_fn p) (mp_address p) (int n)) in
              (lift_codec (rbind (response_data rpdu (mp_fn p)) (\<lambda>data.
                 decode_value data (mp_dtype p) (mp_scale p))), g'))))"

text \<open>The request \<open>write_point\<close> sends. \<open>point.scale or 1.0\<close> turns a zero scale into 1.\<close>

definition scale_or_one :: "f64 \<Rightarrow> f64" where
  "scale_or_one s = (if f64_truthy s then s else f64_one)"

definition write_request :: "modbus_point \<Rightarrow> pyval \<Rightarrow> point_error + bytes" where
  "write_request p v =
     (if \<not> mp_writable p then Inl NotWritable
      else if mp_fn p = READ_COILS then
        lift_codec (case v of
            VList vs \<Rightarrow> write_multiple_coils_pdu (VInt (mp_address p)) vs
          | _ \<Rightarrow> write_single_coil_pdu (VInt (mp_address p)) v)
      else
        lift_codec (rbind (encode_value v (mp_dtype p) (scale_or_one (mp_scale p))) (\<lambda>regs.
          if length regs = 1 then write_single_register_pdu (VInt (mp_address p)) (VInt (hd regs))
          else write_multiple_registers_pdu (VInt (mp_address p)) (map VInt regs))))"

text \<open>\<open>write_point\<close>: the error raised (if any), the value read back and published, the new state.\<close>

definition write_point :: "(nat \<Rightarrow> bus option) \<Rightarrow> gateway \<Rightarrow> modbus_point \<Rightarrow> pyval \<Rightarrow>
    point_error option \<times> (str \<times> pyval) list \<times> gateway" where
  "write_point env g p v =
     (case write_request p v of
        Inl e \<Rightarrow> (Some e, [], g)
      | Inr pdu \<Rightarrow>
          (let (rpdu, g1) = transaction env g (mp_unit p) pdu in
           case check_write_response rpdu pdu of
             Inl e \<Rightarrow> (Some (Codec e), [], g1)
           | Inr _ \<Rightarrow>
               (case read_point env g1 p of
                  (Inl _, g2) \<Rightarrow> (None, [], g2)
                | (Inr x, g2) \<Rightarrow> (None, [(mp_name p, x)], g2))))"

text \<open>One round of \<open>_poll_loop\<close>: a point that fails is left out, the others are read.\<close>

fun poll_round :: "(nat \<Rightarrow> bus option) \<Rightarrow> gateway \<Rightarrow> modbus_point list \<Rightarrow> (str \<times> pyval) list \<times> gateway" where
  "poll_round env g [] = ([], g)"
| "poll_round env g (p # ps) =
     (case read_point env g p of
        (Inl _, g1) \<Rightarrow> poll_round env g1 ps
      | (Inr v, g1) \<Rightarrow> (let (vs, g2) = poll_round env g1 ps in ((mp_name p, v) # vs, g2)))"

section \<open>Write requests from MQTT\<close>

datatype write_error = BadCoilText | NotAList | NotANumberText

definition coil_text :: "str \<Rightarrow> write_error + bool" where
  "coil_text s =
     (let t = lower_ascii (strip s) in
      if t \<in> set [ascii ''1'', ascii ''true'', ascii ''on''] then Inr True
      else if t \<in> set [ascii ''0'', ascii ''false'', ascii ''off''] then Inr False
      else Inl BadCoilText)"

text \<open>\<open>_coil(str(v))\<close> for a JSON value: \<open>None\<close>, a float, a list and a dict print as none of the six words.\<close>

definition coil_item :: "json \<Rightarrow> write_error + bool" where
  "coil_item v = (case v of
       JBool b \<Rightarrow> coil_text (if b then ascii ''True'' else ascii ''False'')
     | JInt i \<Rightarrow> coil_text (dec_str i)
     | JStr s \<Rightarrow> coil_text s
     | _ \<Rightarrow> Inl BadCoilText)"

text \<open>Digits in a base up to 16 with single underscores, as \<open>int(text, 0)\<close> reads them.\<close>

fun base_digits :: "nat \<Rightarrow> bool \<Rightarrow> nat \<Rightarrow> str \<Rightarrow> nat option" where
  "base_digits base after acc [] = (if after then Some acc else None)"
| "base_digits base after acc (c # cs) =
     (if c = 95 then (if after then base_digits base False acc cs else None)
      else case (case py_digit c of Some d \<Rightarrow> Some d | None \<Rightarrow> hex_digit c) of
             Some d \<Rightarrow> if d < base then base_digits base True (base * acc + d) cs else None
           | None \<Rightarrow> None)"

text \<open>The prefixes 0x, 0o and 0b may be followed by an underscore; a decimal number other than zero has
  no leading zero.\<close>

definition int_base0 :: "str \<Rightarrow> int option" where
  "int_base0 s =
     (let (neg, t) = split_sign (strip s);
          pre = lower_ascii (take 2 t); r = drop 2 t;
          r' = (if r \<noteq> [] \<and> hd r = 95 then tl r else r);
          n = (if pre = ascii ''0x'' then base_digits 16 False 0 r'
               else if pre = ascii ''0o'' then base_digits 8 False 0 r'
               else if pre = ascii ''0b'' then base_digits 2 False 0 r'
               else (case base_digits 10 False 0 t of
                       Some m \<Rightarrow> if m \<noteq> 0 \<and> py_digit (hd t) = Some 0 then None else Some m
                     | None \<Rightarrow> None)) in
      map_option (\<lambda>m. if neg then - int m else int m) n)"

definition parse_write_payload :: "bytes \<Rightarrow> modbus_point \<Rightarrow> write_error + pyval" where
  "parse_write_payload payload p =
     (let text = strip (utf8_replace payload) in
      if mp_fn p = READ_COILS then
        if is_prefix_of (ascii ''['') text then
          (case json_loads text of
             Some (JList items) \<Rightarrow>
               if items = [] then Inl NotAList
               else rbind (rmap coil_item items) (\<lambda>bs. Inr (VList (map VBool bs)))
           | _ \<Rightarrow> Inl NotAList)
        else rbind (coil_text text) (\<lambda>b. Inr (VBool b))
      else if list_ex (\<lambda>c. c = 46 \<or> c = 101 \<or> c = 69) text then
        (case py_float text of Some x \<Rightarrow> Inr (VFloat x) | None \<Rightarrow> Inl NotANumberText)
      else (case int_base0 text of Some i \<Rightarrow> Inr (VInt i) | None \<Rightarrow> Inl NotANumberText))"

text \<open>\<open>topic.rsplit("/", 2)[-2]\<close>; \<open>None\<close> when the topic has no separator.\<close>

definition set_topic_name :: "str \<Rightarrow> str option" where
  "set_topic_name t = (let ps = split_on 47 t in if length ps < 2 then None else Some (ps ! (length ps - 2)))"

text \<open>What \<open>_on_set_message\<close> does: nothing, publish a parse error to \<open><topic>/result\<close>, or schedule a write.\<close>

datatype set_action = S_ignore | S_reject str write_error | S_write str modbus_point pyval

definition on_set_message :: "modbus_point list \<Rightarrow> str \<Rightarrow> bytes \<Rightarrow> set_action" where
  "on_set_message points t payload =
     (case set_topic_name t of
        None \<Rightarrow> S_ignore
      | Some name \<Rightarrow>
          (case find (\<lambda>p. mp_name p = name) points of
             None \<Rightarrow> S_ignore
           | Some p \<Rightarrow>
               (case parse_write_payload payload p of
                  Inl e \<Rightarrow> S_reject (t @ ascii ''/result'') e
                | Inr v \<Rightarrow> S_write (t @ ascii ''/result'') p v)))"

text \<open>The subscriptions of \<open>start\<close>: \<open><base>/<name>/set\<close> for every writable point.\<close>

definition set_topic :: "str \<Rightarrow> modbus_point \<Rightarrow> str" where
  "set_topic base p = rstrip_of (\<lambda>c. c = 47) base @ 47 # mp_name p @ ascii ''/set''"

definition set_subscriptions :: "str \<Rightarrow> modbus_point list \<Rightarrow> str list" where
  "set_subscriptions base points = map (set_topic base) (filter mp_writable points)"

section \<open>Lemmas: transactions and replies\<close>

lemma transaction_reply:
  assumes "transaction env g unit pdu = (rpdu, g')"
  shows "rpdu = failed_pdu pdu \<or> rpdu \<noteq> [] \<and> (\<exists>b. env (gw_txns g) = Some b \<and>
      read_rtu_response (discard_stale (bus_reads b)) = Some (rtu_wrap unit rpdu))"
    and "gw_txns g' = Suc (gw_txns g)" and "gw_clients g' = gw_clients g"
    and "gw_client_count g' = gw_client_count g"
  using assms
  by (auto simp: transaction_def Let_def rtu_unwrap_Inr split: option.splits if_splits sum.splits)

text \<open>The reply frames that a master gets for its request frames.\<close>

fun reply_frames :: "(nat \<Rightarrow> bus option) \<Rightarrow> gateway \<Rightarrow> (int \<times> int \<times> bytes) list \<Rightarrow> (int \<times> int \<times> bytes) list" where
  "reply_frames env g [] = []"
| "reply_frames env g ((txn, unit, pdu) # fs) =
     (let (rpdu, g1) = transaction env g unit pdu in (txn, unit, rpdu) # reply_frames env g1 fs)"

lemma serve_frames_out: "fst (serve_frames env g fs) = concat (map tcp_frame_bytes (reply_frames env g fs))"
  by (induction env g fs rule: serve_frames.induct) (auto simp: tcp_frame_bytes_def split: prod.splits)

lemma serve_frames_append:
  "serve_frames env g (fs @ gs) =
     (let (a, g1) = serve_frames env g fs; (b, g2) = serve_frames env g1 gs in (a @ b, g2))"
  by (induction env g fs rule: serve_frames.induct) (auto split: prod.splits)

lemma serve_client_feed_all:
  "serve_client env g buf chunks =
     (let (fs, e, b) = feed_all take_tcp_adu buf chunks; (out, g1) = serve_frames env g fs in (out, g1, e, b))"
  by (induction env g buf chunks rule: serve_client.induct)
    (auto simp: serve_frames_append Let_def split: prod.splits option.splits)

text \<open>A reply answers its request: same transaction id and unit, and a PDU that is the gateway error or
  was read, wrapped for that unit with a correct checksum, off the bus in that very transaction.\<close>

definition answers :: "bus option \<Rightarrow> int \<times> int \<times> bytes \<Rightarrow> int \<times> int \<times> bytes \<Rightarrow> bool" where
  "answers b req resp \<longleftrightarrow> (case (req, resp) of ((txn, unit, pdu), (txn', unit', rpdu)) \<Rightarrow>
     txn' = txn \<and> unit' = unit \<and> (rpdu = failed_pdu pdu \<or> rpdu \<noteq> [] \<and>
       (\<exists>c. b = Some c \<and> read_rtu_response (discard_stale (bus_reads c)) = Some (rtu_wrap unit rpdu))))"

lemma length_reply_frames [simp]: "length (reply_frames env g fs) = length fs"
  by (induction env g fs rule: reply_frames.induct) (auto split: prod.splits)

lemma reply_frames_answers:
  "i < length fs \<Longrightarrow> answers (env (gw_txns g + i)) (fs ! i) (reply_frames env g fs ! i)"
proof (induction fs arbitrary: g i)
  case (Cons f fs)
  obtain txn unit pdu where f: "f = (txn, unit, pdu)" by (cases f) auto
  obtain rpdu g1 where t: "transaction env g unit pdu = (rpdu, g1)" by fastforce
  note r = transaction_reply [OF t]
  show ?case
  proof (cases i)
    case 0
    then show ?thesis using r(1) by (simp add: f t answers_def)
  next
    case (Suc j)
    then show ?thesis using Cons.IH [of j g1] Cons.prems r(2) by (simp add: f t)
  qed
qed simp

section \<open>Lemmas: requests\<close>

lemma read_rest_data: "read_rest buf rs = Some out \<Longrightarrow> \<exists>more. out = buf @ more"
proof (induction buf rs rule: read_rest.induct)
  case (1 buf d rs)
  then show ?case by fastforce
qed auto

lemma find_unique:
  assumes "distinct (map f xs)" "x \<in> set xs"
  shows "find (\<lambda>y. f y = f x) xs = Some x"
  using assms by (induction xs) auto

lemma set_topic_name_ok:
  assumes "47 \<notin> set (mp_name p)"
  shows "set_topic_name (set_topic base p) = Some (mp_name p)"
proof -
  define b where "b = rstrip_of (\<lambda>c. c = 47) base"
  have set_eq: "ascii ''/set'' = 47 # ascii ''set''" and no: "47 \<notin> set (ascii ''set'')"
    by (simp_all add: ascii_def)
  have "split_on 47 (b @ 47 # mp_name p @ 47 # ascii ''set'') = split_on 47 b @ [mp_name p, ascii ''set'']"
  proof -
    have j: "b @ 47 # mp_name p @ 47 # ascii ''set'' = join_with 47 (split_on 47 b @ [mp_name p, ascii ''set''])"
    proof -
      have "join_with 47 (ps @ [x, y]) = join_with 47 ps @ 47 # x @ 47 # y" if "ps \<noteq> []" for ps and x y :: "nat list"
        using that by (induction "47 :: nat" ps rule: join_with.induct) auto
      then show ?thesis by simp
    qed
    show ?thesis
      unfolding j using assms no by (intro split_join) (auto dest: split_on_parts)
  qed
  then show ?thesis by (simp add: set_topic_name_def set_topic_def set_eq nth_append flip: b_def)
qed


lemma lift_codec_Inr [simp]: "lift_codec r = Inr x \<longleftrightarrow> r = Inr x"
  by (cases r) (auto simp: lift_codec_def)

lemma single_coil_request:
  assumes "0 \<le> a" "a \<le> 0xFFFF"
  shows "write_single_coil_pdu (VInt a) v = Inr pdu \<longleftrightarrow> (\<exists>on. v \<in> {VBool on, VInt (of_bool on)} \<and>
      pdu = [5, byte_of (a div 256), byte_of a, if on then 0xFF else 0, 0])"
proof -
  have b: "byte_of (a AND 255) = byte_of a" "drop_bit 8 a = a div 256"
    by (simp_all add: envelope_simps drop_bit_eq_div)
  have c: "coil_state v = Inr on \<longleftrightarrow> v \<in> {VBool on, VInt (of_bool on)}" for on
    by (cases v) (auto simp: coil_state_def)
  have w: "write_single_coil_pdu (VInt a) v = rbind (coil_state v) (\<lambda>on.
      Inr [5, byte_of (a div 256), byte_of a, if on then 0xFF else 0, 0])"
    unfolding write_single_coil_pdu_def check_int_def using assms b
    by (auto simp: rbind_def byte_of_def Let_def WRITE_SINGLE_COIL_def split: sum.splits)
  show ?thesis unfolding w rbind_eq_Inr c by auto
qed

section \<open>Lemmas: masters\<close>

definition gateway_inv :: "int \<Rightarrow> gateway \<Rightarrow> bool" where
  "gateway_inv max_connections g \<longleftrightarrow> int (length (gw_clients g)) \<le> max_connections \<and>
     gw_client_count g = length (gw_clients g)"

text \<open>The events of a gateway's network side.\<close>

inductive gateway_step :: "ipnet list \<Rightarrow> int \<Rightarrow> (nat \<Rightarrow> bus option) \<Rightarrow> gateway \<Rightarrow> gateway \<Rightarrow> bool"
  for allowed max_connections env where
  connect: "gateway_step allowed max_connections env g (connect_master allowed max_connections g ip m)"
| disconnect: "gateway_step allowed max_connections env g (disconnect_master g i)"
| request: "gateway_step allowed max_connections env g (snd (transaction env g unit pdu))"

lemma gateway_step_inv:
  assumes "gateway_step allowed mx env g g'" and "gateway_inv mx g"
  shows "gateway_inv mx g'"
  using assms
proof (cases rule: gateway_step.cases)
  case (connect ip m)
  then show ?thesis
    using assms(2) by (auto simp: connect_master_def admit_master_def refresh_clients_def gateway_inv_def)
next
  case (disconnect i)
  have "int (length (filter (\<lambda>m. ms_id m \<noteq> i) (gw_clients g))) \<le> int (length (gw_clients g))" by simp
  also have "\<dots> \<le> mx" using assms(2) by (simp add: gateway_inv_def)
  finally show ?thesis
    using disconnect by (simp add: disconnect_master_def refresh_clients_def gateway_inv_def)
next
  case (request unit pdu)
  then show ?thesis
    using assms(2) transaction_reply(3,4) [of env g unit pdu "fst (transaction env g unit pdu)" g']
    by (simp add: gateway_inv_def)
qed

section \<open>Properties\<close>

text \<open>C1: The gateway answers every request exactly once, in order and to the right transaction: however
  a master's stream of valid requests is cut into chunks, what is written back is one Modbus/TCP frame
  per request with its transaction id and unit, carrying either the gateway error or a PDU that was
  read off the bus in that very transaction from that unit with a correct checksum; an incomplete
  request stays buffered.\<close>
theorem gateway_answers:
  assumes "\<forall>f \<in> set fs. tcp_frame_ok f" and "tcp_frame_ok nxt" and "tcp_frame_bytes nxt = p @ q" "q \<noteq> []"
    and "concat chunks = concat (map tcp_frame_bytes fs) @ p"
  shows "\<exists>replies g'. serve_client env g [] chunks = (concat (map tcp_frame_bytes replies), g', None, p) \<and>
    length replies = length fs \<and>
    (\<forall>i < length fs. answers (env (gw_txns g + i)) (fs ! i) (replies ! i))"
proof -
  have "feed_all take_tcp_adu [] chunks = (fs, None, p)"
  proof (rule tcp.feed_all_stream)
    show "\<forall>a b. p = a @ b \<longrightarrow> take_tcp_adu a = Inr None"
      using assms(2-4) tcp.take_partial [of nxt] by auto
  qed (use assms in \<open>simp_all add: take_tcp_adu_short\<close>)
  then have "serve_client env g [] chunks =
      (concat (map tcp_frame_bytes (reply_frames env g fs)), snd (serve_frames env g fs), None, p)"
    by (simp add: serve_client_feed_all serve_frames_out split_beta)
  then show ?thesis using reply_frames_answers [of _ fs env g] by (metis length_reply_frames)
qed

theorem gateway_answers_witness:
  "\<exists>replies g'. serve_client (\<lambda>_. Some \<lparr>bus_write_ok = True, bus_reads = [R_timeout, R_data (rtu_wrap 17 [3, 2]), R_data [], R_timeout]\<rparr>)
      \<lparr>gw_clients = [], gw_client_count = 0, gw_bytes_in = 0, gw_bytes_out = 0, gw_monitor_feed = [], gw_traffic = [],
       gw_trace = [], gw_txns = 0\<rparr> [] [build_tcp_adu 1 17 [3, 0], [0]]
      = (concat (map tcp_frame_bytes replies), g', None, [0]) \<and> length replies = length [(1 :: int, 17 :: int, [3, 0 :: byte])] \<and>
    (\<forall>i < length [(1 :: int, 17 :: int, [3, 0 :: byte])].
       answers (Some \<lparr>bus_write_ok = True, bus_reads = [R_timeout, R_data (rtu_wrap 17 [3, 2]), R_data [], R_timeout]\<rparr>)
         ([(1, 17, [3, 0])] ! i) (replies ! i))"
  by (rule gateway_answers [where nxt = "(0, 17, [3])" and q = "[0, 0, 0, 0, 2, 17, 3]"])
    (simp_all add: tcp_frame_ok_def tcp_frame_bytes_def build_tcp_adu_alt modbus_consts byte_of_def)



text \<open>A write request published to a point's own \<open>set\<close> topic concerns that point: for configured points
  with distinct names, none of which contains a '/', the topic the gateway subscribed to for a point is
  dispatched to exactly that point.\<close>
theorem set_topic_dispatch:
  assumes "distinct (map mp_name points)" and "p \<in> set points" and "47 \<notin> set (mp_name p)"
  shows "on_set_message points (set_topic base p) payload =
    (case parse_write_payload payload p of
       Inl e \<Rightarrow> S_reject (set_topic base p @ ascii ''/result'') e
     | Inr v \<Rightarrow> S_write (set_topic base p @ ascii ''/result'') p v)"
  using set_topic_name_ok [OF assms(3), of base] find_unique [OF assms(1,2)]
  by (simp add: on_set_message_def)

theorem set_topic_dispatch_witness:
  "let p = \<lparr>mp_name = ascii ''pump'', mp_unit = 1, mp_fn = 1, mp_address = 3, mp_dtype = ascii ''bool'', mp_scale = f64_one, mp_writable = True\<rparr> in
   on_set_message [p] (set_topic (ascii ''plant/'') p) [49] =
    (case parse_write_payload [49] p of
       Inl e \<Rightarrow> S_reject (set_topic (ascii ''plant/'') p @ ascii ''/result'') e
     | Inr v \<Rightarrow> S_write (set_topic (ascii ''plant/'') p @ ascii ''/result'') p v)"
  unfolding Let_def by (rule set_topic_dispatch) (simp_all add: ascii_def)

text \<open>Validation accepts a point name with a '/', and the gateway then writes the wrong point: with
  writable points "a/b" and "b" a request on the topic of "a/b" is dispatched to "b".\<close>
theorem set_topic_misdirected:
  "let p = \<lparr>mp_name = ascii ''a/b'', mp_unit = 1, mp_fn = 1, mp_address = 3, mp_dtype = ascii ''bool'', mp_scale = f64_one, mp_writable = True\<rparr>;
       q = \<lparr>mp_name = ascii ''b'', mp_unit = 2, mp_fn = 1, mp_address = 9, mp_dtype = ascii ''bool'', mp_scale = f64_one, mp_writable = True\<rparr> in
   validate_poll \<lparr>poll_interval_s = f64_one, poll_points = [p, q]\<rparr> = Inr () \<and>
   on_set_message [p, q] (set_topic (ascii ''plant'') p) [49] = S_write (ascii ''plant/a/b/set/result'') q (VBool True)"
  (is "let p = ?p; q = ?q in _")
proof -
  have i: "\<not> f64_le_zero f64_one"
    by (simp add: f64_le_zero_def f64_signed_scaled_def f64_scaled_def fp_scaled_def f64_one_def f64_isnan_def
        f64_isinf_def f64_mag_def f64_inf_def f64_neg_def)
  have v: "rfold validate_point [] [?p, ?q] = Inr [ascii ''b'', ascii ''a/b'']" by code_simp
  have "on_set_message [?p, ?q] (set_topic (ascii ''plant'') ?p) [49] = S_write (ascii ''plant/a/b/set/result'') ?q (VBool True)"
    by code_simp
  then show ?thesis using i v by (simp add: Let_def validate_poll_def del: rfold.simps)
qed

text \<open>The network side keeps its limit and its count: in every state reached from one that satisfies
  the invariant by connects, disconnects and transactions, at most \<open>max_connections\<close> masters are connected
  and the reported client count is the number of connected masters.\<close>
theorem gateway_invariant:
  assumes "(gateway_step allowed max_connections env)\<^sup>*\<^sup>* g g'" and "gateway_inv max_connections g"
  shows "gateway_inv max_connections g'"
  using assms by (induction rule: rtranclp_induct) (auto intro: gateway_step_inv)

theorem gateway_invariant_witness:
  "gateway_inv 1 (connect_master [] 1 \<lparr>gw_clients = [], gw_client_count = 0, gw_bytes_in = 0, gw_bytes_out = 0,
     gw_monitor_feed = [], gw_traffic = [], gw_trace = [], gw_txns = 0\<rparr> (ascii ''10.0.0.1'')
     \<lparr>ms_id = 0, ms_peer = ascii ''10.0.0.1:5'', ms_connected_at = 0\<rparr>)"
proof (rule gateway_invariant [where allowed = "[]" and env = "\<lambda>_. None"])
  show "gateway_inv 1 \<lparr>gw_clients = [], gw_client_count = 0, gw_bytes_in = 0, gw_bytes_out = 0,
     gw_monitor_feed = [], gw_traffic = [], gw_trace = [], gw_txns = 0\<rparr>" by (simp add: gateway_inv_def)
qed (rule r_into_rtranclp, rule gateway_step.connect)

end
