(* ===== verification/Sparkplug.thy ===== *)
theory Sparkplug
  imports Py_Value Utf8
begin

text \<open>
  \<open>app/engine/sparkplug.py\<close>: the protobuf wire format of Sparkplug B payloads, the metric value
  codec, topics, ids and sequence numbers. Every \<open>ValueError\<close> is a constructor of \<open>sp_error\<close>;
  \<open>StructError\<close> stands for the \<open>struct.error\<close> that \<open>struct.unpack\<close> would raise on a wrong length.
  A reader's \<open>(data, pos)\<close> is represented by the unread suffix \<open>data[pos:]\<close>.
\<close>

unbundle bit_operations_syntax

datatype sp_error =
    VarintRange | TruncatedVarint | VarintTooLong | BadFieldNumber | BadWireType | TruncatedField
  | MismatchedEndGroup | BadUint | NotStr | NotEncodable | NotBytes | NotUtf8
  | BadIntValue | NotNumber | FloatRange | BadBool | IntOutOfRange | WrongField
  | UnsupportedDatatype | NeedDatatype | ValueIsNone
  | BadId | StateTopic | UnknownMessageType | NeedDevice | NoDevice | SpUnknownDtype
  | StructError

section \<open>Data\<close>

text \<open>\<open>Metric\<close> and \<open>Payload\<close>. \<open>None\<close> in an optional field is \<open>VNone\<close>.\<close>

record sp_metric =
  m_name :: str
  m_datatype :: int
  m_value :: pyval
  m_alias :: pyval
  m_timestamp :: pyval
  m_is_null :: bool

record sp_payload =
  p_timestamp :: pyval
  p_metrics :: "sp_metric list"
  p_seq :: pyval
  p_uuid :: pyval
  p_body :: pyval

definition default_metric :: sp_metric where
  "default_metric = \<lparr>m_name = [], m_datatype = 0, m_value = VNone, m_alias = VNone,
     m_timestamp = VNone, m_is_null = False\<rparr>"

section \<open>Protobuf wire format\<close>

definition WT_VARINT :: int where "WT_VARINT = 0"
definition WT_I64 :: int where "WT_I64 = 1"
definition WT_LEN :: int where "WT_LEN = 2"
definition WT_SGROUP :: int where "WT_SGROUP = 3"
definition WT_EGROUP :: int where "WT_EGROUP = 4"
definition WT_I32 :: int where "WT_I32 = 5"
definition U32_MAX :: int where "U32_MAX = push_bit 32 1 - 1"
definition U64_MAX :: int where "U64_MAX = push_bit 64 1 - 1"
definition MAX_FIELD :: int where "MAX_FIELD = push_bit 29 1 - 1"
definition F_INT :: int where "F_INT = 10"
definition F_LONG :: int where "F_LONG = 11"
definition F_FLOAT :: int where "F_FLOAT = 12"
definition F_DOUBLE :: int where "F_DOUBLE = 13"
definition F_BOOL :: int where "F_BOOL = 14"
definition F_STRING :: int where "F_STRING = 15"
definition F_BYTES :: int where "F_BYTES = 16"

lemmas wire_consts = WT_VARINT_def WT_I64_def WT_LEN_def WT_SGROUP_def WT_EGROUP_def WT_I32_def
  F_INT_def F_LONG_def F_FLOAT_def F_DOUBLE_def F_BOOL_def F_STRING_def F_BYTES_def

text \<open>The \<open>while value > 0x7F\<close> loop of \<open>_varint\<close>.\<close>

function varint_loop :: "int \<Rightarrow> bytes" where
  "varint_loop value =
     (if value > 0x7F
      then byte_of (0x80 OR (value AND 0x7F)) # varint_loop (drop_bit 7 value)
      else [byte_of value])"
  by pat_completeness auto
termination
  by (relation "measure nat") (auto simp: drop_bit_eq_div)

declare varint_loop.simps [simp del]

definition varint :: "int \<Rightarrow> sp_error + bytes" where
  "varint value = (if 0 \<le> value \<and> value \<le> U64_MAX then Inr (varint_loop value) else Inl VarintRange)"

text \<open>The \<open>for shift in range(0, 70, 7)\<close> loop of \<open>_read_varint\<close>; the first argument counts the
  remaining iterations.\<close>

fun read_varint_loop :: "nat \<Rightarrow> nat \<Rightarrow> int \<Rightarrow> bytes \<Rightarrow> sp_error + (int \<times> bytes)" where
  "read_varint_loop 0 shift value data = Inl VarintTooLong"
| "read_varint_loop (Suc n) shift value [] = Inl TruncatedVarint"
| "read_varint_loop (Suc n) shift value (b # rest) =
     (let value' = value OR push_bit shift (uint b AND 0x7F) in
      if uint b < 0x80 then Inr (value' AND U64_MAX, rest)
      else read_varint_loop n (shift + 7) value' rest)"

lemma read_varint_loop_code [code]:
  "read_varint_loop n shift value data =
     (if n = 0 then Inl VarintTooLong else case data of [] \<Rightarrow> Inl TruncatedVarint
      | b # rest \<Rightarrow> let value' = value OR push_bit shift (uint b AND 0x7F) in
          if uint b < 0x80 then Inr (value' AND U64_MAX, rest)
          else read_varint_loop (n - 1) (shift + 7) value' rest)"
  by (cases n; cases data) (simp_all add: Let_def)

definition read_varint :: "bytes \<Rightarrow> sp_error + (int \<times> bytes)" where
  "read_varint data = read_varint_loop 10 0 0 data"

definition field_key :: "int \<Rightarrow> int \<Rightarrow> sp_error + bytes" where
  "field_key number wire_type = varint (push_bit 3 number OR wire_type)"

definition field_varint :: "int \<Rightarrow> int \<Rightarrow> sp_error + bytes" where
  "field_varint number value =
     rbind (field_key number WT_VARINT) (\<lambda>k. rbind (varint value) (\<lambda>v. Inr (k @ v)))"

definition field_len :: "int \<Rightarrow> bytes \<Rightarrow> sp_error + bytes" where
  "field_len number value =
     rbind (field_key number WT_LEN) (\<lambda>k.
     rbind (varint (int (length value))) (\<lambda>n. Inr (k @ n @ value)))"

definition read_key :: "bytes \<Rightarrow> sp_error + (int \<times> int \<times> bytes)" where
  "read_key data =
     rbind (read_varint data) (\<lambda>(key, rest).
       let number = drop_bit 3 key in
       if 1 \<le> number \<and> number \<le> MAX_FIELD then Inr (number, key AND 7, rest) else Inl BadFieldNumber)"

text \<open>The value bytes \<open>data[start:end]\<close> and the suffix after them.\<close>

definition sized_span :: "int \<Rightarrow> bytes \<Rightarrow> sp_error + (bytes \<times> bytes)" where
  "sized_span sz data =
     (if sz > int (length data) then Inl TruncatedField
      else Inr (take (nat sz) data, drop (nat sz) data))"

definition value_span :: "bytes \<Rightarrow> int \<Rightarrow> sp_error + (bytes \<times> bytes)" where
  "value_span data wire_type =
     (if wire_type = WT_VARINT then
        rbind (read_varint data) (\<lambda>(_, rest). Inr (take (length data - length rest) data, rest))
      else if wire_type = WT_I64 then sized_span 8 data
      else if wire_type = WT_I32 then sized_span 4 data
      else if wire_type = WT_LEN then
        rbind (read_varint data) (\<lambda>(sz, rest). sized_span sz rest)
      else Inl BadWireType)"

lemma read_varint_loop_shorter:
  "read_varint_loop n shift acc data = Inr (v, rest) \<Longrightarrow> length rest < length data"
  by (induction n shift acc data rule: read_varint_loop.induct)
    (auto simp: Let_def split: if_splits)

lemma read_varint_shorter: "read_varint data = Inr (v, rest) \<Longrightarrow> length rest < length data"
  unfolding read_varint_def by (rule read_varint_loop_shorter)

lemma read_key_shorter: "read_key data = Inr (number, wt, rest) \<Longrightarrow> length rest < length data"
  by (auto simp: read_key_def rbind_eq_Inr Let_def split: if_splits dest: read_varint_shorter)

lemma sized_span_shorter: "sized_span sz data = Inr (v, rest) \<Longrightarrow> length rest \<le> length data"
  by (auto simp: sized_span_def split: if_splits)

lemma value_span_shorter: "value_span data wt = Inr (v, rest) \<Longrightarrow> length rest \<le> length data"
  by (fastforce simp: value_span_def rbind_eq_Inr split: if_splits
      dest: read_varint_shorter sized_span_shorter)

text \<open>The loop of \<open>_skip_group\<close> over the stack \<open>open_groups\<close> (innermost group first).\<close>

function skip_group_loop :: "bytes \<Rightarrow> int list \<Rightarrow> sp_error + bytes" where
  "skip_group_loop data [] = Inr data"
| "skip_group_loop data (g # gs) =
     (case read_key data of
        Inl e \<Rightarrow> Inl e
      | Inr (inner, wire_type, rest) \<Rightarrow>
          if wire_type = WT_SGROUP then skip_group_loop rest (inner # g # gs)
          else if wire_type = WT_EGROUP then
            (if g \<noteq> inner then Inl MismatchedEndGroup else skip_group_loop rest gs)
          else
            (case value_span rest wire_type of
               Inl e \<Rightarrow> Inl e
             | Inr (_, rest') \<Rightarrow> skip_group_loop rest' (g # gs)))"
  by pat_completeness auto
termination
  by (relation "measure (length \<circ> fst)") (auto dest!: read_key_shorter value_span_shorter)

declare skip_group_loop.simps [simp del]

definition skip_group :: "bytes \<Rightarrow> int \<Rightarrow> sp_error + bytes" where
  "skip_group data number = skip_group_loop data [number]"

lemma skip_group_loop_shorter: "skip_group_loop data gs = Inr rest \<Longrightarrow> length rest \<le> length data"
proof (induction data gs rule: skip_group_loop.induct)
  case (1 data)
  then show ?case by (simp add: skip_group_loop.simps)
next
  case (2 data g gs)
  from 2(4) obtain inner wt rest1 where k: "read_key data = Inr (inner, wt, rest1)"
    by (subst (asm) skip_group_loop.simps) (auto split: sum.splits)
  note l = read_key_shorter [OF k]
  consider (start) "wt = WT_SGROUP" | (stop) "wt \<noteq> WT_SGROUP" "wt = WT_EGROUP"
    | (other) "wt \<noteq> WT_SGROUP" "wt \<noteq> WT_EGROUP" by blast
  then show ?case
  proof cases
    case start
    then show ?thesis
      using 2(1) [OF k refl refl] 2(4) k l by (simp add: skip_group_loop.simps(2))
  next
    case stop
    then have "g = inner" "skip_group_loop rest1 gs = Inr rest"
      using 2(4) k by (simp_all add: skip_group_loop.simps(2) split: if_splits)
    then show ?thesis using 2(2) [OF k refl refl] stop l by simp
  next
    case other
    then obtain v rest2 where v: "value_span rest1 wt = Inr (v, rest2)"
      "skip_group_loop rest2 (g # gs) = Inr rest"
      using 2(4) k by (auto simp: skip_group_loop.simps(2) split: sum.splits)
    then show ?thesis
      using 2(3) [OF k refl refl other v(1) refl v(2)] value_span_shorter [OF v(1)] l by simp
  qed
qed

text \<open>\<open>_fields\<close>: the generator together with the loop that consumes it, \<open>for number, wire_type, raw in
  _fields(data): body\<close>. A varint field carries an integer, any other field its raw bytes.\<close>

datatype sp_raw = R_int int | R_bytes bytes

function fields_loop :: "('s \<Rightarrow> int \<Rightarrow> int \<Rightarrow> sp_raw \<Rightarrow> sp_error + 's) \<Rightarrow> 's \<Rightarrow> bytes \<Rightarrow> sp_error + 's" where
  "fields_loop body s data =
     (if data = [] then Inr s
      else case read_key data of
        Inl e \<Rightarrow> Inl e
      | Inr (number, wire_type, rest) \<Rightarrow>
          if wire_type = WT_SGROUP then
            (case skip_group rest number of Inl e \<Rightarrow> Inl e | Inr rest' \<Rightarrow> fields_loop body s rest')
          else if wire_type = WT_VARINT then
            (case read_varint rest of
               Inl e \<Rightarrow> Inl e
             | Inr (value, rest') \<Rightarrow>
                 (case body s number wire_type (R_int value) of
                    Inl e \<Rightarrow> Inl e | Inr s' \<Rightarrow> fields_loop body s' rest'))
          else
            (case value_span rest wire_type of
               Inl e \<Rightarrow> Inl e
             | Inr (value, rest') \<Rightarrow>
                 (case body s number wire_type (R_bytes value) of
                    Inl e \<Rightarrow> Inl e | Inr s' \<Rightarrow> fields_loop body s' rest')))"
  by pat_completeness auto
termination
  by (relation "measure (length \<circ> snd \<circ> snd)")
    (auto simp: skip_group_def dest!: read_key_shorter value_span_shorter read_varint_shorter skip_group_loop_shorter)

declare fields_loop.simps [simp del]

section \<open>Checked field values\<close>

definition sp_uint :: "pyval \<Rightarrow> nat \<Rightarrow> sp_error + int" where
  "sp_uint value bits = (case proper_int value of
       None \<Rightarrow> Inl BadUint
     | Some i \<Rightarrow> if i < 0 \<or> drop_bit bits i \<noteq> 0 then Inl BadUint else Inr i)"

definition sp_text :: "pyval \<Rightarrow> sp_error + bytes" where
  "sp_text value = (case value of
       VStr s \<Rightarrow> (case utf8_encode s of None \<Rightarrow> Inl NotEncodable | Some b \<Rightarrow> Inr b)
     | _ \<Rightarrow> Inl NotStr)"

definition sp_blob :: "pyval \<Rightarrow> sp_error + bytes" where
  "sp_blob value = (case value of VBytes b \<Rightarrow> Inr b | _ \<Rightarrow> Inl NotBytes)"

definition sp_utf8 :: "bytes \<Rightarrow> sp_error + str" where
  "sp_utf8 raw = (case utf8_decode raw of None \<Rightarrow> Inl NotUtf8 | Some s \<Rightarrow> Inr s)"

section \<open>Metric values\<close>

text \<open>Integer datatypes with their sign and width; the \<open>DataType\<close> numbers are Int8 = 1 ... UInt64 = 8,
  Float = 9, Double = 10, Boolean = 11, String = 12, DateTime = 13, Text = 14, Bytes = 17.\<close>

definition INT_TYPES :: "(int \<times> bool \<times> nat) list" where
  "INT_TYPES = [(1, True, 8), (2, True, 16), (3, True, 32), (4, True, 64),
     (5, False, 8), (6, False, 16), (7, False, 32), (8, False, 64), (13, False, 64)]"

definition VALUE_FIELDS :: "(int \<times> int list) list" where
  "VALUE_FIELDS =
     map (\<lambda>(dt, _, bits). (dt, if bits \<le> 32 then [F_INT, F_LONG] else [F_LONG, F_INT])) INT_TYPES @
     [(9, [F_FLOAT, F_DOUBLE]), (10, [F_DOUBLE, F_FLOAT]), (11, [F_BOOL]), (12, [F_STRING]),
      (14, [F_STRING]), (17, [F_BYTES])]"

definition sp_signed :: "int \<Rightarrow> nat \<Rightarrow> int" where
  "sp_signed raw bits = (if drop_bit (bits - 1) raw \<noteq> 0 then raw - push_bit bits 1 else raw)"

definition int_bounds :: "bool \<Rightarrow> nat \<Rightarrow> int \<times> int" where
  "int_bounds sgnd bits =
     (if sgnd then (- push_bit (bits - 1) 1, push_bit (bits - 1) 1 - 1) else (0, push_bit bits 1 - 1))"

text \<open>\<open>float(value)\<close> for a number.\<close>

definition sp_float :: "pyval \<Rightarrow> sp_error + f64" where
  "sp_float value = (case value of
       VInt i \<Rightarrow> (case f64_of_int i of None \<Rightarrow> Inl FloatRange | Some x \<Rightarrow> Inr x)
     | VFloat x \<Rightarrow> Inr x
     | _ \<Rightarrow> Inl NotNumber)"

definition encode_metric_value :: "int \<Rightarrow> pyval \<Rightarrow> sp_error + bytes" where
  "encode_metric_value datatype value =
     (let number = hd (the (map_of VALUE_FIELDS datatype)) in
      case map_of INT_TYPES datatype of
        Some (sgnd, bits) \<Rightarrow>
          (case proper_int value of
             None \<Rightarrow> Inl BadIntValue
           | Some i \<Rightarrow>
               if fst (int_bounds sgnd bits) \<le> i \<and> i \<le> snd (int_bounds sgnd bits)
               then field_varint number (i AND (if number = F_INT then U32_MAX else U64_MAX))
               else Inl BadIntValue)
      | None \<Rightarrow>
          if number = F_FLOAT then
            rbind (sp_float value) (\<lambda>x.
              case f32_of_f64 x of
                None \<Rightarrow> Inl FloatRange
              | Some w \<Rightarrow> rbind (field_key number WT_I32) (\<lambda>k. Inr (k @ rev (be_bytes 4 (uint w)))))
          else if number = F_DOUBLE then
            rbind (sp_float value) (\<lambda>x.
              rbind (field_key number WT_I64) (\<lambda>k. Inr (k @ rev (be_bytes 8 (uint x)))))
          else if number = F_BOOL then
            (case as_int value of
               None \<Rightarrow> Inl BadBool
             | Some i \<Rightarrow> if i = 0 \<or> i = 1 then field_varint number i else Inl BadBool)
          else if number = F_STRING then rbind (sp_text value) (field_len number)
          else rbind (sp_blob value) (field_len number))"

definition int_from_wire :: "int \<Rightarrow> nat \<Rightarrow> int \<Rightarrow> sp_error + int" where
  "int_from_wire raw field_bits datatype =
     (let (sgnd, bits) = the (map_of INT_TYPES datatype) in
      if \<not> sgnd then (if drop_bit bits raw \<noteq> 0 then Inl IntOutOfRange else Inr raw)
      else let value = sp_signed raw field_bits in
        if - push_bit (bits - 1) 1 \<le> value \<and> value < push_bit (bits - 1) 1 then Inr value
        else if bits < field_bits \<and> drop_bit bits raw = 0 then Inr (sp_signed raw bits)
        else Inl IntOutOfRange)"

definition decode_metric_value :: "int \<Rightarrow> int \<Rightarrow> pyval \<Rightarrow> sp_error + pyval" where
  "decode_metric_value datatype number wire =
     (case map_of VALUE_FIELDS datatype of
        None \<Rightarrow> Inr wire
      | Some accepted \<Rightarrow>
          if number \<notin> set accepted then Inl WrongField
          else if map_of INT_TYPES datatype \<noteq> None then
            (case wire of
               VInt raw \<Rightarrow> rbind (int_from_wire raw (if number = F_INT then 32 else 64) datatype) (\<lambda>i. Inr (VInt i))
             | _ \<Rightarrow> Inr wire)
          else Inr wire)"

section \<open>Messages\<close>

text \<open>\<open>out += field\<close> when the condition holds.\<close>

definition opt_field :: "bool \<Rightarrow> (unit \<Rightarrow> sp_error + bytes) \<Rightarrow> sp_error + bytes" where
  "opt_field c f = (if c then f () else Inr [])"

definition encode_metric :: "sp_metric \<Rightarrow> bool \<Rightarrow> sp_error + bytes" where
  "encode_metric m include_datatype =
     rbind (opt_field (m_name m \<noteq> []) (\<lambda>_. rbind (sp_text (VStr (m_name m))) (field_len 1))) (\<lambda>a.
     rbind (opt_field (m_alias m \<noteq> VNone) (\<lambda>_. rbind (sp_uint (m_alias m) 64) (field_varint 2))) (\<lambda>b.
     rbind (opt_field (m_timestamp m \<noteq> VNone) (\<lambda>_. rbind (sp_uint (m_timestamp m) 64) (field_varint 3))) (\<lambda>c.
     rbind (ensure (\<not> (m_datatype m \<noteq> 0 \<and> map_of VALUE_FIELDS (m_datatype m) = None)) UnsupportedDatatype) (\<lambda>_.
     rbind (opt_field (m_datatype m \<noteq> 0 \<and> include_datatype) (\<lambda>_. field_varint 4 (m_datatype m))) (\<lambda>d.
     rbind (if m_is_null m then field_varint 7 1
            else if m_datatype m = 0 then Inl NeedDatatype
            else if m_value m = VNone then Inl ValueIsNone
            else encode_metric_value (m_datatype m) (m_value m)) (\<lambda>e.
     Inr (a @ b @ c @ d @ e)))))))"

definition encode_payload :: "sp_payload \<Rightarrow> bool \<Rightarrow> sp_error + bytes" where
  "encode_payload p include_datatype =
     rbind (opt_field (p_timestamp p \<noteq> VNone) (\<lambda>_. rbind (sp_uint (p_timestamp p) 64) (field_varint 1))) (\<lambda>a.
     rbind (rmap (\<lambda>m. rbind (encode_metric m include_datatype) (field_len 2)) (p_metrics p)) (\<lambda>b.
     rbind (opt_field (p_seq p \<noteq> VNone) (\<lambda>_. rbind (sp_uint (p_seq p) 8) (field_varint 3))) (\<lambda>c.
     rbind (opt_field (p_uuid p \<noteq> VNone) (\<lambda>_. rbind (sp_text (p_uuid p)) (field_len 4))) (\<lambda>d.
     rbind (opt_field (p_body p \<noteq> VNone) (\<lambda>_. rbind (sp_blob (p_body p)) (field_len 5))) (\<lambda>e.
     Inr (a @ concat b @ c @ d @ e))))))"

definition unpack_f32 :: "bytes \<Rightarrow> sp_error + pyval" where
  "unpack_f32 raw = (if length raw = 4 then Inr (VFloat (f64_of_f32 (word_of_int (be_uint (rev raw)))))
     else Inl StructError)"

definition unpack_f64 :: "bytes \<Rightarrow> sp_error + pyval" where
  "unpack_f64 raw = (if length raw = 8 then Inr (VFloat (word_of_int (be_uint (rev raw)))) else Inl StructError)"

text \<open>The loop body of \<open>_decode_metric\<close> on \<open>(metric, value)\<close>.\<close>

definition metric_field :: "sp_metric \<times> (int \<times> pyval) option \<Rightarrow> int \<Rightarrow> int \<Rightarrow> sp_raw \<Rightarrow>
    sp_error + sp_metric \<times> (int \<times> pyval) option" where
  "metric_field st number wire_type raw =
     (let (m, value) = st in
      case raw of
        R_int i \<Rightarrow>
          Inr (if number = 2 then (m\<lparr>m_alias := VInt i\<rparr>, value)
               else if number = 3 then (m\<lparr>m_timestamp := VInt i\<rparr>, value)
               else if number = 4 then (m\<lparr>m_datatype := i AND U32_MAX\<rparr>, value)
               else if number = 7 then (m\<lparr>m_is_null := (i \<noteq> 0)\<rparr>, value)
               else if number = F_INT then (m, Some (number, VInt (i AND U32_MAX)))
               else if number = F_LONG then (m, Some (number, VInt i))
               else if number = F_BOOL then (m, Some (number, VBool (i \<noteq> 0)))
               else (m, value))
      | R_bytes b \<Rightarrow>
          if wire_type = WT_LEN then
            if number = 1 then rbind (sp_utf8 b) (\<lambda>s. Inr (m\<lparr>m_name := s\<rparr>, value))
            else if number = F_STRING then rbind (sp_utf8 b) (\<lambda>s. Inr (m, Some (number, VStr s)))
            else if number = F_BYTES then Inr (m, Some (number, VBytes b))
            else Inr (m, value)
          else if number = F_FLOAT \<and> wire_type = WT_I32 then
            rbind (unpack_f32 b) (\<lambda>v. Inr (m, Some (number, v)))
          else if number = F_DOUBLE \<and> wire_type = WT_I64 then
            rbind (unpack_f64 b) (\<lambda>v. Inr (m, Some (number, v)))
          else Inr (m, value))"

definition decode_metric :: "bytes \<Rightarrow> sp_error + sp_metric" where
  "decode_metric data =
     rbind (fields_loop metric_field (default_metric, None) data) (\<lambda>(m, value).
       case value of
         Some (number, wire) \<Rightarrow>
           if \<not> m_is_null m
           then rbind (decode_metric_value (m_datatype m) number wire) (\<lambda>v. Inr (m\<lparr>m_value := v\<rparr>))
           else Inr m
       | None \<Rightarrow> Inr m)"

definition payload_field :: "sp_payload \<Rightarrow> int \<Rightarrow> int \<Rightarrow> sp_raw \<Rightarrow> sp_error + sp_payload" where
  "payload_field p number wire_type raw =
     (case raw of
        R_int i \<Rightarrow> Inr (if number = 1 then p\<lparr>p_timestamp := VInt i\<rparr>
                         else if number = 3 then p\<lparr>p_seq := VInt i\<rparr> else p)
      | R_bytes b \<Rightarrow>
          if wire_type = WT_LEN then
            if number = 2 then rbind (decode_metric b) (\<lambda>m. Inr (p\<lparr>p_metrics := p_metrics p @ [m]\<rparr>))
            else if number = 4 then rbind (sp_utf8 b) (\<lambda>s. Inr (p\<lparr>p_uuid := VStr s\<rparr>))
            else if number = 5 then Inr (p\<lparr>p_body := VBytes b\<rparr>)
            else Inr p
          else Inr p)"

definition empty_payload :: sp_payload where
  "empty_payload = \<lparr>p_timestamp = VNone, p_metrics = [], p_seq = VNone, p_uuid = VNone, p_body = VNone\<rparr>"

definition decode_payload :: "bytes \<Rightarrow> sp_error + sp_payload" where
  "decode_payload data = fields_loop payload_field empty_payload data"

section \<open>Topics, ids, sequence numbers\<close>

definition TOPIC_NAMESPACE :: str where "TOPIC_NAMESPACE = ascii ''spBv1.0''"

definition MESSAGE_TYPES :: "str list" where
  "MESSAGE_TYPES = [ascii ''NBIRTH'', ascii ''NDEATH'', ascii ''NDATA'', ascii ''NCMD'',
     ascii ''DBIRTH'', ascii ''DDEATH'', ascii ''DDATA'', ascii ''DCMD'', ascii ''STATE'']"

definition BDSEQ :: str where "BDSEQ = ascii ''bdSeq''"
definition REBIRTH :: str where "REBIRTH = ascii ''Node Control/Rebirth''"

text \<open>The characters '/', '+' and '#'.\<close>

definition id_special :: "nat list" where
  "id_special = [47, 43, 35]"

definition check_id :: "str \<Rightarrow> sp_error + str" where
  "check_id v = (if v = [] \<or> (\<exists>c \<in> set id_special. c \<in> set v) then Inl BadId else Inr v)"

definition sp_topic :: "str \<Rightarrow> str \<Rightarrow> str \<Rightarrow> str option \<Rightarrow> sp_error + str" where
  "sp_topic group_id message_type edge_node_id device_id =
     rbind (ensure (message_type \<noteq> ascii ''STATE'') StateTopic) (\<lambda>_.
     rbind (ensure (message_type \<in> set MESSAGE_TYPES) UnknownMessageType) (\<lambda>_.
     rbind (check_id group_id) (\<lambda>g.
     rbind (check_id edge_node_id) (\<lambda>n.
     let parts = [TOPIC_NAMESPACE, g, message_type, n] in
     if is_prefix_of (ascii ''D'') message_type then
       (case device_id of
          None \<Rightarrow> Inl NeedDevice
        | Some d \<Rightarrow> rbind (check_id d) (\<lambda>d'. Inr (join_with 47 (parts @ [d']))))
     else if device_id \<noteq> None then Inl NoDevice
     else Inr (join_with 47 parts)))))"

definition state_topic :: "str \<Rightarrow> sp_error + str" where
  "state_topic host_id = rbind (check_id host_id) (\<lambda>h. Inr (TOPIC_NAMESPACE @ ascii ''/STATE/'' @ h))"

definition id_unsafe :: "nat \<Rightarrow> bool" where
  "id_unsafe c \<longleftrightarrow> c \<in> set id_special \<or> py_isspace c \<or> c \<le> 0x1f \<or> c = 0x7f"

definition sanitize_id :: "str \<Rightarrow> str" where
  "sanitize_id text =
     (let r = map (\<lambda>c. if id_unsafe c then 95 else c) (strip text) in
      if r = [] then ascii ''node'' else r)"

definition next_seq :: "int \<Rightarrow> int" where
  "next_seq seq = (seq + 1) mod 256"

definition dtype_datatypes :: "(str \<times> int) list" where
  "dtype_datatypes = [(ascii ''uint16'', 6), (ascii ''int16'', 2), (ascii ''uint32'', 7),
     (ascii ''int32'', 3), (ascii ''float32'', 9), (ascii ''bool'', 11)]"

definition datatype_for :: "str \<Rightarrow> f64 \<Rightarrow> sp_error + int" where
  "datatype_for dtype scale =
     (case map_of dtype_datatypes dtype of
        None \<Rightarrow> Inl SpUnknownDtype
      | Some dt \<Rightarrow> if dt \<noteq> 11 \<and> f64_truthy scale \<and> \<not> f64_eq scale f64_one then Inr 10 else Inr dt)"

section \<open>Lemmas: the wire format\<close>

lemma U_MAX_mask: "U32_MAX = mask 32" "U64_MAX = mask 64" "MAX_FIELD = mask 29"
  by (simp_all add: U32_MAX_def U64_MAX_def MAX_FIELD_def mask_eq_exp_minus_1)

lemma and_U_MAX [simp]: "x AND U32_MAX = take_bit 32 x" "x AND U64_MAX = take_bit 64 x"
  by (simp_all add: U_MAX_mask take_bit_eq_mask)

lemma U_MAX_eq: "U32_MAX = 2 ^ 32 - 1" "U64_MAX = 2 ^ 64 - 1" "MAX_FIELD = 2 ^ 29 - 1"
  by (simp_all add: U32_MAX_def U64_MAX_def MAX_FIELD_def)

lemma and_127: "(x :: int) AND 0x7F = x mod 128"
  using take_bit_eq_mask [of 7 x] by (simp add: take_bit_eq_mod mask_eq_exp_minus_1)

lemma read_varint_loop_ok:
  assumes "0 \<le> v" "v < 2 ^ (7 * n)" "0 < n" "0 \<le> acc" "acc < 2 ^ shift"
  shows "read_varint_loop n shift acc (varint_loop v @ rest) = Inr (take_bit 64 (acc + 2 ^ shift * v), rest)"
  using assms
proof (induction n arbitrary: v acc shift)
  case 0
  then show ?case by simp
next
  case (Suc n)
  show ?case
  proof (cases "v > 0x7F")
    case False
    then have "uint (byte_of v) = v" using Suc.prems by simp
    then show ?thesis
      using Suc.prems False
      by (subst varint_loop.simps) (simp add: Let_def and_127 int_or_shift)
  next
    case True
    have "0x80 OR v mod 128 = v mod 128 + 128"
      using int_or_shift [of "v mod 128" 7 1] by (simp add: or.commute)
    then have u: "uint (byte_of (0x80 OR v mod 128)) = v mod 128 + 128"
      using pos_mod_bound [of 128 v] by simp
    have n: "0 < n" using True Suc.prems(2) by (cases n) auto
    have d: "drop_bit 7 v = v div 128" by (simp add: drop_bit_eq_div)
    have "v div 128 < 2 ^ (7 * n)"
      using Suc.prems(2) by (simp add: power_add div_less_iff_less_mult mult.commute int_div_less_self)
    moreover have "acc + 2 ^ shift * (v mod 128) < 2 ^ (shift + 7)"
    proof -
      have "2 ^ shift * (v mod 128) \<le> 2 ^ shift * 127"
        using pos_mod_bound [of 128 v] by (intro mult_left_mono) auto
      moreover have "(2 :: int) ^ (shift + 7) = 2 ^ shift * 128" by (simp add: power_add)
      ultimately show ?thesis using Suc.prems(5) by linarith
    qed
    ultimately have "read_varint_loop n (shift + 7) (acc + 2 ^ shift * (v mod 128)) (varint_loop (v div 128) @ rest)
      = Inr (take_bit 64 (acc + 2 ^ shift * (v mod 128) + 2 ^ (shift + 7) * (v div 128)), rest)"
      using Suc.prems n by (intro Suc.IH) (auto simp: pos_imp_zdiv_nonneg_iff)
    moreover have "2 ^ shift * (v mod 128) + 2 ^ (shift + 7) * (v div 128) = 2 ^ shift * v"
      using mult_div_mod_eq [of 128 v] by (simp add: power_add algebra_simps flip: distrib_left)
    moreover have "(v mod 128 + 128) mod 128 = v mod 128" "\<not> v mod 128 < 0" by simp_all
    ultimately show ?thesis
      using True Suc.prems
      by (subst varint_loop.simps) (simp add: Let_def u and_127 int_or_shift d add.assoc)
  qed
qed

lemma read_varint_ok:
  assumes "0 \<le> v" "v \<le> U64_MAX"
  shows "read_varint (varint_loop v @ rest) = Inr (v, rest)"
proof -
  have "v < 2 ^ 70" "take_bit 64 v = v"
    using assms by (auto simp: U_MAX_eq take_bit_int_eq_self)
  then show ?thesis using read_varint_loop_ok [of v 10 0 0 rest] assms by (simp add: read_varint_def)
qed

lemma varint_loop_nonempty [simp]: "varint_loop v \<noteq> []"
  by (subst varint_loop.simps) simp

lemma read_key_ok:
  assumes "1 \<le> number" "number \<le> MAX_FIELD" "0 \<le> wt" "wt < 8"
  shows "read_key (varint_loop (push_bit 3 number OR wt) @ rest) = Inr (number, wt, rest)"
    and "0 \<le> push_bit 3 number OR wt" "push_bit 3 number OR wt \<le> U64_MAX"
proof -
  have k: "push_bit 3 number OR wt = wt + 8 * number"
    using int_or_shift [of wt 3 number] assms by (simp add: or.commute)
  show r: "0 \<le> push_bit 3 number OR wt" "push_bit 3 number OR wt \<le> U64_MAX"
    using assms by (auto simp: k U_MAX_eq)
  have "(wt + 8 * number) div 8 = number" "(wt + 8 * number) mod 8 = wt" using assms by auto
  moreover have "(wt + 8 * number) AND 7 = (wt + 8 * number) mod 8"
    using take_bit_eq_mask [of 3 "wt + 8 * number"] by (simp add: take_bit_eq_mod mask_eq_exp_minus_1)
  ultimately show "read_key (varint_loop (push_bit 3 number OR wt) @ rest) = Inr (number, wt, rest)"
    using assms by (simp add: read_key_def read_varint_ok [OF r [unfolded k]] k Let_def drop_bit_eq_div)
qed

text \<open>The encoded form of a field, as \<open>_fields\<close> yields it.\<close>

fun field_bytes :: "int \<times> int \<times> sp_raw \<Rightarrow> sp_error + bytes" where
  "field_bytes (number, wt, R_int i) = field_varint number i"
| "field_bytes (number, wt, R_bytes b) =
     (if wt = WT_LEN then field_len number b else rbind (field_key number wt) (\<lambda>k. Inr (k @ b)))"

fun field_ok :: "int \<times> int \<times> sp_raw \<Rightarrow> bool" where
  "field_ok (number, wt, R_int i) = (1 \<le> number \<and> number \<le> MAX_FIELD \<and> wt = WT_VARINT)"
| "field_ok (number, wt, R_bytes b) = (1 \<le> number \<and> number \<le> MAX_FIELD \<and>
     (wt = WT_LEN \<or> wt = WT_I32 \<and> length b = 4 \<or> wt = WT_I64 \<and> length b = 8))"

lemma fields_loop_field:
  assumes "field_ok (number, wt, raw)" and "field_bytes (number, wt, raw) = Inr bs"
  shows "fields_loop body s (bs @ rest) = rbind (body s number wt raw) (\<lambda>s'. fields_loop body s' rest)"
proof (cases raw)
  case (R_int i)
  then have k: "bs = varint_loop (push_bit 3 number OR WT_VARINT) @ varint_loop i"
    and i: "0 \<le> i" "i \<le> U64_MAX"
    using assms by (auto simp: field_varint_def field_key_def varint_def rbind_eq_Inr split: if_splits)
  show ?thesis
    using assms(1) R_int read_key_ok(1) [of number WT_VARINT]
    by (subst fields_loop.simps)
      (simp add: k, simp add: wire_consts read_varint_ok [OF i] rbind_def)
next
  case (R_bytes b)
  show ?thesis
  proof (cases "wt = WT_LEN")
    case True
    then have k: "bs = varint_loop (push_bit 3 number OR WT_LEN) @ varint_loop (int (length b)) @ b"
      and i: "0 \<le> int (length b)" "int (length b) \<le> U64_MAX"
      using assms R_bytes by (auto simp: field_len_def field_key_def varint_def rbind_eq_Inr split: if_splits)
    show ?thesis
      using assms(1) R_bytes True read_key_ok(1) [of number WT_LEN]
      by (subst fields_loop.simps)
        (simp add: k, simp add: wire_consts value_span_def sized_span_def read_varint_ok [OF i] rbind_def)
  next
    case False
    then have k: "bs = varint_loop (push_bit 3 number OR wt) @ b"
      using assms R_bytes by (auto simp: field_key_def varint_def rbind_eq_Inr split: if_splits)
    show ?thesis
      using assms(1) R_bytes False read_key_ok(1) [of number wt]
      by (subst fields_loop.simps)
        (auto simp add: k value_span_def sized_span_def rbind_def wire_consts)
  qed
qed

lemma fields_loop_Nil [simp]: "fields_loop body s [] = Inr s"
  by (simp add: fields_loop.simps)


section \<open>Lemmas: integers of a datatype on the wire\<close>

lemma sp_signed_eq:
  assumes "0 \<le> raw" "raw < 2 ^ bits" "0 < bits"
  shows "sp_signed raw bits = (if raw < 2 ^ (bits - 1) then raw else raw - 2 ^ bits)"
proof -
  have "drop_bit (bits - 1) raw = 0 \<longleftrightarrow> raw < 2 ^ (bits - 1)"
    using assms zero_less_power [of "2 :: int" "bits - 1"]
    by (auto simp: drop_bit_eq_div zdiv_eq_0_iff)
  then show ?thesis by (simp add: sp_signed_def)
qed

lemma sp_signed_take_bit:
  assumes "- (2 ^ (bits - 1)) \<le> i" "i < 2 ^ (bits - 1)" "0 < bits"
  shows "sp_signed (take_bit bits i) bits = i"
proof -
  obtain k where k: "bits = Suc k" using assms(3) by (cases bits) auto
  have t: "take_bit bits i = (if 0 \<le> i then i else i + 2 ^ bits)"
  proof (cases "0 \<le> i")
    case True
    then show ?thesis using assms k by (simp add: take_bit_int_eq_self)
  next
    case False
    have "take_bit bits (i + 2 ^ bits) = i + 2 ^ bits"
      using assms k False by (intro take_bit_int_eq_self) auto
    then show ?thesis using False by (simp add: take_bit_eq_mod)
  qed
  show ?thesis
    using assms k unfolding t by (subst sp_signed_eq) auto
qed

text \<open>The value a decoder sees, with and without the datatype on the wire.\<close>

definition carried :: "int \<Rightarrow> pyval \<Rightarrow> pyval" where
  "carried dt v =
     (if dt = 9 then (case sp_float v of Inr x \<Rightarrow> (case f32_of_f64 x of Some w \<Rightarrow> VFloat (f64_of_f32 w) | None \<Rightarrow> v) | Inl _ \<Rightarrow> v)
      else if dt = 10 then (case sp_float v of Inr x \<Rightarrow> VFloat x | Inl _ \<Rightarrow> v)
      else if dt = 11 then VBool (as_int v = Some 1)
      else v)"

definition carried_untyped :: "int \<Rightarrow> pyval \<Rightarrow> pyval" where
  "carried_untyped dt v =
     (case (map_of INT_TYPES dt, v) of
        (Some (_, bits), VInt i) \<Rightarrow> VInt (take_bit (if bits \<le> 32 then 32 else 64) i)
      | _ \<Rightarrow> carried dt v)"

definition decoded_metric :: "bool \<Rightarrow> sp_metric \<Rightarrow> sp_metric" where
  "decoded_metric inc m = m\<lparr>m_datatype := (if inc then m_datatype m else 0),
     m_value := (if m_is_null m then VNone
       else if inc then carried (m_datatype m) (m_value m) else carried_untyped (m_datatype m) (m_value m))\<rparr>"

lemma value_fields_cases:
  assumes "map_of VALUE_FIELDS dt = Some fs"
  obtains (int) sgnd bits where "map_of INT_TYPES dt = Some (sgnd, bits)" "dt \<notin> {0, 9, 10, 11}"
      "(bits = 8 \<or> bits = 16 \<or> bits = 32) \<and> fs = [F_INT, F_LONG] \<or> bits = 64 \<and> fs = [F_LONG, F_INT]"
  | (float) "map_of INT_TYPES dt = None" "dt = 9" "fs = [F_FLOAT, F_DOUBLE]"
  | (double) "map_of INT_TYPES dt = None" "dt = 10" "fs = [F_DOUBLE, F_FLOAT]"
  | (bool) "map_of INT_TYPES dt = None" "dt = 11" "fs = [F_BOOL]"
  | (string) "map_of INT_TYPES dt = None" "dt \<in> {12, 14}" "fs = [F_STRING]"
  | (bytes) "map_of INT_TYPES dt = None" "dt = 17" "fs = [F_BYTES]"
  using assms by (auto simp: VALUE_FIELDS_def INT_TYPES_def split: if_splits)

text \<open>A metric's value field: how it is written and what the decoder makes of it.\<close>

definition value_field :: "int \<Rightarrow> pyval \<Rightarrow> bytes \<Rightarrow> int \<Rightarrow> int \<Rightarrow> sp_raw \<Rightarrow> bool" where
  "value_field dt v bs number wt raw \<longleftrightarrow>
     field_ok (number, wt, raw) \<and> field_bytes (number, wt, raw) = Inr bs \<and>
     (\<exists>wire. (\<forall>m val. metric_field (m, val) number wt raw = Inr (m, Some (number, wire))) \<and>
        decode_metric_value dt number wire = Inr (carried dt v) \<and> wire = carried_untyped dt v)"

lemma value_field_int:
  assumes "map_of INT_TYPES dt = Some (sgnd, bits)" and "map_of VALUE_FIELDS dt = Some (number # fs)"
    and dt: "dt \<notin> {9, 10, 11}"
    and bits: "(bits = 8 \<or> bits = 16 \<or> bits = 32) \<and> number = F_INT \<or> bits = 64 \<and> number = F_LONG"
    and i: "fst (int_bounds sgnd bits) \<le> i" "i \<le> snd (int_bounds sgnd bits)"
    and bs: "field_varint number (i AND (if number = F_INT then U32_MAX else U64_MAX)) = Inr bs"
  shows "value_field dt (VInt i) bs number WT_VARINT (R_int (i AND (if number = F_INT then U32_MAX else U64_MAX)))"
proof -
  define fb where "fb = (if number = F_INT then 32 else 64 :: nat)"
  have raw: "i AND (if number = F_INT then U32_MAX else U64_MAX) = take_bit fb i"
    by (simp add: fb_def)
  have fb: "bits \<le> fb" "fb = (if bits \<le> 32 then 32 else 64)" "0 < bits"
    using bits by (auto simp: fb_def wire_consts)
  have "int_from_wire (take_bit fb i) fb dt = Inr i"
  proof (cases sgnd)
    case False
    then have r: "0 \<le> i" "i < 2 ^ bits" using i by (auto simp: int_bounds_def)
    then have "i < 2 ^ fb" using power_increasing [OF fb(1), of "2 :: int"] by linarith
    then have "take_bit fb i = i" using r by (simp add: take_bit_int_eq_self)
    moreover have "drop_bit bits i = 0" using r by (simp add: drop_bit_eq_div)
    ultimately show ?thesis using assms(1) False by (simp add: int_from_wire_def)
  next
    case True
    then have r: "- (2 ^ (bits - 1)) \<le> i" "i < 2 ^ (bits - 1)" using i by (auto simp: int_bounds_def)
    have "(2 :: int) ^ (bits - 1) \<le> 2 ^ (fb - 1)" using fb by (intro power_increasing) auto
    then have "sp_signed (take_bit fb i) fb = i" using r fb by (intro sp_signed_take_bit) linarith+
    then show ?thesis using assms(1) True r by (simp add: int_from_wire_def Let_def)
  qed
  then have d: "decode_metric_value dt number (VInt (take_bit fb i)) = Inr (VInt i)"
    using assms(1,2) by (simp add: decode_metric_value_def fb_def split: if_splits)
  have f: "field_ok (number, WT_VARINT, R_int (take_bit fb i))"
    using bits by (auto simp: wire_consts U_MAX_eq)
  have m: "\<forall>m val. metric_field (m, val) number WT_VARINT (R_int (take_bit fb i))
      = Inr (m, Some (number, VInt (take_bit fb i)))"
    using bits by (auto simp: metric_field_def fb_def wire_consts)
  show ?thesis
    using f bs m d dt assms(1) fb(2)
    unfolding value_field_def raw
    by (simp add: carried_def carried_untyped_def)
qed

lemma field_ok_value [simp]:
  "field_ok (F_FLOAT, WT_I32, R_bytes b) \<longleftrightarrow> length b = 4"
  "field_ok (F_DOUBLE, WT_I64, R_bytes b) \<longleftrightarrow> length b = 8"
  "field_ok (F_BOOL, WT_VARINT, R_int i)" "field_ok (F_STRING, WT_LEN, R_bytes b)"
  "field_ok (F_BYTES, WT_LEN, R_bytes b)"
  by (simp_all add: wire_consts U_MAX_eq)

lemma value_fieldI:
  assumes "field_ok (number, wt, raw)" "field_bytes (number, wt, raw) = Inr bs"
    "\<And>m val. metric_field (m, val) number wt raw = Inr (m, Some (number, carried_untyped dt v))"
    "decode_metric_value dt number (carried_untyped dt v) = Inr (carried dt v)"
  shows "\<exists>number wt raw. value_field dt v bs number wt raw"
  unfolding value_field_def using assms by blast

lemma word_of_be_bytes [simp]:
  "word_of_int (be_uint (be_bytes 4 (uint (w :: f32)))) = w"
  "word_of_int (be_uint (be_bytes 8 (uint (x :: f64)))) = x"
  using uint_lt2p [of w] uint_lt2p [of x] by (simp_all add: be_uint_be_bytes)

lemma value_field_exists:
  assumes "map_of VALUE_FIELDS dt = Some fs" and "encode_metric_value dt v = Inr bs"
  shows "\<exists>number wt raw. value_field dt v bs number wt raw"
  using assms(1)
proof (cases rule: value_fields_cases)
  case (int sgnd bits)
  then obtain number fs' where n: "fs = number # fs'" by auto
  with assms int obtain i where i: "proper_int v = Some i" "fst (int_bounds sgnd bits) \<le> i"
      "i \<le> snd (int_bounds sgnd bits)"
      "field_varint number (i AND (if number = F_INT then U32_MAX else U64_MAX)) = Inr bs"
    by (auto simp: encode_metric_value_def Let_def simp del: and_U_MAX split: option.splits if_splits)
  then have "v = VInt i" by (cases v) auto
  then show ?thesis
    using value_field_int [of dt sgnd bits number fs' i bs] int n i assms(1) by auto
next
  case float
  then obtain x w k where x: "sp_float v = Inr x" "f32_of_f64 x = Some w" "field_key F_FLOAT WT_I32 = Inr k"
      "bs = k @ rev (be_bytes 4 (uint w))"
    using assms
    by (auto simp: encode_metric_value_def Let_def rbind_eq_Inr wire_consts split: option.splits if_splits)
  then have c: "carried dt v = VFloat (f64_of_f32 w)" "carried_untyped dt v = VFloat (f64_of_f32 w)"
    using float by (simp_all add: carried_def carried_untyped_def)
  show ?thesis
    by (rule value_fieldI [of F_FLOAT WT_I32 "R_bytes (rev (be_bytes 4 (uint w)))"]; (unfold c)?)
      (use x float assms(1) in \<open>simp_all add: metric_field_def unpack_f32_def decode_metric_value_def wire_consts U_MAX_eq\<close>)
next
  case double
  then obtain x k where x: "sp_float v = Inr x" "field_key F_DOUBLE WT_I64 = Inr k"
      "bs = k @ rev (be_bytes 8 (uint x))"
    using assms
    by (auto simp: encode_metric_value_def Let_def rbind_eq_Inr wire_consts split: option.splits if_splits)
  then have c: "carried dt v = VFloat x" "carried_untyped dt v = VFloat x"
    using double by (simp_all add: carried_def carried_untyped_def)
  show ?thesis
    by (rule value_fieldI [of F_DOUBLE WT_I64 "R_bytes (rev (be_bytes 8 (uint x)))"]; (unfold c)?)
      (use x double assms(1) in \<open>simp_all add: metric_field_def unpack_f64_def decode_metric_value_def wire_consts U_MAX_eq\<close>)
next
  case bool
  then obtain i where i: "as_int v = Some i" "i = 0 \<or> i = 1" "field_varint F_BOOL i = Inr bs"
    using assms
    by (auto simp: encode_metric_value_def Let_def rbind_eq_Inr wire_consts split: option.splits if_splits)
  then have c: "carried dt v = VBool (i \<noteq> 0)" "carried_untyped dt v = VBool (i \<noteq> 0)"
    using bool by (auto simp: carried_def carried_untyped_def)
  show ?thesis
    by (rule value_fieldI [of F_BOOL WT_VARINT "R_int i"]; (unfold c)?)
      (use i bool assms(1) in \<open>simp_all add: metric_field_def decode_metric_value_def wire_consts U_MAX_eq\<close>)
next
  case string
  then obtain b where b: "sp_text v = Inr b" "field_len F_STRING b = Inr bs"
    using assms
    by (auto simp: encode_metric_value_def Let_def rbind_eq_Inr wire_consts split: option.splits if_splits)
  then obtain t where t: "v = VStr t" "utf8_encode t = Some b"
    by (auto simp: sp_text_def split: pyval.splits option.splits)
  have c: "carried dt v = VStr t" "carried_untyped dt v = VStr t"
    using string t by (auto simp: carried_def carried_untyped_def)
  show ?thesis
    by (rule value_fieldI [of F_STRING WT_LEN "R_bytes b"]; (unfold c)?)
      (use b t string assms(1) utf8_decode_encode [OF t(2)]
        in \<open>simp_all add: metric_field_def decode_metric_value_def sp_utf8_def wire_consts U_MAX_eq\<close>)
next
  case bytes
  then obtain b where b: "v = VBytes b" "field_len F_BYTES b = Inr bs"
    using assms
    by (auto simp: encode_metric_value_def Let_def rbind_eq_Inr sp_blob_def wire_consts
        split: option.splits if_splits pyval.splits)
  have c: "carried dt v = VBytes b" "carried_untyped dt v = VBytes b"
    using bytes b by (auto simp: carried_def carried_untyped_def)
  show ?thesis
    by (rule value_fieldI [of F_BYTES WT_LEN "R_bytes b"]; (unfold c)?)
      (use b bytes assms(1) in \<open>simp_all add: metric_field_def decode_metric_value_def wire_consts U_MAX_eq\<close>)
qed


section \<open>Lemmas: messages\<close>

lemma loop_varint:
  assumes "field_varint number i = Inr bs" "1 \<le> number" "number \<le> 17"
  shows "fields_loop body s (bs @ rest) = rbind (body s number WT_VARINT (R_int i)) (\<lambda>s'. fields_loop body s' rest)"
  using fields_loop_field [of number WT_VARINT "R_int i" bs body s rest] assms by (simp add: U_MAX_eq)

lemma loop_len:
  assumes "field_len number b = Inr bs" "1 \<le> number" "number \<le> 17"
  shows "fields_loop body s (bs @ rest) = rbind (body s number WT_LEN (R_bytes b)) (\<lambda>s'. fields_loop body s' rest)"
  using fields_loop_field [of number WT_LEN "R_bytes b" bs body s rest] assms by (simp add: U_MAX_eq)

lemma opt_uint_cases:
  assumes "opt_field (x \<noteq> VNone) (\<lambda>_. rbind (sp_uint x bits) (field_varint k)) = Inr a"
  obtains "x = VNone" "a = []" | i where "x = VInt i" "field_varint k i = Inr a"
  using assms
  by (cases x) (auto simp: opt_field_def rbind_eq_Inr sp_uint_def split: if_splits)

lemma sp_text_utf8: "sp_text x = Inr b \<Longrightarrow> \<exists>s. x = VStr s \<and> sp_utf8 b = Inr s"
  by (cases x) (auto simp: sp_text_def sp_utf8_def utf8_decode_encode split: option.splits)

lemma opt_text_cases:
  assumes "opt_field c (\<lambda>_. rbind (sp_text x) (field_len k)) = Inr a"
  obtains "\<not> c" "a = []" | s b where "c" "x = VStr s" "sp_utf8 b = Inr s" "field_len k b = Inr a"
  using assms sp_text_utf8 [of x] by (auto simp: opt_field_def rbind_eq_Inr split: if_splits)

lemma metric_name_piece:
  assumes "opt_field (n \<noteq> []) (\<lambda>_. rbind (sp_text (VStr n)) (field_len 1)) = Inr a" and "m_name m = []"
  shows "fields_loop metric_field (m, val) (a @ rest) = fields_loop metric_field (m\<lparr>m_name := n\<rparr>, val) rest"
  using assms(1)
proof (cases rule: opt_text_cases)
  case 1
  then have "m\<lparr>m_name := n\<rparr> = m" using assms(2) by (cases m) simp
  then show ?thesis using 1 by simp
next
  case (2 s b)
  then show ?thesis by (simp add: loop_len metric_field_def)
qed

lemma metric_alias_piece:
  assumes "opt_field (x \<noteq> VNone) (\<lambda>_. rbind (sp_uint x 64) (field_varint 2)) = Inr a" and "m_alias m = VNone"
  shows "fields_loop metric_field (m, val) (a @ rest) = fields_loop metric_field (m\<lparr>m_alias := x\<rparr>, val) rest"
  using assms(1)
proof (cases rule: opt_uint_cases)
  case 1
  then have "m\<lparr>m_alias := x\<rparr> = m" using assms(2) by (cases m) simp
  then show ?thesis using 1 by simp
next
  case (2 i)
  then show ?thesis by (simp add: loop_varint metric_field_def)
qed

lemma metric_timestamp_piece:
  assumes "opt_field (x \<noteq> VNone) (\<lambda>_. rbind (sp_uint x 64) (field_varint 3)) = Inr a" and "m_timestamp m = VNone"
  shows "fields_loop metric_field (m, val) (a @ rest) = fields_loop metric_field (m\<lparr>m_timestamp := x\<rparr>, val) rest"
  using assms(1)
proof (cases rule: opt_uint_cases)
  case 1
  then have "m\<lparr>m_timestamp := x\<rparr> = m" using assms(2) by (cases m) simp
  then show ?thesis using 1 by simp
next
  case (2 i)
  then show ?thesis by (simp add: loop_varint metric_field_def)
qed

lemma value_fields_range: "map_of VALUE_FIELDS dt = Some fs \<Longrightarrow> 1 \<le> dt \<and> dt \<le> 17"
  by (auto simp: VALUE_FIELDS_def INT_TYPES_def split: if_splits)

lemma metric_datatype_piece:
  assumes "opt_field (dt \<noteq> 0 \<and> inc) (\<lambda>_. field_varint 4 dt) = Inr a" and "m_datatype m = 0"
    and "dt \<noteq> 0 \<longrightarrow> map_of VALUE_FIELDS dt \<noteq> None"
  shows "fields_loop metric_field (m, val) (a @ rest)
    = fields_loop metric_field (m\<lparr>m_datatype := (if inc then dt else 0)\<rparr>, val) rest"
proof (cases "dt \<noteq> 0 \<and> inc")
  case True
  then have "take_bit 32 dt = dt"
    using assms(3) value_fields_range [of dt] by (intro take_bit_int_eq_self) auto
  then show ?thesis
    using assms(1) True by (simp add: opt_field_def loop_varint metric_field_def)
next
  case False
  then have "m\<lparr>m_datatype := (if inc then dt else 0)\<rparr> = m" using assms(2) by (cases m) auto
  then show ?thesis using assms(1) False by (auto simp: opt_field_def)
qed

lemma metric_prefix:
  assumes "encode_metric m inc = Inr bs"
  obtains e where "fields_loop metric_field (default_metric, None) bs
      = fields_loop metric_field (m\<lparr>m_datatype := (if inc then m_datatype m else 0), m_value := VNone,
          m_is_null := False\<rparr>, None) e"
    and "m_is_null m \<and> field_varint 7 1 = Inr e \<or>
      \<not> m_is_null m \<and> map_of VALUE_FIELDS (m_datatype m) \<noteq> None \<and>
        encode_metric_value (m_datatype m) (m_value m) = Inr e"
proof -
  from assms obtain a b c d e where
    a: "opt_field (m_name m \<noteq> []) (\<lambda>_. rbind (sp_text (VStr (m_name m))) (field_len 1)) = Inr a"
    and b: "opt_field (m_alias m \<noteq> VNone) (\<lambda>_. rbind (sp_uint (m_alias m) 64) (field_varint 2)) = Inr b"
    and c: "opt_field (m_timestamp m \<noteq> VNone) (\<lambda>_. rbind (sp_uint (m_timestamp m) 64) (field_varint 3)) = Inr c"
    and dt: "m_datatype m \<noteq> 0 \<longrightarrow> map_of VALUE_FIELDS (m_datatype m) \<noteq> None"
    and d: "opt_field (m_datatype m \<noteq> 0 \<and> inc) (\<lambda>_. field_varint 4 (m_datatype m)) = Inr d"
    and e: "(if m_is_null m then field_varint 7 1 else if m_datatype m = 0 then Inl NeedDatatype
        else if m_value m = VNone then Inl ValueIsNone
        else encode_metric_value (m_datatype m) (m_value m)) = Inr e"
    and bs: "bs = a @ b @ c @ d @ e"
    unfolding encode_metric_def rbind_eq_Inr ensure_eq_Inr sum.inject by blast
  have "fields_loop metric_field (default_metric, None) bs =
    fields_loop metric_field
      (default_metric\<lparr>m_name := m_name m, m_alias := m_alias m, m_timestamp := m_timestamp m,
         m_datatype := (if inc then m_datatype m else 0)\<rparr>, None) e"
    unfolding bs
    by (simp add: metric_name_piece [OF a] metric_alias_piece [OF b] metric_timestamp_piece [OF c]
        metric_datatype_piece [OF d _ dt] default_metric_def)
  moreover have "default_metric\<lparr>m_name := m_name m, m_alias := m_alias m, m_timestamp := m_timestamp m,
      m_datatype := (if inc then m_datatype m else 0)\<rparr>
    = m\<lparr>m_datatype := (if inc then m_datatype m else 0), m_value := VNone, m_is_null := False\<rparr>"
    by (cases m) (simp add: default_metric_def)
  ultimately show thesis using e dt that by (auto split: if_splits)
qed

lemma decode_encode_metric:
  assumes "encode_metric m inc = Inr bs"
  shows "decode_metric bs = Inr (decoded_metric inc m)"
  using assms
proof (cases rule: metric_prefix)
  case (1 e)
  define m0 where "m0 = m\<lparr>m_datatype := (if inc then m_datatype m else 0), m_value := VNone, m_is_null := False\<rparr>"
  show ?thesis
  proof (cases "m_is_null m")
    case True
    then have "fields_loop metric_field (m0, None) e = Inr (m0\<lparr>m_is_null := True\<rparr>, None)"
      using 1(2) loop_varint [of 7 1 e metric_field "(m0, None)" "[]"] by (simp add: metric_field_def)
    moreover have "m0\<lparr>m_is_null := True\<rparr> = decoded_metric inc m"
      using True by (cases m) (simp add: m0_def decoded_metric_def)
    ultimately show ?thesis using 1(1) by (simp add: decode_metric_def m0_def)
  next
    case False
    then obtain number wt raw where v: "value_field (m_datatype m) (m_value m) e number wt raw"
      using 1(2) value_field_exists by blast
    let ?w = "carried_untyped (m_datatype m) (m_value m)"
    have "fields_loop metric_field (m0, None) e = Inr (m0, Some (number, ?w))"
      using v fields_loop_field [of number wt raw e metric_field "(m0, None)" "[]"]
      by (auto simp: value_field_def)
    moreover have "decode_metric_value (m_datatype m0) number ?w = Inr (m_value (decoded_metric inc m))"
    proof -
      have "map_of VALUE_FIELDS 0 = None" by (simp add: VALUE_FIELDS_def INT_TYPES_def)
      then show ?thesis
        using v False by (auto simp: value_field_def m0_def decoded_metric_def decode_metric_value_def [of 0])
    qed
    moreover have "m0\<lparr>m_value := m_value (decoded_metric inc m)\<rparr> = decoded_metric inc m"
      using False by (cases m) (simp add: m0_def decoded_metric_def)
    moreover have "\<not> m_is_null m0" by (simp add: m0_def)
    ultimately show ?thesis using 1(1) by (simp add: decode_metric_def flip: m0_def)
  qed
qed

definition decoded_payload :: "bool \<Rightarrow> sp_payload \<Rightarrow> sp_payload" where
  "decoded_payload inc p = p\<lparr>p_metrics := map (decoded_metric inc) (p_metrics p)\<rparr>"

lemma payload_metrics_piece:
  assumes "rmap (\<lambda>m. rbind (encode_metric m inc) (field_len 2)) ms = Inr b"
  shows "fields_loop payload_field p (concat b @ rest)
    = fields_loop payload_field (p\<lparr>p_metrics := p_metrics p @ map (decoded_metric inc) ms\<rparr>) rest"
  using assms
proof (induction ms arbitrary: b p)
  case Nil
  then show ?case by simp
next
  case (Cons m ms)
  then obtain x y bs where x: "encode_metric m inc = Inr x" "field_len 2 x = Inr y"
    and bs: "rmap (\<lambda>m. rbind (encode_metric m inc) (field_len 2)) ms = Inr bs" "b = y # bs"
    by (auto simp: rbind_eq_Inr)
  show ?case
    using Cons.IH [OF bs(1)] x
    by (simp add: bs loop_len payload_field_def decode_encode_metric [OF x(1)])
qed

lemma decode_encode_payload:
  assumes "encode_payload p inc = Inr bs"
  shows "decode_payload bs = Inr (decoded_payload inc p)"
proof -
  from assms obtain a b c d e where
    a: "opt_field (p_timestamp p \<noteq> VNone) (\<lambda>_. rbind (sp_uint (p_timestamp p) 64) (field_varint 1)) = Inr a"
    and b: "rmap (\<lambda>m. rbind (encode_metric m inc) (field_len 2)) (p_metrics p) = Inr b"
    and c: "opt_field (p_seq p \<noteq> VNone) (\<lambda>_. rbind (sp_uint (p_seq p) 8) (field_varint 3)) = Inr c"
    and d: "opt_field (p_uuid p \<noteq> VNone) (\<lambda>_. rbind (sp_text (p_uuid p)) (field_len 4)) = Inr d"
    and e: "opt_field (p_body p \<noteq> VNone) (\<lambda>_. rbind (sp_blob (p_body p)) (field_len 5)) = Inr e"
    and bs: "bs = a @ concat b @ c @ d @ e"
    unfolding encode_payload_def rbind_eq_Inr sum.inject by blast
  have A: "fields_loop payload_field q (a @ rest) = fields_loop payload_field (q\<lparr>p_timestamp := p_timestamp p\<rparr>) rest"
    if "p_timestamp q = VNone" for q rest
    using a
  proof (cases rule: opt_uint_cases)
    case 1
    then have "q\<lparr>p_timestamp := p_timestamp p\<rparr> = q" using that by (cases q) simp
    then show ?thesis using 1 by simp
  qed (simp add: loop_varint payload_field_def)
  have C: "fields_loop payload_field q (c @ rest) = fields_loop payload_field (q\<lparr>p_seq := p_seq p\<rparr>) rest"
    if "p_seq q = VNone" for q rest
    using c
  proof (cases rule: opt_uint_cases)
    case 1
    then have "q\<lparr>p_seq := p_seq p\<rparr> = q" using that by (cases q) simp
    then show ?thesis using 1 by simp
  qed (simp add: loop_varint payload_field_def)
  have D: "fields_loop payload_field q (d @ rest) = fields_loop payload_field (q\<lparr>p_uuid := p_uuid p\<rparr>) rest"
    if "p_uuid q = VNone" for q rest
    using d
  proof (cases rule: opt_text_cases)
    case 1
    then have "q\<lparr>p_uuid := p_uuid p\<rparr> = q" using that by (cases q) simp
    then show ?thesis using 1 by simp
  qed (simp add: loop_len payload_field_def)
  have E: "fields_loop payload_field q e = Inr (q\<lparr>p_body := p_body p\<rparr>)" if "p_body q = VNone" for q
  proof (cases "p_body p = VNone")
    case True
    then have "q\<lparr>p_body := p_body p\<rparr> = q" using that by (cases q) simp
    then show ?thesis using e True by (simp add: opt_field_def)
  next
    case False
    then obtain y where "p_body p = VBytes y" "field_len 5 y = Inr e"
      using e by (auto simp: opt_field_def rbind_eq_Inr sp_blob_def split: pyval.splits)
    then show ?thesis
      using loop_len [of 5 y e payload_field q "[]"] by (simp add: payload_field_def)
  qed
  show ?thesis
    unfolding decode_payload_def bs
    by (simp add: A payload_metrics_piece [OF b] C D E empty_payload_def, cases p, simp add: decoded_payload_def)
qed


section \<open>Lemmas: the decoder's errors\<close>

lemma read_varint_loop_error:
  "read_varint_loop n shift acc data = Inl e \<Longrightarrow> e \<in> {TruncatedVarint, VarintTooLong}"
  by (induction n shift acc data rule: read_varint_loop.induct) (auto simp: Let_def split: if_splits)

lemma read_varint_error: "read_varint data = Inl e \<Longrightarrow> e \<in> {TruncatedVarint, VarintTooLong}"
  unfolding read_varint_def by (rule read_varint_loop_error)

definition wire_errors :: "sp_error set" where
  "wire_errors = {TruncatedVarint, VarintTooLong, BadFieldNumber, BadWireType, TruncatedField, MismatchedEndGroup}"

lemma read_key_error: "read_key data = Inl e \<Longrightarrow> e \<in> wire_errors"
  using read_varint_error [of data e]
  by (auto simp: read_key_def rbind_eq_Inl Let_def wire_errors_def split: if_splits)

lemma value_span_error: "value_span data wt = Inl e \<Longrightarrow> e \<in> wire_errors"
  using read_varint_error [of data e]
  by (auto simp: value_span_def sized_span_def rbind_eq_Inl wire_errors_def split: if_splits)

lemma value_span_length:
  "value_span data wt = Inr (v, rest) \<Longrightarrow> (wt = WT_I32 \<longrightarrow> length v = 4) \<and> (wt = WT_I64 \<longrightarrow> length v = 8)"
  by (auto simp: value_span_def sized_span_def wire_consts split: if_splits)

lemma skip_group_loop_error: "skip_group_loop data gs = Inl e \<Longrightarrow> e \<in> wire_errors"
proof (induction data gs rule: skip_group_loop.induct)
  case (1 data)
  then show ?case by (simp add: skip_group_loop.simps)
next
  case (2 data g gs)
  show ?case
  proof (cases "read_key data")
    case (Inl e')
    then show ?thesis using 2(4) read_key_error [of data] by (simp add: skip_group_loop.simps(2))
  next
    case (Inr k)
    obtain inner wt rest1 where k: "read_key data = Inr (inner, wt, rest1)"
      using Inr by (cases k) auto
    consider (start) "wt = WT_SGROUP" | (stop) "wt \<noteq> WT_SGROUP" "wt = WT_EGROUP"
      | (other) "wt \<noteq> WT_SGROUP" "wt \<noteq> WT_EGROUP" by blast
    then show ?thesis
    proof cases
      case start
      then show ?thesis using 2(1) [OF k refl refl] 2(4) k by (simp add: skip_group_loop.simps(2))
    next
      case stop
      then show ?thesis
        using 2(2) [OF k refl refl] 2(4) k
        by (auto simp: skip_group_loop.simps(2) wire_errors_def split: if_splits)
    next
      case other
      then show ?thesis
        using 2(3) [OF k refl refl other] 2(4) k value_span_error [of rest1 wt]
        by (auto simp: skip_group_loop.simps(2) split: sum.splits)
    qed
  qed
qed

text \<open>An error of the field loop is an error of the wire format or of the loop body on a field whose
  fixed-width value has its full width.\<close>

lemma fields_loop_error:
  assumes "fields_loop body s data = Inl e"
    and "\<And>s number wt raw e. body s number wt raw = Inl e \<Longrightarrow>
      (\<And>b. raw = R_bytes b \<Longrightarrow> (wt = WT_I32 \<longrightarrow> length b = 4) \<and> (wt = WT_I64 \<longrightarrow> length b = 8)) \<Longrightarrow> e \<in> E"
  shows "e \<in> wire_errors \<union> E"
  using assms(1)
proof (induction "length data" arbitrary: s data rule: less_induct)
  case less
  then have ne: "data \<noteq> []" by (auto simp: fields_loop.simps)
  show ?case
  proof (cases "read_key data")
    case (Inl e')
    then show ?thesis
      using less(2) ne read_key_error [of data] by (subst (asm) fields_loop.simps) simp
  next
    case (Inr k)
    then obtain number wt rest where k: "read_key data = Inr (number, wt, rest)" by (cases k) auto
    note l = read_key_shorter [OF k]
    have step: "e \<in> wire_errors \<union> E"
      if "(case body s number wt raw of Inl e \<Rightarrow> Inl e | Inr s' \<Rightarrow> fields_loop body s' rest') = Inl e"
        and "length rest' \<le> length rest"
        and "\<And>b. raw = R_bytes b \<Longrightarrow> (wt = WT_I32 \<longrightarrow> length b = 4) \<and> (wt = WT_I64 \<longrightarrow> length b = 8)"
      for raw rest'
    proof (cases "body s number wt raw")
      case (Inl e')
      then show ?thesis using that(1) assms(2) [OF Inl that(3)] by simp
    next
      case (Inr s')
      then show ?thesis using that(1,2) l less(1) [of rest' s'] by simp
    qed
    consider (group) "wt = WT_SGROUP" | (varint) "wt = WT_VARINT"
      | (other) "wt \<noteq> WT_SGROUP" "wt \<noteq> WT_VARINT" by blast
    then show ?thesis
    proof cases
      case group
      show ?thesis
      proof (cases "skip_group rest number")
        case (Inl e')
        then show ?thesis
          using less(2) ne k group skip_group_loop_error [of rest "[number]"]
          by (subst (asm) fields_loop.simps) (simp add: skip_group_def)
      next
        case (Inr rest')
        then have "length rest' \<le> length rest"
          using skip_group_loop_shorter [of rest "[number]"] by (simp add: skip_group_def)
        then show ?thesis
          using less(2) ne k group Inr l less(1) [of rest' s] by (subst (asm) fields_loop.simps) simp
      qed
    next
      case varint
      then have n: "wt \<noteq> WT_SGROUP" by (simp add: wire_consts)
      show ?thesis
      proof (cases "read_varint rest")
        case (Inl e')
        then show ?thesis
          using less(2) ne k varint n read_varint_error [of rest]
          by (subst (asm) fields_loop.simps) (auto simp: wire_errors_def)
      next
        case (Inr x)
        then obtain v rest' where v: "read_varint rest = Inr (v, rest')" by (cases x) auto
        have "(case body s number wt (R_int v) of Inl e \<Rightarrow> Inl e | Inr s' \<Rightarrow> fields_loop body s' rest') = Inl e"
          using less(2) ne k varint n v by (subst (asm) fields_loop.simps) simp
        then show ?thesis
          using step [where raw = "R_int v" and rest' = rest'] read_varint_shorter [OF v] by simp
      qed
    next
      case other
      show ?thesis
      proof (cases "value_span rest wt")
        case (Inl e')
        then show ?thesis
          using less(2) ne k other value_span_error [of rest wt]
          by (subst (asm) fields_loop.simps) simp
      next
        case (Inr x)
        then obtain v rest' where v: "value_span rest wt = Inr (v, rest')" by (cases x) auto
        have "(case body s number wt (R_bytes v) of Inl e \<Rightarrow> Inl e | Inr s' \<Rightarrow> fields_loop body s' rest') = Inl e"
          using less(2) ne k other v by (subst (asm) fields_loop.simps) simp
        then show ?thesis
          using step [where raw = "R_bytes v" and rest' = rest'] value_span_length [OF v] value_span_shorter [OF v] by simp
      qed
    qed
  qed
qed

definition decode_errors :: "sp_error set" where
  "decode_errors = wire_errors \<union> {NotUtf8, WrongField, IntOutOfRange}"

lemma metric_field_error:
  assumes "metric_field st number wt raw = Inl e"
    and "\<And>b. raw = R_bytes b \<Longrightarrow> (wt = WT_I32 \<longrightarrow> length b = 4) \<and> (wt = WT_I64 \<longrightarrow> length b = 8)"
  shows "e \<in> {NotUtf8}"
  using assms
  by (auto simp: metric_field_def Let_def rbind_eq_Inl sp_utf8_def unpack_f32_def unpack_f64_def
      split: sp_raw.splits prod.splits if_splits option.splits)

lemma decode_metric_value_error: "decode_metric_value dt number wire = Inl e \<Longrightarrow> e \<in> {WrongField, IntOutOfRange}"
  by (auto simp: decode_metric_value_def int_from_wire_def Let_def rbind_eq_Inl
      split: option.splits if_splits pyval.splits prod.splits)

lemma decode_metric_error: "decode_metric data = Inl e \<Longrightarrow> e \<in> decode_errors"
  using fields_loop_error [of metric_field "(default_metric, None)" data e "{NotUtf8}"] metric_field_error
  by (fastforce simp: decode_metric_def rbind_eq_Inl decode_errors_def
      split: option.splits if_splits prod.splits dest: decode_metric_value_error)

lemma decode_payload_error: "decode_payload data = Inl e \<Longrightarrow> e \<in> decode_errors"
proof -
  have "e \<in> decode_errors" if "payload_field p number wt raw = Inl e" for p number wt raw e
    using that decode_metric_error
    by (auto simp: payload_field_def rbind_eq_Inl sp_utf8_def decode_errors_def
        split: sp_raw.splits if_splits option.splits)
  then show "decode_payload data = Inl e \<Longrightarrow> e \<in> decode_errors"
    using fields_loop_error [of payload_field empty_payload data e decode_errors]
    by (auto simp: decode_payload_def decode_errors_def)
qed

section \<open>Lemmas: topics and ids\<close>

lemma check_id_ok: "check_id v = Inr w \<longleftrightarrow> w = v \<and> v \<noteq> [] \<and> set v \<inter> set id_special = {}"
  by (auto simp: check_id_def)

lemma py_isspace_95 [simp]: "\<not> id_unsafe 95"
  by (simp add: id_unsafe_def id_special_def py_isspace_def)

lemma sanitize_id_ok: "check_id (sanitize_id s) = Inr (sanitize_id s)"
  by (auto simp: check_id_ok sanitize_id_def Let_def id_unsafe_def id_special_def ascii_def split: if_splits)

lemma message_types_no_slash: "t \<in> set MESSAGE_TYPES \<Longrightarrow> 47 \<notin> set t"
  by (auto simp: MESSAGE_TYPES_def ascii_def)

lemma sp_topic_parts:
  assumes "sp_topic g t n d = Inr s"
  shows "split_on 47 s = [TOPIC_NAMESPACE, g, t, n] @ (case d of None \<Rightarrow> [] | Some x \<Rightarrow> [x])"
proof -
  from assms have "set g \<inter> set id_special = {}" "set n \<inter> set id_special = {}"
    "t \<in> set MESSAGE_TYPES" "\<forall>x. d = Some x \<longrightarrow> set x \<inter> set id_special = {}"
    and s: "s = join_with 47 ([TOPIC_NAMESPACE, g, t, n] @ (case d of None \<Rightarrow> [] | Some x \<Rightarrow> [x]))"
    by (auto simp: sp_topic_def rbind_eq_Inr Let_def check_id_ok split: if_splits option.splits)
  then show ?thesis
    unfolding s by (intro split_join)
      (auto simp: id_special_def TOPIC_NAMESPACE_def ascii_def message_types_no_slash split: option.splits)
qed

section \<open>Lemmas: what a decoder returns\<close>

lemma read_varint_range: "read_varint data = Inr (v, rest) \<Longrightarrow> 0 \<le> v \<and> v < 2 ^ 64"
proof -
  have "read_varint_loop n shift acc data = Inr (v, rest) \<Longrightarrow> take_bit 64 v = v" for n shift acc
    by (induction n shift acc data rule: read_varint_loop.induct) (auto simp: Let_def split: if_splits)
  then show "read_varint data = Inr (v, rest) \<Longrightarrow> ?thesis"
    unfolding read_varint_def by (metis take_bit_int_less_exp take_bit_nonnegative)
qed

text \<open>What the loop body keeps, the loop keeps; integers come in unsigned and in 64 bits.\<close>

lemma fields_loop_invariant:
  assumes "fields_loop body s data = Inr s'" and "P s"
    and "\<And>s number wt raw s'. P s \<Longrightarrow> body s number wt raw = Inr s' \<Longrightarrow> (\<And>i. raw = R_int i \<Longrightarrow> 0 \<le> i \<and> i < 2 ^ 64) \<Longrightarrow> P s'"
  shows "P s'"
  using assms(1,2)
proof (induction "length data" arbitrary: s data rule: less_induct)
  case less
  show ?case
  proof (cases "data = []")
    case False
    then obtain number wt rest where k: "read_key data = Inr (number, wt, rest)"
      using less(2) by (subst (asm) fields_loop.simps) (auto split: sum.splits)
    note l = read_key_shorter [OF k]
    note eq = less(2) [unfolded fields_loop.simps [of body s data]]
    consider (group) rest' where "skip_group rest number = Inr rest'" "fields_loop body s rest' = Inr s'"
      | (field) raw rest' s1 where "length rest' \<le> length rest" "body s number wt raw = Inr s1" "fields_loop body s1 rest' = Inr s'"
          "\<And>i. raw = R_int i \<Longrightarrow> 0 \<le> i \<and> i < 2 ^ 64"
    proof (cases "wt = WT_SGROUP")
      case True
      then show thesis using eq False k group by (auto split: sum.splits)
    next
      case other: False
      show thesis
      proof (cases "wt = WT_VARINT")
        case True
        then obtain v rest' s1 where v: "read_varint rest = Inr (v, rest')" "body s number wt (R_int v) = Inr s1" "fields_loop body s1 rest' = Inr s'"
          using eq False k other by (auto split: sum.splits)
        then show thesis using field [of rest' "R_int v" s1] read_varint_shorter [OF v(1)] read_varint_range [OF v(1)] by simp
      next
        case False
        then obtain v rest' s1 where v: "value_span rest wt = Inr (v, rest')" "body s number wt (R_bytes v) = Inr s1" "fields_loop body s1 rest' = Inr s'"
          using eq \<open>data \<noteq> []\<close> k other by (auto split: sum.splits)
        then show thesis using field [of rest' "R_bytes v" s1] value_span_shorter [OF v(1)] by simp
      qed
    qed
    then show ?thesis
    proof cases
      case group
      have "length rest' \<le> length rest" using group(1) skip_group_loop_shorter [of rest "[number]"] by (simp add: skip_group_def)
      then show ?thesis using less(1) [of rest' s] group(2) less(3) l by simp
    next
      case field
      then show ?thesis using less(1) [of rest' s1] assms(3) [OF less(3) field(2)] l by simp
    qed
  qed (use less in \<open>simp add: fields_loop.simps\<close>)
qed

text \<open>A value of a datatype; a datatype that the decoder does not know restricts nothing.\<close>

definition value_typed :: "int \<Rightarrow> pyval \<Rightarrow> bool" where
  "value_typed dt v =
     (case map_of INT_TYPES dt of
        Some (sgnd, bits) \<Rightarrow> (case v of VInt i \<Rightarrow> fst (int_bounds sgnd bits) \<le> i \<and> i \<le> snd (int_bounds sgnd bits) | _ \<Rightarrow> False)
      | None \<Rightarrow>
          if dt = 9 \<or> dt = 10 then (case v of VFloat _ \<Rightarrow> True | _ \<Rightarrow> False)
          else if dt = 11 then (case v of VBool _ \<Rightarrow> True | _ \<Rightarrow> False)
          else if dt = 12 \<or> dt = 14 then (case v of VStr _ \<Rightarrow> True | _ \<Rightarrow> False)
          else if dt = 17 then (case v of VBytes _ \<Rightarrow> True | _ \<Rightarrow> False)
          else v \<noteq> VNone)"

text \<open>The wire value that goes with a field number.\<close>

definition wire_typed :: "int \<Rightarrow> pyval \<Rightarrow> bool" where
  "wire_typed number v =
     (if number = F_INT then (case v of VInt i \<Rightarrow> 0 \<le> i \<and> i < 2 ^ 32 | _ \<Rightarrow> False)
      else if number = F_LONG then (case v of VInt i \<Rightarrow> 0 \<le> i \<and> i < 2 ^ 64 | _ \<Rightarrow> False)
      else if number = F_FLOAT \<or> number = F_DOUBLE then (case v of VFloat _ \<Rightarrow> True | _ \<Rightarrow> False)
      else if number = F_BOOL then (case v of VBool _ \<Rightarrow> True | _ \<Rightarrow> False)
      else if number = F_STRING then (case v of VStr _ \<Rightarrow> True | _ \<Rightarrow> False)
      else if number = F_BYTES then (case v of VBytes _ \<Rightarrow> True | _ \<Rightarrow> False)
      else False)"

lemma int_from_wire_range:
  assumes "int_from_wire raw fb dt = Inr i" and "map_of INT_TYPES dt = Some (sgnd, bits)" and "0 \<le> raw" and "0 < bits"
  shows "fst (int_bounds sgnd bits) \<le> i \<and> i \<le> snd (int_bounds sgnd bits)"
proof -
  have small: "raw < 2 ^ bits" if "drop_bit bits raw = 0" using that assms(3) by (auto simp: drop_bit_eq_div zdiv_eq_0_iff not_less)
  obtain k where k: "bits = Suc k" using assms(4) by (cases bits) auto
  show ?thesis
  proof (cases sgnd)
    case False
    then show ?thesis using assms(1-3) small by (auto simp: int_from_wire_def int_bounds_def push_bit_eq_mult split: if_splits)
  next
    case True
    consider "- (2 ^ k) \<le> i \<and> i < 2 ^ k" | "drop_bit bits raw = 0" "i = sp_signed raw bits"
      using assms(1,2) True k by (auto simp: int_from_wire_def Let_def push_bit_eq_mult split: if_splits)
    then show ?thesis
    proof cases
      case 2
      then show ?thesis using True k small assms(3) sp_signed_eq [of raw bits] by (auto simp: int_bounds_def push_bit_eq_mult split: if_splits)
    qed (use True k in \<open>auto simp: int_bounds_def push_bit_eq_mult\<close>)
  qed
qed

lemma decode_value_typed:
  assumes "decode_metric_value dt number wire = Inr v" and "wire_typed number wire"
  shows "value_typed dt v"
proof (cases "map_of VALUE_FIELDS dt")
  case None
  then have "map_of INT_TYPES dt = None" "dt \<notin> {9, 10, 11, 12, 14, 17}" by (auto simp: VALUE_FIELDS_def INT_TYPES_def split: if_splits)
  moreover have "v = wire" using assms(1) None by (simp add: decode_metric_value_def)
  ultimately show ?thesis using assms(2) by (auto simp: value_typed_def wire_typed_def split: if_splits)
next
  case (Some fs)
  show ?thesis using Some
  proof (cases rule: value_fields_cases)
    case (int sgnd bits)
    have num: "number = F_INT \<or> number = F_LONG" using assms(1) Some int(3) by (auto simp: decode_metric_value_def split: if_splits)
    then obtain raw where raw: "wire = VInt raw" "0 \<le> raw" using assms(2) by (auto simp: wire_typed_def split: pyval.splits if_splits)
    then obtain i where i: "int_from_wire raw (if number = F_INT then 32 else 64) dt = Inr i" "v = VInt i"
      using assms(1) Some int(1) by (auto simp: decode_metric_value_def rbind_eq_Inr split: if_splits)
    have "0 < bits" using int(3) by auto
    then show ?thesis using int_from_wire_range [OF i(1) int(1) raw(2)] int(1) i(2) by (simp add: value_typed_def)
  qed (use assms Some in \<open>auto simp: decode_metric_value_def value_typed_def wire_typed_def wire_consts split: if_splits pyval.splits\<close>)
qed

text \<open>A decoded metric: a null one has no value, and a value is one of its datatype.\<close>

definition metric_typed :: "sp_metric \<Rightarrow> bool" where
  "metric_typed m \<longleftrightarrow> (if m_is_null m then m_value m = VNone else m_value m = VNone \<or> value_typed (m_datatype m) (m_value m))"

lemma unpack_float: "unpack_f32 b = Inr v \<Longrightarrow> \<exists>x. v = VFloat x" "unpack_f64 b = Inr v \<Longrightarrow> \<exists>x. v = VFloat x"
  by (auto simp: unpack_f32_def unpack_f64_def split: if_splits)

lemma metric_field_typed:
  assumes "metric_field (m, val) number wt raw = Inr (m', val')" and "\<And>i. raw = R_int i \<Longrightarrow> 0 \<le> i \<and> i < 2 ^ 64"
    and "m_value m = VNone" and "\<forall>n w. val = Some (n, w) \<longrightarrow> wire_typed n w"
  shows "m_value m' = VNone \<and> (\<forall>n w. val' = Some (n, w) \<longrightarrow> wire_typed n w)"
proof (cases raw)
  case (R_int i)
  have i: "0 \<le> i" "i < 2 ^ 64" using assms(2) [OF R_int] by simp_all
  have u: "0 \<le> i AND U32_MAX \<and> i AND U32_MAX < 2 ^ 32" by (simp add: U32_MAX_def AND_upper2)
  consider "m_value m' = m_value m" "val' = val" | "m' = m" "val' = Some (F_INT, VInt (i AND U32_MAX))"
    | "m' = m" "val' = Some (F_LONG, VInt i)" | "m' = m" "val' = Some (F_BOOL, VBool (i \<noteq> 0))"
    using assms(1) unfolding metric_field_def R_int by (auto split: if_splits)
  then show ?thesis using assms(3,4) i u by cases (simp_all add: wire_typed_def wire_consts)
next
  case (R_bytes b)
  consider "m_value m' = m_value m" "val' = val" | t where "m' = m" "val' = Some (F_STRING, VStr t)"
    | "m' = m" "val' = Some (F_BYTES, VBytes b)" | x where "m' = m" "val' = Some (F_FLOAT, VFloat x)"
    | x where "m' = m" "val' = Some (F_DOUBLE, VFloat x)"
    using assms(1) unfolding metric_field_def R_bytes by (auto simp: rbind_eq_Inr dest!: unpack_float split: if_splits)
  then show ?thesis using assms(3,4) by cases (simp_all add: wire_typed_def wire_consts)
qed

lemma decode_metric_typed: "decode_metric data = Inr m \<Longrightarrow> metric_typed m"
proof -
  assume d: "decode_metric data = Inr m"
  then obtain m0 val where l: "fields_loop metric_field (default_metric, None) data = Inr (m0, val)"
    by (auto simp: decode_metric_def rbind_eq_Inr)
  have "m_value (fst (m0, val)) = VNone \<and> (\<forall>n w. snd (m0, val) = Some (n, w) \<longrightarrow> wire_typed n w)"
    by (rule fields_loop_invariant [OF l, where P = "\<lambda>st. m_value (fst st) = VNone \<and> (\<forall>n w. snd st = Some (n, w) \<longrightarrow> wire_typed n w)"])
      (auto simp: default_metric_def dest: metric_field_typed)
  then have v: "m_value m0 = VNone" "\<forall>n w. val = Some (n, w) \<longrightarrow> wire_typed n w" by simp_all
  show ?thesis
  proof (cases "val = None \<or> m_is_null m0")
    case True
    then show ?thesis using d l v(1) by (auto simp: decode_metric_def metric_typed_def split: option.splits)
  next
    case False
    then obtain n w x where "val = Some (n, w)" "decode_metric_value (m_datatype m0) n w = Inr x" "m = m0\<lparr>m_value := x\<rparr>"
      using d l by (auto simp: decode_metric_def rbind_eq_Inr)
    then show ?thesis using False v(2) decode_value_typed by (auto simp: metric_typed_def)
  qed
qed

section \<open>Properties\<close>



text \<open>C30: The decoder is total on hostile input: whatever bytes arrive, it returns a payload or one of the
  documented value errors, and never fails inside \<open>struct.unpack\<close>.\<close>
theorem decode_payload_total:
  "(\<exists>p. decode_payload data = Inr p) \<or> (\<exists>e. decode_payload data = Inl e \<and> e \<in> decode_errors \<and> e \<noteq> StructError)"
proof (cases "decode_payload data")
  case (Inl e)
  then show ?thesis using decode_payload_error [OF Inl] by (auto simp: decode_errors_def wire_errors_def)
qed simp

text \<open>Topics built from sanitized free text are always accepted and unambiguous: splitting at '/'
  gives back the namespace, group, message type and node (and the device of a device message).\<close>
theorem topic_of_sanitized:
  assumes "t \<in> set MESSAGE_TYPES" and "t \<noteq> ascii ''STATE''"
    and "is_prefix_of (ascii ''D'') t \<longleftrightarrow> d \<noteq> None"
  shows "\<exists>s. sp_topic (sanitize_id g) t (sanitize_id n) (map_option sanitize_id d) = Inr s \<and>
    split_on 47 s = [TOPIC_NAMESPACE, sanitize_id g, t, sanitize_id n] @
      (case d of None \<Rightarrow> [] | Some x \<Rightarrow> [sanitize_id x])"
proof -
  have "\<exists>s. sp_topic (sanitize_id g) t (sanitize_id n) (map_option sanitize_id d) = Inr s"
    using assms by (cases d) (simp_all add: sp_topic_def sanitize_id_ok Let_def)
  then obtain s where "sp_topic (sanitize_id g) t (sanitize_id n) (map_option sanitize_id d) = Inr s" by blast
  with sp_topic_parts [OF this] show ?thesis by (cases d) simp_all
qed

theorem topic_of_sanitized_witness:
  "\<exists>s. sp_topic (sanitize_id (ascii ''a/b'')) (ascii ''DDATA'') (sanitize_id []) (map_option sanitize_id (Some (ascii ''m 1''))) = Inr s \<and>
    split_on 47 s = [TOPIC_NAMESPACE, sanitize_id (ascii ''a/b''), ascii ''DDATA'', sanitize_id []] @
      (case Some (ascii ''m 1'') of None \<Rightarrow> [] | Some x \<Rightarrow> [sanitize_id x])"
  by (rule topic_of_sanitized) (simp_all add: MESSAGE_TYPES_def is_prefix_of_iff ascii_def)

text \<open>C26: A decoded payload is well typed: in whatever bytes arrive, every metric that the decoder returns is null without a value,
  or has no value, or has one of the shape and in the range of its datatype, so that an \<open>Int8\<close> is an integer from -128 to
  127 and a \<open>Boolean\<close> a truth value; sequence number and time stamp are unsigned 64-bit integers.\<close>
theorem decoded_typed:
  assumes "decode_payload bs = Inr p"
  shows "list_all metric_typed (p_metrics p) \<and>
    (\<forall>v \<in> {p_seq p, p_timestamp p}. v = VNone \<or> (\<exists>i. v = VInt i \<and> 0 \<le> i \<and> i < 2 ^ 64))"
proof -
  let ?P = "\<lambda>p. list_all metric_typed (p_metrics p) \<and> (\<forall>v \<in> {p_seq p, p_timestamp p}. v = VNone \<or> (\<exists>i. v = VInt i \<and> 0 \<le> i \<and> i < 2 ^ 64))"
  show ?thesis
  proof (rule fields_loop_invariant [OF assms [unfolded decode_payload_def], where P = ?P])
    fix q :: sp_payload and number wt raw q'
    assume "?P q" "payload_field q number wt raw = Inr q'" "\<And>i. raw = R_int i \<Longrightarrow> 0 \<le> i \<and> i < 2 ^ 64"
    then show "?P q'"
      by (cases raw) (auto simp: payload_field_def rbind_eq_Inr split: if_splits dest: decode_metric_typed)
  qed (simp add: empty_payload_def)
qed

lemma decoded_typed_witness:
  "(case decode_payload [18, 8, 10, 1, 97, 32, 1, 80, 156, 1, 24, 255, 1] of
      Inl _ \<Rightarrow> False | Inr p \<Rightarrow> map m_value (p_metrics p) = [VInt (- 100)] \<and> list_all metric_typed (p_metrics p)) \<and>
   decode_payload [18, 8, 10, 1, 97, 32, 1, 80, 172, 2, 24, 255, 1] = Inl IntOutOfRange"
proof -
  have d: "case decode_payload [18, 8, 10, 1, 97, 32, 1, 80, 156, 1, 24, 255, 1] of Inl _ \<Rightarrow> False | Inr p \<Rightarrow> map m_value (p_metrics p) = [VInt (- 100)]"
    by code_simp
  then obtain p where p: "decode_payload [18, 8, 10, 1, 97, 32, 1, 80, 156, 1, 24, 255, 1] = Inr p" by (auto split: sum.splits)
  moreover have "decode_payload [18, 8, 10, 1, 97, 32, 1, 80, 172, 2, 24, 255, 1] = Inl IntOutOfRange" by code_simp
  ultimately show ?thesis using decoded_typed [OF p] d by simp
qed

end
