(* ===== verification/Mqtt_Pub.thy ===== *)
theory Mqtt_Pub
  imports Framing Config
begin

text \<open>
  \<open>app/engine/mqtt_pub.py\<close>: line-wise publishing of serial data, topic filters and the dispatch of
  received messages, with the publisher's state explicit. The paho client is outside the repository:
  what is handed to \<open>client.publish\<close> is returned as a list of messages.
\<close>

definition MAX_LINE_BUFFER :: nat where "MAX_LINE_BUFFER = 65536"

text \<open>A published message: topic, payload, QoS and retain flag.\<close>

type_synonym mqtt_msg = "str \<times> bytes \<times> pyval \<times> bool"

record 'h mqtt_pub =
  pb_client :: bool
  pb_connected :: bool
  pb_buf :: bytes
  pb_data_topic :: str
  pb_status_topic :: str
  pb_default_qos :: pyval
  pb_birth :: bool
  pb_subs :: "(str \<times> 'h) list"

definition mqtt_init :: "mqtt_settings \<Rightarrow> bool \<Rightarrow> (str \<times> 'h) list \<Rightarrow> 'h mqtt_pub" where
  "mqtt_init s birth subs =
     (let base = rstrip_of (\<lambda>c. c = 47) (mq_base_topic s) in
      \<lparr>pb_client = False, pb_connected = False, pb_buf = [], pb_data_topic = base,
       pb_status_topic = base @ ascii ''/status'', pb_default_qos = mq_qos s, pb_birth = birth, pb_subs = subs\<rparr>)"

definition mqtt_publish :: "'h mqtt_pub \<Rightarrow> str \<Rightarrow> bytes \<Rightarrow> bool \<Rightarrow> pyval option \<Rightarrow> mqtt_msg list" where
  "mqtt_publish p topic payload retain qos =
     (if pb_client p then [(topic, payload, case qos of None \<Rightarrow> pb_default_qos p | Some q \<Rightarrow> q, retain)] else [])"

text \<open>\<open>connect\<close>, when paho is installed: the client exists, and the birth message goes out.\<close>

definition mqtt_connect :: "'h mqtt_pub \<Rightarrow> 'h mqtt_pub \<times> mqtt_msg list" where
  "mqtt_connect p =
     (let p1 = p\<lparr>pb_client := True, pb_connected := True\<rparr> in
      (p1, if pb_birth p1 then mqtt_publish p1 (pb_status_topic p1) [111, 110, 108, 105, 110, 101] True None else []))"

definition publish_raw :: "'h mqtt_pub \<Rightarrow> str \<Rightarrow> bytes \<Rightarrow> pyval option \<Rightarrow> bool \<Rightarrow> mqtt_msg list" where
  "publish_raw p topic payload qos retain =
     (if pb_connected p then mqtt_publish p topic payload retain qos else [])"

definition publish_value :: "'h mqtt_pub \<Rightarrow> str \<Rightarrow> bytes \<Rightarrow> mqtt_msg list" where
  "publish_value p subtopic payload =
     (if pb_connected p then mqtt_publish p (pb_data_topic p @ 47 # subtopic) payload False None else [])"

definition mqtt_close :: "'h mqtt_pub \<Rightarrow> mqtt_msg option \<Rightarrow> 'h mqtt_pub \<times> mqtt_msg list" where
  "mqtt_close p final =
     (if \<not> pb_client p then (p, [])
      else
        let p1 = p\<lparr>pb_connected := False\<rparr>;
            out = (case final of
                     Some (topic, payload, qos, retain) \<Rightarrow> mqtt_publish p1 topic payload retain (Some qos)
                   | None \<Rightarrow> if pb_birth p1
                             then mqtt_publish p1 (pb_status_topic p1) [111, 102, 102, 108, 105, 110, 101] True None else [])
        in (p1\<lparr>pb_client := False\<rparr>, out))"

section \<open>Lines\<close>

text \<open>The first line of the buffer (without its newline) and the rest.\<close>

definition take_line :: "bytes \<Rightarrow> unit + (bytes \<times> bytes) option" where
  "take_line buf =
     (if 10 \<in> set buf then Inr (Some (takeWhile (\<lambda>b. b \<noteq> 10) buf, tl (dropWhile (\<lambda>b. b \<noteq> 10) buf))) else Inr None)"

definition line_text :: "bytes \<Rightarrow> bytes" where
  "line_text line = rstrip_of (\<lambda>b. b = 13) line"

definition line_msgs :: "'h mqtt_pub \<Rightarrow> bytes list \<Rightarrow> mqtt_msg list" where
  "line_msgs p lines =
     concat (map (\<lambda>l. if line_text l \<noteq> [] then mqtt_publish p (pb_data_topic p) (line_text l) False None else []) lines)"

text \<open>\<open>feed\<close>: the loop pops the lines one by one (\<open>Framing.feed\<close>), then an overlong rest is trimmed.\<close>

definition mqtt_feed :: "'h mqtt_pub \<Rightarrow> bytes \<Rightarrow> 'h mqtt_pub \<times> mqtt_msg list" where
  "mqtt_feed p data =
     (if \<not> pb_connected p \<or> \<not> pb_client p then (p, [])
      else case feed take_line (pb_buf p) data of
        (lines, _, buf) \<Rightarrow>
          (p\<lparr>pb_buf := (if length buf > MAX_LINE_BUFFER then last_n 4096 buf else buf)\<rparr>, line_msgs p lines))"

fun mqtt_feed_all :: "'h mqtt_pub \<Rightarrow> bytes list \<Rightarrow> 'h mqtt_pub \<times> mqtt_msg list" where
  "mqtt_feed_all p [] = (p, [])"
| "mqtt_feed_all p (c # cs) =
     (let (p1, out) = mqtt_feed p c; (p2, outs) = mqtt_feed_all p1 cs in (p2, out @ outs))"

section \<open>Topic filters\<close>

text \<open>The loop of \<open>_matches\<close> over the levels of the pattern.\<close>

fun match_levels :: "str list \<Rightarrow> str list \<Rightarrow> bool" where
  "match_levels [] ts = (ts = [])"
| "match_levels (p # ps) ts =
     (if p = ascii ''#'' then True
      else case ts of
        [] \<Rightarrow> False
      | t # ts' \<Rightarrow> if p \<noteq> ascii ''+'' \<and> p \<noteq> t then False else match_levels ps ts')"

definition topic_matches :: "str \<Rightarrow> str \<Rightarrow> bool" where
  "topic_matches pattern topic = match_levels (split_on 47 pattern) (split_on 47 topic)"

text \<open>\<open>handle_message\<close>: the handler that gets the message; an exact subscription wins.\<close>

definition message_handler :: "'h mqtt_pub \<Rightarrow> str \<Rightarrow> 'h option" where
  "message_handler p topic =
     (case map_of (pb_subs p) topic of
        Some h \<Rightarrow> Some h
      | None \<Rightarrow> map_option snd (find (\<lambda>(t, h). topic_matches t topic) (pb_subs p)))"

section \<open>Lemmas\<close>

definition line_bytes :: "bytes \<Rightarrow> bytes" where
  "line_bytes line = line @ [10]"

lemma take_line_append: "10 \<notin> set line \<Longrightarrow> take_line (line @ 10 # rest) = Inr (Some (line, rest))"
  by (auto simp: take_line_def takeWhile_append dropWhile_append)

lemma take_line_Some:
  assumes "take_line buf = Inr (Some (line, rest))"
  shows "10 \<notin> set line \<and> buf = line @ 10 # rest"
proof -
  have m: "10 \<in> set buf" and l: "line = takeWhile (\<lambda>b. b \<noteq> 10) buf" and r: "rest = tl (dropWhile (\<lambda>b. b \<noteq> 10) buf)"
    using assms by (auto simp: take_line_def split: if_splits)
  have d: "dropWhile (\<lambda>b. b \<noteq> 10) buf \<noteq> []" using m by auto
  then have "hd (dropWhile (\<lambda>b. b \<noteq> 10) buf) = 10" using hd_dropWhile [OF d] by simp
  with d have "dropWhile (\<lambda>b. b \<noteq> 10) buf = 10 # rest" by (cases "dropWhile (\<lambda>b. b \<noteq> 10) buf") (auto simp: r)
  then have "buf = line @ 10 # rest" using takeWhile_dropWhile_id [of "\<lambda>b. b \<noteq> 10" buf] by (simp add: l)
  moreover have "10 \<notin> set line" using set_takeWhileD [of 10 "\<lambda>b. b \<noteq> 10" buf] by (auto simp: l)
  ultimately show ?thesis by simp
qed

lemma take_line_None: "take_line buf = Inr None \<longleftrightarrow> 10 \<notin> set buf"
  by (simp add: take_line_def)

interpretation ln: stream_framing line_bytes take_line "\<lambda>l. 10 \<notin> set l"
proof
  fix f :: bytes and rest assume "10 \<notin> set f"
  then show "take_line (line_bytes f @ rest) = Inr (Some (f, rest))"
    using take_line_append by (simp add: line_bytes_def)
next
  fix buf f rest assume "take_line buf = Inr (Some (f, rest))"
  then show "10 \<notin> set f \<and> buf = line_bytes f @ rest" using take_line_Some by (simp add: line_bytes_def)
next
  fix f p q :: bytes assume f: "10 \<notin> set f" and e: "line_bytes f = p @ q" "q \<noteq> []"
  have "p = take (length p) f"
    using e by (cases q rule: rev_cases) (auto simp: line_bytes_def)
  then have "set p \<subseteq> set f" by (metis set_take_subset)
  then show "take_line p = Inr None" using f by (auto simp: take_line_None)
qed (simp add: line_bytes_def)

text \<open>One read whose complete lines are \<open>gs\<close> and whose rest is \<open>r\<close>.\<close>

lemma feed_lines:
  assumes "\<forall>l \<in> set gs. 10 \<notin> set l" and "buf @ c = concat (map line_bytes gs) @ r" and "10 \<notin> set r"
  shows "feed take_line buf c = (gs, None, r)"
proof -
  have "length gs \<le> length (concat (map line_bytes gs))" using assms(1) by (intro ln.length_frames) auto
  then have "length gs \<le> Suc (length (buf @ c))" unfolding assms(2) by simp
  then show ?thesis
    unfolding feed_def assms(2) using assms(1,3)
    by (intro ln.drain_stream) (auto simp: take_line_None simp flip: assms(2))
qed

lemma line_msgs_append: "line_msgs p (gs @ hs) = line_msgs p gs @ line_msgs p hs"
  by (simp add: line_msgs_def)

lemma line_msgs_buf [simp]: "line_msgs (p\<lparr>pb_buf := b\<rparr>) ls = line_msgs p ls"
  by (induction ls) (simp_all add: line_msgs_def mqtt_publish_def)

lemma rest_bound:
  assumes "10 \<notin> set r" and "r @ y = concat (map line_bytes hs) @ q"
    and "\<forall>l \<in> set hs. length l \<le> n" and "length q \<le> n"
  shows "length r \<le> n"
proof (cases hs)
  case Nil
  then have "length r \<le> length q" using assms(2) by (metis append_Nil concat.simps(1) le_add1 length_append list.map(1))
  then show ?thesis using assms(4) by simp
next
  case (Cons l hs')
  have "\<not> length l < length r"
  proof
    assume a: "length l < length r"
    have "(r @ y) ! length l = 10" unfolding assms(2) Cons by (simp add: line_bytes_def nth_append)
    then have "r ! length l = 10" using a by (simp add: nth_append)
    then show False using assms(1) a nth_mem by metis
  qed
  then show ?thesis using assms(3) Cons by simp
qed

lemma mqtt_feed_all_lines:
  assumes "pb_connected p" "pb_client p" and "\<forall>l \<in> set ls. 10 \<notin> set l \<and> length l \<le> MAX_LINE_BUFFER"
    and "10 \<notin> set tail" "length tail \<le> MAX_LINE_BUFFER" and "10 \<notin> set (pb_buf p)"
    and "pb_buf p @ concat chunks = concat (map line_bytes ls) @ tail"
  shows "mqtt_feed_all p chunks = (p\<lparr>pb_buf := tail\<rparr>, line_msgs p ls)"
  using assms
proof (induction chunks arbitrary: p ls)
  case Nil
  have "ls = []"
  proof (cases ls)
    case (Cons l ls')
    then have "10 \<in> set (pb_buf p)" using Nil.prems(7) by (auto simp: line_bytes_def)
    then show ?thesis using Nil.prems(6) by simp
  qed
  with Nil.prems show ?case by (simp add: line_msgs_def)
next
  case (Cons c cs)
  have "(pb_buf p @ c) @ concat cs = concat (map line_bytes ls) @ tail" using Cons.prems(7) by simp
  moreover have "\<forall>a b. tail = a @ b \<longrightarrow> take_line a = Inr None" using Cons.prems(4) by (auto simp: take_line_None)
  ultimately obtain gs hs r where ls: "ls = gs @ hs" and x: "pb_buf p @ c = concat (map line_bytes gs) @ r"
    and r: "10 \<notin> set r" and rest: "r @ concat cs = concat (map line_bytes hs) @ tail"
    using ln.prefix_of_stream [of ls "pb_buf p @ c" "concat cs" tail] Cons.prems(3) by (auto simp: take_line_None)
  have f: "feed take_line (pb_buf p) c = (gs, None, r)"
    using Cons.prems(3) ls x r by (intro feed_lines) auto
  have "length r \<le> MAX_LINE_BUFFER"
    using rest_bound [OF r rest] Cons.prems(3,5) ls by simp
  then have s: "mqtt_feed p c = (p\<lparr>pb_buf := r\<rparr>, line_msgs p gs)"
    using Cons.prems(1,2) f by (simp add: mqtt_feed_def)
  have "mqtt_feed_all (p\<lparr>pb_buf := r\<rparr>) cs = ((p\<lparr>pb_buf := r\<rparr>)\<lparr>pb_buf := tail\<rparr>, line_msgs (p\<lparr>pb_buf := r\<rparr>) hs)"
    using Cons.prems ls r rest by (intro Cons.IH) auto
  then show ?case by (simp add: s ls line_msgs_append)
qed

text \<open>The levels matched by a filter without a multi-level wildcard.\<close>

lemma match_levels_plain:
  "ascii ''#'' \<notin> set ps \<Longrightarrow>
    match_levels ps ts \<longleftrightarrow> list_all2 (\<lambda>p t. p = ascii ''+'' \<or> p = t) ps ts"
  by (induction ps ts rule: match_levels.induct) (auto split: list.splits)

section \<open>Properties\<close>

text \<open>Serial lines are published exactly once and in order whatever the chunking: if the chunks
  concatenate to newline-terminated lines and an unfinished tail (each within the line buffer), the
  published payloads are the lines without trailing carriage returns, empty ones left out, and the tail
  stays buffered.\<close>
lemma mqtt_lines:
  assumes "pb_connected p" and "pb_client p" and "pb_buf p = []"
    and "\<forall>l \<in> set ls. 10 \<notin> set l \<and> length l \<le> MAX_LINE_BUFFER"
    and "10 \<notin> set tail" and "length tail \<le> MAX_LINE_BUFFER"
    and "concat chunks = concat (map line_bytes ls) @ tail"
  shows "mqtt_feed_all p chunks = (p\<lparr>pb_buf := tail\<rparr>,
    map (\<lambda>t. (pb_data_topic p, t, pb_default_qos p, False)) (filter (\<lambda>t. t \<noteq> []) (map line_text ls)))"
proof -
  have "line_msgs p ls = map (\<lambda>t. (pb_data_topic p, t, pb_default_qos p, False)) (filter (\<lambda>t. t \<noteq> []) (map line_text ls))"
    using assms(2) by (induction ls) (auto simp: line_msgs_def mqtt_publish_def)
  then show ?thesis using mqtt_feed_all_lines [of p ls tail chunks] assms by simp
qed

theorem mqtt_lines_witness:
  "let p = \<lparr>pb_client = True, pb_connected = True, pb_buf = [], pb_data_topic = ascii ''t'', pb_status_topic = [],
      pb_default_qos = VInt 0, pb_birth = True, pb_subs = [] :: (str \<times> nat) list\<rparr> in
   mqtt_feed_all p [[65, 13], [10, 10, 66]] = (p\<lparr>pb_buf := [66]\<rparr>,
     map (\<lambda>t. (pb_data_topic p, t, pb_default_qos p, False)) (filter (\<lambda>t. t \<noteq> []) (map line_text [[65, 13], []])))"
  unfolding Let_def
  by (rule mqtt_lines) (simp_all add: MAX_LINE_BUFFER_def line_bytes_def)

text \<open>A device that never sends a newline cannot grow the publisher's memory: after any read the
  buffer is within its limit.\<close>
theorem mqtt_buffer_bounded:
  assumes "length (pb_buf p) \<le> MAX_LINE_BUFFER"
  shows "length (pb_buf (fst (mqtt_feed p data))) \<le> MAX_LINE_BUFFER"
  using assms by (auto simp: mqtt_feed_def MAX_LINE_BUFFER_def split: prod.splits)

theorem mqtt_buffer_bounded_witness:
  "length (pb_buf (fst (mqtt_feed \<lparr>pb_client = True, pb_connected = True, pb_buf = [], pb_data_topic = [], pb_status_topic = [],
      pb_default_qos = VInt 0, pb_birth = True, pb_subs = [] :: (str \<times> nat) list\<rparr> [1, 2, 3]))) \<le> MAX_LINE_BUFFER"
  by (rule mqtt_buffer_bounded) simp

end
