(* ===== verification/App_Config.thy ===== *)
theory App_Config
  imports Config
begin

text \<open>
  The global half of \<open>app/config.py\<close>: directory and single-sign-on settings, cluster and notification
  settings, accounts, the whole configuration with its cross-mapping checks. The existence of a file is the predicate
  \<open>isfile\<close>.
\<close>

section \<open>Directory, single sign-on, cluster, notifications\<close>

record ldap_settings =
  ld_enabled :: bool
  ld_server_uri :: str
  ld_start_tls :: bool
  ld_user_dn_template :: str
  ld_bind_dn :: str
  ld_bind_password :: str
  ld_user_search_base :: str
  ld_user_search_filter :: str
  ld_group_attr :: str
  ld_admin_group :: str
  ld_operator_group :: str
  ld_viewer_group :: str
  ld_default_role :: str

definition validate_ldap :: "ldap_settings \<Rightarrow> config_error + unit" where
  "validate_ldap l =
     (if \<not> ld_enabled l then Inr ()
      else
        rbind (ensure (strip (ld_server_uri l) \<noteq> []) (ConfigError ''LdapNoUri'')) (\<lambda>_.
        rbind (ensure (strip (ld_user_dn_template l) \<noteq> [] \<or>
                 strip (ld_bind_dn l) \<noteq> [] \<and> strip (ld_user_search_base l) \<noteq> []) (ConfigError ''LdapNoBind'')) (\<lambda>_.
        ensure (\<not> (ld_default_role l \<noteq> [] \<and> ld_default_role l \<notin> set ROLES)) (ConfigError ''BadDefaultRole''))))"

record oidc_settings =
  oi_enabled :: bool
  oi_issuer :: str
  oi_client_id :: str
  oi_client_secret :: str
  oi_redirect_uri :: str
  oi_scopes :: str
  oi_username_claim :: str
  oi_groups_claim :: str
  oi_admin_group :: str
  oi_operator_group :: str
  oi_viewer_group :: str
  oi_default_role :: str

definition validate_oidc :: "oidc_settings \<Rightarrow> config_error + unit" where
  "validate_oidc o' =
     (if \<not> oi_enabled o' then Inr ()
      else
        rbind (ensure (strip (oi_issuer o') \<noteq> [] \<and> strip (oi_client_id o') \<noteq> []
                 \<and> strip (oi_client_secret o') \<noteq> []) (ConfigError ''OidcIncomplete'')) (\<lambda>_.
        rbind (ensure (is_prefix_of (ascii ''https://'') (lower_ascii (strip (oi_issuer o')))) (ConfigError ''OidcNotHttps'')) (\<lambda>_.
        ensure (\<not> (oi_default_role o' \<noteq> [] \<and> oi_default_role o' \<notin> set ROLES)) (ConfigError ''BadDefaultRole''))))"

text \<open>\<open>s.split(needle, 1)\<close> when \<open>needle\<close> occurs in \<open>s\<close>.\<close>

fun split_once :: "'a list \<Rightarrow> 'a list \<Rightarrow> ('a list \<times> 'a list) option" where
  "split_once needle [] = (if needle = [] then Some ([], []) else None)"
| "split_once needle (c # cs) =
     (if is_prefix_of needle (c # cs) then Some ([], drop (length needle) (c # cs))
      else map_option (\<lambda>(a, b). (c # a, b)) (split_once needle cs))"

text \<open>\<open>s.rpartition(c)\<close> when \<open>c\<close> occurs in \<open>s\<close>.\<close>

definition rpartition :: "'a \<Rightarrow> 'a list \<Rightarrow> ('a list \<times> 'a list) option" where
  "rpartition c s = (if c \<in> set s
     then Some (rev (tl (dropWhile (\<lambda>x. x \<noteq> c) (rev s))), rev (takeWhile (\<lambda>x. x \<noteq> c) (rev s)))
     else None)"

definition parse_cluster_peer :: "str \<Rightarrow> config_error + (str \<times> str \<times> int)" where
  "parse_cluster_peer entry =
     (let s = strip entry;
          (scheme, rest) = (case split_once (ascii ''://'') s of
             Some (a, b) \<Rightarrow> (lower_ascii a, b) | None \<Rightarrow> (ascii ''http'', s)) in
      rbind (ensure (scheme = ascii ''http'' \<or> scheme = ascii ''https'') (ConfigError ''PeerScheme'')) (\<lambda>_.
      rbind (case rpartition 58 rest of
               Some (host, port_s) \<Rightarrow> if host = [] then Inl (ConfigError ''PeerHostPort'') else Inr (host, port_s)
             | None \<Rightarrow> Inl (ConfigError ''PeerHostPort'')) (\<lambda>(host, port_s).
      rbind (case py_int port_s of None \<Rightarrow> Inl (ConfigError ''PeerPortNumber'') | Some p \<Rightarrow> Inr p) (\<lambda>port.
      rbind (ensure (1 \<le> port \<and> port \<le> 65535) (ConfigError ''PeerPortRange'')) (\<lambda>_.
      Inr (scheme, host, port))))))"

record cluster_settings =
  cl_enabled :: bool
  cl_key :: str
  cl_discovery_port :: pyval
  cl_advertise_ip :: str
  cl_peers :: "str list"

definition cluster_active :: "cluster_settings \<Rightarrow> bool" where
  "cluster_active c \<longleftrightarrow> cl_enabled c \<and> strip (cl_key c) \<noteq> []"

text \<open>\<open>int(self.discovery_port)\<close>.\<close>

definition to_int :: "pyval \<Rightarrow> int option" where
  "to_int v = (case v of
       VInt i \<Rightarrow> Some i | VBool b \<Rightarrow> Some (of_bool b) | VFloat x \<Rightarrow> f64_trunc x
     | VStr s \<Rightarrow> py_int s | _ \<Rightarrow> None)"

definition validate_cluster :: "cluster_settings \<Rightarrow> config_error + unit" where
  "validate_cluster c =
     (if \<not> cl_enabled c then Inr ()
      else
        rbind (ensure (strip (cl_key c) \<noteq> []) (ConfigError ''ClusterNoKey'')) (\<lambda>_.
        rbind (case to_int (cl_discovery_port c) of None \<Rightarrow> Inl (ConfigError ''ClusterPortNumber'') | Some p \<Rightarrow> Inr p) (\<lambda>port.
        rbind (ensure (1 \<le> port \<and> port \<le> 65535) (ConfigError ''ClusterPortRange'')) (\<lambda>_.
        rbind (ensure (\<not> (strip (cl_advertise_ip c) \<noteq> [] \<and> ip_address (strip (cl_advertise_ip c)) = None)) (ConfigError ''ClusterBadIp'')) (\<lambda>_.
        rfold (\<lambda>_ e. rbind (parse_cluster_peer e) (\<lambda>_. Inr ())) () (cl_peers c))))))"

record notification_settings =
  nt_enabled :: bool
  nt_events :: "str list"
  nt_repeat_s :: pyval
  nt_webhook_url :: str
  nt_webhook_format :: str
  nt_telegram_chat_id :: str
  nt_email_to :: str
  nt_email_from :: str
  nt_smtp_host :: str
  nt_smtp_port :: pyval
  nt_smtp_security :: str
  nt_smtp_username :: str
  nt_smtp_password :: str

definition recipients :: "notification_settings \<Rightarrow> str list" where
  "recipients n = filter (\<lambda>a. a \<noteq> [])
     (map strip (split_on 44 (map (\<lambda>c. if c = 59 then 44 else c) (nt_email_to n))))"

definition validate_webhook :: "notification_settings \<Rightarrow> config_error + unit" where
  "validate_webhook n =
     (let url = strip (nt_webhook_url n) in
      if url = [] then Inr ()
      else
        rbind (ensure (is_prefix_of (ascii ''https://'') (lower_ascii url)
                 \<or> is_prefix_of (ascii ''http://'') (lower_ascii url)) (ConfigError ''NotifyBadUrl'')) (\<lambda>_.
        rbind (ensure (nt_webhook_format n \<in> set WEBHOOK_FORMATS) (ConfigError ''NotifyBadFormat'')) (\<lambda>_.
        ensure (\<not> (nt_webhook_format n = ascii ''telegram'' \<and> strip (nt_telegram_chat_id n) = [])) (ConfigError ''NotifyNoChat''))))"

definition validate_email :: "notification_settings \<Rightarrow> config_error + unit" where
  "validate_email n =
     (if recipients n = [] then Inr ()
      else
        rbind (ensure (strip (nt_smtp_host n) \<noteq> []) (ConfigError ''NotifyNoSmtp'')) (\<lambda>_.
        rbind (ensure (is_int (nt_smtp_port n) \<and> between 1 (nt_smtp_port n) 65535) (ConfigError ''NotifySmtpPort'')) (\<lambda>_.
        rbind (ensure (nt_smtp_security n \<in> set SMTP_SECURITY) (ConfigError ''NotifySmtpSecurity'')) (\<lambda>_.
        ensure (list_all (\<lambda>a. 64 \<in> set a) (recipients n)) (ConfigError ''NotifyBadRecipient'')))))"

definition validate_notifications :: "notification_settings \<Rightarrow> config_error + unit" where
  "validate_notifications n =
     (if \<not> nt_enabled n then Inr ()
      else
        rbind (ensure (strip (nt_webhook_url n) \<noteq> [] \<or> recipients n \<noteq> []) (ConfigError ''NotifyNoTarget'')) (\<lambda>_.
        rbind (validate_webhook n) (\<lambda>_.
        rbind (validate_email n) (\<lambda>_.
        ensure (is_int (nt_repeat_s n) \<and> between 0 (nt_repeat_s n) 86400) (ConfigError ''NotifyBadRepeat'')))))"

section \<open>Accounts\<close>

record user =
  us_username :: str
  us_password_hash :: str
  us_role :: str
  us_pwd_version :: int
  us_source :: str

text \<open>\<open>User.from_dict\<close> after the fields are read: an unknown role becomes the weakest one.\<close>

definition normalize_user :: "user \<Rightarrow> user" where
  "normalize_user u =
     (let u1 = (if us_role u \<notin> set ROLES then u\<lparr>us_role := ascii ''viewer''\<rparr> else u) in
      if us_source u1 \<notin> set [ascii ''local'', ascii ''ldap'', ascii ''oidc'']
      then u1\<lparr>us_source := ascii ''local''\<rparr> else u1)"

record admin_ui =
  ui_bind_ip :: str
  ui_port :: int
  ui_tls_cert :: str
  ui_tls_key :: str
  ui_require_login :: bool
  ui_anonymous_role :: str
  ui_language :: str

definition tls_enabled :: "admin_ui \<Rightarrow> bool" where
  "tls_enabled u \<longleftrightarrow> ui_tls_cert u \<noteq> [] \<and> ui_tls_key u \<noteq> []"

record app_config =
  ac_version :: int
  ac_admin_ui :: admin_ui
  ac_secret_key :: str
  ac_api_token_hash :: str
  ac_api_token_role :: str
  ac_session_timeout_s :: pyval
  ac_users :: "user list"
  ac_ldap :: ldap_settings
  ac_oidc :: oidc_settings
  ac_cluster :: cluster_settings
  ac_notifications :: notification_settings
  ac_instance_id :: str
  ac_mappings :: "mapping_config list"

definition get_user :: "app_config \<Rightarrow> str \<Rightarrow> user option" where
  "get_user c name = find (\<lambda>u. us_username u = name) (ac_users c)"

definition admin_count :: "app_config \<Rightarrow> nat" where
  "admin_count c = length (filter (\<lambda>u. us_role u = ascii ''admin'') (ac_users c))"

definition get_mapping :: "app_config \<Rightarrow> str \<Rightarrow> mapping_config option" where
  "get_mapping c mid = find (\<lambda>m. mc_id m = mid) (ac_mappings c)"

text \<open>The account object is updated in place: the first one with that name.\<close>

fun update_first :: "('a \<Rightarrow> bool) \<Rightarrow> ('a \<Rightarrow> 'a) \<Rightarrow> 'a list \<Rightarrow> 'a list" where
  "update_first p f [] = []"
| "update_first p f (x # xs) = (if p x then f x # xs else x # update_first p f xs)"

definition refresh_external :: "str \<Rightarrow> str \<Rightarrow> user \<Rightarrow> user" where
  "refresh_external role source u =
     (if us_role u \<noteq> role \<or> us_source u \<noteq> source
      then u\<lparr>us_role := role, us_source := source, us_pwd_version := us_pwd_version u + 1\<rparr> else u)"

definition upsert_external_user :: "app_config \<Rightarrow> str \<Rightarrow> str \<Rightarrow> str \<Rightarrow> app_config \<times> user" where
  "upsert_external_user c name role source =
     (case get_user c name of
        None \<Rightarrow>
          (let u = \<lparr>us_username = name, us_password_hash = [], us_role = role, us_pwd_version = 1, us_source = source\<rparr>
           in (c\<lparr>ac_users := ac_users c @ [u]\<rparr>, u))
      | Some u \<Rightarrow>
          (c\<lparr>ac_users := update_first (\<lambda>v. us_username v = name) (refresh_external role source) (ac_users c)\<rparr>,
           refresh_external role source u))"

section \<open>Validation of the whole configuration\<close>

definition ip_overlaps :: "str \<Rightarrow> str \<Rightarrow> bool" where
  "ip_overlaps a b \<longleftrightarrow> a = b \<or> a \<in> set [ascii ''0.0.0.0'', ascii ''::''] \<or> b \<in> set [ascii ''0.0.0.0'', ascii ''::'']"

text \<open>The literal devices a mapping opens.\<close>

definition mapping_devices :: "mapping_config \<Rightarrow> str list" where
  "mapping_devices m =
     (if ss_port (mc_serial m) \<noteq> [] \<and> ss_match (mc_serial m) = [] then [ss_port (mc_serial m)] else []) @
     (if mc_kind m = ascii ''serialbridge'' \<and> ss_port (mc_serial_b m) \<noteq> [] \<and> ss_match (mc_serial_b m) = []
      then [ss_port (mc_serial_b m)] else [])"

text \<open>The loop over \<open>devices\<close>; the dictionary \<open>serial_owner\<close> maps a device to the mapping that has it.\<close>

definition claim_device :: "mapping_config \<Rightarrow> (str \<Rightarrow> str option) \<Rightarrow> str \<Rightarrow> config_error + (str \<Rightarrow> str option)" where
  "claim_device m owner dev =
     (case owner dev of
        Some prev \<Rightarrow> if prev \<noteq> mc_id m then Inl (ConfigError ''SerialShared'') else Inr (owner(dev \<mapsto> mc_id m))
      | None \<Rightarrow> Inr (owner(dev \<mapsto> mc_id m)))"

definition transport :: "mapping_config \<Rightarrow> str" where
  "transport m = (if ns_mode (mc_network m) = ascii ''udp'' then ascii ''udp'' else ascii ''tcp'')"

definition binds_port :: "mapping_config \<Rightarrow> bool" where
  "binds_port m \<longleftrightarrow> mc_kind m = ascii ''net'' \<and> listens (mc_network m)"

text \<open>A key of the dictionary \<open>seen\<close>. Its names are only used in the message.\<close>

type_synonym bind_key = "str \<times> str \<times> pyval"

definition clashes :: "mapping_config \<Rightarrow> bind_key \<Rightarrow> bool" where
  "clashes m k = (case k of (sproto, bip, bport) \<Rightarrow>
     sproto = transport m \<and> py_eq bport (ns_port (mc_network m)) \<and> ip_overlaps bip (ns_bind_ip (mc_network m)))"

definition validate_one :: "(str \<Rightarrow> bool) \<Rightarrow> (str \<Rightarrow> str option) \<times> bind_key list \<Rightarrow> mapping_config \<Rightarrow>
    config_error + ((str \<Rightarrow> str option) \<times> bind_key list)" where
  "validate_one isfile st m =
     (let (owner, seen) = st in
      rbind (validate_mapping isfile m) (\<lambda>_.
      rbind (if mc_enabled m then rfold (claim_device m) owner (mapping_devices m) else Inr owner) (\<lambda>owner'.
      if \<not> binds_port m then Inr (owner', seen)
      else rbind (ensure (\<not> list_ex (clashes m) seen) (ConfigError ''PortClash'')) (\<lambda>_.
           Inr (owner', seen @ [(transport m, ns_bind_ip (mc_network m), ns_port (mc_network m))])))))"

definition validate_admin :: "(str \<Rightarrow> bool) \<Rightarrow> app_config \<Rightarrow> config_error + unit" where
  "validate_admin isfile c =
     (let u = ac_admin_ui c; cert = ui_tls_cert u; key = ui_tls_key u in
      rbind (ensure ((cert \<noteq> []) = (key \<noteq> [])) (ConfigError ''AdminTlsPair'')) (\<lambda>_.
      rbind (rfold (\<lambda>_ p. ensure (isfile p) (ConfigError ''AdminTlsMissing'')) () (filter (\<lambda>p. p \<noteq> []) [cert, key])) (\<lambda>_.
      rbind (ensure (\<not> (ui_bind_ip u \<noteq> [] \<and> ip_address (ui_bind_ip u) = None)) (ConfigError ''AdminBadIp'')) (\<lambda>_.
      rbind (ensure (ui_language u \<in> set UI_LANGUAGES) (ConfigError ''BadLanguage'')) (\<lambda>_.
      rbind (ensure (ui_anonymous_role u \<in> set ROLES) (ConfigError ''BadAnonymousRole'')) (\<lambda>_.
      ensure (is_int (ac_session_timeout_s c) \<and>
        between SESSION_TIMEOUT_MIN_S (ac_session_timeout_s c) SESSION_TIMEOUT_MAX_S) (ConfigError ''BadSessionTimeout'')))))))"

definition validate_app :: "(str \<Rightarrow> bool) \<Rightarrow> app_config \<Rightarrow> config_error + unit" where
  "validate_app isfile c =
     rbind (validate_admin isfile c) (\<lambda>_.
     rbind (validate_ldap (ac_ldap c)) (\<lambda>_.
     rbind (validate_oidc (ac_oidc c)) (\<lambda>_.
     rbind (validate_cluster (ac_cluster c)) (\<lambda>_.
     rbind (validate_notifications (ac_notifications c)) (\<lambda>_.
     rbind (rfold (validate_one isfile) (Map.empty, []) (ac_mappings c)) (\<lambda>_. Inr ()))))))"

section \<open>Lemmas: cross-mapping checks\<close>

definition bind_key_of :: "mapping_config \<Rightarrow> bind_key" where
  "bind_key_of m = (transport m, ns_bind_ip (mc_network m), ns_port (mc_network m))"

text \<open>Two mappings that can run side by side: the later one neither binds the port nor opens a device of
  the earlier one.\<close>

definition no_port_clash :: "mapping_config \<Rightarrow> mapping_config \<Rightarrow> bool" where
  "no_port_clash a b \<longleftrightarrow> (binds_port a \<and> binds_port b \<longrightarrow> \<not> clashes b (bind_key_of a))"

definition no_device_clash :: "mapping_config \<Rightarrow> mapping_config \<Rightarrow> bool" where
  "no_device_clash a b \<longleftrightarrow> (mc_enabled a \<and> mc_enabled b \<and> mc_id a \<noteq> mc_id b \<longrightarrow>
     set (mapping_devices a) \<inter> set (mapping_devices b) = {})"

lemma claim_devices:
  "rfold (claim_device m) owner devs = Inr owner' \<Longrightarrow>
     (\<forall>d \<in> set devs. \<forall>i. owner d = Some i \<longrightarrow> i = mc_id m) \<and>
     (\<forall>d. owner' d = (if d \<in> set devs then Some (mc_id m) else owner d))"
proof (induction devs arbitrary: owner)
  case Nil
  then show ?case by simp
next
  case (Cons d devs)
  then obtain owner1 where o1: "claim_device m owner d = Inr owner1" "rfold (claim_device m) owner1 devs = Inr owner'"
    by (auto simp: rbind_eq_Inr)
  then have e: "owner1 = owner(d \<mapsto> mc_id m)" "\<forall>i. owner d = Some i \<longrightarrow> i = mc_id m"
    by (auto simp: claim_device_def split: option.splits if_splits)
  show ?case using Cons.IH [OF o1(2)] e by (auto split: if_splits)
qed

lemma validate_one_cases:
  assumes "validate_one isfile (owner, seen) m = Inr (owner', seen')"
  shows "validate_mapping isfile m = Inr ()"
    and "mc_enabled m \<Longrightarrow> d \<in> set (mapping_devices m) \<Longrightarrow> owner d = Some i \<Longrightarrow> i = mc_id m"
    and "owner' d = (if mc_enabled m \<and> d \<in> set (mapping_devices m) then Some (mc_id m) else owner d)"
    and "seen' = seen @ (if binds_port m then [bind_key_of m] else [])"
    and "binds_port m \<Longrightarrow> \<not> list_ex (clashes m) seen"
proof -
  from assms obtain o1 where v: "validate_mapping isfile m = Inr ()"
    and o1: "(if mc_enabled m then rfold (claim_device m) owner (mapping_devices m) else Inr owner) = Inr o1"
    and r: "o1 = owner'" "seen' = seen @ (if binds_port m then [bind_key_of m] else [])"
      "binds_port m \<Longrightarrow> \<not> list_ex (clashes m) seen"
    by (auto simp: validate_one_def rbind_eq_Inr bind_key_of_def split: if_splits)
  show "validate_mapping isfile m = Inr ()" "seen' = seen @ (if binds_port m then [bind_key_of m] else [])"
    "binds_port m \<Longrightarrow> \<not> list_ex (clashes m) seen"
    by (fact v r)+
  show "owner' d = (if mc_enabled m \<and> d \<in> set (mapping_devices m) then Some (mc_id m) else owner d)"
    using o1 r(1) claim_devices [of m owner "mapping_devices m" o1] by (auto split: if_splits)
  show "mc_enabled m \<Longrightarrow> d \<in> set (mapping_devices m) \<Longrightarrow> owner d = Some i \<Longrightarrow> i = mc_id m"
    using o1 claim_devices [of m owner "mapping_devices m" o1] by (auto split: if_splits)
qed

lemma validate_loop:
  assumes "rfold (validate_one isfile) (owner, seen) ms = Inr st"
  shows "(\<forall>m \<in> set ms. validate_mapping isfile m = Inr ()) \<and>
    (\<forall>m \<in> set ms. binds_port m \<longrightarrow> \<not> list_ex (clashes m) seen) \<and>
    (\<forall>m \<in> set ms. mc_enabled m \<longrightarrow> (\<forall>d \<in> set (mapping_devices m). \<forall>i. owner d = Some i \<longrightarrow> i = mc_id m)) \<and>
    sorted_wrt no_port_clash ms \<and> sorted_wrt no_device_clash ms"
  using assms
proof (induction ms arbitrary: owner seen)
  case Nil
  then show ?case by simp
next
  case (Cons m ms)
  then obtain o1 s1 where s1: "validate_one isfile (owner, seen) m = Inr (o1, s1)"
    "rfold (validate_one isfile) (o1, s1) ms = Inr st"
    by (auto simp: rbind_eq_Inr)
  note c = validate_one_cases [OF s1(1)] and ih = Cons.IH [OF s1(2)]
  have "no_port_clash m n" if "n \<in> set ms" for n
    using ih that c(4) by (auto simp: no_port_clash_def)
  moreover have "no_device_clash m n" if n: "n \<in> set ms" for n
    unfolding no_device_clash_def
  proof (intro impI, rule ccontr)
    assume a: "mc_enabled m \<and> mc_enabled n \<and> mc_id m \<noteq> mc_id n"
      and "set (mapping_devices m) \<inter> set (mapping_devices n) \<noteq> {}"
    then obtain d where d: "d \<in> set (mapping_devices m)" "d \<in> set (mapping_devices n)" by blast
    then have "o1 d = Some (mc_id m)" using c(3) a by simp
    then show False using ih n a d by blast
  qed
  moreover have "\<forall>n \<in> set ms. mc_enabled n \<longrightarrow> (\<forall>d \<in> set (mapping_devices n). \<forall>i. owner d = Some i \<longrightarrow> i = mc_id n)"
  proof (intro ballI impI allI)
    fix n d i assume n: "n \<in> set ms" "mc_enabled n" "d \<in> set (mapping_devices n)" "owner d = Some i"
    show "i = mc_id n"
    proof (cases "mc_enabled m \<and> d \<in> set (mapping_devices m)")
      case True
      then have "i = mc_id m" "o1 d = Some (mc_id m)" using c(2,3) n(4) by auto
      then show ?thesis using ih n by blast
    next
      case False
      then have "o1 d = Some i" using c(3) [of d] n(4) by auto
      then show ?thesis using ih n by blast
    qed
  qed
  moreover have "\<forall>n \<in> set ms. binds_port n \<longrightarrow> \<not> list_ex (clashes n) seen"
    using ih c(4) by auto
  ultimately show ?case using ih c(1,2,5) by auto
qed

lemma validate_app_loop:
  assumes "validate_app isfile c = Inr ()"
  shows "\<exists>st. rfold (validate_one isfile) (Map.empty, []) (ac_mappings c) = Inr st"
  using assms unfolding validate_app_def rbind_eq_Inr by blast

section \<open>Lemmas: stored values\<close>

lemma legacy_seconds_valid: "is_number (legacy_seconds v) \<and> between 0 (legacy_seconds v) MAX_TIMER_S"
proof -
  define clamp where "clamp w = (if \<not> is_number w \<or> (case w of VFloat x \<Rightarrow> \<not> f64_isfinite x | _ \<Rightarrow> False)
      \<or> \<not> num_ge_int w 0 then VInt 0 else if num_le_int w MAX_TIMER_S then w else VInt MAX_TIMER_S)" for w
  have c: "is_number (clamp w) \<and> between 0 (clamp w) MAX_TIMER_S" for w
    by (auto simp: clamp_def between_def is_number_def MAX_TIMER_S_def)
  have "legacy_seconds v = VInt 0 \<or> (\<exists>w. legacy_seconds v = clamp w)"
    unfolding legacy_seconds_def Let_def clamp_def [abs_def, symmetric]
    by (cases v) (auto split: option.splits)
  then show ?thesis using c by (auto simp: between_def is_number_def MAX_TIMER_S_def)
qed

lemma session_timeout_range:
  "SESSION_TIMEOUT_MIN_S \<le> session_timeout v \<and> session_timeout v \<le> SESSION_TIMEOUT_MAX_S"
  by (auto simp: session_timeout_def SESSION_TIMEOUT_MIN_S_def SESSION_TIMEOUT_MAX_S_def
      SESSION_TIMEOUT_DEFAULT_S_def split: option.splits)

section \<open>Lemmas: trace file names\<close>

lemma set_sub_bad_runs:
  "c \<in> set (sub_bad_runs isword r s) \<Longrightarrow> c = 95 \<or> c = 46 \<or> c = 45 \<or> isword c"
  by (induction isword r s rule: sub_bad_runs.induct) (auto split: if_splits)

lemma set_rstrip: "set (rstrip_of p s) \<subseteq> set s" and set_lstrip: "set (lstrip_of p s) \<subseteq> set s"
  unfolding rstrip_of_def lstrip_of_def using set_dropWhileD by fastforce+

lemma rstrip_last: "rstrip_of p s \<noteq> [] \<Longrightarrow> \<not> p (last (rstrip_of p s))"
  unfolding rstrip_of_def by (simp add: last_rev hd_dropWhile)

lemma trace_file_name_chars:
  assumes "c \<in> set (trace_file_name isword v)"
  shows "c = 95 \<or> c = 46 \<or> c = 45 \<or> isword c \<or> c \<in> set TRACE_DEFAULT_NAME"
proof -
  let ?n = "sub_bad_runs isword False (last_component (strip v))"
  have "set (rstrip_of dot_or_space (take 80 (rstrip_of dot_or_space (lstrip_of dot_or_space ?n)))) \<subseteq> set ?n"
    using set_rstrip set_lstrip set_take_subset by fastforce
  then show ?thesis
    using assms set_sub_bad_runs [of c isword False "last_component (strip v)"]
    by (auto simp: trace_file_name_def Let_def split: if_splits)
qed

lemma trace_file_name_end:
  assumes "trace_file_name isword v \<noteq> []"
  shows "last (trace_file_name isword v) \<noteq> 46" and "length (trace_file_name isword v) \<le> 80"
proof -
  let ?t = "take 80 (rstrip_of dot_or_space (lstrip_of dot_or_space
      (sub_bad_runs isword False (last_component (strip v)))))"
  have n: "trace_file_name isword v = (if rstrip_of dot_or_space ?t = [] then TRACE_DEFAULT_NAME
      else rstrip_of dot_or_space ?t)"
    using assms by (simp add: trace_file_name_def Let_def split: if_splits)
  have "length (rstrip_of dot_or_space ?t) \<le> length ?t"
    by (metis length_rev length_dropWhile_le rstrip_of_def)
  then show "length (trace_file_name isword v) \<le> 80"
    unfolding n by (auto simp: TRACE_DEFAULT_NAME_def)
  show "last (trace_file_name isword v) \<noteq> 46"
    unfolding n using rstrip_last [of dot_or_space ?t]
    by (auto simp: TRACE_DEFAULT_NAME_def ascii_def dot_or_space_def)
qed


section \<open>Lemmas: cluster peers\<close>

lemma split_once_append:
  assumes "\<not> contains_sub needle (a @ butlast needle)" "needle \<noteq> []"
  shows "split_once needle (a @ needle @ b) = Some (a, b)"
  using assms
proof (induction a)
  case Nil
  then show ?case by (cases needle) (simp_all add: is_prefix_of_def)
next
  case (Cons c a)
  have "\<not> is_prefix_of needle (c # a @ needle @ b)"
  proof
    assume "is_prefix_of needle (c # a @ needle @ b)"
    then have "take (length needle) (c # a @ needle @ b) = needle" by (simp add: is_prefix_of_def)
    moreover have "length needle \<le> length (c # a @ butlast needle)" using Cons.prems(2) by (cases needle) simp_all
    moreover have "c # a @ needle @ b = (c # a @ butlast needle) @ [last needle] @ b"
      using Cons.prems(2) by simp
    ultimately have "take (length needle) (c # a @ butlast needle) = needle"
      by (simp only: take_append diff_is_0_eq' take_0 append_Nil2)
    then have "is_prefix_of needle (c # a @ butlast needle)" by (simp add: is_prefix_of_def)
    then show False using Cons.prems(1) by simp
  qed
  moreover have "\<not> contains_sub needle (a @ butlast needle)" using Cons.prems(1) by simp
  ultimately show ?case using Cons.IH Cons.prems(2) by simp
qed

lemma rpartition_append: "c \<notin> set b \<Longrightarrow> rpartition c (a @ c # b) = Some (a, b)"
  by (auto simp: rpartition_def takeWhile_append dropWhile_append)

lemma strip_digits: "\<lbrakk>s \<noteq> []; \<not> py_isspace (hd s); \<not> py_isspace (last s)\<rbrakk> \<Longrightarrow> strip s = s"
proof -
  assume a: "s \<noteq> []" "\<not> py_isspace (hd s)" "\<not> py_isspace (last s)"
  have "dropWhile py_isspace s = s" using a by (cases s) simp_all
  moreover have "dropWhile py_isspace (rev s) = rev s" using a by (cases s rule: rev_cases) simp_all
  ultimately show "strip s = s" by (simp add: strip_def rstrip_of_def lstrip_of_def)
qed

lemma py_int_dec: "py_int (dec_digits n) = Some (int n)"
proof -
  have d: "48 \<le> c \<and> c \<le> 57" if "c \<in> set (dec_digits n)" for c using dec_digits_ascii that .
  have "\<not> py_isspace c" if "c \<in> set (dec_digits n)" for c
    using d [OF that] by (auto simp: py_isspace_def)
  then have "strip (dec_digits n) = dec_digits n"
    by (intro strip_digits) simp_all
  moreover have "split_sign (dec_digits n) = (False, dec_digits n)"
    using d by (cases "dec_digits n") force+
  ultimately show ?thesis by (simp add: py_int_def digits_us_dec)
qed


lemma parse_peer_url:
  assumes "scheme \<in> {ascii ''http'', ascii ''https''}" and "host \<noteq> []" and "1 \<le> port" and "port \<le> 65535"
  shows "parse_cluster_peer (scheme @ ascii ''://'' @ host @ 58 # dec_digits port) = Inr (scheme, host, int port)"
proof -
  let ?e = "scheme @ ascii ''://'' @ host @ 58 # dec_digits port"
  have "\<not> py_isspace (last ?e)"
    using dec_digits_ascii [of "last (dec_digits port)" port] by (auto simp: py_isspace_def)
  moreover have "?e \<noteq> []" "\<not> py_isspace (hd ?e)"
    using assms(1) by (auto simp: py_isspace_def ascii_def)
  ultimately have st: "strip ?e = ?e" by (rule strip_digits [rotated 2])
  have so: "split_once (ascii ''://'') ?e = Some (scheme, host @ 58 # dec_digits port)"
    using assms(1) by (intro split_once_append) (auto simp: ascii_def is_prefix_of_def)
  have "rpartition 58 (host @ 58 # dec_digits port) = Some (host, dec_digits port)"
    by (rule rpartition_append) (auto dest: dec_digits_ascii)
  moreover have "lower_ascii scheme = scheme"
    using assms(1) by (auto simp: lower_ascii_def ascii_def)
  ultimately show ?thesis
    using assms by (auto simp: parse_cluster_peer_def st so Let_def py_int_dec)
qed

section \<open>Lemmas: accounts\<close>

lemma find_update_first:
  assumes "\<And>x. p x \<Longrightarrow> p (f x)"
  shows "find p (update_first p f xs) = map_option f (find p xs)"
  using assms by (induction xs) auto

lemma find_update_other:
  assumes "\<And>x. q x \<Longrightarrow> \<not> p x" and "\<And>x. p x \<Longrightarrow> p (f x)"
  shows "find q (update_first p f xs) = find q xs"
  using assms by (induction xs) auto

lemma find_append: "find p (xs @ ys) = (case find p xs of Some x \<Rightarrow> Some x | None \<Rightarrow> find p ys)"
  by (induction xs) auto

section \<open>Properties\<close>


text \<open>A configuration with a raw TCP mapping and a serial bridge.\<close>

definition sample_serial :: "string \<Rightarrow> serial_settings" where
  "sample_serial port = \<lparr>ss_port = ascii port, ss_match = [], ss_baudrate = VInt 9600, ss_bytesize = VInt 8,
     ss_parity = ascii ''N'', ss_stopbits = VInt 1, ss_flowcontrol = ascii ''none'', ss_rts_on_open = ascii ''keep'',
     ss_dtr_on_open = ascii ''keep'', ss_exclusive = True, ss_rs485_enabled = False, ss_rs485_delay_before_tx_ms = 0,
     ss_rs485_delay_after_tx_ms = 0, ss_rs485_rts_level_for_tx = True, ss_hangup_when_done = False,
     ss_nobreak = False\<rparr>"

definition sample_network :: network_settings where
  "sample_network = \<lparr>ns_mode = ascii ''server'', ns_protocol = ascii ''raw'', ns_bind_ip = ascii ''0.0.0.0'',
     ns_port = VInt 4001, ns_remote_host = [], ns_remote_port = VInt 0, ns_max_connections = VInt 1,
     ns_kick_old_user = False, ns_allowed_client_ips = [ascii ''10.0.0.0/8''], ns_priority_client_ips = [],
     ns_read_only = False, ns_client_queue_max = VInt 2048, ns_tcp_keepalive = True, ns_keepalive_idle_s = VInt 60,
     ns_keepalive_interval_s = VInt 10, ns_keepalive_count = VInt 3, ns_connect_timeout_s = VInt 10,
     ns_tls = False, ns_tls_cert = [], ns_tls_key = []\<rparr>"

definition sample_mapping :: "string \<Rightarrow> string \<Rightarrow> string \<Rightarrow> mapping_config" where
  "sample_mapping name kind port = \<lparr>mc_id = ascii name, mc_name = ascii name, mc_enabled = True, mc_kind = ascii kind,
     mc_serial = sample_serial port, mc_serial_b = sample_serial ''/dev/ttyS9'', mc_network = sample_network,
     mc_options = \<lparr>mo_banner = [], mo_openstr = [], mo_closestr = [], mo_closeon = [], mo_idle_timeout_s = VInt 0,
       mo_max_connection_time_s = VInt 0, mo_trace_both = [], mo_trace_hexdump = False, mo_trace_timestamp = True,
       mo_trace_max_mb = VInt 10, mo_trace_keep = VInt 3, mo_rfc2217_poll_modem_interval_s = f64_one,
       mo_rfc2217_net_timeout_s = f64_one, mo_modbus_response_timeout_s = f64_one\<rparr>,
     mc_mqtt = \<lparr>mq_enabled = False, mq_host = [], mq_port = VInt 1883, mq_base_topic = [], mq_qos = VInt 0, mq_tls = False,
       mq_username = [], mq_password = [], mq_client_id = [],
       mq_payload_format = ascii ''plain'', mq_group_id = ascii ''ser2net'', mq_node_id = []\<rparr>,
     mc_poll = \<lparr>poll_interval_s = 0x4014000000000000, poll_points = []\<rparr>\<rparr>"

definition sample_config :: app_config where
  "sample_config = \<lparr>ac_version = 1,
     ac_admin_ui = \<lparr>ui_bind_ip = ascii ''127.0.0.1'', ui_port = 8080, ui_tls_cert = [], ui_tls_key = [],
       ui_require_login = True, ui_anonymous_role = ascii ''viewer'', ui_language = ascii ''auto''\<rparr>,
     ac_secret_key = ascii ''k'', ac_api_token_hash = [], ac_api_token_role = ascii ''admin'',
     ac_session_timeout_s = VInt 28800, ac_users = [],
     ac_ldap = \<lparr>ld_enabled = False, ld_server_uri = [], ld_start_tls = False, ld_user_dn_template = [], ld_bind_dn = [], ld_bind_password = [],
       ld_user_search_base = [], ld_user_search_filter = [],
       ld_group_attr = ascii ''memberOf'', ld_admin_group = [], ld_operator_group = [], ld_viewer_group = [], ld_default_role = []\<rparr>,
     ac_oidc = \<lparr>oi_enabled = False, oi_issuer = [], oi_client_id = [], oi_client_secret = [],
       oi_redirect_uri = [], oi_scopes = [], oi_username_claim = [], oi_groups_claim = [], oi_admin_group = [],
       oi_operator_group = [], oi_viewer_group = [], oi_default_role = []\<rparr>,
     ac_cluster = \<lparr>cl_enabled = False, cl_key = [], cl_discovery_port = VInt 41750, cl_advertise_ip = [], cl_peers = []\<rparr>,
     ac_notifications = \<lparr>nt_enabled = False, nt_events = [], nt_repeat_s = VInt 300, nt_webhook_url = [],
       nt_webhook_format = ascii ''json'', nt_telegram_chat_id = [], nt_email_to = [], nt_email_from = [], nt_smtp_host = [],
       nt_smtp_port = VInt 587, nt_smtp_security = ascii ''starttls'',
       nt_smtp_username = [], nt_smtp_password = []\<rparr>,
     ac_instance_id = ascii ''i'',
     ac_mappings = [sample_mapping ''a'' ''net'' ''COM1'', sample_mapping ''b'' ''serialbridge'' ''COM2'']\<rparr>"


text \<open>Whatever a configuration file holds for the session lifetime and the idle timer, the value
  taken over is in the range that validation accepts.\<close>
theorem stored_timers_valid:
  "is_int (VInt (session_timeout v)) \<and>
   between SESSION_TIMEOUT_MIN_S (VInt (session_timeout v)) SESSION_TIMEOUT_MAX_S \<and>
   is_number (legacy_seconds w) \<and> between 0 (legacy_seconds w) MAX_TIMER_S"
  using session_timeout_range [of v] legacy_seconds_valid [of w] by (simp add: is_int_def between_def)

text \<open>A configured trace name can only name a file inside the traces folder: it has no path
  separator, is not a dot name, does not end in a dot and has at most 80 characters.\<close>
theorem trace_file_name_safe:
  assumes "\<not> isword 47" and "\<not> isword 92"
  shows "47 \<notin> set (trace_file_name isword v) \<and> 92 \<notin> set (trace_file_name isword v) \<and>
    length (trace_file_name isword v) \<le> 80 \<and>
    (trace_file_name isword v \<noteq> [] \<longrightarrow> last (trace_file_name isword v) \<noteq> 46) \<and>
    (trace_file_name isword v = [] \<longleftrightarrow> strip v = [])"
proof -
  have c: "47 \<notin> set (trace_file_name isword v)" "92 \<notin> set (trace_file_name isword v)"
    using trace_file_name_chars [of 47 isword v] trace_file_name_chars [of 92 isword v] assms
    by (auto simp: TRACE_DEFAULT_NAME_def ascii_def)
  have "trace_file_name isword v = [] \<longleftrightarrow> strip v = []"
    by (simp add: trace_file_name_def Let_def TRACE_DEFAULT_NAME_def)
  then show ?thesis using c trace_file_name_end [of isword v] by fastforce
qed

theorem trace_file_name_safe_witness:
  "let isword = (\<lambda>c. 48 \<le> c \<and> c \<le> 57 \<or> 97 \<le> c \<and> c \<le> 122); v = ascii ''../../etc/passwd'' in
    47 \<notin> set (trace_file_name isword v) \<and> 92 \<notin> set (trace_file_name isword v) \<and>
    length (trace_file_name isword v) \<le> 80 \<and>
    (trace_file_name isword v \<noteq> [] \<longrightarrow> last (trace_file_name isword v) \<noteq> 46) \<and>
    (trace_file_name isword v = [] \<longleftrightarrow> strip v = [])"
  unfolding Let_def by (rule trace_file_name_safe) simp_all

text \<open>A manual cluster peer written as a URL, for any host (an IPv6 literal with colons included) and any
  port, is parsed into exactly its scheme, host and port.\<close>
theorem cluster_peer_roundtrip:
  assumes "scheme \<in> {ascii ''http'', ascii ''https''}" and "host \<noteq> []" and "1 \<le> port" and "port \<le> 65535"
  shows "parse_cluster_peer (scheme @ ascii ''://'' @ host @ 58 # dec_digits port) = Inr (scheme, host, int port)"
  using assms by (rule parse_peer_url)

theorem cluster_peer_roundtrip_witness:
  "parse_cluster_peer (ascii ''https'' @ ascii ''://'' @ ascii ''[::1]'' @ 58 # dec_digits 8443)
    = Inr (ascii ''https'', ascii ''[::1]'', int 8443)"
  by (rule cluster_peer_roundtrip) simp_all

text \<open>A sign-in through an external directory gives the account the role and source the directory
  reported, revokes its sessions (a new \<open>pwd_version\<close>) exactly when one of them changed, and leaves
  every other account alone.\<close>
theorem upsert_external_user_spec:
  assumes "upsert_external_user c name role source = (c', u)"
  shows "get_user c' name = Some u \<and> us_username u = name \<and> us_role u = role \<and> us_source u = source \<and>
    us_pwd_version u = (case get_user c name of None \<Rightarrow> 1
      | Some v \<Rightarrow> us_pwd_version v + (if us_role v = role \<and> us_source v = source then 0 else 1)) \<and>
    (\<forall>other. other \<noteq> name \<longrightarrow> get_user c' other = get_user c other)"
proof (cases "get_user c name")
  case None
  then show ?thesis
    using assms by (auto simp: upsert_external_user_def get_user_def find_append Let_def split: option.splits)
next
  case (Some v)
  have n: "us_username v = name" using Some by (auto simp: get_user_def find_Some_iff)
  have r: "us_username (refresh_external role source x) = us_username x" for x
    by (simp add: refresh_external_def)
  have "get_user c' name = Some u"
    using assms Some find_update_first [of "\<lambda>v. us_username v = name" "refresh_external role source" "ac_users c"]
    by (auto simp: upsert_external_user_def get_user_def r)
  moreover have "get_user c' other = get_user c other" if "other \<noteq> name" for other
    using assms Some that
      find_update_other [of "\<lambda>u. us_username u = other" "\<lambda>v. us_username v = name" "refresh_external role source" "ac_users c"]
    by (auto simp: upsert_external_user_def get_user_def r)
  moreover have "u = refresh_external role source v"
    using assms Some by (simp add: upsert_external_user_def)
  ultimately show ?thesis using Some n by (simp add: refresh_external_def)
qed


theorem upsert_external_user_spec_witness:
  "let u = \<lparr>us_username = ascii ''ann'', us_password_hash = [], us_role = ascii ''operator'', us_pwd_version = 1, us_source = ascii ''ldap''\<rparr>;
       c' = sample_config\<lparr>ac_users := [u]\<rparr> in
    get_user c' (ascii ''ann'') = Some u \<and> us_username u = ascii ''ann'' \<and> us_role u = ascii ''operator'' \<and> us_source u = ascii ''ldap'' \<and>
    us_pwd_version u = (case get_user sample_config (ascii ''ann'') of None \<Rightarrow> 1
      | Some v \<Rightarrow> us_pwd_version v + (if us_role v = ascii ''operator'' \<and> us_source v = ascii ''ldap'' then 0 else 1)) \<and>
    (\<forall>other. other \<noteq> ascii ''ann'' \<longrightarrow> get_user c' other = get_user sample_config other)"
  unfolding Let_def
  by (rule upsert_external_user_spec)
    (simp add: upsert_external_user_def sample_config_def get_user_def Let_def)

end
