(* ===== verification/Sparkplug_Node.thy ===== *)
theory Sparkplug_Node
  imports Sparkplug Mqtt_Pub App_Config
begin

text \<open>
  \<open>app/engine/sparkplug_node.py\<close>: a Modbus-polling mapping as a Sparkplug B edge node. The node's state
  is a record; each operation returns the new state and the messages handed to the publisher (topic and
  encoded payload), or the \<open>ValueError\<close> the codec raised. \<open>now\<close> is \<open>_now_ms()\<close>.
\<close>

definition device_id :: "int \<Rightarrow> str" where
  "device_id u = ascii ''unit'' @ dec_str u"

record sp_node =
  sn_group :: str
  sn_node :: str
  sn_points :: "(str \<times> modbus_point) list"
  sn_devices :: "(str \<times> str list) list"
  sn_values :: "str \<Rightarrow> pyval option"
  sn_bdseq :: int
  sn_seq :: int
  sn_sessions :: nat
  sn_pub :: bool

text \<open>\<open>self.devices.setdefault(d, []).append(name)\<close>.\<close>

fun add_to_device :: "str \<Rightarrow> str \<Rightarrow> (str \<times> str list) list \<Rightarrow> (str \<times> str list) list" where
  "add_to_device d name [] = [(d, [name])]"
| "add_to_device d name ((e, ns) # rest) =
     (if e = d then (e, ns @ [name]) # rest else (e, ns) # add_to_device d name rest)"

definition node_devices :: "modbus_point list \<Rightarrow> (str \<times> str list) list" where
  "node_devices points = foldl (\<lambda>ds p. add_to_device (device_id (mp_unit p)) (mp_name p) ds) [] points"

text \<open>\<open>{p.name: p for p in points}\<close>; validation makes the names distinct.\<close>

definition node_init :: "mapping_config \<Rightarrow> sp_node" where
  "node_init m =
     (let q = mc_mqtt m; g = strip (mq_group_id q); n = strip (mq_node_id q) in
      \<lparr>sn_group = (if g \<noteq> [] then g else ascii ''ser2net''),
       sn_node = (if n \<noteq> [] then n else sanitize_id (mc_name m)),
       sn_points = map (\<lambda>p. (mp_name p, p)) (poll_points (mc_poll m)),
       sn_devices = node_devices (poll_points (mc_poll m)),
       sn_values = Map.empty, sn_bdseq = 0, sn_seq = 0, sn_sessions = 0, sn_pub = False\<rparr>)"

definition node_topic :: "sp_node \<Rightarrow> str \<Rightarrow> str option \<Rightarrow> sp_error + str" where
  "node_topic n kind device = sp_topic (sn_group n) kind (sn_node n) device"

definition bdseq_metric :: "sp_node \<Rightarrow> sp_metric" where
  "bdseq_metric n = default_metric\<lparr>m_name := BDSEQ, m_datatype := 8, m_value := VInt (sn_bdseq n)\<rparr>"

definition ndeath :: "sp_node \<Rightarrow> int \<Rightarrow> sp_error + mqtt_msg" where
  "ndeath n now =
     rbind (node_topic n (ascii ''NDEATH'') None) (\<lambda>t.
     rbind (encode_payload (empty_payload\<lparr>p_timestamp := VInt now, p_metrics := [bdseq_metric n]\<rparr>) True) (\<lambda>b.
     Inr (t, b, VInt 1, False)))"

text \<open>\<open>_will\<close>: the first session keeps bdSeq 0, every later one gets the next.\<close>

definition next_session :: "sp_node \<Rightarrow> sp_node" where
  "next_session n = n\<lparr>sn_bdseq := (if sn_sessions n \<noteq> 0 then (sn_bdseq n + 1) mod 256 else sn_bdseq n),
     sn_sessions := Suc (sn_sessions n)\<rparr>"

definition node_will :: "sp_node \<Rightarrow> int \<Rightarrow> (sp_error + mqtt_msg) \<times> sp_node" where
  "node_will n now = (let n1 = next_session n in (ndeath n1 now, n1))"

text \<open>The subscriptions of \<open>publisher\<close>: the node's NCMD topic and the DCMD topics of all its devices.\<close>

datatype command_handler = H_node | H_device

definition dcmd_filter :: "sp_node \<Rightarrow> str" where
  "dcmd_filter n = join_with 47 [TOPIC_NAMESPACE, sn_group n, ascii ''DCMD'', sn_node n, ascii ''+'']"

definition node_subscriptions :: "sp_node \<Rightarrow> sp_error + (str \<times> command_handler) list" where
  "node_subscriptions n =
     rbind (node_topic n (ascii ''NCMD'') None) (\<lambda>t. Inr [(t, H_node), (dcmd_filter n, H_device)])"

section \<open>Messages\<close>

definition point_metric :: "sp_node \<Rightarrow> int \<Rightarrow> str \<Rightarrow> pyval \<Rightarrow> sp_error + sp_metric" where
  "point_metric n now name v =
     (let p = the (map_of (sn_points n) name); scale = (if f64_truthy (mp_scale p) then mp_scale p else f64_one) in
      rbind (datatype_for (mp_dtype p) scale) (\<lambda>dt.
      if v = VNone then
        Inr (default_metric\<lparr>m_name := name, m_datatype := dt, m_is_null := True, m_timestamp := VInt now\<rparr>)
      else
        rbind (if dt = 9 \<or> dt = 10 then rbind (sp_float v) (\<lambda>x. Inr (VFloat x)) else Inr v) (\<lambda>v'.
        Inr (default_metric\<lparr>m_name := name, m_datatype := dt, m_value := v', m_timestamp := VInt now\<rparr>))))"

text \<open>\<open>_publish\<close>: nothing without a publisher.\<close>

definition node_publish :: "sp_node \<Rightarrow> int \<Rightarrow> str \<Rightarrow> sp_metric list \<Rightarrow> sp_error + (str \<times> bytes) list" where
  "node_publish n now t metrics =
     (if \<not> sn_pub n then Inr []
      else rbind (encode_payload (empty_payload\<lparr>p_timestamp := VInt now, p_seq := VInt (sn_seq n), p_metrics := metrics\<rparr>) True)
             (\<lambda>b. Inr [(t, b)]))"

definition bump_seq :: "sp_node \<Rightarrow> sp_node" where
  "bump_seq n = n\<lparr>sn_seq := next_seq (sn_seq n)\<rparr>"

text \<open>One device of the loops of \<open>birth\<close> and \<open>update\<close>: the state is the node and the messages so far.\<close>

definition publish_device :: "str \<Rightarrow> int \<Rightarrow> str \<Rightarrow> sp_metric list \<Rightarrow> sp_node \<times> (str \<times> bytes) list \<Rightarrow>
    sp_error + sp_node \<times> (str \<times> bytes) list" where
  "publish_device kind now dev metrics st =
     (let (n, out) = st; n1 = bump_seq n in
      rbind (node_topic n1 kind (Some dev)) (\<lambda>t.
      rbind (node_publish n1 now t metrics) (\<lambda>ms. Inr (n1, out @ ms))))"

definition birth_device :: "int \<Rightarrow> sp_node \<times> (str \<times> bytes) list \<Rightarrow> str \<times> str list \<Rightarrow>
    sp_error + sp_node \<times> (str \<times> bytes) list" where
  "birth_device now st dn =
     rbind (rmap (\<lambda>nm. point_metric (fst st) now nm (case sn_values (fst st) nm of Some v \<Rightarrow> v | None \<Rightarrow> VNone)) (snd dn))
       (\<lambda>metrics. publish_device (ascii ''DBIRTH'') now (fst dn) metrics st)"

definition node_birth :: "sp_node \<Rightarrow> int \<Rightarrow> sp_error + sp_node \<times> (str \<times> bytes) list" where
  "node_birth n now =
     (let n0 = n\<lparr>sn_seq := 0\<rparr> in
      rbind (node_topic n0 (ascii ''NBIRTH'') None) (\<lambda>t.
      rbind (node_publish n0 now t [bdseq_metric n0,
               default_metric\<lparr>m_name := REBIRTH, m_datatype := 11, m_value := VBool False\<rparr>]) (\<lambda>ms.
      rfold (birth_device now) (n0, ms) (sn_devices n0))))"

text \<open>\<open>update\<close>: the names whose value changed, and a DDATA per device with its changed metrics.\<close>

definition changed_names :: "sp_node \<Rightarrow> (str \<times> pyval) list \<Rightarrow> str list" where
  "changed_names n values = map fst (filter (\<lambda>(nm, v). map_of (sn_points n) nm \<noteq> None \<and>
     \<not> (case sn_values n nm of Some w \<Rightarrow> py_eq w v | None \<Rightarrow> py_eq VNone v)) values)"

definition update_device :: "int \<Rightarrow> str list \<Rightarrow> sp_node \<times> (str \<times> bytes) list \<Rightarrow> str \<times> str list \<Rightarrow>
    sp_error + sp_node \<times> (str \<times> bytes) list" where
  "update_device now changed st dn =
     rbind (rmap (\<lambda>nm. point_metric (fst st) now nm (the (sn_values (fst st) nm)))
              (filter (\<lambda>nm. nm \<in> set changed) (snd dn))) (\<lambda>metrics.
     if metrics = [] then Inr st else publish_device (ascii ''DDATA'') now (fst dn) metrics st)"

definition node_update :: "sp_node \<Rightarrow> int \<Rightarrow> (str \<times> pyval) list \<Rightarrow> sp_error + sp_node \<times> (str \<times> bytes) list" where
  "node_update n now values =
     (let changed = changed_names n values;
          n1 = n\<lparr>sn_values := (\<lambda>nm. if nm \<in> set changed then map_of values nm else sn_values n nm)\<rparr> in
      rfold (update_device now changed) (n1, []) (sn_devices n1))"

section \<open>Commands\<close>

text \<open>\<open>on_node_command\<close>: every true rebirth metric publishes a new birth.\<close>

definition ncmd_metric :: "int \<Rightarrow> sp_node \<times> (str \<times> bytes) list \<Rightarrow> sp_metric \<Rightarrow>
    sp_error + sp_node \<times> (str \<times> bytes) list" where
  "ncmd_metric now st m =
     (if m_name m = REBIRTH \<and> truthy (m_value m)
      then rbind (node_birth (fst st) now) (\<lambda>(n, out). Inr (n, snd st @ out)) else Inr st)"

definition on_node_command :: "sp_node \<Rightarrow> int \<Rightarrow> bytes \<Rightarrow> sp_error + sp_node \<times> (str \<times> bytes) list" where
  "on_node_command n now payload =
     (case decode_payload payload of
        Inl _ \<Rightarrow> Inr (n, [])
      | Inr cmd \<Rightarrow> rfold (ncmd_metric now) (n, []) (p_metrics cmd))"

text \<open>The value of a command metric for its point.\<close>

definition command_value :: "modbus_point \<Rightarrow> sp_metric \<Rightarrow> pyval" where
  "command_value p m =
     (case (m_datatype m = 0, m_value m) of
        (True, VInt i) \<Rightarrow>
          if mp_dtype p \<in> set [ascii ''int16'', ascii ''int32''] \<and> i > 0x7FFFFFFF then VInt (i - push_bit 32 1) else VInt i
      | _ \<Rightarrow> m_value m)"

text \<open>\<open>topic.rsplit("/", 1)[-1]\<close>.\<close>

definition topic_device :: "str \<Rightarrow> str" where
  "topic_device t = last (split_on 47 t)"

text \<open>\<open>on_device_command\<close>: the writes it schedules.\<close>

definition dcmd_metric :: "sp_node \<Rightarrow> str list \<Rightarrow> sp_metric \<Rightarrow> (modbus_point \<times> pyval) list" where
  "dcmd_metric n names m =
     (case (if m_name m \<in> set names then map_of (sn_points n) (m_name m) else None) of
        None \<Rightarrow> []
      | Some p \<Rightarrow> if \<not> mp_writable p \<or> m_is_null m then [] else [(p, command_value p m)])"

definition on_device_command :: "sp_node \<Rightarrow> str \<Rightarrow> bytes \<Rightarrow> (modbus_point \<times> pyval) list" where
  "on_device_command n t payload =
     (case map_of (sn_devices n) (topic_device t) of
        None \<Rightarrow> []
      | Some names \<Rightarrow>
          (case decode_payload payload of
             Inl _ \<Rightarrow> []
           | Inr cmd \<Rightarrow> concat (map (dcmd_metric n names) (p_metrics cmd))))"

text \<open>\<open>close\<close>: the NDEATH handed to the publisher before it disconnects.\<close>

definition node_close :: "sp_node \<Rightarrow> int \<Rightarrow> (sp_error + mqtt_msg option) \<times> sp_node" where
  "node_close n now =
     (if sn_pub n then (case ndeath n now of Inl e \<Rightarrow> Inl e | Inr m \<Rightarrow> Inr (Some m), n\<lparr>sn_pub := False\<rparr>)
      else (Inr None, n))"

section \<open>The message stream\<close>

definition msg_seq :: "bytes \<Rightarrow> int option" where
  "msg_seq b = (case decode_payload b of Inr p \<Rightarrow> (case p_seq p of VInt j \<Rightarrow> Some j | _ \<Rightarrow> None) | Inl _ \<Rightarrow> None)"

text \<open>The sequence number that follows \<open>k\<close>: an NBIRTH (topic \<open>nb\<close>) restarts at 0, anything else counts on.\<close>

definition seq_after :: "str \<Rightarrow> int \<Rightarrow> str \<times> bytes \<Rightarrow> int" where
  "seq_after nb k m = (if fst m = nb then 0 else next_seq k)"

fun sequenced :: "str \<Rightarrow> int \<Rightarrow> (str \<times> bytes) list \<Rightarrow> bool" where
  "sequenced nb k [] = True"
| "sequenced nb k (m # ms) = (msg_seq (snd m) = Some (seq_after nb k m) \<and> sequenced nb (seq_after nb k m) ms)"

lemma sequenced_append:
  "sequenced nb k (a @ b) \<longleftrightarrow> sequenced nb k a \<and> sequenced nb (foldl (seq_after nb) k a) b"
  by (induction a arbitrary: k) auto

definition carries_bdseq :: "int \<Rightarrow> bytes \<Rightarrow> bool" where
  "carries_bdseq bd b = (case decode_payload b of Inl _ \<Rightarrow> False
     | Inr p \<Rightarrow> (\<exists>m \<in> set (p_metrics p). m_name m = BDSEQ \<and> m_value m = VInt bd))"

definition node_stream :: "sp_node \<Rightarrow> str \<Rightarrow> int \<Rightarrow> sp_node \<times> (str \<times> bytes) list \<Rightarrow> bool" where
  "node_stream c nb k st \<longleftrightarrow> sn_pub (fst st) \<and> sn_group (fst st) = sn_group c \<and> sn_node (fst st) = sn_node c \<and>
     sn_bdseq (fst st) = sn_bdseq c \<and> sn_devices (fst st) = sn_devices c \<and> sn_points (fst st) = sn_points c \<and>
     sequenced nb k (snd st) \<and> sn_seq (fst st) = foldl (seq_after nb) k (snd st) \<and>
     (\<forall>m \<in> set (snd st). fst m = nb \<longrightarrow> carries_bdseq (sn_bdseq c) (snd m))"

lemma node_publish_seq:
  assumes "node_publish n now t ms = Inr out" and "sn_pub n"
  shows "\<exists>b. out = [(t, b)] \<and> msg_seq b = Some (sn_seq n) \<and>
    decode_payload b = Inr (decoded_payload True (empty_payload\<lparr>p_timestamp := VInt now, p_seq := VInt (sn_seq n), p_metrics := ms\<rparr>))"
proof -
  from assms obtain b where b: "out = [(t, b)]"
    "encode_payload (empty_payload\<lparr>p_timestamp := VInt now, p_seq := VInt (sn_seq n), p_metrics := ms\<rparr>) True = Inr b"
    by (auto simp: node_publish_def rbind_eq_Inr)
  show ?thesis using decode_encode_payload [OF b(2)] b(1)
    by (simp add: msg_seq_def decoded_payload_def)
qed

lemma device_topic_not_nbirth:
  assumes "sp_topic g (ascii ''NBIRTH'') e None = Inr nb" and "sp_topic g k e (Some d) = Inr t"
  shows "t \<noteq> nb"
  using sp_topic_parts [OF assms(1)] sp_topic_parts [OF assms(2)] by auto

lemma publish_device_stream:
  assumes "publish_device kind now d ms st = Inr st'" and "node_stream c nb k st"
    and nb: "node_topic c (ascii ''NBIRTH'') None = Inr nb"
  shows "node_stream c nb k st'"
proof -
  obtain n out where st: "st = (n, out)" by (cases st)
  from assms(1) obtain t o' where t: "node_topic (bump_seq n) kind (Some d) = Inr t"
    and o': "node_publish (bump_seq n) now t ms = Inr o'" and st': "st' = (bump_seq n, out @ o')"
    by (auto simp: publish_device_def st rbind_eq_Inr Let_def)
  have pub: "sn_pub (bump_seq n)" using assms(2) by (simp add: node_stream_def st bump_seq_def)
  obtain b where b: "o' = [(t, b)]" "msg_seq b = Some (sn_seq (bump_seq n))"
    using node_publish_seq [OF o' pub] by blast
  have "t \<noteq> nb" using assms(2) nb t
    by (intro device_topic_not_nbirth) (auto simp: node_topic_def node_stream_def st bump_seq_def)
  then show ?thesis using assms(2) b
    by (simp add: node_stream_def st st' bump_seq_def sequenced_append seq_after_def)
qed

lemma birth_device_stream:
  "birth_device now st dn = Inr st' \<Longrightarrow> node_stream c nb k st \<Longrightarrow>
    node_topic c (ascii ''NBIRTH'') None = Inr nb \<Longrightarrow> node_stream c nb k st'"
  by (auto simp: birth_device_def rbind_eq_Inr intro: publish_device_stream)

lemma birth_device_extends:
  "birth_device now st dn = Inr st' \<Longrightarrow> \<exists>more. snd st' = snd st @ more"
  by (cases st) (auto simp: birth_device_def publish_device_def rbind_eq_Inr Let_def)

lemma update_device_stream:
  "update_device now ch st dn = Inr st' \<Longrightarrow> node_stream c nb k st \<Longrightarrow>
    node_topic c (ascii ''NBIRTH'') None = Inr nb \<Longrightarrow> node_stream c nb k st'"
  by (auto simp: update_device_def rbind_eq_Inr split: if_splits intro: publish_device_stream)

lemma birth_starts:
  assumes "node_publish (n\<lparr>sn_seq := 0\<rparr>) now nb [bdseq_metric (n\<lparr>sn_seq := 0\<rparr>), m] = Inr ms" and "sn_pub n"
  shows "\<exists>b. ms = [(nb, b)] \<and> msg_seq b = Some 0 \<and> carries_bdseq (sn_bdseq n) b"
proof -
  obtain b where "ms = [(nb, b)]" "msg_seq b = Some 0"
    and d: "decode_payload b = Inr (decoded_payload True (empty_payload\<lparr>p_timestamp := VInt now, p_seq := VInt 0,
      p_metrics := [bdseq_metric (n\<lparr>sn_seq := 0\<rparr>), m]\<rparr>))"
    using node_publish_seq [OF assms(1)] assms(2) by auto
  moreover have "carries_bdseq (sn_bdseq n) b"
    unfolding carries_bdseq_def d
    by (simp add: decoded_payload_def decoded_metric_def bdseq_metric_def default_metric_def carried_def)
  ultimately show ?thesis by blast
qed

lemma node_birth_stream:
  assumes "node_birth n now = Inr st" and "sn_pub n" and nb: "node_topic n (ascii ''NBIRTH'') None = Inr nb"
  shows "node_stream n nb k st \<and> (\<exists>b rest. snd st = (nb, b) # rest)"
proof -
  have t: "node_topic (n\<lparr>sn_seq := 0\<rparr>) (ascii ''NBIRTH'') None = Inr nb"
    using nb by (simp add: node_topic_def)
  from assms(1) obtain ms where
    ms: "node_publish (n\<lparr>sn_seq := 0\<rparr>) now nb [bdseq_metric (n\<lparr>sn_seq := 0\<rparr>),
               default_metric\<lparr>m_name := REBIRTH, m_datatype := 11, m_value := VBool False\<rparr>] = Inr ms"
    and f: "rfold (birth_device now) (n\<lparr>sn_seq := 0\<rparr>, ms) (sn_devices n) = Inr st"
    by (auto simp: node_birth_def rbind_eq_Inr t Let_def)
  obtain b where b: "ms = [(nb, b)]" "msg_seq b = Some 0" "carries_bdseq (sn_bdseq n) b"
    using birth_starts [OF ms assms(2)] by blast
  define Q where "Q s \<longleftrightarrow> node_stream n nb k s \<and> (\<exists>b rest. snd s = (nb, b) # rest)" for s
  have "Q st"
  proof (rule rfold_invariant [OF f])
    show "Q (n\<lparr>sn_seq := 0\<rparr>, ms)"
      using b assms(2) by (simp add: Q_def node_stream_def seq_after_def)
  next
    fix s x s'
    assume "Q s" and x: "birth_device now s x = Inr s'"
    then show "Q s'"
      using birth_device_stream [OF x _ nb] birth_device_extends [OF x] by (auto simp: Q_def)
  qed
  then show ?thesis by (simp add: Q_def)
qed

lemma node_stream_join:
  assumes "node_stream c nb k (n, a)" and "node_stream n nb (sn_seq n) (n', b)"
  shows "node_stream c nb k (n', a @ b)"
  using assms by (auto simp: node_stream_def sequenced_append)

lemma node_stream_topic:
  "node_stream c nb k (n, a) \<Longrightarrow> node_topic n kind d = node_topic c kind d"
  by (simp add: node_stream_def node_topic_def)

lemma node_update_stream:
  assumes "node_update n now vals = Inr st" and "sn_pub n" and nb: "node_topic n (ascii ''NBIRTH'') None = Inr nb"
  shows "node_stream n nb (sn_seq n) st"
  using assms(1) unfolding node_update_def Let_def
proof (rule rfold_invariant)
  show "node_stream n nb (sn_seq n) (n\<lparr>sn_values := \<lambda>nm. if nm \<in> set (changed_names n vals) then map_of vals nm else sn_values n nm\<rparr>, [])"
    using assms(2) by (simp add: node_stream_def)
qed (rule update_device_stream [OF _ _ nb])

lemma on_node_command_stream:
  assumes "on_node_command n now payload = Inr st" and "sn_pub n"
    and nb: "node_topic n (ascii ''NBIRTH'') None = Inr nb"
  shows "node_stream n nb (sn_seq n) st"
proof (cases "decode_payload payload")
  case (Inl e)
  then show ?thesis using assms(1,2) by (auto simp: on_node_command_def node_stream_def)
next
  case (Inr cmd)
  then have "rfold (ncmd_metric now) (n, []) (p_metrics cmd) = Inr st"
    using assms(1) by (simp add: on_node_command_def)
  then show ?thesis
  proof (rule rfold_invariant)
    show "node_stream n nb (sn_seq n) (n, [])" using assms(2) by (simp add: node_stream_def)
  next
    fix s m s'
    assume s: "node_stream n nb (sn_seq n) s" and m: "ncmd_metric now s m = Inr s'"
    show "node_stream n nb (sn_seq n) s'"
    proof (cases "m_name m = REBIRTH \<and> truthy (m_value m)")
      case True
      obtain x a where xa: "s = (x, a)" by (cases s)
      from m True obtain y b where y: "node_birth x now = Inr (y, b)" "s' = (y, a @ b)"
        by (auto simp: ncmd_metric_def rbind_eq_Inr xa)
      have "node_stream x nb (sn_seq x) (y, b)"
        using node_birth_stream [OF y(1), of nb "sn_seq x"] s nb
        by (simp add: xa node_stream_topic) (simp add: node_stream_def)
      then show ?thesis using s node_stream_join by (simp add: xa y(2))
    next
      case False
      then show ?thesis using m s by (simp add: ncmd_metric_def if_not_P)
    qed
  qed
qed

text \<open>What happens to a connected node: a poll cycle's values, or an NCMD message, with its time.\<close>

datatype node_event = Polled "(str \<times> pyval) list" | Commanded bytes

fun node_event_step :: "sp_node \<Rightarrow> int \<times> node_event \<Rightarrow> sp_error + sp_node \<times> (str \<times> bytes) list" where
  "node_event_step n (now, Polled vals) = node_update n now vals"
| "node_event_step n (now, Commanded payload) = on_node_command n now payload"

text \<open>A session: the birth after the connect, then the events.\<close>

definition node_session :: "sp_node \<Rightarrow> int \<Rightarrow> (int \<times> node_event) list \<Rightarrow> sp_error + sp_node \<times> (str \<times> bytes) list" where
  "node_session n now evs =
     rbind (node_birth n now) (\<lambda>st.
     rfold (\<lambda>(m, out) ev. rbind (node_event_step m ev) (\<lambda>(m', more). Inr (m', out @ more))) st evs)"

lemma node_event_stream:
  assumes "node_event_step n ev = Inr st" and "sn_pub n"
    and "node_topic n (ascii ''NBIRTH'') None = Inr nb"
  shows "node_stream n nb (sn_seq n) st"
  using assms by (cases "(n, ev)" rule: node_event_step.cases)
    (auto intro: node_update_stream on_node_command_stream)

lemma node_session_stream:
  assumes "node_session n now evs = Inr st" and pub: "sn_pub n"
    and nb: "node_topic n (ascii ''NBIRTH'') None = Inr nb"
  shows "node_stream n nb k st \<and> (\<exists>b rest. snd st = (nb, b) # rest)"
proof -
  define Q where "Q s \<longleftrightarrow> node_stream n nb k s \<and> (\<exists>b rest. snd s = (nb, b) # rest)" for s
  from assms(1) obtain s0 where s0: "node_birth n now = Inr s0" and
    f: "rfold (\<lambda>(m, out) ev. rbind (node_event_step m ev) (\<lambda>(m', more). Inr (m', out @ more))) s0 evs = Inr st"
    by (auto simp: node_session_def rbind_eq_Inr)
  have "Q st"
  proof (rule rfold_invariant [OF f])
    show "Q s0" unfolding Q_def by (rule node_birth_stream [OF s0 pub nb])
  next
    fix s ev s'
    assume q: "Q s" and step: "(case s of (m, out) \<Rightarrow> \<lambda>ev. rbind (node_event_step m ev) (\<lambda>(m', more). Inr (m', out @ more))) ev = Inr s'"
    obtain m out where s: "s = (m, out)" by (cases s)
    from step obtain m' more where e: "node_event_step m ev = Inr (m', more)" "s' = (m', out @ more)"
      by (auto simp: s rbind_eq_Inr)
    have str: "node_stream n nb k (m, out)" using q by (simp add: Q_def s)
    then have "node_stream m nb (sn_seq m) (m', more)"
      by (intro node_event_stream [OF e(1)]) (auto simp: node_stream_topic nb, simp add: node_stream_def)
    then show "Q s'" using node_stream_join [OF str] q by (auto simp: Q_def s e(2))
  qed
  then show ?thesis by (simp add: Q_def)
qed

section \<open>Report by exception\<close>

lemma point_metric_name: "point_metric n now nm v = Inr m \<Longrightarrow> m_name m = nm"
  by (auto simp: point_metric_def Let_def rbind_eq_Inr split: if_splits)

lemma point_metric_names:
  assumes "rmap (\<lambda>nm. point_metric n now nm (f nm)) xs = Inr ms"
  shows "map m_name ms = xs"
  using assms by (induction xs arbitrary: ms) (auto simp: rbind_eq_Inr dest: point_metric_name)

text \<open>The message that reports \<open>names\<close> of device \<open>d\<close>.\<close>

definition reports :: "sp_node \<Rightarrow> str \<Rightarrow> str \<times> str list \<Rightarrow> str \<times> bytes \<Rightarrow> bool" where
  "reports n kind dn m \<longleftrightarrow> node_topic n kind (Some (fst dn)) = Inr (fst m) \<and>
     (\<exists>p. decode_payload (snd m) = Inr p \<and> map m_name (p_metrics p) = snd dn)"

text \<open>The devices with a changed point, each with its changed points in order.\<close>

definition changed_devices :: "str list \<Rightarrow> (str \<times> str list) list \<Rightarrow> (str \<times> str list) list" where
  "changed_devices ch ds = filter (\<lambda>dn. snd dn \<noteq> []) (map (\<lambda>(d, ns). (d, filter (\<lambda>x. x \<in> set ch) ns)) ds)"

lemma publish_device_reports:
  assumes "publish_device kind now d ms (n, out) = Inr st'" and "sn_pub n"
  shows "\<exists>m. st' = (bump_seq n, out @ [m]) \<and> reports n kind (d, map m_name ms) m"
proof -
  from assms obtain t b where t: "node_topic (bump_seq n) kind (Some d) = Inr t"
    and b: "encode_payload (empty_payload\<lparr>p_timestamp := VInt now, p_seq := VInt (sn_seq (bump_seq n)), p_metrics := ms\<rparr>) True = Inr b"
    and st': "st' = (bump_seq n, out @ [(t, b)])"
    by (auto simp: publish_device_def node_publish_def rbind_eq_Inr Let_def bump_seq_def)
  have "reports n kind (d, map m_name ms) (t, b)"
    using decode_encode_payload [OF b] t
    by (simp add: reports_def node_topic_def bump_seq_def decoded_payload_def decoded_metric_def comp_def)
  then show ?thesis using st' by blast
qed

lemma reports_bump [simp]: "reports (bump_seq n) = reports n"
  by (intro ext) (simp add: reports_def node_topic_def bump_seq_def)

lemma update_devices_report:
  assumes "rfold (update_device now ch) (n, out) ds = Inr (n', out')" and "sn_pub n"
  shows "(\<exists>more. out' = out @ more \<and> list_all2 (reports n (ascii ''DDATA'')) (changed_devices ch ds) more) \<and>
    (\<exists>s. n' = n\<lparr>sn_seq := s\<rparr>)"
  using assms
proof (induction ds arbitrary: n out)
  case Nil
  then show ?case by (simp add: changed_devices_def) (metis sp_node.surjective sp_node.update_convs(7))
next
  case (Cons dn ds)
  obtain d ns where dn: "dn = (d, ns)" by (cases dn)
  from Cons.prems(1) obtain st where up: "update_device now ch (n, out) dn = Inr st"
    and rest: "rfold (update_device now ch) st ds = Inr (n', out')"
    unfolding rfold.simps rbind_eq_Inr by blast
  from up obtain ms where
    ms: "rmap (\<lambda>nm. point_metric n now nm (the (sn_values n nm))) (filter (\<lambda>x. x \<in> set ch) ns) = Inr ms"
    and st: "(if ms = [] then Inr (n, out) else publish_device (ascii ''DDATA'') now d ms (n, out)) = Inr st"
    unfolding dn update_device_def rbind_eq_Inr fst_conv snd_conv by blast
  note names = point_metric_names [OF ms]
  show ?case
  proof (cases "ms = []")
    case True
    then have "filter (\<lambda>x. x \<in> set ch) ns = []" using names by simp
    then show ?thesis using Cons.IH [of n out] rest st True Cons.prems(2)
      by (simp add: changed_devices_def dn)
  next
    case False
    then obtain m where m: "st = (bump_seq n, out @ [m])" "reports n (ascii ''DDATA'') (d, filter (\<lambda>x. x \<in> set ch) ns) m"
      using publish_device_reports [of "ascii ''DDATA''" now d ms n out st] st Cons.prems(2) names by auto
    have ne: "filter (\<lambda>x. x \<in> set ch) ns \<noteq> []" using False names by auto
    have IH: "(\<exists>more. out' = (out @ [m]) @ more \<and> list_all2 (reports (bump_seq n) (ascii ''DDATA'')) (changed_devices ch ds) more) \<and>
      (\<exists>s. n' = (bump_seq n)\<lparr>sn_seq := s\<rparr>)"
      using rest Cons.prems(2) by (intro Cons.IH) (simp_all add: m(1), simp add: bump_seq_def)
    have cd: "changed_devices ch (dn # ds) = (d, filter (\<lambda>x. x \<in> set ch) ns) # changed_devices ch ds"
      using ne by (simp add: changed_devices_def dn)
    from IH obtain more where more: "out' = (out @ [m]) @ more" "list_all2 (reports n (ascii ''DDATA'')) (changed_devices ch ds) more" by auto
    then have "out' = out @ (m # more)" "list_all2 (reports n (ascii ''DDATA'')) (changed_devices ch (dn # ds)) (m # more)"
      using m(2) cd by simp_all
    moreover have "\<exists>s. n' = n\<lparr>sn_seq := s\<rparr>" using IH by (auto simp: bump_seq_def)
    ultimately show ?thesis by blast
  qed
qed

lemma nothing_changed:
  assumes "changed_names n vals = []"
  shows "node_update n now vals = Inr (n, [])"
proof -
  have "rfold (update_device now []) (n, []) ds = Inr (n, [])" for ds
    by (induction ds) (auto simp: update_device_def)
  then show ?thesis using assms by (simp add: node_update_def)
qed

lemma updated_values_settled:
  assumes "distinct (map fst vals)" and "\<forall>(nm, v) \<in> set vals. py_eq v v"
    and "sn_points n' = sn_points n"
    and "sn_values n' = (\<lambda>nm. if nm \<in> set (changed_names n vals) then map_of vals nm else sn_values n nm)"
  shows "changed_names n' vals = []"
proof -
  have "case sn_values n' nm of Some w \<Rightarrow> py_eq w v | None \<Rightarrow> py_eq VNone v"
    if "(nm, v) \<in> set vals" "map_of (sn_points n) nm \<noteq> None" for nm v
  proof (cases "nm \<in> set (changed_names n vals)")
    case True
    then have "sn_values n' nm = Some v" using assms(1,4) that(1) by simp
    then show ?thesis using assms(2) that(1) by auto
  next
    case False
    then have "case sn_values n nm of Some w \<Rightarrow> py_eq w v | None \<Rightarrow> py_eq VNone v"
      using that by (force simp: changed_names_def)
    then show ?thesis using False assms(4) by simp
  qed
  then show ?thesis using assms(3) by (fastforce simp: changed_names_def filter_empty_conv)
qed

section \<open>Device commands\<close>

lemma dec_str_inject [simp]: "dec_str a = dec_str b \<longleftrightarrow> a = b"
proof -
  have "dec_digits m \<noteq> 45 # r" for m r using dec_digits_ascii [of 45 m] by auto
  then show ?thesis by (auto simp: dec_str_def dest: sym)
qed

lemma device_id_inject [simp]: "device_id a = device_id b \<longleftrightarrow> a = b"
  by (simp add: device_id_def)

lemma map_of_add_to_device:
  "map_of (add_to_device d nm ds) e =
    (if e = d then Some ((case map_of ds d of None \<Rightarrow> [] | Some ns \<Rightarrow> ns) @ [nm]) else map_of ds e)"
  by (induction ds) auto

lemma map_of_node_devices:
  "map_of (node_devices pts) (device_id u) =
    (if \<exists>p \<in> set pts. mp_unit p = u then Some (map mp_name (filter (\<lambda>p. mp_unit p = u) pts)) else None)"
proof (induction pts rule: rev_induct)
  case Nil
  then show ?case by (simp add: node_devices_def)
next
  case (snoc p pts)
  have "node_devices (pts @ [p]) = add_to_device (device_id (mp_unit p)) (mp_name p) (node_devices pts)"
    by (simp add: node_devices_def)
  then show ?case using snoc by (auto simp: map_of_add_to_device filter_empty_conv)
qed

lemma node_init_points [simp]:
  "sn_points (node_init m) = map (\<lambda>p. (mp_name p, p)) (poll_points (mc_poll m))"
  "sn_devices (node_init m) = node_devices (poll_points (mc_poll m))"
  by (simp_all add: node_init_def Let_def)

lemma select_unique:
  assumes "distinct (map f xs)"
  shows "(case map_of (map (\<lambda>x. (f x, x)) xs) k of None \<Rightarrow> [] | Some x \<Rightarrow> if q x then [h x] else [])
     = map h (filter (\<lambda>x. f x = k \<and> q x) xs)"
  using assms
proof (induction xs)
  case (Cons x xs)
  show ?case
  proof (cases "f x = k")
    case True
    then have "filter (\<lambda>x. f x = k \<and> q x) xs = []" using Cons.prems by (auto simp: filter_empty_conv) (metis image_eqI)
    then show ?thesis using True by simp
  qed (use Cons in simp)
qed simp

section \<open>Properties\<close>

definition sample_point :: "string \<Rightarrow> int \<Rightarrow> modbus_point" where
  "sample_point name u = \<lparr>mp_name = ascii name, mp_unit = u, mp_fn = 3, mp_address = 0, mp_dtype = ascii ''uint16'',
     mp_scale = f64_one, mp_writable = True\<rparr>"

definition sample_node_mapping :: mapping_config where
  "sample_node_mapping = (sample_mapping ''press'' ''modbus_poll'' ''/dev/ttyS0'')\<lparr>mc_poll :=
     \<lparr>poll_interval_s = f64_one, poll_points = [sample_point ''temp'' 1, sample_point ''level'' 2]\<rparr>\<rparr>"

definition sample_node :: sp_node where
  "sample_node = (node_init sample_node_mapping)\<lparr>sn_pub := True\<rparr>"

definition sample_values :: "(str \<times> pyval) list" where
  "sample_values = [(ascii ''temp'', VInt 21), (ascii ''level'', VInt 7)]"

definition sample_dcmd :: sp_payload where
  "sample_dcmd = empty_payload\<lparr>p_metrics := [default_metric\<lparr>m_name := ascii ''temp'', m_datatype := 5, m_value := VInt 30\<rparr>,
     default_metric\<lparr>m_name := ascii ''level'', m_datatype := 5, m_value := VInt 9\<rparr>]\<rparr>"



text \<open>Report by exception: a poll publishes exactly one DDATA per device that has a changed point, in device order,
  whose decoded metrics are that device's changed points in order, and polling the same values again (none of them
  NaN) publishes nothing and changes nothing.\<close>
lemma update_reports_changes:
  assumes "node_update n now vals = Inr (n', out)" and "sn_pub n"
    and "distinct (map fst vals)" and "\<forall>(nm, v) \<in> set vals. py_eq v v"
  shows "list_all2 (reports n (ascii ''DDATA'')) (changed_devices (changed_names n vals) (sn_devices n)) out \<and>
    node_update n' later vals = Inr (n', [])"
proof -
  let ?n1 = "n\<lparr>sn_values := \<lambda>nm. if nm \<in> set (changed_names n vals) then map_of vals nm else sn_values n nm\<rparr>"
  have "rfold (update_device now (changed_names n vals)) (?n1, []) (sn_devices n) = Inr (n', out)"
    using assms(1) by (simp add: node_update_def Let_def)
  from update_devices_report [OF this] assms(2)
  have r: "list_all2 (reports ?n1 (ascii ''DDATA'')) (changed_devices (changed_names n vals) (sn_devices n)) out"
    and "\<exists>s. n' = ?n1\<lparr>sn_seq := s\<rparr>" by auto
  then have "sn_points n' = sn_points n"
    "sn_values n' = (\<lambda>nm. if nm \<in> set (changed_names n vals) then map_of vals nm else sn_values n nm)" by auto
  from updated_values_settled [OF assms(3,4) this]
  have "node_update n' later vals = Inr (n', [])" by (rule nothing_changed)
  moreover have "list_all2 (reports n (ascii ''DDATA'')) (changed_devices (changed_names n vals) (sn_devices n)) out"
    using r by (rule list_all2_mono) (simp add: reports_def node_topic_def)
  ultimately show ?thesis by simp
qed

theorem update_reports_changes_witness:
  "\<exists>n' out. node_update sample_node 1000 sample_values = Inr (n', out) \<and> length out = 2 \<and>
    list_all2 (reports sample_node (ascii ''DDATA'')) [(ascii ''unit1'', [ascii ''temp'']), (ascii ''unit2'', [ascii ''level''])] out \<and>
    node_update n' 2000 sample_values = Inr (n', [])"
proof -
  have "case node_update sample_node 1000 sample_values of Inr _ \<Rightarrow> True | Inl _ \<Rightarrow> False" by code_simp
  then obtain n' out where s: "node_update sample_node 1000 sample_values = Inr (n', out)"
    by (auto split: sum.splits)
  have c: "changed_devices (changed_names sample_node sample_values) (sn_devices sample_node) =
    [(ascii ''unit1'', [ascii ''temp'']), (ascii ''unit2'', [ascii ''level''])]" by code_simp
  have v: "\<forall>(nm, v) \<in> set sample_values. py_eq v v" "distinct (map fst sample_values)" by code_simp+
  have "sn_pub sample_node" by code_simp
  from update_reports_changes [OF s this v(2,1), of 2000] show ?thesis
    using s by (auto simp: c dest: list_all2_lengthD)
qed

text \<open>A DCMD writes exactly what it names: for every metric of the payload, in order, the writable point of that
  device (and of no other device) with that name, unless the metric is null, gets the metric's value.\<close>
lemma device_command_writes:
  assumes "distinct (map mp_name (poll_points (mc_poll m)))"
    and "node_topic (node_init m) (ascii ''DCMD'') (Some (device_id u)) = Inr t"
    and "decode_payload payload = Inr cmd"
  shows "on_device_command (node_init m) t payload = concat (map (\<lambda>mt.
      map (\<lambda>p. (p, command_value p mt))
        (filter (\<lambda>p. mp_name p = m_name mt \<and> mp_unit p = u \<and> mp_writable p \<and> \<not> m_is_null mt) (poll_points (mc_poll m))))
      (p_metrics cmd))"
proof -
  let ?pts = "poll_points (mc_poll m)"
  have dev: "topic_device t = device_id u"
    using sp_topic_parts [OF assms(2) [unfolded node_topic_def]] by (simp add: topic_device_def)
  have one: "dcmd_metric (node_init m) (map mp_name (filter (\<lambda>p. mp_unit p = u) ?pts)) mt =
      map (\<lambda>p. (p, command_value p mt))
        (filter (\<lambda>p. mp_name p = m_name mt \<and> mp_unit p = u \<and> mp_writable p \<and> \<not> m_is_null mt) ?pts)" for mt
  proof -
    have in_names: "m_name mt \<in> set (map mp_name (filter (\<lambda>p. mp_unit p = u) ?pts)) \<longleftrightarrow> mp_unit p = u"
      if "map_of (map (\<lambda>p. (mp_name p, p)) ?pts) (m_name mt) = Some p" for p
      using map_of_SomeD [OF that] assms(1) by (auto simp: distinct_map dest: inj_onD)
    have "dcmd_metric (node_init m) (map mp_name (filter (\<lambda>p. mp_unit p = u) ?pts)) mt =
      (case map_of (map (\<lambda>p. (mp_name p, p)) ?pts) (m_name mt) of None \<Rightarrow> []
       | Some p \<Rightarrow> if mp_unit p = u \<and> mp_writable p \<and> \<not> m_is_null mt then [(p, command_value p mt)] else [])"
      using in_names by (auto simp: dcmd_metric_def split: option.splits)
    then show ?thesis using select_unique [OF assms(1)] by simp
  qed
  show ?thesis
  proof (cases "\<exists>p \<in> set ?pts. mp_unit p = u")
    case True
    then show ?thesis
      by (simp add: on_device_command_def dev map_of_node_devices assms(3)) (simp add: one cong: map_cong)
  next
    case False
    then have "filter (\<lambda>p. mp_name p = m_name mt \<and> mp_unit p = u \<and> mp_writable p \<and> \<not> m_is_null mt) ?pts = []" for mt
      by (auto simp: filter_empty_conv)
    then show ?thesis using False
      by (simp add: on_device_command_def dev map_of_node_devices)
  qed
qed

theorem device_command_writes_witness:
  "\<exists>payload. encode_payload sample_dcmd True = Inr payload \<and>
    on_device_command (node_init sample_node_mapping) (ascii ''spBv1.0/ser2net/DCMD/press/unit1'') payload
      = [(sample_point ''temp'' 1, VInt 30)]"
proof -
  have "case encode_payload sample_dcmd True of Inr _ \<Rightarrow> True | Inl _ \<Rightarrow> False" by code_simp
  then obtain b where b: "encode_payload sample_dcmd True = Inr b" by (auto split: sum.splits)
  note d = decode_encode_payload [OF b]
  have nd: "distinct (map mp_name (poll_points (mc_poll sample_node_mapping)))" by code_simp
  have t: "node_topic (node_init sample_node_mapping) (ascii ''DCMD'') (Some (device_id 1)) =
    Inr (ascii ''spBv1.0/ser2net/DCMD/press/unit1'')" by code_simp
  have "concat (map (\<lambda>mt.
      map (\<lambda>p. (p, command_value p mt))
        (filter (\<lambda>p. mp_name p = m_name mt \<and> mp_unit p = 1 \<and> mp_writable p \<and> \<not> m_is_null mt) (poll_points (mc_poll sample_node_mapping))))
      (p_metrics (decoded_payload True sample_dcmd))) = [(sample_point ''temp'' 1, VInt 30)]" by code_simp
  then show ?thesis using b device_command_writes [OF nd t d] by simp
qed

end
