(* ===== verification/Telnet.thy ===== *)
theory Telnet
  imports Prelude
begin

text \<open>
  \<open>app/engine/protocols/telnet.py\<close> and the pass-through session of \<open>raw.py\<close>/\<open>base.py\<close>: the
  per-client byte transformations between the network and the serial port, as an explicit session
  state. The locale \<open>transparent_session\<close> is what the bridge relies on: what one side escapes the
  other side delivers unchanged, whatever the chunking.
\<close>

section \<open>Constants\<close>

definition IAC :: byte where "IAC = 255"
definition DONT :: byte where "DONT = 254"
definition DO :: byte where "DO = 253"
definition WONT :: byte where "WONT = 252"
definition WILL :: byte where "WILL = 251"
definition SB :: byte where "SB = 250"
definition SE :: byte where "SE = 240"
definition OPT_BINARY :: byte where "OPT_BINARY = 0"
definition OPT_SGA :: byte where "OPT_SGA = 3"
definition SUPPORTED :: "byte list" where "SUPPORTED = [OPT_BINARY, OPT_SGA]"
definition MAX_NET_OUT :: nat where "MAX_NET_OUT = 64 * 1024"

lemmas telnet_consts = IAC_def DONT_def DO_def WONT_def WILL_def SB_def SE_def
  OPT_BINARY_def OPT_SGA_def

section \<open>The session state\<close>

datatype tstate = T_data | T_iac | T_opt | T_sb | T_sb_iac

text \<open>\<open>t_local\<close> and \<open>t_remote\<close> are the dictionaries \<open>_local\<close> and \<open>_remote\<close>; an absent key is \<open>None\<close>.\<close>

record telnet =
  t_net_out :: bytes
  t_state :: tstate
  t_cmd :: byte
  t_local :: "byte \<Rightarrow> bool option"
  t_remote :: "byte \<Rightarrow> bool option"

definition t_send :: "byte \<Rightarrow> byte \<Rightarrow> telnet \<Rightarrow> telnet" where
  "t_send c opt s = (if length (t_net_out s) < MAX_NET_OUT
     then s\<lparr>t_net_out := t_net_out s @ [IAC, c, opt]\<rparr> else s)"

text \<open>One round of the constructor's loop over the two supported options.\<close>

definition t_request :: "byte \<Rightarrow> telnet \<Rightarrow> telnet" where
  "t_request opt s =
     (let s1 = t_send WILL opt (s\<lparr>t_local := (t_local s)(opt \<mapsto> True)\<rparr>)
      in t_send DO opt (s1\<lparr>t_remote := (t_remote s1)(opt \<mapsto> True)\<rparr>))"

definition telnet_init :: telnet where
  "telnet_init = t_request OPT_SGA (t_request OPT_BINARY
     \<lparr>t_net_out = [], t_state = T_data, t_cmd = 0, t_local = Map.empty, t_remote = Map.empty\<rparr>)"

definition t_take_net_out :: "telnet \<Rightarrow> bytes \<times> telnet" where
  "t_take_net_out s = (t_net_out s, s\<lparr>t_net_out := []\<rparr>)"

text \<open>\<open>data.replace(b"\xff", b"\xff\xff")\<close>; without a 0xFF byte it is the identity.\<close>

definition t_from_serial :: "bytes \<Rightarrow> bytes" where
  "t_from_serial data = (if 255 \<in> set data
     then concat (map (\<lambda>b. if b = 255 then [255, 255] else [b]) data) else data)"

definition t_negotiate :: "byte \<Rightarrow> byte \<Rightarrow> telnet \<Rightarrow> telnet" where
  "t_negotiate cmd opt s =
     (if cmd = DO then
        if opt \<in> set SUPPORTED then
          if t_local s opt \<noteq> Some True
          then t_send WILL opt (s\<lparr>t_local := (t_local s)(opt \<mapsto> True)\<rparr>) else s
        else if t_local s opt \<noteq> Some False
        then t_send WONT opt (s\<lparr>t_local := (t_local s)(opt \<mapsto> False)\<rparr>) else s
      else if cmd = DONT then
        if t_local s opt \<noteq> Some False
        then t_send WONT opt (s\<lparr>t_local := (t_local s)(opt \<mapsto> False)\<rparr>) else s
      else if cmd = WILL then
        if opt \<in> set SUPPORTED then
          if t_remote s opt \<noteq> Some True
          then t_send DO opt (s\<lparr>t_remote := (t_remote s)(opt \<mapsto> True)\<rparr>) else s
        else if t_remote s opt \<noteq> Some False
        then t_send DONT opt (s\<lparr>t_remote := (t_remote s)(opt \<mapsto> False)\<rparr>) else s
      else if cmd = WONT then
        if t_remote s opt \<noteq> Some False
        then t_send DONT opt (s\<lparr>t_remote := (t_remote s)(opt \<mapsto> False)\<rparr>) else s
      else s)"

text \<open>The body of \<open>from_network\<close>'s loop: the new state and the bytes appended to \<open>out\<close>.\<close>

fun t_byte :: "telnet \<Rightarrow> byte \<Rightarrow> telnet \<times> bytes" where
  "t_byte s b = (case t_state s of
       T_data \<Rightarrow> if b = IAC then (s\<lparr>t_state := T_iac\<rparr>, []) else (s, [b])
     | T_iac \<Rightarrow>
         if b = IAC then (s\<lparr>t_state := T_data\<rparr>, [IAC])
         else if b \<in> set [DO, DONT, WILL, WONT] then (s\<lparr>t_cmd := b, t_state := T_opt\<rparr>, [])
         else if b = SB then (s\<lparr>t_state := T_sb\<rparr>, [])
         else (s\<lparr>t_state := T_data\<rparr>, [])
     | T_opt \<Rightarrow> ((t_negotiate (t_cmd s) b s)\<lparr>t_state := T_data\<rparr>, [])
     | T_sb \<Rightarrow> if b = IAC then (s\<lparr>t_state := T_sb_iac\<rparr>, []) else (s, [])
     | T_sb_iac \<Rightarrow> (s\<lparr>t_state := (if b = SE then T_data else T_sb)\<rparr>, []))"

fun t_from_network :: "telnet \<Rightarrow> bytes \<Rightarrow> telnet \<times> bytes" where
  "t_from_network s [] = (s, [])"
| "t_from_network s (b # bs) =
     (let (s1, out) = t_byte s b; (s2, outs) = t_from_network s1 bs in (s2, out @ outs))"

declare t_byte.simps [simp del]

section \<open>Raw sessions\<close>

definition raw_from_network :: "unit \<Rightarrow> bytes \<Rightarrow> unit \<times> bytes" where
  "raw_from_network s data = (s, data)"

definition raw_from_serial :: "bytes \<Rightarrow> bytes" where
  "raw_from_serial data = data"

section \<open>The interface: transparent sessions\<close>

text \<open>Receiving a sequence of chunks from the network.\<close>

fun recv_chunks :: "('s \<Rightarrow> 'b list \<Rightarrow> 's \<times> 'b list) \<Rightarrow> 's \<Rightarrow> 'b list list \<Rightarrow> 's \<times> 'b list" where
  "recv_chunks recv s [] = (s, [])"
| "recv_chunks recv s (c # cs) =
     (let (s1, out) = recv s c; (s2, outs) = recv_chunks recv s1 cs in (s2, out @ outs))"

locale transparent_session =
  fixes recv :: "'s \<Rightarrow> 'b list \<Rightarrow> 's \<times> 'b list"
    and send :: "'b list \<Rightarrow> 'b list"
    and ready :: "'s \<Rightarrow> bool"
  assumes recv_Nil: "recv s [] = (s, [])"
    and recv_append: "recv s (a @ b) = (let (s1, x) = recv s a; (s2, y) = recv s1 b in (s2, x @ y))"
    and recv_send: "ready s \<Longrightarrow> recv s (send d) = (s, d)"
    and send_append: "send (a @ b) = send a @ send b"
begin

lemma recv_chunks_concat: "recv_chunks recv s cs = recv s (concat cs)"
  by (induction cs arbitrary: s) (auto simp: recv_Nil recv_append split: prod.splits)

lemma send_concat: "ds \<noteq> [] \<Longrightarrow> concat (map send ds) = send (concat ds)"
proof (induction ds)
  case (Cons d ds)
  then show ?case by (cases ds) (auto simp: send_append)
qed simp

lemma transfer:
  assumes "ready s" and "concat cs = concat (map send ds)"
  shows "recv_chunks recv s cs = (s, concat ds)"
proof (cases "ds = []")
  case True
  with assms(2) have "concat cs = []" by simp
  with True show ?thesis by (simp only: recv_chunks_concat recv_Nil) simp
next
  case False
  then show ?thesis
    using assms by (simp add: recv_chunks_concat send_concat recv_send)
qed

lemma send_inj: "ready s \<Longrightarrow> send a = send b \<Longrightarrow> a = b"
  by (metis recv_send snd_conv)

end

interpretation rw: transparent_session raw_from_network raw_from_serial "\<lambda>_. True"
  by unfold_locales (simp_all add: raw_from_network_def raw_from_serial_def)

section \<open>Escaping\<close>

lemma t_from_serial_concat: "t_from_serial data = concat (map (\<lambda>b. if b = 255 then [255, 255] else [b]) data)"
  by (simp add: t_from_serial_def, induction data) auto

lemma t_from_serial_simps [simp]:
  "t_from_serial [] = []"
  "t_from_serial (b # bs) = (if b = IAC then [IAC, IAC] else [b]) @ t_from_serial bs"
  by (simp_all add: t_from_serial_concat IAC_def)

lemma t_from_serial_append: "t_from_serial (a @ b) = t_from_serial a @ t_from_serial b"
  by (simp add: t_from_serial_concat)

lemma t_from_network_append:
  "t_from_network s (a @ b) =
     (let (s1, x) = t_from_network s a; (s2, y) = t_from_network s1 b in (s2, x @ y))"
  by (induction a arbitrary: s) (auto split: prod.splits)

lemma t_byte_data [simp]:
  "t_state s = T_data \<Longrightarrow> b \<noteq> IAC \<Longrightarrow> t_byte s b = (s, [b])"
  "t_state s = T_data \<Longrightarrow> t_byte s IAC = (s\<lparr>t_state := T_iac\<rparr>, [])"
  by (simp_all add: t_byte.simps)

lemma t_byte_iac [simp]:
  "t_byte (s\<lparr>t_state := T_iac\<rparr>) IAC = (s\<lparr>t_state := T_data\<rparr>, [IAC])"
  by (simp add: t_byte.simps)

lemma telnet_state_same: "t_state s = x \<Longrightarrow> s\<lparr>t_state := x\<rparr> = s"
  by (cases s) simp

lemma t_recv_escaped: "t_state s = T_data \<Longrightarrow> t_from_network s (t_from_serial d) = (s, d)"
  by (induction d) (auto simp: telnet_state_same)

interpretation tn: transparent_session t_from_network t_from_serial "\<lambda>s. t_state s = T_data"
  by unfold_locales (simp_all add: t_from_network_append t_from_serial_append t_recv_escaped)

section \<open>A telnet stream with commands in it\<close>

text \<open>The items a conforming peer sends: escaped data, an option request, a subnegotiation with an
  escaped payload and any other two-byte command.\<close>

datatype t_item = T_Data bytes | T_Neg byte byte | T_Sub bytes | T_Cmd byte

fun t_item_bytes :: "t_item \<Rightarrow> bytes" where
  "t_item_bytes (T_Data d) = t_from_serial d"
| "t_item_bytes (T_Neg c opt) = [IAC, c, opt]"
| "t_item_bytes (T_Sub p) = [IAC, SB] @ t_from_serial p @ [IAC, SE]"
| "t_item_bytes (T_Cmd c) = [IAC, c]"

fun t_item_ok :: "t_item \<Rightarrow> bool" where
  "t_item_ok (T_Neg c opt) = (c \<in> set [DO, DONT, WILL, WONT])"
| "t_item_ok (T_Cmd c) = (c \<notin> set [IAC, DO, DONT, WILL, WONT, SB])"
| "t_item_ok _ = True"

fun t_item_data :: "t_item \<Rightarrow> bytes" where
  "t_item_data (T_Data d) = d"
| "t_item_data _ = []"

fun t_item_effect :: "t_item \<Rightarrow> telnet \<Rightarrow> telnet" where
  "t_item_effect (T_Neg c opt) s = t_negotiate c opt (s\<lparr>t_cmd := c\<rparr>)"
| "t_item_effect _ s = s"

lemma t_send_simps [simp]:
  "t_state (t_send c opt s) = t_state s" "t_cmd (t_send c opt s) = t_cmd s"
  "t_local (t_send c opt s) = t_local s" "t_remote (t_send c opt s) = t_remote s"
  "(t_send c opt s)\<lparr>t_state := x\<rparr> = t_send c opt (s\<lparr>t_state := x\<rparr>)"
  by (simp_all add: t_send_def)

lemma t_negotiate_state [simp]: "t_state (t_negotiate c opt s) = t_state s"
  by (simp add: t_negotiate_def)

lemma t_negotiate_set_state:
  "(t_negotiate c opt s)\<lparr>t_state := x\<rparr> = t_negotiate c opt (s\<lparr>t_state := x\<rparr>)"
  by (cases s) (simp add: t_negotiate_def)

lemma t_sub_payload:
  "t_state s = T_sb \<Longrightarrow> t_from_network s (t_from_serial p) = (s, [])"
  by (induction p) (auto simp: t_byte.simps telnet_state_same telnet_consts)

lemma t_item_step:
  assumes "t_state s = T_data" and "t_item_ok i"
  shows "t_from_network s (t_item_bytes i) = (t_item_effect i s, t_item_data i)"
proof (cases i)
  case (T_Data d)
  then show ?thesis using assms by (simp add: t_recv_escaped)
next
  case (T_Neg c opt)
  then have "c \<noteq> IAC" using assms by (auto simp: telnet_consts)
  then show ?thesis
    using assms T_Neg by (auto simp: t_byte.simps t_negotiate_set_state telnet_state_same)
next
  case (T_Sub p)
  have "t_from_network s [IAC, SB] = (s\<lparr>t_state := T_sb\<rparr>, [])"
    using assms by (simp add: t_byte.simps telnet_consts)
  moreover have "t_from_network (s\<lparr>t_state := T_sb\<rparr>) [IAC, SE] = (s, [])"
    using assms by (simp add: t_byte.simps telnet_consts telnet_state_same)
  ultimately show ?thesis
    unfolding T_Sub t_item_bytes.simps t_from_network_append by (simp add: t_sub_payload)
next
  case (T_Cmd c)
  then show ?thesis using assms by (auto simp: t_byte.simps telnet_state_same)
qed

lemma t_item_effect_state [simp]: "t_state (t_item_effect i s) = t_state s"
  by (cases i) simp_all

lemma t_items_stream:
  assumes "t_state s = T_data" and "\<forall>i \<in> set items. t_item_ok i"
  shows "t_from_network s (concat (map t_item_bytes items))
    = (fold t_item_effect items s, concat (map t_item_data items))"
  using assms
  by (induction items arbitrary: s) (simp_all add: t_from_network_append t_item_step)

section \<open>Bounded replies\<close>

definition t_bounded :: "telnet \<Rightarrow> bool" where
  "t_bounded s \<longleftrightarrow> length (t_net_out s) \<le> MAX_NET_OUT + 2"

lemma t_send_bounded: "t_bounded s \<Longrightarrow> t_bounded (t_send c opt s)"
  by (simp add: t_bounded_def t_send_def)

lemma t_negotiate_bounded: "t_bounded s \<Longrightarrow> t_bounded (t_negotiate c opt s)"
proof -
  assume "t_bounded s"
  then have "t_bounded (s\<lparr>t_local := l\<rparr>)" "t_bounded (s\<lparr>t_remote := l\<rparr>)" for l
    by (simp_all add: t_bounded_def)
  then show ?thesis using \<open>t_bounded s\<close> by (simp add: t_negotiate_def t_send_bounded)
qed

lemma t_byte_bounded: "t_bounded s \<Longrightarrow> t_bounded (fst (t_byte s b))"
  using t_negotiate_bounded [of s "t_cmd s" b]
  by (cases "t_state s") (simp_all add: t_byte.simps t_bounded_def)

lemma t_from_network_bounded: "t_bounded s \<Longrightarrow> t_bounded (fst (t_from_network s bs))"
proof (induction bs arbitrary: s)
  case (Cons b bs)
  then show ?case using t_byte_bounded [of s b] by (auto split: prod.splits) (metis fst_conv)
qed simp

lemma t_byte_length: "length (snd (t_byte s b)) \<le> 1"
  by (auto simp: t_byte.simps split: tstate.splits)

lemma t_from_network_length: "length (snd (t_from_network s bs)) \<le> length bs"
proof (induction bs arbitrary: s)
  case (Cons b bs)
  show ?case
    using t_byte_length [of s b] Cons.IH [of "fst (t_byte s b)"]
    by (auto simp: split_beta)
qed simp

section \<open>Negotiation\<close>

text \<open>A session whose replies have all been sent and that is between commands.\<close>

definition t_idle :: "telnet \<Rightarrow> bool" where
  "t_idle s \<longleftrightarrow> t_state s = T_data \<and> t_net_out s = []"

text \<open>Deliver a batch of bytes and collect the replies.\<close>

definition t_exchange :: "telnet \<Rightarrow> bytes \<Rightarrow> telnet \<times> bytes" where
  "t_exchange s bs = (let (r, s') = t_take_net_out (fst (t_from_network s bs)) in (s', r))"

lemma t_send_idle:
  "t_net_out s = [] \<Longrightarrow> t_net_out (t_send c opt s) = [IAC, c, opt]"
  by (simp add: t_send_def MAX_NET_OUT_def)

lemma t_exchange_nothing: "t_idle s \<Longrightarrow> t_exchange s [] = (s, [])"
  by (cases s) (simp add: t_exchange_def t_take_net_out_def t_idle_def)

lemma t_exchange_neg:
  assumes "t_idle s" and "c \<in> set [DO, DONT, WILL, WONT]"
  shows "t_exchange s [IAC, c, opt] =
    (let s' = t_negotiate c opt (s\<lparr>t_cmd := c\<rparr>) in (s'\<lparr>t_net_out := []\<rparr>, t_net_out s'))"
  using t_item_step [of s "T_Neg c opt"] assms
  by (simp add: t_exchange_def t_take_net_out_def t_idle_def Let_def)

text \<open>The states a session passes through: created, fed from the network, drained by the writer.\<close>

inductive t_reachable :: "telnet \<Rightarrow> bool" where
  start: "t_reachable telnet_init"
| recv: "t_reachable s \<Longrightarrow> t_reachable (fst (t_from_network s data))"
| drain: "t_reachable s \<Longrightarrow> t_reachable (snd (t_take_net_out s))"

lemma t_reachable_bounded: "t_reachable s \<Longrightarrow> t_bounded s"
proof (induction rule: t_reachable.induct)
  case start
  show ?case by (simp add: telnet_init_def t_request_def t_send_def t_bounded_def MAX_NET_OUT_def)
qed (simp_all add: t_from_network_bounded, simp add: t_take_net_out_def t_bounded_def)

text \<open>The effect of an option request on an idle session: at most one reply, with the reply's
  option state recorded.\<close>

lemma t_exchange_idle:
  assumes "t_idle s" and "c \<in> set [DO, DONT, WILL, WONT]"
  shows "t_idle (fst (t_exchange s [IAC, c, opt]))"
    and "snd (t_exchange s [IAC, c, opt]) \<in> insert [] ((\<lambda>r. [IAC, r, opt]) ` set [DO, DONT, WILL, WONT])"
  using assms t_exchange_neg [OF assms]
  by (auto simp: Let_def t_negotiate_def t_idle_def t_send_idle)

lemma t_do_settled:
  assumes "t_idle s"
  shows "snd (t_exchange s [IAC, DO, opt]) =
      (if opt \<in> set SUPPORTED then if t_local s opt = Some True then [] else [IAC, WILL, opt]
       else if t_local s opt = Some False then [] else [IAC, WONT, opt])"
    and "snd (t_exchange s [IAC, DONT, opt]) = (if t_local s opt = Some False then [] else [IAC, WONT, opt])"
    and "snd (t_exchange s [IAC, WILL, opt]) =
      (if opt \<in> set SUPPORTED then if t_remote s opt = Some True then [] else [IAC, DO, opt]
       else if t_remote s opt = Some False then [] else [IAC, DONT, opt])"
    and "snd (t_exchange s [IAC, WONT, opt]) = (if t_remote s opt = Some False then [] else [IAC, DONT, opt])"
  using assms t_exchange_neg [OF assms, of _ opt]
  by (simp_all add: Let_def t_negotiate_def t_idle_def t_send_idle telnet_consts)

lemma t_options_after:
  assumes "t_idle s"
  shows "t_local (fst (t_exchange s [IAC, DO, opt])) opt = Some (opt \<in> set SUPPORTED)"
    and "t_local (fst (t_exchange s [IAC, DONT, opt])) opt = Some False"
    and "t_remote (fst (t_exchange s [IAC, WILL, opt])) opt = Some (opt \<in> set SUPPORTED)"
    and "t_remote (fst (t_exchange s [IAC, WONT, opt])) opt = Some False"
  using assms t_exchange_neg [OF assms, of _ opt]
  by (simp_all add: Let_def t_negotiate_def t_idle_def telnet_consts)

section \<open>Properties\<close>

text \<open>C25: Telnet transparency: a peer's stream of escaped data, option requests, subnegotiations and
  other commands, however the network cuts it into chunks, delivers exactly the data bytes to the
  serial port, and its option requests take effect in order.\<close>
theorem telnet_stream:
  assumes "t_state s = T_data" and "\<forall>i \<in> set items. t_item_ok i"
    and "concat chunks = concat (map t_item_bytes items)"
  shows "recv_chunks t_from_network s chunks
    = (fold t_item_effect items s, concat (map t_item_data items))"
  using assms by (simp add: tn.recv_chunks_concat t_items_stream)

theorem telnet_stream_witness:
  "recv_chunks t_from_network telnet_init [[65, 255], [255, 255], [253, 3, 66]]
    = (fold t_item_effect [T_Data [65, 255], T_Neg DO 3, T_Data [66]] telnet_init, [65, 255, 66])"
  using telnet_stream [of telnet_init "[T_Data [65, 255], T_Neg DO 3, T_Data [66]]"
      "[[65, 255], [255, 255], [253, 3, 66]]"]
  by (simp add: telnet_init_def t_request_def Let_def telnet_consts)

text \<open>Both pass-through protocols deliver serial data unchanged to a peer of the same kind: whatever
  was read from the serial port in reads \<open>ds\<close> and sent escaped is received as \<open>concat ds\<close> from any
  chunking, and the receiving session's state does not change.\<close>
lemma serial_data_transparent:
  assumes "t_state s = T_data"
    and "concat chunks = concat (map t_from_serial ds)"
    and "concat raw_chunks = concat (map raw_from_serial ds)"
  shows "recv_chunks t_from_network s chunks = (s, concat ds)
    \<and> recv_chunks raw_from_network () raw_chunks = ((), concat ds)"
  using tn.transfer [OF assms(1,2)] rw.transfer [OF TrueI assms(3)] by simp

theorem serial_data_transparent_witness:
  "recv_chunks t_from_network telnet_init [[255], [255, 7]] = (telnet_init, [255, 7])
    \<and> recv_chunks raw_from_network () [[255, 7]] = ((), [255, 7])"
  using serial_data_transparent [of telnet_init "[[255], [255, 7]]" "[[255], [7]]" "[[255, 7]]"]
  by (simp add: telnet_init_def t_request_def Let_def telnet_consts raw_from_serial_def)

text \<open>C37: Negotiation cannot loop: between any two idle sessions an option request is settled after at
  most two replies, whatever the option states of both sides are.\<close>
theorem telnet_settles:
  assumes "t_idle a" and "t_idle b" and "c \<in> set [DO, DONT, WILL, WONT]"
    and "t_exchange a [IAC, c, opt] = (a1, r1)" and "t_exchange b r1 = (b1, r2)"
  shows "snd (t_exchange a1 r2) = []"
proof -
  have a1: "t_idle a1" using t_exchange_idle(1) [OF assms(1,3), of opt] assms(4) by simp
  have after: "c = DO \<Longrightarrow> t_local a1 opt = Some (opt \<in> set SUPPORTED)"
    "c = DONT \<Longrightarrow> t_local a1 opt = Some False"
    "c = WILL \<Longrightarrow> t_remote a1 opt = Some (opt \<in> set SUPPORTED)"
    "c = WONT \<Longrightarrow> t_remote a1 opt = Some False"
    using t_options_after [OF assms(1), of opt] assms(4) by auto
  have r1: "r1 = snd (t_exchange a [IAC, c, opt])" and r2: "r2 = snd (t_exchange b r1)"
    using assms(4,5) by simp_all
  consider "c = DO" | "c = DONT" | "c = WILL" | "c = WONT" using assms(3) by auto
  then show ?thesis
    by cases (auto simp: r1 r2 after t_do_settled assms(1,2) a1 t_exchange_nothing split: if_splits)
qed

theorem telnet_settles_witness:
  "snd (t_exchange (fst (t_exchange (snd (t_take_net_out telnet_init)) [IAC, DO, 24]))
    (snd (t_exchange (snd (t_take_net_out telnet_init))
      (snd (t_exchange (snd (t_take_net_out telnet_init)) [IAC, DO, 24]))))) = []"
proof -
  have i: "t_idle (snd (t_take_net_out telnet_init))"
    by (simp add: t_idle_def t_take_net_out_def telnet_init_def t_request_def Let_def)
  show ?thesis
    by (rule telnet_settles [where c = DO, OF i i _ prod.collapse [symmetric] prod.collapse [symmetric]])
      simp_all
qed

text \<open>A peer that floods option negotiation cannot make a session buffer more than the cap plus one
  partial reply, in any reachable state.\<close>
theorem telnet_replies_bounded:
  assumes "t_reachable s"
  shows "length (t_net_out s) \<le> MAX_NET_OUT + 2"
  using t_reachable_bounded [OF assms] by (simp add: t_bounded_def)

theorem telnet_replies_bounded_witness:
  "length (t_net_out (fst (t_from_network telnet_init [255, 253, 1]))) \<le> MAX_NET_OUT + 2"
  by (rule telnet_replies_bounded) (intro t_reachable.intros)

end
