(* ===== verification/Rfc2217.thy ===== *)
theory Rfc2217
  imports Telnet Py_Value
begin

text \<open>
  \<open>app/engine/protocols/rfc2217.py\<close> and the session factory of \<open>protocols/__init__.py\<close>. pyserial's
  \<open>PortManager\<close> and the serial port are not part of the repository: a call into \<open>PortManager\<close> is a
  parameter, a program that reads and writes port attributes, calls port methods and writes to the
  connection (\<open>pm_prog\<close>); the port is a parameter of type \<open>serial_ops\<close>. The proxy and the sink
  between them are the code of the repository.
\<close>

section \<open>The port and the programs that use it\<close>

text \<open>The real \<open>serial.Serial\<close>: \<open>Inl ()\<close> is a raised exception.\<close>

record 's serial_ops =
  dev_get :: "str \<Rightarrow> 's \<Rightarrow> unit + pyval"
  dev_set :: "str \<Rightarrow> pyval \<Rightarrow> 's \<Rightarrow> (unit + unit) \<times> 's"
  dev_call :: "str \<Rightarrow> pyval list \<Rightarrow> 's \<Rightarrow> (unit + pyval) \<times> 's"

datatype 'r pm_prog =
    PmReturn 'r
  | PmRaise
  | PmGet str "unit + pyval \<Rightarrow> 'r pm_prog"
  | PmSet str pyval "unit + unit \<Rightarrow> 'r pm_prog"
  | PmCall str "pyval list" "unit + pyval \<Rightarrow> 'r pm_prog"
  | PmWrite bytes "'r pm_prog"

section \<open>The proxy\<close>

definition MODEM_READS :: "str list" where
  "MODEM_READS = [ascii ''cts'', ascii ''dsr'', ascii ''ri'', ascii ''cd'']"

definition LINE_WRITES :: "str list" where
  "LINE_WRITES = [ascii ''rts'', ascii ''dtr'', ascii ''break_condition'']"

definition CONFIG_WRITES :: "str list" where
  "CONFIG_WRITES = [ascii ''baudrate'', ascii ''bytesize'', ascii ''parity'', ascii ''stopbits'',
     ascii ''xonxoff'', ascii ''rtscts'', ascii ''dsrdtr'']"

definition RO_BLOCKED_WRITES :: "str list" where
  "RO_BLOCKED_WRITES = CONFIG_WRITES @ LINE_WRITES"

definition RO_BLOCKED_CALLS :: "str list" where
  "RO_BLOCKED_CALLS = [ascii ''write'', ascii ''flush'', ascii ''reset_input_buffer'',
     ascii ''reset_output_buffer'', ascii ''flushInput'', ascii ''flushOutput'', ascii ''send_break'',
     ascii ''setRTS'', ascii ''setDTR'', ascii ''setBreak'']"

text \<open>\<open>__getattr__\<close>, for a data attribute and for a method that is called at once.\<close>

definition proxy_get :: "'s serial_ops \<Rightarrow> str \<Rightarrow> 's \<Rightarrow> unit + pyval" where
  "proxy_get dev name ser =
     (if name \<in> set MODEM_READS
      then (case dev_get dev name ser of Inl _ \<Rightarrow> Inr (VBool False) | Inr v \<Rightarrow> Inr v)
      else dev_get dev name ser)"

definition proxy_call :: "'s serial_ops \<Rightarrow> bool \<Rightarrow> str \<Rightarrow> pyval list \<Rightarrow> 's \<Rightarrow> (unit + pyval) \<times> 's" where
  "proxy_call dev read_only name args ser =
     (if read_only \<and> name \<in> set RO_BLOCKED_CALLS then (Inr VNone, ser) else dev_call dev name args ser)"

text \<open>\<open>__setattr__\<close>.\<close>

definition proxy_set :: "'s serial_ops \<Rightarrow> bool \<Rightarrow> str \<Rightarrow> pyval \<Rightarrow> 's \<Rightarrow> (unit + unit) \<times> 's" where
  "proxy_set dev read_only name v ser =
     (if read_only \<and> name \<in> set RO_BLOCKED_WRITES then (Inr (), ser)
      else if name \<in> set LINE_WRITES then (Inr (), snd (dev_set dev name v ser))
      else dev_set dev name v ser)"

text \<open>Run a \<open>PortManager\<close> program against the proxy and the sink \<open>_NetConnection\<close>. A session without
  a serial instance hands \<open>None\<close> to \<open>PortManager\<close>, whose attribute accesses then raise.\<close>

primrec run_pm :: "'s serial_ops \<Rightarrow> bool \<Rightarrow> 'r pm_prog \<Rightarrow> 's option \<Rightarrow> bytes \<Rightarrow> (unit + 'r) \<times> 's option \<times> bytes" where
  "run_pm dev ro (PmReturn r) ser buf = (Inr r, ser, buf)"
| "run_pm dev ro PmRaise ser buf = (Inl (), ser, buf)"
| "run_pm dev ro (PmGet name k) ser buf =
     (case ser of None \<Rightarrow> run_pm dev ro (k (Inl ())) ser buf
      | Some s \<Rightarrow> run_pm dev ro (k (proxy_get dev name s)) ser buf)"
| "run_pm dev ro (PmSet name v k) ser buf =
     (case ser of None \<Rightarrow> run_pm dev ro (k (Inl ())) ser buf
      | Some s \<Rightarrow> (let (r, s') = proxy_set dev ro name v s in run_pm dev ro (k r) (Some s') buf))"
| "run_pm dev ro (PmCall name args k) ser buf =
     (case ser of None \<Rightarrow> run_pm dev ro (k (Inl ())) ser buf
      | Some s \<Rightarrow> (let (r, s') = proxy_call dev ro name args s in run_pm dev ro (k r) (Some s') buf))"
| "run_pm dev ro (PmWrite data k) ser buf = run_pm dev ro k ser (buf @ data)"

section \<open>The session\<close>

text \<open>\<open>PortManager\<close>'s operations, on its own state \<open>'p\<close>.\<close>

record 'p portmanager =
  pm_init :: "'p pm_prog"
  pm_filter :: "'p \<Rightarrow> bytes \<Rightarrow> ('p \<times> bytes list) pm_prog"
  pm_escape :: "'p \<Rightarrow> bytes \<Rightarrow> bytes list"
  pm_check_modem_lines :: "'p \<Rightarrow> 'p pm_prog"

record 'p rfc2217 =
  rfc_pm :: 'p
  rfc_buf :: bytes
  rfc_read_only :: bool
  rfc_poll_interval :: real

definition rfc_init :: "'p portmanager \<Rightarrow> 's serial_ops \<Rightarrow> 's option \<Rightarrow> real \<Rightarrow> bool \<Rightarrow>
    (unit + 'p rfc2217) \<times> 's option" where
  "rfc_init pm dev ser poll_interval read_only =
     (case run_pm dev read_only (pm_init pm) ser [] of
        (Inl e, ser', _) \<Rightarrow> (Inl e, ser')
      | (Inr p, ser', buf) \<Rightarrow>
          (Inr \<lparr>rfc_pm = p, rfc_buf = buf, rfc_read_only = read_only,
                rfc_poll_interval = (if poll_interval > 0 then poll_interval else 1)\<rparr>, ser'))"

definition rfc_take_net_out :: "'p rfc2217 \<Rightarrow> bytes \<times> 'p rfc2217" where
  "rfc_take_net_out s = (rfc_buf s, s\<lparr>rfc_buf := []\<rparr>)"

text \<open>\<open>from_network\<close>; an exception leaves what the port and the sink received.\<close>

definition rfc_from_network :: "'p portmanager \<Rightarrow> 's serial_ops \<Rightarrow> 'p rfc2217 \<Rightarrow> 's option \<Rightarrow> bytes \<Rightarrow>
    (unit + bytes) \<times> 'p rfc2217 \<times> 's option" where
  "rfc_from_network pm dev s ser data =
     (case run_pm dev (rfc_read_only s) (pm_filter pm (rfc_pm s) data) ser (rfc_buf s) of
        (Inl e, ser', buf) \<Rightarrow> (Inl e, s\<lparr>rfc_buf := buf\<rparr>, ser')
      | (Inr (p, out), ser', buf) \<Rightarrow> (Inr (concat out), s\<lparr>rfc_pm := p, rfc_buf := buf\<rparr>, ser'))"

definition rfc_from_serial :: "'p portmanager \<Rightarrow> 'p rfc2217 \<Rightarrow> bytes \<Rightarrow> bytes" where
  "rfc_from_serial pm s data = concat (pm_escape pm (rfc_pm s) data)"

text \<open>\<open>poll\<close>: exceptions of \<open>check_modem_lines\<close> are swallowed.\<close>

definition rfc_poll :: "'p portmanager \<Rightarrow> 's serial_ops \<Rightarrow> 'p rfc2217 \<Rightarrow> 's option \<Rightarrow>
    bytes \<times> 'p rfc2217 \<times> 's option" where
  "rfc_poll pm dev s ser =
     (case run_pm dev (rfc_read_only s) (pm_check_modem_lines pm (rfc_pm s)) ser (rfc_buf s) of
        (Inl e, ser', buf) \<Rightarrow> (buf, s\<lparr>rfc_buf := []\<rparr>, ser')
      | (Inr p, ser', buf) \<Rightarrow> (buf, s\<lparr>rfc_pm := p, rfc_buf := []\<rparr>, ser'))"

section \<open>The factory\<close>

datatype 'p session = S_raw | S_telnet telnet | S_rfc2217 "'p rfc2217"

datatype session_error = UnknownProtocol | PortManagerFailed

definition make_session :: "'p portmanager \<Rightarrow> 's serial_ops \<Rightarrow> str \<Rightarrow> 's option \<Rightarrow> real \<Rightarrow> bool \<Rightarrow>
    (session_error + 'p session) \<times> 's option" where
  "make_session pm dev protocol ser poll_interval read_only =
     (if protocol = ascii ''raw'' then (Inr S_raw, ser)
      else if protocol = ascii ''telnet'' then (Inr (S_telnet telnet_init), ser)
      else if protocol = ascii ''rfc2217'' then
        (case rfc_init pm dev ser poll_interval read_only of
           (Inl _, ser') \<Rightarrow> (Inl PortManagerFailed, ser')
         | (Inr s, ser') \<Rightarrow> (Inr (S_rfc2217 s), ser'))
      else (Inl UnknownProtocol, ser))"

definition ses_from_network :: "'p portmanager \<Rightarrow> 's serial_ops \<Rightarrow> 'p session \<Rightarrow> 's option \<Rightarrow> bytes \<Rightarrow>
    (unit + bytes) \<times> 'p session \<times> 's option" where
  "ses_from_network pm dev s ser data = (case s of
       S_raw \<Rightarrow> (Inr (snd (raw_from_network () data)), s, ser)
     | S_telnet t \<Rightarrow> (let (t', out) = t_from_network t data in (Inr out, S_telnet t', ser))
     | S_rfc2217 r \<Rightarrow> (let (out, r', ser') = rfc_from_network pm dev r ser data in (out, S_rfc2217 r', ser')))"

definition ses_from_serial :: "'p portmanager \<Rightarrow> 'p session \<Rightarrow> bytes \<Rightarrow> bytes" where
  "ses_from_serial pm s data = (case s of
       S_raw \<Rightarrow> raw_from_serial data
     | S_telnet t \<Rightarrow> t_from_serial data
     | S_rfc2217 r \<Rightarrow> rfc_from_serial pm r data)"

definition ses_take_net_out :: "'p session \<Rightarrow> bytes \<times> 'p session" where
  "ses_take_net_out s = (case s of
       S_raw \<Rightarrow> ([], s)
     | S_telnet t \<Rightarrow> (let (out, t') = t_take_net_out t in (out, S_telnet t'))
     | S_rfc2217 r \<Rightarrow> (let (out, r') = rfc_take_net_out r in (out, S_rfc2217 r')))"

definition ses_poll_interval :: "'p session \<Rightarrow> real option" where
  "ses_poll_interval s = (case s of S_rfc2217 r \<Rightarrow> Some (rfc_poll_interval r) | _ \<Rightarrow> None)"

definition ses_poll :: "'p portmanager \<Rightarrow> 's serial_ops \<Rightarrow> 'p session \<Rightarrow> 's option \<Rightarrow>
    bytes \<times> 'p session \<times> 's option" where
  "ses_poll pm dev s ser = (case s of
       S_rfc2217 r \<Rightarrow> (let (out, r', ser') = rfc_poll pm dev r ser in (out, S_rfc2217 r', ser'))
     | _ \<Rightarrow> ([], s, ser))"

section \<open>Read-only sessions\<close>

text \<open>What the real port documents about a view of its configuration (say, the baud rate and the
  control lines): only assignments to the blocked attributes and calls of the blocked methods can
  change it.\<close>

definition port_keeps :: "'s serial_ops \<Rightarrow> ('s \<Rightarrow> 'v) \<Rightarrow> bool" where
  "port_keeps dev view \<longleftrightarrow>
     (\<forall>name v s. name \<notin> set RO_BLOCKED_WRITES \<longrightarrow> view (snd (dev_set dev name v s)) = view s) \<and>
     (\<forall>name args s. name \<notin> set RO_BLOCKED_CALLS \<longrightarrow> view (snd (dev_call dev name args s)) = view s)"

lemma proxy_set_view: "port_keeps dev view \<Longrightarrow> view (snd (proxy_set dev True name v s)) = view s"
  by (auto simp: port_keeps_def proxy_set_def RO_BLOCKED_WRITES_def)

lemma proxy_call_view: "port_keeps dev view \<Longrightarrow> view (snd (proxy_call dev True name args s)) = view s"
  by (simp add: port_keeps_def proxy_call_def)

lemma run_pm_view:
  assumes "port_keeps dev view"
  shows "run_pm dev True prog ser buf = (r, ser', buf') \<Longrightarrow> map_option view ser' = map_option view ser"
proof (induction prog arbitrary: ser buf r)
  case (PmGet name k)
  show ?case using PmGet.prems PmGet.IH [OF rangeI] by (auto split: option.splits)
next
  case (PmSet name v k)
  show ?case
    using PmSet.prems PmSet.IH [OF rangeI] proxy_set_view [OF assms, of name v]
    by (fastforce split: option.splits prod.splits)
next
  case (PmCall name args k)
  show ?case
    using PmCall.prems PmCall.IH [OF rangeI] proxy_call_view [OF assms, of name args]
    by (fastforce split: option.splits prod.splits)
qed auto

text \<open>The life of a read-only client session on a port: created, fed, drained and polled.\<close>

inductive ro_session :: "'p portmanager \<Rightarrow> 's serial_ops \<Rightarrow> 's \<Rightarrow> 'p session \<Rightarrow> 's option \<Rightarrow> bool"
  for pm :: "'p portmanager" and dev :: "'s serial_ops" and orig :: 's where
  start: "make_session pm dev protocol (Some orig) poll_interval True = (Inr ses, ser) \<Longrightarrow>
    ro_session pm dev orig ses ser"
| recv: "ro_session pm dev orig ses ser \<Longrightarrow> ses_from_network pm dev ses ser data = (r, ses', ser') \<Longrightarrow>
    ro_session pm dev orig ses' ser'"
| poll: "ro_session pm dev orig ses ser \<Longrightarrow> ses_poll pm dev ses ser = (out, ses', ser') \<Longrightarrow>
    ro_session pm dev orig ses' ser'"
| drain: "ro_session pm dev orig ses ser \<Longrightarrow> ro_session pm dev orig (snd (ses_take_net_out ses)) ser"

definition ses_read_only :: "'p session \<Rightarrow> bool" where
  "ses_read_only s \<longleftrightarrow> (case s of S_rfc2217 r \<Rightarrow> rfc_read_only r | _ \<Rightarrow> True)"

lemma make_session_view:
  assumes "port_keeps dev view" and "make_session pm dev protocol ser poll_interval True = (r, ser')"
  shows "map_option view ser' = map_option view ser \<and> (\<forall>ses. r = Inr ses \<longrightarrow> ses_read_only ses)"
  using assms
  by (auto simp: make_session_def rfc_init_def ses_read_only_def split: if_splits prod.splits sum.splits
      dest: run_pm_view)

lemma ses_from_network_view:
  assumes "port_keeps dev view" and "ses_read_only ses"
    and "ses_from_network pm dev ses ser data = (r, ses', ser')"
  shows "map_option view ser' = map_option view ser \<and> ses_read_only ses'"
  using assms
  by (auto simp: ses_from_network_def rfc_from_network_def ses_read_only_def
      split: session.splits prod.splits sum.splits dest: run_pm_view)

lemma ses_poll_view:
  assumes "port_keeps dev view" and "ses_read_only ses" and "ses_poll pm dev ses ser = (out, ses', ser')"
  shows "map_option view ser' = map_option view ser \<and> ses_read_only ses'"
  using assms
  by (auto simp: ses_poll_def rfc_poll_def ses_read_only_def
      split: session.splits prod.splits sum.splits dest: run_pm_view)

lemma ses_take_read_only: "ses_read_only ses \<Longrightarrow> ses_read_only (snd (ses_take_net_out ses))"
  by (auto simp: ses_take_net_out_def ses_read_only_def rfc_take_net_out_def split: session.splits prod.splits)

lemma ro_session_view:
  assumes "port_keeps dev view" and "ro_session pm dev orig ses ser"
  shows "map_option view ser = Some (view orig) \<and> ses_read_only ses"
  using assms(2)
proof (induction rule: ro_session.induct)
  case (start protocol poll_interval ses ser)
  then show ?case using make_session_view [OF assms(1) start] by auto
next
  case (recv ses ser data r ses' ser')
  then show ?case using ses_from_network_view [OF assms(1) _ recv(2)] by auto
next
  case (poll ses ser out ses' ser')
  then show ?case using ses_poll_view [OF assms(1) _ poll(2)] by auto
qed (simp add: ses_take_read_only)

section \<open>Properties\<close>

text \<open>A read-only client cannot reconfigure the port: whatever \<open>PortManager\<close> does with the bytes the
  client sends, any view of the port that only the blocked writes and calls can change is the one
  the session started with, in every state of every protocol's session.\<close>
theorem read_only_keeps_port:
  assumes "port_keeps dev view" and "ro_session pm dev orig ses ser"
  shows "map_option view ser = Some (view orig)"
  using ro_session_view [OF assms] by simp

text \<open>A port with an attribute dictionary, and a \<open>PortManager\<close> that sets the baud rate to the first
  byte it receives and acknowledges it.\<close>

definition dict_port :: "(str \<Rightarrow> pyval) serial_ops" where
  "dict_port = \<lparr>dev_get = \<lambda>name s. Inr (s name), dev_set = \<lambda>name v s. (Inr (), s(name := v)),
     dev_call = \<lambda>name args s. (Inr VNone, s)\<rparr>"

definition baud_manager :: "unit portmanager" where
  "baud_manager = \<lparr>pm_init = PmReturn (),
     pm_filter = \<lambda>_ data. PmSet (ascii ''baudrate'') (VBytes data)
       (\<lambda>_. PmGet (ascii ''baudrate'') (\<lambda>v. PmWrite data (PmReturn ((), [])))),
     pm_escape = \<lambda>_ data. [data], pm_check_modem_lines = \<lambda>_. PmReturn ()\<rparr>"

theorem read_only_keeps_port_witness:
  "map_option (\<lambda>s. s (ascii ''baudrate''))
     (snd (snd (ses_from_network baud_manager dict_port
        (S_rfc2217 \<lparr>rfc_pm = (), rfc_buf = [], rfc_read_only = True, rfc_poll_interval = 1\<rparr>)
        (Some (\<lambda>_. VInt 9600)) [1, 2]))) = Some (VInt 9600)"
proof (rule read_only_keeps_port [where dev = dict_port and pm = baud_manager and orig = "\<lambda>_. VInt 9600"])
  show "port_keeps dict_port (\<lambda>s. s (ascii ''baudrate''))"
    by (simp add: port_keeps_def dict_port_def RO_BLOCKED_WRITES_def CONFIG_WRITES_def)
  have "ro_session baud_manager dict_port (\<lambda>_. VInt 9600)
      (S_rfc2217 \<lparr>rfc_pm = (), rfc_buf = [], rfc_read_only = True, rfc_poll_interval = 1\<rparr>) (Some (\<lambda>_. VInt 9600))"
    by (rule ro_session.start [where protocol = "ascii ''rfc2217''" and poll_interval = 1])
      (simp add: make_session_def rfc_init_def baud_manager_def)
  then show "ro_session baud_manager dict_port (\<lambda>_. VInt 9600)
      (fst (snd (ses_from_network baud_manager dict_port
        (S_rfc2217 \<lparr>rfc_pm = (), rfc_buf = [], rfc_read_only = True, rfc_poll_interval = 1\<rparr>)
        (Some (\<lambda>_. VInt 9600)) [1, 2])))
      (snd (snd (ses_from_network baud_manager dict_port
        (S_rfc2217 \<lparr>rfc_pm = (), rfc_buf = [], rfc_read_only = True, rfc_poll_interval = 1\<rparr>)
        (Some (\<lambda>_. VInt 9600)) [1, 2])))"
    by (rule ro_session.recv [where data = "[1, 2]"]) (simp add: prod_eq_iff)
qed

end
