(* ===== verification/Tracer.thy ===== *)
theory Tracer
  imports App_Config Utf8 "HOL-Library.Sublist"
begin

text \<open>
  \<open>Tracer\<close> of \<open>app/engine/bridge.py\<close>: the traffic trace of a mapping. The event loop queues chunks
  (\<open>tracer_write\<close>), the writer thread takes them in batches (\<open>run_batch\<close>), formats them and appends
  them to the trace file, rotating it (\<open>append_lines\<close>, \<open>rotate_files\<close>). The trace files are a map from the
  rotation index (0 is \<open>path\<close>, \<open>i\<close> is \<open>path.i\<close>) to contents. Each locked section and each batch is one step.
  \<open>stamp\<close> (\<open>time.strftime\<close> of the local time) and whether \<open>os.replace\<close> succeeds are parameters.
\<close>

type_synonym trace_files = "nat \<Rightarrow> bytes option"

record tracer =
  tr_hex :: bool
  tr_ts :: bool
  tr_max_bytes :: int
  tr_keep :: nat
  tr_queue :: "(real \<times> str \<times> bytes) option list"
  tr_queued :: int
  tr_dropped :: int
  tr_active :: bool
  tr_files :: trace_files

definition QUEUE_MAX_BYTES :: int where "QUEUE_MAX_BYTES = 8 * 1024 * 1024"

definition BATCH :: nat where "BATCH = 256"

text \<open>\<open>os.path.join(trace_dir, f"{mapping.id}-{name}")\<close>.\<close>

definition path_join :: "str \<Rightarrow> str \<Rightarrow> str" where
  "path_join a b = (if is_prefix_of [47] b then b else if a = [] \<or> last a = 47 then a @ b else a @ [47] @ b)"

definition trace_path :: "str \<Rightarrow> mapping_config \<Rightarrow> str" where
  "trace_path trace_dir m = path_join trace_dir (mc_id m @ [45] @ mo_trace_both (mc_options m))"

text \<open>\<open>max(1, int(options.trace_max_mb * 1024 * 1024))\<close>; \<open>None\<close> is \<open>int\<close> raising on inf or NaN.\<close>

definition f64_1024 :: f64 where "f64_1024 = 0x4090000000000000"

fun trace_max_bytes :: "pyval \<Rightarrow> int option" where
  "trace_max_bytes (VFloat f) = map_option (max 1) (f64_trunc (f64_mul (f64_mul f f64_1024) f64_1024))"
| "trace_max_bytes v = map_option (\<lambda>i. max 1 (i * 1024 * 1024)) (as_int v)"

text \<open>\<open>__init__\<close>; \<open>can_open\<close> says whether the file could be opened (for appending).\<close>

definition tracer_init :: "mapping_options \<Rightarrow> bool \<Rightarrow> trace_files \<Rightarrow> tracer option" where
  "tracer_init o' can_open fs =
     (case (trace_max_bytes (mo_trace_max_mb o'), as_int (mo_trace_keep o')) of
        (Some mb, Some k) \<Rightarrow> Some \<lparr>tr_hex = mo_trace_hexdump o', tr_ts = mo_trace_timestamp o', tr_max_bytes = mb,
          tr_keep = nat k, tr_queue = [], tr_queued = 0, tr_dropped = 0, tr_active = can_open,
          tr_files = (if can_open then fs(0 := Some (case fs 0 of None \<Rightarrow> [] | Some b \<Rightarrow> b)) else fs)\<rparr>
      | _ \<Rightarrow> None)"

definition open_tracer :: "mapping_config \<Rightarrow> str option \<Rightarrow> bool \<Rightarrow> trace_files \<Rightarrow> tracer option" where
  "open_tracer m trace_dir can_open fs =
     (if mo_trace_both (mc_options m) = [] then None
      else if trace_dir = None \<or> trace_dir = Some [] then None
      else case tracer_init (mc_options m) can_open fs of
        None \<Rightarrow> None
      | Some t \<Rightarrow> if \<not> tr_active t then None else Some t)"

section \<open>Queueing\<close>

definition tracer_write :: "real \<Rightarrow> str \<Rightarrow> bytes \<Rightarrow> tracer \<Rightarrow> tracer" where
  "tracer_write now direction data t =
     (if \<not> tr_active t \<or> data = [] then t
      else if tr_queued t + int (length data) > QUEUE_MAX_BYTES then t\<lparr>tr_dropped := tr_dropped t + int (length data)\<rparr>
      else t\<lparr>tr_queued := tr_queued t + int (length data), tr_queue := tr_queue t @ [Some (now, direction, data)]\<rparr>)"

section \<open>Lines\<close>

definition hex_char :: "nat \<Rightarrow> nat" where
  "hex_char d = (if d < 10 then 48 + d else 87 + d)"

text \<open>\<open>data.hex(' ')\<close>.\<close>

definition hex_bytes :: "bytes \<Rightarrow> str" where
  "hex_bytes data = join_with 32 (map (\<lambda>b. [hex_char (unat b div 16), hex_char (unat b mod 16)]) data)"

definition encode_text :: "str \<Rightarrow> bytes" where
  "encode_text s = concat (map utf8_char s)"

definition tr_format :: "(real \<Rightarrow> str) \<Rightarrow> tracer \<Rightarrow> real \<Rightarrow> str \<Rightarrow> bytes \<Rightarrow> bytes" where
  "tr_format stamp t ts direction data =
     (let prefix = (if tr_ts t then stamp ts else []) in
      if tr_hex t then
        encode_text (prefix @ direction @ ascii '' ['' @ dec_str (int (length data)) @ ascii ''] '' @ hex_bytes data @ [10])
      else encode_text prefix @ encode_text direction @ [32] @ data @ [10])"

definition missing_text :: "int \<Rightarrow> bytes" where
  "missing_text n = encode_text (dec_str n @ ascii '' bytes not traced (the trace file could not keep up)'')"

text \<open>The body of the loop over a batch: the state is the tracer, the lines so far and \<open>stop\<close>.\<close>

definition trace_item :: "(real \<Rightarrow> str) \<Rightarrow> tracer \<times> bytes list \<times> bool \<Rightarrow> (real \<times> str \<times> bytes) option \<Rightarrow>
    tracer \<times> bytes list \<times> bool" where
  "trace_item stamp st item =
     (case (st, item) of
        ((t, out, stop), None) \<Rightarrow> (t, out, True)
      | ((t, out, stop), Some (ts, direction, data)) \<Rightarrow>
          let t' = t\<lparr>tr_queued := tr_queued t - int (length data), tr_dropped := 0\<rparr>;
              lost = (if tr_dropped t \<noteq> 0 then [tr_format stamp t ts (ascii ''!!'') (missing_text (tr_dropped t))] else [])
          in (t', out @ lost @ [tr_format stamp t ts direction data], stop))"

section \<open>The files\<close>

definition file_at :: "trace_files \<Rightarrow> nat \<Rightarrow> bytes" where
  "file_at fs i = (case fs i of None \<Rightarrow> [] | Some b \<Rightarrow> b)"

text \<open>\<open>_write\<close>: append to the open file.\<close>

definition file_write :: "bytes list \<Rightarrow> trace_files \<Rightarrow> trace_files" where
  "file_write lines fs = fs(0 := Some (file_at fs 0 @ concat lines))"

text \<open>The renames of \<open>_rotate\<close>, from index \<open>i\<close> down to 1, until one fails.\<close>

fun rotate_loop :: "(nat \<Rightarrow> bool) \<Rightarrow> nat \<Rightarrow> trace_files \<Rightarrow> trace_files" where
  "rotate_loop ok 0 fs = fs"
| "rotate_loop ok (Suc i) fs =
     (if fs i = None then rotate_loop ok i fs
      else if ok (Suc i) then rotate_loop ok i (fs(Suc i := fs i, i := None))
      else fs)"

definition rotate_files :: "(nat \<Rightarrow> bool) \<Rightarrow> nat \<Rightarrow> trace_files \<Rightarrow> trace_files" where
  "rotate_files ok keep fs =
     (if keep = 0 then fs(0 := Some [])
      else let fs' = rotate_loop ok keep fs in fs'(0 := Some (file_at fs' 0)))"

fun append_loop :: "(nat \<Rightarrow> bool) \<Rightarrow> nat \<Rightarrow> int \<Rightarrow> bytes list \<Rightarrow> bytes list \<Rightarrow> int \<Rightarrow> trace_files \<Rightarrow> trace_files" where
  "append_loop ok keep mb [] pending sz fs = (if pending \<noteq> [] then file_write pending fs else fs)"
| "append_loop ok keep mb (line # lines) pending sz fs =
     (if sz + int (length line) \<ge> mb
      then append_loop ok keep mb lines [] 0 (rotate_files ok keep (file_write (pending @ [line]) fs))
      else append_loop ok keep mb lines (pending @ [line]) (sz + int (length line)) fs)"

definition append_lines :: "(nat \<Rightarrow> bool) \<Rightarrow> bytes list \<Rightarrow> tracer \<Rightarrow> tracer" where
  "append_lines ok lines t =
     t\<lparr>tr_files := append_loop ok (tr_keep t) (tr_max_bytes t) lines [] (int (length (file_at (tr_files t) 0))) (tr_files t)\<rparr>"

text \<open>One round of the writer thread: up to \<open>BATCH\<close> queued items; after the sentinel the file is closed.\<close>

definition run_batch :: "(real \<Rightarrow> str) \<Rightarrow> (nat \<Rightarrow> bool) \<Rightarrow> tracer \<Rightarrow> tracer" where
  "run_batch stamp ok t =
     (let (t1, out, stop) = foldl (trace_item stamp) (t\<lparr>tr_queue := drop BATCH (tr_queue t)\<rparr>, [], False) (take BATCH (tr_queue t));
          t2 = (if out \<noteq> [] then append_lines ok out t1 else t1)
      in if stop then t2\<lparr>tr_active := False\<rparr> else t2)"

text \<open>\<open>aclose\<close>: queue the sentinel (and wait for the writer).\<close>

definition tracer_close :: "tracer \<Rightarrow> tracer" where
  "tracer_close t = (if \<not> tr_active t then t else t\<lparr>tr_queue := tr_queue t @ [None]\<rparr>)"

section \<open>Rotation keeps the trail\<close>

text \<open>Everything in the files, oldest first.\<close>

primrec older :: "nat \<Rightarrow> trace_files \<Rightarrow> bytes" where
  "older 0 fs = []"
| "older (Suc i) fs = file_at fs (Suc i) @ older i fs"

definition trail :: "nat \<Rightarrow> trace_files \<Rightarrow> bytes" where
  "trail keep fs = older keep fs @ file_at fs 0"

lemma file_at_upd: "file_at (fs(i := v)) j = (if i = j then (case v of None \<Rightarrow> [] | Some b \<Rightarrow> b) else file_at fs j)"
  by (simp add: file_at_def)

lemma file_at_None [simp]: "fs i = None \<Longrightarrow> file_at fs i = []"
  by (simp add: file_at_def)

lemma older_cong: "(\<And>j. 1 \<le> j \<Longrightarrow> j \<le> k \<Longrightarrow> file_at fs j = file_at gs j) \<Longrightarrow> older k fs = older k gs"
  by (induction k) auto

lemma rotate_loop_above: "j > i \<Longrightarrow> rotate_loop ok i fs j = fs j"
  by (induction i arbitrary: fs) auto

text \<open>When the last target is free nothing is overwritten; otherwise at most the oldest file is lost.\<close>

lemma trail_Suc: "trail (Suc i) fs = file_at fs (Suc i) @ trail i fs"
  by (simp add: trail_def)

lemma trail_cong: "(\<And>j. j \<le> k \<Longrightarrow> file_at fs j = file_at gs j) \<Longrightarrow> trail k fs = trail k gs"
  unfolding trail_def by (intro arg_cong2 [where f = append] older_cong) auto

lemma trail_gap: "trail i (fs(Suc i := v)) = trail i fs"
  by (rule trail_cong) (simp add: file_at_upd)

lemma trail_moved: "fs i \<noteq> None \<Longrightarrow>
    file_at fs i @ trail i (fs(Suc i := fs i, i := None)) = trail i fs"
  by (cases i) (auto simp: trail_def file_at_def intro!: older_cong)

lemma trail_rotate_free: "fs i = None \<Longrightarrow> trail i (rotate_loop ok i fs) = trail i fs"
proof (induction i arbitrary: fs)
  case (Suc i)
  show ?case
  proof (cases "fs i")
    case None
    then show ?thesis using Suc.IH [of fs] Suc.prems
      by (simp add: trail_Suc) (simp add: file_at_def rotate_loop_above)
  next
    case (Some b)
    let ?gs = "fs(Suc i := fs i, i := None)"
    have "trail i (rotate_loop ok i ?gs) = trail i ?gs" by (rule Suc.IH) simp
    then have "trail (Suc i) (rotate_loop ok i ?gs) = file_at fs i @ trail i ?gs"
      by (simp add: trail_Suc) (simp add: file_at_def rotate_loop_above)
    then show ?thesis using Some Suc.prems trail_moved [of fs i] by (auto simp: trail_Suc)
  qed
qed simp

lemma trail_rotate_loop:
  "trail (Suc i) (rotate_loop ok (Suc i) fs) \<in> {trail (Suc i) fs, trail i fs}"
proof (cases "fs i")
  case None
  then show ?thesis using trail_rotate_free [of fs i ok]
    by (simp add: trail_Suc) (simp add: file_at_def rotate_loop_above)
next
  case (Some b)
  let ?gs = "fs(Suc i := fs i, i := None)"
  have "trail (Suc i) (rotate_loop ok i ?gs) = file_at fs i @ trail i ?gs"
    using trail_rotate_free [of ?gs i ok]
    by (simp add: trail_Suc) (simp add: file_at_def rotate_loop_above)
  then show ?thesis using Some trail_moved [of fs i] by auto
qed

lemma trail_write: "trail k (file_write lines fs) = trail k fs @ concat lines"
proof -
  have "older k (file_write lines fs) = older k fs"
    by (rule older_cong) (simp add: file_write_def file_at_upd)
  then show ?thesis by (simp add: trail_def file_write_def file_at_upd)
qed

lemma trail_reopen: "trail k (fs(0 := Some (file_at fs 0))) = trail k fs"
  by (rule trail_cong) (simp add: file_at_upd)

lemma trail_rotate: "suffix (trail k (rotate_files ok k fs)) (trail k fs)"
proof (cases k)
  case 0
  then show ?thesis by (simp add: rotate_files_def trail_def file_at_upd)
next
  case (Suc i)
  have "suffix (trail (Suc i) (rotate_loop ok (Suc i) fs)) (trail (Suc i) fs)"
    using trail_rotate_loop [of i ok fs]
    by (metis insertE singletonD suffixI suffix_order.refl trail_Suc)
  then show ?thesis by (simp add: rotate_files_def Suc Let_def trail_reopen del: rotate_loop.simps)
qed

lemma suffix_append_right: "suffix a b \<Longrightarrow> suffix (a @ c) (b @ c)"
  by (auto simp: suffix_def)

lemma append_loop_suffix:
  "suffix (trail k (append_loop ok k mb lines pending sz fs)) (trail k fs @ concat pending @ concat lines)"
proof (induction lines arbitrary: pending sz fs)
  case Nil
  then show ?case by (simp add: trail_write)
next
  case (Cons line lines)
  show ?case
  proof (cases "sz + int (length line) \<ge> mb")
    case True
    let ?fs = "rotate_files ok k (file_write (pending @ [line]) fs)"
    have "suffix (trail k ?fs @ concat lines) ((trail k fs @ concat (pending @ [line])) @ concat lines)"
      using trail_rotate [of k ok "file_write (pending @ [line]) fs"]
      by (intro suffix_append_right) (simp add: trail_write)
    then show ?thesis using Cons.IH [of "[]" 0 ?fs] True suffix_order.trans by fastforce
  next
    case False
    then show ?thesis using Cons.IH [of "pending @ [line]" "sz + int (length line)" fs] by simp
  qed
qed

section \<open>Rotation keeps enough\<close>

text \<open>The files a tracer leaves behind: the open one exists, the rotated ones have no gap and are full size.\<close>

definition no_gap :: "nat \<Rightarrow> trace_files \<Rightarrow> bool" where
  "no_gap k fs \<longleftrightarrow> fs 0 \<noteq> None \<and> (\<forall>i < k. fs i = None \<longrightarrow> fs (Suc i) = None)"

definition full_sized :: "nat \<Rightarrow> int \<Rightarrow> trace_files \<Rightarrow> bool" where
  "full_sized k mb fs \<longleftrightarrow> (\<forall>i b. 1 \<le> i \<longrightarrow> i \<le> k \<longrightarrow> fs i = Some b \<longrightarrow> mb \<le> int (length b))"

definition all_kept :: "nat \<Rightarrow> trace_files \<Rightarrow> bool" where
  "all_kept k fs \<longleftrightarrow> (\<forall>i. 1 \<le> i \<longrightarrow> i \<le> k \<longrightarrow> fs i \<noteq> None)"

lemma no_gap_down: "no_gap k fs \<Longrightarrow> fs k \<noteq> None \<Longrightarrow> i \<le> k \<Longrightarrow> fs i \<noteq> None"
proof (induction k)
  case (Suc k)
  then have "fs k \<noteq> None" "no_gap k fs" by (auto simp: no_gap_def)
  then show ?case using Suc by (cases "i = Suc k") auto
qed simp

lemma rotate_loop_shift:
  assumes "\<forall>i < k. fs i = None \<longrightarrow> fs (Suc i) = None" and "1 \<le> j" and "j \<le> k"
  shows "rotate_loop (\<lambda>_. True) k fs j = fs (j - 1)"
  using assms
proof (induction k arbitrary: fs j)
  case (Suc k)
  let ?gs = "if fs k = None then fs else fs(Suc k := fs k, k := None)"
  have gs: "\<forall>i < k. ?gs i = None \<longrightarrow> ?gs (Suc i) = None" using Suc.prems by auto
  have step: "rotate_loop (\<lambda>_. True) (Suc k) fs = rotate_loop (\<lambda>_. True) k ?gs" by simp
  show ?case
  proof (cases "j = Suc k")
    case True
    then show ?thesis using Suc.prems unfolding step by (auto simp: rotate_loop_above)
  next
    case False
    then have "rotate_loop (\<lambda>_. True) k ?gs j = ?gs (j - 1)"
      using Suc.prems gs by (intro Suc.IH) auto
    moreover have "j - 1 < k" using False Suc.prems by auto
    ultimately show ?thesis unfolding step by auto
  qed
qed simp

lemma rotate_loop_zero:
  "fs 0 \<noteq> None \<Longrightarrow> 0 < k \<Longrightarrow> rotate_loop (\<lambda>_. True) k fs 0 = None"
proof (induction k arbitrary: fs)
  case (Suc k)
  show ?case
  proof (cases "k = 0")
    case False
    then show ?thesis using Suc.IH Suc.prems by simp
  qed (use Suc.prems in simp)
qed simp

lemma rotate_shift:
  assumes "no_gap k fs"
  shows "rotate_files (\<lambda>_. True) k fs 0 = Some []"
    and "1 \<le> j \<Longrightarrow> j \<le> k \<Longrightarrow> rotate_files (\<lambda>_. True) k fs j = fs (j - 1)"
proof -
  have "rotate_loop (\<lambda>_. True) k fs 0 = None" if "0 < k"
    using rotate_loop_zero [OF _ that] assms by (simp add: no_gap_def)
  then show "rotate_files (\<lambda>_. True) k fs 0 = Some []" by (auto simp: rotate_files_def file_at_def Let_def)
  show "1 \<le> j \<Longrightarrow> j \<le> k \<Longrightarrow> rotate_files (\<lambda>_. True) k fs j = fs (j - 1)"
    using rotate_loop_shift [of k fs j] assms by (simp add: rotate_files_def no_gap_def Let_def)
qed

lemma rotate_keeps:
  assumes "no_gap k fs" and "full_sized k mb fs" and "mb \<le> int (length (file_at fs 0))"
  shows "no_gap k (rotate_files (\<lambda>_. True) k fs) \<and> full_sized k mb (rotate_files (\<lambda>_. True) k fs)"
proof
  note r = rotate_shift [OF assms(1)]
  show "no_gap k (rotate_files (\<lambda>_. True) k fs)"
    unfolding no_gap_def
  proof (intro conjI allI impI)
    fix i
    assume i: "i < k" "rotate_files (\<lambda>_. True) k fs i = None"
    then have "1 \<le> i" using r(1) by (cases i) auto
    then have "fs (i - 1) = None" "i - 1 < k" using i r(2) by auto
    then have "fs i = None" using assms(1) \<open>1 \<le> i\<close> unfolding no_gap_def by (metis Suc_diff_1 less_eq_Suc_le One_nat_def)
    then show "rotate_files (\<lambda>_. True) k fs (Suc i) = None" using r(2) [of "Suc i"] i(1) by simp
  qed (simp add: r)
  show "full_sized k mb (rotate_files (\<lambda>_. True) k fs)"
    unfolding full_sized_def
  proof (intro allI impI)
    fix i b
    assume i: "1 \<le> i" "i \<le> k" "rotate_files (\<lambda>_. True) k fs i = Some b"
    then have b: "fs (i - 1) = Some b" using r(2) by simp
    show "mb \<le> int (length b)"
    proof (cases "i = 1")
      case True
      then show ?thesis using assms(3) b by (simp add: file_at_def)
    next
      case False
      then have "1 \<le> i - 1" "i - 1 \<le> k" using i(1,2) by auto
      then show ?thesis using assms(2) b unfolding full_sized_def by blast
    qed
  qed
qed

lemma rotate_lost:
  assumes "no_gap k fs"
  shows "(trail k (rotate_files (\<lambda>_. True) k fs) = trail k fs \<or> all_kept k (rotate_files (\<lambda>_. True) k fs)) \<and>
    (all_kept k fs \<longrightarrow> all_kept k (rotate_files (\<lambda>_. True) k fs))"
proof (cases "fs k = None")
  case True
  then have "0 < k" using assms by (cases k) (auto simp: no_gap_def)
  then have "trail k (rotate_files (\<lambda>_. True) k fs) = trail k fs"
    using trail_rotate_free [of fs k, OF True] by (simp add: rotate_files_def Let_def trail_reopen)
  moreover have "\<not> all_kept k fs" using True \<open>0 < k\<close> by (auto simp: all_kept_def intro!: exI [of _ k])
  ultimately show ?thesis by simp
next
  case False
  then have "fs (i - 1) \<noteq> None" if "1 \<le> i" "i \<le> k" for i
    using no_gap_down [OF assms False, of "i - 1"] that by simp
  then have "all_kept k (rotate_files (\<lambda>_. True) k fs)"
    using rotate_shift(2) [OF assms] by (simp add: all_kept_def)
  then show ?thesis by simp
qed

lemma file_write_keeps:
  "no_gap k fs \<Longrightarrow> no_gap k (file_write ls fs)" "full_sized k mb fs \<Longrightarrow> full_sized k mb (file_write ls fs)"
  "all_kept k (file_write ls fs) = all_kept k fs" "file_at (file_write ls fs) 0 = file_at fs 0 @ concat ls"
  by (auto simp: no_gap_def full_sized_def all_kept_def file_write_def file_at_upd)

lemma append_loop_keeps:
  assumes "no_gap k fs" and "full_sized k mb fs" and "0 < mb"
    and "sz = int (length (file_at fs 0)) + int (length (concat pending))"
    and "pending \<noteq> [] \<or> lines = [] \<longrightarrow> sz < mb"
  shows "no_gap k (append_loop (\<lambda>_. True) k mb lines pending sz fs) \<and>
    full_sized k mb (append_loop (\<lambda>_. True) k mb lines pending sz fs) \<and>
    int (length (file_at (append_loop (\<lambda>_. True) k mb lines pending sz fs) 0)) < mb \<and>
    (trail k (append_loop (\<lambda>_. True) k mb lines pending sz fs) = trail k fs @ concat pending @ concat lines \<or>
     all_kept k (append_loop (\<lambda>_. True) k mb lines pending sz fs)) \<and>
    (all_kept k fs \<longrightarrow> all_kept k (append_loop (\<lambda>_. True) k mb lines pending sz fs))"
  using assms
proof (induction lines arbitrary: pending sz fs)
  case Nil
  then show ?case by (cases "pending = []") (auto simp: file_write_keeps trail_write)
next
  case (Cons line lines)
  show ?case
  proof (cases "sz + int (length line) \<ge> mb")
    case True
    let ?w = "file_write (pending @ [line]) fs"
    let ?fs = "rotate_files (\<lambda>_. True) k ?w"
    have w: "no_gap k ?w" "full_sized k mb ?w" using Cons.prems by (auto simp: file_write_keeps)
    have sz: "mb \<le> int (length (file_at ?w 0))" using True Cons.prems(4) by (simp add: file_write_keeps)
    have z: "file_at ?fs 0 = []" using rotate_shift(1) [OF w(1)] by (simp add: file_at_def)
    have IH: "no_gap k (append_loop (\<lambda>_. True) k mb lines [] 0 ?fs) \<and>
      full_sized k mb (append_loop (\<lambda>_. True) k mb lines [] 0 ?fs) \<and>
      int (length (file_at (append_loop (\<lambda>_. True) k mb lines [] 0 ?fs) 0)) < mb \<and>
      (trail k (append_loop (\<lambda>_. True) k mb lines [] 0 ?fs) = trail k ?fs @ concat [] @ concat lines \<or>
       all_kept k (append_loop (\<lambda>_. True) k mb lines [] 0 ?fs)) \<and>
      (all_kept k ?fs \<longrightarrow> all_kept k (append_loop (\<lambda>_. True) k mb lines [] 0 ?fs))"
      using rotate_keeps [OF w sz] Cons.prems(3) z by (intro Cons.IH) auto
    moreover have "trail k ?fs = trail k ?w \<or> all_kept k ?fs" "all_kept k ?w \<longrightarrow> all_kept k ?fs"
      using rotate_lost [OF w(1)] by auto
    ultimately show ?thesis using True by (auto simp: trail_write file_write_keeps)
  next
    case False
    have "no_gap k (append_loop (\<lambda>_. True) k mb lines (pending @ [line]) (sz + int (length line)) fs) \<and>
      full_sized k mb (append_loop (\<lambda>_. True) k mb lines (pending @ [line]) (sz + int (length line)) fs) \<and>
      int (length (file_at (append_loop (\<lambda>_. True) k mb lines (pending @ [line]) (sz + int (length line)) fs) 0)) < mb \<and>
      (trail k (append_loop (\<lambda>_. True) k mb lines (pending @ [line]) (sz + int (length line)) fs)
         = trail k fs @ concat (pending @ [line]) @ concat lines \<or>
       all_kept k (append_loop (\<lambda>_. True) k mb lines (pending @ [line]) (sz + int (length line)) fs)) \<and>
      (all_kept k fs \<longrightarrow> all_kept k (append_loop (\<lambda>_. True) k mb lines (pending @ [line]) (sz + int (length line)) fs))"
      using Cons.prems False by (intro Cons.IH) auto
    then show ?thesis using False by simp
  qed
qed

lemma older_length:
  "full_sized k mb fs \<Longrightarrow> all_kept k fs \<Longrightarrow> int k * mb \<le> int (length (older k fs))"
proof (induction k)
  case (Suc k)
  then have "full_sized k mb fs" "all_kept k fs" by (auto simp: full_sized_def all_kept_def)
  moreover obtain b where "fs (Suc k) = Some b" using Suc.prems(2) by (auto simp: all_kept_def)
  then have "mb \<le> int (length (file_at fs (Suc k)))"
    using Suc.prems(1) by (auto simp: full_sized_def file_at_def)
  ultimately show ?case using Suc.IH by (simp add: distrib_right)
qed simp

section \<open>Accounting\<close>

text \<open>What a batch writes: gaps of dropped bytes and chunks.\<close>

datatype trace_entry = Missing int | Chunk str bytes

fun batch_entries :: "int \<Rightarrow> (real \<times> str \<times> bytes) option list \<Rightarrow> (real \<times> trace_entry) list" where
  "batch_entries n [] = []"
| "batch_entries n (None # items) = batch_entries n items"
| "batch_entries n (Some (ts, d, data) # items) =
     (if n \<noteq> 0 then [(ts, Missing n)] else []) @ [(ts, Chunk d data)] @ batch_entries 0 items"

fun entry_line :: "(real \<Rightarrow> str) \<Rightarrow> tracer \<Rightarrow> real \<times> trace_entry \<Rightarrow> bytes" where
  "entry_line stamp t (ts, Missing n) = tr_format stamp t ts (ascii ''!!'') (missing_text n)"
| "entry_line stamp t (ts, Chunk d data) = tr_format stamp t ts d data"

fun entry_size :: "trace_entry \<Rightarrow> int" where
  "entry_size (Missing n) = n"
| "entry_size (Chunk d data) = int (length data)"

definition queue_size :: "(real \<times> str \<times> bytes) option list \<Rightarrow> int" where
  "queue_size q = (\<Sum>i \<leftarrow> q. case i of None \<Rightarrow> 0 | Some (_, _, d) \<Rightarrow> int (length d))"

lemma queue_size_simps [simp]:
  "queue_size [] = 0" "queue_size (None # q) = queue_size q"
  "queue_size (Some (ts, d, data) # q) = int (length data) + queue_size q"
  "queue_size (a @ b) = queue_size a + queue_size b"
  by (simp_all add: queue_size_def)

lemma queue_size_nonneg [simp]: "0 \<le> queue_size q"
  by (induction q) (auto simp: queue_size_def split: option.splits)

lemma queue_size_split: "queue_size (take n q) + queue_size (drop n q) = queue_size q"
  using queue_size_simps(4) [of "take n q" "drop n q"] by simp

lemma tr_format_counters [simp]:
  "tr_format stamp (t\<lparr>tr_queued := a, tr_dropped := b\<rparr>) = tr_format stamp t"
  "tr_format stamp (t\<lparr>tr_queue := q\<rparr>) = tr_format stamp t"
  by (simp_all add: tr_format_def fun_eq_iff)

lemma entry_line_counters:
  "entry_line stamp (t\<lparr>tr_queued := a, tr_dropped := b\<rparr>) e = entry_line stamp t e"
  "entry_line stamp (t\<lparr>tr_queue := q\<rparr>) e = entry_line stamp t e"
  by (cases e; cases "snd e"; simp)+

lemma trace_item_simps:
  "trace_item stamp (t, out, stop) None = (t, out, True)"
  "trace_item stamp (t, out, stop) (Some (ts, d, data)) =
     (t\<lparr>tr_queued := tr_queued t - int (length data), tr_dropped := 0\<rparr>,
      out @ map (entry_line stamp t) ((if tr_dropped t \<noteq> 0 then [(ts, Missing (tr_dropped t))] else []) @ [(ts, Chunk d data)]), stop)"
  by (simp_all add: trace_item_def Let_def)

lemma batch_lines:
  "foldl (trace_item stamp) (t, out, stop) items =
    (t\<lparr>tr_queued := tr_queued t - queue_size items,
       tr_dropped := (if \<exists>i \<in> set items. i \<noteq> None then 0 else tr_dropped t)\<rparr>,
     out @ map (entry_line stamp t) (batch_entries (tr_dropped t) items), stop \<or> None \<in> set items)"
proof (induction items arbitrary: t out stop)
  case (Cons i items)
  show ?case
  proof (cases i)
    case None
    then show ?thesis by (simp add: trace_item_simps Cons.IH)
  next
    case (Some x)
    obtain ts d data where x: "x = (ts, d, data)" by (cases x) auto
    show ?thesis
      by (simp add: Some x trace_item_simps Cons.IH entry_line_counters del: entry_line.simps cong: map_cong)
  qed
qed simp

datatype trace_event = T_write real str bytes | T_batch | T_close

text \<open>A history of a tracer: its state, the bytes offered to it while it was active, and the entries written.\<close>

fun trace_step :: "(real \<Rightarrow> str) \<Rightarrow> (nat \<Rightarrow> bool) \<Rightarrow> tracer \<times> int \<times> trace_entry list \<Rightarrow> trace_event \<Rightarrow>
    tracer \<times> int \<times> trace_entry list" where
  "trace_step stamp ok (t, n, es) (T_write now d data) =
     (tracer_write now d data t, if tr_active t then n + int (length data) else n, es)"
| "trace_step stamp ok (t, n, es) T_batch =
     (run_batch stamp ok t, n, es @ map snd (batch_entries (tr_dropped t) (take BATCH (tr_queue t))))"
| "trace_step stamp ok (t, n, es) T_close = (tracer_close t, n, es)"

definition trace_accounts :: "tracer \<times> int \<times> trace_entry list \<Rightarrow> bool" where
  "trace_accounts st \<longleftrightarrow> (case st of (t, n, es) \<Rightarrow>
     tr_queued t = queue_size (tr_queue t) \<and> tr_queued t \<le> QUEUE_MAX_BYTES \<and> 0 \<le> tr_dropped t \<and>
     n = sum_list (map entry_size es) + tr_queued t + tr_dropped t)"

lemma batch_entries_size:
  "sum_list (map entry_size (map snd (batch_entries n items)))
    = queue_size items + (if \<exists>i \<in> set items. i \<noteq> None then n else 0)"
  by (induction n items rule: batch_entries.induct) auto

lemma run_batch_fields:
  "tr_queue (run_batch stamp ok t) = drop BATCH (tr_queue t)"
  "tr_queued (run_batch stamp ok t) = tr_queued t - queue_size (take BATCH (tr_queue t))"
  "tr_dropped (run_batch stamp ok t) = (if \<exists>i \<in> set (take BATCH (tr_queue t)). i \<noteq> None then 0 else tr_dropped t)"
  by (simp_all add: run_batch_def batch_lines Let_def append_lines_def)

lemma trace_step_accounts:
  assumes "trace_accounts st"
  shows "trace_accounts (trace_step stamp ok st ev)"
proof (cases "(stamp, ok, st, ev)" rule: trace_step.cases)
  case (1 s k t n es now d data)
  then show ?thesis using assms by (auto simp: trace_accounts_def tracer_write_def)
next
  case (2 s k t n es)
  have "0 \<le> queue_size (take BATCH (tr_queue t))" by simp
  then show ?thesis using assms 2 queue_size_split [of BATCH "tr_queue t"]
    by (auto simp: trace_accounts_def run_batch_fields batch_entries_size simp del: queue_size_nonneg map_map)
next
  case (3 s k t n es)
  then show ?thesis using assms by (auto simp: trace_accounts_def tracer_close_def)
qed

lemma trace_run_accounts: "trace_accounts st \<Longrightarrow> trace_accounts (foldl (trace_step stamp ok) st evs)"
  by (induction evs rule: rev_induct) (simp_all add: trace_step_accounts)

section \<open>Properties\<close>

definition sample_tracer :: tracer where
  "sample_tracer = \<lparr>tr_hex = False, tr_ts = False, tr_max_bytes = 8, tr_keep = 1, tr_queue = [], tr_queued = 0, tr_dropped = 0,
     tr_active = True, tr_files = (\<lambda>i. if i = 0 then Some [1, 2, 3] else None)\<rparr>"

text \<open>The trace accounts for every byte offered to it: after any sequence of writes, writer batches and a close, the
  bytes offered are exactly those in the chunks written, plus those reported as missing, plus those still queued, plus
  those dropped and not yet reported; the queue counter is the size of the queue and never exceeds its limit.\<close>
lemma tracer_accounts:
  assumes "tracer_init o' True fs = Some t0"
    and "foldl (trace_step stamp ok) (t0, 0, []) evs = (t, offered, es)"
  shows "offered = sum_list (map entry_size es) + queue_size (tr_queue t) + tr_dropped t \<and>
    tr_queued t = queue_size (tr_queue t) \<and> tr_queued t \<le> QUEUE_MAX_BYTES"
proof -
  have "trace_accounts (t0, 0, [])"
    using assms(1) by (auto simp: tracer_init_def trace_accounts_def QUEUE_MAX_BYTES_def split: option.splits)
  from trace_run_accounts [OF this, of stamp ok evs] show ?thesis
    unfolding assms(2) by (simp add: trace_accounts_def)
qed

theorem tracer_accounts_witness:
  "\<exists>t0 t es. tracer_init (mc_options (sample_mapping ''m'' ''net'' ''/dev/ttyS0'')) True Map.empty = Some t0 \<and>
    foldl (trace_step (\<lambda>_. []) (\<lambda>_. True)) (t0, 0, []) [T_write 0 (ascii ''ser>net'') [1, 2, 3], T_batch, T_write 1 (ascii ''net>ser'') [4]]
      = (t, 4, es) \<and> 4 = sum_list (map entry_size es) + queue_size (tr_queue t) + tr_dropped t"
proof -
  obtain t0 where t0: "tracer_init (mc_options (sample_mapping ''m'' ''net'' ''/dev/ttyS0'')) True Map.empty = Some t0"
    "tr_active t0"
    by (simp add: tracer_init_def sample_mapping_def)
  obtain t n es where r: "foldl (trace_step (\<lambda>_. []) (\<lambda>_. True)) (t0, 0, [])
      [T_write 0 (ascii ''ser>net'') [1, 2, 3], T_batch, T_write 1 (ascii ''net>ser'') [4]] = (t, n, es)"
    by (cases "foldl (trace_step (\<lambda>_. []) (\<lambda>_. True)) (t0, 0, [])
      [T_write 0 (ascii ''ser>net'') [1, 2, 3], T_batch, T_write 1 (ascii ''net>ser'') [4]]")
  have "tr_queue t0 = []" "tr_queued t0 = 0" using t0(1) by (auto simp: tracer_init_def split: option.splits)
  then have "tr_active (run_batch (\<lambda>_. []) (\<lambda>_. True) (tracer_write 0 (ascii ''ser>net'') [1, 2, 3] t0))"
    using t0(2) by (simp add: tracer_write_def QUEUE_MAX_BYTES_def run_batch_def trace_item_simps BATCH_def append_lines_def)
  then have "n = 4" using r t0(2) by simp
  then show ?thesis using t0(1) r tracer_accounts [OF t0(1) r] by blast
qed

text \<open>Appending to the trace loses only the oldest files: with \<open>lost\<close> possibly empty, the files before followed by the
  new lines are \<open>lost\<close> followed by the files after, whichever renames fail; when the renames succeed, at least
  \<open>keep * max_bytes\<close> bytes remain whenever anything is lost, the open file stays below \<open>max_bytes\<close>, and the
  rotated files stay gap-free and full-sized.\<close>
theorem trace_rotation:
  assumes "no_gap (tr_keep t) (tr_files t)" and "full_sized (tr_keep t) (tr_max_bytes t) (tr_files t)"
    and "0 < tr_max_bytes t" and "lines \<noteq> []"
  shows "(\<exists>lost. trail (tr_keep t) (tr_files t) @ concat lines = lost @ trail (tr_keep t) (tr_files (append_lines ok lines t))) \<and>
    (let fs = tr_files (append_lines (\<lambda>_. True) lines t) in
      no_gap (tr_keep t) fs \<and> full_sized (tr_keep t) (tr_max_bytes t) fs \<and>
      int (length (file_at fs 0)) < tr_max_bytes t \<and>
      (trail (tr_keep t) fs = trail (tr_keep t) (tr_files t) @ concat lines \<or>
       int (tr_keep t) * tr_max_bytes t \<le> int (length (trail (tr_keep t) fs))))"
proof
  let ?fs = "tr_files (append_lines (\<lambda>_. True) lines t)"
  show "\<exists>lost. trail (tr_keep t) (tr_files t) @ concat lines = lost @ trail (tr_keep t) (tr_files (append_lines ok lines t))"
    using append_loop_suffix [of "tr_keep t" ok "tr_max_bytes t" lines "[]"]
    by (simp add: append_lines_def suffix_def)
  have "no_gap (tr_keep t) ?fs \<and> full_sized (tr_keep t) (tr_max_bytes t) ?fs \<and>
      int (length (file_at ?fs 0)) < tr_max_bytes t \<and>
      (trail (tr_keep t) ?fs = trail (tr_keep t) (tr_files t) @ concat [] @ concat lines \<or> all_kept (tr_keep t) ?fs)"
    using append_loop_keeps [OF assms(1-3), of _ "[]" lines] assms(4) by (simp add: append_lines_def)
  moreover have "int (tr_keep t) * tr_max_bytes t \<le> int (length (trail (tr_keep t) ?fs))"
    if "full_sized (tr_keep t) (tr_max_bytes t) ?fs" "all_kept (tr_keep t) ?fs"
    using older_length [OF that] by (simp add: trail_def)
  ultimately show "let fs = ?fs in
      no_gap (tr_keep t) fs \<and> full_sized (tr_keep t) (tr_max_bytes t) fs \<and>
      int (length (file_at fs 0)) < tr_max_bytes t \<and>
      (trail (tr_keep t) fs = trail (tr_keep t) (tr_files t) @ concat lines \<or>
       int (tr_keep t) * tr_max_bytes t \<le> int (length (trail (tr_keep t) fs)))"
    by (auto simp: Let_def)
qed

theorem trace_rotation_witness:
  "let fs = tr_files (append_lines (\<lambda>_. True) [[4, 5, 6, 7, 8], [9]] sample_tracer) in
    fs 0 = Some [9] \<and> fs 1 = Some [1, 2, 3, 4, 5, 6, 7, 8] \<and>
    int (length (file_at fs 0)) < 8 \<and> 8 \<le> int (length (trail 1 fs))"
proof -
  have fs: "tr_files (append_lines (\<lambda>_. True) [[4, 5, 6, 7, 8], [9]] sample_tracer) 0 = Some [9]"
    "tr_files (append_lines (\<lambda>_. True) [[4, 5, 6, 7, 8], [9]] sample_tracer) 1 = Some [1, 2, 3, 4, 5, 6, 7, 8]"
    by code_simp+
  have "no_gap (tr_keep sample_tracer) (tr_files sample_tracer)"
    "full_sized (tr_keep sample_tracer) (tr_max_bytes sample_tracer) (tr_files sample_tracer)"
    "0 < tr_max_bytes sample_tracer" "[[4, 5, 6, 7, 8], [9]] \<noteq> ([] :: bytes list)"
    by (simp_all add: sample_tracer_def no_gap_def full_sized_def)
  from trace_rotation [OF this, of "\<lambda>_. True"] fs show ?thesis
    by (auto simp: Let_def sample_tracer_def trail_def file_at_def)
qed

end
