(* ===== verification/Bridge.thy ===== *)
theory Bridge
  imports Rfc2217 Mqtt_Pub Tracer Ipaddr
begin

text \<open>
  \<open>app/engine/bridge.py\<close>: the runner of a mapping. One serial port is shared by TCP clients (each with its
  protocol session and its bounded output queue) or by one UDP peer. The coroutines are split at their
  \<open>await\<close>s: a step between two of them is one function on the runner's state, and an interleaving is a list of
  steps. What is handed to a socket, to the serial writer, to MQTT or to a monitor is kept in the state, in order.
  The port manager of RFC 2217, the serial device and the clock are parameters.
\<close>

section \<open>Texts\<close>

text \<open>\<open>str.replace\<close> for a non-empty pattern; \<open>k\<close> characters of a match are still to be skipped.\<close>

fun replace_from :: "str \<Rightarrow> str \<Rightarrow> nat \<Rightarrow> str \<Rightarrow> str" where
  "replace_from old new k [] = []"
| "replace_from old new k (c # cs) =
     (if k > 0 then replace_from old new (k - 1) cs
      else if is_prefix_of old (c # cs) then new @ replace_from old new (length old - 1) cs
      else c # replace_from old new 0 cs)"

definition str_replace :: "str \<Rightarrow> str \<Rightarrow> str \<Rightarrow> str" where
  "str_replace old new s = replace_from old new 0 s"

text \<open>\<open>sep.join(xs)\<close>.\<close>

fun join_text :: "str \<Rightarrow> str list \<Rightarrow> str" where
  "join_text sep [] = []"
| "join_text sep [x] = x"
| "join_text sep (x # xs) = x @ sep @ join_text sep xs"

text \<open>\<open>s.encode("utf-8", "replace")\<close>: a lone surrogate becomes a question mark.\<close>

definition encode_replace :: "str \<Rightarrow> bytes" where
  "encode_replace s = concat (map (\<lambda>c. if scalar_value c then utf8_char c else [63]) s)"

definition pad2 :: "int \<Rightarrow> str" where
  "pad2 i = (if i < 10 then 48 # dec_str i else dec_str i)"

definition fmt_duration :: "real \<Rightarrow> str" where
  "fmt_duration secs' =
     (let secs = max 0 \<lfloor>secs'\<rfloor>; h = secs div 3600; rm = secs mod 3600; m = rm div 60; s = rm mod 60 in
      if h \<noteq> 0 then dec_str h @ ascii ''h '' @ pad2 m @ ascii ''m''
      else if m \<noteq> 0 then dec_str m @ ascii ''m '' @ pad2 s @ ascii ''s''
      else dec_str s @ ascii ''s'')"

text \<open>The exceptions \<open>describe_disconnect\<close> tells apart, with what it reads of them.\<close>

datatype exn_kind = X_disconnect | X_reset | X_incomplete | X_other

record exn =
  ex_kind :: exn_kind
  ex_winerror :: "int option"
  ex_errno :: "int option"
  ex_type :: str
  ex_text :: str

definition PEER_TIMEOUT_ERRNOS :: "int \<Rightarrow> int list" where
  "PEER_TIMEOUT_ERRNOS etimedout = [etimedout, 10060, 10052, 121]"

definition exn_code :: "exn \<Rightarrow> int option" where
  "exn_code e = (case ex_winerror e of Some c \<Rightarrow> if c \<noteq> 0 then Some c else ex_errno e | None \<Rightarrow> ex_errno e)"

definition describe_disconnect :: "int \<Rightarrow> bool \<Rightarrow> exn \<Rightarrow> str" where
  "describe_disconnect etimedout win32 e =
     (if ex_kind e = X_disconnect then ex_text e
      else if (case exn_code e of Some c \<Rightarrow> c \<in> set (PEER_TIMEOUT_ERRNOS etimedout) | None \<Rightarrow> False)
      then ascii ''peer stopped responding (TCP timeout: unreachable, or not reading its data)''
      else if ex_kind e = X_reset then
        (if win32 then ascii ''connection reset (by the peer, or TCP keepalive found it unreachable)''
         else ascii ''connection reset by peer'')
      else if ex_kind e = X_incomplete then ascii ''closed by peer''
      else if ex_text e \<noteq> [] then ex_type e @ ascii '': '' @ ex_text e else ex_type e)"

datatype exn_tree = Leaf exn | Group "exn_tree list"

fun iter_leaf_exceptions :: "exn_tree \<Rightarrow> exn list" where
  "iter_leaf_exceptions (Leaf e) = [e]"
| "iter_leaf_exceptions (Group es) = concat (map iter_leaf_exceptions es)"

definition render_banner :: "str \<Rightarrow> mapping_config \<Rightarrow> str \<Rightarrow> str \<Rightarrow> bytes" where
  "render_banner template m device peer =
     (let port = (case ns_port (mc_network m) of VInt i \<Rightarrow> dec_str i | _ \<Rightarrow> []);
          s1 = str_replace [92, 100] device template;
          s2 = str_replace [92, 78] (mc_name m) s1;
          s3 = str_replace [92, 112] port s2;
          s4 = str_replace [92, 73] peer s3;
          s5 = str_replace [92, 114] [13] s4
      in encode_replace (str_replace [92, 110] [10] s5))"

section \<open>State\<close>

text \<open>An entry of \<open>status.clients\<close>: peer, connection time, priority.\<close>

type_synonym client_info = "str \<times> real \<times> bool"

record runner_status =
  rs_state :: str
  rs_device :: str
  rs_client_count :: nat
  rs_clients :: "client_info list"
  rs_bytes_in :: int
  rs_bytes_out :: int
  rs_reconnects :: int
  rs_dropped_clients :: int
  rs_queue_overflows :: int
  rs_last_error :: str

text \<open>A \<open>_ClientConn\<close>: \<open>cc_out\<close> is its queue (\<open>None\<close> the graceful-close sentinel), \<open>cc_sent\<close> what was written to
  its socket, \<open>cc_aborted\<close> whether the transport was aborted.\<close>

record 'p client =
  cc_id :: nat
  cc_ip :: str
  cc_peer :: str
  cc_priority :: bool
  cc_at :: real
  cc_queue_max :: int
  cc_out :: "bytes option list"
  cc_session :: "'p session option"
  cc_last :: real
  cc_closing :: bool
  cc_reason :: str
  cc_aborted :: bool
  cc_sent :: bytes

text \<open>A \<open>_UdpPeer\<close> with the datagrams sent to it.\<close>

record udp_peer =
  up_addr :: "str \<times> int"
  up_peer :: str
  up_at :: real
  up_sent :: "(bytes \<times> str \<times> int) list"

datatype 'p endpoint = TCP "'p client" | UDP udp_peer

record ('p, 's) runner =
  rn_mapping :: mapping_config
  rn_status :: runner_status
  rn_clients :: "'p endpoint list"
  rn_ser :: "'s option"
  rn_swriter :: "bytes option"
  rn_tracer :: "tracer option"
  rn_mqtt :: "unit mqtt_pub option"
  rn_mqtt_out :: "mqtt_msg list"
  rn_console :: "bytes list"
  rn_traffic :: "(int \<times> bytes) list"
  rn_udp :: bool
  rn_server :: bool
  rn_serial_task :: bool
  rn_main_task :: bool
  rn_ready :: bool
  rn_stop :: bool
  rn_allowed :: "ipnet list"
  rn_priority :: "ipnet list"
  rn_closeon :: bytes
  rn_tail :: bytes

definition CLIENT_QUEUE_MAX :: int where "CLIENT_QUEUE_MAX = 2048"

definition py_count :: "pyval \<Rightarrow> int" where
  "py_count v = (case as_int v of Some i \<Rightarrow> i | None \<Rightarrow> 0)"

definition peer_label :: "str \<Rightarrow> int \<Rightarrow> str" where
  "peer_label ip port = (if port \<noteq> 0 then ip @ 58 # dec_str port else ip)"

definition new_client :: "mapping_config \<Rightarrow> nat \<Rightarrow> str \<Rightarrow> int \<Rightarrow> bool \<Rightarrow> real \<Rightarrow> 'p client" where
  "new_client m cid ip port prio now =
     \<lparr>cc_id = cid, cc_ip = ip, cc_peer = peer_label ip port, cc_priority = prio, cc_at = now,
      cc_queue_max = (if py_count (ns_client_queue_max (mc_network m)) \<noteq> 0
                      then py_count (ns_client_queue_max (mc_network m)) else CLIENT_QUEUE_MAX),
      cc_out = [], cc_session = None, cc_last = now, cc_closing = False, cc_reason = [], cc_aborted = False, cc_sent = []\<rparr>"

definition init_status :: runner_status where
  "init_status = \<lparr>rs_state = ascii ''stopped'', rs_device = [], rs_client_count = 0, rs_clients = [], rs_bytes_in = 0,
     rs_bytes_out = 0, rs_reconnects = 0, rs_dropped_clients = 0, rs_queue_overflows = 0, rs_last_error = []\<rparr>"

text \<open>\<open>as_dict\<close>: the clients with their connection times as durations; the other fields are passed on.\<close>

definition status_clients :: "real \<Rightarrow> runner_status \<Rightarrow> (str \<times> str \<times> bool) list" where
  "status_clients now s = map (\<lambda>(peer, since, prio). (peer, fmt_duration (now - since), prio)) (rs_clients s)"

definition parse_allowed :: "str list \<Rightarrow> ipnet list" where
  "parse_allowed cidrs = concat (map (\<lambda>c. case ip_network (normalize_cidr c) of Some n \<Rightarrow> [n] | None \<Rightarrow> []) cidrs)"

definition runner_init :: "mapping_config \<Rightarrow> ('p, 's) runner" where
  "runner_init m =
     \<lparr>rn_mapping = m, rn_status = init_status, rn_clients = [], rn_ser = None, rn_swriter = None, rn_tracer = None,
      rn_mqtt = None, rn_mqtt_out = [], rn_console = [], rn_traffic = [], rn_udp = False, rn_server = False,
      rn_serial_task = False, rn_main_task = False, rn_ready = False, rn_stop = False,
      rn_allowed = parse_allowed (ns_allowed_client_ips (mc_network m)),
      rn_priority = parse_allowed (ns_priority_client_ips (mc_network m)),
      rn_closeon = (if mo_closeon (mc_options m) \<noteq> [] then encode_replace (mo_closeon (mc_options m)) else []), rn_tail = []\<rparr>"

section \<open>One client\<close>

text \<open>\<open>self._out.put_nowait(x)\<close>: \<open>None\<close> is \<open>QueueFull\<close>.\<close>

definition put_nowait :: "bytes option \<Rightarrow> 'p client \<Rightarrow> 'p client option" where
  "put_nowait x c = (if int (length (cc_out c)) \<ge> cc_queue_max c then None else Some (c\<lparr>cc_out := cc_out c @ [x]\<rparr>))"

definition first_reason :: "'p client \<Rightarrow> str \<Rightarrow> str" where
  "first_reason c reason = (if cc_reason c \<noteq> [] then cc_reason c else reason)"

text \<open>\<open>feed_from_serial\<close>, with whether the queue overflowed.\<close>

definition client_feed :: "'p portmanager \<Rightarrow> bytes \<Rightarrow> 'p client \<Rightarrow> 'p client \<times> bool" where
  "client_feed pm data c =
     (if cc_closing c then (c, False)
      else case cc_session c of
        None \<Rightarrow> (c, False)
      | Some ses \<Rightarrow>
          let net = ses_from_serial pm ses data in
          if net = [] then (c, False)
          else case put_nowait (Some net) c of
            Some c' \<Rightarrow> (c', False)
          | None \<Rightarrow> (c\<lparr>cc_closing := True, cc_reason := first_reason c (ascii ''dropped: output queue full (slow client)''),
                     cc_aborted := True\<rparr>, True))"

definition client_kick :: "str \<Rightarrow> 'p client \<Rightarrow> 'p client" where
  "client_kick reason c = c\<lparr>cc_closing := True, cc_reason := first_reason c reason, cc_aborted := True\<rparr>"

definition request_graceful_close :: "'p client \<Rightarrow> 'p client" where
  "request_graceful_close c =
     (if cc_closing c then c
      else let c' = c\<lparr>cc_closing := True, cc_reason := first_reason c (ascii ''closed by closeon match'')\<rparr> in
        case put_nowait None c' of Some d \<Rightarrow> d | None \<Rightarrow> c'\<lparr>cc_aborted := True\<rparr>)"

text \<open>The start of \<open>run\<close>: the session, its negotiation and the banner.\<close>

definition f64_real :: "f64 \<Rightarrow> real" where
  "f64_real f = real_of_int (f64_signed_scaled f) / 2 ^ 1074"

definition client_start :: "'p portmanager \<Rightarrow> 's serial_ops \<Rightarrow> mapping_config \<Rightarrow> str \<Rightarrow> 'p client \<Rightarrow> 's option \<Rightarrow>
    (session_error + 'p client) \<times> 's option" where
  "client_start pm dev m device c ser =
     (case make_session pm dev (ns_protocol (mc_network m)) ser (f64_real (mo_rfc2217_poll_modem_interval_s (mc_options m)))
             (ns_read_only (mc_network m)) of
        (Inl e, ser') \<Rightarrow> (Inl e, ser')
      | (Inr ses, ser') \<Rightarrow>
          let (init, ses') = ses_take_net_out ses;
              banner = (if mo_banner (mc_options m) \<noteq> [] then render_banner (mo_banner (mc_options m)) m device (cc_ip c) else [])
          in (Inr (c\<lparr>cc_session := Some ses', cc_sent := cc_sent c @ init @ banner\<rparr>), ser'))"

text \<open>Why a client task ended (\<open>close_reason\<close> of the first exception of the group, unless it is already known).\<close>

definition client_ended :: "int \<Rightarrow> bool \<Rightarrow> exn_tree \<Rightarrow> 'p client \<Rightarrow> 'p client" where
  "client_ended etimedout win32 normal c =
     c\<lparr>cc_closing := True,
       cc_reason := (case (cc_reason c, iter_leaf_exceptions normal) of
                       ([], e # _) \<Rightarrow> describe_disconnect etimedout win32 e | _ \<Rightarrow> cc_reason c)\<rparr>"

text \<open>The pumps, a step each. \<open>Inl\<close> is the \<open>_Disconnect\<close> that ends the session.\<close>

definition disconnect :: "str \<Rightarrow> exn" where
  "disconnect msg = \<lparr>ex_kind = X_disconnect, ex_winerror = None, ex_errno = None, ex_type = ascii ''_Disconnect'', ex_text = msg\<rparr>"

text \<open>\<open>_pump_serial_to_net\<close>: the next item, with the bytes counted as delivered. The sentinel flushes the queue.\<close>

definition pump_out :: "real \<Rightarrow> 'p client \<Rightarrow> (exn option \<times> 'p client \<times> int) option" where
  "pump_out now c =
     (case cc_out c of
        [] \<Rightarrow> None
      | None # rest \<Rightarrow>
          Some (Some (disconnect (ascii ''closed by closeon match'')),
                c\<lparr>cc_out := [], cc_sent := cc_sent c @ concat (map (\<lambda>d. case d of None \<Rightarrow> [] | Some b \<Rightarrow> b) rest)\<rparr>, 0)
      | Some data # rest \<Rightarrow>
          Some (None, c\<lparr>cc_out := rest, cc_sent := cc_sent c @ data, cc_last := now\<rparr>, int (length data)))"

text \<open>Control bytes go to the queue unless it is full.\<close>

definition put_control :: "bytes \<Rightarrow> 'p client \<Rightarrow> 'p client" where
  "put_control ctrl c = (if ctrl = [] then c else case put_nowait (Some ctrl) c of Some c' \<Rightarrow> c' | None \<Rightarrow> c)"

text \<open>\<open>_pump_net_to_serial\<close> up to the serial write: what the session makes of the received bytes.\<close>

definition client_receive :: "'p portmanager \<Rightarrow> 's serial_ops \<Rightarrow> real \<Rightarrow> bytes \<Rightarrow> 'p client \<Rightarrow> 's option \<Rightarrow>
    (exn + bytes) \<times> 'p client \<times> 's option" where
  "client_receive pm dev now data c ser =
     (case cc_session c of
        None \<Rightarrow> (Inl (disconnect []), c, ser)
      | Some ses \<Rightarrow>
          if data = [] then (Inl (disconnect (ascii ''closed by peer'')), c, ser)
          else case ses_from_network pm dev ses ser data of
            (Inl _, ses1, ser1) \<Rightarrow>
              (Inl \<lparr>ex_kind = X_other, ex_winerror = None, ex_errno = None, ex_type = [], ex_text = []\<rparr>,
               c\<lparr>cc_session := Some ses1, cc_last := now\<rparr>, ser1)
          | (Inr bound, ses1, ser1) \<Rightarrow>
              let (ctrl, ses2) = ses_take_net_out ses1
              in (Inr bound, put_control ctrl (c\<lparr>cc_session := Some ses2, cc_last := now\<rparr>), ser1))"

definition client_poll :: "'p portmanager \<Rightarrow> 's serial_ops \<Rightarrow> 'p client \<Rightarrow> 's option \<Rightarrow> 'p client \<times> 's option" where
  "client_poll pm dev c ser =
     (case cc_session c of
        None \<Rightarrow> (c, ser)
      | Some ses \<Rightarrow> let (extra, ses', ser') = ses_poll pm dev ses ser in (put_control extra (c\<lparr>cc_session := Some ses'\<rparr>), ser'))"

text \<open>The guards; \<open>Some\<close> is the exception they raise.\<close>

definition idle_guard :: "real \<Rightarrow> real \<Rightarrow> 'p client \<Rightarrow> exn option" where
  "idle_guard timeout now c =
     (if \<not> cc_closing c \<and> now - cc_last c > timeout
      then Some (disconnect (ascii ''idle timeout ('' @ fmt_duration timeout @ ascii '' without traffic)'')) else None)"

definition lifetime_guard :: "real \<Rightarrow> exn" where
  "lifetime_guard limit = disconnect (ascii ''max connection time reached ('' @ fmt_duration limit @ ascii '')'')"

section \<open>Endpoints\<close>

text \<open>\<open>_UdpPeer.feed_from_serial\<close> sends a datagram while there is a transport.\<close>

definition udp_feed :: "bool \<Rightarrow> bytes \<Rightarrow> udp_peer \<Rightarrow> udp_peer \<times> int" where
  "udp_feed sending data u =
     (if sending then (u\<lparr>up_sent := up_sent u @ [(data, up_addr u)]\<rparr>, int (length data)) else (u, 0))"

text \<open>One endpoint of the broadcast: the endpoint, the overflows and the bytes it adds to \<open>bytes_in\<close>.\<close>

fun endpoint_feed :: "'p portmanager \<Rightarrow> bool \<Rightarrow> bytes \<Rightarrow> 'p endpoint \<Rightarrow> 'p endpoint \<times> int \<times> int" where
  "endpoint_feed pm sending data (TCP c) = (let (c', over) = client_feed pm data c in (TCP c', of_bool over, 0))"
| "endpoint_feed pm sending data (UDP u) = (let (u', n) = udp_feed sending data u in (UDP u', 0, n))"

fun endpoint_close :: "'p endpoint \<Rightarrow> 'p endpoint" where
  "endpoint_close (TCP c) = TCP (request_graceful_close c)"
| "endpoint_close (UDP u) = UDP u"

fun endpoint_kick :: "str \<Rightarrow> 'p endpoint \<Rightarrow> 'p endpoint" where
  "endpoint_kick reason (TCP c) = TCP (client_kick reason c)"
| "endpoint_kick reason (UDP u) = UDP u"

fun endpoint_info :: "'p endpoint \<Rightarrow> client_info" where
  "endpoint_info (TCP c) = (cc_peer c, cc_at c, cc_priority c)"
| "endpoint_info (UDP u) = (up_peer u, up_at u, False)"

abbreviation ep_at :: "'p endpoint \<Rightarrow> real" where "ep_at e \<equiv> fst (snd (endpoint_info e))"
abbreviation ep_priority :: "'p endpoint \<Rightarrow> bool" where "ep_priority e \<equiv> snd (snd (endpoint_info e))"

fun has_id :: "nat \<Rightarrow> 'p endpoint \<Rightarrow> bool" where
  "has_id i (TCP c) = (cc_id c = i)"
| "has_id i (UDP u) = False"

section \<open>The runner: serial side\<close>

definition feed_traffic :: "int \<Rightarrow> bytes \<Rightarrow> ('p, 's) runner \<Rightarrow> ('p, 's) runner" where
  "feed_traffic direction data r = r\<lparr>rn_traffic := rn_traffic r @ [(direction, data)]\<rparr>"

definition feed_monitors :: "bytes \<Rightarrow> ('p, 's) runner \<Rightarrow> ('p, 's) runner" where
  "feed_monitors data r = r\<lparr>rn_console := rn_console r @ [data]\<rparr>"

definition trace_data :: "real \<Rightarrow> str \<Rightarrow> bytes \<Rightarrow> ('p, 's) runner \<Rightarrow> ('p, 's) runner" where
  "trace_data now tag data r = r\<lparr>rn_tracer := map_option (tracer_write now tag data) (rn_tracer r)\<rparr>"

definition serial_write :: "real \<Rightarrow> bytes \<Rightarrow> ('p, 's) runner \<Rightarrow> ('p, 's) runner" where
  "serial_write now data r =
     (case rn_swriter r of
        None \<Rightarrow> r
      | Some w \<Rightarrow> (feed_traffic 1 data (trace_data now (ascii ''net>ser'') data r))\<lparr>rn_swriter := Some (w @ data)\<rparr>)"

definition close_serial :: "('p, 's) runner \<Rightarrow> ('p, 's) runner" where
  "close_serial r = r\<lparr>rn_ready := False, rn_swriter := None, rn_ser := None\<rparr>"

definition check_closeon :: "bytes \<Rightarrow> ('p, 's) runner \<Rightarrow> ('p, 's) runner" where
  "check_closeon data r =
     (let window = rn_tail r @ data in
      if contains_sub (rn_closeon r) window then r\<lparr>rn_clients := map endpoint_close (rn_clients r), rn_tail := []\<rparr>
      else if length (rn_closeon r) > 1 then r\<lparr>rn_tail := last_n (length (rn_closeon r) - 1) window\<rparr>
      else r)"

text \<open>\<open>for c in list(self._clients): c.feed_from_serial(data)\<close>, with the counters it changes.\<close>

definition broadcast :: "'p portmanager \<Rightarrow> bytes \<Rightarrow> ('p, 's) runner \<Rightarrow> ('p, 's) runner" where
  "broadcast pm data r =
     (let fed = map (endpoint_feed pm (rn_udp r) data) (rn_clients r);
          over = sum_list (map (fst \<circ> snd) fed); sent = sum_list (map (snd \<circ> snd) fed); st = rn_status r in
      r\<lparr>rn_clients := map fst fed,
        rn_status := st\<lparr>rs_queue_overflows := rs_queue_overflows st + over,
          rs_dropped_clients := rs_dropped_clients st + over, rs_bytes_in := rs_bytes_in st + sent\<rparr>\<rparr>)"

definition mqtt_data :: "bytes \<Rightarrow> ('p, 's) runner \<Rightarrow> ('p, 's) runner" where
  "mqtt_data data r =
     (case rn_mqtt r of
        None \<Rightarrow> r
      | Some q \<Rightarrow> let (q', out) = mqtt_feed q data in r\<lparr>rn_mqtt := Some q', rn_mqtt_out := rn_mqtt_out r @ out\<rparr>)"

text \<open>One round of \<open>_serial_read_loop\<close>; \<open>None\<close> is the \<open>ConnectionError\<close> of an empty read.\<close>

definition serial_chunk :: "'p portmanager \<Rightarrow> real \<Rightarrow> bytes \<Rightarrow> ('p, 's) runner \<Rightarrow> ('p, 's) runner option" where
  "serial_chunk pm now data r =
     (if data = [] then None
      else
        let r1 = feed_traffic 0 data (feed_monitors data (trace_data now (ascii ''ser>net'') data r));
            r2 = broadcast pm data (mqtt_data data r1)
        in Some (if rn_closeon r2 \<noteq> [] then check_closeon data r2 else r2))"

text \<open>The supervisors' retry state and the delay before the next attempt.\<close>

record retry =
  rt_backoff :: real
  rt_attempt :: nat

definition retry_start :: retry where "retry_start = \<lparr>rt_backoff = 1 / 2, rt_attempt = 0\<rparr>"

definition retry_delay :: "retry \<Rightarrow> real" where
  "retry_delay t = min (rt_backoff t) 10 + real (rt_attempt t mod 5) * (1 / 10)"

text \<open>After a failed or ended attempt: the next attempt's number, its delay, and the backoff for the one after.\<close>

definition retry_next :: "retry \<Rightarrow> real \<times> retry" where
  "retry_next t = (let t1 = t\<lparr>rt_attempt := Suc (rt_attempt t)\<rparr> in
     (retry_delay t1, t1\<lparr>rt_backoff := min (rt_backoff t1 * 2) 10\<rparr>))"

text \<open>The serial supervisor: the port came up (with the open string), or an attempt ended with an error.\<close>

definition serial_opened :: "str \<Rightarrow> 's \<Rightarrow> ('p, 's) runner \<times> retry \<Rightarrow> ('p, 's) runner \<times> retry" where
  "serial_opened device ser rt =
     (let r = fst rt; open_str = mo_openstr (mc_options (rn_mapping r)) in
      (r\<lparr>rn_swriter := Some (if open_str \<noteq> [] then encode_replace open_str else []), rn_ser := Some ser,
         rn_status := (rn_status r)\<lparr>rs_device := device, rs_last_error := [], rs_state := ascii ''running''\<rparr>, rn_ready := True\<rparr>,
       retry_start))"

definition serial_failed :: "str \<Rightarrow> ('p, 's) runner \<times> retry \<Rightarrow> (real option) \<times> ('p, 's) runner \<times> retry" where
  "serial_failed err rt =
     (let (r, t) = rt;
          r1 = close_serial (r\<lparr>rn_status := (rn_status r)\<lparr>rs_last_error := err,
                 rs_state := (if rt_attempt t = 0 then ascii ''device-missing'' else ascii ''reconnecting'')\<rparr>\<rparr>)
      in if rn_stop r1 then (None, r1, t)
         else let (delay, t') = retry_next t in
           (Some delay, r1\<lparr>rn_status := (rn_status r1)\<lparr>rs_reconnects := rs_reconnects (rn_status r1) + 1,
              rs_state := ascii ''reconnecting''\<rparr>\<rparr>, t'))"

section \<open>The runner: network side\<close>

definition net_contains :: "str \<Rightarrow> ipnet list \<Rightarrow> bool" where
  "net_contains ip nets =
     (if nets = [] then False
      else case ip_address ip of
        None \<Rightarrow> False
      | Some a \<Rightarrow> list_ex (in_net (case ipv4_mapped a of Some b \<Rightarrow> b | None \<Rightarrow> a)) nets)"

definition client_allowed :: "('p, 's) runner \<Rightarrow> str \<Rightarrow> bool" where
  "client_allowed r ip = (if rn_allowed r = [] then True else net_contains ip (rn_allowed r))"

text \<open>\<open>min(pool, key=connected_at)\<close>: the first of the oldest.\<close>

fun oldest :: "'p endpoint \<Rightarrow> 'p endpoint list \<Rightarrow> 'p endpoint" where
  "oldest best [] = best"
| "oldest best (e # es) = oldest (if ep_at e < ep_at best then e else best) es"

definition pick_victim :: "'p endpoint list \<Rightarrow> 'p endpoint option" where
  "pick_victim clients =
     (case clients of
        [] \<Rightarrow> None
      | c # cs \<Rightarrow> (case filter (\<lambda>e. \<not> ep_priority e) clients of
            [] \<Rightarrow> Some (oldest c cs)
          | e # es \<Rightarrow> Some (oldest e es)))"

definition refresh_runner :: "('p, 's) runner \<Rightarrow> ('p, 's) runner" where
  "refresh_runner r =
     r\<lparr>rn_status := (rn_status r)\<lparr>rs_client_count := length (rn_clients r),
       rs_clients := sort_key (\<lambda>i. fst (snd i)) (map endpoint_info (rn_clients r))\<rparr>\<rparr>"

text \<open>\<open>victim.kick(...)\<close>: the victim is the object in the set, so its entry changes.\<close>

definition kick_victim :: "str \<Rightarrow> 'p endpoint \<Rightarrow> 'p endpoint list \<Rightarrow> 'p endpoint list" where
  "kick_victim reason v clients =
     (case v of UDP _ \<Rightarrow> clients | TCP c \<Rightarrow> map (\<lambda>e. if has_id (cc_id c) e then endpoint_kick reason e else e) clients)"

datatype admission = A_denied | A_busy | A_room | A_kick str

text \<open>\<open>_on_client\<close> up to its first \<open>await\<close>: the decision and the clients after a kick.\<close>

definition admission_of :: "('p, 's) runner \<Rightarrow> str \<Rightarrow> str \<Rightarrow> admission" where
  "admission_of r ip label =
     (let net = mc_network (rn_mapping r); prio = net_contains ip (rn_priority r) in
      if \<not> client_allowed r ip then A_denied
      else if int (length (rn_clients r)) \<ge> py_count (ns_max_connections net) then
        (if prio \<or> ns_kick_old_user net
         then A_kick (ascii ''kicked for '' @ (if prio then ascii ''priority client'' else ascii ''new client'') @ 32 # label)
         else A_busy)
      else A_room)"

definition make_room :: "admission \<Rightarrow> ('p, 's) runner \<Rightarrow> ('p, 's) runner" where
  "make_room a r =
     (case a of
        A_kick reason \<Rightarrow>
          (case pick_victim (rn_clients r) of
             None \<Rightarrow> r
           | Some v \<Rightarrow> r\<lparr>rn_clients := kick_victim reason v (rn_clients r)\<rparr>)
      | _ \<Rightarrow> r)"

definition add_client :: "nat \<Rightarrow> str \<Rightarrow> int \<Rightarrow> real \<Rightarrow> ('p, 's) runner \<Rightarrow> ('p, 's) runner" where
  "add_client cid ip port now r =
     refresh_runner (r\<lparr>rn_clients := rn_clients r @
       [TCP (new_client (rn_mapping r) cid ip port (net_contains ip (rn_priority r)) now)]\<rparr>)"

text \<open>\<open>_on_client\<close>, accepted at once (the serial port is ready, or the protocol does not need it): the reply a refused
  peer gets and the new state.\<close>

definition on_client :: "nat \<Rightarrow> str \<Rightarrow> int \<Rightarrow> real \<Rightarrow> ('p, 's) runner \<Rightarrow> bytes \<times> ('p, 's) runner" where
  "on_client cid ip port now r =
     (let a = admission_of r ip (peer_label ip port) in
      case a of
        A_denied \<Rightarrow> ([], r)
      | A_busy \<Rightarrow> (encode_text (ascii ''Busy: maximum connections reached.'') @ [13, 10], r)
      | _ \<Rightarrow>
          let r1 = make_room a r in
          if ns_protocol (mc_network (rn_mapping r)) = ascii ''rfc2217'' \<and> \<not> rn_ready r1 then ([], r1)
          else ([], add_client cid ip port now r1))"

text \<open>The \<open>finally\<close> of \<open>_on_client\<close>: the client leaves; the last one sends the close string to the device.\<close>

definition client_left :: "nat \<Rightarrow> ('p, 's) runner \<Rightarrow> ('p, 's) runner" where
  "client_left cid r =
     (let r1 = refresh_runner (r\<lparr>rn_clients := filter (\<lambda>e. \<not> has_id cid e) (rn_clients r)\<rparr>);
          cs = mo_closestr (mc_options (rn_mapping r1)) in
      if rn_clients r1 = [] \<and> cs \<noteq> [] then r1\<lparr>rn_swriter := map_option (\<lambda>w. w @ encode_replace cs) (rn_swriter r1)\<rparr>
      else r1)"

text \<open>Received bytes of a client: the session, then the serial write unless the mapping is read-only.\<close>

definition update_client :: "nat \<Rightarrow> ('p client \<Rightarrow> 'p client) \<Rightarrow> ('p, 's) runner \<Rightarrow> ('p, 's) runner" where
  "update_client cid f r = r\<lparr>rn_clients := map (\<lambda>e. case e of TCP c \<Rightarrow> if cc_id c = cid then TCP (f c) else e | UDP _ \<Rightarrow> e) (rn_clients r)\<rparr>"

definition find_client :: "nat \<Rightarrow> ('p, 's) runner \<Rightarrow> 'p client option" where
  "find_client cid r = (case find (has_id cid) (rn_clients r) of Some (TCP c) \<Rightarrow> Some c | _ \<Rightarrow> None)"

definition net_chunk :: "'p portmanager \<Rightarrow> 's serial_ops \<Rightarrow> real \<Rightarrow> nat \<Rightarrow> bytes \<Rightarrow> ('p, 's) runner \<Rightarrow>
    exn option \<times> ('p, 's) runner" where
  "net_chunk pm dev now cid data r =
     (case find_client cid r of
        None \<Rightarrow> (None, r)
      | Some c \<Rightarrow>
          case client_receive pm dev now data c (rn_ser r) of
            (Inl e, c', ser) \<Rightarrow> (Some e, (update_client cid (\<lambda>_. c') r)\<lparr>rn_ser := ser\<rparr>)
          | (Inr bound, c', ser) \<Rightarrow>
              let r1 = (update_client cid (\<lambda>_. c') r)\<lparr>rn_ser := ser\<rparr> in
              if bound \<noteq> [] \<and> \<not> ns_read_only (mc_network (rn_mapping r))
              then let r2 = serial_write now bound r1 in
                (None, r2\<lparr>rn_status := (rn_status r2)\<lparr>rs_bytes_out := rs_bytes_out (rn_status r2) + int (length bound)\<rparr>\<rparr>)
              else (None, r1))"

definition pump_client :: "real \<Rightarrow> nat \<Rightarrow> ('p, 's) runner \<Rightarrow> ('p, 's) runner" where
  "pump_client now cid r =
     (case find_client cid r of
        None \<Rightarrow> r
      | Some c \<Rightarrow>
          case pump_out now c of
            None \<Rightarrow> r
          | Some (e, c', n) \<Rightarrow>
              let r1 = update_client cid (\<lambda>_. c') r in
              r1\<lparr>rn_status := (rn_status r1)\<lparr>rs_bytes_in := rs_bytes_in (rn_status r1) + n\<rparr>\<rparr>)"

section \<open>Connect-out, serial bridge, UDP\<close>

text \<open>\<open>_connect_out\<close> over the resolved addresses: the outcome of connecting to each is given by the network.\<close>

datatype connect_outcome = C_up | C_timeout | C_failed str

fun connect_out :: "str \<Rightarrow> ('a \<Rightarrow> connect_outcome) \<Rightarrow> 'a list \<Rightarrow> str \<Rightarrow> str + 'a" where
  "connect_out limit try [] err = Inl err"
| "connect_out limit try (a # as') err =
     (case try a of
        C_up \<Rightarrow> Inr a
      | C_timeout \<Rightarrow> connect_out limit try as' (ascii ''timed out after '' @ limit @ ascii ''s'')
      | C_failed e \<Rightarrow> connect_out limit try as' e)"

text \<open>A round of \<open>_pump_serial_pair\<close>: the bytes read from one port go to the other's writer.\<close>

definition pump_pair :: "real \<Rightarrow> str \<Rightarrow> bytes \<Rightarrow> bytes \<Rightarrow> ('p, 's) runner \<Rightarrow> (bytes \<times> ('p, 's) runner) option" where
  "pump_pair now tag data out r =
     (if data = [] then None
      else let r1 = feed_traffic (if is_prefix_of (ascii ''A'') tag then 0 else 1) data (feed_monitors data (trace_data now tag data r))
        in Some (out @ data, r1\<lparr>rn_status := (rn_status r1)\<lparr>rs_bytes_in := rs_bytes_in (rn_status r1) + int (length data)\<rparr>\<rparr>))"

definition udp_label :: "str \<times> int \<Rightarrow> str" where
  "udp_label a = fst a @ 58 # dec_str (snd a)"

fun is_udp :: "'p endpoint \<Rightarrow> bool" where
  "is_udp (UDP u) = True" | "is_udp (TCP c) = False"

text \<open>\<open>datagram_received\<close>: the allow-list, the one tracked peer, then the serial write.\<close>

definition udp_learn :: "real \<Rightarrow> str \<times> int \<Rightarrow> ('p, 's) runner \<Rightarrow> ('p, 's) runner" where
  "udp_learn now a r =
     (case find is_udp (rn_clients r) of
        Some (UDP u) \<Rightarrow>
          if up_addr u \<noteq> a
          then refresh_runner (r\<lparr>rn_clients := map (\<lambda>e. if is_udp e then UDP (u\<lparr>up_addr := a, up_peer := udp_label a\<rparr>) else e) (rn_clients r)\<rparr>)
          else r
      | _ \<Rightarrow> refresh_runner (r\<lparr>rn_clients := rn_clients r @ [UDP \<lparr>up_addr = a, up_peer = udp_label a, up_at = now, up_sent = []\<rparr>]\<rparr>))"

definition datagram_received :: "real \<Rightarrow> bytes \<Rightarrow> str \<times> int \<Rightarrow> ('p, 's) runner \<Rightarrow> ('p, 's) runner" where
  "datagram_received now data a r =
     (if \<not> client_allowed r (fst a) then r
      else
        let r1 = udp_learn now a r in
        if ns_read_only (mc_network (rn_mapping r1)) then r1
        else
          let r2 = feed_traffic 1 data (trace_data now (ascii ''net>ser'') data r1) in
          case rn_swriter r2 of
            None \<Rightarrow> r2
          | Some w \<Rightarrow> r2\<lparr>rn_swriter := Some (w @ data),
              rn_status := (rn_status r2)\<lparr>rs_bytes_out := rs_bytes_out (rn_status r2) + int (length data)\<rparr>\<rparr>)"

text \<open>\<open>_client_supervisor\<close>: the connect-out link came up, and a round ended (with the error that ended it, if any).\<close>

definition link_up :: "nat \<Rightarrow> real \<Rightarrow> ('p, 's) runner \<times> retry \<Rightarrow> ('p, 's) runner \<times> retry" where
  "link_up cid now rt =
     (let r = fst rt; n = mc_network (rn_mapping r) in
      (refresh_runner (r\<lparr>rn_clients := rn_clients r @
         [TCP (new_client (rn_mapping r) cid (ns_remote_host n) (py_count (ns_remote_port n)) False now)]\<rparr>), retry_start))"

definition link_ended :: "nat option \<Rightarrow> str option \<Rightarrow> ('p, 's) runner \<times> retry \<Rightarrow> (real option) \<times> ('p, 's) runner \<times> retry" where
  "link_ended cid err rt =
     (let (r, t) = rt;
          r1 = (case cid of None \<Rightarrow> r
                | Some i \<Rightarrow> refresh_runner (r\<lparr>rn_clients := filter (\<lambda>e. \<not> has_id i e) (rn_clients r)\<rparr>));
          r2 = (case err of None \<Rightarrow> r1 | Some e \<Rightarrow> r1\<lparr>rn_status := (rn_status r1)\<lparr>rs_last_error := e\<rparr>\<rparr>) in
      if rn_stop r2 then (None, r2, t)
      else let (delay, t') = retry_next t in (Some delay, r2, t'))"

text \<open>\<open>_serialbridge_supervisor\<close>: both ports are open, and a round ended. \<open>err\<close> are the messages of the exception (those of
  its parts for a group).\<close>

definition ports_up :: "str \<Rightarrow> str \<Rightarrow> ('p, 's) runner \<times> retry \<Rightarrow> ('p, 's) runner \<times> retry" where
  "ports_up da db rt =
     (let r = fst rt in
      (r\<lparr>rn_status := (rn_status r)\<lparr>rs_device := da @ ascii '' <-> '' @ db, rs_last_error := [], rs_state := ascii ''running''\<rparr>\<rparr>,
       retry_start))"

definition ports_ended :: "str list option \<Rightarrow> ('p, 's) runner \<times> retry \<Rightarrow> (real option) \<times> ('p, 's) runner \<times> retry" where
  "ports_ended err rt =
     (let (r, t) = rt;
          r1 = (case err of None \<Rightarrow> r
                | Some es \<Rightarrow> r\<lparr>rn_status := (rn_status r)\<lparr>rs_last_error := join_text (ascii ''; '') es,
                    rs_state := (if rt_attempt t = 0 then ascii ''device-missing'' else ascii ''reconnecting'')\<rparr>\<rparr>) in
      if rn_stop r1 then (None, r1, t)
      else let (delay, t') = retry_next t in
        (Some delay, r1\<lparr>rn_status := (rn_status r1)\<lparr>rs_reconnects := rs_reconnects (rn_status r1) + 1,
           rs_state := ascii ''reconnecting''\<rparr>\<rparr>, t'))"

section \<open>Lifecycle\<close>

text \<open>\<open>stop\<close>: no listener, no UDP socket, clients kicked, monitors and MQTT closed, the tasks cancelled, the serial port and
  the trace closed.\<close>

definition runner_stop :: "('p, 's) runner \<Rightarrow> ('p, 's) runner" where
  "runner_stop r =
     (let bye = (case rn_mqtt r of None \<Rightarrow> [] | Some q \<Rightarrow> snd (mqtt_close q None)) in
      (close_serial (r\<lparr>rn_stop := True, rn_udp := False,
         rn_clients := map (endpoint_kick (ascii ''mapping stopped'')) (rn_clients r),
         rn_mqtt := None, rn_mqtt_out := rn_mqtt_out r @ bye,
         rn_server := False, rn_serial_task := False, rn_main_task := False\<rparr>))
       \<lparr>rn_tracer := None,
        rn_status := (rn_status r)\<lparr>rs_state := ascii ''stopped'', rs_client_count := 0, rs_clients := []\<rparr>\<rparr>)"

text \<open>\<open>start\<close>: \<open>net_result\<close> is the error of bringing up the listener or the UDP endpoint, \<open>None\<close> when it is up. On an
  error everything is torn down and the error is raised.\<close>

definition runner_start :: "str option \<Rightarrow> bool \<Rightarrow> trace_files \<Rightarrow> str option \<Rightarrow> ('p, 's) runner \<Rightarrow> str option \<times> ('p, 's) runner" where
  "runner_start trace_dir can_open fs net_result r =
     (let m = rn_mapping r;
          r1 = r\<lparr>rn_stop := False, rn_tracer := open_tracer m trace_dir can_open fs\<rparr>;
          running = (\<lambda>x. x\<lparr>rn_status := (rn_status x)\<lparr>rs_state := ascii ''running''\<rparr>\<rparr>) in
      if mc_kind m = ascii ''serialbridge'' then (None, running (r1\<lparr>rn_main_task := True\<rparr>))
      else
        let r2 = (if mq_enabled (mc_mqtt m)
                  then let (q, out) = mqtt_connect (mqtt_init (mc_mqtt m) True []) in r1\<lparr>rn_mqtt := Some q, rn_mqtt_out := rn_mqtt_out r1 @ out\<rparr>
                  else r1);
            r3 = r2\<lparr>rn_serial_task := True\<rparr>;
            mode = ns_mode (mc_network m) in
        if (mode = ascii ''server'' \<or> mode = ascii ''udp'') \<and> net_result \<noteq> None then (net_result, runner_stop r3)
        else (None, running (if mode = ascii ''server'' then r3\<lparr>rn_server := True\<rparr>
               else if mode = ascii ''client'' then r3\<lparr>rn_main_task := True\<rparr>
               else if mode = ascii ''udp'' then r3\<lparr>rn_udp := True\<rparr> else r3)))"

section \<open>Lemmas: admission\<close>

fun live :: "'p endpoint \<Rightarrow> bool" where
  "live (TCP c) = (\<not> cc_closing c)"
| "live (UDP u) = True"

abbreviation live_count :: "'p endpoint list \<Rightarrow> nat" where
  "live_count es \<equiv> length (filter live es)"

lemma oldest_spec: "oldest b es \<in> set (b # es) \<and> (\<forall>e \<in> set (b # es). ep_at (oldest b es) \<le> ep_at e)"
proof (induction es arbitrary: b)
  case (Cons e es)
  show ?case
  proof (cases "ep_at e < ep_at b")
    case True
    then show ?thesis using Cons [of e] by fastforce
  next
    case False
    then show ?thesis using Cons [of b] by fastforce
  qed
qed simp

lemma pick_victim_spec:
  assumes "pick_victim cs = Some v"
  shows "v \<in> set cs \<and> (ep_priority v \<longrightarrow> (\<forall>e \<in> set cs. ep_priority e)) \<and>
    (\<forall>e \<in> set cs. ep_priority e = ep_priority v \<longrightarrow> ep_at v \<le> ep_at e)"
proof (cases "filter (\<lambda>e. \<not> ep_priority e) cs")
  case Nil
  then show ?thesis using assms oldest_spec
    by (fastforce simp: pick_victim_def filter_empty_conv split: list.splits)
next
  case (Cons e es)
  then have v: "v = oldest e es" using assms by (auto simp: pick_victim_def split: list.splits)
  have "set (e # es) = {x \<in> set cs. \<not> ep_priority x}" using arg_cong [OF Cons, of set] by auto
  then show ?thesis using oldest_spec [of e es] unfolding v by auto
qed

lemma pick_victim_some: "cs \<noteq> [] \<Longrightarrow> \<exists>v. pick_victim cs = Some v"
  by (auto simp: pick_victim_def split: list.splits)

definition ids :: "'p endpoint list \<Rightarrow> nat list" where
  "ids es = concat (map (\<lambda>e. case e of TCP c \<Rightarrow> [cc_id c] | UDP _ \<Rightarrow> []) es)"

lemma ids_simps [simp]:
  "ids [] = []" "ids (TCP c # es) = cc_id c # ids es" "ids (UDP u # es) = ids es"
  by (simp_all add: ids_def)

lemma mem_ids: "TCP c \<in> set es \<Longrightarrow> cc_id c \<in> set (ids es)"
  by (induction es) (auto simp: ids_def split: endpoint.splits)

lemma kick_not_there: "i \<notin> set (ids es) \<Longrightarrow> map (\<lambda>e. if has_id i e then endpoint_kick reason e else e) es = es"
proof (induction es)
  case (Cons e es)
  then show ?case by (cases e) auto
qed simp

lemma kick_live_count:
  assumes "TCP c \<in> set es" and "distinct (ids es)" and "\<not> cc_closing c"
  shows "Suc (live_count (map (\<lambda>e. if has_id (cc_id c) e then endpoint_kick reason e else e) es)) = live_count es"
  using assms
proof (induction es)
  case (Cons e es)
  show ?case
  proof (cases "e = TCP c")
    case True
    then have "cc_id c \<notin> set (ids es)" using Cons.prems(2) by simp
    then show ?thesis using True Cons.prems(3) by (simp add: kick_not_there client_kick_def)
  next
    case False
    then have m: "TCP c \<in> set es" using Cons.prems(1) by auto
    then have "\<not> has_id (cc_id c) e" using Cons.prems(2) mem_ids [OF m] by (cases e) auto
    then show ?thesis using Cons m by (cases e) auto
  qed
qed simp

lemma kick_map_eq:
  assumes "TCP c \<in> set es" and "distinct (ids es)"
  shows "map (\<lambda>e. if has_id (cc_id c) e then endpoint_kick reason e else e) es
    = map (\<lambda>e. if e = TCP c then TCP (client_kick reason c) else e) es"
  using assms
proof (induction es)
  case (Cons e es)
  show ?case
  proof (cases "e = TCP c")
    case True
    then have ni: "cc_id c \<notin> set (ids es)" using Cons.prems(2) by simp
    then have "TCP c \<notin> set es" using mem_ids by blast
    then have "map (\<lambda>e. if e = TCP c then TCP (client_kick reason c) else e) es = es" by (induction es) auto
    then show ?thesis using True kick_not_there [OF ni] by simp
  next
    case False
    then have m: "TCP c \<in> set es" using Cons.prems(1) by auto
    then have "\<not> has_id (cc_id c) e" using Cons.prems(2) mem_ids [OF m] by (cases e) auto
    then show ?thesis using Cons m False by (cases e) auto
  qed
qed simp

abbreviation max_clients :: "('p, 's) runner \<Rightarrow> int" where
  "max_clients r \<equiv> py_count (ns_max_connections (mc_network (rn_mapping r)))"

text \<open>The new connection object.\<close>

abbreviation newcomer :: "('p, 's) runner \<Rightarrow> nat \<Rightarrow> str \<Rightarrow> int \<Rightarrow> real \<Rightarrow> 'p endpoint" where
  "newcomer r cid ip port now \<equiv> TCP (new_client (rn_mapping r) cid ip port (net_contains ip (rn_priority r)) now)"

lemma add_client_clients [simp]:
  "rn_clients (add_client cid ip port now r) = rn_clients r @ [newcomer r cid ip port now]"
  by (simp add: add_client_def refresh_runner_def)

lemma new_client_live [simp]: "live (newcomer r cid ip port now)"
  by (simp add: new_client_def)

lemma make_room_fields [simp]:
  "rn_mapping (make_room a r) = rn_mapping r" "rn_priority (make_room a r) = rn_priority r" "rn_ready (make_room a r) = rn_ready r"
  by (auto simp: make_room_def split: admission.splits option.splits)

lemma on_client_kick:
  assumes tcp: "\<forall>e \<in> set (rn_clients r). \<exists>c. e = TCP c" and d: "distinct (ids (rn_clients r))"
    and mx: "1 \<le> max_clients r"
    and ok: "client_allowed r ip" and full: "max_clients r \<le> int (length (rn_clients r))"
    and may: "net_contains ip (rn_priority r) \<or> ns_kick_old_user (mc_network (rn_mapping r))"
    and rdy: "ns_protocol (mc_network (rn_mapping r)) \<noteq> ascii ''rfc2217'' \<or> rn_ready r"
    and run: "on_client cid ip port now r = (reply, r')"
  obtains c reason where "pick_victim (rn_clients r) = Some (TCP c)" "TCP c \<in> set (rn_clients r)" "reply = []"
    "rn_clients r' = map (\<lambda>e. if has_id (cc_id c) e then endpoint_kick reason e else e) (rn_clients r)
       @ [newcomer r cid ip port now]"
proof -
  have "rn_clients r \<noteq> []" using mx full by auto
  then obtain v where v: "pick_victim (rn_clients r) = Some v" using pick_victim_some by blast
  obtain c where c: "v = TCP c" using tcp pick_victim_spec [OF v] by blast
  obtain reason where a: "admission_of r ip (peer_label ip port) = A_kick reason"
    using ok full may by (auto simp: admission_of_def Let_def)
  have "reply = [] \<and> rn_clients r' = map (\<lambda>e. if has_id (cc_id c) e then endpoint_kick reason e else e) (rn_clients r)
       @ [newcomer r cid ip port now]"
    using run rdy v unfolding c by (auto simp: on_client_def Let_def a make_room_def kick_victim_def split: if_splits)
  then show ?thesis using v c pick_victim_spec [OF v] that by blast
qed

section \<open>Properties: admission\<close>

text \<open>C18: The admission of a TCP client. With the serial port ready (or not needed): a peer outside the allow-list changes
  nothing; a peer that finds a free slot is added; on a full mapping a priority peer, or any peer when kick_old_user is
  set, is added and exactly one client is kicked, the oldest one without priority (the oldest of all when every client
  has priority); any other peer changes nothing. As long as the client that would be chosen is not already being
  closed, the clients that are not being closed never exceed max_connections.\<close>
theorem admission_policy:
  assumes "\<forall>e \<in> set (rn_clients r). \<exists>c. e = TCP c" and "distinct (ids (rn_clients r))"
    and "1 \<le> max_clients r" and "int (live_count (rn_clients r)) \<le> max_clients r"
    and "\<forall>v. pick_victim (rn_clients r) = Some v \<longrightarrow> live v"
    and "ns_protocol (mc_network (rn_mapping r)) \<noteq> ascii ''rfc2217'' \<or> rn_ready r"
    and "on_client cid ip port now r = (reply, r')"
  shows "int (live_count (rn_clients r')) \<le> max_clients r \<and>
    (if \<not> client_allowed r ip then reply = [] \<and> r' = r
     else if int (length (rn_clients r)) < max_clients r then rn_clients r' = rn_clients r @ [newcomer r cid ip port now]
     else if net_contains ip (rn_priority r) \<or> ns_kick_old_user (mc_network (rn_mapping r)) then
       (\<exists>c reason. TCP c \<in> set (rn_clients r) \<and>
          (cc_priority c \<longrightarrow> (\<forall>e \<in> set (rn_clients r). ep_priority e)) \<and>
          (\<forall>e \<in> set (rn_clients r). ep_priority e = cc_priority c \<longrightarrow> cc_at c \<le> ep_at e) \<and>
          rn_clients r' = map (\<lambda>e. if e = TCP c then TCP (client_kick reason c) else e) (rn_clients r) @ [newcomer r cid ip port now])
     else reply \<noteq> [] \<and> r' = r)"
proof (cases "client_allowed r ip \<and> max_clients r \<le> int (length (rn_clients r)) \<and>
    (net_contains ip (rn_priority r) \<or> ns_kick_old_user (mc_network (rn_mapping r)))")
  case True
  then have t: "client_allowed r ip" "max_clients r \<le> int (length (rn_clients r))"
    "net_contains ip (rn_priority r) \<or> ns_kick_old_user (mc_network (rn_mapping r))" by auto
  from on_client_kick [OF assms(1-3) t assms(6,7)] obtain c reason where
    v: "pick_victim (rn_clients r) = Some (TCP c)" and c: "TCP c \<in> set (rn_clients r)" and "reply = []"
    and r': "rn_clients r' = map (\<lambda>e. if has_id (cc_id c) e then endpoint_kick reason e else e) (rn_clients r)
       @ [newcomer r cid ip port now]" by blast
  have "\<not> cc_closing c" using assms(5) v by auto
  then have "int (live_count (rn_clients r')) \<le> max_clients r"
    using kick_live_count [OF c assms(2)] assms(4) unfolding r' by (simp add: new_client_def)
  then show ?thesis
    using t pick_victim_spec [OF v] c r' kick_map_eq [OF c assms(2), of reason] by auto
next
  case False
  have n: "1 + int (live_count (rn_clients r)) \<le> max_clients r" if "\<not> max_clients r \<le> int (length (rn_clients r))"
    using length_filter_le [of live "rn_clients r"] that by linarith
  then show ?thesis using False assms(4,6,7)
    by (auto simp: on_client_def admission_of_def make_room_def Let_def new_client_def split: if_splits)
qed

definition sample_bridge :: mapping_config where
  "sample_bridge = (let m = sample_mapping ''m'' ''net'' ''/dev/ttyS0'' in
     m\<lparr>mc_network := (mc_network m)\<lparr>ns_kick_old_user := True\<rparr>,
       mc_options := (mc_options m)\<lparr>mo_closeon := ascii ''BYE''\<rparr>\<rparr>)"

definition sample_runner :: "(unit, unit) runner" where
  "sample_runner = snd (on_client 0 (ascii ''10.0.0.1'') 5000 0 (runner_init sample_bridge))"

theorem admission_policy_witness:
  "int (live_count (rn_clients (snd (on_client 1 (ascii ''10.0.0.2'') 5000 1 sample_runner)))) \<le> 1 \<and>
   length (rn_clients (snd (on_client 1 (ascii ''10.0.0.2'') 5000 1 sample_runner))) = 2"
proof -
  have "list_all (\<lambda>e. case e of TCP c \<Rightarrow> True | UDP u \<Rightarrow> False) (rn_clients sample_runner)" by code_simp
  then have 1: "\<forall>e \<in> set (rn_clients sample_runner). \<exists>c. e = TCP c"
    by (auto simp: list_all_iff split: endpoint.splits) (metis endpoint.exhaust)
  have 2: "distinct (ids (rn_clients sample_runner))" "1 \<le> max_clients sample_runner"
    "int (live_count (rn_clients sample_runner)) \<le> max_clients sample_runner"
    "case pick_victim (rn_clients sample_runner) of None \<Rightarrow> True | Some v \<Rightarrow> live v"
    "ns_protocol (mc_network (rn_mapping sample_runner)) \<noteq> ascii ''rfc2217'' \<or> rn_ready sample_runner"
    by code_simp+
  have 3: "\<forall>v. pick_victim (rn_clients sample_runner) = Some v \<longrightarrow> live v" using 2(4) by auto
  have "length (rn_clients (snd (on_client 1 (ascii ''10.0.0.2'') 5000 1 sample_runner))) = 2" by code_simp
  moreover have "max_clients sample_runner = 1" by code_simp
  ultimately show ?thesis
    using admission_policy [OF 1 2(1-3) 3 2(5) surjective_pairing, of 1 "ascii ''10.0.0.2''" 5000 1] by simp
qed

text \<open>Kicking can leave more clients than max_connections: a kicked client stays in the set until its task has ended, and
  a further peer arriving before that picks the same, already closing, client again. Here max_connections is 1 and
  kick_old_user is set; after three connects in a row and the end of the kicked client's task, two clients are connected
  and neither of them is being closed.\<close>
theorem kick_race:
  "let r = client_left 0 (snd (on_client 2 (ascii ''10.0.0.3'') 5000 2 (snd (on_client 1 (ascii ''10.0.0.2'') 5000 1 sample_runner)))) in
    max_clients r = 1 \<and> live_count (rn_clients r) = 2 \<and> length (rn_clients r) = 2"
  by code_simp

section \<open>Lemmas: closeon\<close>

lemma contains_sub_window:
  assumes "\<not> contains_sub p a" and "p \<noteq> []"
  shows "contains_sub p (last_n (length p - 1) a @ b) \<longleftrightarrow> contains_sub p (a @ b)"
proof
  have a: "a = take (length a - (length p - 1)) a @ last_n (length p - 1) a" by (simp add: last_n_def)
  assume "contains_sub p (last_n (length p - 1) a @ b)"
  then obtain u v where "last_n (length p - 1) a @ b = u @ p @ v" by (auto simp: contains_sub_iff)
  then have "a @ b = (take (length a - (length p - 1)) a @ u) @ p @ v" using a by (metis append.assoc)
  then show "contains_sub p (a @ b)" unfolding contains_sub_iff by blast
next
  assume "contains_sub p (a @ b)"
  then obtain u v where uv: "a @ b = u @ p @ v" by (auto simp: contains_sub_iff)
  let ?n = "length a - (length p - 1)"
  have "length a < length u + length p"
  proof (rule ccontr)
    assume "\<not> ?thesis"
    then have "a = u @ p @ take (length a - length u - length p) v"
      using arg_cong [OF uv, of "take (length a)"] by simp
    then show False using assms(1) unfolding contains_sub_iff by blast
  qed
  moreover have "1 \<le> length p" using assms(2) by (cases p) auto
  ultimately have n: "?n \<le> length u" by linarith
  have "last_n (length p - 1) a @ b = drop ?n (a @ b)" by (simp add: last_n_def)
  also have "\<dots> = drop ?n u @ p @ v" unfolding uv using n by simp
  finally show "contains_sub p (last_n (length p - 1) a @ b)" unfolding contains_sub_iff by blast
qed

lemma last_n_append: "last_n k (last_n k a @ b) = last_n k (a @ b)"
  by (cases "k \<le> length a") (simp_all add: last_n_def add.commute)

lemma last_n_zero [simp]: "last_n 0 a = []"
  by (simp add: last_n_def)

text \<open>The chunks read from the device, one round of the read loop each.\<close>

definition serial_chunks :: "'p portmanager \<Rightarrow> (real \<times> bytes) list \<Rightarrow> ('p, 's) runner \<Rightarrow> unit + ('p, 's) runner" where
  "serial_chunks pm cs r = rfold (\<lambda>r (now, data). case serial_chunk pm now data r of Some r' \<Rightarrow> Inr r' | None \<Rightarrow> Inl ()) r cs"

lemma serial_side_fields [simp]:
  "rn_closeon (broadcast pm data r) = rn_closeon r" "rn_tail (broadcast pm data r) = rn_tail r"
  "rn_closeon (mqtt_data data r) = rn_closeon r" "rn_tail (mqtt_data data r) = rn_tail r"
  "rn_clients (mqtt_data data r) = rn_clients r" "rn_udp (mqtt_data data r) = rn_udp r"
  "rn_closeon (check_closeon data r) = rn_closeon r"
  by (auto simp: broadcast_def mqtt_data_def check_closeon_def Let_def split: option.splits prod.splits)

lemma serial_chunk_tail:
  assumes "serial_chunk pm now data r = Some r'" and "rn_tail r = last_n (length (rn_closeon r) - 1) past"
    and "rn_closeon r \<noteq> []" and "\<not> contains_sub (rn_closeon r) past" and "\<not> contains_sub (rn_closeon r) (past @ data)"
  shows "rn_tail r' = last_n (length (rn_closeon r) - 1) (past @ data) \<and> rn_closeon r' = rn_closeon r"
proof -
  have "\<not> contains_sub (rn_closeon r) (rn_tail r @ data)"
    using assms(2-5) contains_sub_window by metis
  moreover have "length (rn_closeon r) = 1" if "\<not> 1 < length (rn_closeon r)"
    using that assms(3) by (cases "rn_closeon r") auto
  ultimately show ?thesis using assms(1,2,3)
    by (auto simp: serial_chunk_def Let_def check_closeon_def feed_traffic_def feed_monitors_def trace_data_def
        last_n_append split: if_splits)
qed

lemma contains_sub_append: "contains_sub p a \<Longrightarrow> contains_sub p (a @ b)"
  unfolding contains_sub_iff by (metis append.assoc)

lemma serial_chunks_tail:
  assumes "serial_chunks pm cs r = Inr r'" and "rn_tail r = last_n (length (rn_closeon r) - 1) past"
    and "rn_closeon r \<noteq> []" and "\<not> contains_sub (rn_closeon r) (past @ concat (map snd cs))"
  shows "rn_tail r' = last_n (length (rn_closeon r) - 1) (past @ concat (map snd cs)) \<and> rn_closeon r' = rn_closeon r"
  using assms
proof (induction cs arbitrary: r past)
  case Nil
  then show ?case by (simp add: serial_chunks_def)
next
  case (Cons c cs)
  obtain now data where c: "c = (now, data)" by (cases c)
  from Cons.prems(1) obtain r1 where r1: "serial_chunk pm now data r = Some r1" and rest: "serial_chunks pm cs r1 = Inr r'"
    by (auto simp: serial_chunks_def c rbind_eq_Inr split: option.splits)
  have "\<not> contains_sub (rn_closeon r) (past @ data)" "\<not> contains_sub (rn_closeon r) past"
    using Cons.prems(4) contains_sub_append [of "rn_closeon r" "past @ data"] contains_sub_append [of "rn_closeon r" past]
    by (auto simp: c)
  from serial_chunk_tail [OF r1 Cons.prems(2,3) this(2,1)]
  have t: "rn_tail r1 = last_n (length (rn_closeon r1) - 1) (past @ data)" "rn_closeon r1 = rn_closeon r" by auto
  show ?case using Cons.IH [OF rest t(1)] Cons.prems(3,4) t(2) by (simp add: c)
qed



section \<open>Lemmas: what a client gets\<close>

abbreviation queued_bytes :: "'p client \<Rightarrow> bytes" where
  "queued_bytes c \<equiv> concat (map (\<lambda>d. case d of None \<Rightarrow> [] | Some b \<Rightarrow> b) (cc_out c))"

text \<open>Everything already written to the client's socket or queued for it.\<close>

definition client_stream :: "'p client \<Rightarrow> bytes" where
  "client_stream c = cc_sent c @ queued_bytes c"

text \<open>What can happen while the clients are connected: bytes from the device, a client's writer taking its next item, bytes
  from a client.\<close>

datatype bridge_event = B_serial real bytes | B_pump real nat | B_net real nat bytes

fun bridge_step :: "'p portmanager \<Rightarrow> 's serial_ops \<Rightarrow> bridge_event \<Rightarrow> ('p, 's) runner \<Rightarrow> ('p, 's) runner" where
  "bridge_step pm dev (B_serial now data) r = (case serial_chunk pm now data r of Some r' \<Rightarrow> r' | None \<Rightarrow> r)"
| "bridge_step pm dev (B_pump now i) r = pump_client now i r"
| "bridge_step pm dev (B_net now i data) r = snd (net_chunk pm dev now i data r)"

fun event_data :: "bridge_event \<Rightarrow> bytes list" where
  "event_data (B_serial now data) = (if data = [] then [] else [data])"
| "event_data _ = []"

text \<open>A client only goes on being served: it may start closing, and otherwise has the same session and \<open>sent\<close> more bytes.\<close>

definition served :: "bytes \<Rightarrow> 'p client \<Rightarrow> 'p client \<Rightarrow> bool" where
  "served sent c c' \<longleftrightarrow> cc_id c' = cc_id c \<and> cc_session c' = cc_session c \<and> (cc_closing c \<longrightarrow> cc_closing c') \<and>
     (\<not> cc_closing c' \<longrightarrow> client_stream c' = client_stream c @ sent)"

lemma served_refl: "served [] c c"
  by (simp add: served_def)

lemma served_trans: "served a c c1 \<Longrightarrow> served b c1 c2 \<Longrightarrow> served (a @ b) c c2"
  by (auto simp: served_def)

lemma client_feed_served:
  assumes "cc_session c = Some ses"
  shows "served (ses_from_serial pm ses data) c (fst (client_feed pm data c))"
  using assms by (auto simp: client_feed_def served_def client_stream_def put_nowait_def Let_def)

lemma graceful_served: "served [] c (request_graceful_close c)"
  by (auto simp: request_graceful_close_def served_def put_nowait_def Let_def)

lemma pump_out_served: "pump_out now c = Some (e, c', n) \<Longrightarrow> served [] c c'"
  by (auto simp: pump_out_def served_def client_stream_def split: list.splits option.splits)

lemma has_id_feed: "has_id i (fst (endpoint_feed pm up data e)) = has_id i e"
  by (cases e) (auto simp: client_feed_def put_nowait_def udp_feed_def Let_def split: option.splits prod.splits)

lemma has_id_close: "has_id i (endpoint_close e) = has_id i e"
  by (cases e) (auto simp: request_graceful_close_def put_nowait_def Let_def)

lemma find_map_id: "(\<And>e. P (f e) = P e) \<Longrightarrow> find P (map f xs) = map_option f (find P xs)"
  by (induction xs) auto

lemma serial_chunk_clients:
  assumes "serial_chunk pm now data r = Some r'"
  obtains "rn_clients r' = map (\<lambda>e. fst (endpoint_feed pm (rn_udp r) data e)) (rn_clients r)"
  | "rn_clients r' = map (\<lambda>e. endpoint_close (fst (endpoint_feed pm (rn_udp r) data e))) (rn_clients r)"
  using assms
  by (auto simp: serial_chunk_def Let_def check_closeon_def broadcast_def feed_traffic_def feed_monitors_def trace_data_def
      comp_def split: if_splits)

lemma serial_served:
  assumes "serial_chunk pm now data r = Some r'" and c: "find_client i r = Some c" and ses: "cc_session c = Some ses"
  shows "\<exists>c'. find_client i r' = Some c' \<and> served (ses_from_serial pm ses data) c c'"
proof -
  from c have f: "find (has_id i) (rn_clients r) = Some (TCP c)"
    by (auto simp: find_client_def split: option.splits endpoint.splits)
  let ?c = "fst (client_feed pm data c)"
  have fed: "fst (endpoint_feed pm up data (TCP c)) = TCP ?c" for up by (simp split: prod.splits)
  from assms(1) show ?thesis
  proof (cases rule: serial_chunk_clients)
    case 1
    then have "find_client i r' = Some ?c"
      using f by (simp add: find_client_def find_map_id has_id_feed fed del: endpoint_feed.simps)
    then show ?thesis using client_feed_served [OF ses] by blast
  next
    case 2
    then have "find_client i r' = Some (request_graceful_close ?c)"
      using f by (simp add: find_client_def find_map_id has_id_feed has_id_close fed del: endpoint_feed.simps)
    then show ?thesis using served_trans [OF client_feed_served [OF ses] graceful_served] by fastforce
  qed
qed

lemma find_update_client:
  assumes "\<And>c. cc_id c = j \<Longrightarrow> cc_id (f c) = j"
  shows "find_client i (update_client j f r) = map_option (\<lambda>c. if cc_id c = j then f c else c) (find_client i r)"
proof -
  let ?g = "\<lambda>e. case e of TCP c \<Rightarrow> if cc_id c = j then TCP (f c) else e | UDP u \<Rightarrow> e"
  have "has_id i (?g e) = has_id i e" for e using assms by (auto split: endpoint.splits)
  then have "find (has_id i) (map ?g (rn_clients r)) = map_option ?g (find (has_id i) (rn_clients r))"
    by (rule find_map_id)
  then show ?thesis by (auto simp: find_client_def update_client_def split: option.splits endpoint.splits)
qed

lemma find_client_id: "find_client i r = Some c \<Longrightarrow> cc_id c = i"
  by (auto simp: find_client_def find_Some_iff split: option.splits endpoint.splits)

lemma find_client_status [simp]:
  "find_client i (r\<lparr>rn_status := st\<rparr>) = find_client i r" "find_client i (r\<lparr>rn_ser := ser\<rparr>) = find_client i r"
  "find_client i (serial_write now data r) = find_client i r"
  by (auto simp: find_client_def serial_write_def feed_traffic_def trace_data_def split: option.splits)

lemma pump_served:
  assumes "find_client i r = Some c"
  shows "\<exists>c'. find_client i (pump_client now j r) = Some c' \<and> served [] c c'"
proof (cases "find_client j r")
  case None
  then show ?thesis using assms served_refl by (auto simp: pump_client_def)
next
  case (Some d)
  note dj = find_client_id [OF Some]
  show ?thesis
  proof (cases "pump_out now d")
    case None
    then show ?thesis using assms Some served_refl by (auto simp: pump_client_def)
  next
    case (Some x)
    obtain e d' n where x: "x = (e, d', n)" by (cases x) auto
    have d': "served [] d d'" using pump_out_served Some x by blast
    then have "cc_id d' = j" using dj by (simp add: served_def)
    then have "find_client i (pump_client now j r) = Some (if cc_id c = j then d' else c)"
      using \<open>find_client j r = Some d\<close> Some x assms by (simp add: pump_client_def Let_def find_update_client)
    moreover have "d = c" if "cc_id c = j" using \<open>find_client j r = Some d\<close> assms that find_client_id by fastforce
    ultimately show ?thesis using d' served_refl by auto
  qed
qed

lemma put_control_id [simp]: "cc_id (put_control b c) = cc_id c"
  by (simp add: put_control_def put_nowait_def)

lemma client_receive_id: "client_receive pm dev now data c ser = (res, c', ser') \<Longrightarrow> cc_id c' = cc_id c"
  by (auto simp: client_receive_def Let_def split: option.splits if_splits prod.splits sum.splits)

lemma net_served:
  assumes "find_client i r = Some c" and "j \<noteq> i"
  shows "find_client i (snd (net_chunk pm dev now j data r)) = Some c"
proof (cases "find_client j r")
  case (Some d)
  note dj = find_client_id [OF Some]
  obtain res d' ser where d': "client_receive pm dev now data d (rn_ser r) = (res, d', ser)"
    by (cases "client_receive pm dev now data d (rn_ser r)") auto
  have "cc_id d' = j" using client_receive_id [OF d'] dj by simp
  then show ?thesis using Some d' assms find_client_id [OF assms(1)]
    by (cases res) (auto simp: net_chunk_def Let_def find_update_client)
qed (simp add: net_chunk_def assms(1))

text \<open>The messages a client sends itself are the other direction.\<close>

fun own_message :: "nat \<Rightarrow> bridge_event \<Rightarrow> bool" where
  "own_message i (B_net now j data) = (j = i)"
| "own_message i _ = False"

lemma step_served:
  assumes "find_client i r = Some c" and "cc_session c = Some ses" and "\<not> own_message i ev"
  shows "\<exists>c'. find_client i (bridge_step pm dev ev r) = Some c' \<and>
    served (concat (map (ses_from_serial pm ses) (event_data ev))) c c'"
proof (cases ev)
  case (B_serial now data)
  show ?thesis
  proof (cases "serial_chunk pm now data r")
    case None
    then have "data = []" by (simp add: serial_chunk_def Let_def split: if_splits)
    then show ?thesis using None B_serial assms(1) served_refl by simp
  next
    case (Some r')
    then have "data \<noteq> []" by (auto simp: serial_chunk_def)
    then show ?thesis using serial_served [OF Some assms(1,2)] Some B_serial by simp
  qed
next
  case (B_pump now j)
  then show ?thesis using pump_served [OF assms(1)] by simp
next
  case (B_net now j data)
  then show ?thesis using net_served [OF assms(1)] assms(3) served_refl by auto
qed

lemma run_served:
  assumes "find_client i r = Some c" and "cc_session c = Some ses" and "\<forall>ev \<in> set evs. \<not> own_message i ev"
  shows "\<exists>c'. find_client i (fold (bridge_step pm dev) evs r) = Some c' \<and>
    served (concat (map (ses_from_serial pm ses) (concat (map event_data evs)))) c c'"
  using assms
proof (induction evs arbitrary: r c)
  case Nil
  then show ?case using served_refl by auto
next
  case (Cons ev evs)
  obtain c1 where c1: "find_client i (bridge_step pm dev ev r) = Some c1"
    "served (concat (map (ses_from_serial pm ses) (event_data ev))) c c1"
    using step_served [OF Cons.prems(1,2)] Cons.prems(3) by force
  then have "cc_session c1 = Some ses" using Cons.prems(2) by (simp add: served_def)
  then obtain c2 where "find_client i (fold (bridge_step pm dev) evs (bridge_step pm dev ev r)) = Some c2"
    "served (concat (map (ses_from_serial pm ses) (concat (map event_data evs)))) c1 c2"
    using Cons.IH [OF c1(1)] Cons.prems(3) by force
  then show ?case using served_trans [OF c1(2)] by auto
qed

section \<open>Lemmas: read-only mappings\<close>

definition bridge_read_only :: "('s \<Rightarrow> 'v) \<Rightarrow> 'v option \<Rightarrow> bytes option \<Rightarrow> ('p, 's) runner \<Rightarrow> bool" where
  "bridge_read_only view v w r \<longleftrightarrow> ns_read_only (mc_network (rn_mapping r)) \<and> map_option view (rn_ser r) = v \<and> rn_swriter r = w \<and>
     mo_closestr (mc_options (rn_mapping r)) = [] \<and>
     (\<forall>c ses. TCP c \<in> set (rn_clients r) \<longrightarrow> cc_session c = Some ses \<longrightarrow> ses_read_only ses)"

text \<open>What a network peer can make the runner do.\<close>

datatype peer_event = P_connect nat str int real | P_start nat | P_data real nat bytes | P_poll nat | P_leave nat
  | P_datagram real bytes "str \<times> int"

definition start_client :: "'p portmanager \<Rightarrow> 's serial_ops \<Rightarrow> nat \<Rightarrow> ('p, 's) runner \<Rightarrow> ('p, 's) runner" where
  "start_client pm dev i r =
     (case find_client i r of
        None \<Rightarrow> r
      | Some c \<Rightarrow>
          case client_start pm dev (rn_mapping r) (rs_device (rn_status r)) c (rn_ser r) of
            (Inl e, ser) \<Rightarrow> r\<lparr>rn_ser := ser\<rparr>
          | (Inr c', ser) \<Rightarrow> (update_client i (\<lambda>_. c') r)\<lparr>rn_ser := ser\<rparr>)"

definition poll_client :: "'p portmanager \<Rightarrow> 's serial_ops \<Rightarrow> nat \<Rightarrow> ('p, 's) runner \<Rightarrow> ('p, 's) runner" where
  "poll_client pm dev i r =
     (case find_client i r of
        None \<Rightarrow> r
      | Some c \<Rightarrow> let (c', ser) = client_poll pm dev c (rn_ser r) in (update_client i (\<lambda>_. c') r)\<lparr>rn_ser := ser\<rparr>)"

fun peer_step :: "'p portmanager \<Rightarrow> 's serial_ops \<Rightarrow> peer_event \<Rightarrow> ('p, 's) runner \<Rightarrow> ('p, 's) runner" where
  "peer_step pm dev (P_connect i ip port now) r = snd (on_client i ip port now r)"
| "peer_step pm dev (P_start i) r = start_client pm dev i r"
| "peer_step pm dev (P_data now i data) r = snd (net_chunk pm dev now i data r)"
| "peer_step pm dev (P_poll i) r = poll_client pm dev i r"
| "peer_step pm dev (P_leave i) r = client_left i r"
| "peer_step pm dev (P_datagram now data a) r = datagram_received now data a r"

lemma update_client_mem:
  "TCP c \<in> set (rn_clients (update_client i (\<lambda>_. d) r)) \<Longrightarrow> c = d \<or> TCP c \<in> set (rn_clients r)"
  by (auto simp: update_client_def split: endpoint.splits if_splits)

lemma update_client_fields [simp]:
  "rn_mapping (update_client i f r) = rn_mapping r" "rn_ser (update_client i f r) = rn_ser r"
  "rn_swriter (update_client i f r) = rn_swriter r"
  by (simp_all add: update_client_def)

lemma find_client_mem: "find_client i r = Some c \<Longrightarrow> TCP c \<in> set (rn_clients r)"
  by (auto simp: find_client_def find_Some_iff split: option.splits endpoint.splits) (metis nth_mem)

lemma update_read_only:
  assumes "bridge_read_only view v w r" and "\<And>ses. cc_session d = Some ses \<Longrightarrow> ses_read_only ses" and "map_option view ser = v"
  shows "bridge_read_only view v w ((update_client i (\<lambda>_. d) r)\<lparr>rn_ser := ser\<rparr>)"
  using assms update_client_mem [of _ i d r] by (fastforce simp: bridge_read_only_def)

lemma refresh_read_only [simp]: "bridge_read_only view v w (refresh_runner r) = bridge_read_only view v w r"
  by (simp add: bridge_read_only_def refresh_runner_def)

lemma put_control_session [simp]: "cc_session (put_control b c) = cc_session c"
  by (simp add: put_control_def put_nowait_def)

lemma receive_read_only:
  assumes "port_keeps dev view" and "client_receive pm dev now data c ser = (res, c', ser')"
    and "\<And>ses. cc_session c = Some ses \<Longrightarrow> ses_read_only ses" and "cc_session c' = Some ses'"
  shows "ses_read_only ses' \<and> map_option view ser' = map_option view ser"
proof -
  obtain ses where ses: "cc_session c = Some ses"
    using assms(2,4) by (auto simp: client_receive_def split: option.splits)
  show ?thesis
  proof (cases "data = []")
    case True
    then show ?thesis using assms ses by (auto simp: client_receive_def)
  next
    case False
    obtain x ses1 ser1 where f: "ses_from_network pm dev ses ser data = (x, ses1, ser1)"
      by (cases "ses_from_network pm dev ses ser data") auto
    note v = ses_from_network_view [OF assms(1) assms(3) [OF ses] f]
    then show ?thesis using assms(2,4) ses False f ses_take_read_only [of ses1]
      by (cases x) (auto simp: client_receive_def Let_def split: prod.splits)
  qed
qed

lemma session_read_only:
  "bridge_read_only view v w r \<Longrightarrow> find_client i r = Some c \<Longrightarrow> cc_session c = Some ses \<Longrightarrow> ses_read_only ses"
  using find_client_mem unfolding bridge_read_only_def by blast

lemma net_chunk_read_only:
  assumes "port_keeps dev view" and "bridge_read_only view v w r"
  shows "bridge_read_only view v w (snd (net_chunk pm dev now i data r))"
proof (cases "find_client i r")
  case (Some c)
  obtain res c' ser where x: "client_receive pm dev now data c (rn_ser r) = (res, c', ser)"
    by (cases "client_receive pm dev now data c (rn_ser r)") auto
  have "map_option view ser = v \<and> (\<forall>ses. cc_session c' = Some ses \<longrightarrow> ses_read_only ses)"
  proof (cases "cc_session c'")
    case None
    then have "ser = rn_ser r" using x
      by (auto simp: client_receive_def Let_def split: option.splits if_splits prod.splits sum.splits)
    then show ?thesis using None assms(2) by (simp add: bridge_read_only_def)
  next
    case ses: (Some ses)
    then show ?thesis using receive_read_only [OF assms(1) x _ ses] session_read_only [OF assms(2) Some] assms(2)
      by (auto simp: bridge_read_only_def)
  qed
  then have "bridge_read_only view v w ((update_client i (\<lambda>_. c') r)\<lparr>rn_ser := ser\<rparr>)"
    using update_read_only [OF assms(2)] by blast
  then show ?thesis using Some x assms(2)
    by (cases res) (auto simp: net_chunk_def Let_def bridge_read_only_def)
qed (simp add: net_chunk_def assms(2))

lemma start_read_only:
  assumes "port_keeps dev view" and "bridge_read_only view v w r"
  shows "bridge_read_only view v w (start_client pm dev i r)"
proof (cases "find_client i r")
  case (Some c)
  obtain x ser where x: "make_session pm dev (ns_protocol (mc_network (rn_mapping r))) (rn_ser r)
      (f64_real (mo_rfc2217_poll_modem_interval_s (mc_options (rn_mapping r)))) True = (x, ser)"
    by (cases "make_session pm dev (ns_protocol (mc_network (rn_mapping r))) (rn_ser r)
      (f64_real (mo_rfc2217_poll_modem_interval_s (mc_options (rn_mapping r)))) True") auto
  have ro: "ns_read_only (mc_network (rn_mapping r))" using assms(2) by (simp add: bridge_read_only_def)
  note v = make_session_view [OF assms(1) x]
  have vw: "map_option view ser = v" using v assms(2) by (simp add: bridge_read_only_def)
  show ?thesis
  proof (cases x)
    case (Inl e)
    then show ?thesis using Some x ro assms(2) vw
      by (simp add: start_client_def client_start_def bridge_read_only_def)
  next
    case (Inr ses)
    then have "ses_read_only (snd (ses_take_net_out ses))" using v ses_take_read_only by blast
    then show ?thesis using Some x ro Inr
      by (auto simp: start_client_def client_start_def Let_def split: prod.splits intro!: update_read_only [OF assms(2) _ vw])
  qed
qed (simp add: start_client_def assms(2))

lemma poll_read_only:
  assumes "port_keeps dev view" and "bridge_read_only view v w r"
  shows "bridge_read_only view v w (poll_client pm dev i r)"
proof (cases "find_client i r")
  case (Some c)
  show ?thesis
  proof (cases "cc_session c")
    case None
    then show ?thesis using Some assms(2) update_read_only [OF assms(2), of c "rn_ser r" i]
      by (simp add: poll_client_def client_poll_def bridge_read_only_def)
  next
    case ses: (Some ses)
    obtain out ses' ser where x: "ses_poll pm dev ses (rn_ser r) = (out, ses', ser)"
      by (cases "ses_poll pm dev ses (rn_ser r)") auto
    have "map_option view ser = v" "ses_read_only ses'"
      using ses_poll_view [OF assms(1) session_read_only [OF assms(2) Some ses] x] assms(2)
      by (simp_all add: bridge_read_only_def)
    then have "bridge_read_only view v w
        ((update_client i (\<lambda>_. put_control out (c\<lparr>cc_session := Some ses'\<rparr>)) r)\<lparr>rn_ser := ser\<rparr>)"
      by (intro update_read_only [OF assms(2)]) auto
    then show ?thesis using Some ses x by (simp add: poll_client_def client_poll_def)
  qed
qed (simp add: poll_client_def assms(2))

lemma endpoint_kick_TCP: "TCP c = endpoint_kick reason e \<longleftrightarrow> (\<exists>d. e = TCP d \<and> c = client_kick reason d)"
  by (cases e) auto

lemma kick_session:
  assumes "TCP c \<in> set (kick_victim reason x es)"
  shows "\<exists>d. TCP d \<in> set es \<and> cc_session d = cc_session c"
proof -
  from assms obtain d where "TCP d \<in> set es" "c = d \<or> c = client_kick reason d"
    by (cases x) (auto simp: kick_victim_def endpoint_kick_TCP split: if_splits)
  then show ?thesis by (auto simp: client_kick_def)
qed

lemma make_room_read_only: "bridge_read_only view v w r \<Longrightarrow> bridge_read_only view v w (make_room a r)"
  using kick_session unfolding bridge_read_only_def make_room_def
  by (fastforce split: admission.splits option.splits)

lemma add_client_read_only: "bridge_read_only view v w r \<Longrightarrow> bridge_read_only view v w (add_client i ip port now r)"
  unfolding add_client_def refresh_read_only by (auto simp: bridge_read_only_def new_client_def)

lemma on_client_read_only:
  assumes "bridge_read_only view v w r"
  shows "bridge_read_only view v w (snd (on_client i ip port now r))"
  using assms make_room_read_only [OF assms]
  by (auto simp: on_client_def Let_def add_client_read_only split: admission.splits)

lemma left_read_only: "bridge_read_only view v w r \<Longrightarrow> bridge_read_only view v w (client_left i r)"
  by (auto simp: client_left_def Let_def bridge_read_only_def refresh_runner_def)

lemma datagram_read_only:
  assumes "bridge_read_only view v w r"
  shows "bridge_read_only view v w (datagram_received now data a r)"
proof -
  have "bridge_read_only view v w (udp_learn now a r)"
    using assms unfolding udp_learn_def
    by (auto split: option.splits endpoint.splits) (auto simp: bridge_read_only_def split: if_splits)
  then show ?thesis using assms by (auto simp: datagram_received_def Let_def bridge_read_only_def)
qed

lemma peer_step_read_only:
  assumes "port_keeps dev view" and "bridge_read_only view v w r"
  shows "bridge_read_only view v w (peer_step pm dev ev r)"
  using assms by (cases ev) (simp_all add: net_chunk_read_only start_read_only poll_read_only on_client_read_only
      left_read_only datagram_read_only)

lemma peer_run_read_only:
  assumes "port_keeps dev view" and "bridge_read_only view v w r"
  shows "bridge_read_only view v w (fold (peer_step pm dev) evs r)"
  using assms(2) by (induction evs arbitrary: r) (simp_all add: peer_step_read_only [OF assms(1)])

section \<open>Properties: data\<close>


definition sample_session_runner :: "(unit, str \<Rightarrow> pyval) runner" where
  "sample_session_runner = update_client 0 (\<lambda>c. c\<lparr>cc_session := Some S_raw\<rparr>)
     (snd (on_client 0 (ascii ''10.0.0.1'') 5000 0 (runner_init sample_bridge)))"



definition sample_ro_runner :: "(unit, str \<Rightarrow> pyval) runner" where
  "sample_ro_runner = (let m = sample_mapping ''m'' ''net'' ''/dev/ttyS0'' in
     (runner_init (m\<lparr>mc_network := (mc_network m)\<lparr>ns_read_only := True, ns_protocol := ascii ''rfc2217''\<rparr>\<rparr>))
       \<lparr>rn_ser := Some (\<lambda>_. VInt 9600), rn_swriter := Some [1], rn_ready := True\<rparr>)"


end
