(* ===== verification/Gateway_Runner.thy ===== *)
theory Gateway_Runner
  imports Gateway Sparkplug_Node Bridge
begin

text \<open>
  The life of a Modbus gateway (\<open>ModbusGatewayRunner\<close> in \<open>app/engine/modbus_gateway.py\<close>): construction, start with its
  listener and the optional MQTT side (plain topics or a Sparkplug B edge node), the serial supervisor, publishing of
  polled values, and the teardown. The outcome of binding the listener, the clock and the text of an exception are
  parameters; scheduled tasks are flags.
\<close>

section \<open>State\<close>

text \<open>Who handles a message of a subscription: a plain set topic, or a Sparkplug command.\<close>

datatype gw_handler = G_set | G_command command_handler

record gw_runner =
  gr_mapping :: mapping_config
  gr_status :: runner_status
  gr_tracer :: "tracer option"
  gr_serial :: bool
  gr_ready :: bool
  gr_server :: bool
  gr_serial_task :: bool
  gr_poll_task :: bool
  gr_write_tasks :: "(modbus_point \<times> pyval) list"
  gr_stop :: bool
  gr_bus :: gateway
  gr_aborted :: "master list"
  gr_mqtt :: "gw_handler mqtt_pub option"
  gr_sparkplug :: "sp_node option"
  gr_mqtt_out :: "mqtt_msg list"
  gr_allowed :: "ipnet list"
  gr_gap :: real

definition empty_gateway :: gateway where
  "empty_gateway = \<lparr>gw_clients = [], gw_client_count = 0, gw_bytes_in = 0, gw_bytes_out = 0, gw_monitor_feed = [],
     gw_traffic = [], gw_trace = [], gw_txns = 0\<rparr>"

definition gateway_init :: "mapping_config \<Rightarrow> gw_runner" where
  "gateway_init m =
     (let baud = max 1 (py_count (ss_baudrate (mc_serial m))) in
      \<lparr>gr_mapping = m, gr_status = init_status, gr_tracer = None, gr_serial = False, gr_ready = False, gr_server = False,
       gr_serial_task = False, gr_poll_task = False, gr_write_tasks = [], gr_stop = False, gr_bus = empty_gateway, gr_aborted = [],
       gr_mqtt = None, gr_sparkplug = None, gr_mqtt_out = [], gr_allowed = parse_nets (ns_allowed_client_ips (mc_network m)),
       gr_gap = max (1 / 100) (35 / 10 * 11 / real_of_int baud)\<rparr>)"

section \<open>Serial side\<close>

definition gw_close_serial :: "gw_runner \<Rightarrow> gw_runner" where
  "gw_close_serial r = r\<lparr>gr_ready := False, gr_serial := False\<rparr>"

text \<open>\<open>_serial_supervisor\<close>: the port is open, and a round ended with an error (\<open>None\<close>: because of the stop event).\<close>

definition gw_serial_opened :: "str \<Rightarrow> gw_runner \<times> retry \<Rightarrow> gw_runner \<times> retry" where
  "gw_serial_opened device rt =
     (let r = fst rt in
      (r\<lparr>gr_serial := True, gr_ready := True,
         gr_status := (gr_status r)\<lparr>rs_device := device, rs_last_error := [], rs_state := ascii ''running''\<rparr>\<rparr>, retry_start))"

definition gw_serial_ended :: "str option \<Rightarrow> gw_runner \<times> retry \<Rightarrow> (real option) \<times> gw_runner \<times> retry" where
  "gw_serial_ended err rt =
     (let (r, t) = rt;
          r1 = gw_close_serial (case err of None \<Rightarrow> r
                 | Some e \<Rightarrow> r\<lparr>gr_status := (gr_status r)\<lparr>rs_last_error := e,
                     rs_state := (if rt_attempt t = 0 then ascii ''device-missing'' else ascii ''reconnecting'')\<rparr>\<rparr>) in
      if gr_stop r1 then (None, r1, t)
      else let (delay, t') = retry_next t in
        (Some delay, r1\<lparr>gr_status := (gr_status r1)\<lparr>rs_reconnects := rs_reconnects (gr_status r1) + 1,
           rs_state := ascii ''reconnecting''\<rparr>\<rparr>, t'))"

section \<open>Publishing and writing\<close>

text \<open>\<open>_publish_values\<close>; \<open>pystr\<close> is \<open>str\<close> of a number. The Sparkplug node hands its messages to the publisher.\<close>

definition value_text :: "(pyval \<Rightarrow> str) \<Rightarrow> pyval \<Rightarrow> str" where
  "value_text pystr v = (case v of VBool b \<Rightarrow> if b then ascii ''1'' else ascii ''0'' | _ \<Rightarrow> pystr v)"

definition publish_values :: "(pyval \<Rightarrow> str) \<Rightarrow> int \<Rightarrow> (str \<times> pyval) list \<Rightarrow> gw_runner \<Rightarrow> sp_error + gw_runner" where
  "publish_values pystr now vs r =
     (case gr_sparkplug r of
        Some n \<Rightarrow>
          rbind (node_update n now vs) (\<lambda>(n', ms).
          Inr (r\<lparr>gr_sparkplug := Some n', gr_mqtt_out := gr_mqtt_out r @
            (case gr_mqtt r of None \<Rightarrow> []
             | Some q \<Rightarrow> concat (map (\<lambda>(t, b). publish_raw q t b (Some (VInt 0)) False) ms))\<rparr>))
      | None \<Rightarrow>
          (case gr_mqtt r of
             None \<Rightarrow> Inr r
           | Some q \<Rightarrow> Inr (r\<lparr>gr_mqtt_out := gr_mqtt_out r @
               concat (map (\<lambda>(name, v). publish_value q name (encode_text (value_text pystr v))) vs)\<rparr>)))"

text \<open>\<open>_write_soon\<close>: the task is scheduled; when it ends it leaves the set and reports \<open>None\<close> or the error.\<close>

definition write_soon :: "modbus_point \<Rightarrow> pyval \<Rightarrow> gw_runner \<Rightarrow> gw_runner" where
  "write_soon p v r = r\<lparr>gr_write_tasks := gr_write_tasks r @ [(p, v)]\<rparr>"

section \<open>Start and stop\<close>

text \<open>\<open>stop\<close>: an exception of the Sparkplug node's farewell ends it early; otherwise everything is released.\<close>

definition gw_teardown :: "gw_runner \<Rightarrow> gw_runner" where
  "gw_teardown r = (gw_close_serial (r\<lparr>gr_server := False, gr_serial_task := False\<rparr>))\<lparr>gr_tracer := None,
     gr_status := (gr_status r)\<lparr>rs_state := ascii ''stopped'', rs_client_count := 0, rs_clients := []\<rparr>\<rparr>"

definition gw_stop :: "int \<Rightarrow> gw_runner \<Rightarrow> sp_error option \<times> gw_runner" where
  "gw_stop now r =
     (let r1 = r\<lparr>gr_stop := True, gr_aborted := gr_aborted r @ gw_clients (gr_bus r), gr_poll_task := False, gr_write_tasks := []\<rparr> in
      case gr_sparkplug r1 of
        Some n \<Rightarrow>
          (case node_close n now of
             (Inl e, n') \<Rightarrow> (Some e, r1)
           | (Inr final, n') \<Rightarrow>
               let bye = (case (final, gr_mqtt r1) of (Some m, Some q) \<Rightarrow> snd (mqtt_close q (Some m)) | _ \<Rightarrow> []) in
               (None, gw_teardown (r1\<lparr>gr_sparkplug := None, gr_mqtt := None, gr_mqtt_out := gr_mqtt_out r1 @ bye\<rparr>)))
      | None \<Rightarrow>
          let bye = (case gr_mqtt r1 of Some q \<Rightarrow> snd (mqtt_close q None) | None \<Rightarrow> []) in
          (None, gw_teardown (r1\<lparr>gr_mqtt := None, gr_mqtt_out := gr_mqtt_out r1 @ bye\<rparr>)))"

text \<open>The MQTT part of \<open>start\<close>. A Sparkplug node makes its publisher, whose will it sets before connecting; an exception
  there is raised with what was assigned before it.\<close>

definition start_sparkplug :: "int \<Rightarrow> gw_runner \<Rightarrow> sp_error option \<times> gw_runner" where
  "start_sparkplug now r =
     (let m = gr_mapping r; n = node_init m in
      case node_subscriptions n of
        Inl e \<Rightarrow> (Some e, r\<lparr>gr_sparkplug := Some n\<rparr>)
      | Inr subs \<Rightarrow>
          let q = mqtt_init (mc_mqtt m) False (map (\<lambda>(t, h). (t, G_command h)) subs);
              (will, n') = node_will (n\<lparr>sn_pub := True\<rparr>) now in
          case will of
            Inl e \<Rightarrow> (Some e, r\<lparr>gr_sparkplug := Some n', gr_mqtt := Some (q\<lparr>pb_client := True\<rparr>)\<rparr>)
          | Inr _ \<Rightarrow> (None, r\<lparr>gr_sparkplug := Some n', gr_mqtt := Some (fst (mqtt_connect q)), gr_poll_task := True\<rparr>))"

definition start_plain :: "gw_runner \<Rightarrow> gw_runner" where
  "start_plain r =
     (let mq = mc_mqtt (gr_mapping r);
          subs = map (\<lambda>t. (t, G_set)) (set_subscriptions (mq_base_topic mq) (poll_points (mc_poll (gr_mapping r))));
          (q, out) = mqtt_connect (mqtt_init mq True subs) in
      r\<lparr>gr_mqtt := Some q, gr_mqtt_out := gr_mqtt_out r @ out, gr_poll_task := True\<rparr>)"

text \<open>\<open>start\<close>: \<open>net_result\<close> is the error of opening the listener, \<open>None\<close> when it is up.\<close>

definition gw_start :: "(sp_error \<Rightarrow> str) \<Rightarrow> int \<Rightarrow> str option \<Rightarrow> bool \<Rightarrow> trace_files \<Rightarrow> str option \<Rightarrow> gw_runner \<Rightarrow> str option \<times> gw_runner" where
  "gw_start exn_text now trace_dir can_open fs net_result r =
     (let m = gr_mapping r;
          r1 = r\<lparr>gr_stop := False, gr_tracer := open_tracer m trace_dir can_open fs, gr_serial_task := True\<rparr>;
          running = (\<lambda>x. x\<lparr>gr_status := (gr_status x)\<lparr>rs_state := ascii ''running''\<rparr>\<rparr>) in
      case net_result of
        Some e \<Rightarrow> (case gw_stop now r1 of (None, r2) \<Rightarrow> (Some e, r2) | (Some x, r2) \<Rightarrow> (Some (exn_text x), r2))
      | None \<Rightarrow>
          let r2 = r1\<lparr>gr_server := True\<rparr> in
          if mq_enabled (mc_mqtt m) \<and> poll_points (mc_poll m) \<noteq> [] then
            if mq_payload_format (mc_mqtt m) = ascii ''sparkplug_b'' then
              (case start_sparkplug now r2 of
                 (Some x, r3) \<Rightarrow> (Some (exn_text x), r3)
               | (None, r3) \<Rightarrow> (None, running r3))
            else (None, running (start_plain r2))
          else (None, running r2))"

section \<open>What a gateway holds\<close>

text \<open>The sockets, tasks, files and connections of the runner.\<close>

definition gw_held :: "gw_runner \<Rightarrow> bool" where
  "gw_held r \<longleftrightarrow> gr_server r \<or> gr_serial_task r \<or> gr_serial r \<or> gr_poll_task r \<or> gr_write_tasks r \<noteq> [] \<or>
     gr_mqtt r \<noteq> None \<or> gr_sparkplug r \<noteq> None \<or> gr_tracer r \<noteq> None"

text \<open>The names a Sparkplug node publishes under are usable and its session number is in range.\<close>

definition node_good :: "sp_node \<Rightarrow> bool" where
  "node_good n \<longleftrightarrow> check_id (sn_group n) = Inr (sn_group n) \<and> check_id (sn_node n) = Inr (sn_node n) \<and>
     0 \<le> sn_bdseq n \<and> sn_bdseq n < 256"

definition clock_ok :: "int \<Rightarrow> bool" where
  "clock_ok now \<longleftrightarrow> 0 \<le> now \<and> now < 2 ^ 64"

lemma varint_loop_byte: "0 \<le> i \<Longrightarrow> i < 256 \<Longrightarrow> length (varint_loop i) \<le> 2"
proof -
  assume "0 \<le> i" "i < 256"
  then have "\<not> 127 < i div 128" by simp
  then show ?thesis by (subst varint_loop.simps, subst varint_loop.simps) (simp add: drop_bit_eq_div)
qed

lemma bdseq_encodes:
  assumes "0 \<le> b" and "b < 256"
  shows "\<exists>x. encode_metric (default_metric\<lparr>m_name := BDSEQ, m_datatype := 8, m_value := VInt b\<rparr>) True = Inr x \<and> length x < 100"
proof -
  have c: "map_of INT_TYPES 8 = Some (False, 64)" "map_of VALUE_FIELDS 8 = Some [F_LONG, F_INT]" "BDSEQ \<noteq> []" "field_key F_LONG WT_VARINT = Inr [88]" 
    "int_bounds False 64 = (0, U64_MAX)" "F_LONG \<noteq> F_INT" "U64_MAX = mask 64"
    by code_simp+
  have a: "\<exists>x. rbind (sp_text (VStr BDSEQ)) (field_len 1) = Inr x \<and> length x < 40"
  proof -
    have "case rbind (sp_text (VStr BDSEQ)) (field_len 1) of Inr x \<Rightarrow> length x < 40 | Inl _ \<Rightarrow> False" by code_simp
    then show ?thesis by (auto split: sum.splits)
  qed
  have d: "\<exists>x. field_varint 4 8 = Inr x \<and> length x < 40"
  proof -
    have "case field_varint 4 8 of Inr x \<Rightarrow> length x < 40 | Inl _ \<Rightarrow> False" by code_simp
    then show ?thesis by (auto split: sum.splits)
  qed
  have "b AND U64_MAX = b" using assms by (simp add: c(7) take_bit_eq_mask [symmetric] take_bit_int_eq_self)
  moreover have "b \<le> U64_MAX" using assms by (simp add: U64_MAX_def)
  ultimately have "encode_metric_value 8 (VInt b) = Inr (88 # varint_loop b)"
    using assms c by (simp add: encode_metric_value_def field_varint_def varint_def)
  then show ?thesis
    using a d c varint_loop_byte [OF assms] by (auto simp: encode_metric_def default_metric_def opt_field_def)
qed

lemma stamp_encodes: "0 \<le> now \<Longrightarrow> now < 2 ^ 64 \<Longrightarrow> \<exists>x. rbind (sp_uint (VInt now) 64) (field_varint 1) = Inr x"
proof -
  assume n: "0 \<le> now" "now < 2 ^ 64"
  have "field_key 1 WT_VARINT = Inr [8]" by code_simp
  then show ?thesis using n by (simp add: sp_uint_def drop_bit_eq_div field_varint_def varint_def U64_MAX_def)
qed

lemma ndeath_encodes:
  assumes "clock_ok now" and "0 \<le> sn_bdseq n" and "sn_bdseq n < 256"
  shows "\<exists>b. encode_payload (empty_payload\<lparr>p_timestamp := VInt now, p_metrics := [bdseq_metric n]\<rparr>) True = Inr b"
proof -
  obtain m where m: "encode_metric (bdseq_metric n) True = Inr m" "length m < 100"
    using bdseq_encodes [OF assms(2,3)] by (auto simp: bdseq_metric_def)
  have "field_key 2 WT_LEN = Inr [18]" by code_simp
  then have "\<exists>x. field_len 2 m = Inr x" using m by (simp add: field_len_def varint_def U64_MAX_def)
  then show ?thesis using stamp_encodes [of now] assms(1) m
    by (auto simp: clock_ok_def encode_payload_def empty_payload_def opt_field_def)
qed

lemma ndeath_made: "clock_ok now \<Longrightarrow> node_good n \<Longrightarrow> \<exists>m. ndeath n now = Inr m"
proof -
  assume c: "clock_ok now" and n: "node_good n"
  have "ascii ''NDEATH'' \<in> set MESSAGE_TYPES" "ascii ''NDEATH'' \<noteq> ascii ''STATE''" "\<not> is_prefix_of (ascii ''D'') (ascii ''NDEATH'')"
    by code_simp+
  then have "\<exists>t. node_topic n (ascii ''NDEATH'') None = Inr t"
    using n by (simp add: node_topic_def sp_topic_def node_good_def Let_def)
  then show ?thesis using ndeath_encodes [of now n] c n by (auto simp: ndeath_def node_good_def)
qed

lemma has_topic_char_strip: "\<not> has_topic_char v \<Longrightarrow> strip v \<noteq> [] \<Longrightarrow> check_id (strip v) = Inr (strip v)"
proof -
  show "\<not> has_topic_char v \<Longrightarrow> strip v \<noteq> [] \<Longrightarrow> check_id (strip v) = Inr (strip v)"
    using set_strip [of v] by (auto simp: check_id_ok has_topic_char_def list_ex_iff id_special_def)
qed

lemma node_init_good:
  assumes "validate_mqtt (mc_mqtt m) = Inr ()" and "mq_enabled (mc_mqtt m)" and "mq_payload_format (mc_mqtt m) = ascii ''sparkplug_b''"
  shows "node_good (node_init m)"
proof -
  let ?q = "mc_mqtt m"
  have "\<not> has_topic_char (mq_group_id ?q)" "\<not> has_topic_char (mq_node_id ?q)" "strip (mq_group_id ?q) \<noteq> []"
    using assms by (auto simp: validate_mqtt_def rbind_eq_Inr ensure_def split: if_splits)
  then show ?thesis
    by (auto simp: node_good_def node_init_def Let_def has_topic_char_strip sanitize_id_ok)
qed

section \<open>Start and stop\<close>

definition gw_good :: "gw_runner \<Rightarrow> bool" where
  "gw_good r \<longleftrightarrow> validate_mqtt (mc_mqtt (gr_mapping r)) = Inr () \<and> (\<forall>n. gr_sparkplug r = Some n \<longrightarrow> node_good n)"

lemma gw_init_free: "validate_mqtt (mc_mqtt m) = Inr () \<Longrightarrow> gw_good (gateway_init m) \<and> \<not> gw_held (gateway_init m)"
  by (simp add: gw_good_def gw_held_def gateway_init_def Let_def)

text \<open>A stop always runs to its end and releases everything.\<close>

lemma gw_stop_releases:
  assumes "gw_good r" and "clock_ok now"
  shows "fst (gw_stop now r) = None" and "\<not> gw_held (snd (gw_stop now r))" and "gw_good (snd (gw_stop now r))"
    and "gr_mapping (snd (gw_stop now r)) = gr_mapping r" and "rs_state (gr_status (snd (gw_stop now r))) = ascii ''stopped''"
proof -
  have "\<exists>f n'. node_close n now = (Inr f, n')" if "gr_sparkplug r = Some n" for n
    using ndeath_made [of now n] assms that by (auto simp: gw_good_def node_close_def)
  then have "fst (gw_stop now r) = None \<and> \<not> gw_held (snd (gw_stop now r)) \<and> gw_good (snd (gw_stop now r)) \<and>
      gr_mapping (snd (gw_stop now r)) = gr_mapping r \<and> rs_state (gr_status (snd (gw_stop now r))) = ascii ''stopped''"
    using assms by (cases "gr_sparkplug r")
      (force simp: gw_stop_def gw_teardown_def gw_close_serial_def gw_held_def gw_good_def Let_def)+
  then show "fst (gw_stop now r) = None" "\<not> gw_held (snd (gw_stop now r))" "gw_good (snd (gw_stop now r))"
    "gr_mapping (snd (gw_stop now r)) = gr_mapping r" "rs_state (gr_status (snd (gw_stop now r))) = ascii ''stopped''" by simp_all
qed

lemma node_will_good: "node_good n \<Longrightarrow> node_good (snd (node_will n now))"
  by (simp add: node_good_def node_will_def next_session_def Let_def)

lemma gw_start_good:
  assumes "gw_good r" and "clock_ok now"
  shows "gw_good (snd (gw_start exn_text now dir can fs net r))"
    and "gr_mapping (snd (gw_start exn_text now dir can fs net r)) = gr_mapping r"
proof -
  let ?r = "r\<lparr>gr_stop := False, gr_tracer := open_tracer (gr_mapping r) dir can fs, gr_serial_task := True\<rparr>"
  have g: "gw_good ?r" using assms(1) by (simp add: gw_good_def)
  have sp: "gw_good (snd (start_sparkplug now (?r\<lparr>gr_server := True\<rparr>))) \<and> gr_mapping (snd (start_sparkplug now (?r\<lparr>gr_server := True\<rparr>))) = gr_mapping r"
    if "mq_enabled (mc_mqtt (gr_mapping r))" "mq_payload_format (mc_mqtt (gr_mapping r)) = ascii ''sparkplug_b''"
  proof -
    have "node_good (node_init (gr_mapping r))" using node_init_good assms(1) that by (simp add: gw_good_def)
    moreover from this have "node_good (snd (node_will ((node_init (gr_mapping r))\<lparr>sn_pub := True\<rparr>) now))"
      by (intro node_will_good) (simp add: node_good_def)
    ultimately show ?thesis using assms(1)
      by (auto simp: start_sparkplug_def gw_good_def Let_def split: sum.splits prod.splits)
  qed
  show "gw_good (snd (gw_start exn_text now dir can fs net r))" "gr_mapping (snd (gw_start exn_text now dir can fs net r)) = gr_mapping r"
    using gw_stop_releases [OF g assms(2)] sp g
    by (auto simp: gw_start_def Let_def gw_good_def start_plain_def split: option.splits prod.splits)
qed

text \<open>A start that returns leaves the gateway running behind its listener.\<close>

lemma gw_start_running:
  assumes "gw_start exn_text now dir can fs net r = (None, r')"
  shows "gr_server r'" and "rs_state (gr_status r') = ascii ''running''" and "net = None"
proof -
  have "gr_server (snd (start_sparkplug now x)) = gr_server x" for x
    by (auto simp: start_sparkplug_def Let_def split: sum.splits prod.splits)
  note sp = this
  show n: "net = None"
    using assms by (cases net) (auto simp: gw_start_def Let_def split: prod.splits option.splits)
  let ?x = "r\<lparr>gr_stop := False, gr_tracer := open_tracer (gr_mapping r) dir can fs, gr_serial_task := True, gr_server := True\<rparr>"
  obtain o' x where o': "start_sparkplug now ?x = (o', x)" by (cases "start_sparkplug now ?x")
  then have "gr_server x" using sp [of ?x] by simp
  then show "gr_server r'" "rs_state (gr_status r') = ascii ''running''"
    using assms o' unfolding gw_start_def n by (auto simp: Let_def start_plain_def split: option.splits if_splits prod.splits)
qed

end
