(* ===== verification/Dict.thy ===== *)
theory Dict
  imports Main "HOL-Library.AList"
begin

text \<open>
  Insertion-ordered dictionaries as association lists: \<open>d[k] = v\<close> is \<open>AList.update\<close>, which keeps the place of an existing
  key, \<open>d.pop(k)\<close> and \<open>del d[k]\<close> are \<open>AList.delete\<close>, and \<open>d.get(k)\<close> is \<open>map_of\<close>.
\<close>

lemma update_new: "k \<notin> fst ` set d \<Longrightarrow> AList.update k v d = d @ [(k, v)]"
  by (induction d) auto

lemma set_update_subset: "set (AList.update k v d) \<subseteq> insert (k, v) (set d)"
  by (induction d) (auto split: if_splits)

lemma set_delete: "set (AList.delete k d) = {x \<in> set d. fst x \<noteq> k}"
  by (auto simp: AList.delete_eq)

lemma map_of_delete: "map_of (AList.delete k d) j = (if j = k then None else map_of d j)"
  by (simp add: delete_conv')

end
