(* ===== verification/Supervisor.thy ===== *)
theory Supervisor
  imports Gateway_Runner Dict
begin

text \<open>
  The owner of the running mappings (\<open>app/engine/supervisor.py\<close>). Its methods are coroutines that other calls
  interleave with at every \<open>await\<close>, so each one is a task that is resumed from await to await. Runner objects have an identity (a number)
  in a heap, since a runner that has left the table can still be running; the table \<open>_runners\<close> maps mapping ids to
  identities. The bodies under \<open>_lock\<close> contain no \<open>await\<close>, so the lock is never contended and each body is one step. The
  operations of a runner are a record; the runners of the program are the transparent bridge and the Modbus gateway.
\<close>

section \<open>Runners\<close>

text \<open>\<open>ro_start\<close> yields the text of the exception it raised, if any; \<open>'e\<close> is what the environment decides about a start
  or stop (the listener's socket, the trace file, the clock). A stop that raises leaves a state too: the caller suppresses
  the exception.\<close>

record ('e, 'r) runner_ops =
  ro_make :: "mapping_config \<Rightarrow> 'r"
  ro_start :: "'e \<Rightarrow> 'r \<Rightarrow> str option \<times> 'r"
  ro_stop :: "'e \<Rightarrow> 'r \<Rightarrow> 'r"
  ro_mapping :: "'r \<Rightarrow> mapping_config"
  ro_status :: "'r \<Rightarrow> runner_status"
  ro_set_status :: "(runner_status \<Rightarrow> runner_status) \<Rightarrow> 'r \<Rightarrow> 'r"

record 'r supervisor =
  sv_runners :: "(str \<times> nat) list"
  sv_order :: "str list"
  sv_heap :: "nat \<Rightarrow> 'r"
  sv_next :: nat

text \<open>An awaiting task: an \<open>apply_mapping\<close> that awaits the old runner's stop or the new one's start; a \<open>stop_mapping\<close> or
  \<open>remove_mapping\<close> that awaits the stop; a \<open>restart_mapping\<close> that does, before its \<open>apply_mapping\<close>; a \<open>stop_all\<close> with the
  runners left; or a returned result. The mappings are what \<open>start_all\<close> has still to apply after this call.\<close>

datatype phase =
    P_apply_stop mapping_config nat
  | P_start mapping_config nat
  | P_stop str nat
  | P_restart_stop mapping_config nat
  | P_stop_all "(str \<times> nat) list"
  | P_done bool str

type_synonym task = "phase \<times> mapping_config list"

section \<open>Operations\<close>

text \<open>A new runner for a mapping enters the heap.\<close>

definition new_runner :: "('e, 'r) runner_ops \<Rightarrow> mapping_config \<Rightarrow> 'r supervisor \<Rightarrow> nat \<times> 'r supervisor" where
  "new_runner ops m s = (sv_next s, s\<lparr>sv_heap := (sv_heap s)(sv_next s := ro_make ops m), sv_next := Suc (sv_next s)\<rparr>)"

definition with_runner :: "nat \<Rightarrow> ('r \<Rightarrow> 'r) \<Rightarrow> 'r supervisor \<Rightarrow> 'r supervisor" where
  "with_runner i f s = s\<lparr>sv_heap := (sv_heap s)(i := f (sv_heap s i))\<rparr>"

definition order_with :: "str \<Rightarrow> str list \<Rightarrow> str list" where
  "order_with k order = (if k \<in> set order then order else order @ [k])"

definition set_state :: "string \<Rightarrow> runner_status \<Rightarrow> runner_status" where
  "set_state v st = st\<lparr>rs_state := ascii v\<rparr>"

text \<open>\<open>apply_mapping\<close>: up to the first await; after the old runner's stop (the new runner is made and registered); after
  the start.\<close>

definition apply_register :: "('e, 'r) runner_ops \<Rightarrow> mapping_config \<Rightarrow> 'r supervisor \<Rightarrow> 'r supervisor \<times> phase" where
  "apply_register ops m s =
     (let (i, s1) = new_runner ops m s;
          s2 = s1\<lparr>sv_order := order_with (mc_id m) (sv_order s1), sv_runners := AList.update (mc_id m) i (sv_runners s1)\<rparr> in
      if \<not> mc_enabled m then (with_runner i (ro_set_status ops (set_state ''stopped'')) s2, P_done True (ascii ''disabled''))
      else (s2, P_start m i))"

definition apply_begin :: "('e, 'r) runner_ops \<Rightarrow> mapping_config \<Rightarrow> 'r supervisor \<Rightarrow> 'r supervisor \<times> phase" where
  "apply_begin ops m s =
     (case map_of (sv_runners s) (mc_id m) of
        Some old \<Rightarrow> (s\<lparr>sv_runners := AList.delete (mc_id m) (sv_runners s)\<rparr>, P_apply_stop m old)
      | None \<Rightarrow> apply_register ops m s)"

definition apply_started :: "('e, 'r) runner_ops \<Rightarrow> 'e \<Rightarrow> nat \<Rightarrow> 'r supervisor \<Rightarrow> 'r supervisor \<times> phase" where
  "apply_started ops e i s =
     (case ro_start ops e (sv_heap s i) of
        (None, r) \<Rightarrow> (s\<lparr>sv_heap := (sv_heap s)(i := r)\<rparr>, P_done True (ascii ''started''))
      | (Some err, r) \<Rightarrow>
          (s\<lparr>sv_heap := (sv_heap s)(i := ro_set_status ops (\<lambda>st. (set_state ''error'' st)\<lparr>rs_last_error := err\<rparr>) r)\<rparr>, P_done False err))"

text \<open>\<open>_ensure_stopped_placeholder\<close>.\<close>

definition placeholder :: "('e, 'r) runner_ops \<Rightarrow> mapping_config \<Rightarrow> 'r supervisor \<Rightarrow> 'r supervisor" where
  "placeholder ops m s =
     (if map_of (sv_runners s) (mc_id m) \<noteq> None then s
      else let (i, s1) = new_runner ops m s in
        with_runner i (ro_set_status ops (set_state ''stopped''))
          (s1\<lparr>sv_runners := AList.update (mc_id m) i (sv_runners s1), sv_order := order_with (mc_id m) (sv_order s1)\<rparr>))"

text \<open>\<open>stop_mapping\<close>, \<open>remove_mapping\<close>, \<open>restart_mapping\<close> and \<open>stop_all\<close> up to their first await.\<close>

definition stop_begin :: "str \<Rightarrow> 'r supervisor \<Rightarrow> 'r supervisor \<times> phase" where
  "stop_begin k s = (s, case map_of (sv_runners s) k of None \<Rightarrow> P_done True [] | Some i \<Rightarrow> P_stop k i)"

definition remove_begin :: "str \<Rightarrow> 'r supervisor \<Rightarrow> 'r supervisor \<times> phase" where
  "remove_begin k s =
     (s\<lparr>sv_runners := AList.delete k (sv_runners s), sv_order := remove1 k (sv_order s)\<rparr>,
      case map_of (sv_runners s) k of None \<Rightarrow> P_done True [] | Some i \<Rightarrow> P_stop k i)"

definition restart_begin :: "('e, 'r) runner_ops \<Rightarrow> mapping_config \<Rightarrow> 'r supervisor \<Rightarrow> 'r supervisor \<times> phase" where
  "restart_begin ops m s =
     (case map_of (sv_runners s) (mc_id m) of
        Some i \<Rightarrow> (s, P_restart_stop m i)
      | None \<Rightarrow> apply_begin ops m s)"

definition stop_all_begin :: "'r supervisor \<Rightarrow> 'r supervisor \<times> phase" where
  "stop_all_begin s = (s\<lparr>sv_runners := []\<rparr>, P_stop_all (sv_runners s))"

text \<open>The loop of \<open>start_all\<close>: disabled mappings get a placeholder, the first enabled one is applied.\<close>

fun start_rest :: "('e, 'r) runner_ops \<Rightarrow> mapping_config list \<Rightarrow> 'r supervisor \<Rightarrow> 'r supervisor \<times> task" where
  "start_rest ops [] s = (s, P_done True [], [])"
| "start_rest ops (m # ms) s =
     (if mc_enabled m then (let (s', ph) = apply_begin ops m s in (s', ph, ms))
      else start_rest ops ms (placeholder ops m s))"

definition start_all :: "('e, 'r) runner_ops \<Rightarrow> mapping_config list \<Rightarrow> 'r supervisor \<Rightarrow> 'r supervisor \<times> task" where
  "start_all ops ms s = start_rest ops ms (s\<lparr>sv_order := map mc_id ms\<rparr>)"

text \<open>A call, and what it does before it first awaits.\<close>

datatype call = C_apply mapping_config | C_stop str | C_restart mapping_config | C_remove str
  | C_start_all "mapping_config list" | C_stop_all

fun call_begin :: "('e, 'r) runner_ops \<Rightarrow> call \<Rightarrow> 'r supervisor \<Rightarrow> 'r supervisor \<times> task" where
  "call_begin ops (C_apply m) s = (let (s', ph) = apply_begin ops m s in (s', ph, []))"
| "call_begin ops (C_stop k) s = (let (s', ph) = stop_begin k s in (s', ph, []))"
| "call_begin ops (C_restart m) s = (let (s', ph) = restart_begin ops m s in (s', ph, []))"
| "call_begin ops (C_remove k) s = (let (s', ph) = remove_begin k s in (s', ph, []))"
| "call_begin ops (C_start_all ms) s = start_all ops ms s"
| "call_begin ops C_stop_all s = (let (s', ph) = stop_all_begin s in (s', ph, []))"

text \<open>What the awaited operation does when it completes, up to the next await of the method.\<close>

fun resume_phase :: "('e, 'r) runner_ops \<Rightarrow> 'e \<Rightarrow> phase \<Rightarrow> 'r supervisor \<Rightarrow> 'r supervisor \<times> phase" where
  "resume_phase ops e (P_apply_stop m i) s = apply_register ops m (with_runner i (ro_stop ops e) s)"
| "resume_phase ops e (P_start m i) s = apply_started ops e i s"
| "resume_phase ops e (P_stop k i) s = (with_runner i (ro_stop ops e) s, P_done True [])"
| "resume_phase ops e (P_restart_stop m i) s = apply_begin ops m (with_runner i (ro_stop ops e) s)"
| "resume_phase ops e (P_stop_all []) s = (s, P_done True [])"
| "resume_phase ops e (P_stop_all ((k, i) # is)) s = (with_runner i (ro_stop ops e) s, P_stop_all is)"
| "resume_phase ops e (P_done ok msg) s = (s, P_done ok msg)"

definition resume_task :: "('e, 'r) runner_ops \<Rightarrow> 'e \<Rightarrow> task \<Rightarrow> 'r supervisor \<Rightarrow> 'r supervisor \<times> task" where
  "resume_task ops e t s =
     (let (s', ph) = resume_phase ops e (fst t) s in
      case ph of P_done ok msg \<Rightarrow> if snd t = [] then (s', ph, []) else start_rest ops (snd t) s' | _ \<Rightarrow> (s', ph, snd t))"

section \<open>Status\<close>

definition get_runner :: "'r supervisor \<Rightarrow> str \<Rightarrow> 'r option" where
  "get_runner s k = map_option (sv_heap s) (map_of (sv_runners s) k)"

definition mapping_status :: "('e, 'r) runner_ops \<Rightarrow> 'r supervisor \<Rightarrow> str \<Rightarrow> runner_status option" where
  "mapping_status ops s k = map_option (ro_status ops) (get_runner s k)"

definition all_status :: "('e, 'r) runner_ops \<Rightarrow> 'r supervisor \<Rightarrow> (str \<times> runner_status) list" where
  "all_status ops s = map (\<lambda>(k, i). (k, ro_status ops (sv_heap s i))) (sv_runners s)"

definition devices_in_use :: "('e, 'r) runner_ops \<Rightarrow> 'r supervisor \<Rightarrow> str set" where
  "devices_in_use ops s = set (map rs_device (filter (\<lambda>st. rs_state st = ascii ''running'' \<and> rs_device st \<noteq> [])
     (map (\<lambda>(k, i). ro_status ops (sv_heap s i)) (sv_runners s))))"

definition sup_init :: "'r \<Rightarrow> 'r supervisor" where
  "sup_init r = \<lparr>sv_runners = [], sv_order = [], sv_heap = (\<lambda>_. r), sv_next = 0\<rparr>"

section \<open>The runners of the program\<close>

datatype ('p, 's) any_runner = Bridge_runner "('p, 's) runner" | Gateway_runner gw_runner

definition is_gateway :: "mapping_config \<Rightarrow> bool" where
  "is_gateway m \<longleftrightarrow> mc_kind m = ascii ''net'' \<and> ns_protocol (mc_network m) = ascii ''modbus''"

definition make_runner :: "mapping_config \<Rightarrow> ('p, 's) any_runner" where
  "make_runner m = (if is_gateway m then Gateway_runner (gateway_init m) else Bridge_runner (runner_init m))"

text \<open>The environment of a start or stop: the clock (milliseconds), the trace directory, whether the trace file can be opened
  and what is there, and the result of opening the listener.\<close>

type_synonym start_env = "64 word \<times> str option \<times> bool \<times> trace_files \<times> str option"

definition any_start :: "(sp_error \<Rightarrow> str) \<Rightarrow> start_env \<Rightarrow> ('p, 's) any_runner \<Rightarrow> str option \<times> ('p, 's) any_runner" where
  "any_start exn_text e r =
     (let (clock, dir, can, fs, net) = e in
      case r of
        Bridge_runner b \<Rightarrow> apsnd Bridge_runner (runner_start dir can fs net b)
      | Gateway_runner g \<Rightarrow> apsnd Gateway_runner (gw_start exn_text (uint clock) dir can fs net g))"

definition any_stop :: "start_env \<Rightarrow> ('p, 's) any_runner \<Rightarrow> ('p, 's) any_runner" where
  "any_stop e r = (case r of
       Bridge_runner b \<Rightarrow> Bridge_runner (runner_stop b)
     | Gateway_runner g \<Rightarrow> Gateway_runner (snd (gw_stop (uint (fst e)) g)))"

definition any_mapping :: "('p, 's) any_runner \<Rightarrow> mapping_config" where
  "any_mapping r = (case r of Bridge_runner b \<Rightarrow> rn_mapping b | Gateway_runner g \<Rightarrow> gr_mapping g)"

definition any_status :: "('p, 's) any_runner \<Rightarrow> runner_status" where
  "any_status r = (case r of Bridge_runner b \<Rightarrow> rn_status b | Gateway_runner g \<Rightarrow> gr_status g)"

definition any_set_status :: "(runner_status \<Rightarrow> runner_status) \<Rightarrow> ('p, 's) any_runner \<Rightarrow> ('p, 's) any_runner" where
  "any_set_status f r = (case r of
       Bridge_runner b \<Rightarrow> Bridge_runner (b\<lparr>rn_status := f (rn_status b)\<rparr>)
     | Gateway_runner g \<Rightarrow> Gateway_runner (g\<lparr>gr_status := f (gr_status g)\<rparr>))"

definition program_ops :: "(sp_error \<Rightarrow> str) \<Rightarrow> (start_env, ('p, 's) any_runner) runner_ops" where
  "program_ops exn_text = \<lparr>ro_make = make_runner, ro_start = any_start exn_text, ro_stop = any_stop,
     ro_mapping = any_mapping, ro_status = any_status, ro_set_status = any_set_status\<rparr>"

section \<open>Interleavings\<close>

text \<open>The mappings a call or a task concerns.\<close>

fun call_ids :: "'r supervisor \<Rightarrow> call \<Rightarrow> str set" where
  "call_ids s (C_apply m) = {mc_id m}"
| "call_ids s (C_stop k) = {k}"
| "call_ids s (C_restart m) = {mc_id m}"
| "call_ids s (C_remove k) = {k}"
| "call_ids s (C_start_all ms) = mc_id ` set ms"
| "call_ids s C_stop_all = fst ` set (sv_runners s)"

fun call_mappings :: "call \<Rightarrow> mapping_config set" where
  "call_mappings (C_apply m) = {m}"
| "call_mappings (C_restart m) = {m}"
| "call_mappings (C_start_all ms) = set ms"
| "call_mappings _ = {}"

fun phase_ids :: "phase \<Rightarrow> str set" where
  "phase_ids (P_apply_stop m i) = {mc_id m}"
| "phase_ids (P_start m i) = {mc_id m}"
| "phase_ids (P_stop k i) = {k}"
| "phase_ids (P_restart_stop m i) = {mc_id m}"
| "phase_ids (P_stop_all is) = fst ` set is"
| "phase_ids (P_done ok msg) = {}"

definition task_ids :: "task \<Rightarrow> str set" where
  "task_ids t = phase_ids (fst t) \<union> mc_id ` set (snd t)"

text \<open>The states that calls reach: a call begins only while no unfinished task concerns one of its mappings; tasks are
  resumed in any order; a runner that holds resources changes on its own.\<close>

inductive sup_reach :: "('e, 'r) runner_ops \<Rightarrow> ('r \<Rightarrow> bool) \<Rightarrow> ('r \<Rightarrow> bool) \<Rightarrow> (mapping_config \<Rightarrow> bool) \<Rightarrow>
    'r supervisor \<Rightarrow> task list \<Rightarrow> bool"
  for ops :: "('e, 'r) runner_ops" and good held :: "'r \<Rightarrow> bool" and ok :: "mapping_config \<Rightarrow> bool" where
  reach_init: "sup_reach ops good held ok (sup_init r) []"
| reach_call: "sup_reach ops good held ok s ts \<Longrightarrow> \<forall>m \<in> call_mappings c. ok m \<Longrightarrow>
    \<forall>t \<in> set ts. task_ids t \<inter> call_ids s c = {} \<Longrightarrow> call_begin ops c s = (s', t') \<Longrightarrow>
    sup_reach ops good held ok s' (ts @ [t'])"
| reach_resume: "sup_reach ops good held ok s ts \<Longrightarrow> i < length ts \<Longrightarrow> resume_task ops e (ts ! i) s = (s', t') \<Longrightarrow>
    sup_reach ops good held ok s' (ts[i := t'])"
| reach_change: "sup_reach ops good held ok s ts \<Longrightarrow> i < sv_next s \<Longrightarrow> held (sv_heap s i) \<Longrightarrow> good r \<Longrightarrow>
    ro_mapping ops r = ro_mapping ops (sv_heap s i) \<Longrightarrow> sup_reach ops good held ok (with_runner i (\<lambda>_. r) s) ts"

section \<open>The contract of a runner\<close>

text \<open>What the supervisor relies on: a new runner of an acceptable mapping holds nothing, a start keeps the runner usable, a
  stop releases everything, and the status is only a display.\<close>

locale runner_contract =
  fixes ops :: "('e, 'r) runner_ops" and good held :: "'r \<Rightarrow> bool" and ok :: "mapping_config \<Rightarrow> bool"
  assumes make_free: "ok m \<Longrightarrow> good (ro_make ops m) \<and> \<not> held (ro_make ops m)"
    and make_mapping: "ro_mapping ops (ro_make ops m) = m"
    and start_good: "good r \<Longrightarrow> good (snd (ro_start ops e r))"
    and start_mapping: "good r \<Longrightarrow> ro_mapping ops (snd (ro_start ops e r)) = ro_mapping ops r"
    and stop_free: "good r \<Longrightarrow> good (ro_stop ops e r) \<and> \<not> held (ro_stop ops e r)"
    and stop_mapping: "good r \<Longrightarrow> ro_mapping ops (ro_stop ops e r) = ro_mapping ops r"
    and status_good: "good (ro_set_status ops f r) = good r"
    and status_held: "held (ro_set_status ops f r) = held r"
    and status_mapping: "ro_mapping ops (ro_set_status ops f r) = ro_mapping ops r"
begin

definition rid :: "'r supervisor \<Rightarrow> nat \<Rightarrow> str" where
  "rid s i = mc_id (ro_mapping ops (sv_heap s i))"

fun stopping :: "phase \<Rightarrow> (str \<times> nat) set" where
  "stopping (P_apply_stop m i) = {(mc_id m, i)}"
| "stopping (P_stop k i) = {(k, i)}"
| "stopping (P_restart_stop m i) = {(mc_id m, i)}"
| "stopping (P_stop_all is) = set is"
| "stopping (P_start m i) = {}"
| "stopping (P_done b msg) = {}"

fun phase_mappings :: "phase \<Rightarrow> mapping_config set" where
  "phase_mappings (P_apply_stop m i) = {m}"
| "phase_mappings (P_start m i) = {m}"
| "phase_mappings (P_restart_stop m i) = {m}"
| "phase_mappings _ = {}"

definition base_inv :: "'r supervisor \<Rightarrow> bool" where
  "base_inv s \<longleftrightarrow> distinct (map fst (sv_runners s)) \<and> (\<forall>(k, i) \<in> set (sv_runners s). i < sv_next s \<and> rid s i = k) \<and>
     (\<forall>i < sv_next s. good (sv_heap s i))"

definition task_inv :: "'r supervisor \<Rightarrow> task \<Rightarrow> bool" where
  "task_inv s t \<longleftrightarrow>
     (\<forall>k i. (k, i) \<in> stopping (fst t) \<longrightarrow> i < sv_next s \<and> rid s i = k \<and> map_of (sv_runners s) k \<in> {None, Some i}) \<and>
     (\<forall>k i j. (k, i) \<in> stopping (fst t) \<longrightarrow> (k, j) \<in> stopping (fst t) \<longrightarrow> i = j) \<and>
     (\<forall>m i. fst t = P_start m i \<longrightarrow> map_of (sv_runners s) (mc_id m) = Some i) \<and>
     (\<forall>m i. fst t = P_apply_stop m i \<longrightarrow> map_of (sv_runners s) (mc_id m) = None) \<and>
     (\<forall>m \<in> phase_mappings (fst t) \<union> set (snd t). ok m)"

text \<open>A task accounts for the resources held for its mappings: they belong to a runner in the table or to one it is
  stopping.\<close>

definition owned :: "str set \<Rightarrow> 'r supervisor \<Rightarrow> phase \<Rightarrow> bool" where
  "owned K s ph \<longleftrightarrow> (\<forall>i < sv_next s. held (sv_heap s i) \<and> rid s i \<in> K \<longrightarrow> (rid s i, i) \<in> set (sv_runners s) \<union> stopping ph)"

definition touch :: "str set \<Rightarrow> 'r supervisor \<Rightarrow> 'r supervisor \<Rightarrow> bool" where
  "touch K s s' \<longleftrightarrow> sv_next s \<le> sv_next s' \<and> (\<forall>k. k \<notin> K \<longrightarrow> map_of (sv_runners s') k = map_of (sv_runners s) k) \<and>
     (\<forall>i < sv_next s. rid s' i = rid s i \<and> (rid s i \<notin> K \<longrightarrow> sv_heap s' i = sv_heap s i)) \<and>
     (\<forall>i. sv_next s \<le> i \<longrightarrow> i < sv_next s' \<longrightarrow> rid s' i \<in> K)"

text \<open>The state between two awaits of a task that concerns \<open>K\<close>.\<close>

definition local_inv :: "str set \<Rightarrow> 'r supervisor \<Rightarrow> task \<Rightarrow> bool" where
  "local_inv K s t \<longleftrightarrow> base_inv s \<and> task_inv s t \<and> owned K s (fst t) \<and> task_ids t \<subseteq> K"

lemma touch_refl [simp]: "touch K s s"
  by (simp add: touch_def)

lemma touch_trans: "touch K s s' \<Longrightarrow> touch K s' s'' \<Longrightarrow> touch K s s''"
proof -
  assume a: "touch K s s'" and b: "touch K s' s''"
  have n: "sv_next s \<le> sv_next s'" "sv_next s' \<le> sv_next s''" using a b by (simp_all add: touch_def)
  have "rid s'' i \<in> K" if "sv_next s \<le> i" "i < sv_next s''" for i
    using a b that by (cases "i < sv_next s'") (auto simp: touch_def)
  moreover have "rid s'' i = rid s i \<and> (rid s i \<notin> K \<longrightarrow> sv_heap s'' i = sv_heap s i)" if "i < sv_next s" for i
    using a b that n by (auto simp: touch_def)
  ultimately show "touch K s s''" using a b n by (auto simp: touch_def)
qed

lemma base_inv_runner: "base_inv s \<Longrightarrow> map_of (sv_runners s) k = Some i \<Longrightarrow> i < sv_next s \<and> rid s i = k"
  by (fastforce simp: base_inv_def dest: map_of_SomeD)

lemma task_invI:
  assumes "\<And>k i. (k, i) \<in> stopping ph \<Longrightarrow> i < sv_next s \<and> rid s i = k \<and> map_of (sv_runners s) k \<in> {None, Some i}"
    and "\<And>k i j. (k, i) \<in> stopping ph \<Longrightarrow> (k, j) \<in> stopping ph \<Longrightarrow> i = j"
    and "\<And>m i. ph = P_start m i \<Longrightarrow> map_of (sv_runners s) (mc_id m) = Some i"
    and "\<And>m i. ph = P_apply_stop m i \<Longrightarrow> map_of (sv_runners s) (mc_id m) = None"
    and "\<And>m. m \<in> phase_mappings ph \<union> set ms \<Longrightarrow> ok m"
  shows "task_inv s (ph, ms)"
  unfolding task_inv_def fst_conv snd_conv by (intro conjI allI ballI impI assms)

lemma task_invD:
  assumes "task_inv s (ph, ms)"
  shows "(k, i) \<in> stopping ph \<Longrightarrow> i < sv_next s \<and> rid s i = k \<and> map_of (sv_runners s) k \<in> {None, Some i}"
    and "(k, i) \<in> stopping ph \<Longrightarrow> (k, j) \<in> stopping ph \<Longrightarrow> i = j"
    and "ph = P_start m i \<Longrightarrow> map_of (sv_runners s) (mc_id m) = Some i"
    and "ph = P_apply_stop m i \<Longrightarrow> map_of (sv_runners s) (mc_id m) = None"
    and "m \<in> phase_mappings ph \<union> set ms \<Longrightarrow> ok m"
proof -
  note t = assms [unfolded task_inv_def fst_conv snd_conv]
  show "(k, i) \<in> stopping ph \<Longrightarrow> i < sv_next s \<and> rid s i = k \<and> map_of (sv_runners s) k \<in> {None, Some i}"
    using t [THEN conjunct1] by (elim allE impE)
  show "(k, i) \<in> stopping ph \<Longrightarrow> (k, j) \<in> stopping ph \<Longrightarrow> i = j"
    using t [THEN conjunct2, THEN conjunct1] by (elim allE impE)
  show "ph = P_start m i \<Longrightarrow> map_of (sv_runners s) (mc_id m) = Some i"
    using t [THEN conjunct2, THEN conjunct2, THEN conjunct1] by (elim allE impE)
  show "ph = P_apply_stop m i \<Longrightarrow> map_of (sv_runners s) (mc_id m) = None"
    using t [THEN conjunct2, THEN conjunct2, THEN conjunct2, THEN conjunct1] by (elim allE impE)
  show "m \<in> phase_mappings ph \<union> set ms \<Longrightarrow> ok m"
    using t [THEN conjunct2, THEN conjunct2, THEN conjunct2, THEN conjunct2] by (elim ballE) auto
qed

text \<open>Stopping a runner of the task: it no longer holds anything.\<close>

lemma stop_step:
  assumes "local_inv K s (ph, ms)" and "(k, i) \<in> stopping ph" and "stopping ph - {(k, i)} \<subseteq> stopping ph'" and "stopping ph' \<subseteq> stopping ph"
    and "phase_ids ph' \<subseteq> phase_ids ph" and "phase_mappings ph' \<subseteq> phase_mappings ph" and "\<forall>m j. ph' \<noteq> P_start m j \<and> ph' \<noteq> P_apply_stop m j"
  shows "local_inv K (with_runner i (ro_stop ops e) s) (ph', ms)" and "touch K s (with_runner i (ro_stop ops e) s)"
proof -
  let ?s = "with_runner i (ro_stop ops e) s"
  have i: "i < sv_next s" "rid s i = k" and g: "good (sv_heap s i)" and k: "k \<in> K"
  proof -
    show "i < sv_next s" "rid s i = k" using assms(1,2) by (auto simp: local_inv_def task_inv_def)
    then show "good (sv_heap s i)" using assms(1) by (simp add: local_inv_def base_inv_def)
    have "k \<in> phase_ids ph" using assms(2) by (cases ph) force+
    then show "k \<in> K" using assms(1) by (auto simp: local_inv_def task_ids_def)
  qed
  have r: "rid ?s j = rid s j" for j using stop_mapping [OF g] by (simp add: rid_def with_runner_def)
  have h: "\<not> held (sv_heap ?s i)" "good (sv_heap ?s i)" using stop_free [OF g] by (simp_all add: with_runner_def)
  have f: "sv_runners ?s = sv_runners s" "sv_next ?s = sv_next s" "j \<noteq> i \<Longrightarrow> sv_heap ?s j = sv_heap s j" for j
    by (simp_all add: with_runner_def)
  have "sv_heap ?s j = sv_heap s j" if "rid s j \<notin> K" for j using that i(2) k f(3) [of j] by auto
  then show "touch K s ?s" using f by (auto simp: touch_def r)
  have "good (sv_heap ?s j)" if "j < sv_next s" for j
    using that assms(1) h f(3) by (cases "j = i") (auto simp: local_inv_def base_inv_def)
  then have "base_inv ?s" using assms(1) f by (auto simp: local_inv_def base_inv_def r)
  moreover have "task_inv ?s (ph', ms)"
  proof -
    have t: "task_inv s (ph, ms)" using assms(1) by (simp add: local_inv_def)
    show ?thesis
    proof (rule task_invI)
      show "j < sv_next ?s \<and> rid ?s j = k' \<and> map_of (sv_runners ?s) k' \<in> {None, Some j}" if "(k', j) \<in> stopping ph'" for k' j
        using task_invD(1) [OF t] that assms(4) unfolding r f(1,2) by blast
    qed (use task_invD(2,5) [OF t] assms(4,6,7) in blast)+
  qed
  moreover have "owned K ?s ph'"
    unfolding owned_def r f(2)
  proof (intro allI impI)
    fix j
    assume j: "j < sv_next s" "held (sv_heap ?s j) \<and> rid s j \<in> K"
    then have "j \<noteq> i" using h by auto
    then show "(rid s j, j) \<in> set (sv_runners ?s) \<union> stopping ph'"
      using j assms(1,3) f by (auto simp: local_inv_def owned_def)
  qed
  ultimately show "local_inv K ?s (ph', ms)" using assms(1,5) by (auto simp: local_inv_def task_ids_def)
qed

text \<open>A new runner enters the table at a free id.\<close>

lemma enter_step:
  assumes "local_inv K s (P_done b msg, ms)" and "mc_id m \<in> K" and "map_of (sv_runners s) (mc_id m) = None"
    and "sv_runners s' = AList.update (mc_id m) (sv_next s) (sv_runners s)" and "sv_next s' = Suc (sv_next s)"
    and "sv_heap s' = (sv_heap s)(sv_next s := x)" and "good x" and "\<not> held x" and "ro_mapping ops x = m"
    and "ph = P_done b' msg' \<or> ph = P_start m (sv_next s) \<and> ok m"
  shows "local_inv K s' (ph, ms)" and "touch K s s'"
proof -
  let ?n = "sv_next s"
  have r: "rid s' j = (if j = ?n then mc_id m else rid s j)" for j using assms(6,9) by (simp add: rid_def)
  have mo: "map_of (sv_runners s') = (map_of (sv_runners s))(mc_id m \<mapsto> ?n)" using assms(4) by (simp add: update_conv')
  have se: "set (sv_runners s') \<subseteq> insert (mc_id m, ?n) (set (sv_runners s))" and sub: "set (sv_runners s) \<subseteq> set (sv_runners s')"
  proof -
    have "mc_id m \<notin> fst ` set (sv_runners s)" using assms(3) by (simp add: map_of_eq_None_iff)
    then have "sv_runners s' = sv_runners s @ [(mc_id m, ?n)]" unfolding assms(4) by (rule update_new)
    then show "set (sv_runners s') \<subseteq> insert (mc_id m, ?n) (set (sv_runners s))" "set (sv_runners s) \<subseteq> set (sv_runners s')" by auto
  qed
  show "touch K s s'" using assms(2,5,6) by (auto simp: touch_def r mo)
  have "base_inv s'"
    using assms(1,4,5,6,7) se by (auto simp: local_inv_def base_inv_def r distinct_update less_Suc_eq)
  moreover have "task_inv s' (ph, ms)" using assms(1,10) by (auto simp: local_inv_def task_inv_def mo)
  moreover have "owned K s' ph" using assms(1,5,6,8,10) sub by (auto simp: local_inv_def owned_def r less_Suc_eq)
  ultimately show "local_inv K s' (ph, ms)" using assms(1,2,10) by (auto simp: local_inv_def task_ids_def)
qed

lemma register_step:
  assumes "local_inv K s (P_done b msg, ms)" and "mc_id m \<in> K" and "map_of (sv_runners s) (mc_id m) = None" and "ok m"
    and "apply_register ops m s = (s', ph)"
  shows "local_inv K s' (ph, ms)" and "touch K s s'"
proof -
  have "good (ro_make ops m)" "\<not> held (ro_make ops m)" using make_free [OF assms(4)] by simp_all
  then have "local_inv K s' (ph, ms) \<and> touch K s s'"
    using enter_step [OF assms(1-3), of s' "if mc_enabled m then ro_make ops m else ro_set_status ops (set_state ''stopped'') (ro_make ops m)" ph True "ascii ''disabled''"] assms(4,5)
    by (auto simp: apply_register_def new_runner_def with_runner_def Let_def make_mapping status_good status_held status_mapping split: if_splits)
  then show "local_inv K s' (ph, ms)" "touch K s s'" by simp_all
qed

lemma placeholder_step:
  assumes "local_inv K s (P_done b msg, ms)" and "mc_id m \<in> K" and "ok m"
  shows "local_inv K (placeholder ops m s) (P_done b msg, ms)" and "touch K s (placeholder ops m s)"
proof -
  have g: "good (ro_make ops m)" "\<not> held (ro_make ops m)" using make_free [OF assms(3)] by simp_all
  have "local_inv K (placeholder ops m s) (P_done b msg, ms) \<and> touch K s (placeholder ops m s)"
  proof (cases "map_of (sv_runners s) (mc_id m)")
    case None
    then show ?thesis
      using enter_step [OF assms(1,2) None, of "placeholder ops m s" "ro_set_status ops (set_state ''stopped'') (ro_make ops m)" "P_done b msg" b msg] g
      by (simp add: placeholder_def new_runner_def with_runner_def Let_def make_mapping status_good status_held status_mapping)
  qed (use assms(1) in \<open>simp add: placeholder_def\<close>)
  then show "local_inv K (placeholder ops m s) (P_done b msg, ms)" "touch K s (placeholder ops m s)" by simp_all
qed

text \<open>Taking a runner out of the table, to be stopped.\<close>

lemma take_out_step:
  assumes "local_inv K s (P_done b msg, ms)" and "k \<in> K" and "sv_runners s' = AList.delete k (sv_runners s)"
    and "sv_next s' = sv_next s" and "sv_heap s' = sv_heap s"
    and "stopping ph = (case map_of (sv_runners s) k of None \<Rightarrow> {} | Some i \<Rightarrow> {(k, i)})"
    and "phase_ids ph \<subseteq> {k}" and "\<forall>m \<in> phase_mappings ph. ok m" and "\<forall>m j. ph \<noteq> P_start m j"
  shows "local_inv K s' (ph, ms)" and "touch K s s'"
proof -
  have r: "rid s' j = rid s j" for j using assms(5) by (simp add: rid_def)
  have st: "set (sv_runners s') = {x \<in> set (sv_runners s). fst x \<noteq> k}" unfolding assms(3) by (rule set_delete)
  have dk: "distinct (map fst (sv_runners s'))" using assms(1,3) by (simp add: local_inv_def base_inv_def distinct_delete)
  show "touch K s s'" using assms(2,4,5) by (auto simp: touch_def r assms(3) map_of_delete)
  have "base_inv s'" using assms(1,4,5) dk by (auto simp: local_inv_def base_inv_def r st)
  moreover have "task_inv s' (ph, ms)"
    using assms(1,4,6,8,9) base_inv_runner [of s k]
    by (auto simp: local_inv_def task_inv_def r assms(3) map_of_delete split: option.splits)
  moreover have "owned K s' ph"
    unfolding owned_def r assms(4,5)
  proof (intro allI impI)
    fix j
    assume j: "j < sv_next s" "held (sv_heap s j) \<and> rid s j \<in> K"
    then have "(rid s j, j) \<in> set (sv_runners s)" using assms(1) by (auto simp: local_inv_def owned_def)
    moreover from this have "map_of (sv_runners s) (rid s j) = Some j" using assms(1) by (simp add: local_inv_def base_inv_def)
    ultimately show "(rid s j, j) \<in> set (sv_runners s') \<union> stopping ph"
      using assms(6) by (cases "rid s j = k") (simp_all add: st)
  qed
  ultimately show "local_inv K s' (ph, ms)" using assms(1,2,7) by (auto simp: local_inv_def task_ids_def)
qed

lemma begin_step:
  assumes "local_inv K s (P_done b msg, ms)" and "mc_id m \<in> K" and "ok m" and "apply_begin ops m s = (s', ph)"
  shows "local_inv K s' (ph, ms)" and "touch K s s'"
proof -
  have "local_inv K s' (ph, ms) \<and> touch K s s'"
  proof (cases "map_of (sv_runners s) (mc_id m)")
    case None
    then show ?thesis using register_step [OF assms(1,2) None assms(3)] assms(4) by (simp add: apply_begin_def)
  next
    case (Some i)
    then show ?thesis
      using take_out_step [OF assms(1,2), of s' ph] assms(3,4) by (auto simp: apply_begin_def)
  qed
  then show "local_inv K s' (ph, ms)" "touch K s s'" by simp_all
qed

lemma local_inv_rest: "local_inv K s (ph, ms) \<Longrightarrow> set ns \<subseteq> set ms \<Longrightarrow> local_inv K s (ph, ns)"
proof -
  assume l: "local_inv K s (ph, ms)" and n: "set ns \<subseteq> set ms"
  then have "task_inv s (ph, ms)" by (simp add: local_inv_def)
  note t = task_invD [OF this]
  have "task_inv s (ph, ns)" by (rule task_invI) (use t n in blast)+
  then show "local_inv K s (ph, ns)" using l n by (auto simp: local_inv_def task_ids_def)
qed

lemma local_inv_done: "local_inv K s (P_done b msg, ms) = local_inv K s (P_done b' msg', ms)"
  by (simp add: local_inv_def task_inv_def task_ids_def owned_def)

lemma start_rest_step:
  assumes "local_inv K s (P_done b msg, ms)" and "start_rest ops ms s = (s', t')"
  shows "local_inv K s' t' \<and> touch K s s'"
  using assms
proof (induction ms arbitrary: s)
  case Nil
  then show ?case using local_inv_done [of K s b msg "[]" True "[]"] by auto
next
  case (Cons m ms)
  have m: "mc_id m \<in> K" "ok m" using Cons.prems(1) by (auto simp: local_inv_def task_inv_def task_ids_def)
  have l: "local_inv K s (P_done b msg, ms)" using Cons.prems(1) by (rule local_inv_rest) auto
  show ?case
  proof (cases "mc_enabled m")
    case True
    then show ?thesis using begin_step [OF l m] Cons.prems(2) by (cases "apply_begin ops m s") auto
  next
    case False
    then show ?thesis
      using Cons.IH [OF placeholder_step(1) [OF l m]] placeholder_step(2) [OF l m] Cons.prems(2) touch_trans by fastforce
  qed
qed

text \<open>A started runner is still the one in the table.\<close>

lemma started_step:
  assumes "local_inv K s (P_start m i, ms)" and "apply_started ops e i s = (s', ph)"
  shows "local_inv K s' (ph, ms)" and "touch K s s'"
proof -
  have mo: "map_of (sv_runners s) (mc_id m) = Some i" using assms(1) by (auto simp: local_inv_def task_inv_def)
  have i: "i < sv_next s" "rid s i = mc_id m" and g: "good (sv_heap s i)"
    using base_inv_runner [OF _ mo] assms(1) by (auto simp: local_inv_def base_inv_def)
  have k: "mc_id m \<in> K" using assms(1) by (simp add: local_inv_def task_ids_def)
  obtain err y where y: "ro_start ops e (sv_heap s i) = (err, y)" by (cases "ro_start ops e (sv_heap s i)")
  define x where "x = (case err of None \<Rightarrow> y | Some v \<Rightarrow> ro_set_status ops (\<lambda>st. (set_state ''error'' st)\<lparr>rs_last_error := v\<rparr>) y)"
  have x: "s' = s\<lparr>sv_heap := (sv_heap s)(i := x)\<rparr>" "good x" "ro_mapping ops x = ro_mapping ops (sv_heap s i)"
    using assms(2) start_good [OF g, of e] start_mapping [OF g, of e]
    by (auto simp: apply_started_def y x_def status_good status_mapping split: option.splits)
  obtain b msg where ph: "ph = P_done b msg" using assms(2) by (auto simp: apply_started_def y split: option.splits)
  have r: "rid s' j = rid s j" for j using x by (simp add: rid_def)
  have f: "sv_runners s' = sv_runners s" "sv_next s' = sv_next s" "j \<noteq> i \<Longrightarrow> sv_heap s' j = sv_heap s j" "sv_heap s' i = x" for j
    using x(1) by simp_all
  have "sv_heap s' j = sv_heap s j" if "rid s j \<notin> K" for j using that i(2) k f(3) [of j] by fastforce
  then show "touch K s s'" using f by (auto simp: touch_def r)
  have in_table: "(mc_id m, i) \<in> set (sv_runners s)" using mo by (rule map_of_SomeD)
  have "good (sv_heap s' j)" if "j < sv_next s" for j
    using that assms(1) x(2) f(3,4) by (cases "j = i") (auto simp: local_inv_def base_inv_def)
  then have "base_inv s'" using assms(1) f by (auto simp: local_inv_def base_inv_def r)
  moreover have "task_inv s' (ph, ms)" using assms(1) ph by (auto simp: local_inv_def task_inv_def)
  moreover have "owned K s' ph"
    unfolding owned_def r f(1,2)
  proof (intro allI impI)
    fix j
    assume "j < sv_next s" and "held (sv_heap s' j) \<and> rid s j \<in> K"
    then show "(rid s j, j) \<in> set (sv_runners s) \<union> stopping ph"
      using assms(1) in_table i(2) f(3) by (cases "j = i") (auto simp: local_inv_def owned_def)
  qed
  ultimately show "local_inv K s' (ph, ms)" using assms(1) ph by (auto simp: local_inv_def task_ids_def)
qed

lemma resume_phase_step:
  assumes "local_inv K s (ph, ms)" and "resume_phase ops e ph s = (s', ph')"
  shows "local_inv K s' (ph', ms) \<and> touch K s s'"
proof (cases ph)
  case (P_apply_stop m i)
  let ?s = "with_runner i (ro_stop ops e) s"
  have st: "local_inv K ?s (P_done True [], ms)" "touch K s ?s"
    using stop_step [OF assms(1), of "mc_id m" i "P_done True []"] P_apply_stop by auto
  have m: "mc_id m \<in> K" "ok m" using assms(1) P_apply_stop by (auto simp: local_inv_def task_inv_def task_ids_def)
  have n: "map_of (sv_runners ?s) (mc_id m) = None"
    using assms(1) P_apply_stop by (auto simp: local_inv_def task_inv_def with_runner_def)
  show ?thesis using register_step [OF st(1) m(1) n m(2)] touch_trans [OF st(2)] assms(2) P_apply_stop by simp
next
  case (P_start m i)
  then show ?thesis using started_step assms by simp
next
  case (P_stop k i)
  then show ?thesis using stop_step [OF assms(1), of k i "P_done True []"] assms(2) by auto
next
  case (P_restart_stop m i)
  let ?s = "with_runner i (ro_stop ops e) s"
  have st: "local_inv K ?s (P_done True [], ms)" "touch K s ?s"
    using stop_step [OF assms(1), of "mc_id m" i "P_done True []"] P_restart_stop by auto
  have m: "mc_id m \<in> K" "ok m" using assms(1) P_restart_stop by (auto simp: local_inv_def task_inv_def task_ids_def)
  show ?thesis using begin_step [OF st(1) m] touch_trans [OF st(2)] assms(2) P_restart_stop by simp
next
  case (P_stop_all left)
  show ?thesis
  proof (cases left)
    case Nil
    then show ?thesis using assms P_stop_all by (auto simp: local_inv_def task_inv_def task_ids_def owned_def)
  next
    case (Cons x js)
    obtain k i where x: "x = (k, i)" by (cases x)
    show ?thesis using stop_step [OF assms(1), of k i "P_stop_all js"] assms(2) P_stop_all Cons x by auto
  qed
qed (use assms in auto)

lemma resume_task_step:
  assumes "local_inv K s t" and "resume_task ops e t s = (s', t')"
  shows "local_inv K s' t' \<and> touch K s s'"
proof -
  obtain ph ms where t: "t = (ph, ms)" by (cases t)
  obtain s1 ph1 where r: "resume_phase ops e ph s = (s1, ph1)" by (cases "resume_phase ops e ph s")
  have l: "local_inv K s1 (ph1, ms)" "touch K s s1" using resume_phase_step assms(1) t r by simp_all
  show ?thesis
  proof (cases "(\<exists>b msg. ph1 = P_done b msg) \<and> ms \<noteq> []")
    case True
    then obtain b msg where p: "ph1 = P_done b msg" by blast
    have "start_rest ops ms s1 = (s', t')" using assms(2) True by (simp add: resume_task_def t r p)
    then show ?thesis using start_rest_step [OF l(1) [unfolded p]] touch_trans [OF l(2)] by blast
  next
    case False
    then have "s' = s1 \<and> t' = (ph1, ms)" using assms(2) by (cases ph1) (auto simp: resume_task_def t r)
    then show ?thesis using l by simp
  qed
qed

lemma call_step:
  assumes "base_inv s" and "\<forall>m \<in> call_mappings c. ok m" and "owned (call_ids s c) s (P_done True [])" and "call_begin ops c s = (s', t')"
  shows "local_inv (call_ids s c) s' t' \<and> touch (call_ids s c) s s'"
proof -
  let ?K = "call_ids s c"
  have idle: "local_inv ?K s (P_done True [], ms)" if "\<forall>m \<in> set ms. ok m \<and> mc_id m \<in> ?K" for ms
    using that assms(1,3) by (auto simp: local_inv_def task_ids_def intro!: task_invI)
  have l: "local_inv ?K s (P_done True [], [])" by (rule idle) simp
  have d: "distinct (map fst (sv_runners s))" using assms(1) by (simp add: base_inv_def)
  show ?thesis
  proof (cases c)
    case (C_apply m)
    then show ?thesis using begin_step [OF l] assms(2,4) by (cases "apply_begin ops m s") auto
  next
    case (C_restart m)
    show ?thesis
    proof (cases "map_of (sv_runners s) (mc_id m)")
      case None
      then show ?thesis using begin_step [OF l] assms(2,4) C_restart by (cases "apply_begin ops m s") (auto simp: restart_begin_def)
    next
      case (Some i)
      have "task_inv s (P_restart_stop m i, [])"
        using base_inv_runner [OF assms(1) Some] Some assms(2) C_restart by (intro task_invI) auto
      then show ?thesis using assms(1,3,4) C_restart Some by (auto simp: restart_begin_def local_inv_def task_ids_def owned_def)
    qed
  next
    case (C_stop k)
    show ?thesis
    proof (cases "map_of (sv_runners s) k")
      case (Some i)
      have "task_inv s (P_stop k i, [])" using base_inv_runner [OF assms(1) Some] Some by (intro task_invI) auto
      then show ?thesis using assms(1,3,4) C_stop Some by (auto simp: stop_begin_def local_inv_def task_ids_def owned_def)
    qed (use l assms(4) C_stop in \<open>auto simp: stop_begin_def\<close>)
  next
    case (C_remove k)
    have "stopping (fst t') = (case map_of (sv_runners s) k of None \<Rightarrow> {} | Some i \<Rightarrow> {(k, i)})" "phase_ids (fst t') \<subseteq> {k}"
      "\<forall>m \<in> phase_mappings (fst t'). ok m" "\<forall>m j. fst t' \<noteq> P_start m j" "\<forall>m j. fst t' \<noteq> P_apply_stop m j" "snd t' = []"
      using assms(4) C_remove by (auto simp: remove_begin_def split: option.splits)
    then show ?thesis using take_out_step [OF l, of k s' "fst t'"] assms(4) C_remove
      by (cases t') (auto simp: remove_begin_def)
  next
    case (C_start_all ms)
    let ?s = "s\<lparr>sv_order := map mc_id ms\<rparr>"
    have "local_inv ?K s (P_done True [], ms)" using assms(2) C_start_all by (intro idle) auto
    then have "local_inv ?K ?s (P_done True [], ms)"
      by (simp add: local_inv_def base_inv_def task_inv_def owned_def rid_def)
    then have "local_inv ?K s' t' \<and> touch ?K ?s s'" by (rule start_rest_step) (use assms(4) C_start_all in \<open>simp add: start_all_def\<close>)
    then show ?thesis by (simp add: touch_def rid_def)
  next
    case C_stop_all
    have s': "s' = s\<lparr>sv_runners := []\<rparr>" "t' = (P_stop_all (sv_runners s), [])" using assms(4) C_stop_all by (auto simp: stop_all_begin_def)
    have r: "rid s' i = rid s i" for i by (simp add: s' rid_def)
    have "task_inv s' t'" unfolding s'(2)
      by (rule task_invI) (use assms(1) d in \<open>auto simp: s'(1) base_inv_def rid_def dest: eq_key_imp_eq_value\<close>)
    moreover have "base_inv s'" using assms(1) by (auto simp: s' base_inv_def)
    moreover have "owned ?K s' (fst t')" using assms(3) unfolding owned_def r by (simp add: s')
    moreover have "map_of (sv_runners s') k = map_of (sv_runners s) k" if "k \<notin> ?K" for k
    proof -
      have "map_of (sv_runners s) k = None" using that C_stop_all by (simp add: map_of_eq_None_iff)
      then show ?thesis by (simp add: s')
    qed
    ultimately show ?thesis using C_stop_all by (auto simp: local_inv_def task_ids_def s' touch_def rid_def)
  qed
qed

text \<open>The tasks together: each is in order, they concern different mappings, and every resource is accounted for.\<close>

definition sup_inv :: "'r supervisor \<Rightarrow> task list \<Rightarrow> bool" where
  "sup_inv s ts \<longleftrightarrow> base_inv s \<and> (\<forall>t \<in> set ts. task_inv s t) \<and>
     (\<forall>a < length ts. \<forall>b < length ts. a \<noteq> b \<longrightarrow> task_ids (ts ! a) \<inter> task_ids (ts ! b) = {}) \<and>
     (\<forall>i < sv_next s. held (sv_heap s i) \<longrightarrow> (rid s i, i) \<in> set (sv_runners s) \<or> (\<exists>t \<in> set ts. (rid s i, i) \<in> stopping (fst t)))"

lemma stopping_ids: "(k, i) \<in> stopping (fst t) \<Longrightarrow> k \<in> task_ids t"
proof -
  have "(k, i) \<in> stopping ph \<Longrightarrow> k \<in> phase_ids ph" for ph by (cases ph) force+
  then show "(k, i) \<in> stopping (fst t) \<Longrightarrow> k \<in> task_ids t" by (simp add: task_ids_def)
qed

lemma other_task:
  assumes "touch K s s'" and "task_inv s t" and "task_ids t \<inter> K = {}"
  shows "task_inv s' t"
proof -
  obtain ph ms where t: "t = (ph, ms)" by (cases t)
  note d = task_invD [OF assms(2) [unfolded t]]
  have ids: "k \<notin> K" if "(k, i) \<in> stopping ph" for k i using stopping_ids [of k i t] that assms(3) t by auto
  have p: "mc_id m \<notin> K" if "ph = P_start m i \<or> ph = P_apply_stop m i" for m i using that assms(3) t by (auto simp: task_ids_def)
  have m: "map_of (sv_runners s') k = map_of (sv_runners s) k" if "k \<notin> K" for k using assms(1) that by (simp add: touch_def)
  show ?thesis
    unfolding t
  proof (rule task_invI)
    show "i < sv_next s' \<and> rid s' i = k \<and> map_of (sv_runners s') k \<in> {None, Some i}" if "(k, i) \<in> stopping ph" for k i
      using d(1) [OF that] assms(1) m [OF ids [OF that]] by (auto simp: touch_def)
  qed (use d(2-5) m p in auto)
qed

lemma sup_invD:
  assumes "sup_inv s ts"
  shows "base_inv s" and "t \<in> set ts \<Longrightarrow> task_inv s t"
    and "a < length ts \<Longrightarrow> b < length ts \<Longrightarrow> a \<noteq> b \<Longrightarrow> task_ids (ts ! a) \<inter> task_ids (ts ! b) = {}"
    and "i < sv_next s \<Longrightarrow> held (sv_heap s i) \<Longrightarrow>
      (rid s i, i) \<in> set (sv_runners s) \<or> (\<exists>a < length ts. (rid s i, i) \<in> stopping (fst (ts ! a)))"
  using assms by (simp_all add: sup_inv_def) (metis in_set_conv_nth)

text \<open>A step of one task leaves the others alone and keeps the account.\<close>

lemma sup_inv_step:
  assumes "base_inv s" and "\<forall>t \<in> U. task_inv s t" and "\<forall>t \<in> U. task_ids t \<inter> K = {}"
    and "\<forall>i < sv_next s. held (sv_heap s i) \<longrightarrow> rid s i \<in> K \<or> (rid s i, i) \<in> set (sv_runners s) \<or> (\<exists>t \<in> U. (rid s i, i) \<in> stopping (fst t))"
    and "local_inv K s' t'" and "touch K s s'"
  shows "base_inv s'" and "\<forall>t \<in> insert t' U. task_inv s' t"
    and "\<forall>i < sv_next s'. held (sv_heap s' i) \<longrightarrow> (rid s' i, i) \<in> set (sv_runners s') \<or> (\<exists>t \<in> insert t' U. (rid s' i, i) \<in> stopping (fst t))"
proof -
  show b: "base_inv s'" using assms(5) by (simp add: local_inv_def)
  show "\<forall>t \<in> insert t' U. task_inv s' t" using assms(2,3,5) other_task [OF assms(6)] by (auto simp: local_inv_def)
  show "\<forall>i < sv_next s'. held (sv_heap s' i) \<longrightarrow> (rid s' i, i) \<in> set (sv_runners s') \<or> (\<exists>t \<in> insert t' U. (rid s' i, i) \<in> stopping (fst t))"
  proof (intro allI impI)
    fix i
    assume i: "i < sv_next s'" "held (sv_heap s' i)"
    show "(rid s' i, i) \<in> set (sv_runners s') \<or> (\<exists>t \<in> insert t' U. (rid s' i, i) \<in> stopping (fst t))"
    proof (cases "rid s' i \<in> K")
      case True
      then show ?thesis using assms(5) i by (auto simp: local_inv_def owned_def)
    next
      case False
      then have n: "i < sv_next s" "rid s' i = rid s i" "sv_heap s' i = sv_heap s i"
        using assms(6) i(1) by (auto simp: touch_def) (metis linorder_not_le)+
      have "(rid s i, i) \<in> set (sv_runners s')" if "(rid s i, i) \<in> set (sv_runners s)"
      proof -
        have "map_of (sv_runners s) (rid s i) = Some i" using assms(1) that by (simp add: base_inv_def)
        then have "map_of (sv_runners s') (rid s i) = Some i" using assms(6) False n(2) by (simp add: touch_def)
        then show ?thesis by (rule map_of_SomeD)
      qed
      then show ?thesis using assms(4) n i(2) False by auto
    qed
  qed
qed

lemma inv_call:
  assumes "sup_inv s ts" and "\<forall>m \<in> call_mappings c. ok m" and "\<forall>t \<in> set ts. task_ids t \<inter> call_ids s c = {}"
    and "call_begin ops c s = (s', t')"
  shows "sup_inv s' (ts @ [t'])"
proof -
  let ?K = "call_ids s c"
  have b: "base_inv s" and ts: "\<forall>t \<in> set ts. task_inv s t" using assms(1) by (simp_all add: sup_inv_def)
  have "owned ?K s (P_done True [])"
    unfolding owned_def
  proof (intro allI impI)
    fix i
    assume i: "i < sv_next s" "held (sv_heap s i) \<and> rid s i \<in> ?K"
    then have "(rid s i, i) \<in> set (sv_runners s) \<or> (\<exists>t \<in> set ts. (rid s i, i) \<in> stopping (fst t))"
      using assms(1) by (simp add: sup_inv_def)
    then show "(rid s i, i) \<in> set (sv_runners s) \<union> stopping (P_done True [])" using assms(3) i(2) stopping_ids by blast
  qed
  then have l: "local_inv ?K s' t'" "touch ?K s s'" using call_step [OF b assms(2) _ assms(4)] by simp_all
  have c: "\<forall>i < sv_next s. held (sv_heap s i) \<longrightarrow> rid s i \<in> ?K \<or> (rid s i, i) \<in> set (sv_runners s) \<or> (\<exists>t \<in> set ts. (rid s i, i) \<in> stopping (fst t))"
    using assms(1) by (simp add: sup_inv_def)
  have "task_ids t' \<subseteq> ?K" using l(1) by (simp add: local_inv_def)
  then have "\<forall>a < Suc (length ts). \<forall>b < Suc (length ts). a \<noteq> b \<longrightarrow> task_ids ((ts @ [t']) ! a) \<inter> task_ids ((ts @ [t']) ! b) = {}"
    using assms(1,3) by (auto simp: sup_inv_def nth_append less_Suc_eq) (blast dest: nth_mem)+
  then show ?thesis using sup_inv_step [OF b ts assms(3) c l] by (auto simp: sup_inv_def)
qed

lemma inv_resume:
  assumes "sup_inv s ts" and "a < length ts" and "resume_task ops e (ts ! a) s = (s', t')"
  shows "sup_inv s' (ts[a := t'])"
proof -
  let ?K = "task_ids (ts ! a)" and ?U = "{ts ! b |b. b < length ts \<and> b \<noteq> a}"
  have b: "base_inv s" and ta: "task_inv s (ts ! a)" and tu: "\<forall>t \<in> ?U. task_inv s t"
    using sup_invD(1,2) [OF assms(1)] assms(2) nth_mem by blast+
  have d: "\<forall>t \<in> ?U. task_ids t \<inter> ?K = {}" using sup_invD(3) [OF assms(1)] assms(2) by blast
  have cover: "(rid s i, i) \<in> set (sv_runners s) \<or> (rid s i, i) \<in> stopping (fst (ts ! a)) \<or> (\<exists>t \<in> ?U. (rid s i, i) \<in> stopping (fst t))"
    if "i < sv_next s" "held (sv_heap s i)" for i
    using sup_invD(4) [OF assms(1) that] by blast
  have "owned ?K s (fst (ts ! a))"
    unfolding owned_def using cover d stopping_ids by blast
  then have "local_inv ?K s (ts ! a)" using b ta by (simp add: local_inv_def)
  then have l: "local_inv ?K s' t'" "touch ?K s s'" using resume_task_step assms(3) by blast+
  have c: "\<forall>i < sv_next s. held (sv_heap s i) \<longrightarrow> rid s i \<in> ?K \<or> (rid s i, i) \<in> set (sv_runners s) \<or> (\<exists>t \<in> ?U. (rid s i, i) \<in> stopping (fst t))"
    using cover stopping_ids by blast
  have set: "set (ts[a := t']) = insert t' ?U"
    using assms(2) by (auto simp: set_conv_nth nth_list_update)
  have "task_ids t' \<subseteq> ?K" using l(1) by (simp add: local_inv_def)
  then have "\<forall>x < length ts. \<forall>y < length ts. x \<noteq> y \<longrightarrow> task_ids (ts[a := t'] ! x) \<inter> task_ids (ts[a := t'] ! y) = {}"
    using sup_invD(3) [OF assms(1)] assms(2) by (auto simp: nth_list_update)
  then show ?thesis using sup_inv_step [OF b tu d c l] by (simp add: sup_inv_def set)
qed

lemma inv_change:
  assumes "sup_inv s ts" and "i < sv_next s" and "held (sv_heap s i)" and "good r" and "ro_mapping ops r = ro_mapping ops (sv_heap s i)"
  shows "sup_inv (with_runner i (\<lambda>_. r) s) ts"
proof -
  let ?s = "with_runner i (\<lambda>_. r) s"
  have r: "rid ?s j = rid s j" for j using assms(5) by (simp add: rid_def with_runner_def)
  have f: "sv_runners ?s = sv_runners s" "sv_next ?s = sv_next s" by (simp_all add: with_runner_def)
  have "task_inv ?s t = task_inv s t" for t unfolding task_inv_def r f ..
  moreover have "base_inv ?s" using assms(1,4) by (auto simp: sup_inv_def base_inv_def r f) (simp add: with_runner_def)
  moreover have "held (sv_heap ?s j) \<Longrightarrow> held (sv_heap s j)" for j using assms(3) by (auto simp: with_runner_def split: if_splits)
  ultimately show ?thesis using assms(1) unfolding sup_inv_def r f by blast
qed

lemma reach_inv: "sup_reach ops good held ok s ts \<Longrightarrow> sup_inv s ts"
proof (induction rule: sup_reach.induct)
  case (reach_init r)
  then show ?case by (simp add: sup_inv_def base_inv_def sup_init_def)
next
  case (reach_call s ts c s' t')
  then show ?case by (intro inv_call)
next
  case (reach_resume s ts i e s' t')
  then show ?case by (intro inv_resume)
next
  case (reach_change s ts i r)
  then show ?case by (intro inv_change)
qed

text \<open>So no two runners of one mapping hold resources at the same time, and when all calls have returned, what is held belongs to
  the runners in the table.\<close>

lemma one_holder:
  assumes "sup_reach ops good held ok s ts" and "i < sv_next s" and "j < sv_next s" and "held (sv_heap s i)" and "held (sv_heap s j)"
    and "mc_id (ro_mapping ops (sv_heap s i)) = mc_id (ro_mapping ops (sv_heap s j))"
  shows "i = j"
proof -
  have inv: "sup_inv s ts" using assms(1) by (rule reach_inv)
  have k: "rid s i = rid s j" using assms(6) by (simp add: rid_def)
  have cov: "(rid s x, x) \<in> set (sv_runners s) \<or> (\<exists>a < length ts. (rid s x, x) \<in> stopping (fst (ts ! a)))"
    if "x < sv_next s" "held (sv_heap s x)" for x using sup_invD(4) [OF inv that] .
  have tab: "map_of (sv_runners s) (rid s x) = Some x" if "(rid s x, x) \<in> set (sv_runners s)" for x
    using inv that by (simp add: sup_inv_def base_inv_def)
  have st: "map_of (sv_runners s) (rid s x) \<in> {None, Some x}" if "a < length ts" "(rid s x, x) \<in> stopping (fst (ts ! a))" for x a
  proof -
    have "task_inv s (fst (ts ! a), snd (ts ! a))" using sup_invD(2) [OF inv nth_mem [OF that(1)]] by simp
    from task_invD(1) [OF this that(2)] show ?thesis by simp
  qed
  have same: "i = j" if "a < length ts" "b < length ts" "(rid s i, i) \<in> stopping (fst (ts ! a))" "(rid s j, j) \<in> stopping (fst (ts ! b))" for a b
  proof -
    have "rid s i \<in> task_ids (ts ! a)" "rid s i \<in> task_ids (ts ! b)"
      using stopping_ids [OF that(3)] stopping_ids [OF that(4)] k by simp_all
    then have "a = b" using sup_invD(3) [OF inv that(1,2)] by blast
    then show ?thesis using task_invD(2) [of s "fst (ts ! a)" "snd (ts ! a)" "rid s i" i j] inv that k by (simp add: sup_inv_def)
  qed
  show ?thesis using cov [OF assms(2,4)] cov [OF assms(3,5)] tab st same k by (metis option.inject option.simps(3) insertE singletonD)
qed

lemma held_in_table:
  assumes "sup_reach ops good held ok s ts" and "\<forall>t \<in> set ts. \<exists>b msg. fst t = P_done b msg" and "i < sv_next s" and "held (sv_heap s i)"
  shows "map_of (sv_runners s) (mc_id (ro_mapping ops (sv_heap s i))) = Some i"
proof -
  have inv: "sup_inv s ts" using assms(1) by (rule reach_inv)
  have "(rid s i, i) \<in> set (sv_runners s)" using inv assms(2-4) by (fastforce simp: sup_inv_def)
  then show ?thesis using inv by (simp add: sup_inv_def base_inv_def rid_def)
qed

end

section \<open>The program's runners keep the contract\<close>

definition runner_held :: "('p, 's) runner \<Rightarrow> bool" where
  "runner_held r \<longleftrightarrow> rn_server r \<or> rn_serial_task r \<or> rn_main_task r \<or> rn_udp r \<or> rn_ser r \<noteq> None \<or> rn_swriter r \<noteq> None \<or>
     rn_tracer r \<noteq> None \<or> rn_mqtt r \<noteq> None"

definition any_held :: "('p, 's) any_runner \<Rightarrow> bool" where
  "any_held r = (case r of Bridge_runner b \<Rightarrow> runner_held b | Gateway_runner g \<Rightarrow> gw_held g)"

definition any_good :: "('p, 's) any_runner \<Rightarrow> bool" where
  "any_good r = (case r of Bridge_runner b \<Rightarrow> True | Gateway_runner g \<Rightarrow> gw_good g)"

lemma runner_stop_releases: "\<not> runner_held (runner_stop r)" "rn_mapping (runner_stop r) = rn_mapping r"
  by (simp_all add: runner_held_def runner_stop_def close_serial_def Let_def)

lemma runner_start_mapping: "rn_mapping (snd (runner_start dir can fs net r)) = rn_mapping r"
  by (simp add: runner_start_def Let_def runner_stop_releases split_def)

lemma clock_word: "clock_ok (uint (c :: 64 word))"
  using uint_lt2p [of c] by (simp add: clock_ok_def)

interpretation prog: runner_contract "program_ops exn_text" any_good any_held "\<lambda>m. validate_mapping isfile m = Inr ()"
  for exn_text isfile
proof unfold_locales
  fix m
  assume "validate_mapping isfile m = Inr ()"
  then have "validate_mqtt (mc_mqtt m) = Inr ()" by (auto simp: validate_mapping_def rbind_eq_Inr)
  then show "any_good (ro_make (program_ops exn_text) m) \<and> \<not> any_held (ro_make (program_ops exn_text) m :: ('a, 'b) any_runner)"
    using gw_init_free [of m]
    by (simp add: program_ops_def make_runner_def any_good_def any_held_def runner_held_def runner_init_def)
next
  fix r :: "('a, 'b) any_runner" and e
  assume r: "any_good r"
  show "any_good (snd (ro_start (program_ops exn_text) e r))"
    using r gw_start_good clock_word
    by (cases r; cases e) (auto simp: program_ops_def any_start_def any_good_def)
  show "ro_mapping (program_ops exn_text) (snd (ro_start (program_ops exn_text) e r)) = ro_mapping (program_ops exn_text) r"
    using r gw_start_good clock_word
    by (cases r; cases e) (auto simp: program_ops_def any_start_def any_good_def any_mapping_def runner_start_mapping)
  show "any_good (ro_stop (program_ops exn_text) e r) \<and> \<not> any_held (ro_stop (program_ops exn_text) e r)"
    using r gw_stop_releases clock_word
    by (cases r) (auto simp: program_ops_def any_stop_def any_good_def any_held_def runner_stop_releases)
  show "ro_mapping (program_ops exn_text) (ro_stop (program_ops exn_text) e r) = ro_mapping (program_ops exn_text) r"
    using r gw_stop_releases clock_word
    by (cases r) (auto simp: program_ops_def any_stop_def any_good_def any_mapping_def runner_stop_releases)
qed (auto simp: program_ops_def any_set_status_def any_good_def any_held_def any_mapping_def make_runner_def gateway_init_def
  runner_init_def runner_held_def gw_held_def gw_good_def Let_def split: any_runner.splits)

section \<open>Lemmas: the awaits of a call\<close>

fun phase_work :: "phase \<Rightarrow> nat" where
  "phase_work (P_apply_stop m i) = 2"
| "phase_work (P_start m i) = 1"
| "phase_work (P_stop k i) = 1"
| "phase_work (P_restart_stop m i) = 3"
| "phase_work (P_stop_all left) = Suc (length left)"
| "phase_work (P_done ok msg) = 0"

text \<open>How often a task can be resumed before it has returned.\<close>

definition task_work :: "task \<Rightarrow> nat" where
  "task_work t = phase_work (fst t) + 3 * length (snd t)"

lemma apply_register_work: "phase_work (snd (apply_register ops m s)) \<le> 1"
  by (simp add: apply_register_def new_runner_def Let_def)

lemma apply_begin_work: "phase_work (snd (apply_begin ops m s)) \<le> 2"
  using apply_register_work [of ops m s] by (auto simp: apply_begin_def split: option.splits)

lemma resume_phase_work: "phase_work ph > 0 \<Longrightarrow> phase_work (snd (resume_phase ops e ph s)) < phase_work ph"
proof (induction ops e ph s rule: resume_phase.induct)
  case (1 ops e m i s)
  then show ?case using apply_register_work [of ops m "with_runner i (ro_stop ops e) s"] by simp
next
  case (4 ops e m i s)
  then show ?case using apply_begin_work [of ops m "with_runner i (ro_stop ops e) s"] by simp
qed (auto simp: apply_started_def split: prod.splits option.splits)

lemma start_rest_work: "ms \<noteq> [] \<Longrightarrow> task_work (snd (start_rest ops ms s)) < 3 * length ms"
proof (induction ms arbitrary: s)
  case (Cons m ms)
  show ?case
  proof (cases "mc_enabled m")
    case True
    then show ?thesis using apply_begin_work [of ops m s] by (simp add: task_work_def split_def Let_def)
  next
    case False
    then show ?thesis using Cons.IH [of "placeholder ops m s"] by (cases ms) (simp_all add: task_work_def)
  qed
qed simp

lemma phase_work_done: "phase_work ph = 0 \<longleftrightarrow> (\<exists>b msg. ph = P_done b msg)"
  by (cases ph) auto

lemma resume_task_work: "task_work t > 0 \<Longrightarrow> task_work (snd (resume_task ops e t s)) < task_work t"
proof -
  assume w: "task_work t > 0"
  obtain ph ms where t: "t = (ph, ms)" by (cases t)
  obtain s' ph' where r: "resume_phase ops e ph s = (s', ph')" by (cases "resume_phase ops e ph s")
  have d: "phase_work ph > 0 \<Longrightarrow> phase_work ph' < phase_work ph" using resume_phase_work [of ph ops e s] r by simp
  show ?thesis
  proof (cases "phase_work ph' = 0 \<and> ms \<noteq> []")
    case True
    then obtain b msg where "ph' = P_done b msg" using phase_work_done by blast
    then show ?thesis using True start_rest_work [of ms ops s'] by (simp add: resume_task_def t r task_work_def)
  next
    case False
    have "phase_work ph > 0"
    proof (rule ccontr)
      assume z: "\<not> ?thesis"
      then obtain b msg where "ph = P_done b msg" using phase_work_done by auto
      then show False using False r w t by (auto simp: task_work_def)
    qed
    moreover have "snd (resume_task ops e t s) = (ph', ms)" using False by (cases ph') (auto simp: resume_task_def t r)
    ultimately show ?thesis using d t by (simp add: task_work_def)
  qed
qed

text \<open>A task resumed again and again, each time in whatever state the other tasks have left.\<close>

definition resumed :: "('e, 'r) runner_ops \<Rightarrow> task \<Rightarrow> ('e \<times> 'r supervisor) list \<Rightarrow> task" where
  "resumed ops t steps = foldl (\<lambda>t (e, s). snd (resume_task ops e t s)) t steps"

lemma resumed_work: "task_work (resumed ops t steps) \<le> task_work t - length steps"
proof (induction steps arbitrary: t)
  case (Cons x steps)
  obtain e s where x: "x = (e, s)" by (cases x)
  have "task_work (snd (resume_task ops e t s)) \<le> task_work t - 1"
  proof (cases "task_work t")
    case 0
    then have "t = (fst t, [])" "\<exists>b msg. fst t = P_done b msg" by (simp_all add: task_work_def prod_eq_iff phase_work_done)
    then have "snd (resume_task ops e t s) = t" by (auto simp: resume_task_def prod_eq_iff)
    then show ?thesis using 0 by simp
  qed (use resume_task_work [of t ops e s] in simp)
  then show ?case using Cons.IH [of "snd (resume_task ops e t s)"] x by (simp add: resumed_def)
qed (simp add: resumed_def)

section \<open>Properties\<close>

text \<open>C16: While calls for different mappings run at the same time, in any interleaving of their awaits and with the runners changing
  on their own, no two runners of one mapping ever hold sockets, tasks, the serial port or files: the old one has released
  everything before the new one starts. And when all calls have returned, whatever is held belongs to a runner in the table,
  so a later stop reaches it.\<close>
theorem supervisor_exclusive:
  assumes "sup_reach (program_ops exn_text) any_good any_held (\<lambda>m. validate_mapping isfile m = Inr ()) s ts"
    and "i < sv_next s" and "any_held (sv_heap s i)"
  shows "(j < sv_next s \<and> any_held (sv_heap s j) \<and> mc_id (any_mapping (sv_heap s i)) = mc_id (any_mapping (sv_heap s j)) \<longrightarrow> i = j) \<and>
    ((\<forall>t \<in> set ts. \<exists>b msg. fst t = P_done b msg) \<longrightarrow> get_runner s (mc_id (any_mapping (sv_heap s i))) = Some (sv_heap s i))"
  using prog.one_holder [OF assms(1), of i j] prog.held_in_table [OF assms(1), of i] assms(2,3)
  by (simp add: program_ops_def get_runner_def)

text \<open>A mapping, and an environment in which its listener comes up.\<close>

definition net_mapping :: mapping_config where
  "net_mapping = ac_mappings sample_config ! 0"

definition up :: start_env where "up = (0, None, False, Map.empty, None)"

definition ops0 :: "(start_env, (unit, unit) any_runner) runner_ops" where
  "ops0 = program_ops (\<lambda>_. [])"

lemma net_mapping_ok: "validate_mapping (\<lambda>_. True) net_mapping = Inr ()" by code_simp

definition blank :: "(unit, unit) any_runner supervisor" where
  "blank = sup_init (make_runner net_mapping)"

definition after_apply :: "(unit, unit) any_runner supervisor \<times> task" where
  "after_apply = (let (s, t) = call_begin ops0 (C_apply net_mapping) blank in resume_task ops0 up t s)"

lemma after_apply_held:
  "any_held (sv_heap (fst after_apply) 0) \<and> sv_next (fst after_apply) = 1 \<and> snd after_apply = (P_done True (ascii ''started''), [])"
  by code_simp

lemma after_apply_reached:
  "sup_reach ops0 any_good any_held (\<lambda>m. validate_mapping (\<lambda>_. True) m = Inr ()) (fst after_apply) [snd after_apply]"
proof -
  obtain s t where c: "call_begin ops0 (C_apply net_mapping) blank = (s, t)" by (cases "call_begin ops0 (C_apply net_mapping) blank")
  obtain s' t' where r: "resume_task ops0 up t s = (s', t')" by (cases "resume_task ops0 up t s")
  have "sup_reach ops0 any_good any_held (\<lambda>m. validate_mapping (\<lambda>_. True) m = Inr ()) blank []"
    unfolding blank_def by (rule reach_init)
  then have "sup_reach ops0 any_good any_held (\<lambda>m. validate_mapping (\<lambda>_. True) m = Inr ()) s ([] @ [t])"
    by (rule reach_call [where c = "C_apply net_mapping"]) (use c net_mapping_ok in auto)
  then have "sup_reach ops0 any_good any_held (\<lambda>m. validate_mapping (\<lambda>_. True) m = Inr ()) s' (([] @ [t])[0 := t'])"
    by (rule reach_resume) (use r in auto)
  then show ?thesis by (simp add: after_apply_def c r del: call_begin.simps)
qed

theorem supervisor_exclusive_witness:
  "any_held (sv_heap (fst after_apply) 0) \<and>
   get_runner (fst after_apply) (mc_id (any_mapping (sv_heap (fst after_apply) 0))) = Some (sv_heap (fst after_apply) 0)"
  using supervisor_exclusive [OF after_apply_reached [unfolded ops0_def], of 0] after_apply_held by (simp, blast)

text \<open>C38: Every call of the supervisor returns: whatever states the other calls leave behind at its awaits, after as many
  completed awaits as its work counts (three for a restart, one per runner for the shutdown) it is done.\<close>
theorem calls_return:
  "length steps \<ge> task_work t \<Longrightarrow> \<exists>b msg. fst (resumed ops t steps) = P_done b msg"
  using resumed_work [of ops t steps] phase_work_done [of "fst (resumed ops t steps)"] by (simp add: task_work_def)

theorem calls_return_witness:
  "\<exists>b msg. fst (resumed ops0 (snd (call_begin ops0 (C_restart net_mapping) (fst after_apply)))
     [(up, fst after_apply), (up, blank), (up, fst after_apply)]) = P_done b msg"
proof -
  have "task_work (snd (call_begin ops0 (C_restart net_mapping) (fst after_apply))) = 3" by code_simp
  then show ?thesis by (intro calls_return) simp
qed

text \<open>Two saves of one running mapping at the same time, and the removal of the mapping after both have returned. While the first
  call awaits the stop of the old runner, the second one finds none, registers a runner and starts it; the first call then
  replaces that runner in the table, and its own cannot listen because the port is taken.\<close>

definition taken :: start_env where "taken = (0, None, False, Map.empty, Some (ascii ''address in use''))"

definition double_save :: "(unit, unit) any_runner supervisor \<times> task list" where
  "double_save =
     (let (s1, a) = call_begin ops0 (C_apply net_mapping) (fst after_apply);
          (s2, b) = call_begin ops0 (C_apply net_mapping) s1;
          (s3, b1) = resume_task ops0 up b s2;
          (s4, a1) = resume_task ops0 up a s3;
          (s5, a2) = resume_task ops0 taken a1 s4;
          (s6, c) = call_begin ops0 (C_remove (mc_id net_mapping)) s5;
          (s7, c1) = resume_task ops0 up c s6 in
      (s7, [a2, b1, c1]))"

text \<open>After that the mapping is gone from the table and every call has returned, but the runner that the second save
  started still holds its listener and its serial task: nothing stops it any more.\<close>

lemma double_save_orphan:
  "any_held (sv_heap (fst double_save) 1) \<and> sv_runners (fst double_save) = [] \<and>
   (\<forall>t \<in> set (snd double_save). task_work t = 0)"
proof -
  have s0: "sv_runners (fst after_apply) = [(mc_id net_mapping, 0)]" "sv_next (fst after_apply) = 1" by code_simp+
  have e: "mc_enabled net_mapping" by code_simp
  obtain r where r: "ro_start ops0 up (ro_make ops0 net_mapping) = (None, r)" and h: "any_held r"
  proof -
    have "fst (ro_start ops0 up (ro_make ops0 net_mapping)) = None \<and> any_held (snd (ro_start ops0 up (ro_make ops0 net_mapping)))"
      by code_simp
    then show thesis using that by (metis prod.collapse)
  qed
  obtain msg q where q: "ro_start ops0 taken (ro_make ops0 net_mapping) = (Some msg, q)"
  proof -
    have "fst (ro_start ops0 taken (ro_make ops0 net_mapping)) \<noteq> None" by code_simp
    then show thesis using that by (metis prod.collapse option.exhaust)
  qed
  show ?thesis
    by (simp add: double_save_def s0 e r h q apply_begin_def apply_register_def new_runner_def resume_task_def with_runner_def
        apply_started_def remove_begin_def AList.delete_eq Let_def task_work_def)
qed

end
