(* ===== verification/Notify.thy ===== *)
theory Notify
  imports Supervisor "HOL-Library.List_Lexorder"
begin

text \<open>
  Notifications (\<open>app/notify.py\<close>): the events between two status snapshots of the supervisor, the suppression of
  repeats, the queue, the worker's rate limit, and the texts. The clock, the host name and the translation of a title
  are parameters; sending (HTTP, SMTP) is not modelled, only what is handed to it.
\<close>

section \<open>Events\<close>

definition MAX_PER_MINUTE :: nat where "MAX_PER_MINUTE = 20"
definition QUEUE_MAX :: nat where "QUEUE_MAX = 200"

definition LOST :: "str list" where "LOST = [ascii ''reconnecting'', ascii ''device-missing'']"

text \<open>A mapping's entry in a snapshot: its state and its peers.\<close>

type_synonym snap = "str \<times> str set"

definition status_peers :: "runner_status \<Rightarrow> str set" where
  "status_peers st = fst ` set (rs_clients st)"

definition take_snapshot :: "(str \<times> runner_status) list \<Rightarrow> (str \<times> snap) list" where
  "take_snapshot statuses = map (\<lambda>(mid, st). (mid, rs_state st, status_peers st)) statuses"

text \<open>An event: its kind, the key of its repeats, the mapping's name and the detail.\<close>

type_synonym notice = "str \<times> str \<times> str \<times> str"

definition mapping_events :: "snap \<Rightarrow> str \<Rightarrow> str \<Rightarrow> runner_status \<Rightarrow> notice list" where
  "mapping_events old mid name st =
     (let (old_state, old_peers) = old; state = rs_state st; peers = status_peers st in
      (if old_state = ascii ''running'' \<and> state \<in> set LOST
       then [(ascii ''device_lost'', mid, name, if rs_last_error st \<noteq> [] then rs_last_error st else rs_device st)]
       else if old_state \<in> set LOST \<and> state = ascii ''running'' then [(ascii ''device_back'', mid, name, rs_device st)] else []) @
      (if state = ascii ''error'' \<and> old_state \<noteq> ascii ''error'' then [(ascii ''start_failed'', mid, name, rs_last_error st)] else []) @
      map (\<lambda>p. (ascii ''client_connected'', mid @ 58 # p, name, p)) (sorted_list_of_set (peers - old_peers)) @
      map (\<lambda>p. (ascii ''client_disconnected'', mid @ 58 # p, name, p)) (sorted_list_of_set (old_peers - peers)))"

definition status_events :: "(str \<times> snap) list \<Rightarrow> (str \<times> runner_status) list \<Rightarrow> (str \<rightharpoonup> str) \<Rightarrow> notice list" where
  "status_events prev statuses names =
     concat (map (\<lambda>(mid, st). case (names mid, map_of prev mid) of
        (Some name, Some old) \<Rightarrow> mapping_events old mid name st | _ \<Rightarrow> []) statuses)"

section \<open>The notifier\<close>

record notifier =
  no_queue :: "(str \<times> str \<times> str) list"
  no_last :: "str \<times> str \<rightharpoonup> real"
  no_sent :: "real list"
  no_prev :: "(str \<times> snap) list"

definition notifier_init :: notifier where
  "notifier_init = \<lparr>no_queue = [], no_last = Map.empty, no_sent = [], no_prev = []\<rparr>"

definition repeat_seconds :: "notification_settings \<Rightarrow> real" where
  "repeat_seconds s = real_of_int (py_count (nt_repeat_s s))"

definition emit :: "notification_settings \<Rightarrow> real \<Rightarrow> str \<Rightarrow> str \<Rightarrow> str \<Rightarrow> str \<Rightarrow> notifier \<Rightarrow> bool \<times> notifier" where
  "emit s now event key mapping detail n =
     (if \<not> nt_enabled s \<or> event \<notin> set (nt_events s) then (False, n)
      else case no_last n (event, key) of
        Some before \<Rightarrow>
          if now - before < repeat_seconds s then (False, n)
          else let n1 = n\<lparr>no_last := (no_last n)((event, key) \<mapsto> now)\<rparr> in
            if length (no_queue n1) \<ge> QUEUE_MAX then (False, n1)
            else (True, n1\<lparr>no_queue := no_queue n1 @ [(event, mapping, detail)]\<rparr>)
      | None \<Rightarrow>
          let n1 = n\<lparr>no_last := (no_last n)((event, key) \<mapsto> now)\<rparr> in
            if length (no_queue n1) \<ge> QUEUE_MAX then (False, n1)
            else (True, n1\<lparr>no_queue := no_queue n1 @ [(event, mapping, detail)]\<rparr>))"

text \<open>\<open>start\<close>: what the bridges are when the watcher starts is no event.\<close>

definition notifier_start :: "(str \<times> runner_status) list \<Rightarrow> notifier \<Rightarrow> notifier" where
  "notifier_start statuses n = n\<lparr>no_prev := take_snapshot statuses\<rparr>"

text \<open>One round of \<open>_watch\<close>.\<close>

definition watch_round :: "notification_settings \<Rightarrow> real \<Rightarrow> (str \<times> runner_status) list \<Rightarrow> (str \<rightharpoonup> str) \<Rightarrow> notifier \<Rightarrow> notifier" where
  "watch_round s now statuses names n =
     (fold (\<lambda>(event, key, name, detail) n. snd (emit s now event key name detail n)) (status_events (no_prev n) statuses names) n)
       \<lparr>no_prev := take_snapshot statuses\<rparr>"

text \<open>One round of \<open>_worker\<close>: the message to deliver, \<open>None\<close> when the rate limit drops it or the queue is empty.\<close>

definition worker_round :: "real \<Rightarrow> notifier \<Rightarrow> (str \<times> str \<times> str) option \<times> notifier" where
  "worker_round now n =
     (case no_queue n of
        [] \<Rightarrow> (None, n)
      | m # rest \<Rightarrow>
          let n1 = n\<lparr>no_queue := rest, no_sent := dropWhile (\<lambda>t. now - t > 60) (no_sent n)\<rparr> in
          if length (no_sent n1) \<ge> MAX_PER_MINUTE then (None, n1)
          else (Some m, n1\<lparr>no_sent := no_sent n1 @ [now]\<rparr>))"

section \<open>Texts\<close>

text \<open>\<open>message\<close>; \<open>title\<close> is the event's name in the notification language.\<close>

definition notice_text :: "(str \<Rightarrow> str) \<Rightarrow> str \<Rightarrow> str \<Rightarrow> str \<Rightarrow> str \<Rightarrow> str \<times> str" where
  "notice_text title host event mapping detail =
     (let head = ascii ''ser2net '' @ host @ ascii '': '' @ (if mapping \<noteq> [] then mapping @ [32, 8212, 32] else []) @ title event in
      (head, head @ (if detail \<noteq> [] then 10 # detail else [])))"

definition text_block :: "(str \<times> json) list \<Rightarrow> json" where
  "text_block rest = JDict ((ascii ''type'', JStr (ascii ''TextBlock'')) # rest @ [(ascii ''wrap'', JBool True)])"

definition teams_card :: "str \<Rightarrow> str \<Rightarrow> json" where
  "teams_card head detail = JDict
     [(ascii ''type'', JStr (ascii ''message'')),
      (ascii ''attachments'', JList [JDict
        [(ascii ''contentType'', JStr (ascii ''application/vnd.microsoft.card.adaptive'')),
         (ascii ''content'', JDict
           [(ascii ''type'', JStr (ascii ''AdaptiveCard'')), (ascii ''version'', JStr (ascii ''1.4'')),
            (ascii ''$schema'', JStr (ascii ''http://adaptivecards.io/schemas/adaptive-card.json'')),
            (ascii ''body'', JList
              [text_block [(ascii ''text'', JStr head), (ascii ''weight'', JStr (ascii ''Bolder''))],
               text_block [(ascii ''text'', JStr (if detail \<noteq> [] then detail else [32]))]])])]])]"

definition webhook_body :: "(str \<Rightarrow> str) \<Rightarrow> str \<Rightarrow> str \<Rightarrow> str \<Rightarrow> str \<Rightarrow> str \<Rightarrow> str \<Rightarrow> str \<Rightarrow> str \<Rightarrow> json" where
  "webhook_body title host stamp version fmt event mapping detail chat_id =
     (let (head, text) = notice_text title host event mapping detail in
      if fmt = ascii ''slack'' then JDict [(ascii ''text'', JStr text)]
      else if fmt = ascii ''discord'' then JDict [(ascii ''content'', JStr (take 2000 text))]
      else if fmt = ascii ''telegram'' then JDict [(ascii ''chat_id'', JStr chat_id), (ascii ''text'', JStr (take 4096 text))]
      else if fmt = ascii ''teams'' then teams_card head detail
      else JDict [(ascii ''event'', JStr event), (ascii ''mapping'', JStr mapping), (ascii ''detail'', JStr detail),
        (ascii ''text'', JStr text), (ascii ''node'', JStr host), (ascii ''time'', JStr stamp), (ascii ''version'', JStr version)])"

text \<open>\<open>_deliver\<close>: every configured channel is tried; the errors of the failing ones are collected. The result of a channel
  is \<open>None\<close> or the reason it failed for.\<close>

definition deliver :: "str option \<Rightarrow> str option \<Rightarrow> notification_settings \<Rightarrow> str list" where
  "deliver webhook_result email_result s =
     (if strip (nt_webhook_url s) \<noteq> [] then
        (case webhook_result of None \<Rightarrow> []
         | Some e \<Rightarrow> [ascii ''webhook ('' @ nt_webhook_format s @ ascii '') failed: '' @ e]) else []) @
     (if recipients s \<noteq> [] then
        (case email_result of None \<Rightarrow> []
         | Some e \<Rightarrow> [ascii ''e-mail via '' @ nt_smtp_host s @ ascii '':'' @ dec_str (py_count (nt_smtp_port s)) @ ascii '' failed: '' @ e]) else [])"

section \<open>Lemmas: repeats and the rate limit\<close>

text \<open>A history of the notifier: what is emitted and when the worker takes a message. The state is extended by the accepted
  events and the deliveries so far, with their times.\<close>

datatype notify_event = Emitted str str str str | Worked

type_synonym notify_log = "notifier \<times> ((str \<times> str) \<times> real) list \<times> real list"

fun notify_step :: "notification_settings \<Rightarrow> notify_log \<Rightarrow> real \<times> notify_event \<Rightarrow> notify_log" where
  "notify_step s (n, accepted, delivered) (t, Emitted event key mapping detail) =
     (let (took, n') = emit s t event key mapping detail n in
      (n', if took then accepted @ [((event, key), t)] else accepted, delivered))"
| "notify_step s (n, accepted, delivered) (t, Worked) =
     (let (m, n') = worker_round t n in (n', accepted, if m \<noteq> None then delivered @ [t] else delivered))"

definition notify_run :: "notification_settings \<Rightarrow> (real \<times> notify_event) list \<Rightarrow> notify_log" where
  "notify_run s es = foldl (notify_step s) (notifier_init, [], []) es"

definition repeats_inv :: "real \<Rightarrow> notifier \<Rightarrow> ((str \<times> str) \<times> real) list \<Rightarrow> bool" where
  "repeats_inv r n accepted \<longleftrightarrow> sorted_wrt (\<lambda>a b. fst a = fst b \<longrightarrow> snd b - snd a \<ge> r) accepted \<and>
     (\<forall>(k, t) \<in> set accepted. \<exists>l. no_last n k = Some l \<and> t \<le> l)"

definition rate_inv :: "real \<Rightarrow> notifier \<Rightarrow> real list \<Rightarrow> bool" where
  "rate_inv now n delivered \<longleftrightarrow> sorted delivered \<and> (\<forall>u \<in> set delivered. u \<le> now) \<and>
     (\<exists>old. delivered = old @ no_sent n \<and> (\<forall>u \<in> set old. now - u > 60)) \<and>
     (\<forall>t. length (filter (\<lambda>u. t - 60 \<le> u \<and> u \<le> t) delivered) \<le> MAX_PER_MINUTE)"

lemma emit_repeats:
  assumes "repeats_inv (repeat_seconds s) n accepted" and "\<forall>(k, t) \<in> set accepted. t \<le> now" and "emit s now event key mapping detail n = (took, n')"
  shows "repeats_inv (repeat_seconds s) n' (if took then accepted @ [((event, key), now)] else accepted)"
    and "no_sent n' = no_sent n"
proof -
  show "no_sent n' = no_sent n" using assms(3) by (auto simp: emit_def Let_def split: if_splits option.splits)
  have keep: "\<exists>l. no_last n' k = Some l \<and> t \<le> l" if kt: "(k, t) \<in> set accepted" for k t
  proof -
    obtain l where "no_last n k = Some l" "t \<le> l" using assms(1) kt by (fastforce simp: repeats_inv_def)
    moreover have "t \<le> now" using assms(2) kt by auto
    ultimately show ?thesis using assms(3) by (auto simp: emit_def Let_def split: if_splits option.splits)
  qed
  have new: "no_last n' (event, key) = Some now \<and> (\<forall>t. ((event, key), t) \<in> set accepted \<longrightarrow> now - t \<ge> repeat_seconds s)" if took
  proof -
    have "now - l \<ge> repeat_seconds s" if "no_last n (event, key) = Some l" for l
      using assms(3) that \<open>took\<close> by (auto simp: emit_def Let_def split: if_splits)
    moreover have "no_last n' (event, key) = Some now" using assms(3) \<open>took\<close> by (auto simp: emit_def Let_def split: if_splits option.splits)
    ultimately show ?thesis using assms(1) by (fastforce simp: repeats_inv_def)
  qed
  show "repeats_inv (repeat_seconds s) n' (if took then accepted @ [((event, key), now)] else accepted)"
    using assms(1) keep new by (auto simp: repeats_inv_def sorted_wrt_append)
qed

lemma worker_repeats: "worker_round now n = (m, n') \<Longrightarrow> repeats_inv r n accepted \<Longrightarrow> repeats_inv r n' accepted"
  by (auto simp: worker_round_def repeats_inv_def Let_def split: list.splits if_splits)

lemma rate_later: "rate_inv now n delivered \<Longrightarrow> now \<le> t \<Longrightarrow> no_sent n' = no_sent n \<Longrightarrow> rate_inv t n' delivered"
  by (force simp: rate_inv_def)

lemma worker_rate:
  assumes "rate_inv now n delivered" and "worker_round now n = (m, n')"
  shows "rate_inv now n' (if m \<noteq> None then delivered @ [now] else delivered)"
proof (cases "no_queue n")
  case Nil
  then show ?thesis using assms by (simp add: worker_round_def)
next
  case (Cons q qs)
  let ?k = "dropWhile (\<lambda>t. now - t > 60) (no_sent n)"
  obtain old where old: "delivered = old @ no_sent n" "\<forall>u \<in> set old. now - u > 60" using assms(1) by (auto simp: rate_inv_def)
  let ?old = "old @ takeWhile (\<lambda>t. now - t > 60) (no_sent n)"
  have d: "delivered = ?old @ ?k" using old(1) by simp
  have o: "\<forall>u \<in> set ?old. now - u > 60" using old(2) by (auto dest: set_takeWhileD)
  have le: "\<forall>u \<in> set delivered. u \<le> now" and so: "sorted delivered"
    and rate: "length (filter (\<lambda>u. t - 60 \<le> u \<and> u \<le> t) delivered) \<le> MAX_PER_MINUTE" for t
    using assms(1) by (auto simp: rate_inv_def)
  show ?thesis
  proof (cases "length ?k \<ge> MAX_PER_MINUTE")
    case True
    then have "m = None" "no_sent n' = ?k" using assms(2) Cons by (auto simp: worker_round_def Let_def)
    then show ?thesis using d o le so rate unfolding rate_inv_def by (auto intro!: exI [of _ ?old])
  next
    case False
    then have m: "m = Some q" "no_sent n' = ?k @ [now]" using assms(2) Cons by (auto simp: worker_round_def Let_def)
    have "length (filter (\<lambda>u. t - 60 \<le> u \<and> u \<le> t) (delivered @ [now])) \<le> MAX_PER_MINUTE" for t
    proof (cases "now \<le> t")
      case True
      have "filter (\<lambda>u. t - 60 \<le> u \<and> u \<le> t) ?old = []" using o True by (force simp: filter_empty_conv)
      then have "length (filter (\<lambda>u. t - 60 \<le> u \<and> u \<le> t) delivered) \<le> length ?k"
        by (subst d) (simp only: filter_append length_append list.size length_filter_le add_0)
      then show ?thesis using False by simp
    qed (use rate in simp)
    then show ?thesis using m d o le so unfolding rate_inv_def
      by (auto simp: sorted_append intro!: exI [of _ ?old])
  qed
qed

lemma notify_inv:
  assumes "sorted (map fst es)" and "\<forall>e \<in> set es. t0 \<le> fst e" and "rate_inv t0 n delivered" and "repeats_inv (repeat_seconds s) n accepted"
    and "\<forall>(k, t) \<in> set accepted. t \<le> t0" and "foldl (notify_step s) (n, accepted, delivered) es = (n', accepted', delivered')"
  shows "(\<exists>t. rate_inv t n' delivered') \<and> repeats_inv (repeat_seconds s) n' accepted'"
  using assms
proof (induction es arbitrary: t0 n accepted delivered)
  case Nil
  then show ?case by auto
next
  case (Cons e es)
  obtain t v where e: "e = (t, v)" by (cases e)
  have t: "t0 \<le> t" "sorted (map fst es)" "\<forall>x \<in> set es. t \<le> fst x" using Cons.prems(1,2) e by auto
  have r: "rate_inv t n delivered" using rate_later [OF Cons.prems(3) t(1)] by simp
  have acc: "\<forall>(k, u) \<in> set accepted. u \<le> t" using Cons.prems(5) t(1) by fastforce
  show ?case
  proof (cases v)
    case (Emitted event key mapping detail)
    obtain took n1 where em: "emit s t event key mapping detail n = (took, n1)" by (cases "emit s t event key mapping detail n")
    show ?thesis
      using Cons.IH [OF t(2,3) rate_later [OF r order_refl emit_repeats(2) [OF Cons.prems(4) acc em]] emit_repeats(1) [OF Cons.prems(4) acc em]]
        Cons.prems(6) acc Emitted e em by (auto split: if_splits)
  next
    case Worked
    obtain m n1 where w: "worker_round t n = (m, n1)" by (cases "worker_round t n")
    show ?thesis
      using Cons.IH [OF t(2,3) worker_rate [OF r w] worker_repeats [OF w Cons.prems(4)] acc] Cons.prems(6) Worked e w by simp
  qed
qed

section \<open>Properties\<close>

text \<open>C40: Notifications stay within their limits, whatever the bridges do: over any history with a clock that does not go back, no more
  than \<open>MAX_PER_MINUTE\<close> messages are delivered in any 60 seconds, and two accepted events of the same kind for the same
  mapping or client are at least \<open>repeat_s\<close> seconds apart.\<close>
theorem notify_limits:
  assumes "sorted (map fst es)" and "notify_run s es = (n, accepted, delivered)"
  shows "length (filter (\<lambda>u. t - 60 \<le> u \<and> u \<le> t) delivered) \<le> MAX_PER_MINUTE \<and>
    (\<forall>i j. i < j \<and> j < length accepted \<and> fst (accepted ! i) = fst (accepted ! j) \<longrightarrow>
      snd (accepted ! j) - snd (accepted ! i) \<ge> repeat_seconds s)"
proof -
  let ?t = "case es of [] \<Rightarrow> 0 | e # _ \<Rightarrow> fst e"
  have "\<forall>e \<in> set es. ?t \<le> fst e" using assms(1) by (cases es) auto
  moreover have "rate_inv ?t notifier_init []" by (simp add: rate_inv_def notifier_init_def)
  moreover have "repeats_inv (repeat_seconds s) notifier_init []" by (simp add: repeats_inv_def)
  ultimately have "(\<exists>t. rate_inv t n delivered) \<and> repeats_inv (repeat_seconds s) n accepted"
    using notify_inv [OF assms(1), of ?t notifier_init "[]" s "[]" n accepted delivered] assms(2) by (simp add: notify_run_def)
  then show ?thesis by (auto simp: rate_inv_def repeats_inv_def sorted_wrt_iff_nth_less)
qed

definition sample_notify :: notification_settings where
  "sample_notify = \<lparr>nt_enabled = True, nt_events = [ascii ''device_lost''], nt_repeat_s = VInt 30, nt_webhook_url = [],
     nt_webhook_format = [], nt_telegram_chat_id = [], nt_email_to = [], nt_email_from = [], nt_smtp_host = [],
     nt_smtp_port = VInt 25, nt_smtp_security = [], nt_smtp_username = [], nt_smtp_password = []\<rparr>"

lemma notify_limits_witness:
  "\<exists>n. notify_run sample_notify
      [(0, Emitted (ascii ''device_lost'') [1] [] []), (10, Emitted (ascii ''device_lost'') [1] [] []), (20, Worked),
       (40, Emitted (ascii ''device_lost'') [1] [] [])]
      = (n, [((ascii ''device_lost'', [1]), 0), ((ascii ''device_lost'', [1]), 40)], [20])
    \<and> length (filter (\<lambda>u. 60 - 60 \<le> u \<and> u \<le> 60) [20::real]) \<le> MAX_PER_MINUTE \<and> (40::real) - 0 \<ge> repeat_seconds sample_notify"
proof -
  let ?es = "[(0, Emitted (ascii ''device_lost'') [1] [] []), (10, Emitted (ascii ''device_lost'') [1] [] []), (20, Worked),
       (40::real, Emitted (ascii ''device_lost'') [1] [] [])]"
  have r: "repeat_seconds sample_notify = 30" by (simp add: repeat_seconds_def sample_notify_def py_count_def)
  have "\<exists>n. notify_run sample_notify ?es = (n, [((ascii ''device_lost'', [1]), 0), ((ascii ''device_lost'', [1]), 40)], [20])"
    unfolding notify_run_def
    by (simp add: emit_def worker_round_def notifier_init_def QUEUE_MAX_def MAX_PER_MINUTE_def r) (simp add: sample_notify_def)
  then obtain n where n: "notify_run sample_notify ?es = (n, [((ascii ''device_lost'', [1]), 0), ((ascii ''device_lost'', [1]), 40)], [20])"
    by blast
  have "length (filter (\<lambda>u. 60 - 60 \<le> u \<and> u \<le> 60) [20::real]) \<le> MAX_PER_MINUTE \<and> (40::real) - 0 \<ge> repeat_seconds sample_notify"
    using notify_limits [OF _ n, of 60, THEN conjunct1] notify_limits [OF _ n, THEN conjunct2, rule_format, of 0 1] by simp
  then show ?thesis using n by blast
qed

end
