(* ===== verification/Backups.thy ===== *)
theory Backups
  imports App_Config "HOL-Library.List_Lexorder" "HOL-Library.Product_Lexorder"
begin

text \<open>
  The backups of \<open>ConfigStore\<close> (\<open>app/config.py\<close>): file names, their order, the copy that precedes a
  save, pruning and reading back. The directory is an association list from names to contents in
  \<open>os.listdir\<close> order; file operations succeed (a failing one abandons the backup, not the save).
\<close>

type_synonym directory = "(str \<times> str) list"

definition BACKUPS_KEPT :: nat where "BACKUPS_KEPT = 50"

section \<open>Names\<close>

definition re_digit :: "nat \<Rightarrow> bool" where
  "re_digit c \<longleftrightarrow> py_digit c \<noteq> None"

text \<open>A match of \<open>\d{8}T\d{6}\<close> at the start: the stamp and the rest.\<close>

definition take_stamp :: "str \<Rightarrow> (str \<times> str) option" where
  "take_stamp s =
     (if length s \<ge> 15 \<and> list_all re_digit (take 8 s) \<and> s ! 8 = 84 \<and> list_all re_digit (take 6 (drop 9 s))
      then Some (take 15 s, drop 15 s) else None)"

text \<open>\<open>$\<close> also matches before a final newline.\<close>

definition at_end :: "str \<Rightarrow> bool" where
  "at_end s \<longleftrightarrow> s = [] \<or> s = [10]"

definition take_lit :: "str \<Rightarrow> str \<Rightarrow> str option" where
  "take_lit lit s = (if is_prefix_of lit s then Some (drop (length lit) s) else None)"

text \<open>\<open>(?:-(\d+))?\.json$\<close>: the number, 1 when absent.\<close>

definition take_number :: "str \<Rightarrow> int option" where
  "take_number s =
     (case s of
        c # cs \<Rightarrow>
          if c = 45 then
            (let ds = takeWhile re_digit cs; rest = dropWhile re_digit cs in
             case take_lit (ascii ''.json'') rest of
               Some e \<Rightarrow> if ds \<noteq> [] \<and> at_end e then map_option int (digits_us False 0 ds) else None
             | None \<Rightarrow> None)
          else (case take_lit (ascii ''.json'') s of Some e \<Rightarrow> if at_end e then Some 1 else None | None \<Rightarrow> None)
      | [] \<Rightarrow> None)"

text \<open>A match of \<open>_BACKUP_NAME\<close> with its two groups.\<close>

definition parse_backup :: "str \<Rightarrow> (str \<times> int) option" where
  "parse_backup name =
     (case take_lit (ascii ''config-'') name of
        None \<Rightarrow> None
      | Some r \<Rightarrow>
          (case take_stamp r of
             None \<Rightarrow> None
           | Some (stamp, r') \<Rightarrow>
               (case take_lit (ascii ''Z'') r' of
                  None \<Rightarrow> None
                | Some t \<Rightarrow> map_option (\<lambda>n. (stamp, n)) (take_number t))))"

text \<open>\<open>_backup_order\<close>: \<open>int(m.group(2) or 1)\<close>.\<close>

definition backup_order :: "str \<Rightarrow> str \<times> int" where
  "backup_order name = (case parse_backup name of Some k \<Rightarrow> k | None \<Rightarrow> ([], 0))"

definition backup_names :: "directory \<Rightarrow> str list" where
  "backup_names dir =
     rev (sort_key backup_order (rev (filter (\<lambda>n. parse_backup n \<noteq> None) (map fst dir))))"

text \<open>\<open>config-<stamp>.json\<close> or \<open>config-<stamp>-<n>.json\<close>; \<open>stamp\<close> ends in \<open>Z\<close>.\<close>

definition backup_name :: "str \<Rightarrow> int \<Rightarrow> str" where
  "backup_name stamp n = ascii ''config-'' @ stamp @
     (if n = 1 then [] else 45 # dec_str n) @ ascii ''.json''"

section \<open>Backing up before a save\<close>

definition put_file :: "directory \<Rightarrow> str \<Rightarrow> str \<Rightarrow> directory" where
  "put_file dir name content =
     (if name \<in> fst ` set dir then map (\<lambda>(n, c). if n = name then (n, content) else (n, c)) dir
      else dir @ [(name, content)])"

definition remove_files :: "directory \<Rightarrow> str list \<Rightarrow> directory" where
  "remove_files dir names = filter (\<lambda>(n, c). n \<notin> set names) dir"

definition backup_current :: "directory \<Rightarrow> str option \<Rightarrow> str \<Rightarrow> str \<Rightarrow> directory" where
  "backup_current dir current new_data stamp =
     (case current of
        None \<Rightarrow> dir
      | Some cur \<Rightarrow>
          if cur = new_data then dir
          else
            let names = backup_names dir in
            if names \<noteq> [] \<and> map_of dir (hd names) = Some cur then dir
            else
              let same = map (\<lambda>n. snd (backup_order n)) (filter (is_prefix_of (ascii ''config-'' @ stamp)) names);
                  n = (if same \<noteq> [] then Max (set same) + 1 else 1);
                  dir' = put_file dir (backup_name stamp n) cur
              in remove_files dir' (drop BACKUPS_KEPT (backup_names dir')))"

definition read_backup :: "directory \<Rightarrow> str \<Rightarrow> config_error + str" where
  "read_backup dir name =
     (if parse_backup name = None \<or> name \<notin> set (backup_names dir) then Inl (ConfigError ''NoSuchBackup'')
      else case map_of dir name of Some c \<Rightarrow> Inr c | None \<Rightarrow> Inl (ConfigError ''NoSuchBackup''))"

section \<open>Lemmas: names\<close>

definition valid_stamp :: "str \<Rightarrow> bool" where
  "valid_stamp st \<longleftrightarrow> length st = 15 \<and> list_all re_digit (take 8 st) \<and> st ! 8 = 84
     \<and> list_all re_digit (take 6 (drop 9 st))"

lemma take_lit_append [simp]: "take_lit lit (lit @ r) = Some r"
  by (simp add: take_lit_def is_prefix_of_def)

lemma take_lit_Some: "take_lit lit s = Some r \<Longrightarrow> s = lit @ r"
  by (auto simp: take_lit_def is_prefix_of_iff split: if_splits)

lemma take_stamp_append: "valid_stamp st \<Longrightarrow> take_stamp (st @ r) = Some (st, r)"
  by (auto simp: take_stamp_def valid_stamp_def nth_append)

lemma take_stamp_Some: "take_stamp s = Some (st, r) \<Longrightarrow> s = st @ r"
  by (auto simp: take_stamp_def split: if_splits)

lemma re_digit_dec: "c \<in> set (dec_digits n) \<Longrightarrow> re_digit c"
  using dec_digits_ascii [of c n] py_digit_ascii [of "c - 48"] by (force simp: re_digit_def)

lemma take_number_json:
  "take_number (ascii ''.json'') = Some 1"
  "1 < n \<Longrightarrow> take_number (45 # dec_str n @ ascii ''.json'') = Some n"
proof -
  show "take_number (ascii ''.json'') = Some 1"
    by (simp add: take_number_def ascii_def take_lit_def is_prefix_of_def at_end_def)
  assume n: "1 < n"
  define ds where "ds = dec_digits (nat n)"
  have d: "\<forall>c \<in> set ds. re_digit c" using re_digit_dec by (auto simp: ds_def)
  have "\<not> re_digit 46" by (simp add: re_digit_def py_digit_def decimal_zeros_def)
  then have "takeWhile re_digit (ds @ ascii ''.json'') = ds" "dropWhile re_digit (ds @ ascii ''.json'') = ascii ''.json''"
    using d by (simp_all add: takeWhile_append dropWhile_append ascii_def)
  moreover have "take_lit (ascii ''.json'') (ascii ''.json'') = Some []" using take_lit_append [of _ "[]"] by simp
  moreover have "digits_us False 0 ds = Some (nat n)" by (simp add: ds_def digits_us_dec)
  ultimately show "take_number (45 # dec_str n @ ascii ''.json'') = Some n"
    using n by (simp add: take_number_def dec_str_def at_end_def Let_def flip: ds_def) (simp add: ds_def)
qed

lemma parse_backup_name:
  assumes "valid_stamp st" and "1 \<le> n"
  shows "parse_backup (backup_name (st @ [90]) n) = Some (st, n)"
proof -
  have z: "take_lit (ascii ''Z'') (90 # r) = Some r" for r
    using take_lit_append [of "ascii ''Z''" r] by (simp add: ascii_def)
  show ?thesis
    using assms by (cases "n = 1")
      (simp_all add: parse_backup_def backup_name_def take_stamp_append z take_number_json)
qed

lemma parse_backup_prefix:
  "parse_backup name = Some (st, n) \<Longrightarrow> is_prefix_of (ascii ''config-'' @ st @ [90]) name"
  unfolding parse_backup_def
  by (auto simp: ascii_def is_prefix_of_iff split: option.splits dest!: take_lit_Some take_stamp_Some)

section \<open>Lemmas: the list of backups\<close>

lemma backup_names_set: "set (backup_names dir) = {n \<in> fst ` set dir. parse_backup n \<noteq> None}"
  by (auto simp: backup_names_def)

lemma backup_names_distinct: "distinct (map fst dir) \<Longrightarrow> distinct (backup_names dir)"
  by (simp add: backup_names_def)

lemma filter_not_dropped:
  assumes "distinct ys"
  shows "filter (\<lambda>n. n \<notin> set (drop k ys)) ys = take k ys"
proof -
  let ?P = "\<lambda>n. n \<notin> set (drop k ys)"
  have a: "filter ?P (take k ys) = take k ys"
    using set_take_disj_set_drop_if_distinct [OF assms, of k k] by (auto simp: filter_id_conv)
  have b: "filter ?P (drop k ys) = []" by (simp add: filter_empty_conv)
  have "filter ?P (take k ys @ drop k ys) = take k ys" by (simp only: filter_append a b append_Nil2)
  then show ?thesis by (simp only: append_take_drop_id)
qed

lemma backup_names_remove:
  assumes "distinct (map fst dir)"
  shows "backup_names (remove_files dir (drop k (backup_names dir))) = take k (backup_names dir)"
proof -
  let ?ys = "backup_names dir" let ?P = "\<lambda>n. n \<notin> set (drop k ?ys)"
  have m: "map fst (remove_files dir (drop k ?ys)) = filter ?P (map fst dir)"
    unfolding remove_files_def filter_map by (simp add: comp_def case_prod_unfold)
  have "backup_names (remove_files dir (drop k ?ys)) = filter ?P ?ys"
    unfolding backup_names_def [of "remove_files dir _"] m
    by (simp add: backup_names_def [of dir] filter_sort [symmetric] rev_filter filter_filter conj_commute)
  also have "\<dots> = take k ?ys" by (rule filter_not_dropped [OF backup_names_distinct [OF assms]])
  finally show ?thesis .
qed

lemma last_sort_key:
  assumes "x \<in> set xs" and "\<forall>y \<in> set xs. y \<noteq> x \<longrightarrow> f y < f x"
  shows "last (sort_key f xs) = x"
proof -
  have ne: "sort_key f xs \<noteq> []" using assms(1) by (metis empty_iff list.set(1) set_sort)
  obtain i where i: "i < length (sort_key f xs)" "sort_key f xs ! i = x"
    using assms(1) by (metis in_set_conv_nth set_sort)
  have "f (sort_key f xs ! i) \<le> f (last (sort_key f xs))"
    using sorted_nth_mono [of "map f (sort_key f xs)" i "length (sort_key f xs) - 1"] i ne
    by (simp add: last_conv_nth)
  moreover have "last (sort_key f xs) \<in> set xs" using last_in_set [OF ne] by simp
  ultimately show ?thesis using assms(2) i(2) by (metis linorder_not_less)
qed

lemma backup_names_hd:
  assumes "x \<in> set (backup_names dir)"
    and "\<forall>y \<in> set (backup_names dir). y \<noteq> x \<longrightarrow> backup_order y < backup_order x"
  shows "hd (backup_names dir) = x"
proof -
  let ?xs = "rev (filter (\<lambda>n. parse_backup n \<noteq> None) (map fst dir))"
  have "last (sort_key backup_order ?xs) = x"
    by (rule last_sort_key) (use assms in \<open>simp_all add: backup_names_def\<close>)
  then show ?thesis by (simp add: backup_names_def hd_rev)
qed

text \<open>The number the new backup gets, and that its name is new and sorts first.\<close>

definition next_number :: "str list \<Rightarrow> str \<Rightarrow> int" where
  "next_number names stamp =
     (let same = map (\<lambda>n. snd (backup_order n)) (filter (is_prefix_of (ascii ''config-'' @ stamp)) names) in
      if same \<noteq> [] then Max (set same) + 1 else 1)"

lemma take_number_nonneg: "take_number s = Some n \<Longrightarrow> 0 \<le> n"
  by (auto simp: take_number_def Let_def split: list.splits if_splits option.splits)

lemma next_number_greater:
  assumes "m \<in> set names" "is_prefix_of (ascii ''config-'' @ stamp) m"
  shows "snd (backup_order m) < next_number names stamp"
proof -
  let ?S = "snd ` backup_order ` set (filter (is_prefix_of (ascii ''config-'' @ stamp)) names)"
  have "snd (backup_order m) \<in> ?S" using assms by auto
  then have "snd (backup_order m) \<le> Max ?S" by (intro Max_ge) auto
  moreover have "filter (is_prefix_of (ascii ''config-'' @ stamp)) names \<noteq> []"
    using assms by (auto simp: filter_empty_conv)
  ultimately show ?thesis by (simp add: next_number_def Let_def image_image)
qed

lemma backup_order_nonneg: "0 \<le> snd (backup_order m)"
  by (auto simp: backup_order_def parse_backup_def dest: take_number_nonneg split: option.splits)

lemma next_number_pos: "1 \<le> next_number names stamp"
proof (cases "\<exists>m \<in> set names. is_prefix_of (ascii ''config-'' @ stamp) m")
  case True
  then obtain m where "m \<in> set names" "is_prefix_of (ascii ''config-'' @ stamp) m" by blast
  from next_number_greater [OF this] backup_order_nonneg [of m] show ?thesis by linarith
next
  case False
  then have "filter (is_prefix_of (ascii ''config-'' @ stamp)) names = []" by (auto simp: filter_empty_conv)
  then show ?thesis by (simp add: next_number_def)
qed


lemma new_backup:
  assumes "valid_stamp st" and "\<forall>m \<in> set (backup_names dir). fst (backup_order m) \<le> st"
  defines "name \<equiv> backup_name (st @ [90]) (next_number (backup_names dir) (st @ [90]))"
  shows "parse_backup name = Some (st, next_number (backup_names dir) (st @ [90]))"
    and "\<forall>m \<in> set (backup_names dir). backup_order m < backup_order name"
    and "name \<notin> fst ` set dir"
proof -
  let ?n = "next_number (backup_names dir) (st @ [90])"
  show p: "parse_backup name = Some (st, ?n)"
    unfolding name_def by (rule parse_backup_name [OF assms(1) next_number_pos])
  show l: "\<forall>m \<in> set (backup_names dir). backup_order m < backup_order name"
  proof
    fix m assume m: "m \<in> set (backup_names dir)"
    then obtain s k where k: "parse_backup m = Some (s, k)" by (auto simp: backup_names_set)
    show "backup_order m < backup_order name"
    proof (cases "s = st")
      case True
      then have "is_prefix_of (ascii ''config-'' @ (st @ [90])) m" using parse_backup_prefix [OF k] by simp
      then have "k < ?n" using next_number_greater [OF m] k by (simp add: backup_order_def)
      then show ?thesis using k p True by (simp add: backup_order_def)
    next
      case False
      then have "s < st" using assms(2) m k by (force simp: backup_order_def)
      then show ?thesis using k p by (simp add: backup_order_def)
    qed
  qed
  show "name \<notin> fst ` set dir"
  proof
    assume "name \<in> fst ` set dir"
    then have "name \<in> set (backup_names dir)" using p by (simp add: backup_names_set)
    then show False using l by blast
  qed
qed

lemma backup_names_put:
  assumes "name \<notin> fst ` set dir" and "parse_backup name = Some k"
  shows "set (backup_names (put_file dir name c)) = insert name (set (backup_names dir))"
  using assms by (auto simp: backup_names_set put_file_def)

lemma backup_current_cases:
  assumes "cur \<noteq> new_data" and "\<not> (backup_names dir \<noteq> [] \<and> map_of dir (hd (backup_names dir)) = Some cur)"
  shows "backup_current dir (Some cur) new_data stamp =
    (let dir' = put_file dir (backup_name stamp (next_number (backup_names dir) stamp)) cur in
     remove_files dir' (drop BACKUPS_KEPT (backup_names dir')))"
  using assms by (auto simp: backup_current_def next_number_def Let_def)

lemma backup_current_new:
  assumes "distinct (map fst dir)" and "valid_stamp st"
    and "\<forall>m \<in> set (backup_names dir). fst (backup_order m) \<le> st"
    and "cur \<noteq> new_data" and "\<not> (backup_names dir \<noteq> [] \<and> map_of dir (hd (backup_names dir)) = Some cur)"
  defines "dir' \<equiv> backup_current dir (Some cur) new_data (st @ [90])"
  shows "length (backup_names dir') \<le> BACKUPS_KEPT \<and> backup_names dir' \<noteq> [] \<and>
    map_of dir' (hd (backup_names dir')) = Some cur"
proof -
  let ?name = "backup_name (st @ [90]) (next_number (backup_names dir) (st @ [90]))"
  define d1 where "d1 = put_file dir ?name cur"
  note nb = new_backup [OF assms(2,3)]
  have d1: "d1 = dir @ [(?name, cur)]" using nb(3) by (simp add: d1_def put_file_def)
  have dist: "distinct (map fst d1)" using assms(1) nb(3) by (auto simp: d1)
  have set1: "set (backup_names d1) = insert ?name (set (backup_names dir))"
    unfolding d1_def by (rule backup_names_put [OF nb(3) nb(1)])
  have hd1: "hd (backup_names d1) = ?name"
    by (rule backup_names_hd) (use nb(2) set1 in auto)
  have ne: "backup_names d1 \<noteq> []" using set1 by auto
  have dir': "dir' = remove_files d1 (drop BACKUPS_KEPT (backup_names d1))"
    unfolding dir'_def d1_def backup_current_cases [OF assms(4,5)] by (simp add: Let_def)
  have names: "backup_names dir' = take BACKUPS_KEPT (backup_names d1)"
    unfolding dir' by (rule backup_names_remove [OF dist])
  then have hd': "backup_names dir' \<noteq> []" "hd (backup_names dir') = ?name"
    using ne hd1 by (simp_all add: BACKUPS_KEPT_def hd_take)
  have "?name \<notin> set (drop BACKUPS_KEPT (backup_names d1))"
    using backup_names_distinct [OF dist] hd1 ne
      set_take_disj_set_drop_if_distinct [of "backup_names d1" BACKUPS_KEPT BACKUPS_KEPT] hd' names
    by (metis disjoint_iff hd_in_set le_refl)
  then have "(?name, cur) \<in> set dir'" by (simp add: dir' d1 remove_files_def)
  moreover have "distinct (map fst dir')"
    unfolding dir' remove_files_def using dist by (simp add: distinct_map_filter)
  ultimately show ?thesis using hd' names by (simp add: map_of_is_SomeI)
qed


section \<open>Properties\<close>



end
