(* ===== verification/Ip_Text.thy ===== *)
theory Ip_Text
  imports Ipaddr
begin

text \<open>
  \<open>str(ip)\<close> of the standard \<open>ipaddress\<close> module (up to Python 3.12): dotted decimal for IPv4, the compressed form for IPv6,
  where the first longest run of at least two zero groups is written as a double colon. The text reads back as the address.
\<close>

section \<open>Printing\<close>

definition v4_text :: "nat \<Rightarrow> str" where
  "v4_text n = join_with 46 (map dec_digits [n div 2 ^ 24 mod 256, n div 2 ^ 16 mod 256, n div 2 ^ 8 mod 256, n mod 256])"

definition hextet_char :: "nat \<Rightarrow> nat" where
  "hextet_char d = (if d < 10 then 48 + d else 87 + d)"

text \<open>\<open>'%x' % n\<close>.\<close>

fun hextet_str :: "nat \<Rightarrow> str" where
  "hextet_str n = (if n < 16 then [hextet_char n] else hextet_str (n div 16) @ [hextet_char (n mod 16)])"

declare hextet_str.simps [simp del]

definition v6_groups :: "nat \<Rightarrow> nat list" where
  "v6_groups n = map (\<lambda>i. n div 65536 ^ i mod 65536) [7, 6, 5, 4, 3, 2, 1, 0]"

text \<open>The loop of \<open>_compress_hextets\<close>: the start and the length of the best run so far and the length of the current one.\<close>

fun best_run :: "nat \<Rightarrow> nat \<times> nat \<Rightarrow> nat \<Rightarrow> nat list \<Rightarrow> nat \<times> nat" where
  "best_run i best cur [] = best"
| "best_run i best cur (h # hs) =
     (if h = 0 then best_run (i + 1) (if cur + 1 > snd best then (i - cur, cur + 1) else best) (cur + 1) hs
      else best_run (i + 1) best 0 hs)"

definition compress_hextets :: "nat list \<Rightarrow> str list" where
  "compress_hextets hs =
     (let (s, l) = best_run 0 (0, 0) 0 hs; xs = map hextet_str hs in
      if l > 1 then (if s = 0 then [[]] else []) @ take s xs @ [[]] @ drop (s + l) xs @ (if s + l = length xs then [[]] else [])
      else xs)"

definition v6_text :: "nat \<Rightarrow> str" where
  "v6_text n = join_with 58 (compress_hextets (v6_groups n))"

fun ip_text :: "ipaddr \<Rightarrow> str" where
  "ip_text (V4 n) = v4_text n"
| "ip_text (V6 n None) = v6_text n"
| "ip_text (V6 n (Some scope)) = v6_text n @ 37 # scope"

section \<open>Reading back: IPv4\<close>

lemma dec_digits_value: "dec_value (dec_digits n) = n"
proof (induction n rule: dec_digits.induct)
  case (1 n)
  show ?case
    by (subst dec_digits.simps) (use 1 in \<open>auto simp: dec_value_append simp del: dec_digits.simps\<close>, simp add: dec_value_def)
qed

lemma octet_text: "n < 256 \<Longrightarrow> parse_octet (dec_digits n) = Some n"
proof -
  assume n: "n < 256"
  have l: "length (dec_digits n) \<le> 3"
    using n by (subst dec_digits.simps, subst dec_digits.simps, subst dec_digits.simps) auto
  have h: "n \<noteq> 0 \<Longrightarrow> hd (dec_digits n) \<noteq> 48"
    using n by (subst dec_digits.simps, subst dec_digits.simps, subst dec_digits.simps) auto
  have z: "dec_digits 0 = [48]" by (subst dec_digits.simps) simp
  have "list_all ascii_digit (dec_digits n)" using dec_digits_ascii by (auto simp: list_all_iff ascii_digit_def)
  then show ?thesis using n l h z
    using dec_digits_value [of n] by (cases "n = 0") (auto simp: parse_octet_def ascii_digits_def)
qed

lemma bytes_sum: "n < 2 ^ 32 \<Longrightarrow>
    ((n div 2 ^ 24 mod 256 * 256 + n div 2 ^ 16 mod 256) * 256 + n div 2 ^ 8 mod 256) * 256 + n mod 256 = (n::nat)"
proof -
  assume "n < 2 ^ 32"
  moreover have "n = n div 256 * 256 + n mod 256" "n div 256 = n div 256 div 256 * 256 + n div 256 mod 256"
    "n div 256 div 256 = n div 256 div 256 div 256 * 256 + n div 256 div 256 mod 256" by simp_all
  ultimately show ?thesis by (simp add: div_mult2_eq [symmetric])
qed

lemma v4_text_parse: "n < 2 ^ 32 \<Longrightarrow> parse_ipv4 (v4_text n) = Some n"
proof -
  assume n: "n < 2 ^ 32"
  have "46 \<notin> set (dec_digits k)" for k using dec_digits_ascii by fastforce
  then have "split_on 46 (v4_text n) = map dec_digits [n div 2 ^ 24 mod 256, n div 2 ^ 16 mod 256, n div 2 ^ 8 mod 256, n mod 256]"
    unfolding v4_text_def by (intro split_join) auto
  moreover have "n div 16777216 < 256" using n by simp
  ultimately show ?thesis using bytes_sum [OF n] octet_text by (simp add: parse_ipv4_def)
qed

section \<open>Reading back: IPv6\<close>

lemma hex_char_digit: "d < 16 \<Longrightarrow> hex_digit (hextet_char d) = Some d"
  by (auto simp: hextet_char_def hex_digit_def)

lemma hex_value_append: "hex_value acc (s @ t) = (case hex_value acc s of None \<Rightarrow> None | Some n \<Rightarrow> hex_value n t)"
  by (induction s arbitrary: acc) (auto split: option.splits)

lemma hextet_str_value: "hex_value 0 (hextet_str n) = Some n"
proof (induction n rule: hextet_str.induct)
  case (1 n)
  then show ?case by (subst hextet_str.simps) (auto simp: hex_value_append hex_char_digit)
qed

lemma hextet_str_length: "n < 65536 \<Longrightarrow> length (hextet_str n) \<le> 4"
  by (subst hextet_str.simps, subst hextet_str.simps, subst hextet_str.simps, subst hextet_str.simps) auto

lemma hextet_str_nonempty [simp]: "hextet_str n \<noteq> []"
  by (subst hextet_str.simps) simp

lemma hextet_chars: "c \<in> set (hextet_str n) \<Longrightarrow> 48 \<le> c \<and> c \<le> 57 \<or> 97 \<le> c \<and> c \<le> 102"
proof (induction n rule: hextet_str.induct)
  case (1 n)
  have "n mod 16 < 16" by simp
  then show ?case using 1 by (subst (asm) (2) hextet_str.simps) (auto simp: hextet_char_def split: if_splits)
qed

lemma hextet_text: "n < 65536 \<Longrightarrow> parse_hextet (hextet_str n) = Some n"
  using hextet_str_length [of n] by (simp add: parse_hextet_def hextet_str_value)

definition number_of :: "nat \<Rightarrow> nat list \<Rightarrow> nat" where
  "number_of acc hs = foldl (\<lambda>a h. a * 65536 + h) acc hs"

lemma hextets_text: "\<forall>h \<in> set hs. h < 65536 \<Longrightarrow> hextets acc (map hextet_str hs) = Some (number_of acc hs)"
  by (induction hs arbitrary: acc) (auto simp: hextet_text number_of_def)

lemma number_of_zeros: "\<forall>h \<in> set hs. h = 0 \<Longrightarrow> number_of acc hs = acc * 65536 ^ length hs"
  by (induction hs arbitrary: acc) (auto simp: number_of_def)

lemma number_of_append: "number_of acc (xs @ ys) = number_of (number_of acc xs) ys"
  by (simp add: number_of_def)

text \<open>The best run lies inside the groups and consists of zeros.\<close>

definition zero_run :: "nat list \<Rightarrow> nat \<times> nat \<Rightarrow> bool" where
  "zero_run hs r \<longleftrightarrow> fst r + snd r \<le> length hs \<and> (\<forall>i. fst r \<le> i \<and> i < fst r + snd r \<longrightarrow> hs ! i = 0)"

lemma best_run_zero:
  assumes "zero_run (pre @ hs) best" and "cur \<le> length pre" and "\<forall>i. length pre - cur \<le> i \<and> i < length pre \<longrightarrow> (pre @ hs) ! i = 0"
  shows "zero_run (pre @ hs) (best_run (length pre) best cur hs)"
  using assms
proof (induction hs arbitrary: pre best cur)
  case Nil
  then show ?case by simp
next
  case (Cons h hs)
  have e: "pre @ h # hs = (pre @ [h]) @ hs" by simp
  show ?case
  proof (cases "h = 0")
    case True
    let ?best = "if cur + 1 > snd best then (length pre - cur, cur + 1) else best"
    have "zero_run ((pre @ [h]) @ hs) ?best"
      using Cons.prems True by (auto simp: zero_run_def nth_append less_Suc_eq)
    moreover have "\<forall>i. length (pre @ [h]) - (cur + 1) \<le> i \<and> i < length (pre @ [h]) \<longrightarrow> ((pre @ [h]) @ hs) ! i = 0"
      using Cons.prems(3) True by (auto simp: nth_append less_Suc_eq)
    ultimately show ?thesis using Cons.IH [of "pre @ [h]" ?best "cur + 1"] Cons.prems(2) True by simp
  next
    case False
    then show ?thesis using Cons.IH [of "pre @ [h]" best 0] Cons.prems(1) by simp
  qed
qed

lemma inner_empty_one:
  assumes "pre \<noteq> []" and "post \<noteq> []" and "\<forall>p \<in> set (tl pre). p \<noteq> []" and "\<forall>p \<in> set (butlast post). p \<noteq> []"
  shows "inner_empty (pre @ [] # post) = [length pre]"
proof -
  let ?k = "length pre" and ?ps = "pre @ [] # post"
  have n: "[1 ..< length ?ps - 1] = [1 ..< ?k] @ ?k # [Suc ?k ..< ?k + length post]"
    using assms(1,2) upt_add_eq_append [of 1 ?k "length post"] by (simp add: Suc_le_eq upt_conv_Cons)
  have a: "?ps ! i \<noteq> []" if "i \<in> set [1 ..< ?k]" for i
  proof -
    have "?ps ! i = tl pre ! (i - 1)" using that assms(1) by (cases pre) (auto simp: nth_append nth_Cons')
    moreover have "i - 1 < length (tl pre)" using that by auto
    ultimately show ?thesis using assms(3) nth_mem by metis
  qed
  have b: "?ps ! i \<noteq> []" if "i \<in> set [Suc ?k ..< ?k + length post]" for i
  proof -
    have "?ps ! i = butlast post ! (i - ?k - 1)" using that by (auto simp: nth_append nth_Cons' nth_butlast)
    moreover have "i - ?k - 1 < length (butlast post)" using that by auto
    ultimately show ?thesis using assms(4) nth_mem by metis
  qed
  have "filter (\<lambda>i. ?ps ! i = []) [1 ..< ?k] = []" "filter (\<lambda>i. ?ps ! i = []) [Suc ?k ..< ?k + length post] = []"
    using a b by (auto simp: filter_empty_conv)
  then show ?thesis unfolding inner_empty_def n by simp
qed

lemma assemble_gap:
  assumes "length p + l + length q = 8" and "1 < l" and "\<forall>h \<in> set (p @ q). h < 65536"
  shows "assemble_ipv6 ((if p = [] then [[]] else []) @ map hextet_str p @ [[]] @ map hextet_str q @ (if q = [] then [[]] else []))
    = Some (number_of (number_of 0 p * 65536 ^ l) q)"
proof -
  let ?pre = "(if p = [] then [[]] else []) @ map hextet_str p" and ?post = "map hextet_str q @ (if q = [] then [[]] else [])"
  have "inner_empty (?pre @ [] # ?post) = [length ?pre]"
    by (rule inner_empty_one) (auto simp: map_tl [symmetric] map_butlast [symmetric])
  moreover have "8 - (length p + length q) = l" "length p + length q \<le> 7" using assms(1,2) by auto
  moreover have "hextets 0 (map hextet_str p) = Some (number_of 0 p)" "hextets a (map hextet_str q) = Some (number_of a q)" for a
    using hextets_text assms(3) by auto
  ultimately show ?thesis by (cases p; cases q rule: rev_cases) (auto simp: assemble_ipv6_def Let_def)
qed

lemma assemble_plain: "length hs = 8 \<Longrightarrow> \<forall>h \<in> set hs. h < 65536 \<Longrightarrow> assemble_ipv6 (map hextet_str hs) = Some (number_of 0 hs)"
proof -
  assume a: "length hs = 8" "\<forall>h \<in> set hs. h < 65536"
  then have "hs \<noteq> []" by auto
  then show ?thesis using a hextets_text [OF a(2)] by (simp add: assemble_ipv6_def inner_empty_def hd_map last_map)
qed

lemma assemble_compress:
  assumes "length hs = 8" and "\<forall>h \<in> set hs. h < 65536"
  shows "assemble_ipv6 (compress_hextets hs) = Some (number_of 0 hs)"
    and "length (compress_hextets hs) \<ge> 3 \<and> length (compress_hextets hs) \<le> 9"
    and "x \<in> set (compress_hextets hs) \<Longrightarrow> x = [] \<or> (\<exists>n. x = hextet_str n)"
proof -
  obtain s l where r: "best_run 0 (0, 0) 0 hs = (s, l)" by (cases "best_run 0 (0, 0) 0 hs")
  have z: "s + l \<le> 8" "\<forall>i. s \<le> i \<and> i < s + l \<longrightarrow> hs ! i = 0"
    using best_run_zero [of "[]" hs "(0, 0)" 0] r assms(1) by (auto simp: zero_run_def)
  let ?p = "take s hs" and ?z = "take l (drop s hs)" and ?q = "drop (s + l) hs"
  have h: "hs = ?p @ ?z @ ?q" by (metis append_take_drop_id drop_drop add.commute)
  have zz: "\<forall>h \<in> set ?z. h = 0" using z assms(1) by (auto simp: in_set_conv_nth)
  show "length (compress_hextets hs) \<ge> 3 \<and> length (compress_hextets hs) \<le> 9"
    and "x \<in> set (compress_hextets hs) \<Longrightarrow> x = [] \<or> (\<exists>n. x = hextet_str n)"
    using assms(1) z(1) r by (auto simp: compress_hextets_def Let_def dest!: in_set_takeD in_set_dropD split: if_splits)
  show "assemble_ipv6 (compress_hextets hs) = Some (number_of 0 hs)"
  proof (cases "1 < l")
    case True
    have "compress_hextets hs = (if ?p = [] then [[]] else []) @ map hextet_str ?p @ [[]] @ map hextet_str ?q @ (if ?q = [] then [[]] else [])"
      using True r z(1) assms(1) by (simp add: compress_hextets_def take_map drop_map) auto
    moreover have "\<forall>h \<in> set (?p @ ?q). h < 65536" using assms(2) by (auto dest: in_set_takeD in_set_dropD)
    moreover have "number_of 0 hs = number_of (number_of 0 ?p * 65536 ^ l) ?q"
      using z(1) assms(1) number_of_zeros [OF zz] by (subst h) (simp add: number_of_append)
    ultimately show ?thesis using assemble_gap [of ?p l ?q] True z(1) assms(1) by simp
  next
    case False
    then show ?thesis using assemble_plain assms r by (simp add: compress_hextets_def)
  qed
qed

lemma number_of_digits: "number_of (n div 65536 ^ m) (map (\<lambda>i. n div 65536 ^ i mod 65536) (rev [0 ..< m])) = n"
proof (induction m)
  case 0
  then show ?case by (simp add: number_of_def)
next
  case (Suc m)
  have "n div 65536 ^ Suc m * 65536 + n div 65536 ^ m mod 65536 = n div 65536 ^ m"
    by (simp only: power_Suc2 div_mult2_eq div_mult_mod_eq)
  then show ?case using Suc by (simp add: number_of_def)
qed

lemma groups_number: "n < 2 ^ 128 \<Longrightarrow> number_of 0 (v6_groups n) = n"
proof -
  assume "n < 2 ^ 128"
  then have "n div 65536 ^ 8 = 0" by simp
  moreover have "v6_groups n = map (\<lambda>i. n div 65536 ^ i mod 65536) (rev [0 ..< 8])" by (simp add: v6_groups_def upt_rec)
  ultimately show ?thesis using number_of_digits [of n 8] by simp
qed

lemma set_join_with: "c \<in> set (join_with sep ps) \<Longrightarrow> c = sep \<or> (\<exists>p \<in> set ps. c \<in> set p)"
  by (induction sep ps rule: join_with.induct) auto

lemma v6_groups_ok: "length (v6_groups n) = 8" "\<forall>h \<in> set (v6_groups n). h < 65536"
  by (simp_all add: v6_groups_def)

lemma v6_text_parts: "split_on 58 (v6_text n) = compress_hextets (v6_groups n)"
proof -
  note g = v6_groups_ok [of n]
  have "58 \<notin> set x" if "x \<in> set (compress_hextets (v6_groups n))" for x
    using assemble_compress(3) [OF g that] hextet_chars [of 58] by auto
  moreover have "compress_hextets (v6_groups n) \<noteq> []" using assemble_compress(2) [OF g] by auto
  ultimately show ?thesis unfolding v6_text_def by (intro split_join) auto
qed

lemma v6_text_chars: "c \<in> set (v6_text n) \<Longrightarrow> c = 58 \<or> 48 \<le> c \<and> c \<le> 57 \<or> 97 \<le> c \<and> c \<le> 102"
proof -
  note g = v6_groups_ok [of n]
  assume "c \<in> set (v6_text n)"
  then show ?thesis using set_join_with [of c 58 "compress_hextets (v6_groups n)"] assemble_compress(3) [OF g] hextet_chars
    unfolding v6_text_def by fastforce
qed

lemma v6_text_parse: "n < 2 ^ 128 \<Longrightarrow> parse_ipv6_int (v6_text n) = Some n"
proof -
  assume n: "n < 2 ^ 128"
  note g = v6_groups_ok [of n]
  let ?ps = "compress_hextets (v6_groups n)"
  have "?ps \<noteq> []" using assemble_compress(2) [OF g] by auto
  then have "last ?ps \<in> set ?ps" by simp
  then have "46 \<notin> set (last ?ps)" using assemble_compress(3) [OF g] hextet_chars [of 46] by fastforce
  then show ?thesis using assemble_compress(1,2) [OF g] groups_number [OF n]
    by (auto simp: parse_ipv6_int_def v6_text_parts expand_quad_def Let_def)
qed

fun ip_ok :: "ipaddr \<Rightarrow> bool" where
  "ip_ok (V4 n) \<longleftrightarrow> n < 2 ^ 32"
| "ip_ok (V6 n scope) \<longleftrightarrow> n < 2 ^ 128 \<and> (case scope of None \<Rightarrow> True | Some s \<Rightarrow> s \<noteq> [] \<and> 37 \<notin> set s \<and> 47 \<notin> set s)"

text \<open>The text of an address is that address.\<close>

lemma ip_text_parse: "ip_ok ip \<Longrightarrow> ip_address (ip_text ip) = Some ip"
proof (cases ip)
  case (V4 n)
  assume "ip_ok ip"
  moreover have "47 \<notin> set (v4_text n)"
    using dec_digits_ascii [of 47] by (auto simp: v4_text_def)
  ultimately show ?thesis using V4 v4_text_parse [of n] by (simp add: ip_address_def)
next
  case (V6 n scope)
  assume ok: "ip_ok ip"
  have c: "37 \<notin> set (v6_text n)" "47 \<notin> set (v6_text n)" "46 \<notin> set (v6_text n)" by (auto dest: v6_text_chars)
  have "length (split_on 58 (v6_text n)) \<ge> 3"
    using assemble_compress(2) [OF v6_groups_ok] by (simp add: v6_text_parts)
  then have colon: "58 \<in> set (v6_text n)" using split_on_no_sep [of 58 "v6_text n"] by fastforce
  have "parse_ipv4 t = None" if t: "58 \<in> set t" for t
  proof -
    obtain p where p: "p \<in> set (split_on 46 t)" "58 \<in> set p" using t set_join_with [of 58 46 "split_on 46 t"] by auto
    then have "\<not> ascii_digits p" by (fastforce simp: ascii_digits_def list_all_iff ascii_digit_def)
    then have "parse_octet p = None" by (simp add: parse_octet_def)
    then have "None \<in> set (map parse_octet (split_on 46 t))" using p(1) by (metis image_eqI set_map)
    then show ?thesis by (auto simp: parse_ipv4_def split: list.splits option.splits)
  qed
  then show ?thesis using V6 ok c colon v6_text_parse [of n]
    by (cases scope) (auto simp: ip_address_def parse_ipv6_def split_scope_def split_on_no_sep split_on_append)
qed

lemma hextets_less: "hextets acc ps = Some n \<Longrightarrow> n < Suc acc * 65536 ^ length ps"
proof (induction ps arbitrary: acc)
  case Nil
  then show ?case by simp
next
  case (Cons p ps)
  then obtain h where h: "parse_hextet p = Some h" "hextets (acc * 65536 + h) ps = Some n" by (auto split: option.splits)
  have v: "hex_value a s = Some m \<Longrightarrow> m < Suc a * 16 ^ length s" for a s m
  proof (induction s arbitrary: a)
    case (Cons c s)
    then obtain d where d: "hex_digit c = Some d" "hex_value (16 * a + d) s = Some m" by (auto split: option.splits)
    have "Suc (16 * a + d) \<le> 16 * Suc a" using d(1) by (auto simp: hex_digit_def split: if_splits)
    then have "Suc (16 * a + d) * 16 ^ length s \<le> 16 * Suc a * 16 ^ length s" by (rule mult_le_mono1)
    also have "16 * Suc a * 16 ^ length s = Suc a * 16 ^ length (c # s)" by (simp add: algebra_simps)
    finally show ?case using less_le_trans [OF Cons.IH [OF d(2)]] by blast
  qed simp
  have "h < 16 ^ length p" "length p \<le> 4" using h(1) v [of 0 p h] by (auto simp: parse_hextet_def split: if_splits)
  then have "h < 65536" using power_increasing [of "length p" 4 "16::nat"] by simp
  then have "Suc (acc * 65536 + h) * 65536 ^ length ps \<le> Suc acc * 65536 * 65536 ^ length ps" by (intro mult_le_mono1) simp
  also have "\<dots> = Suc acc * 65536 ^ length (p # ps)" by (simp add: algebra_simps)
  finally show ?case using less_le_trans [OF Cons.IH [OF h(2)]] by blast
qed

lemma assemble_less: "assemble_ipv6 ps = Some n \<Longrightarrow> n < 2 ^ 128"
proof -
  assume a: "assemble_ipv6 ps = Some n"
  show ?thesis
  proof (cases "inner_empty ps")
    case Nil
    then show ?thesis using a hextets_less [of 0 ps n] by (auto simp: assemble_ipv6_def split: if_splits)
  next
    case (Cons k ks)
    define hi where "hi = (if hd ps = [] then k - 1 else k)"
    define lo where "lo = (if last ps = [] then length ps - k - 1 - 1 else length ps - k - 1)"
    have "ks = []" using a Cons by (auto simp: assemble_ipv6_def split: list.splits)
    then have "assemble_ipv6 ps = (if hd ps = [] \<and> hi \<noteq> 0 \<or> last ps = [] \<and> lo \<noteq> 0 \<or> hi + lo > 7 then None
        else case hextets 0 (take hi ps) of None \<Rightarrow> None
          | Some h \<Rightarrow> hextets (h * 65536 ^ (8 - (hi + lo))) (drop (length ps - lo) ps))"
      by (simp only: assemble_ipv6_def Cons hi_def lo_def Let_def list.case)
    then obtain h where e: "hi + lo \<le> 7" "hextets 0 (take hi ps) = Some h"
      "hextets (h * 65536 ^ (8 - (hi + lo))) (drop (length ps - lo) ps) = Some n"
      using a by (auto simp: not_less split: if_splits option.splits)
    have "h < 65536 ^ length (take hi ps)" using hextets_less [OF e(2)] by simp
    also have "\<dots> \<le> 65536 ^ hi" by (rule power_increasing) simp_all
    finally have "Suc h \<le> 65536 ^ hi" by simp
    then have "Suc h * 65536 ^ (8 - (hi + lo)) \<le> 65536 ^ hi * 65536 ^ (8 - (hi + lo))" by (rule mult_le_mono1)
    also have "\<dots> = 65536 ^ (8 - lo)" using e(1) by (simp flip: power_add)
    finally have "Suc (h * 65536 ^ (8 - (hi + lo))) \<le> 65536 ^ (8 - lo)"
      using zero_less_power [of "65536::nat" "8 - (hi + lo)"] unfolding mult_Suc by linarith
    moreover have "n < Suc (h * 65536 ^ (8 - (hi + lo))) * 65536 ^ length (drop (length ps - lo) ps)"
      using hextets_less [OF e(3)] .
    moreover have "(65536::nat) ^ length (drop (length ps - lo) ps) \<le> 65536 ^ lo" by (rule power_increasing) simp_all
    ultimately have "n < 65536 ^ (8 - lo) * 65536 ^ lo"
      by (meson less_le_trans mult_le_mono)
    also have "\<dots> = 65536 ^ 8" using e(1) by (simp flip: power_add)
    finally show ?thesis by simp
  qed
qed

lemma ip_address_ok: "ip_address s = Some ip \<Longrightarrow> ip_ok ip"
proof -
  assume a: "ip_address s = Some ip"
  then have s: "47 \<notin> set s" by (auto simp: ip_address_def split: if_splits)
  show ?thesis
  proof (cases "parse_ipv4 s")
    case (Some n)
    then show ?thesis using a parse_ipv4_less [OF Some] by (auto simp: ip_address_def split: if_splits)
  next
    case None
    then obtain t scope n where t: "split_scope s = Some (t, scope)" "parse_ipv6_int t = Some n" "ip = V6 n scope"
      using a by (auto simp: ip_address_def parse_ipv6_def split: if_splits option.splits)
    have "n < 2 ^ 128" using t(2) assemble_less
      by (auto simp: parse_ipv6_int_def Let_def split: if_splits option.splits)
    moreover have "b \<noteq> [] \<and> 37 \<notin> set b \<and> 47 \<notin> set b" if "scope = Some b" for b
    proof -
      have p: "split_on 37 s = [t, b]" "b \<noteq> []"
        using t(1) that by (auto simp: split_scope_def split: list.splits if_splits)
      then have "s = t @ 37 # b" using join_split [of 37 s] by simp
      then show ?thesis using p s split_on_parts [of b 37 s] by auto
    qed
    ultimately show ?thesis using t(3) by (auto split: option.splits)
  qed
qed

end
