(* ===== verification/Startup.thy ===== *)
theory Startup
  imports Backups Ip_Text
begin

text \<open>
  Starting the program and keeping its configuration file: \<open>ConfigStore.save\<close> as a sequence of file operations, each of which may
  fail and after each of which the machine may lose power (\<open>app/config.py\<close>), \<open>prepare_config\<close> with the environment variables and
  the console dialogue (\<open>app/runtime.py\<close>, \<open>app/console.py\<close>, \<open>app/engine/netinfo.py\<close>), the address that the health check asks
  (\<open>app/healthcheck.py\<close>) and the choice of the CA bundle (\<open>app/standalone.py\<close>).
\<close>

section \<open>The files of the data directory\<close>

text \<open>A file has the text that a reader sees and whether \<open>fsync\<close> has put it on the medium. \<open>sd_config\<close> is the file that
  \<open>config.json\<close> names now; \<open>sd_past\<close> are the files it named before, for as long as no sync of the directory has made the last
  rename durable. \<open>sd_backups\<close> is the directory of the backups, \<open>sd_leftovers\<close> its temporary files.\<close>

record file_state =
  fi_text :: str
  fi_synced :: bool

record store_disk =
  sd_config :: "file_state option"
  sd_past :: "file_state option list"
  sd_tmp :: "file_state option"
  sd_backups :: directory
  sd_leftovers :: "str list"

datatype fs_op = Backup_dir | Backup_read | Backup_tmp | Backup_write | Backup_sync | Backup_replace
  | Make_tmp | Write_tmp | Sync_tmp | Replace_config | Unlink_tmp | Sync_dir

text \<open>What one operation does. \<open>data\<close> is the text to be saved, \<open>bak\<close> the directory of the backups once the copy is in place.\<close>

fun fs_do :: "str \<Rightarrow> str \<Rightarrow> directory \<Rightarrow> fs_op \<Rightarrow> store_disk \<Rightarrow> store_disk" where
  "fs_do data cur bak Backup_tmp d = d\<lparr>sd_leftovers := [] # sd_leftovers d\<rparr>"
| "fs_do data cur bak Backup_write d = d\<lparr>sd_leftovers := cur # tl (sd_leftovers d)\<rparr>"
| "fs_do data cur bak Backup_replace d = d\<lparr>sd_backups := bak, sd_leftovers := tl (sd_leftovers d)\<rparr>"
| "fs_do data cur bak Make_tmp d = d\<lparr>sd_tmp := Some \<lparr>fi_text = [], fi_synced = False\<rparr>\<rparr>"
| "fs_do data cur bak Write_tmp d = d\<lparr>sd_tmp := Some \<lparr>fi_text = data, fi_synced = False\<rparr>\<rparr>"
| "fs_do data cur bak Sync_tmp d = d\<lparr>sd_tmp := map_option (\<lambda>f. f\<lparr>fi_synced := True\<rparr>) (sd_tmp d)\<rparr>"
| "fs_do data cur bak Replace_config d = d\<lparr>sd_config := sd_tmp d, sd_past := sd_config d # sd_past d, sd_tmp := None\<rparr>"
| "fs_do data cur bak Unlink_tmp d = d\<lparr>sd_tmp := None\<rparr>"
| "fs_do data cur bak Sync_dir d = d\<lparr>sd_past := []\<rparr>"
| "fs_do data cur bak _ d = d"

text \<open>What a failing operation leaves: of a write, the first \<open>k\<close> characters.\<close>

fun fs_fail :: "str \<Rightarrow> str \<Rightarrow> nat \<Rightarrow> fs_op \<Rightarrow> store_disk \<Rightarrow> store_disk" where
  "fs_fail data cur k Backup_write d = d\<lparr>sd_leftovers := take k cur # tl (sd_leftovers d)\<rparr>"
| "fs_fail data cur k Write_tmp d = d\<lparr>sd_tmp := Some \<lparr>fi_text = take k data, fi_synced = False\<rparr>\<rparr>"
| "fs_fail data cur k _ d = d"

record fs_env =
  fe_fails :: "fs_op \<Rightarrow> bool"
  fe_cut :: nat

text \<open>Operations in order up to the first that fails: whether all were done, and the state after each of them.\<close>

fun attempt :: "fs_env \<Rightarrow> str \<Rightarrow> str \<Rightarrow> directory \<Rightarrow> fs_op list \<Rightarrow> store_disk \<Rightarrow> bool \<times> store_disk list" where
  "attempt v data cur bak [] d = (True, [])"
| "attempt v data cur bak (x # xs) d =
     (if fe_fails v x then (False, [fs_fail data cur (fe_cut v) x d])
      else let d1 = fs_do data cur bak x d; (fine, ds) = attempt v data cur bak xs d1 in (fine, d1 # ds))"

section \<open>\<open>ConfigStore.save\<close>\<close>

text \<open>\<open>_backup_current\<close>: an \<open>OSError\<close> ends it and is dropped. No copy is made of a version that stays or that is the newest backup.
  The removal of the oldest backups is part of the last step.\<close>

definition backup_steps :: "fs_env \<Rightarrow> str \<Rightarrow> str \<Rightarrow> store_disk \<Rightarrow> store_disk list" where
  "backup_steps v stamp data d =
     (case sd_config d of
        None \<Rightarrow> []
      | Some f \<Rightarrow>
          let cur = fi_text f; names = backup_names (sd_backups d); look = Backup_dir # (if names = [] then [] else [Backup_read]) in
          if cur = data then []
          else snd (attempt v data cur (backup_current (sd_backups d) (Some cur) data stamp)
                 (if names \<noteq> [] \<and> map_of (sd_backups d) (hd names) = Some cur then look
                  else look @ [Backup_tmp, Backup_write, Backup_sync, Backup_replace]) d))"

datatype save_error = Invalid config_error | OSError

text \<open>The new text goes to a temporary file, which is synced and then renamed; whatever remains of it is removed, also after an error.\<close>

definition write_steps :: "fs_env \<Rightarrow> str \<Rightarrow> store_disk \<Rightarrow> (save_error + unit) \<times> store_disk list" where
  "write_steps v data d =
     (if fe_fails v Make_tmp then (Inl OSError, [])
      else
        let d0 = fs_do data [] [] Make_tmp d; (fine, ds) = attempt v data [] [] [Write_tmp, Sync_tmp, Replace_config] d0; d1 = last (d0 # ds);
            (gone, us) = (if sd_tmp d1 = None then (True, []) else attempt v data [] [] [Unlink_tmp] d1) in
        if fine \<and> gone then (Inr (), d0 # ds @ us @ snd (attempt v data [] [] [Sync_dir] (last (d1 # us))))
        else (Inl OSError, d0 # ds @ us))"

text \<open>\<open>data\<close> is the text of \<open>config\<close> (\<open>json.dumps\<close> of \<open>to_dict\<close>).\<close>

definition store_save :: "(str \<Rightarrow> bool) \<Rightarrow> fs_env \<Rightarrow> str \<Rightarrow> app_config \<Rightarrow> str \<Rightarrow> store_disk \<Rightarrow> (save_error + unit) \<times> store_disk list" where
  "store_save isfile v stamp config data d =
     (case validate_app isfile config of
        Inl e \<Rightarrow> (Inl (Invalid e), [])
      | Inr _ \<Rightarrow>
          let bs = backup_steps v stamp data d; (r, ws) = write_steps v data (last (d # bs)) in (r, bs @ ws))"

section \<open>The address of the admin UI\<close>

text \<open>\<open>_env_bind_override\<close>: a port counts only with an address, and one that is no number is ignored. Whether an address was given.\<close>

definition env_bind_override :: "str option \<Rightarrow> str option \<Rightarrow> admin_ui \<Rightarrow> bool \<times> admin_ui" where
  "env_bind_override env_ip env_port admin =
     (let ip = strip (case env_ip of None \<Rightarrow> [] | Some v \<Rightarrow> v); port = strip (case env_port of None \<Rightarrow> [] | Some v \<Rightarrow> v) in
      if ip = [] then (False, admin)
      else (True, admin\<lparr>ui_bind_ip := ip, ui_port := (if port = [] then ui_port admin else case py_int port of None \<Rightarrow> ui_port admin | Some n \<Rightarrow> n)\<rparr>))"

definition validate_ip :: "str \<Rightarrow> str option" where
  "validate_ip v = (case ip_address v of None \<Rightarrow> None | Some ip \<Rightarrow> if is_multicast ip \<or> is_reserved ip then None else Some (ip_text ip))"

text \<open>The addresses of \<open>list_ip_candidates\<close>; \<open>nics\<close> are the addresses of the interfaces, sorted and without repetitions.\<close>

definition ip_candidates :: "(str \<times> str) list \<Rightarrow> str list" where
  "ip_candidates nics =
     rev (fold (\<lambda>(_, ip) seen. if ip \<in> set seen then seen else ip # seen) nics [ascii ''127.0.0.1'', ascii ''0.0.0.0''])"

text \<open>The two questions of the console. The lines that are typed are a list; its end is the end of the input (\<open>EOFError\<close>, \<open>None\<close>).\<close>

fun choose_ip :: "str list \<Rightarrow> str list \<Rightarrow> (str \<times> str list) option" where
  "choose_ip candidates [] = None"
| "choose_ip candidates (raw # ls) =
     (let r = (if strip raw = [] then ascii ''1'' else strip raw) in
      if r \<in> {ascii ''c'', ascii ''C''} then
        (case ls of
           [] \<Rightarrow> None
         | custom # ls' \<Rightarrow> (case validate_ip (strip custom) of Some ip \<Rightarrow> Some (ip, ls') | None \<Rightarrow> choose_ip candidates ls'))
      else case py_int r of
        Some i \<Rightarrow> if 1 \<le> i \<and> i \<le> int (length candidates) then Some (candidates ! nat (i - 1), ls) else choose_ip candidates ls
      | None \<Rightarrow> choose_ip candidates ls)"

fun choose_port :: "int \<Rightarrow> str list \<Rightarrow> int option" where
  "choose_port default_port [] = None"
| "choose_port default_port (raw # ls) =
     (case py_int (if strip raw = [] then dec_str default_port else strip raw) of
        Some p \<Rightarrow> if 1 \<le> p \<and> p \<le> 65535 then Some p else choose_port default_port ls
      | None \<Rightarrow> choose_port default_port ls)"

text \<open>\<open>tty\<close>: the lines typed at the terminal, \<open>None\<close> without one.\<close>

definition choose_admin_bind :: "(str \<times> str) list \<Rightarrow> str list option \<Rightarrow> admin_ui \<Rightarrow> (str \<times> int) option" where
  "choose_admin_bind nics tty current =
     (let default_ip = (if ui_bind_ip current = [] then ascii ''127.0.0.1'' else ui_bind_ip current);
          default_port = (if ui_port current = 0 then 8080 else ui_port current) in
      case tty of
        None \<Rightarrow> Some (default_ip, default_port)
      | Some ls \<Rightarrow>
          (case choose_ip (ip_candidates nics) ls of
             None \<Rightarrow> None
           | Some (ip, ls') \<Rightarrow> map_option (Pair ip) (choose_port default_port ls')))"

record start_args =
  sa_env_ip :: "str option"
  sa_env_port :: "str option"
  sa_reconfigure :: bool
  sa_nics :: "(str \<times> str) list"
  sa_tty :: "str list option"

text \<open>\<open>prepare_config\<close> after the load: the configuration the server starts with and whether it is saved first. \<open>None\<close>: the input ended.\<close>

definition prepare_config :: "bool \<Rightarrow> start_args \<Rightarrow> app_config \<Rightarrow> (app_config \<times> bool) option" where
  "prepare_config first_run a config =
     (let (env_set, admin) = env_bind_override (sa_env_ip a) (sa_env_port a) (ac_admin_ui config); asks = (first_run \<or> sa_reconfigure a) \<and> \<not> env_set in
      case (if asks then choose_admin_bind (sa_nics a) (sa_tty a) admin else Some (ui_bind_ip admin, ui_port admin)) of
        None \<Rightarrow> None
      | Some (ip, port) \<Rightarrow> Some (config\<lparr>ac_admin_ui := admin\<lparr>ui_bind_ip := ip, ui_port := port\<rparr>\<rparr>, first_run \<or> sa_reconfigure a \<or> env_set))"

section \<open>The health check\<close>

text \<open>The URL for a host, a port and the scheme.\<close>

definition probe_url :: "bool \<Rightarrow> str \<Rightarrow> int \<Rightarrow> str" where
  "probe_url tls ip port =
     (let host = (if ip = ascii ''0.0.0.0'' then ascii ''127.0.0.1'' else if ip = ascii ''::'' then ascii ''::1'' else ip) in
      (if tls then ascii ''https'' else ascii ''http'') @ ascii ''://'' @ (if 58 \<in> set host then [91] @ host @ [93] else host) @ [58] @
        dec_str port @ ascii ''/healthz'')"

text \<open>\<open>target\<close>; \<open>admin\<close> is the part of the file that it reads, \<open>None\<close> if there is none. The result \<open>None\<close>: \<open>int\<close> raises \<open>ValueError\<close>.\<close>

definition health_target :: "str option \<Rightarrow> str option \<Rightarrow> admin_ui option \<Rightarrow> str option" where
  "health_target env_ip env_port admin =
     (let ip = strip (case env_ip of None \<Rightarrow> [] | Some v \<Rightarrow> v); port = strip (case env_port of None \<Rightarrow> [] | Some v \<Rightarrow> v);
          bind = (case admin of None \<Rightarrow> [] | Some u \<Rightarrow> ui_bind_ip u); n = (case admin of None \<Rightarrow> 0 | Some u \<Rightarrow> ui_port u);
          tls = (case admin of None \<Rightarrow> False | Some u \<Rightarrow> tls_enabled u) in
      map_option (probe_url tls (if ip \<noteq> [] then ip else if bind \<noteq> [] then bind else ascii ''127.0.0.1''))
        (if port \<noteq> [] then py_int port else Some (if n \<noteq> 0 then n else 8080)))"

section \<open>The CA bundle of the standalone binary\<close>

definition CA_BUNDLES :: "str list" where
  "CA_BUNDLES = [ascii ''/etc/ssl/certs/ca-certificates.crt'', ascii ''/etc/pki/tls/certs/ca-bundle.crt'', ascii ''/etc/ssl/ca-bundle.pem'',
     ascii ''/etc/pki/tls/cacert.pem'', ascii ''/etc/pki/ca-trust/extracted/pem/tls-ca-bundle.pem'', ascii ''/etc/ssl/cert.pem'']"

text \<open>The environment is a dictionary; the path that was set, and the new environment.\<close>

definition use_system_ca_bundle :: "(str \<Rightarrow> bool) \<Rightarrow> (string \<rightharpoonup> str) \<Rightarrow> str option \<times> (string \<rightharpoonup> str)" where
  "use_system_ca_bundle isfile env =
     (if env ''SSL_CERT_FILE'' \<notin> {None, Some []} \<or> env ''SSL_CERT_DIR'' \<notin> {None, Some []} then (None, env)
      else case find isfile CA_BUNDLES of
        None \<Rightarrow> (None, env)
      | Some path \<Rightarrow> (Some path, env(''SSL_CERT_FILE'' \<mapsto> path)))"

datatype tls_note = Configured | System_bundle str | No_bundle

definition standalone_prepare :: "bool \<Rightarrow> str \<Rightarrow> (str \<Rightarrow> bool) \<Rightarrow> (string \<rightharpoonup> str) \<Rightarrow> tls_note list \<times> (string \<rightharpoonup> str)" where
  "standalone_prepare frozen platform isfile env =
     (if \<not> (frozen \<and> is_prefix_of (ascii ''linux'') platform) then ([], env)
      else if env ''SSL_CERT_FILE'' \<notin> {None, Some []} \<or> env ''SSL_CERT_DIR'' \<notin> {None, Some []} then ([Configured], env)
      else case use_system_ca_bundle isfile env of
        (Some path, env') \<Rightarrow> ([System_bundle path], env')
      | (None, env') \<Rightarrow> ([No_bundle], env'))"

section \<open>Lemmas: saving\<close>

text \<open>What \<open>config.json\<close> may hold after a loss of power: any of the files that its name may stand for, complete if it was synced, else
  anything.\<close>

definition may_hold :: "str option \<Rightarrow> file_state option \<Rightarrow> bool" where
  "may_hold t f = (case f of None \<Rightarrow> t = None | Some g \<Rightarrow> t \<noteq> None \<and> (fi_synced g \<longrightarrow> t = Some (fi_text g)))"

definition after_loss :: "store_disk \<Rightarrow> str option \<Rightarrow> bool" where
  "after_loss d t \<longleftrightarrow> list_ex (may_hold t) (sd_config d # sd_past d)"

lemma may_hold_synced [simp]: "may_hold t (Some \<lparr>fi_text = x, fi_synced = True\<rparr>) \<longleftrightarrow> t = Some x"
  by (auto simp: may_hold_def)

definition all_synced :: "store_disk \<Rightarrow> bool" where
  "all_synced d \<longleftrightarrow> list_all (\<lambda>f. case f of None \<Rightarrow> True | Some g \<Rightarrow> fi_synced g) (sd_config d # sd_past d)"

definition config_text :: "store_disk \<Rightarrow> str option" where
  "config_text d = map_option fi_text (sd_config d)"

text \<open>What every operation of a sequence keeps holds in every state the sequence passes through. The operations of the backup do not touch
  the file of the configuration.\<close>

lemma attempt_keeps:
  assumes "\<And>x d k. x \<in> set xs \<Longrightarrow> P d \<Longrightarrow> P (fs_do data cur bak x d) \<and> P (fs_fail data cur k x d)" and "P d"
    and "d' \<in> set (snd (attempt v data cur bak xs d))"
  shows "P d'"
  using assms
proof (induction xs arbitrary: d)
  case (Cons x xs)
  have "P (fs_do data cur bak x d)" "P (fs_fail data cur (fe_cut v) x d)" using Cons.prems(1,2) by auto
  then show ?case using Cons.IH [of "fs_do data cur bak x d"] Cons.prems(1,3) by (auto simp: Let_def split: if_splits prod.splits)
qed simp

lemma backup_keeps_name:
  assumes "d' \<in> set (d # backup_steps v stamp data d)"
  shows "sd_config d' = sd_config d \<and> sd_past d' = sd_past d \<and> sd_tmp d' = sd_tmp d"
proof -
  have "sd_config d' = sd_config d \<and> sd_past d' = sd_past d \<and> sd_tmp d' = sd_tmp d"
    if "d' \<in> set (snd (attempt v data cur bak xs d))" "set xs \<subseteq> {Backup_dir, Backup_read, Backup_tmp, Backup_write, Backup_sync, Backup_replace}" for cur bak xs
    using attempt_keeps [OF _ _ that(1), of "\<lambda>x. sd_config x = sd_config d \<and> sd_past x = sd_past d \<and> sd_tmp x = sd_tmp d"] that(2)
    by fastforce
  then show ?thesis using assms by (auto simp: backup_steps_def Let_def split: option.splits if_splits)
qed

text \<open>The states that writing the file passes through.\<close>

lemma write_states:
  assumes "write_steps v data d = (r, ws)" and "d' \<in> set ws"
  shows "sd_config d' = sd_config d \<and> sd_past d' = sd_past d \<or>
    sd_config d' = Some \<lparr>fi_text = data, fi_synced = True\<rparr> \<and> (sd_past d' = sd_config d # sd_past d \<or> sd_past d' = [])"
  using assms by (auto simp: write_steps_def Let_def split: if_splits prod.splits)

lemma write_result:
  assumes "write_steps v data d = (r, ws)"
  shows "case r of
      Inr _ \<Rightarrow> ws \<noteq> [] \<and> sd_config (last ws) = Some \<lparr>fi_text = data, fi_synced = True\<rparr> \<and> (\<not> fe_fails v Sync_dir \<longrightarrow> sd_past (last ws) = []) \<and>
        sd_tmp (last ws) = None
    | Inl _ \<Rightarrow> sd_config (last (d # ws)) = sd_config d \<and> (\<not> fe_fails v Unlink_tmp \<and> ws \<noteq> [] \<longrightarrow> sd_tmp (last ws) = None)"
  using assms by (auto simp: write_steps_def Let_def split: if_splits prod.splits)

section \<open>Lemmas: the address\<close>

text \<open>Whatever is typed, the console's answer is one of the addresses offered or a valid address in its canonical form, and a port.\<close>

lemma choose_ip_valid: "choose_ip candidates ls = Some (ip, ls') \<Longrightarrow> ip \<in> set candidates \<or> validate_ip ip = Some ip"
proof (induction candidates ls rule: choose_ip.induct)
  case (2 candidates raw ls)
  have v: "validate_ip ip = Some ip" if "validate_ip c = Some ip" for c
    using that ip_address_ok [of c] ip_text_parse by (auto simp: validate_ip_def split: option.splits if_splits)
  show ?case
  proof (cases "(if strip raw = [] then ascii ''1'' else strip raw) \<in> {ascii ''c'', ascii ''C''}")
    case True
    then show ?thesis using 2 v by (auto simp: Let_def split: list.splits option.splits)
  next
    case False
    then show ?thesis using 2(2,3) "2.prems" by (auto simp: Let_def split: option.splits if_splits)
  qed
qed simp

lemma choose_port_valid: "choose_port p ls = Some n \<Longrightarrow> 1 \<le> n \<and> n \<le> 65535"
  by (induction p ls rule: choose_port.induct) (auto split: option.splits if_splits)

text \<open>A second start with the same environment and without questions leaves the configuration as the first one saved it.\<close>

lemma prepare_again:
  assumes "prepare_config first_run a config = Some (config', saved)" and "\<not> sa_reconfigure a"
  shows "prepare_config False a config' = Some (config', fst (env_bind_override (sa_env_ip a) (sa_env_port a) (ac_admin_ui config)))"
  using assms by (auto simp: prepare_config_def env_bind_override_def Let_def split: if_splits option.splits prod.splits)

text \<open>The health check asks the server that this configuration starts, if the environment names both address and port, or neither.\<close>

lemma probe_meets_server:
  assumes "prepare_config first_run a config = Some (config', saved)"
    and "case (sa_env_ip a, sa_env_port a) of
        (None, None) \<Rightarrow> True | (Some i, Some p) \<Rightarrow> strip i \<noteq> [] \<and> strip p \<noteq> [] \<and> py_int (strip p) \<noteq> None | _ \<Rightarrow> False"
    and "ui_bind_ip (ac_admin_ui config') \<noteq> []" and "ui_port (ac_admin_ui config') \<noteq> 0"
  shows "health_target (sa_env_ip a) (sa_env_port a) (Some (ac_admin_ui config')) =
    Some (probe_url (tls_enabled (ac_admin_ui config')) (ui_bind_ip (ac_admin_ui config')) (ui_port (ac_admin_ui config')))"
proof -
  have "strip [] = []" by code_simp
  then show ?thesis
    using assms by (auto simp: prepare_config_def env_bind_override_def health_target_def tls_enabled_def Let_def split: if_splits option.splits prod.splits)
qed

section \<open>Properties\<close>


text \<open>A save over an older version, and one on a full disk.\<close>

definition sample_disk :: store_disk where
  "sample_disk = \<lparr>sd_config = Some \<lparr>fi_text = ascii ''old'', fi_synced = True\<rparr>, sd_past = [], sd_tmp = None, sd_backups = [], sd_leftovers = []\<rparr>"

lemma sample_valid: "validate_app (\<lambda>_. True) sample_config = Inr ()"
  by code_simp


section \<open>Findings\<close>

text \<open>A backup that cannot be written completely leaves its temporary file, with the secrets of the configuration, and nothing ever removes it:
  pruning looks at the names of backups only.\<close>

lemma backup_leftover:
  "sd_leftovers (last (snd (store_save (\<lambda>_. True) \<lparr>fe_fails = (\<lambda>x. x = Backup_write), fe_cut = 2\<rparr> (ascii ''20250101T000000Z'') sample_config (ascii ''new'')
     sample_disk))) = [ascii ''ol'']"
  unfolding store_save_def sample_valid sum.case by code_simp

text \<open>With a port in the environment and no address, or with a port that is no number, the server keeps the configured port, but the health check
  asks another one or raises.\<close>

lemma probe_elsewhere:
  "let a = \<lparr>sa_env_ip = None, sa_env_port = Some (ascii ''9000''), sa_reconfigure = False, sa_nics = [], sa_tty = None\<rparr>;
       ui = ac_admin_ui sample_config in
   map_option (\<lambda>(c, _). ui_port (ac_admin_ui c)) (prepare_config False a sample_config) = Some 8080 \<and>
   health_target None (Some (ascii ''9000'')) (Some ui) = Some (ascii ''http://127.0.0.1:9000/healthz'') \<and>
   snd (env_bind_override (Some (ascii ''127.0.0.1'')) (Some (ascii ''x'')) ui) = ui \<and>
   health_target (Some (ascii ''127.0.0.1'')) (Some (ascii ''x'')) (Some ui) = None"
  by code_simp

text \<open>Without a terminal the UI is bound to the loopback address.\<close>

lemma headless_loopback: "choose_admin_bind nics None (ac_admin_ui sample_config) = Some (ascii ''127.0.0.1'', 8080)"
  by (simp add: choose_admin_bind_def sample_config_def ascii_def Let_def)

text \<open>The console refuses the IPv6 loopback address and the IPv6 wildcard as reserved.\<close>

lemma loopback6_refused: "validate_ip (ascii ''::1'') = None" "validate_ip (ascii ''::'') = None"
  by code_simp+

end
