(* ===== verification/Mapping_Dict.thy ===== *)
theory Mapping_Dict
  imports App_Config
begin

text \<open>
  The defaults of the mapping's dataclasses and \<open>from_dict\<close> (\<open>app/config.py\<close>). A dictionary that leaves a key out and a record
  that has the default there are the same to \<open>from_dict\<close>, so the dictionaries the importers build are records of that kind;
  the id, which they leave out, is given separately.
\<close>

section \<open>Defaults\<close>

definition default_serial :: serial_settings where
  "default_serial = \<lparr>ss_port = [], ss_match = [], ss_baudrate = VInt 9600, ss_bytesize = VInt 8, ss_parity = ascii ''N'',
     ss_stopbits = VInt 1, ss_flowcontrol = ascii ''none'', ss_rts_on_open = ascii ''keep'', ss_dtr_on_open = ascii ''keep'',
     ss_exclusive = True, ss_rs485_enabled = False, ss_rs485_delay_before_tx_ms = 0, ss_rs485_delay_after_tx_ms = 0,
     ss_rs485_rts_level_for_tx = True, ss_hangup_when_done = False, ss_nobreak = False\<rparr>"

definition default_network :: network_settings where
  "default_network = \<lparr>ns_mode = ascii ''server'', ns_protocol = ascii ''raw'', ns_bind_ip = ascii ''0.0.0.0'', ns_port = VInt 4001,
     ns_remote_host = [], ns_remote_port = VInt 0, ns_max_connections = VInt 1, ns_kick_old_user = False,
     ns_allowed_client_ips = [], ns_priority_client_ips = [], ns_read_only = False, ns_client_queue_max = VInt 2048,
     ns_tcp_keepalive = True, ns_keepalive_idle_s = VInt 60, ns_keepalive_interval_s = VInt 10, ns_keepalive_count = VInt 3,
     ns_connect_timeout_s = VFloat 0x4024000000000000, ns_tls = False, ns_tls_cert = [], ns_tls_key = []\<rparr>"

definition default_options :: mapping_options where
  "default_options = \<lparr>mo_banner = [], mo_openstr = [], mo_closestr = [], mo_closeon = [], mo_idle_timeout_s = VInt 0,
     mo_max_connection_time_s = VInt 0, mo_trace_both = [], mo_trace_hexdump = False, mo_trace_timestamp = True,
     mo_trace_max_mb = VFloat 0x4024000000000000, mo_trace_keep = VInt 3, mo_rfc2217_poll_modem_interval_s = 0x3FF0000000000000,
     mo_rfc2217_net_timeout_s = 0x4008000000000000, mo_modbus_response_timeout_s = 0x3FF0000000000000\<rparr>"

definition default_mqtt :: mqtt_settings where
  "default_mqtt = \<lparr>mq_enabled = False, mq_host = [], mq_port = VInt 1883, mq_base_topic = [], mq_qos = VInt 0, mq_tls = False,
     mq_username = [], mq_password = [], mq_client_id = [], mq_payload_format = ascii ''plain'', mq_group_id = ascii ''ser2net'',
     mq_node_id = []\<rparr>"

definition default_poll :: modbus_poll where
  "default_poll = \<lparr>poll_interval_s = 0x4014000000000000, poll_points = []\<rparr>"

section \<open>\<open>from_dict\<close>\<close>

definition load_options :: "(nat \<Rightarrow> bool) \<Rightarrow> mapping_options \<Rightarrow> mapping_options" where
  "load_options isword m = m\<lparr>mo_idle_timeout_s := legacy_seconds (mo_idle_timeout_s m),
     mo_trace_both := trace_file_name isword (mo_trace_both m)\<rparr>"

text \<open>\<open>float(d.get("interval_s", 5.0) or 5.0)\<close>.\<close>

definition load_poll :: "modbus_poll \<Rightarrow> modbus_poll" where
  "load_poll p = (if f64_truthy (poll_interval_s p) then p else p\<lparr>poll_interval_s := 0x4014000000000000\<rparr>)"

text \<open>\<open>MappingConfig.from_dict\<close>; \<open>fresh\<close> is what \<open>_new_id\<close> gives.\<close>

definition load_mapping :: "(nat \<Rightarrow> bool) \<Rightarrow> str \<Rightarrow> mapping_config \<Rightarrow> mapping_config" where
  "load_mapping isword fresh m = m\<lparr>mc_id := (if mc_id m \<noteq> [] then mc_id m else fresh),
     mc_options := load_options isword (mc_options m), mc_poll := load_poll (mc_poll m)\<rparr>"

section \<open>Lemmas: reading twice\<close>

lemma legacy_seconds_settles: "legacy_seconds (legacy_seconds v) = legacy_seconds v"
proof -
  define clamp where "clamp w = (if \<not> is_number w \<or> (case w of VFloat x \<Rightarrow> \<not> f64_isfinite x | _ \<Rightarrow> False)
      \<or> \<not> num_ge_int w 0 then VInt 0 else if num_le_int w MAX_TIMER_S then w else VInt MAX_TIMER_S)" for w
  have c: "clamp (clamp w) = clamp w" for w by (auto simp: clamp_def is_number_def MAX_TIMER_S_def)
  have n: "legacy_seconds (clamp w) = clamp (clamp w)" for w
    unfolding legacy_seconds_def Let_def clamp_def [abs_def, symmetric] by (cases "clamp w") (auto simp: clamp_def is_number_def split: if_splits)
  have z: "clamp (VInt 0) = VInt 0" by (simp add: clamp_def is_number_def MAX_TIMER_S_def)
  have "legacy_seconds v = VInt 0 \<or> (\<exists>w. legacy_seconds v = clamp w)"
    unfolding legacy_seconds_def Let_def clamp_def [abs_def, symmetric] by (cases v) (auto split: option.splits)
  then have "\<exists>w. legacy_seconds v = clamp w" using z by metis
  then show ?thesis using c n by metis
qed

text \<open>The word class of regular expressions holds the underscore and the letters of the default name, and no space and no separator.\<close>

definition word_class :: "(nat \<Rightarrow> bool) \<Rightarrow> bool" where
  "word_class isword \<longleftrightarrow> isword 95 \<and> list_all (\<lambda>c. c = 46 \<or> isword c) TRACE_DEFAULT_NAME \<and> \<not> isword 47 \<and> \<not> isword 92 \<and>
     (\<forall>c. py_isspace c \<longrightarrow> \<not> isword c)"

lemma sub_bad_runs_id: "\<forall>c \<in> set s. isword c \<or> c = 46 \<or> c = 45 \<Longrightarrow> sub_bad_runs isword inrun s = s"
  by (induction isword inrun s rule: sub_bad_runs.induct) auto

lemma strip_id:
  assumes "\<forall>c \<in> set s. \<not> p c" shows "rstrip_of p s = s" "lstrip_of p s = s"
proof -
  have "dropWhile p t = t" if "\<forall>c \<in> set t. \<not> p c" for t using that by (cases t) auto
  from this [of s] this [of "rev s"] show "rstrip_of p s = s" "lstrip_of p s = s" using assms by (simp_all add: rstrip_of_def lstrip_of_def)
qed

lemma last_component_id: "47 \<notin> set s \<Longrightarrow> 92 \<notin> set s \<Longrightarrow> last_component s = s"
proof -
  assume "47 \<notin> set s" "92 \<notin> set s"
  then have "takeWhile (\<lambda>c. c \<noteq> 47 \<and> c \<noteq> 92) (rev s) = rev s" by (auto simp: takeWhile_eq_all_conv)
  then show ?thesis unfolding last_component_def by (simp only: rev_rev_ident)
qed

text \<open>A name that is already clean is kept.\<close>

lemma trace_file_name_clean:
  assumes "word_class isword" and "\<forall>c \<in> set n. isword c \<or> c = 46 \<or> c = 45" and "n \<noteq> []" and "hd n \<noteq> 46" and "last n \<noteq> 46" and "length n \<le> 80"
  shows "trace_file_name isword n = n"
proof -
  have sp: "py_isspace 32" "\<not> py_isspace 45" "\<not> py_isspace 46" by (simp_all add: py_isspace_def)
  have w: "\<not> isword 32" "\<not> isword 47" "\<not> isword 92" using assms(1) sp(1) by (auto simp: word_class_def)
  have "\<not> py_isspace c" if "c \<in> set n" for c using assms(1,2) that sp by (metis word_class_def)
  then have s: "strip n = n" by (simp add: strip_def strip_id)
  have hl: "\<not> dot_or_space (hd n)" "\<not> dot_or_space (last n)"
    using assms(4,5) w(1) bspec [OF assms(2) hd_in_set [OF assms(3)]] bspec [OF assms(2) last_in_set [OF assms(3)]] by (auto simp: dot_or_space_def)
  then have l: "lstrip_of dot_or_space n = n" by (cases n) (simp_all add: lstrip_of_def)
  have r: "rstrip_of dot_or_space n = n" using hl(2) assms(3) by (cases n rule: rev_cases) (simp_all add: rstrip_of_def)
  have "47 \<notin> set n" "92 \<notin> set n" using assms(2) w by auto
  then show ?thesis using s l r assms(2,3,6) by (simp add: trace_file_name_def last_component_id sub_bad_runs_id Let_def)
qed

lemma trace_file_name_settles:
  assumes "word_class isword"
  shows "trace_file_name isword (trace_file_name isword v) = trace_file_name isword v"
proof (cases "trace_file_name isword v = []")
  case False
  let ?n = "sub_bad_runs isword False (last_component (strip v))"
  let ?l = "lstrip_of dot_or_space ?n"
  let ?t = "rstrip_of dot_or_space (take 80 (rstrip_of dot_or_space ?l))"
  have t: "trace_file_name isword v = (if ?t = [] then TRACE_DEFAULT_NAME else ?t)"
    using False by (simp add: trace_file_name_def Let_def split: if_splits)
  have "hd (trace_file_name isword v) \<noteq> 46"
  proof (cases "?t = []")
    case nonempty: False
    have pre: "\<exists>zs. s = rstrip_of p s @ zs" for p and s :: str
      unfolding rstrip_of_def by (metis rev_append rev_rev_ident takeWhile_dropWhile_id)
    have "hd ?t = hd (take 80 (rstrip_of dot_or_space ?l))" using pre [of "take 80 (rstrip_of dot_or_space ?l)" dot_or_space] nonempty by (metis hd_append2)
    also have "\<dots> = hd (rstrip_of dot_or_space ?l)" by simp
    also have "\<dots> = hd ?l" using pre [of ?l dot_or_space] nonempty by (metis hd_append2 take_eq_Nil rstrip_of_def rev.simps(1) dropWhile.simps(1))
    finally have "hd ?t = hd ?l" .
    moreover have "?l \<noteq> []" using nonempty by (auto simp: rstrip_of_def)
    then have "\<not> dot_or_space (hd ?l)" unfolding lstrip_of_def by (rule hd_dropWhile)
    ultimately show ?thesis using t nonempty by (auto simp: dot_or_space_def)
  qed (simp add: t TRACE_DEFAULT_NAME_def ascii_def)
  moreover have "\<forall>c \<in> set (trace_file_name isword v). isword c \<or> c = 46 \<or> c = 45"
    using trace_file_name_chars [of _ isword v] assms by (auto simp: word_class_def list_all_iff)
  ultimately show ?thesis using trace_file_name_clean [OF assms _ False] trace_file_name_end [OF False] by blast
qed (simp add: trace_file_name_def strip_def rstrip_of_def lstrip_of_def)

lemma load_settles:
  assumes "word_class isword" and "fresh \<noteq> []"
  shows "load_mapping isword f (load_mapping isword fresh m) = load_mapping isword fresh m"
  using trace_file_name_settles [OF assms(1)] legacy_seconds_settles assms(2)
  by (simp add: load_mapping_def load_options_def load_poll_def f64_truthy_def f64_mag_def)

section \<open>Properties\<close>

text \<open>C27: Reading a mapping settles it: what \<open>from_dict\<close> returned, written with \<open>to_dict\<close> and read again, is the same mapping,
  with the same id, whatever old or foreign values the first reading met; its idle timer is one that validation accepts.\<close>
theorem from_dict_settles:
  assumes "word_class isword" and "fresh \<noteq> []" and "load_mapping isword fresh m = m1"
  shows "load_mapping isword f m1 = m1 \<and> mc_id m1 \<noteq> [] \<and>
    is_number (mo_idle_timeout_s (mc_options m1)) \<and> between 0 (mo_idle_timeout_s (mc_options m1)) MAX_TIMER_S"
proof -
  have "mo_idle_timeout_s (mc_options m1) = legacy_seconds (mo_idle_timeout_s (mc_options m))" and "mc_id m1 \<noteq> []"
    using assms(2) by (simp_all add: load_mapping_def load_options_def flip: assms(3))
  then show ?thesis using load_settles [OF assms(1,2), of f m] legacy_seconds_valid by (simp add: assms(3))
qed

lemma from_dict_settles_witness:
  "load_mapping (\<lambda>c. 97 \<le> c \<and> c \<le> 122 \<or> c = 95) [50] (load_mapping (\<lambda>c. 97 \<le> c \<and> c \<le> 122 \<or> c = 95) [49]
       ((sample_mapping ''a'' ''net'' ''/dev/ttyS0'')\<lparr>mc_id := [], mc_options := default_options\<lparr>mo_trace_both := ascii ''../my trace..''\<rparr>\<rparr>)) =
   load_mapping (\<lambda>c. 97 \<le> c \<and> c \<le> 122 \<or> c = 95) [49]
     ((sample_mapping ''a'' ''net'' ''/dev/ttyS0'')\<lparr>mc_id := [], mc_options := default_options\<lparr>mo_trace_both := ascii ''../my trace..''\<rparr>\<rparr>)"
proof -
  have "word_class (\<lambda>c. 97 \<le> c \<and> c \<le> 122 \<or> c = 95)" by (auto simp: word_class_def TRACE_DEFAULT_NAME_def ascii_def py_isspace_def)
  then show ?thesis using from_dict_settles [OF _ _ refl] by blast
qed

end
