(* ===== verification/Ser2net_Conn.thy ===== *)
theory Ser2net_Conn
  imports Mapping_Dict Ip_Text Dict
begin

text \<open>
  \<open>app/ser2net_import.py\<close>, one ser2net connection on its way to a mapping: the gensio strings of its accepter and connector,
  its serial and connection options, the text escapes, and the warnings. A warning is a value: the label of its message and
  the texts it is formatted with. The service database (\<open>getservbyname\<close>) and the Unicode table behind \<open>\w\<close> are parameters.
  An exception that no caller catches is \<open>Inl\<close>.
\<close>

section \<open>Text\<close>

datatype import_error = ValueError | Refused string "str list"

text \<open>\<open>str.lower()\<close> as far as a comparison with ASCII keywords sees it: besides the ASCII capitals only the Kelvin sign becomes
  an ASCII letter.\<close>

definition lower_kw :: "str \<Rightarrow> str" where
  "lower_kw s = lower_ascii (map (\<lambda>c. if c = 0x212A then 107 else c) s)"

text \<open>\<open>str.isdigit()\<close> of one character: the decimal digits and the characters that are digits without being decimal.\<close>

definition other_digits :: "(nat \<times> nat) list" where
  "other_digits = [(0xb2, 0xb3), (0xb9, 0xb9), (0x1369, 0x1371), (0x19da, 0x19da), (0x2070, 0x2070), (0x2074, 0x2079),
     (0x2080, 0x2089), (0x2460, 0x2468), (0x2474, 0x247c), (0x2488, 0x2490), (0x24ea, 0x24ea), (0x24f5, 0x24fd),
     (0x24ff, 0x24ff), (0x2776, 0x277e), (0x2780, 0x2788), (0x278a, 0x2792), (0x10a40, 0x10a43), (0x10e60, 0x10e68),
     (0x11052, 0x1105a), (0x1f100, 0x1f10a)]"

definition isdigit :: "str \<Rightarrow> bool" where
  "isdigit s \<longleftrightarrow> s \<noteq> [] \<and> list_all (\<lambda>c. py_digit c \<noteq> None \<or> list_ex (\<lambda>(a, b). a \<le> c \<and> c \<le> b) other_digits) s"

text \<open>\<open>int(s)\<close>: a \<open>ValueError\<close> for a digit that is not decimal and for more than 4300 digits.\<close>

definition import_int :: "str \<Rightarrow> import_error + int" where
  "import_int s = (if length (filter (\<lambda>c. c \<noteq> 95) (strip s)) > 4300 then Inl ValueError
     else case py_int s of None \<Rightarrow> Inl ValueError | Some i \<Rightarrow> Inr i)"

text \<open>\<open>s.split()\<close> at runs of white space, \<open>s.partition(sep)\<close>, \<open>sep.join\<close> for a longer separator.\<close>

fun split_ws :: "str \<Rightarrow> str \<Rightarrow> str list" where
  "split_ws buf [] = (if buf = [] then [] else [buf])"
| "split_ws buf (c # cs) =
     (if py_isspace c then (if buf = [] then [] else [buf]) @ split_ws [] cs else split_ws (buf @ [c]) cs)"

definition words :: "str \<Rightarrow> str list" where "words s = split_ws [] s"

definition partition_at :: "nat \<Rightarrow> str \<Rightarrow> str \<times> bool \<times> str" where
  "partition_at sep s = (takeWhile (\<lambda>c. c \<noteq> sep) s, sep \<in> set s, tl (dropWhile (\<lambda>c. c \<noteq> sep) s))"

fun join_str :: "str \<Rightarrow> str list \<Rightarrow> str" where
  "join_str sep [] = []"
| "join_str sep [p] = p"
| "join_str sep (p # ps) = p @ sep @ join_str sep ps"

definition strip_chars :: "nat list \<Rightarrow> str \<Rightarrow> str" where
  "strip_chars cs s = rstrip_of (\<lambda>c. c \<in> set cs) (lstrip_of (\<lambda>c. c \<in> set cs) s)"

section \<open>The connection\<close>

datatype warning = Note string "str list" | Skipped warning

record conn =
  cn_name :: str
  cn_label :: str
  cn_v3 :: bool
  cn_enabled :: bool
  cn_device :: str
  cn_serial :: serial_settings
  cn_network :: network_settings
  cn_options :: mapping_options
  cn_xonxoff :: bool
  cn_rtscts :: bool
  cn_strings :: "(str \<times> str) list"
  cn_traces :: "(str \<times> str) list"
  cn_trace_mods :: "((str \<times> str) \<times> bool) list"
  cn_access_given :: bool
  cn_hold :: "warning option"
  cn_remctl :: bool
  cn_dropped :: "str list"
  cn_notes :: "warning list"
  cn_skipped :: "warning list"

definition new_conn :: "str \<Rightarrow> str \<Rightarrow> bool \<Rightarrow> conn" where
  "new_conn name label v3 = \<lparr>cn_name = name, cn_label = label, cn_v3 = v3, cn_enabled = True, cn_device = [],
     cn_serial = default_serial, cn_network = default_network\<lparr>ns_port := VInt 0\<rparr>, cn_options = default_options,
     cn_xonxoff = False, cn_rtscts = False, cn_strings = [], cn_traces = [], cn_trace_mods = [], cn_access_given = False,
     cn_hold = None, cn_remctl = False, cn_dropped = [], cn_notes = [], cn_skipped = []\<rparr>"

definition add_once :: "'a \<Rightarrow> 'a list \<Rightarrow> 'a list" where
  "add_once x xs = (if x \<in> set xs then xs else xs @ [x])"

definition add_note :: "warning \<Rightarrow> conn \<Rightarrow> conn" where
  "add_note msg c = c\<lparr>cn_notes := add_once msg (cn_notes c)\<rparr>"

definition skip_conn :: "warning \<Rightarrow> conn \<Rightarrow> conn" where
  "skip_conn why c = add_note (Skipped why) (c\<lparr>cn_skipped := add_once (Skipped why) (cn_skipped c)\<rparr>)"

definition drop_option :: "str \<Rightarrow> conn \<Rightarrow> conn" where
  "drop_option opt c = c\<lparr>cn_dropped := add_once opt (cn_dropped c)\<rparr>"

definition int_text :: "pyval \<Rightarrow> str" where
  "int_text v = (case as_int v of Some i \<Rightarrow> dec_str i | None \<Rightarrow> [])"

definition serial_text :: "conn \<Rightarrow> str" where
  "serial_text c = (let s = cn_serial c in int_text (ss_baudrate s) @ ss_parity s @ int_text (ss_bytesize s) @ int_text (ss_stopbits s))"

text \<open>\<open>to_dict\<close>, as the mapping that \<open>from_dict\<close> reads; the id is not in the dictionary.\<close>

definition conn_dict :: "conn \<Rightarrow> mapping_config" where
  "conn_dict c = \<lparr>mc_id = [], mc_name = cn_name c, mc_enabled = cn_enabled c, mc_kind = ascii ''net'',
     mc_serial = (cn_serial c)\<lparr>ss_port := cn_device c\<rparr>, mc_serial_b = default_serial, mc_network = cn_network c,
     mc_options = cn_options c, mc_mqtt = default_mqtt, mc_poll = default_poll\<rparr>"

section \<open>gensio strings\<close>

definition TRUE_WORDS :: "str list" where "TRUE_WORDS = [ascii ''true'', ascii ''yes'', ascii ''on'', ascii ''1'']"
definition FALSE_WORDS :: "str list" where "FALSE_WORDS = [ascii ''false'', ascii ''no'', ascii ''off'', ascii ''0'']"

definition bool_word :: "str \<Rightarrow> bool option" where
  "bool_word s = (let v = lower_kw (strip s) in if v \<in> set TRUE_WORDS then Some True else if v \<in> set FALSE_WORDS then Some False else None)"

text \<open>\<open>_split_gensio\<close>: the parts so far, the current part, the depth of the parentheses and the open quote.\<close>

fun gensio_loop :: "str \<Rightarrow> nat \<Rightarrow> nat option \<Rightarrow> str \<Rightarrow> str list" where
  "gensio_loop buf depth quote [] = [strip buf]"
| "gensio_loop buf depth quote (c # cs) =
     (case quote of
        Some q \<Rightarrow> gensio_loop (buf @ [c]) depth (if c = q then None else quote) cs
      | None \<Rightarrow>
          if c = 92 \<and> cs \<noteq> [] then gensio_loop (buf @ [c, hd cs]) depth None (tl cs)
          else if c = 34 \<or> c = 39 then gensio_loop (buf @ [c]) depth (Some c) cs
          else if c = 40 then gensio_loop (buf @ [c]) (depth + 1) None cs
          else if c = 41 then gensio_loop (buf @ [c]) (depth - 1) None cs
          else if c = 44 \<and> depth = 0 then strip buf # gensio_loop [] 0 None cs
          else gensio_loop (buf @ [c]) depth None cs)"

definition split_gensio :: "str \<Rightarrow> str list" where
  "split_gensio spec = filter (\<lambda>p. p \<noteq> []) (gensio_loop [] 0 None spec)"

definition layer_char :: "nat \<Rightarrow> bool" where
  "layer_char c \<longleftrightarrow> 65 \<le> c \<and> c \<le> 90 \<or> 97 \<le> c \<and> c \<le> 122 \<or> 48 \<le> c \<and> c \<le> 57 \<or> c = 95 \<or> c = 45"

definition layer :: "str \<Rightarrow> str \<times> str list" where
  "layer part =
     (let name = takeWhile layer_char part; rest = dropWhile py_isspace (dropWhile layer_char part) in
      if name \<noteq> [] \<and> length rest \<ge> 2 \<and> hd rest = 40 \<and> last rest = 41 then (name, split_gensio (butlast (tl rest)))
      else (part, []))"

section \<open>The listening side\<close>

text \<open>\<open>getservbyname\<close> is called with the stripped text; a NUL character in it is a \<open>ValueError\<close>.\<close>

definition port_number :: "(str \<Rightarrow> int option) \<Rightarrow> str \<Rightarrow> import_error + int option" where
  "port_number servbyname text =
     (let t = strip text in
      if isdigit t then rbind (import_int t) (\<lambda>n. Inr (if 1 \<le> n \<and> n \<le> 65535 then Some n else None))
      else if 0 \<in> set t then Inl ValueError else Inr (servbyname t))"

definition FAMILIES :: "str list" where "FAMILIES = [ascii ''ipv4'', ascii ''ipv6'', ascii ''ipv6n4'']"

fun drop_family :: "str \<Rightarrow> str list \<Rightarrow> str \<times> str list" where
  "drop_family family [] = (family, [])"
| "drop_family family (f # fs) = (if lower_kw f \<in> set FAMILIES then drop_family (lower_kw f) fs else (family, f # fs))"

fun is_loopback6 :: "ipaddr \<Rightarrow> bool" where
  "is_loopback6 (V6 n _) \<longleftrightarrow> n = 1"
| "is_loopback6 (V4 _) \<longleftrightarrow> False"

definition LOOPBACK4 :: str where "LOOPBACK4 = ascii ''127.0.0.1''"

definition bind_ip :: "str \<Rightarrow> str \<Rightarrow> conn \<Rightarrow> str \<times> conn" where
  "bind_ip host family c =
     (let h = strip_chars [91, 93] host in
      if h = [] then (if family = ascii ''ipv6'' then ascii ''::'' else ascii ''0.0.0.0'', c)
      else if lower_kw h = ascii ''localhost'' then (LOOPBACK4, c)
      else case ip_address h of
        Some ip \<Rightarrow>
          if is_loopback6 ip then (LOOPBACK4, add_note (Note ''Ipv6Loopback'' [host]) c)
          else if \<not> is_multicast ip \<and> \<not> (is_reserved ip \<and> \<not> is_any_address ip) then (ip_text ip, c)
          else (ascii ''0.0.0.0'', c\<lparr>cn_hold := Some (Note ''BadListenAddress'' [host])\<rparr>)
      | None \<Rightarrow> (ascii ''0.0.0.0'', c\<lparr>cn_hold := Some (Note ''BadListenAddress'' [host])\<rparr>))"

definition set_network :: "(network_settings \<Rightarrow> network_settings) \<Rightarrow> conn \<Rightarrow> conn" where
  "set_network f c = c\<lparr>cn_network := f (cn_network c)\<rparr>"

definition set_serial :: "(serial_settings \<Rightarrow> serial_settings) \<Rightarrow> conn \<Rightarrow> conn" where
  "set_serial f c = c\<lparr>cn_serial := f (cn_serial c)\<rparr>"

definition set_options :: "(mapping_options \<Rightarrow> mapping_options) \<Rightarrow> conn \<Rightarrow> conn" where
  "set_options f c = c\<lparr>cn_options := f (cn_options c)\<rparr>"

definition listen_address :: "(str \<Rightarrow> int option) \<Rightarrow> str list \<Rightarrow> conn \<Rightarrow> import_error + bool \<times> conn" where
  "listen_address servbyname raw c =
     (let (family, fields) = drop_family [] (filter (\<lambda>f. f \<noteq> []) (map strip raw)) in
      case fields of
        [] \<Rightarrow> Inr (False, skip_conn (Note ''AccepterNoPort'' []) c)
      | f # rest \<Rightarrow>
          let (host, port_s) = (case rest of [] \<Rightarrow> ([], f) | p # _ \<Rightarrow> (f, p));
              c1 = (if length fields > 2 then add_note (Note ''FirstListenOnly'' [join_with 44 (take 2 fields)]) c else c) in
          rbind (port_number servbyname port_s) (\<lambda>port.
            case port of
              None \<Rightarrow> Inr (False, skip_conn (Note ''BadListenPort'' [port_s]) c1)
            | Some p \<Rightarrow>
                let (ip, c2) = bind_ip host family (set_network (\<lambda>n. n\<lparr>ns_port := VInt p\<rparr>) c1) in
                Inr (True, set_network (\<lambda>n. n\<lparr>ns_bind_ip := ip\<rparr>) c2)))"

definition NET_TERMINALS :: "str list" where "NET_TERMINALS = [ascii ''tcp'', ascii ''udp'', ascii ''sctp'']"

definition OTHER_TERMINALS :: "str list" where
  "OTHER_TERMINALS = map ascii [''unix'', ''unixdgram'', ''stdio'', ''pty'', ''file'', ''echo'', ''dummy'', ''conacc'', ''ipmisol'',
     ''serialdev'', ''sdev'', ''dev'', ''sound'', ''mdns'', ''net'', ''telnet'', ''ssl'', ''certauth'', ''mux'']"

definition asks_rfc2217 :: "str \<Rightarrow> bool" where
  "asks_rfc2217 opt = (let (name, eq, v) = partition_at 61 opt in
     lower_kw (strip name) = ascii ''rfc2217'' \<and> bool_word (if eq then v else ascii ''true'') = Some True)"

fun accepter_loop :: "(str \<Rightarrow> int option) \<Rightarrow> str \<Rightarrow> str list \<Rightarrow> conn \<Rightarrow> import_error + bool \<times> conn" where
  "accepter_loop servbyname spec [] c = Inr (False, skip_conn (Note ''AccepterNotNet'' [spec]) c)"
| "accepter_loop servbyname spec (part # rest) c =
     (let (name, opts) = layer part; low = lower_kw name in
      if low \<in> set NET_TERMINALS then
        listen_address servbyname rest
          (if low = ascii ''udp'' then set_network (\<lambda>n. n\<lparr>ns_mode := ascii ''udp''\<rparr>) c
           else if low = ascii ''sctp'' then add_note (Note ''SctpAsTcp'' []) c else c)
      else if low = ascii ''telnet'' then
        accepter_loop servbyname spec rest
          (set_network (\<lambda>n. n\<lparr>ns_protocol := (if list_ex asks_rfc2217 opts then ascii ''rfc2217'' else ascii ''telnet'')\<rparr>) c)
      else if low = ascii ''ssl'' then accepter_loop servbyname spec rest (add_note (Note ''TlsNotImported'' []) c)
      else if low = ascii ''certauth'' then accepter_loop servbyname spec rest (add_note (Note ''CertauthNotImported'' []) c)
      else if low = ascii ''mux'' then accepter_loop servbyname spec rest c
      else if low \<in> set OTHER_TERMINALS then Inr (False, skip_conn (Note ''AccepterNotNet'' [spec]) c)
      else accepter_loop servbyname spec rest (add_note (Note ''AccepterLayer'' [name]) c))"

definition accepter :: "(str \<Rightarrow> int option) \<Rightarrow> str \<Rightarrow> conn \<Rightarrow> import_error + bool \<times> conn" where
  "accepter servbyname spec c = accepter_loop servbyname spec (split_gensio spec) c"

section \<open>The device side\<close>

text \<open>Letters as \<open>re.I\<close> compares them: the long s is an s.\<close>

definition re_fold :: "nat \<Rightarrow> nat" where
  "re_fold c = (if c = 0x17F then 115 else hd (lower_kw [c]))"

definition upper_ascii :: "str \<Rightarrow> str" where
  "upper_ascii s = map (\<lambda>c. if 97 \<le> c \<and> c \<le> 122 then c - 32 else c) s"

definition decimal :: "nat \<Rightarrow> bool" where
  "decimal c \<longleftrightarrow> py_digit c \<noteq> None"

text \<open>The groups of \<open>_SPEED\<close>: digits, parity, data bits and stop bits; an absent group is empty. The digits are taken greedily:
  with fewer of them the rest of the pattern cannot reach the end of the text.\<close>

definition optional :: "(nat \<Rightarrow> bool) \<Rightarrow> str \<Rightarrow> str \<times> str" where
  "optional p s = (case s of c # cs \<Rightarrow> if p c then ([c], cs) else ([], s) | [] \<Rightarrow> ([], []))"

definition speed_match :: "str \<Rightarrow> (str \<times> str \<times> str \<times> str) option" where
  "speed_match tok =
     (let t = (if map re_fold (take 6 tok) = ascii ''speed='' then drop 6 tok else tok);
          digits = takeWhile decimal t;
          (parity, r1) = optional (\<lambda>c. re_fold c \<in> set (ascii ''neoms'')) (dropWhile decimal t);
          (bits, r2) = optional (\<lambda>c. 53 \<le> c \<and> c \<le> 56) r1;
          (stops, r3) = optional (\<lambda>c. c = 49 \<or> c = 50) r2 in
      if digits \<noteq> [] \<and> r3 = [] then Some (digits, upper_ascii (map re_fold parity), bits, stops) else None)"

definition windows_device :: "str \<Rightarrow> str" where
  "windows_device d =
     (if (take 4 d = [92, 92, 46, 92] \<or> take 4 d = [47, 47, 46, 47]) \<and> lower_kw (take 3 (drop 4 d)) = ascii ''com''
        \<and> drop 7 d \<noteq> [] \<and> list_all decimal (drop 7 d) then upper_ascii (drop 4 d) else d)"

definition SERIAL_FLAGS :: "str list" where
  "SERIAL_FLAGS = map ascii [''xonxoff'', ''rtscts'', ''hangup-when-done'', ''hangup_when_done'', ''hupcl'', ''nobreak'', ''rdonly'', ''local'']"

definition digit_value :: "str \<Rightarrow> pyval" where
  "digit_value s = VInt (int (hd s) - 48)"

definition apply_speed :: "int \<Rightarrow> str \<Rightarrow> str \<Rightarrow> str \<Rightarrow> serial_settings \<Rightarrow> serial_settings" where
  "apply_speed baud parity bits stops s =
     s\<lparr>ss_baudrate := VInt baud, ss_parity := (if parity \<noteq> [] then parity else ss_parity s),
       ss_bytesize := (if bits \<noteq> [] then digit_value bits else ss_bytesize s),
       ss_stopbits := (if stops \<noteq> [] then digit_value stops else ss_stopbits s)\<rparr>"

text \<open>The option \<open>low\<close> with its flag and value.\<close>

definition serial_flag :: "str \<Rightarrow> str \<Rightarrow> bool \<Rightarrow> str \<Rightarrow> conn \<Rightarrow> conn" where
  "serial_flag tok low flag v c =
     (if low = ascii ''xonxoff'' then c\<lparr>cn_xonxoff := flag\<rparr>
      else if low = ascii ''rtscts'' then c\<lparr>cn_rtscts := flag\<rparr>
      else if low \<in> set [ascii ''hangup-when-done'', ascii ''hangup_when_done'', ascii ''hupcl''] then
        set_serial (\<lambda>s. s\<lparr>ss_hangup_when_done := flag\<rparr>) c
      else if low = ascii ''nobreak'' then set_serial (\<lambda>s. s\<lparr>ss_nobreak := flag\<rparr>) c
      else if low = ascii ''dtr'' \<or> low = ascii ''rts'' then
        (let state = (if flag then lower_kw (strip (if v \<noteq> [] then v else ascii ''on'')) else ascii ''off'') in
         if state = ascii ''on'' \<or> state = ascii ''off'' then
           set_serial (\<lambda>s. if low = ascii ''dtr'' then s\<lparr>ss_dtr_on_open := state\<rparr> else s\<lparr>ss_rts_on_open := state\<rparr>) c
         else add_note (Note ''NotOnOff'' [tok]) c)
      else if low = ascii ''rs485'' then
        (if lower_kw (strip v) \<in> set [[], ascii ''off''] then c else add_note (Note ''Rs485NotImported'' [tok]) c)
      else if low = ascii ''rdonly'' then (if flag then set_network (\<lambda>n. n\<lparr>ns_read_only := True\<rparr>) c else c)
      else if low = ascii ''local'' \<and> \<not> flag then add_note (Note ''LocalNotImported'' []) c
      else c)"

definition serial_option :: "str \<Rightarrow> conn \<Rightarrow> import_error + conn" where
  "serial_option tok c =
     (case speed_match tok of
        Some (digits, parity, bits, stops) \<Rightarrow>
          rbind (import_int digits) (\<lambda>baud. Inr (set_serial (apply_speed baud parity bits stops) c))
      | None \<Rightarrow>
          let (name, eq, v) = partition_at 61 tok;
              l = lower_kw name;
              (low, flag) = (if take 1 l = [45] then (drop 1 l, False) else (l, True)) in
          if low \<notin> set (SERIAL_FLAGS @ [ascii ''dtr'', ascii ''rts'', ascii ''rs485'']) then
            Inr (if low \<in> set (map ascii [''custspeed'', ''uucplock'', ''flock'', ''readbuf'']) then c else drop_option tok c)
          else if eq \<and> flag \<and> low \<in> set SERIAL_FLAGS then
            Inr (case bool_word v of
                   None \<Rightarrow> add_note (Note ''NoBoolValue'' [tok]) c
                 | Some b \<Rightarrow> serial_flag tok low b v c)
          else Inr (serial_flag tok low flag v c))"

fun connector_loop :: "str \<Rightarrow> str list \<Rightarrow> str list \<Rightarrow> conn \<Rightarrow> import_error + bool \<times> conn" where
  "connector_loop spec defaults [] c = Inr (False, skip_conn (Note ''ConnectorNotSerial'' [spec]) c)"
| "connector_loop spec defaults (part # rest) c =
     (let (name, opts) = layer part; low = lower_kw name in
      if low \<in> set [ascii ''serialdev'', ascii ''sdev'', ascii ''dev''] then
        (case concat (map words rest) of
           [] \<Rightarrow> Inr (False, skip_conn (Note ''NoDevice'' []) c)
         | device # tokens \<Rightarrow>
             let c1 = c\<lparr>cn_device := windows_device device\<rparr>;
                 c2 = (if low = ascii ''dev'' then add_note (Note ''DevAsSerial'' []) c1 else c1) in
             rbind (rfold (\<lambda>c tok. serial_option tok c) c2 (defaults @ opts @ tokens)) (\<lambda>c3. Inr (True, c3)))
      else if low \<in> set NET_TERMINALS \<or> low \<in> set OTHER_TERMINALS then
        Inr (False, skip_conn (Note ''ConnectorNotSerial'' [spec]) c)
      else connector_loop spec defaults rest (add_note (Note ''ConnectorLayer'' [name]) c))"

definition connector :: "str \<Rightarrow> str list \<Rightarrow> conn \<Rightarrow> import_error + bool \<times> conn" where
  "connector spec defaults c = connector_loop spec defaults (split_gensio spec) c"

section \<open>Text escapes\<close>

definition C_ESCAPES :: "(nat \<times> nat) list" where
  "C_ESCAPES = [(97, 7), (98, 8), (102, 12), (116, 9), (118, 11), (92, 92), (63, 63), (39, 39), (34, 34)]"

definition TIME_ESCAPES :: "nat list" where "TIME_ESCAPES = ascii ''YyMmADeUHhiSqPT''"

text \<open>The mark of a dropped escape, U+E000.\<close>

definition GONE :: nat where "GONE = 0xE000"

definition octal :: "nat \<Rightarrow> bool" where "octal c \<longleftrightarrow> 48 \<le> c \<and> c \<le> 55"

text \<open>The group of \<open>_ESCAPE\<close> and what follows it, for the text after a backslash.\<close>

definition escape_at :: "str \<Rightarrow> (str \<times> str) option" where
  "escape_at s =
     (case s of
        [] \<Rightarrow> None
      | c # cs \<Rightarrow>
          let hex = takeWhile (\<lambda>d. hex_digit d \<noteq> None) (take 2 cs); oct = takeWhile octal (take 3 s) in
          if c = 120 \<and> hex \<noteq> [] then Some (c # hex, drop (length hex) cs)
          else if oct \<noteq> [] then Some (oct, drop (length oct) s)
          else Some ([c], cs))"

datatype text_kind = Banner | Raw_bytes | File_name

definition base_name :: "str \<Rightarrow> str" where
  "base_name s = rev (takeWhile (\<lambda>c. c \<noteq> 47) (rev s))"

text \<open>\<open>one\<close>: the replacement, and whether the escape is written as fixed text or dropped.\<close>

definition escape_text :: "conn \<Rightarrow> text_kind \<Rightarrow> str \<Rightarrow> str \<times> bool \<times> bool" where
  "escape_text c kind e =
     (let ch = hd e in
      if ch = 120 \<and> length e > 1 then ([case hex_value 0 (tl e) of Some v \<Rightarrow> v | None \<Rightarrow> 0], False, False)
      else if octal ch then ([foldl (\<lambda>n d. n * 8 + (d - 48)) 0 e mod 256], False, False)
      else case map_of C_ESCAPES ch of
        Some v \<Rightarrow> ([v], False, False)
      | None \<Rightarrow>
          if ch = 114 \<or> ch = 110 then (if kind = Banner then [92, ch] else if ch = 114 then [13] else [10], False, False)
          else if ch = 100 \<or> ch = 111 then
            (case kind of Banner \<Rightarrow> [92, 100] | File_name \<Rightarrow> base_name (cn_device c) | Raw_bytes \<Rightarrow> cn_device c, False, False)
          else if ch = 112 then (if kind = Banner then [92, 112] else int_text (ns_port (cn_network c)), False, False)
          else if ch = 78 \<and> \<not> cn_v3 c then (if kind = Banner then [92, 78] else cn_name c, False, False)
          else if ch = 73 \<and> kind = Banner then ([92, 73], False, False)
          else if ch = 66 \<or> ch = 115 \<and> kind \<noteq> File_name then (serial_text c, True, False)
          else if ch \<in> set TIME_ESCAPES \<or> ch = 73 \<or> ch = 115 then ([GONE], False, True)
          else ([ch], False, False))"

text \<open>\<open>_ESCAPE.sub(one, text)\<close>: the text, the fixed and the dropped escapes in order.\<close>

function convert_loop :: "conn \<Rightarrow> text_kind \<Rightarrow> str \<Rightarrow> str \<times> str list \<times> str list" where
  "convert_loop c kind s =
     (case s of
        [] \<Rightarrow> ([], [], [])
      | x # xs \<Rightarrow>
          (case (if x = 92 then escape_at xs else None) of
             None \<Rightarrow> (let (out, fixed, dropped) = convert_loop c kind xs in (x # out, fixed, dropped))
           | Some (e, rest) \<Rightarrow>
               (let (t, is_fixed, is_dropped) = escape_text c kind e; (out, fixed, dropped) = convert_loop c kind rest in
                (t @ out, (if is_fixed then [[92, hd e]] else []) @ fixed, (if is_dropped then [[92, hd e]] else []) @ dropped))))"
  by pat_completeness auto

lemma escape_shorter: "escape_at s = Some (e, r) \<Longrightarrow> length r < length s"
  by (auto simp: escape_at_def Let_def split: list.splits if_splits)

termination convert_loop
  by (relation "measure (\<lambda>(c, kind, s). length s)") (auto dest!: escape_shorter split: if_splits)

declare convert_loop.simps [simp del]

fun drop_gone :: "bool \<Rightarrow> str \<Rightarrow> str" where
  "drop_gone with_sep [] = []"
| "drop_gone with_sep (c # cs) =
     (if c = GONE then drop_gone with_sep cs
      else if with_sep \<and> c \<in> set (ascii ''-_.: '') \<and> take 1 cs = [GONE] then drop_gone with_sep (tl cs)
      else c # drop_gone with_sep cs)"

text \<open>\<open>s.replace(old, new)\<close> for one character.\<close>

definition replace_char :: "nat \<Rightarrow> str \<Rightarrow> str \<Rightarrow> str" where
  "replace_char old new s = concat (map (\<lambda>c. if c = old then new else [c]) s)"

fun each_first :: "'a list \<Rightarrow> 'a list" where
  "each_first [] = []"
| "each_first (x # xs) = x # each_first (filter (\<lambda>y. y \<noteq> x) xs)"

definition convert :: "text_kind \<Rightarrow> str \<Rightarrow> str \<Rightarrow> conn \<Rightarrow> str \<times> conn" where
  "convert kind what text c =
     (let t = (if kind = Banner then replace_char 10 [92, 110] (replace_char 13 [92, 114] text) else text);
          (raw, fixed, dropped) = convert_loop c kind t;
          out = drop_gone (kind = File_name) raw;
          c1 = (if fixed \<noteq> [] then add_note (Note ''FixedText'' [what, join_with 47 (each_first fixed), serial_text c]) c else c);
          c2 = (if dropped \<noteq> [] then
                  add_note (Note (if kind = File_name then ''FileNameParts'' else ''NotSupported'') [what, join_with 32 (each_first dropped)]) c1
                else c1) in
      (out, c2))"

section \<open>Connection options\<close>

definition TRACE_MODS :: "(str \<times> str \<times> str) list" where
  "TRACE_MODS = concat (map (\<lambda>m. (ascii (''trace-'' @ m), ascii ''all'', ascii m) #
      map (\<lambda>d. (ascii (''trace-'' @ d @ ''-'' @ m), ascii d, ascii m)) [''both'', ''read'', ''write'']) [''hexdump'', ''timestamp''])"

definition flag_of :: "str \<Rightarrow> str \<Rightarrow> conn \<Rightarrow> bool option \<times> conn" where
  "flag_of key v c = (let b = bool_word v in (b, if b = None then add_note (Note ''NotTrueFalse'' [key, v]) c else c))"

definition idle_timeout :: "str \<Rightarrow> conn \<Rightarrow> import_error + conn" where
  "idle_timeout text c =
     (let v = strip text in
      if isdigit v then
        rbind (import_int v) (\<lambda>n.
          let c1 = set_options (\<lambda>m. m\<lparr>mo_idle_timeout_s := VInt (min n MAX_TIMER_S)\<rparr>) c in
          Inr (if n > MAX_TIMER_S then add_note (Note ''TimeoutTooLong'' [v, dec_str MAX_TIMER_S]) c1 else c1))
      else Inr (if v \<noteq> [] then add_note (Note ''TimeoutNotNumber'' [text]) c else c))"

text \<open>\<open>re.split(r"[;\s]+", value.strip())\<close> without the empty entries.\<close>

definition access_entries :: "str \<Rightarrow> str list" where
  "access_entries v = words (map (\<lambda>c. if c = 59 then 32 else c) v)"

definition ACCESS_PREFIXES :: "str list" where "ACCESS_PREFIXES = FAMILIES @ NET_TERMINALS"

definition access_entry :: "conn \<Rightarrow> str \<Rightarrow> conn" where
  "access_entry c entry =
     (if take 1 entry = [33] then add_note (Note ''ConnectBack'' [entry]) c
      else
        let fields = dropWhile (\<lambda>f. lower_kw f \<in> set ACCESS_PREFIXES) (filter (\<lambda>f. f \<noteq> []) (map strip (split_on 44 entry)));
            host = (case fields of [] \<Rightarrow> [] | h # _ \<Rightarrow> h) in
        if ip_network host = None then add_note (Note ''RemaddrNotIp'' [entry]) c
        else
          let c1 = (if length fields > 1 \<and> fields ! 1 \<noteq> ascii ''0'' then add_note (Note ''RemaddrPort'' [entry]) c else c) in
          set_network (\<lambda>n. n\<lparr>ns_allowed_client_ips := add_once host (ns_allowed_client_ips n)\<rparr>) c1)"

definition remaddr :: "str \<Rightarrow> conn \<Rightarrow> conn" where
  "remaddr v c = foldl access_entry (c\<lparr>cn_access_given := True\<rparr>) (access_entries v)"

definition conn_option :: "str \<Rightarrow> str \<Rightarrow> conn \<Rightarrow> import_error + conn" where
  "conn_option key v c =
     (let k = lower_kw (strip key) in
      if k = ascii ''timeout'' \<or> k = ascii ''connection timeout'' then idle_timeout v c
      else if k = ascii ''kickolduser'' then
        Inr (let (b, c1) = flag_of key v c in
             case b of Some x \<Rightarrow> set_network (\<lambda>n. n\<lparr>ns_kick_old_user := x\<rparr>) c1 | None \<Rightarrow> c1)
      else if k = ascii ''max-connections'' then
        (if isdigit (strip v) then
           rbind (import_int (strip v)) (\<lambda>n.
             Inr (if 1 \<le> n then set_network (\<lambda>s. s\<lparr>ns_max_connections := VInt n\<rparr>) c else add_note (Note ''MaxConnections'' [v]) c))
         else Inr (add_note (Note ''MaxConnections'' [v]) c))
      else if k \<in> set (map ascii [''banner'', ''openstr'', ''closestr'', ''closeon'']) then
        Inr (c\<lparr>cn_strings := AList.update k v (cn_strings c)\<rparr>)
      else if k \<in> set (map ascii [''trace-both'', ''trace-read'', ''trace-write'']) then
        Inr (if strip v \<noteq> [] then c\<lparr>cn_traces := AList.update (drop 6 k) (strip v) (cn_traces c)\<rparr> else c)
      else case map_of TRACE_MODS k of
        Some (direction, what) \<Rightarrow>
          Inr (let (b, c1) = flag_of key v c in
               case b of Some x \<Rightarrow> c1\<lparr>cn_trace_mods := AList.update (direction, what) x (cn_trace_mods c1)\<rparr> | None \<Rightarrow> c1)
      | None \<Rightarrow>
          if k = ascii ''remaddr'' then Inr (remaddr v c)
          else if k = ascii ''no-acc-to-con'' then
            Inr (let (b, c1) = flag_of key v c in if b = Some True then set_network (\<lambda>n. n\<lparr>ns_read_only := True\<rparr>) c1 else c1)
          else if k = ascii ''telnet-brk-on-sync'' then
            Inr (if bool_word v = Some True \<and> ns_protocol (cn_network c) \<noteq> ascii ''raw'' then drop_option key c else c)
          else if k = ascii ''chardelay'' then Inr c
          else Inr (drop_option key c))"

section \<open>The end of a connection\<close>

definition flow_control :: "conn \<Rightarrow> conn" where
  "flow_control c =
     set_serial (\<lambda>s. s\<lparr>ss_flowcontrol := (if cn_rtscts c then ascii ''rtscts'' else if cn_xonxoff c then ascii ''xonxoff'' else ascii ''none'')\<rparr>)
       (if cn_rtscts c \<and> cn_xonxoff c then add_note (Note ''TwoFlowControls'' []) c else c)"

definition fix_protocol :: "conn \<Rightarrow> conn" where
  "fix_protocol c =
     (let c1 = (if ns_mode (cn_network c) = ascii ''udp'' \<and> ns_protocol (cn_network c) \<noteq> ascii ''raw''
                then set_network (\<lambda>n. n\<lparr>ns_protocol := ascii ''raw''\<rparr>) (add_note (Note ''ProtocolOverUdp'' [ns_protocol (cn_network c)]) c)
                else c) in
      if ns_protocol (cn_network c1) = ascii ''rfc2217'' \<and> (case as_int (ns_max_connections (cn_network c1)) of Some n \<Rightarrow> 1 < n | None \<Rightarrow> False)
      then set_network (\<lambda>n. n\<lparr>ns_max_connections := VInt 1\<rparr>) (add_note (Note ''Rfc2217Single'' []) c1)
      else c1)"

definition set_text :: "str \<Rightarrow> str \<Rightarrow> mapping_options \<Rightarrow> mapping_options" where
  "set_text key v m =
     (if key = ascii ''banner'' then m\<lparr>mo_banner := v\<rparr> else if key = ascii ''openstr'' then m\<lparr>mo_openstr := v\<rparr>
      else if key = ascii ''closestr'' then m\<lparr>mo_closestr := v\<rparr> else m\<lparr>mo_closeon := v\<rparr>)"

definition convert_text :: "conn \<Rightarrow> str \<Rightarrow> conn" where
  "convert_text c key =
     (case map_of (cn_strings c) key of
        None \<Rightarrow> c
      | Some v \<Rightarrow>
          let (t, c1) = convert (if key = ascii ''banner'' then Banner else Raw_bytes) key v c in set_options (set_text key t) c1)"

definition trace_label :: "bool \<Rightarrow> str \<Rightarrow> str" where
  "trace_label v3 kind = (if v3 then (if kind = ascii ''both'' then ascii ''tb'' else if kind = ascii ''read'' then ascii ''tr'' else ascii ''tw'')
     else ascii ''trace-'' @ kind)"

definition trace_mod :: "str \<Rightarrow> str \<Rightarrow> conn \<Rightarrow> bool option" where
  "trace_mod kind what c =
     (case map_of (cn_trace_mods c) (kind, what) of Some b \<Rightarrow> Some b | None \<Rightarrow> map_of (cn_trace_mods c) (ascii ''all'', what))"

definition trace_file :: "(nat \<Rightarrow> bool) \<Rightarrow> str \<Rightarrow> str \<Rightarrow> conn \<Rightarrow> conn" where
  "trace_file isword kind pattern c =
     (let (path, c1) = convert File_name (trace_label (cn_v3 c) kind) pattern c; name = trace_file_name isword path in
      if name = [] then c1
      else
        let d = set_options (\<lambda>m. m\<lparr>mo_trace_both := path\<rparr>) c1;
            d1 = (if kind \<noteq> ascii ''both'' then add_note (Note ''BothTraced'' [trace_label (cn_v3 c) kind]) d else d) in
        if name \<noteq> path then add_note (Note ''TraceFile'' [name, path]) d1 else d1)"

definition other_traces :: "str \<Rightarrow> conn \<Rightarrow> conn" where
  "other_traces kind c =
     foldl (\<lambda>c other. if other \<noteq> kind then add_note (Note ''OneTrace'' [trace_label (cn_v3 c) other]) c else c) c (map fst (cn_traces c))"

definition trace_flag :: "str \<Rightarrow> string \<Rightarrow> (bool \<Rightarrow> mapping_options \<Rightarrow> mapping_options) \<Rightarrow> conn \<Rightarrow> conn" where
  "trace_flag kind what setter c = (case trace_mod kind (ascii what) c of Some b \<Rightarrow> set_options (setter b) c | None \<Rightarrow> c)"

definition trace_options :: "(nat \<Rightarrow> bool) \<Rightarrow> str \<Rightarrow> str \<Rightarrow> conn \<Rightarrow> conn" where
  "trace_options isword kind pattern c =
     trace_flag kind ''timestamp'' (\<lambda>b m. m\<lparr>mo_trace_timestamp := b\<rparr>)
       (trace_flag kind ''hexdump'' (\<lambda>b m. m\<lparr>mo_trace_hexdump := b\<rparr>) (other_traces kind (trace_file isword kind pattern c)))"

definition hold_access :: "conn \<Rightarrow> conn" where
  "hold_access c =
     (let c1 = (if cn_access_given c \<and> ns_allowed_client_ips (cn_network c) = [] then c\<lparr>cn_hold := Some (Note ''RemaddrNotImported'' [])\<rparr> else c) in
      case cn_hold c1 of Some why \<Rightarrow> add_note why (c1\<lparr>cn_enabled := False\<rparr>) | None \<Rightarrow> c1)"

definition finish :: "(nat \<Rightarrow> bool) \<Rightarrow> conn \<Rightarrow> conn" where
  "finish isword c =
     (let c1 = foldl convert_text (fix_protocol (flow_control c)) (map ascii [''banner'', ''openstr'', ''closestr'', ''closeon'']);
          c2 = (case find (\<lambda>k. map_of (cn_traces c1) k \<noteq> None) (map ascii [''both'', ''read'', ''write'']) of
                  None \<Rightarrow> c1
                | Some kind \<Rightarrow> (case map_of (cn_traces c1) kind of Some pattern \<Rightarrow> trace_options isword kind pattern c1 | None \<Rightarrow> c1));
          c3 = hold_access c2 in
      if cn_dropped c3 \<noteq> [] then add_note (Note ''NoEquivalent'' [join_str (ascii '', '') (cn_dropped c3)]) c3 else c3)"

definition conn_warnings :: "bool \<Rightarrow> conn \<Rightarrow> (str \<times> warning) list" where
  "conn_warnings imported c = map (\<lambda>n. (cn_label c, n)) (if imported then cn_notes c else cn_skipped c)"

end
