(* ===== verification/Ser2net_V3.thy ===== *)
theory Ser2net_V3
  imports Ser2net_Conn
begin

text \<open>
  \<open>app/ser2net_import.py\<close>, the configuration format of ser2net 3.x: logical lines, directives, and one connection per line
  \<open>port:state:timeout:device:options\<close>.
\<close>

section \<open>Lines\<close>

text \<open>A round of the loop: the lines so far, the text of a continued line and its number.\<close>

definition v3_line :: "(int \<times> str) list \<times> str \<times> int \<Rightarrow> int \<times> str \<Rightarrow> (int \<times> str) list \<times> str \<times> int" where
  "v3_line st numbered =
     (let (out, buf, start) = st; (n, line) = numbered in
      if buf = [] \<and> (strip line = [] \<or> take 1 (lstrip_of py_isspace line) = [35]) then st
      else
        let (start', line') = (if buf = [] then (n, lstrip_of py_isspace line) else (start, line)) in
        if line' \<noteq> [] \<and> last line' = 92 then (out, buf @ butlast line', start')
        else (out @ [(start', buf @ line')], [], start'))"

definition number_lines :: "str list \<Rightarrow> (int \<times> str) list" where
  "number_lines ls = zip (map int [1 ..< length ls + 1]) ls"

definition v3_lines :: "str \<Rightarrow> (int \<times> str) list" where
  "v3_lines text =
     (let (out, buf, start) = foldl v3_line ([], [], 0) (number_lines (split_on 10 text)) in
      if buf \<noteq> [] then out @ [(start, buf)] else out)"

definition V3_STATES :: "str list" where "V3_STATES = [ascii ''rawlp'', ascii ''raw'', ascii ''telnet'', ascii ''off'']"

text \<open>\<open>_V3_STATE.search\<close>: the text before the match, the state, the text after it.\<close>

fun v3_state :: "str \<Rightarrow> str \<Rightarrow> (str \<times> str \<times> str) option" where
  "v3_state before [] = None"
| "v3_state before (c # cs) =
     (case (if c = 58 then find (\<lambda>s. is_prefix_of (s @ [58]) cs) V3_STATES else None) of
        Some s \<Rightarrow> Some (before, s, drop (length s + 1) cs)
      | None \<Rightarrow> v3_state (before @ [c]) cs)"

definition V3_DIRECTIVES :: "str list" where
  "V3_DIRECTIVES = map ascii [''BANNER'', ''SIGNATURE'', ''OPENSTR'', ''CLOSESTR'', ''CLOSEON'', ''DEVICE'', ''TRACEFILE'', ''CONTROLPORT'',
     ''RS485CONF'', ''DEFAULT'', ''ROTATOR'', ''LED'']"

definition v3_directive :: "str \<Rightarrow> (str \<times> str) option" where
  "v3_directive line = (let (kind, colon, rest) = partition_at 58 line in
     if colon \<and> kind \<in> set V3_DIRECTIVES then Some (kind, rest) else None)"

definition V3_PARITY :: "(str \<times> str) list" where
  "V3_PARITY = map (\<lambda>(k, v). (ascii k, ascii v))
     [(''NONE'', ''N''), (''EVEN'', ''E''), (''ODD'', ''O''), (''MARK'', ''M''), (''SPACE'', ''S''),
      (''none'', ''N''), (''even'', ''E''), (''odd'', ''O''), (''mark'', ''M''), (''space'', ''S'')]"

definition V3_TRACE :: "(str \<times> str) list" where
  "V3_TRACE = [(ascii ''tr'', ascii ''read''), (ascii ''tw'', ascii ''write''), (ascii ''tb'', ascii ''both'')]"

definition V3_IGNORED_DEFAULTS :: "str list" where
  "V3_IGNORED_DEFAULTS = map ascii [''local'', ''chardelay'', ''telnet_brk_on_sync'']"

definition V3_DEFAULTS :: "str list" where
  "V3_DEFAULTS = map ascii [''speed'', ''databits'', ''stopbits'', ''parity'', ''xonxoff'', ''rtscts'', ''hangup_when_done'', ''nobreak'',
     ''remctl'', ''kickolduser'', ''max-connections'', ''remaddr'']"

text \<open>\<open>str.upper()\<close> as far as a comparison with ASCII keywords sees it.\<close>

definition upper_kw :: "str \<Rightarrow> str" where
  "upper_kw s = upper_ascii (concat (map (\<lambda>c. case map_of [(0xDF, ''SS''), (0x131, ''I''), (0x17F, ''S''), (0xFB00, ''FF''), (0xFB01, ''FI''),
      (0xFB02, ''FL''), (0xFB03, ''FFI''), (0xFB04, ''FFL''), (0xFB05, ''ST''), (0xFB06, ''ST'')] c of Some t \<Rightarrow> ascii t | None \<Rightarrow> [c]) s))"

section \<open>Directives\<close>

record v3 =
  v3_strings :: "(str \<times> str \<times> str) list"
  v3_devices :: "(str \<times> str) list"
  v3_tracefiles :: "(str \<times> str) list"
  v3_defaults :: "(str \<times> str) list"
  v3_warnings :: "(str \<times> warning) list"
  v3_conns :: "conn list"

definition v3_init :: v3 where
  "v3_init = \<lparr>v3_strings = [], v3_devices = [], v3_tracefiles = [], v3_defaults = [], v3_warnings = [], v3_conns = []\<rparr>"

text \<open>A warning about the file has no connection's label.\<close>

definition v3_warn :: "warning \<Rightarrow> v3 \<Rightarrow> v3" where
  "v3_warn w p = p\<lparr>v3_warnings := v3_warnings p @ [([], w)]\<rparr>"

definition directive :: "int \<Rightarrow> str \<Rightarrow> str \<Rightarrow> v3 \<Rightarrow> v3" where
  "directive n kind rest p =
     (let (name, colon, v) = partition_at 58 rest in
      if kind = ascii ''CONTROLPORT'' then v3_warn (Note ''ControlPort'' [dec_str n, strip rest]) p
      else if kind = ascii ''DEFAULT'' then
        (if name \<in> set (V3_IGNORED_DEFAULTS @ V3_DEFAULTS) then p\<lparr>v3_defaults := AList.update name (strip v) (v3_defaults p)\<rparr>
         else v3_warn (Note ''DefaultNotImported'' [dec_str n, name]) p)
      else if kind = ascii ''DEVICE'' then p\<lparr>v3_devices := AList.update name (strip v) (v3_devices p)\<rparr>
      else if kind = ascii ''TRACEFILE'' then p\<lparr>v3_tracefiles := AList.update name (strip v) (v3_tracefiles p)\<rparr>
      else if kind \<in> set (map ascii [''LED'', ''SIGNATURE'', ''ROTATOR'']) then
        (let p1 = v3_warn (Note ''DirectiveNotSupported'' [dec_str n, kind, name]) p in p1\<lparr>v3_strings := AList.update name (kind, v) (v3_strings p1)\<rparr>)
      else p\<lparr>v3_strings := AList.update name (kind, v) (v3_strings p)\<rparr>)"

section \<open>Options of a connection\<close>

text \<open>\<open>serial\<close>: whether the token is a serial keyword, and the connection after it.\<close>

definition v3_serial :: "str \<Rightarrow> conn \<Rightarrow> import_error + bool \<times> conn" where
  "v3_serial tok c =
     (let base = dropWhile (\<lambda>x. x = 45) tok; on = (take 1 tok \<noteq> [45]) in
      if isdigit tok then rbind (import_int tok) (\<lambda>n. Inr (True, set_serial (\<lambda>s. s\<lparr>ss_baudrate := VInt n\<rparr>) c))
      else if tok = ascii ''1STOPBIT'' \<or> tok = ascii ''2STOPBITS'' then Inr (True, set_serial (\<lambda>s. s\<lparr>ss_stopbits := digit_value tok\<rparr>) c)
      else if drop 1 tok = ascii ''DATABITS'' \<and> 53 \<le> hd tok \<and> hd tok \<le> 56 then Inr (True, set_serial (\<lambda>s. s\<lparr>ss_bytesize := digit_value tok\<rparr>) c)
      else case map_of V3_PARITY tok of
        Some p \<Rightarrow> Inr (True, set_serial (\<lambda>s. s\<lparr>ss_parity := p\<rparr>) c)
      | None \<Rightarrow>
          if base = ascii ''XONXOFF'' then Inr (True, c\<lparr>cn_xonxoff := on\<rparr>)
          else if base = ascii ''RTSCTS'' then Inr (True, c\<lparr>cn_rtscts := on\<rparr>)
          else if base = ascii ''HANGUP_WHEN_DONE'' then Inr (True, set_serial (\<lambda>s. s\<lparr>ss_hangup_when_done := on\<rparr>) c)
          else if base = ascii ''NOBREAK'' then Inr (True, set_serial (\<lambda>s. s\<lparr>ss_nobreak := on\<rparr>) c)
          else if base = ascii ''LOCAL'' then Inr (True, if on then c else add_note (Note ''MinusLocalNotImported'' []) c)
          else Inr (False, c))"

text \<open>The keywords \<open>hexdump\<close> and \<open>timestamp\<close>, alone or for one direction.\<close>

definition V3_TRACE_MODS :: "(str \<times> str \<times> str) list" where
  "V3_TRACE_MODS = concat (map (\<lambda>m. (ascii m, ascii ''all'', ascii m) #
      map (\<lambda>(t, d). (t @ ascii (''-'' @ m), d, ascii m)) V3_TRACE) [''hexdump'', ''timestamp''])"

definition v3_keyword :: "str \<Rightarrow> bool \<Rightarrow> conn \<Rightarrow> import_error + bool \<times> conn" where
  "v3_keyword base on c =
     (if base = ascii ''remctl'' then Inr (True, c\<lparr>cn_remctl := on\<rparr>)
      else if base = ascii ''kickolduser'' then Inr (True, set_network (\<lambda>n. n\<lparr>ns_kick_old_user := on\<rparr>) c)
      else case map_of V3_TRACE_MODS base of
        Some (direction, what) \<Rightarrow> Inr (True, c\<lparr>cn_trace_mods := AList.update (direction, what) on (cn_trace_mods c)\<rparr>)
      | None \<Rightarrow>
          if base = ascii ''telnet_brk_on_sync'' then
            (if on then rbind (conn_option (ascii ''telnet-brk-on-sync'') (ascii ''true'') c) (\<lambda>c'. Inr (True, c')) else Inr (True, c))
          else Inr (base = ascii ''chardelay'', c))"

definition V3_SIZES :: "str list" where
  "V3_SIZES = map ascii [''chardelay-scale'', ''chardelay-min'', ''chardelay-max'', ''dev-to-net-bufsize'', ''net-to-dev-bufsize'',
     ''dev-to-tcp-bufsize'', ''tcp-to-dev-bufsize'']"

definition v3_option :: "(str \<times> str) list \<Rightarrow> str \<Rightarrow> conn \<Rightarrow> import_error + bool \<times> conn" where
  "v3_option tracefiles tok c =
     (let (name, eq, v) = partition_at 61 tok in
      if \<not> eq then v3_keyword (dropWhile (\<lambda>x. x = 45) name) (take 1 name \<noteq> [45]) c
      else case map_of V3_TRACE name of
        Some direction \<Rightarrow>
          Inr (True, case map_of tracefiles v of
                 Some f \<Rightarrow> c\<lparr>cn_traces := AList.update direction f (cn_traces c)\<rparr>
               | None \<Rightarrow> add_note (Note ''NoTracefile'' [tok, v]) c)
      | None \<Rightarrow>
          if name = ascii ''rs485'' then Inr (True, add_note (Note ''Rs485NotImported'' [tok]) c)
          else if name = ascii ''max-connections'' then rbind (conn_option name v c) (\<lambda>c'. Inr (True, c'))
          else if name = ascii ''remaddr'' then Inr (True, remaddr v c)
          else if name \<in> set V3_SIZES then Inr (True, drop_option name c)
          else Inr (name = ascii ''led-rx'' \<or> name = ascii ''led-tx'', c))"

definition v3_named :: "(str \<times> str \<times> str) list \<Rightarrow> str \<Rightarrow> conn \<Rightarrow> import_error + conn" where
  "v3_named strings tok c =
     (case map_of strings tok of
        Some (kind, v) \<Rightarrow>
          Inr (if kind \<in> set (map ascii [''BANNER'', ''OPENSTR'', ''CLOSESTR'', ''CLOSEON'']) then
                 c\<lparr>cn_strings := AList.update (lower_ascii kind) v (cn_strings c)\<rparr>
               else if kind = ascii ''RS485CONF'' then add_note (Note ''Rs485ConfNotImported'' [tok]) c
               else c)
      | None \<Rightarrow> rbind (v3_serial (upper_kw tok) c) (\<lambda>(known, c'). Inr (if known then c' else add_note (Note ''UnknownOption'' [tok]) c')))"

definition v3_token :: "v3 \<Rightarrow> conn \<Rightarrow> str \<Rightarrow> import_error + conn" where
  "v3_token p c tok =
     rbind (v3_serial tok c) (\<lambda>(known, c1).
       if known then Inr c1
       else rbind (v3_option (v3_tracefiles p) tok c1) (\<lambda>(known, c2).
         if known then Inr c2 else v3_named (v3_strings p) tok c2))"

text \<open>The defaults that are numbers and the ones that are flags.\<close>

definition v3_number :: "str \<Rightarrow> int \<Rightarrow> serial_settings \<Rightarrow> serial_settings" where
  "v3_number name n s =
     (if name = ascii ''speed'' then s\<lparr>ss_baudrate := VInt n\<rparr>
      else if name = ascii ''databits'' then s\<lparr>ss_bytesize := VInt n\<rparr> else s\<lparr>ss_stopbits := VInt n\<rparr>)"

definition v3_flag :: "str \<Rightarrow> bool \<Rightarrow> conn \<Rightarrow> conn" where
  "v3_flag name flag c =
     (if name = ascii ''xonxoff'' then c\<lparr>cn_xonxoff := flag\<rparr>
      else if name = ascii ''rtscts'' then c\<lparr>cn_rtscts := flag\<rparr>
      else if name = ascii ''remctl'' then c\<lparr>cn_remctl := flag\<rparr>
      else set_serial (\<lambda>s. if name = ascii ''nobreak'' then s\<lparr>ss_nobreak := flag\<rparr> else s\<lparr>ss_hangup_when_done := flag\<rparr>) c)"

definition v3_default :: "conn \<Rightarrow> str \<times> str \<Rightarrow> import_error + conn" where
  "v3_default c kv =
     (let (name, v) = kv in
      if name \<in> set V3_IGNORED_DEFAULTS then
        (if name = ascii ''telnet_brk_on_sync'' \<and> bool_word v = Some True then conn_option (ascii ''telnet-brk-on-sync'') (ascii ''true'') c else Inr c)
      else if name \<in> set [ascii ''speed'', ascii ''databits'', ascii ''stopbits''] then
        (if isdigit v then rbind (import_int v) (\<lambda>n. Inr (set_serial (v3_number name n) c)) else Inr c)
      else if name = ascii ''parity'' then
        Inr (case map_of V3_PARITY (upper_kw v) of Some p \<Rightarrow> set_serial (\<lambda>s. s\<lparr>ss_parity := p\<rparr>) c | None \<Rightarrow> c)
      else if name = ascii ''remaddr'' then Inr (if v \<noteq> [] then remaddr v c else c)
      else if name \<in> set [ascii ''max-connections'', ascii ''kickolduser''] then conn_option name v c
      else Inr (case bool_word v of None \<Rightarrow> c | Some flag \<Rightarrow> v3_flag name flag c))"

section \<open>Connections\<close>

definition v3_settings :: "v3 \<Rightarrow> str \<Rightarrow> str \<Rightarrow> str \<Rightarrow> str \<Rightarrow> conn \<Rightarrow> import_error + conn" where
  "v3_settings p state timeout device options c =
     (let c1 = set_network (\<lambda>n. n\<lparr>ns_protocol := (if state = ascii ''telnet'' then ascii ''telnet'' else ascii ''raw'')\<rparr>)
                 (c\<lparr>cn_device := device, cn_enabled := (state \<noteq> ascii ''off'')\<rparr>);
          c2 = (if state = ascii ''rawlp'' then add_note (Note ''RawlpAsRaw'' []) c1 else c1) in
      rbind (idle_timeout timeout c2) (\<lambda>c3.
      rbind (rfold v3_default c3 (v3_defaults p)) (\<lambda>c4.
      rbind (rfold (v3_token p) c4 (words options)) (\<lambda>c5.
      Inr (if cn_remctl c5 then
             (if state = ascii ''telnet'' then set_network (\<lambda>n. n\<lparr>ns_protocol := ascii ''rfc2217''\<rparr>) c5
              else add_note (Note ''RemctlNeedsTelnet'' []) c5)
           else c5)))))"

definition v3_listen :: "str \<Rightarrow> conn \<Rightarrow> str list \<times> conn" where
  "v3_listen before c =
     (let parts = split_on 44 before; low = (\<lambda>f. lower_kw (strip f)) in
      (filter (\<lambda>f. low f \<noteq> ascii ''udp'' \<and> low f \<noteq> ascii ''tcp'') parts,
       if list_ex (\<lambda>f. low f = ascii ''udp'') parts then set_network (\<lambda>n. n\<lparr>ns_mode := ascii ''udp''\<rparr>) c else c))"

definition v3_name :: "int \<Rightarrow> conn \<Rightarrow> conn" where
  "v3_name n c =
     (let name = (if ns_mode (cn_network c) = ascii ''udp'' then ascii ''ser2net-udp-'' else ascii ''ser2net-'') @ int_text (ns_port (cn_network c)) in
      c\<lparr>cn_name := name, cn_label := name @ ascii '' (line '' @ dec_str n @ ascii '')''\<rparr>)"

definition v3_port :: "(nat \<Rightarrow> bool) \<Rightarrow> (str \<Rightarrow> int option) \<Rightarrow> int \<Rightarrow> str \<times> str \<times> str \<Rightarrow> v3 \<Rightarrow> import_error + v3" where
  "v3_port isword servbyname n match p =
     (let (before, state, after) = match;
          (timeout, _, rest) = partition_at 58 after;
          (dev, _, options) = partition_at 58 rest;
          device = (case map_of (v3_devices p) (strip dev) of Some d \<Rightarrow> d | None \<Rightarrow> strip dev);
          (fields, c0) = v3_listen before (new_conn [] (ascii ''line '' @ dec_str n) True) in
      rbind (listen_address servbyname fields c0) (\<lambda>(ok, c1).
        if \<not> ok then Inr (p\<lparr>v3_warnings := v3_warnings p @ conn_warnings False c1\<rparr>)
        else
          let c2 = v3_name n c1 in
          if device = [] then Inr (p\<lparr>v3_warnings := v3_warnings p @ conn_warnings False (skip_conn (Note ''NoDeviceField'' []) c2)\<rparr>)
          else if is_prefix_of (ascii ''sol.'') device \<or> 32 \<in> set device then
            Inr (p\<lparr>v3_warnings := v3_warnings p @ conn_warnings False (skip_conn (Note ''IpmiNotImported'' []) c2)\<rparr>)
          else
            rbind (v3_settings p state timeout device options c2) (\<lambda>c3.
              let c4 = finish isword c3 in
              Inr (p\<lparr>v3_conns := v3_conns p @ [c4], v3_warnings := v3_warnings p @ conn_warnings True c4\<rparr>))))"

definition v3_entry :: "(nat \<Rightarrow> bool) \<Rightarrow> (str \<Rightarrow> int option) \<Rightarrow> v3 \<Rightarrow> int \<times> str \<Rightarrow> import_error + v3" where
  "v3_entry isword servbyname p numbered =
     (let (n, line) = numbered in
      case v3_directive line of
        Some (kind, rest) \<Rightarrow> Inr (directive n kind rest p)
      | None \<Rightarrow>
          (case v3_state [] line of
             Some match \<Rightarrow> v3_port isword servbyname n match p
           | None \<Rightarrow> Inr (v3_warn (Note ''NotConfLine'' [dec_str n]) p)))"

definition from_v3 :: "(nat \<Rightarrow> bool) \<Rightarrow> (str \<Rightarrow> int option) \<Rightarrow> (int \<times> str) list \<Rightarrow> import_error + conn list \<times> (str \<times> warning) list" where
  "from_v3 isword servbyname ls =
     rbind (rfold (v3_entry isword servbyname) v3_init ls) (\<lambda>p. Inr (v3_conns p, v3_warnings p))"

end
