(* ===== verification/Ser2net_Assemble.thy ===== *)
theory Ser2net_Assemble
  imports Ser2net_Conn
begin

text \<open>
  \<open>app/ser2net_import.py\<close>, the last step of an import (\<open>_assemble\<close>): connections that do not validate or that listen where an
  earlier one does are left out, names become unique, and one mapping per serial device stays enabled. The result can be
  saved as a configuration.
\<close>

section \<open>Definitions\<close>

text \<open>The mapping a connection becomes; the id is the one \<open>from_dict\<close> draws.\<close>

definition conn_mapping :: "(nat \<Rightarrow> bool) \<Rightarrow> str \<Rightarrow> conn \<Rightarrow> mapping_config" where
  "conn_mapping isword fresh c = load_mapping isword fresh (conn_dict c)"

definition conn_proto :: "conn \<Rightarrow> str" where
  "conn_proto c = (if ns_mode (cn_network c) = ascii ''udp'' then ascii ''udp'' else ascii ''tcp'')"

definition same_listener :: "conn \<Rightarrow> conn \<Rightarrow> bool" where
  "same_listener c e \<longleftrightarrow> py_eq (ns_port (cn_network e)) (ns_port (cn_network c)) \<and> conn_proto e = conn_proto c
     \<and> ip_overlaps (ns_bind_ip (cn_network e)) (ns_bind_ip (cn_network c))"

text \<open>A round of the first loop: the connections kept and the warnings.\<close>

definition keep_conn :: "(nat \<Rightarrow> bool) \<Rightarrow> (str \<Rightarrow> bool) \<Rightarrow> conn list \<times> (str \<times> warning) list \<Rightarrow> conn \<Rightarrow> conn list \<times> (str \<times> warning) list" where
  "keep_conn isword isfile st c =
     (let (kept, ws) = st in
      case validate_mapping isfile (conn_mapping isword [] c) of
        Inl (ConfigError e) \<Rightarrow> (kept, ws @ [(cn_label c, Skipped (Note e []))])
      | Inr _ \<Rightarrow>
          (case find (same_listener c) kept of
             Some other \<Rightarrow> (kept, ws @ [(cn_label c, Skipped (Note ''PortInUse'' [conn_proto c, int_text (ns_port (cn_network c)), cn_name other]))])
           | None \<Rightarrow> (kept @ [c], ws)))"

definition numbered_name :: "str \<Rightarrow> nat \<Rightarrow> str" where
  "numbered_name base k = base @ ascii '' ('' @ dec_digits k @ ascii '')''"

text \<open>The \<open>while\<close> loop: the first of the name and its numbered forms that is not used. One of them is free before more
  numbers than used names have been tried.\<close>

definition free_name :: "str list \<Rightarrow> str \<Rightarrow> str" where
  "free_name used base =
     (case find (\<lambda>n. n \<notin> set used) (base # map (numbered_name base) [2 ..< length used + 3]) of Some n \<Rightarrow> n | None \<Rightarrow> base)"

text \<open>A round of the second loop: the finished connections, the used names, the owners of devices and the warnings.\<close>

type_synonym naming = "conn list \<times> str list \<times> (str \<times> str) list \<times> (str \<times> warning) list"

definition name_conn :: "naming \<Rightarrow> conn \<Rightarrow> naming" where
  "name_conn st c0 =
     (let (fin, used, owner, ws) = st;
          c = c0\<lparr>cn_name := free_name used (cn_name c0)\<rparr>;
          ws1 = (if cn_name c \<noteq> cn_name c0 then ws @ [(cn_label c, Note ''Renamed'' [cn_name c])] else ws) in
      if cn_enabled c then
        (case map_of owner (cn_device c) of
           Some other \<Rightarrow>
             (fin @ [c\<lparr>cn_enabled := False\<rparr>], used @ [cn_name c], owner, ws1 @ [(cn_label c, Note ''DeviceShared'' [cn_device c, other])])
         | None \<Rightarrow> (fin @ [c], used @ [cn_name c], AList.update (cn_device c) (cn_name c) owner, ws1))
      else (fin @ [c], used @ [cn_name c], owner, ws1))"

definition assemble :: "(nat \<Rightarrow> bool) \<Rightarrow> (str \<Rightarrow> bool) \<Rightarrow> conn list \<Rightarrow> (str \<times> warning) list \<Rightarrow> mapping_config list \<times> (str \<times> warning) list" where
  "assemble isword isfile conns ws =
     (let (kept, ws1) = foldl (keep_conn isword isfile) ([], ws) conns;
          (named, _, _, ws2) = foldl name_conn ([], [], [], ws1) kept in
      (map conn_dict named, ws2))"

section \<open>Lemmas: the connections kept\<close>

definition distinct_listeners :: "conn list \<Rightarrow> bool" where
  "distinct_listeners cs \<longleftrightarrow> sorted_wrt (\<lambda>a b. \<not> same_listener b a) cs"

lemma keep_conns:
  assumes "foldl (keep_conn isword isfile) (kept, ws) conns = (kept', ws')"
    and "\<forall>c \<in> set kept. validate_mapping isfile (conn_mapping isword [] c) = Inr ()" and "distinct_listeners kept"
  shows "(\<forall>c \<in> set kept'. validate_mapping isfile (conn_mapping isword [] c) = Inr ()) \<and> distinct_listeners kept' \<and>
    set kept' \<subseteq> set kept \<union> set conns"
  using assms
proof (induction conns arbitrary: kept ws)
  case Nil
  then show ?case by simp
next
  case (Cons c cs)
  obtain k1 w1 where k: "keep_conn isword isfile (kept, ws) c = (k1, w1)" by (cases "keep_conn isword isfile (kept, ws) c")
  consider "k1 = kept" | "k1 = kept @ [c]" "validate_mapping isfile (conn_mapping isword [] c) = Inr ()" "find (same_listener c) kept = None"
    using k by (auto simp: keep_conn_def split: sum.splits config_error.splits option.splits)
  then show ?case
  proof cases
    case 1
    then show ?thesis using Cons.IH [of k1 w1] Cons.prems k by auto
  next
    case 2
    have "distinct_listeners k1" using 2(1,3) Cons.prems(3) by (auto simp: distinct_listeners_def sorted_wrt_append find_None_iff)
    then show ?thesis using Cons.IH [of k1 w1] Cons.prems k 2 by auto
  qed
qed

lemma numbered_inject [simp]: "numbered_name base j = numbered_name base k \<longleftrightarrow> j = k"
  by (simp add: numbered_name_def)

lemma free_name_new: "free_name used base \<notin> set used"
proof -
  let ?cs = "base # map (numbered_name base) [2 ..< length used + 3]"
  have d: "distinct (map (numbered_name base) [2 ..< length used + 3])" by (auto simp: distinct_map inj_on_def)
  have "\<not> set (map (numbered_name base) [2 ..< length used + 3]) \<subseteq> set used"
  proof
    assume "set (map (numbered_name base) [2 ..< length used + 3]) \<subseteq> set used"
    then have "card (set (map (numbered_name base) [2 ..< length used + 3])) \<le> card (set used)" by (intro card_mono) auto
    then show False using distinct_card [OF d] card_length [of used] by simp
  qed
  then have "find (\<lambda>n. n \<notin> set used) ?cs \<noteq> None" unfolding find_None_iff by auto
  then show ?thesis by (auto simp: free_name_def find_Some_iff split: option.splits)
qed

lemma strip_blank_iff: "strip s = [] \<longleftrightarrow> (\<forall>c \<in> set s. py_isspace c)"
proof -
  have "dropWhile p (rev t) = [] \<longleftrightarrow> (\<forall>c \<in> set t. p c)" for p :: "nat \<Rightarrow> bool" and t by (simp add: dropWhile_eq_Nil_conv)
  then have "strip s = [] \<longleftrightarrow> (\<forall>c \<in> set (dropWhile py_isspace s). py_isspace c)"
    by (simp add: strip_def rstrip_of_def lstrip_of_def)
  also have "\<dots> \<longleftrightarrow> (\<forall>c \<in> set s. py_isspace c)"
    by (metis dropWhile_eq_Nil_conv hd_dropWhile hd_in_set set_dropWhileD)
  finally show ?thesis .
qed

lemma free_name_nonblank: "strip base \<noteq> [] \<Longrightarrow> strip (free_name used base) \<noteq> []"
proof -
  have "free_name used base = base \<or> (\<exists>k. free_name used base = numbered_name base k)"
    by (auto simp: free_name_def find_Some_iff nth_Cons' split: option.splits)
  then show "strip base \<noteq> [] \<Longrightarrow> ?thesis" by (auto simp: strip_blank_iff numbered_name_def)
qed

section \<open>Lemmas: names and devices\<close>

text \<open>A connection as the second loop leaves it.\<close>

definition renamed :: "conn \<Rightarrow> conn \<Rightarrow> bool" where
  "renamed c d \<longleftrightarrow> (\<exists>used e. d = c\<lparr>cn_name := free_name used (cn_name c), cn_enabled := e\<rparr> \<and> (e \<longrightarrow> cn_enabled c))"

definition naming_inv :: "naming \<Rightarrow> bool" where
  "naming_inv st = (case st of (fin, used, owner, ws) \<Rightarrow>
     used = map cn_name fin \<and> distinct used \<and>
     (\<forall>c \<in> set fin. cn_enabled c \<longrightarrow> map_of owner (cn_device c) \<noteq> None) \<and>
     sorted_wrt (\<lambda>a b. cn_enabled a \<and> cn_enabled b \<longrightarrow> cn_device a \<noteq> cn_device b) fin)"

lemma name_conn_step:
  assumes "naming_inv st" and "name_conn st c = st'"
  shows "naming_inv st' \<and> (\<exists>d. fst st' = fst st @ [d] \<and> renamed c d)"
proof -
  obtain fin used owner ws where st: "st = (fin, used, owner, ws)" by (cases st)
  let ?c = "c\<lparr>cn_name := free_name used (cn_name c)\<rparr>"
  have new: "cn_name ?c \<notin> set used" using free_name_new by simp
  have inv: "used = map cn_name fin" "distinct used" "\<forall>c \<in> set fin. cn_enabled c \<longrightarrow> map_of owner (cn_device c) \<noteq> None"
    "sorted_wrt (\<lambda>a b. cn_enabled a \<and> cn_enabled b \<longrightarrow> cn_device a \<noteq> cn_device b) fin"
    using assms(1) st by (auto simp: naming_inv_def)
  have r: "renamed c (?c\<lparr>cn_enabled := e\<rparr>)" if "e \<longrightarrow> cn_enabled c" for e
    using that by (auto simp: renamed_def intro!: exI [of _ used] exI [of _ e])
  show ?thesis
  proof (cases "cn_enabled c \<and> map_of owner (cn_device c) = None")
    case True
    then have dev: "\<forall>d \<in> set fin. cn_enabled d \<longrightarrow> cn_device d \<noteq> cn_device c" using inv(3) by fastforce
    have e: "?c\<lparr>cn_enabled := True\<rparr> = ?c" using True by (cases c) simp
    have "renamed c (?c\<lparr>cn_enabled := True\<rparr>)" using r [of True] True by blast
    then have "renamed c ?c" by (simp only: e)
    moreover obtain ws' where st': "st' = (fin @ [?c], used @ [cn_name ?c], AList.update (cn_device c) (cn_name ?c) owner, ws')"
      using True assms(2) st by (auto simp: name_conn_def Let_def)
    ultimately show ?thesis using True st inv new dev by (auto simp: naming_inv_def sorted_wrt_append update_conv')
  next
    case False
    then obtain ws' where st': "st' = (fin @ [?c\<lparr>cn_enabled := False\<rparr>], used @ [cn_name ?c], owner, ws')"
      using assms(2) st by (auto simp: name_conn_def Let_def split: if_splits option.splits)
    show ?thesis using st st' inv new r [of False] by (auto simp: naming_inv_def sorted_wrt_append)
  qed
qed

lemma name_conns:
  assumes "naming_inv st" and "foldl name_conn st cs = st'"
  shows "naming_inv st' \<and> (\<exists>ds. fst st' = fst st @ ds \<and> list_all2 renamed cs ds)"
  using assms
proof (induction cs arbitrary: st)
  case Nil
  then show ?case by auto
next
  case (Cons c cs)
  obtain d where d: "naming_inv (name_conn st c)" "fst (name_conn st c) = fst st @ [d]" "renamed c d"
    using name_conn_step [OF Cons.prems(1) refl, of c] by blast
  then obtain ds where "naming_inv st'" "fst st' = fst (name_conn st c) @ ds" "list_all2 renamed cs ds"
    using Cons.IH [OF d(1)] Cons.prems(2) by auto
  then show ?case using d by (auto intro!: exI [of _ "d # ds"])
qed

section \<open>Lemmas: validation of a whole list\<close>

definition apart :: "mapping_config \<Rightarrow> mapping_config \<Rightarrow> bool" where
  "apart a b \<longleftrightarrow> no_port_clash a b \<and> (mc_enabled a \<and> mc_enabled b \<longrightarrow> set (mapping_devices a) \<inter> set (mapping_devices b) = {})"

lemma claim_free: "\<forall>d \<in> set devs. owner d = None \<or> owner d = Some (mc_id m) \<Longrightarrow> \<exists>owner'. rfold (claim_device m) owner devs = Inr owner'"
  by (induction devs arbitrary: owner) (auto simp: claim_device_def split: option.splits)

lemma validate_apart:
  assumes "\<forall>m \<in> set ms. validate_mapping isfile m = Inr ()" and "sorted_wrt apart ms"
    and "\<forall>m \<in> set ms. binds_port m \<longrightarrow> \<not> list_ex (clashes m) seen"
    and "\<forall>m \<in> set ms. mc_enabled m \<longrightarrow> (\<forall>d \<in> set (mapping_devices m). owner d = None)"
  shows "\<exists>st. rfold (validate_one isfile) (owner, seen) ms = Inr st"
  using assms
proof (induction ms arbitrary: owner seen)
  case Nil
  then show ?case by simp
next
  case (Cons m ms)
  have "\<exists>o'. (if mc_enabled m then rfold (claim_device m) owner (mapping_devices m) else Inr owner) = Inr o'"
    using claim_free [of "mapping_devices m" owner m] Cons.prems(4) by auto
  then obtain o1 s1 where one: "validate_one isfile (owner, seen) m = Inr (o1, s1)"
    using Cons.prems(1,3) by (fastforce simp: validate_one_def)
  note c = validate_one_cases [OF one]
  have "\<forall>n \<in> set ms. binds_port n \<longrightarrow> \<not> list_ex (clashes n) s1"
    using Cons.prems(2,3) c(4) by (auto simp: apart_def no_port_clash_def)
  moreover have "\<forall>n \<in> set ms. mc_enabled n \<longrightarrow> (\<forall>d \<in> set (mapping_devices n). o1 d = None)"
    using Cons.prems(2,4) c(3) by (fastforce simp: apart_def)
  ultimately show ?case using Cons.IH [of s1 o1] Cons.prems(1,2) one by auto
qed

lemma validate_rename:
  assumes "renamed c d" and "validate_mapping isfile (conn_mapping isword [] c) = Inr ()"
  shows "validate_mapping isfile (conn_mapping isword fresh d) = Inr ()"
proof -
  have "strip (cn_name c) \<noteq> []" using assms(2) by (auto simp: validate_mapping_def conn_mapping_def conn_dict_def load_mapping_def rbind_eq_Inr)
  then have "strip (cn_name d) \<noteq> []" using assms(1) free_name_nonblank by (auto simp: renamed_def)
  then show ?thesis using assms by (auto simp: renamed_def validate_mapping_def conn_mapping_def conn_dict_def load_mapping_def rbind_eq_Inr)
qed

lemma conn_mapping_simps [simp]:
  "mc_enabled (conn_mapping isword fresh c) = cn_enabled c" "mc_network (conn_mapping isword fresh c) = cn_network c"
  "mapping_devices (conn_mapping isword fresh c) = (if cn_device c \<noteq> [] \<and> ss_match (cn_serial c) = [] then [cn_device c] else [])"
  by (simp_all add: conn_mapping_def conn_dict_def load_mapping_def mapping_devices_def)

lemma same_listener_clashes: "clashes (conn_mapping isword f c) (bind_key_of (conn_mapping isword g d)) \<longleftrightarrow> same_listener c d"
  by (auto simp: clashes_def bind_key_of_def same_listener_def transport_def conn_proto_def)

lemma renamed_listener: "renamed c d \<Longrightarrow> cn_network d = cn_network c"
  by (auto simp: renamed_def)

lemma conns_apart:
  assumes "distinct_listeners kept" and "list_all2 renamed kept ds"
    and "sorted_wrt (\<lambda>a b. cn_enabled a \<and> cn_enabled b \<longrightarrow> cn_device a \<noteq> cn_device b) ds" and "length ids = length ds"
  shows "sorted_wrt apart (map2 (conn_mapping isword) ids ds)"
  unfolding sorted_wrt_iff_nth_less
proof (intro allI impI)
  fix i j assume ij: "i < j" "j < length (map2 (conn_mapping isword) ids ds)"
  have n: "cn_network (ds ! i) = cn_network (kept ! i)" "cn_network (ds ! j) = cn_network (kept ! j)"
    using assms(2) ij by (auto intro!: renamed_listener simp: list_all2_conv_all_nth)
  have "\<not> same_listener (kept ! j) (kept ! i)"
    using assms(1,2) ij by (auto simp: distinct_listeners_def sorted_wrt_iff_nth_less list_all2_conv_all_nth)
  then have "\<not> same_listener (ds ! j) (ds ! i)" using n by (simp add: same_listener_def conn_proto_def)
  moreover have "cn_enabled (ds ! i) \<and> cn_enabled (ds ! j) \<longrightarrow> cn_device (ds ! i) \<noteq> cn_device (ds ! j)"
    using assms(3) ij by (auto simp: sorted_wrt_iff_nth_less)
  ultimately show "apart (map2 (conn_mapping isword) ids ds ! i) (map2 (conn_mapping isword) ids ds ! j)"
    using ij assms(4) by (auto simp: apart_def no_port_clash_def same_listener_clashes)
qed

section \<open>Properties\<close>

text \<open>C22: An import can be applied as a whole: whatever connections the file has, the mappings of \<open>_assemble\<close>, read back with any
  ids, have distinct names and replace the mappings of any valid configuration with a valid one; in particular no two listen
  on one port and no serial device has two enabled mappings.\<close>
theorem import_applies:
  assumes "assemble isword isfile conns ws = (ms, ws')" and "length ids = length ms" and "validate_app isfile cfg = Inr ()"
  shows "distinct (map mc_name ms) \<and> validate_app isfile (cfg\<lparr>ac_mappings := map2 (load_mapping isword) ids ms\<rparr>) = Inr ()"
proof -
  obtain kept ws1 where k: "foldl (keep_conn isword isfile) ([], ws) conns = (kept, ws1)" by fastforce
  have kept: "\<forall>c \<in> set kept. validate_mapping isfile (conn_mapping isword [] c) = Inr ()" "distinct_listeners kept"
    using keep_conns [OF k] by (auto simp: distinct_listeners_def)
  obtain ds used owner ws2 where n: "foldl name_conn ([], [], [], ws1) kept = (ds, used, owner, ws2)" by (metis prod_cases4)
  have "naming_inv ([], [], [], ws1)" by (simp add: naming_inv_def)
  then have inv: "naming_inv (ds, used, owner, ws2)" and r: "list_all2 renamed kept ds" using name_conns n by fastforce+
  have ms: "ms = map conn_dict ds" using assms(1) k n by (auto simp: assemble_def)
  have m2: "map2 (load_mapping isword) ids ms = map2 (conn_mapping isword) ids ds"
    unfolding ms by (simp add: zip_map2 conn_mapping_def case_prod_beta)
  have "validate_mapping isfile m = Inr ()" if "m \<in> set (map2 (conn_mapping isword) ids ds)" for m
  proof -
    obtain i where i: "i < length ds" "m = conn_mapping isword (ids ! i) (ds ! i)" using \<open>m \<in> _\<close> by (auto simp: set_zip)
    then have "renamed (kept ! i) (ds ! i)" "kept ! i \<in> set kept" using r by (auto simp: list_all2_conv_all_nth)
    then show ?thesis using validate_rename kept(1) i(2) by blast
  qed
  moreover have "sorted_wrt apart (map2 (conn_mapping isword) ids ds)"
    using conns_apart [OF kept(2) r] inv assms(2) ms by (simp add: naming_inv_def)
  ultimately obtain st where "rfold (validate_one isfile) (Map.empty, []) (map2 (load_mapping isword) ids ms) = Inr st"
    using validate_apart [of "map2 (conn_mapping isword) ids ds" isfile "[]" Map.empty] m2 by auto
  moreover have "distinct (map mc_name ms)" using inv by (auto simp: naming_inv_def ms comp_def conn_dict_def)
  ultimately show ?thesis using assms(3) by (auto simp: validate_app_def validate_admin_def rbind_eq_Inr)
qed

definition sample_conn :: "int \<Rightarrow> conn" where
  "sample_conn port = (new_conn (ascii ''a'') (ascii ''a'') False)\<lparr>cn_device := ascii ''/dev/ttyS0'',
     cn_network := default_network\<lparr>ns_port := VInt port, ns_connect_timeout_s := VInt 10\<rparr>,
     cn_options := default_options\<lparr>mo_trace_max_mb := VInt 10\<rparr>\<rparr>"

lemma import_applies_witness:
  "map mc_name (fst (assemble (\<lambda>_. True) (\<lambda>_. True) [sample_conn 2000, sample_conn 2001, sample_conn 2000] [])) = [ascii ''a'', ascii ''a (2)''] \<and>
   map mc_enabled (fst (assemble (\<lambda>_. True) (\<lambda>_. True) [sample_conn 2000, sample_conn 2001, sample_conn 2000] [])) = [True, False] \<and>
   validate_app (\<lambda>_. True) (sample_config\<lparr>ac_mappings := map2 (load_mapping (\<lambda>_. True)) [[1], [2]]
     (fst (assemble (\<lambda>_. True) (\<lambda>_. True) [sample_conn 2000, sample_conn 2001, sample_conn 2000] []))\<rparr>) = Inr ()"
proof -
  let ?r = "assemble (\<lambda>_. True) (\<lambda>_. True) [sample_conn 2000, sample_conn 2001, sample_conn 2000] []"
  have n: "map mc_name (fst ?r) = [ascii ''a'', ascii ''a (2)'']" by code_simp
  moreover have "map mc_enabled (fst ?r) = [True, False]" by code_simp
  moreover have "validate_app (\<lambda>_. True) sample_config = Inr ()" by code_simp
  moreover have "length [[1], [2]] = length (fst ?r)" using arg_cong [OF n, of length] by simp
  ultimately show ?thesis using import_applies [of _ _ _ _ "fst ?r" "snd ?r" "[[1], [2]]" sample_config] by simp
qed

end
