(* ===== verification/Ser2net_Yaml.thy ===== *)
theory Ser2net_Yaml
  imports Ser2net_Conn
begin

text \<open>
  \<open>app/ser2net_import.py\<close>, the configuration of ser2net 4.x as the tree that the YAML reader returns: references inside
  texts, defaults, and the connections.
\<close>

section \<open>The tree\<close>

text \<open>A value: text, a list, or a mapping with its keys, values and anchors in order.\<close>

datatype ynode = YText str | YList "ynode list" | YMap "(str \<times> ynode \<times> str) list"

fun is_map :: "ynode \<Rightarrow> bool" where
  "is_map (YMap _) = True"
| "is_map _ = False"

fun map_entries :: "ynode \<Rightarrow> (str \<times> ynode \<times> str) list" where
  "map_entries (YMap es) = es"
| "map_entries _ = []"

text \<open>\<open>_YMap.get\<close>: the last value of a key.\<close>

definition ymap_get :: "(str \<times> ynode \<times> str) list \<Rightarrow> string \<Rightarrow> str \<Rightarrow> ynode" where
  "ymap_get es key dflt = (case find (\<lambda>(k, _). lower_kw k = ascii key) (rev es) of Some (_, v, _) \<Rightarrow> v | None \<Rightarrow> YText dflt)"

section \<open>References\<close>

text \<open>\<open>_substitute\<close>: the text and the notes.\<close>

function substitute :: "(str \<times> str) list \<Rightarrow> nat list \<Rightarrow> str \<Rightarrow> str \<times> warning list" where
  "substitute aliases act s =
     (case s of
        [] \<Rightarrow> ([], [])
      | ch # cs \<Rightarrow>
          let nxt = take 1 cs; ours = ch \<in> set act; body = tl cs;
              close = (if nxt = [40] then 41 else 125); ref = takeWhile (\<lambda>c. c \<noteq> close) body;
              plain = (let (t, ns) = substitute aliases act cs in (ch # t, ns)) in
          if ours \<and> nxt = [ch] then (let (t, ns) = substitute aliases act body in (ch # t, ns))
          else if ours \<and> (nxt = [40] \<or> nxt = [123]) \<or> ch = 36 \<and> nxt = [40] then
            (if ours \<and> take 1 body = [ch] then (let (t, ns) = substitute aliases act (tl body) in (ch # nxt @ t, ns))
             else if close \<in> set body then
               (if nxt = [123] then
                  (let (t, ns) = substitute aliases act (drop (length ref + 1) body) in (t, Note ''FileReference'' [[ch], ref] # ns))
                else case map_of aliases ref of
                  Some v \<Rightarrow> (let (t, ns) = substitute aliases act (drop (length ref + 1) body) in (v @ t, ns))
                | None \<Rightarrow>
                    if ours then (let (t, ns) = plain in (t, Note ''UnknownReference'' [[ch], ref] # ns)) else plain)
             else plain)
          else plain)"
  by pat_completeness auto

termination substitute
  by (relation "measure (\<lambda>(a, act, s). length s)") auto

declare substitute.simps [simp del]

section \<open>The importer's state\<close>

record yaml =
  ya_act :: "nat list"
  ya_aliases :: "(str \<times> str) list"
  ya_warnings :: "(str \<times> warning) list"
  ya_conns :: "conn list"
  ya_serial_defaults :: "(str \<times> str) list"
  ya_option_defaults :: "(str \<times> str) list"

definition yaml_init :: "nat list \<Rightarrow> yaml" where
  "yaml_init act = \<lparr>ya_act = act, ya_aliases = [], ya_warnings = [], ya_conns = [], ya_serial_defaults = [], ya_option_defaults = []\<rparr>"

definition node_text :: "yaml \<Rightarrow> ynode \<Rightarrow> str \<Rightarrow> str \<times> warning list" where
  "node_text y node what =
     (case node of YText t \<Rightarrow> substitute (ya_aliases y) (ya_act y) t | _ \<Rightarrow> ([], [Note ''NotSingleValue'' [what]]))"

text \<open>\<open>text\<close> for a connection: the notes are appended to its own.\<close>

definition conn_text :: "yaml \<Rightarrow> ynode \<Rightarrow> str \<Rightarrow> conn \<Rightarrow> str \<times> conn" where
  "conn_text y node what c = (let (t, ns) = node_text y node what in (t, c\<lparr>cn_notes := cn_notes c @ ns\<rparr>))"

definition gtext :: "ynode \<Rightarrow> str \<Rightarrow> yaml \<Rightarrow> str \<times> yaml" where
  "gtext node what y = (let (t, ns) = node_text y node what in (t, y\<lparr>ya_warnings := ya_warnings y @ map (\<lambda>n. (what, n)) ns\<rparr>))"

definition yaml_warn :: "warning \<Rightarrow> yaml \<Rightarrow> yaml" where
  "yaml_warn w y = y\<lparr>ya_warnings := ya_warnings y @ [([], w)]\<rparr>"

definition SERIAL_DEFAULTS :: "str list" where
  "SERIAL_DEFAULTS = map ascii [''speed'', ''nobreak'', ''rtscts'', ''xonxoff'', ''local'', ''hangup-when-done'', ''dtr'', ''rts'', ''custspeed'',
     ''rs485'', ''uucplock'', ''flock'']"

definition OPTION_DEFAULTS :: "str list" where
  "OPTION_DEFAULTS = map ascii [''kickolduser'', ''max-connections'', ''remaddr'', ''telnet-brk-on-sync'', ''chardelay'', ''trace-hexdump'',
     ''trace-timestamp'', ''trace-both-hexdump'', ''trace-both-timestamp'']"

definition yaml_default :: "str \<Rightarrow> str \<Rightarrow> str \<Rightarrow> yaml \<Rightarrow> yaml" where
  "yaml_default name v cls0 y =
     (let n = lower_kw (strip name); cls = lower_kw (strip cls0) in
      if n = [] \<or> cls \<notin> set [[], ascii ''serialdev'', ascii ''sdev'', ascii ''ser2net''] then y
      else if n \<in> set SERIAL_DEFAULTS \<and> cls \<noteq> ascii ''ser2net'' then y\<lparr>ya_serial_defaults := AList.update n (strip v) (ya_serial_defaults y)\<rparr>
      else if n \<in> set OPTION_DEFAULTS \<and> cls \<in> set [[], ascii ''ser2net''] then
        y\<lparr>ya_option_defaults := AList.update n (strip v) (ya_option_defaults y)\<rparr>
      else yaml_warn (Note ''DefaultNoEquivalent'' [name, v]) y)"

definition delete_default :: "str \<Rightarrow> yaml \<Rightarrow> yaml" where
  "delete_default name y = (let n = lower_kw (strip name) in
     y\<lparr>ya_serial_defaults := AList.delete n (ya_serial_defaults y), ya_option_defaults := AList.delete n (ya_option_defaults y)\<rparr>)"

section \<open>Connections\<close>

definition option_entry :: "yaml \<Rightarrow> conn \<Rightarrow> str \<times> ynode \<times> str \<Rightarrow> import_error + conn" where
  "option_entry y c e = (let (key, v, _) = e; (t, c1) = conn_text y v key c in conn_option key t c1)"

definition body_entry :: "yaml \<Rightarrow> conn \<Rightarrow> str \<times> ynode \<times> str \<Rightarrow> import_error + conn" where
  "body_entry y c e =
     (let (key, v, _) = e; k = lower_kw key in
      if k = ascii ''options'' then
        (case v of
           YMap es \<Rightarrow> rfold (option_entry y) c es
         | YText t \<Rightarrow> Inr (if strip t \<noteq> [] then add_note (Note ''OptionsNotMap'' []) c else c)
         | YList _ \<Rightarrow> Inr (add_note (Note ''OptionsNotMap'' []) c))
      else if k \<in> set (map ascii [''accepter'', ''connector'', ''enable'']) then Inr c
      else option_entry y c e)"

definition yaml_settings :: "yaml \<Rightarrow> (str \<times> ynode \<times> str) list \<Rightarrow> conn \<Rightarrow> import_error + conn" where
  "yaml_settings y body c =
     (let (enable, c1) = conn_text y (ymap_get body ''enable'' (ascii ''on'')) (ascii ''enable'') c;
          b = bool_word enable;
          c2 = (if b = None then add_note (Note ''EnableNotOnOff'' [enable]) c1 else c1) in
      rbind (rfold (\<lambda>c (k, v). conn_option k v c) (c2\<lparr>cn_enabled := (b = Some True)\<rparr>) (ya_option_defaults y)) (\<lambda>c3.
      rfold (body_entry y) c3 body))"

text \<open>The body of \<open>connection\<close>: the connection, and whether it is imported.\<close>

definition read_conn :: "(nat \<Rightarrow> bool) \<Rightarrow> (str \<Rightarrow> int option) \<Rightarrow> yaml \<Rightarrow> str \<Rightarrow> (str \<times> ynode \<times> str) list \<Rightarrow> conn \<Rightarrow> import_error + bool \<times> conn" where
  "read_conn isword servbyname y name body c =
     (let (a, c1) = conn_text y (ymap_get body ''accepter'' []) (ascii ''accepter'') c;
          (k, c2) = conn_text y (ymap_get body ''connector'' []) (ascii ''connector'') c1;
          accepter_s = strip a; connector_s = strip k in
      if accepter_s = [] \<or> connector_s = [] then Inr (False, skip_conn (Note ''NeedsBoth'' []) c2)
      else
        rbind (accepter servbyname accepter_s c2) (\<lambda>(ok, c3).
          if \<not> ok then Inr (False, c3)
          else
            let port_name = ascii ''ser2net-'' @ int_text (ns_port (cn_network c3));
                c4 = (if name = [] then c3\<lparr>cn_name := port_name, cn_label := port_name\<rparr> else c3) in
            rbind (connector connector_s (map (\<lambda>(k, v). k @ 61 # v) (ya_serial_defaults y)) c4) (\<lambda>(ok, c5).
              if \<not> ok then Inr (False, c5)
              else rbind (yaml_settings y body c5) (\<lambda>c6. Inr (True, finish isword c6)))))"

definition yaml_connection :: "(nat \<Rightarrow> bool) \<Rightarrow> (str \<Rightarrow> int option) \<Rightarrow> str \<Rightarrow> ynode \<Rightarrow> yaml \<Rightarrow> import_error + yaml" where
  "yaml_connection isword servbyname name body y0 =
     (let y = (if name \<noteq> [] then y0\<lparr>ya_aliases := AList.update name name (ya_aliases y0)\<rparr> else y0);
          c = new_conn name (if name \<noteq> [] then name else ascii ''a connection without a name'') False in
      rbind (case body of
               YMap es \<Rightarrow> read_conn isword servbyname y name es c
             | _ \<Rightarrow> Inr (False, skip_conn (Note ''NotMapping'' []) c)) (\<lambda>(imported, c').
        Inr (y\<lparr>ya_conns := (if imported then ya_conns y @ [c'] else ya_conns y),
               ya_warnings := ya_warnings y @ conn_warnings imported c'\<rparr>)))"

section \<open>Main-level entries\<close>

definition define_entry :: "str \<Rightarrow> ynode \<Rightarrow> yaml \<Rightarrow> yaml" where
  "define_entry name v y = (let (t, y1) = gtext v (ascii ''define '' @ name) y in y1\<lparr>ya_aliases := AList.update name t (ya_aliases y1)\<rparr>)"

definition default_entry :: "(str \<times> ynode \<times> str) list \<Rightarrow> yaml \<Rightarrow> yaml" where
  "default_entry es y =
     (let (name, y1) = gtext (ymap_get es ''name'' []) (ascii ''default'') y;
          (v, y2) = gtext (ymap_get es ''value'' []) (ascii ''default'') y1;
          (cls, y3) = gtext (ymap_get es ''class'' []) (ascii ''default'') y2 in
      yaml_default name v cls y3)"

definition defaults_entry :: "yaml \<Rightarrow> str \<times> ynode \<times> str \<Rightarrow> yaml" where
  "defaults_entry y e =
     (let (name, body, _) = e in
      case body of
        YMap es \<Rightarrow>
          (let (v, y1) = gtext (ymap_get es ''value'' []) (ascii ''default '' @ name) y;
               (cls, y2) = gtext (ymap_get es ''class'' []) (ascii ''default '' @ name) y1 in
           yaml_default name v cls y2)
      | _ \<Rightarrow> y)"

definition rotator_names :: "str \<Rightarrow> str \<Rightarrow> ynode \<Rightarrow> str list" where
  "rotator_names k anchor v =
     (let names = (if k = ascii ''rotator'' then [anchor] else map fst (map_entries v)) in
      if names = [] then [ascii ''(unnamed)''] else names)"

definition top_entry :: "(nat \<Rightarrow> bool) \<Rightarrow> (str \<Rightarrow> int option) \<Rightarrow> yaml \<Rightarrow> str \<times> ynode \<times> str \<Rightarrow> import_error + yaml" where
  "top_entry isword servbyname y e =
     (let (key, v, anchor) = e; k = lower_kw key in
      if k = ascii ''define'' then Inr (if anchor \<noteq> [] then define_entry anchor v y else y)
      else if k = ascii ''defines'' \<and> is_map v then Inr (foldl (\<lambda>y (name, t, _). define_entry name t y) y (map_entries v))
      else if k = ascii ''connection'' then yaml_connection isword servbyname anchor v y
      else if k = ascii ''connections'' \<and> is_map v then
        rfold (\<lambda>y (name, body, _). yaml_connection isword servbyname name body y) y (map_entries v)
      else if k = ascii ''default'' \<and> is_map v then Inr (default_entry (map_entries v) y)
      else if k = ascii ''defaults'' \<and> is_map v then Inr (foldl defaults_entry y (map_entries v))
      else if k = ascii ''delete_default'' \<and> is_map v then
        Inr (let (name, y1) = gtext (ymap_get (map_entries v) ''name'' []) (ascii ''delete_default'') y in delete_default name y1)
      else if k = ascii ''delete_defaults'' \<and> is_map v then Inr (foldl (\<lambda>y (name, _, _). delete_default name y) y (map_entries v))
      else if k = ascii ''rotator'' \<or> k = ascii ''rotators'' then
        Inr (foldl (\<lambda>y name. yaml_warn (Note ''RotatorNotImported'' [name]) y) y (rotator_names k anchor v))
      else if k = ascii ''admin'' \<or> k = ascii ''admins'' then Inr (yaml_warn (Note ''AdminNotImported'' []) y)
      else if k = ascii ''include'' then
        Inr (let (t, y1) = gtext v (ascii ''include'') y in yaml_warn (Note ''IncludeNotRead'' [t]) y1)
      else if k \<in> set (map ascii [''led'', ''leds'', ''defines'', ''connections'', ''defaults'', ''delete_default'', ''delete_defaults'', ''default'']) then Inr y
      else Inr (yaml_warn (Note ''UnknownTopLevel'' [key]) y))"

definition V1_KEYS :: "str list" where
  "V1_KEYS = map ascii [''connection'', ''define'', ''default'', ''delete_default'', ''rotator'', ''led'', ''admin'']"

definition V2_KEYS :: "str list" where
  "V2_KEYS = map ascii [''connections'', ''defines'', ''defaults'', ''delete_defaults'', ''rotators'', ''leds'', ''admins'']"

text \<open>\<open>_from_yaml\<close> after the reader.\<close>

definition from_documents :: "(nat \<Rightarrow> bool) \<Rightarrow> (str \<Rightarrow> int option) \<Rightarrow> str \<Rightarrow> ynode list \<Rightarrow> import_error + conn list \<times> (str \<times> warning) list" where
  "from_documents isword servbyname label docs =
     (let entries = concat (map map_entries docs); keys = map (\<lambda>(k, _). lower_kw k) entries;
          v1 = list_ex (\<lambda>k. k \<in> set V1_KEYS) keys; v2 = list_ex (\<lambda>k. k \<in> set V2_KEYS) keys;
          y = yaml_init (if v2 \<and> \<not> v1 then [61] else if v2 then [42, 61] else [42]) in
      if \<not> v1 \<and> \<not> v2 then Inl (Refused ''NotSer2net'' [label])
      else
        rbind (rfold (top_entry isword servbyname) (if v1 \<and> v2 then yaml_warn (Note ''MixedVersions'' []) y else y) entries) (\<lambda>y'.
        Inr (ya_conns y', ya_warnings y')))"

end
