(* ===== verification/Yaml_Reader.thy ===== *)
theory Yaml_Reader
  imports Ser2net_Yaml
begin

text \<open>
  \<open>app/ser2net_import.py\<close>, the reader for the YAML subset of ser2net configurations: scalars, flow collections, and block
  mappings and sequences by indentation. The reader's state is the lines left to read; the recursive parts take fuel, and running
  out of it is an error of its own, so that the termination of the code is a statement about the model.
\<close>

section \<open>Errors and lines\<close>

text \<open>\<open>_YamlError\<close> with its line, the \<open>ValueError\<close> of \<open>chr\<close>, and an exhausted model.\<close>

datatype yaml_error = Yaml_error nat string "str list" | Chr_error | Out_of_fuel

text \<open>\<open>ValueError\<close> inside a flow collection; \<open>_flow\<close> turns it into a \<open>_YamlError\<close>.\<close>

datatype flow_error = Flow_error string "str list" | Flow_fuel

definition blank_char :: "nat \<Rightarrow> bool" where "blank_char c \<longleftrightarrow> c = 32 \<or> c = 9"

definition blank_nl :: "nat \<Rightarrow> bool" where "blank_nl c \<longleftrightarrow> c = 32 \<or> c = 9 \<or> c = 10"

definition strip_blank :: "str \<Rightarrow> str" where
  "strip_blank s = rstrip_of blank_char (lstrip_of blank_char s)"

text \<open>\<open>len(prefix.expandtabs(8))\<close>.\<close>

definition tab_width :: "str \<Rightarrow> nat" where
  "tab_width s = foldl (\<lambda>col c. if c = 9 then (col div 8 + 1) * 8 else col + 1) 0 s"

definition line_indent :: "str \<Rightarrow> nat \<times> str" where
  "line_indent line = (tab_width (takeWhile blank_char line), dropWhile blank_char line)"

definition marker :: "str \<Rightarrow> str \<Rightarrow> bool" where
  "marker body mark \<longleftrightarrow> body = mark \<or> is_prefix_of (mark @ [32]) body \<or> is_prefix_of (mark @ [9]) body"

definition boundary :: "nat \<Rightarrow> str \<Rightarrow> bool" where
  "boundary ind body \<longleftrightarrow> ind = 0 \<and> (take 1 body = [37] \<or> marker body (ascii ''---'') \<or> marker body (ascii ''...''))"

definition is_item :: "str \<Rightarrow> bool" where
  "is_item body \<longleftrightarrow> body = [45] \<or> is_prefix_of [45, 32] body \<or> is_prefix_of [45, 9] body"

text \<open>The text before the first white space that is followed by a number sign.\<close>

fun before_comment :: "str \<Rightarrow> str" where
  "before_comment [] = []"
| "before_comment (c # cs) = (if py_isspace c \<and> take 1 cs = [35] then [] else c # before_comment cs)"

definition cut_comment :: "str \<Rightarrow> str" where
  "cut_comment s = rstrip_of py_isspace (before_comment s)"

text \<open>The first colon that ends a key: the text before and after it.\<close>

fun key_colon :: "str \<Rightarrow> str \<Rightarrow> (str \<times> str) option" where
  "key_colon before [] = None"
| "key_colon before (c # cs) =
     (if c = 58 \<and> (cs = [] \<or> blank_char (hd cs)) then Some (before, cs) else key_colon (before @ [c]) cs)"

definition key_of :: "str \<Rightarrow> (str \<times> str) option" where
  "key_of body =
     (let q = hd body in
      if q = 34 \<or> q = 39 then
        (let inner = takeWhile (\<lambda>c. c \<noteq> q) (tl body);
             rest = (if q \<in> set (tl body) then dropWhile blank_char (drop (length inner + 2) body) else []) in
         if take 1 rest = [58] \<and> (length rest = 1 \<or> blank_char (rest ! 1)) then Some (inner, tl rest) else None)
      else if q \<in> set (ascii ''[]{},&*!|>%@`#'') \<or> is_item body then None
      else case key_colon [] body of
        None \<Rightarrow> None
      | Some (before, after) \<Rightarrow>
          let key = rstrip_of py_isspace before in
          if key = [] \<or> before_comment key \<noteq> key then None else Some (key, after))"

section \<open>Quoted scalars\<close>

text \<open>\<open>_close_quote\<close>: the index of the closing quote.\<close>

fun close_quote :: "nat \<Rightarrow> str \<Rightarrow> nat option" where
  "close_quote q [] = None"
| "close_quote q (c # cs) =
     (if q = 34 \<and> c = 92 then (case cs of [] \<Rightarrow> None | _ # ds \<Rightarrow> map_option (\<lambda>j. j + 2) (close_quote q ds))
      else if c = q then
        (if q = 39 \<and> take 1 cs = [39] then (case cs of [] \<Rightarrow> None | _ # ds \<Rightarrow> map_option (\<lambda>j. j + 2) (close_quote q ds)) else Some 0)
      else map_option (\<lambda>j. j + 1) (close_quote q cs))"

definition DQ_ESCAPES :: "(nat \<times> nat) list" where
  "DQ_ESCAPES = [(48, 0), (97, 7), (98, 8), (116, 9), (9, 9), (110, 10), (118, 11), (102, 12), (114, 13), (101, 27), (32, 32), (34, 34),
     (47, 47), (92, 92), (78, 133), (95, 160), (76, 8232), (80, 8233)]"

text \<open>\<open>chr(int(digits, 16))\<close> for exactly \<open>n\<close> hexadecimal digits; \<open>None\<close> when they are not all there.\<close>

definition hex_run :: "nat \<Rightarrow> str \<Rightarrow> nat option" where
  "hex_run n s = (if length (takeWhile (\<lambda>d. hex_digit d \<noteq> None) (take n s)) = n then hex_value 0 (take n s) else None)"

definition hex_escape :: "nat \<Rightarrow> nat option" where
  "hex_escape c = map_of [(120, 2), (117, 4), (85, 8)] c"

text \<open>\<open>_dq_unescape\<close>; \<open>None\<close> is the \<open>ValueError\<close> of \<open>chr\<close>.\<close>

function dq_unescape :: "str \<Rightarrow> str option" where
  "dq_unescape s =
     (case s of
        [] \<Rightarrow> Some []
      | c # cs \<Rightarrow>
          if c \<noteq> 92 \<or> cs = [] then map_option (\<lambda>t. c # t) (dq_unescape cs)
          else case (case hex_escape (hd cs) of Some n \<Rightarrow> map_option (\<lambda>v. (n, v)) (hex_run n (tl cs)) | None \<Rightarrow> None) of
            Some (n, v) \<Rightarrow> if v > 0x10FFFF then None else map_option (\<lambda>t. v # t) (dq_unescape (drop n (tl cs)))
          | None \<Rightarrow>
              map_option (\<lambda>t. (case map_of DQ_ESCAPES (hd cs) of Some v \<Rightarrow> [v] | None \<Rightarrow> [92, hd cs]) @ t) (dq_unescape (tl cs)))"
  by pat_completeness auto

termination dq_unescape
  by (relation "measure length") auto

declare dq_unescape.simps [simp del]

fun replace_quotes :: "str \<Rightarrow> str" where
  "replace_quotes [] = []"
| "replace_quotes [c] = [c]"
| "replace_quotes (c # d # cs) = (if c = 39 \<and> d = 39 then 39 # replace_quotes cs else c # replace_quotes (d # cs))"

text \<open>The lines after the first of a quoted scalar: the text so far and the number of blank_char lines.\<close>

primrec fold_lines :: "nat \<Rightarrow> str \<Rightarrow> nat \<Rightarrow> str list \<Rightarrow> str" where
  "fold_lines q text blanks [] = text"
| "fold_lines q text blanks (raw # rest) =
     (let final = (rest = []); seg = (if final then lstrip_of blank_char raw else strip_blank raw) in
      if seg = [] \<and> \<not> final then fold_lines q text (blanks + 1) rest
      else
        let t = rstrip_of blank_char text; trailing = length (takeWhile (\<lambda>c. c = 92) (rev t)) in
        fold_lines q
          ((if q = 34 \<and> odd trailing then butlast t else t @ (if blanks > 0 then replicate blanks 10 else [32])) @ seg) 0 rest)"

definition fold_quoted :: "nat \<Rightarrow> str list \<Rightarrow> str option" where
  "fold_quoted q parts = (let t = fold_lines q (hd parts) 0 (tl parts) in if q = 34 then dq_unescape t else Some (replace_quotes t))"

section \<open>Flow collections\<close>

text \<open>\<open>_flow_end\<close>: the text up to the closing bracket and the rest, with the character before the current one.\<close>

function flow_end :: "nat \<Rightarrow> nat option \<Rightarrow> nat option \<Rightarrow> nat \<Rightarrow> str \<Rightarrow> nat option" where
  "flow_end j prev quote depth s =
     (case s of
        [] \<Rightarrow> None
      | c # cs \<Rightarrow>
          (case quote of
             Some q \<Rightarrow>
               if c = 92 \<and> q = 34 then flow_end (j + 2) (if cs = [] then prev else Some (hd cs)) quote depth (tl cs)
               else flow_end (j + 1) (Some c) (if c = q then None else quote) depth cs
           | None \<Rightarrow>
               if (c = 34 \<or> c = 39) \<and> (case prev of None \<Rightarrow> True | Some p \<Rightarrow> blank_nl p \<or> p \<in> set (ascii '',[{:''))
               then flow_end (j + 1) (Some c) (Some c) depth cs
               else if c = 35 \<and> (case prev of None \<Rightarrow> True | Some p \<Rightarrow> blank_nl p) then
                 (if 10 \<in> set cs
                  then flow_end (j + length (takeWhile (\<lambda>d. d \<noteq> 10) cs) + 2) (Some 10) None depth (tl (dropWhile (\<lambda>d. d \<noteq> 10) cs))
                  else None)
               else if c = 91 \<or> c = 123 then flow_end (j + 1) (Some c) None (depth + 1) cs
               else if c = 93 \<or> c = 125 then
                 (if depth = 1 then Some (j + 1) else flow_end (j + 1) (Some c) None (depth - 1) cs)
               else flow_end (j + 1) (Some c) None depth cs))"
  by pat_completeness auto

termination flow_end
  by (relation "measure (\<lambda>(j, prev, quote, depth, s). length s)") (auto simp: less_Suc_eq_le length_dropWhile_le le_diff_conv le_SucI)

declare flow_end.simps [simp del]

definition alias_char :: "nat \<Rightarrow> bool" where
  "alias_char c \<longleftrightarrow> \<not> py_isspace c \<and> c \<notin> set (ascii '',[]{}'')"

text \<open>\<open>_Flow._ws\<close>: what is left after blanks and comments, with the character before it.\<close>

function flow_ws :: "nat option \<Rightarrow> str \<Rightarrow> nat option \<times> str" where
  "flow_ws prev s =
     (case s of
        [] \<Rightarrow> (prev, [])
      | c # cs \<Rightarrow>
          if blank_nl c then flow_ws (Some c) cs
          else if c = 35 \<and> (case prev of None \<Rightarrow> True | Some p \<Rightarrow> blank_nl p) then
            (let r = dropWhile (\<lambda>d. d \<noteq> 10) cs in if r = [] then (Some c, []) else flow_ws (Some 10) (tl r))
          else (prev, s))"
  by pat_completeness auto

termination flow_ws
  by (relation "measure (\<lambda>(prev, s). length s)") (auto simp: less_Suc_eq_le length_dropWhile_le le_diff_conv le_SucI)

declare flow_ws.simps [simp del]

text \<open>The end of a plain scalar inside a flow collection.\<close>

definition flow_stop :: "nat option \<Rightarrow> str \<Rightarrow> bool" where
  "flow_stop prev s =
     (case s of
        [] \<Rightarrow> True
      | c # cs \<Rightarrow> c \<in> set (ascii '',[]{}'') \<or> c = 58 \<and> (cs = [] \<or> hd cs \<in> {32, 9, 10, 44, 93, 125})
          \<or> c = 35 \<and> (case prev of None \<Rightarrow> False | Some p \<Rightarrow> blank_nl p))"

fun flow_plain :: "nat option \<Rightarrow> str \<Rightarrow> str \<times> nat option \<times> str" where
  "flow_plain prev [] = ([], prev, [])"
| "flow_plain prev (c # cs) =
     (if flow_stop prev (c # cs) then ([], prev, c # cs)
      else let (t, p, r) = flow_plain (Some c) cs in (c # t, p, r))"

definition plain_text :: "str \<Rightarrow> str" where
  "plain_text s = join_with 32 (filter (\<lambda>l. l \<noteq> []) (map strip (split_on 10 s)))"

text \<open>\<open>str(item)\<close> of a mapping key. What Python prints for a list or a mapping starts with a bracket or an underscore and can
  only appear in a warning; it is not modelled beyond that.\<close>

definition key_text :: "ynode \<Rightarrow> str" where
  "key_text v = (case v of YText t \<Rightarrow> t | YList _ \<Rightarrow> ascii ''[]'' | YMap _ \<Rightarrow> ascii ''_YMap()'')"

text \<open>\<open>value\<close>, and the loop of \<open>_collection\<close> one round per call with the items or entries read so far. The functions they
  call are the argument \<open>run\<close>.\<close>

datatype flow_call = F_value | F_items "ynode list" | F_entries "(str \<times> ynode \<times> str) list"

type_synonym flow_state = "nat option \<times> str"
type_synonym flow_result = "flow_error + ynode \<times> flow_state"

definition flow_value :: "(flow_call \<Rightarrow> flow_state \<Rightarrow> flow_result) \<Rightarrow> (str \<times> ynode) list \<Rightarrow> flow_state \<Rightarrow> flow_result" where
  "flow_value run anchors st =
     (let (prev, s) = flow_ws (fst st) (snd st); c = take 1 s in
      if c = [91] then run (F_items []) (Some 91, tl s)
      else if c = [123] then run (F_entries []) (Some 123, tl s)
      else if c = [39] \<or> c = [34] then
        (case close_quote (hd s) (tl s) of
           None \<Rightarrow> Inl (Flow_error ''UnterminatedQuote'' [])
         | Some e \<Rightarrow>
             (case fold_quoted (hd s) (split_on 10 (take e (tl s))) of
                None \<Rightarrow> Inl (Flow_error ''BadCharacter'' [])
              | Some t \<Rightarrow> Inr (YText t, Some (hd s), drop (e + 2) s)))
      else if c = [42] then
        (let name = takeWhile alias_char (tl s) in
         case map_of anchors name of
           None \<Rightarrow> Inl (Flow_error ''UnknownAlias'' [name])
         | Some v \<Rightarrow> Inr (v, Some (last (42 # name)), drop (1 + length name) s))
      else let (t, p, r) = flow_plain prev s in Inr (YText (plain_text t), p, r))"

text \<open>After an item: white space, then a comma or the closing bracket.\<close>

definition flow_more :: "(flow_call \<Rightarrow> flow_state \<Rightarrow> flow_result) \<Rightarrow> flow_call \<Rightarrow> nat \<Rightarrow> flow_state \<Rightarrow> flow_result" where
  "flow_more run again close st =
     (let (p, s) = flow_ws (fst st) (snd st) in
      if take 1 s = [44] then run again (Some 44, tl s)
      else if take 1 s = [close] then run again (p, s)
      else Inl (Flow_error ''ExpectedClose'' [[close]]))"

definition flow_items :: "(flow_call \<Rightarrow> flow_state \<Rightarrow> flow_result) \<Rightarrow> ynode list \<Rightarrow> flow_state \<Rightarrow> flow_result" where
  "flow_items run items st =
     (let (prev, s) = flow_ws (fst st) (snd st) in
      if take 1 s = [93] then Inr (YList items, Some 93, tl s)
      else rbind (run F_value (prev, s)) (\<lambda>(item, st1). flow_more run (F_items (items @ [item])) 93 st1))"

definition flow_entries :: "(flow_call \<Rightarrow> flow_state \<Rightarrow> flow_result) \<Rightarrow> (str \<times> ynode \<times> str) list \<Rightarrow> flow_state \<Rightarrow> flow_result" where
  "flow_entries run entries st =
     (let (prev, s) = flow_ws (fst st) (snd st) in
      if take 1 s = [125] then Inr (YMap entries, Some 125, tl s)
      else
        rbind (run F_value (prev, s)) (\<lambda>(item, st1).
          let (p2, s2) = flow_ws (fst st1) (snd st1) in
          rbind (if take 1 s2 = [58] then run F_value (Some 58, tl s2) else Inr (YText [], p2, s2)) (\<lambda>(v, st3).
            flow_more run (F_entries (entries @ [(key_text item, v, [])])) 125 st3)))"

primrec flow_run :: "nat \<Rightarrow> (str \<times> ynode) list \<Rightarrow> flow_call \<Rightarrow> flow_state \<Rightarrow> flow_result" where
  "flow_run 0 anchors call st = Inl Flow_fuel"
| "flow_run (Suc fuel) anchors call st =
     (case call of
        F_value \<Rightarrow> flow_value (flow_run fuel anchors) anchors st
      | F_items items \<Rightarrow> flow_items (flow_run fuel anchors) items st
      | F_entries entries \<Rightarrow> flow_entries (flow_run fuel anchors) entries st)"

text \<open>Every call but the last of a round consumes a character.\<close>

definition flow_fuel :: "str \<Rightarrow> nat" where
  "flow_fuel s = 3 * length s + 4"

definition flow_parse :: "(str \<times> ynode) list \<Rightarrow> str \<Rightarrow> flow_result" where
  "flow_parse anchors text = flow_run (flow_fuel text) anchors F_value (None, text)"

section \<open>Blocks\<close>

record reader =
  yr_rest :: "str list"
  yr_i :: nat
  yr_last :: nat
  yr_anchors :: "(str \<times> ynode) list"

definition reader_init :: "str \<Rightarrow> reader" where
  "reader_init text = \<lparr>yr_rest = split_on 10 text, yr_i = 0, yr_last = 0, yr_anchors = []\<rparr>"

text \<open>Errors carry the line number that \<open>_err\<close> gives them: the last line taken, or the next one.\<close>

definition err_last :: "reader \<Rightarrow> string \<Rightarrow> str list \<Rightarrow> yaml_error" where
  "err_last r msg args = Yaml_error (yr_last r + 1) msg args"

definition err_next :: "reader \<Rightarrow> string \<Rightarrow> str list \<Rightarrow> yaml_error" where
  "err_next r msg args = Yaml_error (yr_i r + 1) msg args"

text \<open>\<open>self.i += 1\<close> and \<open>_take\<close>.\<close>

definition pass_line :: "reader \<Rightarrow> reader" where
  "pass_line r = r\<lparr>yr_rest := tl (yr_rest r), yr_i := yr_i r + 1\<rparr>"

definition use_line :: "reader \<Rightarrow> reader" where
  "use_line r = (pass_line r)\<lparr>yr_last := yr_i r\<rparr>"

definition blank_line :: "str \<Rightarrow> bool" where
  "blank_line body \<longleftrightarrow> body = [] \<or> take 1 body = [35]"

fun skip_blank :: "nat \<Rightarrow> str list \<Rightarrow> nat \<times> str list" where
  "skip_blank i [] = (i, [])"
| "skip_blank i (l # ls) = (if blank_line (snd (line_indent l)) then skip_blank (i + 1) ls else (i, l # ls))"

definition peek :: "reader \<Rightarrow> (nat \<times> str) option \<times> reader" where
  "peek r =
     (let (i, rest) = skip_blank (yr_i r) (yr_rest r); r1 = r\<lparr>yr_rest := rest, yr_i := i\<rparr> in
      case rest of
        [] \<Rightarrow> (None, r1)
      | l # _ \<Rightarrow> (let (ind, body) = line_indent l in (if boundary ind body then None else Some (ind, body), r1)))"

text \<open>\<open>_plain\<close>: continuation lines; \<open>parent\<close> is an integer because the at_root's parent is -1.\<close>

function plain_loop :: "int \<Rightarrow> str \<Rightarrow> nat \<Rightarrow> reader \<Rightarrow> str \<times> reader" where
  "plain_loop parent out breaks r =
     (case yr_rest r of
        [] \<Rightarrow> (out, r)
      | l # _ \<Rightarrow>
          let (ind, body) = line_indent l in
          if blank_line body then plain_loop parent out (breaks + (if body = [] then 1 else 0)) (pass_line r)
          else if int ind \<le> parent \<or> boundary ind body then (out, r)
          else plain_loop parent (out @ (if breaks > 0 then replicate breaks 10 else [32]) @ cut_comment body) 0 (use_line r))"
  by pat_completeness auto

termination plain_loop
  by (relation "measure (\<lambda>(parent, out, breaks, r). length (yr_rest r))") (auto simp: pass_line_def use_line_def)

declare plain_loop.simps [simp del]

definition plain_scalar :: "str \<Rightarrow> int \<Rightarrow> reader \<Rightarrow> str \<times> reader" where
  "plain_scalar first parent r = plain_loop parent (cut_comment first) 0 r"

text \<open>\<open>_quoted\<close>: the lines up to the one with the closing quote.\<close>

function quoted_loop :: "nat \<Rightarrow> str list \<Rightarrow> reader \<Rightarrow> yaml_error + str list \<times> nat \<times> reader" where
  "quoted_loop q parts r =
     (case close_quote q (last parts) of
        Some e \<Rightarrow> Inr (parts, e, r)
      | None \<Rightarrow>
          (case yr_rest r of
             [] \<Rightarrow> Inl (err_last r ''UnterminatedQuote'' [])
           | l # _ \<Rightarrow> quoted_loop q (parts @ [l]) (use_line r)))"
  by pat_completeness auto

termination quoted_loop
  by (relation "measure (\<lambda>(q, parts, r). length (yr_rest r))") (auto simp: pass_line_def use_line_def)

declare quoted_loop.simps [simp del]

definition quoted_scalar :: "str \<Rightarrow> reader \<Rightarrow> yaml_error + str \<times> reader" where
  "quoted_scalar s r =
     rbind (quoted_loop (hd s) [tl s] r) (\<lambda>(parts, e, r1).
       let tail = strip (drop (e + 1) (last parts)) in
       rbind (ensure (tail = [] \<or> take 1 tail = [35]) (err_last r1 ''TextAfterQuote'' [])) (\<lambda>_.
       case fold_quoted (hd s) (butlast parts @ [take e (last parts)]) of
         None \<Rightarrow> Inl Chr_error
       | Some t \<Rightarrow> Inr (t, r1)))"

function flow_lines :: "str \<Rightarrow> reader \<Rightarrow> yaml_error + str \<times> nat \<times> reader" where
  "flow_lines text r =
     (case flow_end 0 None None 0 text of
        Some e \<Rightarrow> Inr (text, e, r)
      | None \<Rightarrow>
          (case yr_rest r of
             [] \<Rightarrow> Inl (err_last r ''UnterminatedFlow'' [])
           | l # _ \<Rightarrow> flow_lines (text @ 10 # l) (use_line r)))"
  by pat_completeness auto

termination flow_lines
  by (relation "measure (\<lambda>(text, r). length (yr_rest r))") (auto simp: pass_line_def use_line_def)

declare flow_lines.simps [simp del]

definition flow_node :: "str \<Rightarrow> reader \<Rightarrow> yaml_error + ynode \<times> reader" where
  "flow_node s r =
     rbind (flow_lines s r) (\<lambda>(text, e, r1).
       let tail = strip (drop e text) in
       rbind (ensure (tail = [] \<or> take 1 tail = [35]) (err_last r1 ''TextAfterFlow'' [])) (\<lambda>_.
       case flow_parse (yr_anchors r1) (take e text) of
         Inl (Flow_error msg args) \<Rightarrow> Inl (err_last r1 msg args)
       | Inl Flow_fuel \<Rightarrow> Inl Out_of_fuel
       | Inr (v, _) \<Rightarrow> Inr (v, r1)))"

text \<open>\<open>_block_scalar\<close>: the header's style, chomping and indentation indicator.\<close>

definition block_header :: "str \<Rightarrow> (nat \<times> str \<times> str) option" where
  "block_header h =
     (let (g2, r1) = optional (\<lambda>c. c = 43 \<or> c = 45) (tl h);
          (g3, r2) = optional (\<lambda>c. 49 \<le> c \<and> c \<le> 57) r1;
          (g4, r3) = optional (\<lambda>c. c = 43 \<or> c = 45) r2;
          tail = dropWhile py_isspace r3 in
      if tail = [] \<or> hd tail = 35 then Some (hd h, if g2 \<noteq> [] then g2 else g4, g3) else None)"

function block_lines :: "int \<Rightarrow> int \<Rightarrow> str list \<Rightarrow> reader \<Rightarrow> str list \<times> reader" where
  "block_lines parent indent ls r =
     (case yr_rest r of
        [] \<Rightarrow> (ls, r)
      | l # _ \<Rightarrow>
          let (ind, body) = line_indent l; indent' = (if indent < 0 then int ind else indent) in
          if body = [] then block_lines parent indent (ls @ [[]]) (pass_line r)
          else if int ind < indent' \<or> int ind \<le> parent then (ls, r)
          else block_lines parent indent' (ls @ [replicate (nat (int ind - indent')) 32 @ body]) (use_line r))"
  by pat_completeness auto

termination block_lines
  by (relation "measure (\<lambda>(parent, indent, ls, r). length (yr_rest r))") (auto simp: pass_line_def use_line_def)

declare block_lines.simps [simp del]

primrec folded_text :: "str \<Rightarrow> nat \<Rightarrow> str list \<Rightarrow> str" where
  "folded_text text blanks [] = text"
| "folded_text text blanks (l # ls) =
     (if l = [] then folded_text text (blanks + 1) ls
      else folded_text (if text = [] then l else text @ (if blanks > 0 then replicate blanks 10 else [32]) @ l) 0 ls)"

definition block_text :: "nat \<Rightarrow> str \<Rightarrow> str list \<Rightarrow> str" where
  "block_text style chomp ls =
     (let trailing = length (takeWhile (\<lambda>l. l = []) (rev ls)); kept = take (length ls - trailing) ls;
          text = (if style = 124 then join_with 10 kept else folded_text [] 0 kept) in
      if chomp = [45] \<or> text = [] then text else text @ replicate (if chomp = [43] then 1 + trailing else 1) 10)"

definition block_scalar :: "str \<Rightarrow> int \<Rightarrow> reader \<Rightarrow> yaml_error + str \<times> reader" where
  "block_scalar header parent r =
     (case block_header header of
        None \<Rightarrow> Inl (err_last r ''BadBlockHeader'' [])
      | Some (style, chomp, width) \<Rightarrow>
          let (ls, r1) = block_lines parent (if width \<noteq> [] then max parent 0 + (int (hd width) - 48) else -1) [] r in
          Inr (block_text style chomp ls, r1))"

text \<open>Anchors and tags in front of a value.\<close>

function node_tags :: "str \<Rightarrow> str \<Rightarrow> str \<times> str" where
  "node_tags anchor s =
     (case s of
        [] \<Rightarrow> (anchor, [])
      | c # cs \<Rightarrow>
          if c = 38 \<or> c = 33 then
            node_tags (if c = 38 then takeWhile (\<lambda>x. \<not> py_isspace x) cs else anchor) (dropWhile py_isspace (dropWhile (\<lambda>x. \<not> py_isspace x) cs))
          else (anchor, s))"
  by pat_completeness auto

termination node_tags
  by (relation "measure (\<lambda>(anchor, s). length s)") (auto simp: less_Suc_eq_le intro: order_trans [OF length_dropWhile_le length_dropWhile_le])

declare node_tags.simps [simp del]

text \<open>The mutually recursive methods; the loops of \<open>_map\<close> and \<open>_seq\<close> are one round per call with what they have read so far.\<close>

datatype block_call = B_node int | B_map nat bool "(str \<times> ynode \<times> str) list" | B_seq nat "ynode list" | B_value str int bool

text \<open>The node, its anchor (of \<open>_value\<close> only) and the reader.\<close>

type_synonym block_result = "yaml_error + ynode \<times> str \<times> reader"

definition block_node :: "(block_call \<Rightarrow> reader \<Rightarrow> block_result) \<Rightarrow> int \<Rightarrow> reader \<Rightarrow> block_result" where
  "block_node run parent r =
     (let (nxt, r1) = peek r in
      case nxt of
        None \<Rightarrow> Inr (YText [], [], r1)
      | Some (ind, body) \<Rightarrow>
          if int ind \<le> parent then Inr (YText [], [], r1)
          else if is_item body then run (B_seq ind []) r1
          else if key_of body \<noteq> None then run (B_map ind (parent < 0) []) r1
          else run (B_value body parent False) (use_line r1))"

definition set_anchor :: "str \<Rightarrow> ynode \<Rightarrow> reader \<Rightarrow> reader" where
  "set_anchor name v r = r\<lparr>yr_anchors := AList.update name v (yr_anchors r)\<rparr>"

definition block_map :: "(block_call \<Rightarrow> reader \<Rightarrow> block_result) \<Rightarrow> nat \<Rightarrow> bool \<Rightarrow> (str \<times> ynode \<times> str) list \<Rightarrow> reader \<Rightarrow> block_result" where
  "block_map run ind at_root entries r =
     (let (nxt, r1) = peek r in
      case nxt of
        None \<Rightarrow> Inr (YMap entries, [], r1)
      | Some (i, body) \<Rightarrow>
          if i < ind then Inr (YMap entries, [], r1)
          else case (if i = ind then key_of body else None) of
            Some (key, rest) \<Rightarrow>
              rbind (run (B_value rest (int ind) True) (use_line r1)) (\<lambda>(v, anchor, r2).
                run (B_map ind at_root (entries @ [(key, v, anchor)]))
                  (if at_root \<and> anchor \<noteq> [] \<and> (case v of YText _ \<Rightarrow> False | _ \<Rightarrow> True) then set_anchor anchor (YText anchor) r2 else r2))
          | None \<Rightarrow>
              if i = ind \<and> is_item body then Inr (YMap entries, [], r1) else Inl (err_next r1 ''ExpectedKey'' []))"

text \<open>A nested block that starts on the line of its dash: the line without the dash.\<close>

definition nest_line :: "str \<Rightarrow> nat \<Rightarrow> str \<Rightarrow> reader \<Rightarrow> reader" where
  "nest_line inner ind rest r = r\<lparr>yr_rest := (replicate (ind + 1 + length rest - length inner) 32 @ inner) # tl (yr_rest r)\<rparr>"

definition block_seq :: "(block_call \<Rightarrow> reader \<Rightarrow> block_result) \<Rightarrow> nat \<Rightarrow> ynode list \<Rightarrow> reader \<Rightarrow> block_result" where
  "block_seq run ind items r =
     (let (nxt, r1) = peek r in
      case nxt of
        None \<Rightarrow> Inr (YList items, [], r1)
      | Some (i, body) \<Rightarrow>
          if i < ind \<or> i = ind \<and> \<not> is_item body then Inr (YList items, [], r1)
          else if i > ind then Inl (err_next r1 ''UnexpectedIndentation'' [])
          else
            let rest = tl body; inner = dropWhile blank_char rest in
            rbind (if inner \<noteq> [] \<and> hd inner \<noteq> 35 \<and> (is_item inner \<or> key_of inner \<noteq> None)
                   then run (B_node (int ind)) (nest_line inner ind rest r1)
                   else run (B_value rest (int ind) False) (use_line r1)) (\<lambda>(v, _, r2).
              run (B_seq ind (items @ [v])) r2))"

definition alias_node :: "str \<Rightarrow> reader \<Rightarrow> yaml_error + ynode" where
  "alias_node s r =
     (let name = takeWhile alias_char (tl s) in
      case map_of (yr_anchors r) name of None \<Rightarrow> Inl (err_last r ''UnknownAlias'' [name]) | Some v \<Rightarrow> Inr v)"

text \<open>The value without its anchor.\<close>

definition value_node :: "(block_call \<Rightarrow> reader \<Rightarrow> block_result) \<Rightarrow> str \<Rightarrow> int \<Rightarrow> bool \<Rightarrow> reader \<Rightarrow> yaml_error + ynode \<times> reader" where
  "value_node run s parent in_map r =
     (if s = [] \<or> hd s = 35 then
        (let (nxt, r1) = peek r in
         rbind (if in_map \<and> (case nxt of Some (i, body) \<Rightarrow> int i = parent \<and> is_item body | None \<Rightarrow> False)
                then run (B_seq (nat parent) []) r1 else run (B_node parent) r1) (\<lambda>(v, _, r2). Inr (v, r2)))
      else if hd s = 42 \<and> take 1 (tl s) \<noteq> [40] \<and> take 1 (tl s) \<noteq> [123] then rbind (alias_node s r) (\<lambda>v. Inr (v, r))
      else if hd s = 34 \<or> hd s = 39 then rbind (quoted_scalar s r) (\<lambda>(t, r1). Inr (YText t, r1))
      else if hd s = 91 \<or> hd s = 123 then flow_node s r
      else if hd s = 124 \<or> hd s = 62 then rbind (block_scalar s parent r) (\<lambda>(t, r1). Inr (YText t, r1))
      else let (t, r1) = plain_scalar s parent r in Inr (YText t, r1))"

definition block_value :: "(block_call \<Rightarrow> reader \<Rightarrow> block_result) \<Rightarrow> str \<Rightarrow> int \<Rightarrow> bool \<Rightarrow> reader \<Rightarrow> block_result" where
  "block_value run text parent in_map r =
     (let (anchor, s) = node_tags [] (strip text) in
      rbind (value_node run s parent in_map r) (\<lambda>(v, r1). Inr (v, anchor, if anchor \<noteq> [] then set_anchor anchor v r1 else r1)))"

primrec block_run :: "nat \<Rightarrow> block_call \<Rightarrow> reader \<Rightarrow> block_result" where
  "block_run 0 call r = Inl Out_of_fuel"
| "block_run (Suc fuel) call r =
     (case call of
        B_node parent \<Rightarrow> block_node (block_run fuel) parent r
      | B_map ind at_root entries \<Rightarrow> block_map (block_run fuel) ind at_root entries r
      | B_seq ind items \<Rightarrow> block_seq (block_run fuel) ind items r
      | B_value text parent in_map \<Rightarrow> block_value (block_run fuel) text parent in_map r)"

text \<open>What is left to read: the lines and their text without the indentation.\<close>

definition line_weight :: "str \<Rightarrow> nat" where "line_weight l = length (dropWhile blank_char l) + 1"

definition weight :: "reader \<Rightarrow> nat" where "weight r = sum_list (map line_weight (yr_rest r))"

definition block_fuel :: "reader \<Rightarrow> nat" where "block_fuel r = 4 * weight r + 4"

primrec documents_loop :: "nat \<Rightarrow> ynode list \<Rightarrow> reader \<Rightarrow> yaml_error + ynode list" where
  "documents_loop 0 docs r = Inl Out_of_fuel"
| "documents_loop (Suc fuel) docs r =
     (case yr_rest r of
        [] \<Rightarrow> Inr docs
      | l # _ \<Rightarrow>
          let (ind, body) = line_indent l in
          if blank_line body \<or> boundary ind body then documents_loop fuel docs (pass_line r)
          else
            rbind (block_run (block_fuel r) (B_node (-1)) r) (\<lambda>(v, _, r1).
              let (nxt, r2) = peek r1 in
              if nxt \<noteq> None then Inl (err_next r2 ''UnexpectedIndentation'' []) else documents_loop fuel (docs @ [v]) r2))"

definition documents :: "str \<Rightarrow> yaml_error + ynode list" where
  "documents text = (let r = reader_init text in documents_loop (weight r + 1) [] r)"

section \<open>Lemmas: flow collections end\<close>

text \<open>A result that is no exhausted fuel and leaves no more than \<open>n\<close> characters.\<close>

definition flow_ok :: "nat \<Rightarrow> flow_result \<Rightarrow> bool" where
  "flow_ok n res = (case res of Inl e \<Rightarrow> e \<noteq> Flow_fuel | Inr (_, st) \<Rightarrow> length (snd st) \<le> n)"

lemma flow_ws_length: "length (snd (flow_ws prev s)) \<le> length s"
proof (induction prev s rule: flow_ws.induct)
  case (1 prev s)
  show ?case
  proof (cases s)
    case Nil
    then show ?thesis by (simp add: flow_ws.simps)
  next
    case (Cons c cs)
    have t: "length (tl (dropWhile (\<lambda>d. d \<noteq> 10) cs)) \<le> length cs" using length_dropWhile_le [of "\<lambda>d. d \<noteq> 10" cs] by simp
    show ?thesis using 1 Cons t by (subst flow_ws.simps) (fastforce simp: Let_def split: option.splits)
  qed
qed

lemma flow_ws_stop: "\<not> blank_nl c \<Longrightarrow> c \<noteq> 35 \<Longrightarrow> flow_ws prev (c # cs) = (prev, c # cs)"
  by (simp add: flow_ws.simps)

lemma flow_plain_length: "length (snd (snd (flow_plain prev s))) \<le> length s"
  by (induction prev s rule: flow_plain.induct) (auto simp: case_prod_beta)

lemma take1_Cons: "take (Suc 0) s = [c] \<longleftrightarrow> s \<noteq> [] \<and> hd s = c"
  by (cases s) auto

lemma flow_ok_simps [simp]:
  "flow_ok n (Inl e) \<longleftrightarrow> e \<noteq> Flow_fuel" "flow_ok n (Inr (v, st)) \<longleftrightarrow> length (snd st) \<le> n"
  by (simp_all add: flow_ok_def)

lemma flow_ok_bind: "flow_ok n m \<Longrightarrow> (\<And>v p s. length s \<le> n \<Longrightarrow> flow_ok k (f (v, p, s))) \<Longrightarrow> flow_ok k (rbind m f)"
  by (cases m) auto

lemma flow_ok_mono: "flow_ok n r \<Longrightarrow> n \<le> m \<Longrightarrow> flow_ok m r"
  by (cases r) auto

text \<open>A round that finds the closing bracket ends at once.\<close>

lemma flow_close:
  "0 < fuel \<Longrightarrow> length s \<le> n \<Longrightarrow> flow_ok n (flow_run fuel anchors (F_items items) (p, 93 # s))"
  "0 < fuel \<Longrightarrow> length s \<le> n \<Longrightarrow> flow_ok n (flow_run fuel anchors (F_entries entries) (p, 125 # s))"
  by (cases fuel; simp add: flow_items_def flow_entries_def flow_ws_stop blank_nl_def flow_ok_def)+

text \<open>The contract of the recursive calls: enough fuel for what is left.\<close>

definition flow_need :: "flow_call \<Rightarrow> nat \<Rightarrow> nat" where
  "flow_need call n = 3 * n + (case call of F_value \<Rightarrow> 2 | _ \<Rightarrow> 3)"

definition flow_enough :: "nat \<Rightarrow> (flow_call \<Rightarrow> flow_state \<Rightarrow> flow_result) \<Rightarrow> bool" where
  "flow_enough fuel run \<longleftrightarrow> (\<forall>call p s. flow_need call (length s) \<le> fuel \<longrightarrow> flow_ok (length s) (run call (p, s)))"

lemma flow_enoughD: "flow_enough fuel run \<Longrightarrow> flow_need call (length s) \<le> fuel \<Longrightarrow> length s \<le> n \<Longrightarrow> flow_ok n (run call (p, s))"
  by (fastforce simp: flow_enough_def intro: flow_ok_mono)

lemma flow_ws_state: "flow_ws p s = (q, t) \<Longrightarrow> length t \<le> length s"
  using flow_ws_length [of p s] by simp

lemma flow_value_enough:
  assumes "flow_enough fuel run" and "3 * length t \<le> fuel"
  shows "flow_ok (length t) (flow_value run anchors (q, t))"
proof -
  obtain prev s where ws: "flow_ws q t = (prev, s)" by (cases "flow_ws q t")
  have l: "length s \<le> length t" using flow_ws_state [OF ws] .
  have "flow_ok (length t) (run call (p, tl s))" if "s \<noteq> []" for call p
    using flow_enoughD [OF assms(1), of call "tl s"] assms(2) l that by (cases s; cases call) (auto simp: flow_need_def)
  moreover have "length (snd (snd (flow_plain prev s))) \<le> length t" using flow_plain_length [of prev s] l by simp
  ultimately show ?thesis using l unfolding flow_value_def fst_conv snd_conv ws
    by (auto simp: Let_def take1_Cons case_prod_beta split: option.splits)
qed

lemma flow_more_enough:
  assumes "flow_enough fuel (flow_run fuel anchors)" and "length t \<le> n" and "3 * n \<le> fuel" and "0 < fuel"
    and "(\<exists>items. again = F_items items) \<and> close = 93 \<or> (\<exists>entries. again = F_entries entries) \<and> close = 125"
  shows "flow_ok n (flow_more (flow_run fuel anchors) again close (q, t))"
proof -
  obtain p s where ws: "flow_ws q t = (p, s)" by (cases "flow_ws q t")
  have l: "length s \<le> n" using flow_ws_state [OF ws] assms(2) by simp
  show ?thesis
  proof (cases s)
    case (Cons c cs)
    have "flow_ok n (flow_run fuel anchors again (Some 44, cs))"
      using flow_enoughD [OF assms(1), of again cs] assms(3,5) l Cons by (auto simp: flow_need_def)
    then show ?thesis using Cons l assms(4,5) flow_close [of fuel cs n anchors _ p] by (auto simp: flow_more_def ws)
  qed (simp add: flow_more_def ws)
qed

lemma flow_items_enough:
  assumes "flow_enough fuel (flow_run fuel anchors)" and "3 * length t + 2 \<le> fuel"
  shows "flow_ok (length t) (flow_items (flow_run fuel anchors) items (q, t))"
    and "flow_ok (length t) (flow_entries (flow_run fuel anchors) entries (q, t))"
proof -
  obtain p s where ws: "flow_ws q t = (p, s)" by (cases "flow_ws q t")
  have l: "length s \<le> length t" using flow_ws_state [OF ws] .
  have v: "flow_ok (length t) (flow_run fuel anchors F_value (p', s'))" if "length s' \<le> length t" for p' s'
    using flow_enoughD [OF assms(1), of F_value s'] assms(2) that by (simp add: flow_need_def)
  have m: "flow_ok (length t) (flow_more (flow_run fuel anchors) (F_items is') 93 (p', s'))"
    "flow_ok (length t) (flow_more (flow_run fuel anchors) (F_entries es') 125 (p', s'))" if "length s' \<le> length t" for p' s' is' es'
    using flow_more_enough [OF assms(1) that] assms(2) by auto
  show "flow_ok (length t) (flow_items (flow_run fuel anchors) items (q, t))"
    using l v m(1) by (auto simp: flow_items_def ws intro!: flow_ok_bind [of "length t"] le_trans [OF diff_le_self])
  have e: "flow_ok (length t) (let (p2, s2) = flow_ws p' s' in
      rbind (if take 1 s2 = [58] then flow_run fuel anchors F_value (Some 58, tl s2) else Inr (YText [], p2, s2)) (\<lambda>(v, st3).
        flow_more (flow_run fuel anchors) (F_entries (entries @ [(key_text item, v, [])])) 125 st3))" if "length s' \<le> length t" for p' s' item
    using that v m(2) flow_ws_length [of p' s']
    by (cases "flow_ws p' s'") (auto intro!: flow_ok_bind [of "length t"] split: if_splits intro: le_trans [OF diff_le_self])
  show "flow_ok (length t) (flow_entries (flow_run fuel anchors) entries (q, t))"
    using l v e by (auto simp: flow_entries_def ws intro!: flow_ok_bind [of "length t"] le_trans [OF diff_le_self])
qed

lemma flow_run_enough: "flow_enough fuel (flow_run fuel anchors)"
proof (induction fuel)
  case 0
  then show ?case by (auto simp: flow_enough_def flow_need_def split: flow_call.splits)
next
  case (Suc fuel)
  show ?case unfolding flow_enough_def
  proof (intro allI impI)
    fix call p and s :: str assume n: "flow_need call (length s) \<le> Suc fuel"
    show "flow_ok (length s) (flow_run (Suc fuel) anchors call (p, s))"
      using n flow_value_enough [OF Suc] flow_items_enough [OF Suc] by (cases call) (auto simp: flow_need_def)
  qed
qed

lemma flow_parse_ends: "flow_parse anchors s \<noteq> Inl Flow_fuel"
proof -
  have "flow_ok (length s) (flow_parse anchors s)"
    unfolding flow_parse_def flow_fuel_def by (rule flow_enoughD [OF flow_run_enough]) (simp_all add: flow_need_def)
  then show ?thesis by auto
qed

section \<open>Lemmas: blocks end\<close>

definition block_ok :: "nat \<Rightarrow> block_result \<Rightarrow> bool" where
  "block_ok n res = (case res of Inl e \<Rightarrow> e \<noteq> Out_of_fuel | Inr (_, _, r) \<Rightarrow> weight r \<le> n)"

lemma block_ok_simps [simp]:
  "block_ok n (Inl e) \<longleftrightarrow> e \<noteq> Out_of_fuel" "block_ok n (Inr (v, a, r)) \<longleftrightarrow> weight r \<le> n"
  by (simp_all add: block_ok_def)

lemma block_ok_mono: "block_ok n res \<Longrightarrow> n \<le> m \<Longrightarrow> block_ok m res"
  by (cases res) auto

lemma block_ok_bind: "block_ok n m \<Longrightarrow> (\<And>v a r. weight r \<le> n \<Longrightarrow> block_ok k (f (v, a, r))) \<Longrightarrow> block_ok k (rbind m f)"
  by (cases m) auto

lemma err_not_fuel [simp]: "err_last r msg args \<noteq> Out_of_fuel" "err_next r msg args \<noteq> Out_of_fuel"
  by (simp_all add: err_last_def err_next_def)

lemma weight_set_anchor [simp]: "weight (set_anchor name v r) = weight r"
  by (simp add: weight_def set_anchor_def)

lemma weight_use_line: "yr_rest r = l # ls \<Longrightarrow> weight (use_line r) + line_weight l = weight r"
  "yr_rest r = l # ls \<Longrightarrow> weight (pass_line r) + line_weight l = weight r"
  by (simp_all add: weight_def use_line_def pass_line_def)

lemma weight_shrinks [simp]: "weight (use_line r) \<le> weight r" "weight (pass_line r) \<le> weight r"
  by (cases "yr_rest r"; simp add: weight_def use_line_def pass_line_def)+

lemma skip_blank_weight: "sum_list (map line_weight (snd (skip_blank i ls))) \<le> sum_list (map line_weight ls)"
  by (induction i ls rule: skip_blank.induct) auto

lemma skip_blank_stop: "snd (skip_blank i ls) = l # rest \<Longrightarrow> \<not> blank_line (snd (line_indent l))"
  by (induction i ls rule: skip_blank.induct) (auto split: if_splits)

lemma peek_weight: "peek r = (nxt, r1) \<Longrightarrow> weight r1 \<le> weight r"
  using skip_blank_weight [of "yr_i r" "yr_rest r"]
  by (auto simp: peek_def weight_def Let_def split: prod.splits list.splits)

lemma peek_Some:
  assumes "peek r = (Some (ind, body), r1)"
  obtains l ls where "yr_rest r1 = l # ls" "line_indent l = (ind, body)" "body \<noteq> []" "weight (use_line r1) < weight r"
proof -
  obtain i rest where s: "skip_blank (yr_i r) (yr_rest r) = (i, rest)" by (cases "skip_blank (yr_i r) (yr_rest r)")
  then obtain l ls where l: "rest = l # ls" "yr_rest r1 = l # ls" "line_indent l = (ind, body)"
    using assms by (auto simp: peek_def Let_def split: list.splits prod.splits if_splits)
  have "\<not> blank_line body" using skip_blank_stop [of "yr_i r" "yr_rest r" l ls] s l by simp
  moreover have "weight (use_line r1) < weight r"
    using weight_use_line(1) [OF l(2)] peek_weight [OF assms] by (simp add: line_weight_def)
  ultimately show thesis using that l(2,3) by (auto simp: blank_line_def)
qed

lemma rest_lines [simp]: "yr_rest (use_line r) = tl (yr_rest r)" "yr_rest (pass_line r) = tl (yr_rest r)"
  by (simp_all add: use_line_def pass_line_def)

lemma plain_weight: "weight (snd (plain_loop parent out breaks r)) \<le> weight r"
proof (induction "length (yr_rest r)" arbitrary: out breaks r rule: less_induct)
  case less
  show ?case
  proof (cases "yr_rest r")
    case (Cons l ls)
    then have ih: "weight (snd (plain_loop parent o' b (pass_line r))) \<le> weight r"
      "weight (snd (plain_loop parent o' b (use_line r))) \<le> weight r" for o' b
      using less.hyps [of "pass_line r" o' b] less.hyps [of "use_line r" o' b] weight_shrinks [of r] by (auto intro: le_trans)
    show ?thesis using ih by (subst plain_loop.simps) (simp add: Cons Let_def split: prod.split)
  qed (simp add: plain_loop.simps)
qed

lemma quoted_weight: "quoted_loop q parts r = Inr (ps, e, r') \<Longrightarrow> weight r' \<le> weight r"
proof (induction q parts r rule: quoted_loop.induct)
  case (1 q parts r)
  then show ?case
    by (subst (asm) (2) quoted_loop.simps) (auto split: option.splits list.splits intro: le_trans)
qed

lemma flow_lines_weight: "flow_lines t r = Inr (t', e, r') \<Longrightarrow> weight r' \<le> weight r"
proof (induction t r rule: flow_lines.induct)
  case (1 t r)
  then show ?case
    by (subst (asm) (2) flow_lines.simps) (auto split: option.splits list.splits intro: le_trans)
qed

lemma block_lines_weight: "weight (snd (block_lines parent indent ls r)) \<le> weight r"
proof (induction "length (yr_rest r)" arbitrary: indent ls r rule: less_induct)
  case less
  show ?case
  proof (cases "yr_rest r")
    case (Cons l rest)
    then have ih: "weight (snd (block_lines parent n t (pass_line r))) \<le> weight r"
      "weight (snd (block_lines parent n t (use_line r))) \<le> weight r" for n t
      using less.hyps [of "pass_line r" n t] less.hyps [of "use_line r" n t] weight_shrinks [of r] by (auto intro: le_trans)
    show ?thesis using ih by (subst block_lines.simps) (simp add: Cons Let_def split: prod.split)
  qed (simp add: block_lines.simps)
qed

definition block_need :: "block_call \<Rightarrow> nat \<Rightarrow> nat" where
  "block_need call w = 4 * w + (case call of B_value _ _ _ \<Rightarrow> 3 | B_node _ \<Rightarrow> 2 | _ \<Rightarrow> 1)"

definition block_enough :: "nat \<Rightarrow> (block_call \<Rightarrow> reader \<Rightarrow> block_result) \<Rightarrow> bool" where
  "block_enough fuel run \<longleftrightarrow> (\<forall>call r. block_need call (weight r) \<le> fuel \<longrightarrow> block_ok (weight r) (run call r))"

lemma block_enoughD:
  "block_enough fuel run \<Longrightarrow> block_need call (weight r) \<le> fuel \<Longrightarrow> weight r \<le> n \<Longrightarrow> block_ok n (run call r)"
  by (fastforce simp: block_enough_def intro: block_ok_mono)

text \<open>With less to read, any call is within the fuel.\<close>

lemma block_enough_less:
  assumes "block_enough fuel run" and "weight r < n" and "4 * n \<le> fuel"
  shows "block_ok n (run call r)"
proof -
  have "block_need call (weight r) \<le> 4 * weight r + 3" by (simp add: block_need_def split: block_call.split)
  also have "\<dots> < 4 * n" using assms(2) by simp
  finally show ?thesis using block_enoughD [OF assms(1), of call r n] assms(2,3) by simp
qed

lemma block_node_enough:
  assumes "block_enough fuel run" and "4 * weight r + 1 \<le> fuel"
  shows "block_ok (weight r) (block_node run parent r)"
proof -
  obtain nxt r1 where p: "peek r = (nxt, r1)" by (cases "peek r")
  have w: "weight r1 \<le> weight r" using peek_weight [OF p] .
  show ?thesis
  proof (cases nxt)
    case None
    then show ?thesis using w by (simp add: block_node_def p)
  next
    case (Some x)
    obtain ind body where x: "x = (ind, body)" by (cases x)
    have u: "weight (use_line r1) < weight r" using p Some x peek_Some by metis
    have "block_ok (weight r) (run (B_seq ind []) r1)" "block_ok (weight r) (run (B_map ind b []) r1)" for b
      using block_enoughD [OF assms(1)] w assms(2) by (auto simp: block_need_def)
    moreover have "block_ok (weight r) (run (B_value body parent False) (use_line r1))"
      using block_enough_less [OF assms(1) u] assms(2) by simp
    ultimately show ?thesis using w Some x by (simp add: block_node_def p)
  qed
qed

text \<open>Two calls in a row, the first on less than \<open>n\<close>.\<close>

lemma block_twice:
  assumes "block_enough fuel run" and "weight r < n" and "4 * n \<le> fuel" and "\<And>v a r2. weight (g v a r2) = weight r2"
  shows "block_ok (n - 1) (rbind (run call r) (\<lambda>(v, a, r2). run (again v a) (g v a r2)))"
proof -
  have one: "block_ok (weight x) (run c x)" if "weight x < n" for c x
  proof -
    have "block_need c (weight x) \<le> fuel" using that assms(3) by (simp add: block_need_def split: block_call.split)
    then show ?thesis using block_enoughD [OF assms(1)] by blast
  qed
  show ?thesis
  proof (rule block_ok_bind [OF one [OF assms(2)]])
    fix v a r2 assume "weight r2 \<le> weight r"
    then have w: "weight (g v a r2) < n" "weight (g v a r2) \<le> n - 1" using assms(2,4) by auto
    then show "block_ok (n - 1) (case (v, a, r2) of (v, a, r2) \<Rightarrow> run (again v a) (g v a r2))"
      using block_ok_mono [OF one [OF w(1)] w(2)] by simp
  qed
qed

text \<open>An entry or an item that is there is consumed.\<close>

lemma block_map_entry:
  assumes "block_enough fuel run" and "4 * weight r \<le> fuel" and "peek r = (Some (ind, body), r1)" and "key_of body = Some (key, rest)"
  shows "block_ok (weight r - 1) (block_map run ind at_root entries r)"
proof -
  have u: "weight (use_line r1) < weight r" using assms(3) peek_Some by metis
  show ?thesis using block_twice [OF assms(1) u assms(2), of
      "\<lambda>v anchor r2. if at_root \<and> anchor \<noteq> [] \<and> (case v of YText _ \<Rightarrow> False | _ \<Rightarrow> True) then set_anchor anchor (YText anchor) r2 else r2"
      "B_value rest (int ind) True" "\<lambda>v anchor. B_map ind at_root (entries @ [(key, v, anchor)])"]
    by (simp add: block_map_def assms(3,4))
qed

lemma block_map_enough:
  assumes "block_enough fuel run" and "4 * weight r \<le> fuel"
  shows "block_ok (weight r) (block_map run ind at_root entries r)"
proof -
  obtain nxt r1 where p: "peek r = (nxt, r1)" by (cases "peek r")
  show ?thesis
  proof (cases "\<exists>body kv. nxt = Some (ind, body) \<and> key_of body = Some kv")
    case True
    then obtain body kv where "peek r = (Some (ind, body), r1)" "key_of body = Some kv" using p by blast
    then show ?thesis using block_ok_mono [OF block_map_entry [OF assms], of ind body r1 _ _ "weight r"] by (cases kv) auto
  next
    case False
    then show ?thesis using peek_weight [OF p] by (auto simp: block_map_def p split: option.splits)
  qed
qed

lemma nest_weight:
  assumes "yr_rest r = l # ls" and "line_indent l = (ind, body)" and "is_item body" and "dropWhile blank_char (tl body) \<noteq> []"
  shows "weight (nest_line (dropWhile blank_char (tl body)) ind (tl body) r) < weight r"
proof -
  let ?inner = "dropWhile blank_char (tl body)"
  have b: "body \<noteq> []" using assms(3) by (auto simp: is_item_def is_prefix_of_def)
  have "dropWhile blank_char (replicate k 32 @ ?inner) = ?inner" for k
    by (induction k) (auto simp: blank_char_def dropWhile_idem)
  moreover have "length ?inner < length body"
    using b length_dropWhile_le [of blank_char "tl body"] by (cases body) auto
  ultimately show ?thesis using assms(1,2)
    by (simp add: weight_def nest_line_def line_weight_def line_indent_def)
qed

lemma block_seq_item:
  assumes "block_enough fuel run" and "4 * weight r \<le> fuel" and "peek r = (Some (ind, body), r1)" and "is_item body"
  shows "block_ok (weight r - 1) (block_seq run ind items r)"
proof -
  obtain l ls where l: "yr_rest r1 = l # ls" "line_indent l = (ind, body)" and u: "weight (use_line r1) < weight r"
    using assms(3) peek_Some by metis
  define inner where "inner = dropWhile blank_char (tl body)"
  have nest: "weight (nest_line inner ind (tl body) r1) < weight r" if "inner \<noteq> []"
    using nest_weight [OF l assms(4)] that peek_weight [OF assms(3)] unfolding inner_def by auto
  have "block_ok (weight r - 1) (rbind (run call r2) (\<lambda>(v, _, r3). run (B_seq ind (items @ [v])) r3))" if "weight r2 < weight r" for call r2
    using block_twice [OF assms(1) that assms(2), of "\<lambda>v a r3. r3" call "\<lambda>v a. B_seq ind (items @ [v])"] by simp
  moreover have "block_seq run ind items r =
      rbind (if inner \<noteq> [] \<and> hd inner \<noteq> 35 \<and> (is_item inner \<or> key_of inner \<noteq> None)
             then run (B_node (int ind)) (nest_line inner ind (tl body) r1)
             else run (B_value (tl body) (int ind) False) (use_line r1)) (\<lambda>(v, _, r2). run (B_seq ind (items @ [v])) r2)"
    using assms(4) by (auto simp: block_seq_def assms(3) Let_def inner_def simp del: dropWhile_eq_Nil_conv)
  ultimately show ?thesis using nest u by auto
qed

lemma block_seq_enough:
  assumes "block_enough fuel run" and "4 * weight r \<le> fuel"
  shows "block_ok (weight r) (block_seq run ind items r)"
proof -
  obtain nxt r1 where p: "peek r = (nxt, r1)" by (cases "peek r")
  show ?thesis
  proof (cases "\<exists>body. nxt = Some (ind, body) \<and> is_item body")
    case True
    then obtain body where "peek r = (Some (ind, body), r1)" "is_item body" using p by blast
    then show ?thesis using block_ok_mono [OF block_seq_item [OF assms], of ind body r1 "weight r"] by auto
  next
    case False
    then show ?thesis using peek_weight [OF p] by (auto simp: block_seq_def p split: option.splits)
  qed
qed

lemma value_node_enough:
  assumes "block_enough fuel run" and "4 * weight r + 2 \<le> fuel"
  shows "case value_node run s parent in_map r of Inl e \<Rightarrow> e \<noteq> Out_of_fuel | Inr (v, r') \<Rightarrow> weight r' \<le> weight r"
proof (cases "s = [] \<or> hd s = 35")
  case True
  obtain nxt r1 where p: "peek r = (nxt, r1)" by (cases "peek r")
  have "block_ok (weight r) (run (B_seq k []) r1)" "block_ok (weight r) (run (B_node parent) r1)" for k
    using block_enoughD [OF assms(1)] peek_weight [OF p] assms(2) by (auto simp: block_need_def)
  moreover have "case rbind m (\<lambda>(v, a, r2). Inr (v, r2)) of Inl e \<Rightarrow> e \<noteq> Out_of_fuel | Inr (v, r') \<Rightarrow> weight r' \<le> weight r"
    if "block_ok (weight r) m" for m :: block_result
    using that by (cases m) auto
  ultimately show ?thesis using True by (simp add: value_node_def p)
next
  case False
  have "case flow_node s r of Inl e \<Rightarrow> e \<noteq> Out_of_fuel | Inr (v, r') \<Rightarrow> weight r' \<le> weight r"
  proof (cases "flow_lines s r")
    case (Inl e)
    have "flow_lines t r' \<noteq> Inl Out_of_fuel" for t r'
      by (induction t r' rule: flow_lines.induct) (subst flow_lines.simps, auto split: option.split list.split)
    then show ?thesis using Inl by (auto simp: flow_node_def)
  next
    case (Inr x)
    then show ?thesis using flow_lines_weight [of s r] flow_parse_ends
      by (cases x) (auto simp: flow_node_def Let_def ensure_def split: sum.split flow_error.split)
  qed
  moreover have "case quoted_scalar s r of Inl e \<Rightarrow> e \<noteq> Out_of_fuel | Inr (v, r') \<Rightarrow> weight r' \<le> weight r"
  proof (cases "quoted_loop (hd s) [tl s] r")
    case (Inl e)
    have "quoted_loop q t r' \<noteq> Inl Out_of_fuel" for q t r'
      by (induction q t r' rule: quoted_loop.induct) (subst quoted_loop.simps, auto split: option.split list.split)
    then show ?thesis using Inl by (auto simp: quoted_scalar_def)
  next
    case (Inr x)
    then show ?thesis using quoted_weight [of "hd s" "[tl s]" r]
      by (cases x) (auto simp: quoted_scalar_def Let_def ensure_def split: option.split)
  qed
  ultimately show ?thesis using False plain_weight [of parent "cut_comment s" 0 r] block_lines_weight [of parent _ "[]" r]
    by (auto simp: value_node_def alias_node_def block_scalar_def plain_scalar_def Let_def rbind_def case_prod_beta split: sum.splits option.splits)
qed

lemma block_value_enough:
  assumes "block_enough fuel run" and "4 * weight r + 2 \<le> fuel"
  shows "block_ok (weight r) (block_value run t parent in_map r)"
proof -
  obtain anchor s where a: "node_tags [] (strip t) = (anchor, s)" by (cases "node_tags [] (strip t)")
  show ?thesis using value_node_enough [OF assms, of s parent in_map]
    by (cases "value_node run s parent in_map r") (auto simp: block_value_def a)
qed

lemma block_run_enough: "block_enough fuel (block_run fuel)"
proof (induction fuel)
  case 0
  then show ?case by (auto simp: block_enough_def block_need_def split: block_call.splits)
next
  case (Suc fuel)
  show ?case unfolding block_enough_def
  proof (intro allI impI)
    fix call r assume n: "block_need call (weight r) \<le> Suc fuel"
    show "block_ok (weight r) (block_run (Suc fuel) call r)"
      using n block_node_enough [OF Suc] block_map_enough [OF Suc] block_seq_enough [OF Suc] block_value_enough [OF Suc]
      by (cases call) (auto simp: block_need_def)
  qed
qed

lemma block_node_progress:
  assumes "peek r = (Some (ind, body), r1)" and "weight r1 = weight r" and "int ind > parent"
  shows "block_ok (weight r - 1) (block_run (block_fuel r) (B_node parent) r)"
proof -
  let ?run = "block_run (4 * weight r + 3)"
  obtain l ls where "yr_rest r1 = l # ls" and u: "weight (use_line r1) < weight r" using assms(1) peek_Some by metis
  have p1: "peek r1 = (Some (ind, body), r1)"
    using assms(1) skip_blank_stop [of "yr_i r" "yr_rest r"]
    by (auto simp: peek_def Let_def split: prod.splits list.splits if_splits)
  have e: "block_enough (4 * weight r + 2) (block_run (4 * weight r + 2))" by (rule block_run_enough)
  have "block_ok (weight r - 1) (?run (B_seq ind []) r1)" if "is_item body"
    using block_seq_item [OF e _ p1 that, of "[]"] assms(2) by (simp add: numeral_3_eq_3)
  moreover have "block_ok (weight r - 1) (?run (B_map ind b []) r1)" if "key_of body \<noteq> None" for b
    using block_map_entry [OF e _ p1, of _ _ b "[]"] that assms(2) by (auto simp: numeral_3_eq_3)
  moreover have "block_ok (weight r - 1) (?run (B_value body parent False) (use_line r1))"
  proof -
    have "block_need (B_value body parent False) (weight (use_line r1)) \<le> 4 * weight r + 3" using u by (simp add: block_need_def)
    then show ?thesis using block_enoughD [OF block_run_enough] u by simp
  qed
  ultimately have "block_ok (weight r - 1) (block_node ?run parent r)" using assms(3) by (simp add: block_node_def assms(1))
  moreover have f: "block_fuel r = Suc (4 * weight r + 3)" by (simp add: block_fuel_def)
  ultimately show ?thesis by (simp only: f block_run.simps block_call.case)
qed

lemma documents_loop_ends: "weight r < fuel \<Longrightarrow> documents_loop fuel docs r \<noteq> Inl Out_of_fuel"
proof (induction fuel arbitrary: docs r)
  case (Suc fuel)
  show ?case
  proof (cases "yr_rest r")
    case (Cons l ls)
    obtain ind body where l: "line_indent l = (ind, body)" by (cases "line_indent l")
    have lw: "weight (pass_line r) < weight r" using weight_use_line(2) [OF Cons] by (simp add: line_weight_def)
    show ?thesis
    proof (cases "blank_line body \<or> boundary ind body")
      case True
      then show ?thesis using Suc lw Cons l by simp
    next
      case False
      then have p: "peek r = (Some (ind, body), r)" using Cons l by (simp add: peek_def)
      have ok: "block_ok (weight r - 1) (block_run (block_fuel r) (B_node (-1)) r)" using block_node_progress [OF p] by simp
      have w: "0 < weight r" using lw by simp
      show ?thesis
      proof (cases "block_run (block_fuel r) (B_node (-1)) r")
        case (Inl e)
        then show ?thesis using ok False Cons l by (auto simp: Let_def)
      next
        case (Inr x)
        obtain v a r1 nxt r2 where x: "x = (v, a, r1)" "peek r1 = (nxt, r2)" by (cases x) (metis surj_pair)
        then have "weight r2 < fuel" using ok Inr peek_weight [OF x(2)] Suc.prems w by simp
        then show ?thesis using Suc.IH [of r2] False Cons l Inr x by (auto simp: Let_def)
      qed
    qed
  qed simp
qed simp

section \<open>Properties\<close>

text \<open>C24: Reading a file always ends: for every text the YAML reader returns its documents, reports an error with the line it is
  on, or raises the \<open>ValueError\<close> of a character beyond Unicode; the fuel of the model is never exhausted.\<close>
theorem documents_returns:
  "(\<exists>docs. documents t = Inr docs) \<or> (\<exists>line msg args. documents t = Inl (Yaml_error line msg args)) \<or> documents t = Inl Chr_error"
proof -
  have "documents t \<noteq> Inl Out_of_fuel" unfolding documents_def Let_def by (rule documents_loop_ends) simp
  then show ?thesis by (cases "documents t") (auto, metis yaml_error.exhaust)
qed

end
