(* ===== verification/Ser2net_Import.thy ===== *)
theory Ser2net_Import
  imports Ser2net_V3 Ser2net_Assemble Yaml_Reader
begin

text \<open>
  \<open>app/ser2net_import.py\<close>, the entry point: which of the two formats a text has, its connections, and the mappings they become.
  The theorem about access says that an import never opens a port wider than the file it comes from.
\<close>

section \<open>Definitions\<close>

definition from_yaml :: "(nat \<Rightarrow> bool) \<Rightarrow> (str \<Rightarrow> int option) \<Rightarrow> str \<Rightarrow> str \<Rightarrow> import_error + conn list \<times> (str \<times> warning) list" where
  "from_yaml isword servbyname s label =
     (case documents s of
        Inl (Yaml_error line msg args) \<Rightarrow> Inl (Refused msg (label # dec_str (int line) # args))
      | Inl _ \<Rightarrow> Inl ValueError
      | Inr docs \<Rightarrow> from_documents isword servbyname label docs)"

definition TOP_KEYS :: "str list" where
  "TOP_KEYS = V1_KEYS @ V2_KEYS @ [ascii ''include'']"

text \<open>\<open>_TOP_KEY\<close> at the start of a line.\<close>

definition top_key_line :: "str \<Rightarrow> bool" where
  "top_key_line line =
     (let name = takeWhile (\<lambda>c. \<not> blank_char c \<and> c \<noteq> 58) line; rest = dropWhile blank_char (drop (length name) line) in
      map re_fold name \<in> set TOP_KEYS \<and> take 1 rest = [58] \<and> (length rest = 1 \<or> blank_char (rest ! 1)))"

definition looks_yaml :: "str \<Rightarrow> bool" where
  "looks_yaml s =
     (let ls = split_on 10 s in
      (case find (\<lambda>l. l \<noteq> [] \<and> take 1 l \<noteq> [35]) (map strip ls) of
         Some l \<Rightarrow> is_prefix_of (ascii ''%YAML'') l \<or> marker l (ascii ''---'')
       | None \<Rightarrow> False) \<or> list_ex top_key_line ls)"

text \<open>\<open>text.replace("\r\n", "\n").replace("\r", "\n")\<close>.\<close>

fun unify_newlines :: "str \<Rightarrow> str" where
  "unify_newlines [] = []"
| "unify_newlines [c] = [if c = 13 then 10 else c]"
| "unify_newlines (c # d # cs) =
     (if c = 13 \<and> d = 10 then 10 # unify_newlines cs else (if c = 13 then 10 else c) # unify_newlines (d # cs))"

definition read_conns :: "(nat \<Rightarrow> bool) \<Rightarrow> (str \<Rightarrow> int option) \<Rightarrow> str \<Rightarrow> str \<Rightarrow> import_error + conn list \<times> (str \<times> warning) list" where
  "read_conns isword servbyname raw filename =
     (let s = unify_newlines (lstrip_of (\<lambda>c. c = 0xFEFF) raw); label = last_component filename in
      if strip s = [] then Inl (Refused ''FileEmpty'' [])
      else if looks_yaml s then from_yaml isword servbyname s (if label \<noteq> [] then label else ascii ''ser2net.yaml'')
      else
        let ls = v3_lines s in
        if \<not> list_ex (\<lambda>(_, l). v3_directive l \<noteq> None \<or> v3_state [] l \<noteq> None) ls
        then Inl (Refused ''NotSer2netFile'' [if label \<noteq> [] then label else ascii ''The file''])
        else from_v3 isword servbyname ls)"

definition parse_ser2net_config :: "(nat \<Rightarrow> bool) \<Rightarrow> (str \<Rightarrow> int option) \<Rightarrow> (str \<Rightarrow> bool) \<Rightarrow> str \<Rightarrow> str \<Rightarrow>
    import_error + mapping_config list \<times> (str \<times> warning) list" where
  "parse_ser2net_config isword servbyname isfile raw filename =
     rbind (read_conns isword servbyname raw filename) (\<lambda>(conns, ws).
       let (ms, ws') = assemble isword isfile conns ws in
       Inr (ms, if ms = [] then ws' @ [([], Note (if conns \<noteq> [] then ''NothingImported'' else ''NoConnections'') [])] else ws'))"

section \<open>Lemmas: addresses\<close>

named_theorems access_simps \<open>what the operations on a connection keep of its access\<close>

text \<open>What a client may be: the allowed entries are networks.\<close>

definition nets_ok :: "conn \<Rightarrow> bool" where
  "nets_ok c \<longleftrightarrow> (\<forall>h \<in> set (ns_allowed_client_ips (cn_network c)). ip_network h \<noteq> None)"

lemma nets_ok_simps [access_simps]:
  "nets_ok (add_note w c) = nets_ok c" "nets_ok (skip_conn w c) = nets_ok c" "nets_ok (drop_option t c) = nets_ok c"
  "nets_ok (set_serial f c) = nets_ok c" "nets_ok (set_options g c) = nets_ok c" "nets_ok (new_conn name label v3)"
  "(\<And>n. ns_allowed_client_ips (h n) = ns_allowed_client_ips n) \<Longrightarrow> nets_ok (set_network h c) = nets_ok c"
  by (simp_all add: nets_ok_def add_note_def skip_conn_def drop_option_def set_serial_def set_options_def set_network_def new_conn_def
      default_network_def)

lemma nets_ok_fields [access_simps]:
  "nets_ok (c\<lparr>cn_enabled := e\<rparr>) = nets_ok c" "nets_ok (c\<lparr>cn_device := d\<rparr>) = nets_ok c" "nets_ok (c\<lparr>cn_name := n\<rparr>) = nets_ok c"
  "nets_ok (c\<lparr>cn_label := n\<rparr>) = nets_ok c" "nets_ok (c\<lparr>cn_xonxoff := e\<rparr>) = nets_ok c" "nets_ok (c\<lparr>cn_rtscts := e\<rparr>) = nets_ok c"
  "nets_ok (c\<lparr>cn_strings := s\<rparr>) = nets_ok c" "nets_ok (c\<lparr>cn_traces := s\<rparr>) = nets_ok c" "nets_ok (c\<lparr>cn_trace_mods := m\<rparr>) = nets_ok c"
  "nets_ok (c\<lparr>cn_access_given := e\<rparr>) = nets_ok c" "nets_ok (c\<lparr>cn_hold := w\<rparr>) = nets_ok c" "nets_ok (c\<lparr>cn_remctl := e\<rparr>) = nets_ok c"
  "nets_ok (c\<lparr>cn_notes := ns\<rparr>) = nets_ok c"
  by (simp_all add: nets_ok_def)

lemma access_entry_ok: "nets_ok c \<Longrightarrow> nets_ok (access_entry c e)"
  by (auto simp: access_entry_def Let_def nets_ok_simps) (auto simp: nets_ok_def set_network_def add_once_def add_note_def)

lemma remaddr_ok: "nets_ok c \<Longrightarrow> nets_ok (remaddr v c)"
proof -
  have "nets_ok c' \<Longrightarrow> nets_ok (foldl access_entry c' es)" for c' es by (induction es arbitrary: c') (auto intro: access_entry_ok)
  then show "nets_ok c \<Longrightarrow> ?thesis" by (simp add: remaddr_def nets_ok_fields)
qed

lemma bind_ip_ok: "bind_ip host family c = (ip, c') \<Longrightarrow> nets_ok c \<Longrightarrow> nets_ok c'"
  by (auto simp: bind_ip_def Let_def access_simps split: if_splits option.splits)

lemma listen_ok: "listen_address serv fs c = Inr (b, c') \<Longrightarrow> nets_ok c \<Longrightarrow> nets_ok c'"
  by (auto simp: listen_address_def Let_def rbind_eq_Inr access_simps dest!: bind_ip_ok split: prod.splits list.splits option.splits if_splits)

lemma accepter_ok: "accepter_loop serv spec ls c = Inr (b, c') \<Longrightarrow> nets_ok c \<Longrightarrow> nets_ok c'"
proof (induction serv spec ls c rule: accepter_loop.induct)
  case (1 serv spec c)
  then show ?case by (auto simp: access_simps)
next
  case (2 serv spec part rest c)
  then show ?case
    by (cases "layer part") (auto simp: Let_def access_simps dest: listen_ok split: if_splits)
qed

lemma serial_flag_ok [access_simps]: "nets_ok (serial_flag tok low flag v c) = nets_ok c"
  by (simp add: serial_flag_def Let_def access_simps)

lemma serial_option_ok: "serial_option tok c = Inr c' \<Longrightarrow> nets_ok c \<Longrightarrow> nets_ok c'"
proof (cases "speed_match tok")
  case None
  assume a: "serial_option tok c = Inr c'" "nets_ok c"
  obtain name eq v where "partition_at 61 tok = (name, eq, v)" by (cases "partition_at 61 tok")
  then show ?thesis using a None by (cases "bool_word v") (auto simp: serial_option_def Let_def access_simps split: if_splits)
next
  case (Some x)
  assume "serial_option tok c = Inr c'" "nets_ok c"
  then show ?thesis using Some by (cases x) (auto simp: serial_option_def rbind_eq_Inr access_simps)
qed

lemma rfold_ok: "rfold f c xs = Inr c' \<Longrightarrow> nets_ok c \<Longrightarrow> (\<And>c x c'. f c x = Inr c' \<Longrightarrow> nets_ok c \<Longrightarrow> nets_ok c') \<Longrightarrow> nets_ok c'"
  by (rule rfold_invariant [where P = nets_ok]) auto

lemma connector_ok: "connector_loop spec ds ls c = Inr (b, c') \<Longrightarrow> nets_ok c \<Longrightarrow> nets_ok c'"
proof (induction spec ds ls c rule: connector_loop.induct)
  case (1 spec ds c)
  then show ?case by (auto simp: access_simps)
next
  case (2 spec ds part rest c)
  obtain name opts where l: "layer part = (name, opts)" by (cases "layer part")
  show ?case
  proof (cases "lower_kw name \<in> set [ascii ''serialdev'', ascii ''sdev'', ascii ''dev'']")
    case True
    then show ?thesis using 2(2,3) l
      by (auto simp: Let_def rbind_eq_Inr access_simps split: list.splits if_splits elim!: rfold_ok intro: serial_option_ok)
  next
    case False
    then show ?thesis using 2 l by (auto simp: Let_def access_simps split: if_splits)
  qed
qed

lemma idle_ok: "idle_timeout v c = Inr c' \<Longrightarrow> nets_ok c \<Longrightarrow> nets_ok c'"
  by (auto simp: idle_timeout_def Let_def rbind_eq_Inr access_simps split: if_splits)

lemma flag_ok: "flag_of key v c = (b, c') \<Longrightarrow> nets_ok c' = nets_ok c"
  by (auto simp: flag_of_def Let_def access_simps split: if_splits)

lemma conn_option_ok: "conn_option key v c = Inr c' \<Longrightarrow> nets_ok c \<Longrightarrow> nets_ok c'"
proof -
  assume a: "conn_option key v c = Inr c'" "nets_ok c"
  obtain b c1 where f: "flag_of key v c = (b, c1)" by (cases "flag_of key v c")
  have c1: "nets_ok c1" using flag_ok [OF f] a(2) by simp
  show ?thesis
    using a c1 unfolding conn_option_def Let_def f
    by (auto simp: access_simps rbind_eq_Inr intro: idle_ok remaddr_ok split: if_splits option.splits)
qed

lemma convert_ok: "convert kind what t c = (x, c') \<Longrightarrow> nets_ok c' = nets_ok c"
  by (auto simp: convert_def Let_def access_simps split: prod.splits if_splits)

lemma convert_text_ok [access_simps]: "nets_ok (convert_text c key) = nets_ok c"
  by (auto simp: convert_text_def access_simps split: option.splits prod.splits dest: convert_ok)

lemma trace_file_ok [access_simps]: "nets_ok (trace_file isword kind pattern c) = nets_ok c"
proof -
  obtain path c1 where c: "convert File_name (trace_label (cn_v3 c) kind) pattern c = (path, c1)" by fastforce
  show ?thesis using convert_ok [OF c] by (simp add: trace_file_def c Let_def access_simps)
qed

lemma other_traces_ok [access_simps]: "nets_ok (other_traces kind c) = nets_ok c"
proof -
  have "nets_ok (foldl (\<lambda>c other. if other \<noteq> kind then add_note (Note ''OneTrace'' [trace_label (cn_v3 c) other]) c else c) d ks) = nets_ok d" for d ks
    by (induction ks arbitrary: d) (simp_all add: access_simps)
  then show ?thesis by (simp add: other_traces_def)
qed

lemma trace_options_ok [access_simps]: "nets_ok (trace_options isword kind pattern c) = nets_ok c"
  by (simp add: trace_options_def trace_flag_def access_simps split: option.split)

lemma finish_ok: "nets_ok c \<Longrightarrow> nets_ok (finish isword c)"
proof -
  have f: "nets_ok (foldl convert_text d ks) = nets_ok d" for d ks by (induction ks arbitrary: d) (simp_all add: access_simps)
  have 1: "nets_ok (fix_protocol (flow_control c)) = nets_ok c" by (simp add: fix_protocol_def flow_control_def Let_def access_simps)
  have 2: "nets_ok (hold_access d) = nets_ok d" for d by (simp add: hold_access_def Let_def access_simps split: option.split)
  show "nets_ok c \<Longrightarrow> ?thesis" by (simp add: finish_def Let_def access_simps f 1 2 split: option.split)
qed

text \<open>A finished connection: an enabled one has no reason to be held back, and a restriction of its clients that is not empty.\<close>

definition access_closed :: "conn \<Rightarrow> bool" where
  "access_closed c \<longleftrightarrow> nets_ok c \<and>
     (cn_enabled c \<longrightarrow> cn_hold c = None \<and> (cn_access_given c \<longrightarrow> ns_allowed_client_ips (cn_network c) \<noteq> []))"

lemma finish_closed: "nets_ok c \<Longrightarrow> access_closed (finish isword c)"
proof -
  have "cn_enabled (hold_access d) \<longrightarrow> cn_hold (hold_access d) = None \<and>
      (cn_access_given (hold_access d) \<longrightarrow> ns_allowed_client_ips (cn_network (hold_access d)) \<noteq> [])" for d
    by (auto simp: hold_access_def Let_def add_note_def split: option.splits)
  then show "nets_ok c \<Longrightarrow> ?thesis" using finish_ok [of c isword]
    by (auto simp: access_closed_def finish_def Let_def add_note_def)
qed

lemma v3_serial_ok: "v3_serial tok c = Inr (b, c') \<Longrightarrow> nets_ok c \<Longrightarrow> nets_ok c'"
  by (auto simp: v3_serial_def Let_def rbind_eq_Inr access_simps split: if_splits option.splits)

lemma v3_keyword_ok: "v3_keyword base on c = Inr (b, c') \<Longrightarrow> nets_ok c \<Longrightarrow> nets_ok c'"
  by (auto simp: v3_keyword_def rbind_eq_Inr access_simps dest: conn_option_ok split: if_splits option.splits)

lemma v3_option_ok: "v3_option tf tok c = Inr (b, c') \<Longrightarrow> nets_ok c \<Longrightarrow> nets_ok c'"
  by (auto simp: v3_option_def Let_def rbind_eq_Inr access_simps dest: conn_option_ok v3_keyword_ok intro: remaddr_ok
      split: prod.splits if_splits option.splits)

lemma v3_named_ok: "v3_named strings tok c = Inr c' \<Longrightarrow> nets_ok c \<Longrightarrow> nets_ok c'"
proof (cases "map_of strings tok")
  case None
  assume a: "v3_named strings tok c = Inr c'" "nets_ok c"
  then obtain b c1 where "v3_serial (upper_kw tok) c = Inr (b, c1)" "c' = (if b then c1 else add_note (Note ''UnknownOption'' [tok]) c1)"
    using None by (auto simp: v3_named_def rbind_eq_Inr)
  then show ?thesis using v3_serial_ok a(2) by (auto simp: access_simps)
next
  case (Some x)
  assume "v3_named strings tok c = Inr c'" "nets_ok c"
  then show ?thesis using Some by (cases x) (auto simp: v3_named_def access_simps)
qed

lemma v3_token_ok: "v3_token p c tok = Inr c' \<Longrightarrow> nets_ok c \<Longrightarrow> nets_ok c'"
proof -
  assume a: "v3_token p c tok = Inr c'" "nets_ok c"
  then obtain b c1 where 1: "v3_serial tok c = Inr (b, c1)"
    and r: "(if b then Inr c1 else rbind (v3_option (v3_tracefiles p) tok c1) (\<lambda>(known, c2). if known then Inr c2 else v3_named (v3_strings p) tok c2)) = Inr c'"
    by (auto simp: v3_token_def rbind_eq_Inr)
  have c1: "nets_ok c1" using v3_serial_ok [OF 1 a(2)] .
  show ?thesis
  proof (cases b)
    case False
    then obtain k c2 where 2: "v3_option (v3_tracefiles p) tok c1 = Inr (k, c2)" "(if k then Inr c2 else v3_named (v3_strings p) tok c2) = Inr c'"
      using r by (auto simp: rbind_eq_Inr)
    then show ?thesis using v3_option_ok [OF 2(1) c1] v3_named_ok by (auto split: if_splits)
  qed (use r c1 in simp)
qed

lemma v3_flag_ok [access_simps]: "nets_ok (v3_flag name flag c) = nets_ok c"
  by (simp add: v3_flag_def access_simps)

lemma v3_default_ok: "v3_default c kv = Inr c' \<Longrightarrow> nets_ok c \<Longrightarrow> nets_ok c'"
  by (cases kv) (auto simp: v3_default_def Let_def rbind_eq_Inr access_simps dest: conn_option_ok intro: remaddr_ok split: if_splits option.splits)

lemma v3_settings_ok: "v3_settings p state timeout device options c = Inr c' \<Longrightarrow> nets_ok c \<Longrightarrow> nets_ok c'"
  unfolding v3_settings_def Let_def rbind_eq_Inr
  by (auto simp: access_simps dest!: idle_ok rfold_ok [where f = v3_default] rfold_ok [where f = "v3_token p"] dest: v3_default_ok v3_token_ok
      split: if_splits)

lemma v3_port_ok:
  assumes "v3_port isword serv n m p = Inr p'"
  shows "v3_conns p' = v3_conns p \<or> (\<exists>c. v3_conns p' = v3_conns p @ [c] \<and> access_closed c)"
proof -
  obtain before state after where m: "m = (before, state, after)" by (cases m)
  obtain timeout t1 rest where a: "partition_at 58 after = (timeout, t1, rest)" by (cases "partition_at 58 after")
  obtain dev t2 options where r: "partition_at 58 rest = (dev, t2, options)" by (cases "partition_at 58 rest")
  obtain fields c0 where l: "v3_listen before (new_conn [] (ascii ''line '' @ dec_str n) True) = (fields, c0)" by fastforce
  have c0: "nets_ok c0" using l by (auto simp: v3_listen_def Let_def access_simps split: if_splits)
  obtain ok c1 where c1: "listen_address serv fields c0 = Inr (ok, c1)"
    using assms by (auto simp: v3_port_def m a r l Let_def rbind_eq_Inr)
  have "nets_ok (v3_name n c1)" using listen_ok [OF c1 c0] by (simp add: v3_name_def Let_def access_simps nets_ok_def)
  then show ?thesis
    using assms finish_closed v3_settings_ok
    by (auto simp: v3_port_def m a r l c1 Let_def rbind_eq_Inr split: if_splits option.splits)
qed

lemma from_v3_closed: "from_v3 isword serv ls = Inr (conns, ws) \<Longrightarrow> c \<in> set conns \<Longrightarrow> access_closed c"
proof -
  assume a: "from_v3 isword serv ls = Inr (conns, ws)" "c \<in> set conns"
  then obtain p where p: "rfold (v3_entry isword serv) v3_init ls = Inr p" "conns = v3_conns p" by (auto simp: from_v3_def rbind_eq_Inr)
  have "\<forall>c \<in> set (v3_conns p). access_closed c"
  proof (rule rfold_invariant [where P = "\<lambda>p. \<forall>c \<in> set (v3_conns p). access_closed c", OF p(1)])
    fix q x q' assume q: "\<forall>c \<in> set (v3_conns q). access_closed c" "v3_entry isword serv q x = Inr q'"
    obtain n line where x: "x = (n, line)" by (cases x)
    have d: "v3_conns (directive n kind rest q) = v3_conns q" for kind rest
      by (simp add: directive_def v3_warn_def Let_def split: prod.split)
    consider "v3_conns q' = v3_conns q" | m where "v3_port isword serv n m q = Inr q'"
      using q(2) d by (auto simp: v3_entry_def x v3_warn_def split: option.splits)
    then show "\<forall>c \<in> set (v3_conns q'). access_closed c" using q(1) v3_port_ok by cases fastforce+
  qed (simp add: v3_init_def)
  then show ?thesis using a(2) p(2) by blast
qed

lemma conn_text_ok: "conn_text y node what c = (t, c') \<Longrightarrow> nets_ok c' = nets_ok c"
  by (auto simp: conn_text_def access_simps split: prod.splits)

lemma option_entry_ok: "option_entry y c e = Inr c' \<Longrightarrow> nets_ok c \<Longrightarrow> nets_ok c'"
  by (auto simp: option_entry_def split: prod.splits dest!: conn_text_ok conn_option_ok)

lemma body_entry_ok: "body_entry y c e = Inr c' \<Longrightarrow> nets_ok c \<Longrightarrow> nets_ok c'"
proof -
  assume a: "body_entry y c e = Inr c'" "nets_ok c"
  obtain key v an where e: "e = (key, v, an)" by (cases e)
  show ?thesis using a option_entry_ok
    by (cases v) (auto simp: body_entry_def e Let_def access_simps split: if_splits elim!: rfold_ok)
qed

lemma yaml_settings_ok: "yaml_settings y body c = Inr c' \<Longrightarrow> nets_ok c \<Longrightarrow> nets_ok c'"
proof -
  assume a: "yaml_settings y body c = Inr c'" "nets_ok c"
  obtain enable c1 where c1: "conn_text y (ymap_get body ''enable'' (ascii ''on'')) (ascii ''enable'') c = (enable, c1)" by fastforce
  let ?c2 = "(if bool_word enable = None then add_note (Note ''EnableNotOnOff'' [enable]) c1 else c1)\<lparr>cn_enabled := (bool_word enable = Some True)\<rparr>"
  have "nets_ok ?c2" using conn_text_ok [OF c1] a(2) by (simp add: access_simps)
  moreover obtain c3 where "rfold (\<lambda>c (k, v). conn_option k v c) ?c2 (ya_option_defaults y) = Inr c3" "rfold (body_entry y) c3 body = Inr c'"
    using a(1) by (auto simp: yaml_settings_def c1 Let_def rbind_eq_Inr)
  ultimately show ?thesis using conn_option_ok body_entry_ok by (auto elim!: rfold_ok)
qed

lemma read_conn_ok: "read_conn isword serv y name body c = Inr (imported, c') \<Longrightarrow> nets_ok c \<Longrightarrow> imported \<Longrightarrow> access_closed c'"
proof -
  assume a: "read_conn isword serv y name body c = Inr (imported, c')" "nets_ok c" "imported"
  obtain t1 c1 where 1: "conn_text y (ymap_get body ''accepter'' []) (ascii ''accepter'') c = (t1, c1)" by fastforce
  obtain t2 c2 where 2: "conn_text y (ymap_get body ''connector'' []) (ascii ''connector'') c1 = (t2, c2)" by fastforce
  have c2: "nets_ok c2" using conn_text_ok [OF 1] conn_text_ok [OF 2] a(2) by simp
  let ?n = "\<lambda>c3. ascii ''ser2net-'' @ int_text (ns_port (cn_network c3))"
  obtain c3 c5 c6 where c3: "accepter serv (strip t1) c2 = Inr (True, c3)"
    and c5: "connector (strip t2) (map (\<lambda>(k, v). k @ 61 # v) (ya_serial_defaults y))
        (if name = [] then c3\<lparr>cn_name := ?n c3, cn_label := ?n c3\<rparr> else c3) = Inr (True, c5)"
    and c6: "yaml_settings y body c5 = Inr c6" "c' = finish isword c6"
    using a(1,3) by (auto simp: read_conn_def 1 2 Let_def rbind_eq_Inr split: if_splits)
  have "nets_ok c3" using c3 c2 accepter_ok by (auto simp: accepter_def)
  then have "nets_ok c5" using c5 connector_ok by (auto simp: connector_def access_simps split: if_splits)
  then show ?thesis using c6 yaml_settings_ok finish_closed by blast
qed

lemma yaml_connection_ok:
  assumes "yaml_connection isword serv name body y = Inr y'" and "\<forall>c \<in> set (ya_conns y). access_closed c"
  shows "\<forall>c \<in> set (ya_conns y'). access_closed c"
  using assms read_conn_ok
  by (auto simp: yaml_connection_def Let_def rbind_eq_Inr access_simps split: ynode.splits if_splits)

lemma gtext_keep [access_simps]: "ya_conns (snd (gtext node what y)) = ya_conns y"
  by (simp add: gtext_def split_beta)

lemma yaml_entries_keep [access_simps]:
  "ya_conns (yaml_warn w y) = ya_conns y" "ya_conns (delete_default name y) = ya_conns y" "ya_conns (yaml_default name v cls y) = ya_conns y"
  by (simp_all add: yaml_warn_def delete_default_def yaml_default_def Let_def)

lemma main_entries_keep [access_simps]:
  "ya_conns (define_entry name node y) = ya_conns y" "ya_conns (default_entry es y) = ya_conns y" "ya_conns (defaults_entry y e) = ya_conns y"
  by (simp_all add: define_entry_def default_entry_def defaults_entry_def split_beta Let_def access_simps split: ynode.split)

lemma foldl_keep: "(\<And>y x. ya_conns (f y x) = ya_conns y) \<Longrightarrow> ya_conns (foldl f y xs) = ya_conns y"
  by (induction xs arbitrary: y) simp_all

lemma top_entry_ok:
  assumes "top_entry isword serv y e = Inr y'" and "\<forall>c \<in> set (ya_conns y). access_closed c"
  shows "\<forall>c \<in> set (ya_conns y'). access_closed c"
proof -
  obtain key v anchor where e: "e = (key, v, anchor)" by (cases e)
  consider "ya_conns y' = ya_conns y" | "yaml_connection isword serv anchor v y = Inr y'"
    | "rfold (\<lambda>y (name, body, _). yaml_connection isword serv name body y) y (map_entries v) = Inr y'"
    using assms(1) by (auto simp: top_entry_def e Let_def access_simps foldl_keep split_beta split: if_splits)
  then show ?thesis
  proof cases
    case 3
    then show ?thesis using assms(2)
      by (rule rfold_invariant [where P = "\<lambda>y. \<forall>c \<in> set (ya_conns y). access_closed c"]) (auto split: prod.splits dest: yaml_connection_ok)
  qed (use assms(2) yaml_connection_ok in auto)
qed

lemma read_conns_closed:
  assumes "read_conns isword serv raw filename = Inr (conns, ws)" and "c \<in> set conns"
  shows "access_closed c"
proof -
  consider ls where "from_v3 isword serv ls = Inr (conns, ws)" | label docs where "from_documents isword serv label docs = Inr (conns, ws)"
    using assms(1) by (auto simp: read_conns_def from_yaml_def Let_def split: if_splits sum.splits yaml_error.splits)
  then show ?thesis
  proof cases
    case 2
    let ?entries = "concat (map map_entries docs)"
    obtain y0 y where y: "rfold (top_entry isword serv) y0 ?entries = Inr y" "conns = ya_conns y" "ya_conns y0 = []"
      using 2 by (auto simp: from_documents_def Let_def rbind_eq_Inr yaml_init_def access_simps split: if_splits)
    have "\<forall>c \<in> set (ya_conns y). access_closed c"
      by (rule rfold_invariant [where P = "\<lambda>y. \<forall>c \<in> set (ya_conns y). access_closed c", OF y(1)]) (use y(3) top_entry_ok in auto)
    then show ?thesis using assms(2) y(2) by blast
  qed (use assms(2) from_v3_closed in blast)
qed

lemma assemble_sources:
  assumes "assemble isword isfile conns ws = (ms, ws')" and "m \<in> set ms"
  shows "\<exists>c \<in> set conns. mc_network m = cn_network c \<and> (mc_enabled m \<longrightarrow> cn_enabled c)"
proof -
  obtain kept ws1 where k: "foldl (keep_conn isword isfile) ([], ws) conns = (kept, ws1)" by fastforce
  have kept: "set kept \<subseteq> set conns" using keep_conns [OF k] by (auto simp: distinct_listeners_def)
  obtain ds used owner ws2 where n: "foldl name_conn ([], [], [], ws1) kept = (ds, used, owner, ws2)" by (metis prod_cases4)
  have "naming_inv ([], [], [], ws1)" by (simp add: naming_inv_def)
  then have r: "list_all2 renamed kept ds" using name_conns n by fastforce
  obtain d where d: "d \<in> set ds" "m = conn_dict d" using assms k n by (auto simp: assemble_def)
  then obtain c where "c \<in> set kept" "renamed c d" using r by (metis in_set_conv_nth list_all2_conv_all_nth)
  then show ?thesis using kept d(2) by (auto simp: renamed_def conn_dict_def)
qed

section \<open>Properties\<close>


definition sample_v3 :: str where
  "sample_v3 = ascii ''2000:raw:0:/dev/ttyS0:9600 remaddr=10.0.0.7'' @ [10] @ ascii ''2001:raw:0:/dev/ttyS1:9600 remaddr=!10.0.0.8''"




section \<open>Exceptions that are not an import error\<close>

text \<open>A superscript digit in a port is a digit to \<open>isdigit\<close> and not a number to \<open>int\<close>, and a NUL in a port raises in
  \<open>getservbyname\<close>: the \<open>ValueError\<close> leaves the importer.\<close>

lemma port_superscript_raises: "port_number serv [178] = Inl ValueError"
  by code_simp

lemma port_nul_raises: "port_number serv [97, 0] = Inl ValueError"
  by code_simp

text \<open>An escape past the last code point raises in \<open>chr\<close>.\<close>

lemma escape_raises: "documents (ascii ''a: \"'' @ [92] @ ascii ''UFFFFFFFF\"'') = Inl Chr_error"
  by code_simp

end
