(* ===== verification/Importer.thy ===== *)
theory Importer
  imports Ser2net_Import
begin

text \<open>
  \<open>app/importer.py\<close>: the import of a list of mappings into the configuration, the preview that is shown before it, and the
  conversion of a classic ser2net file. A list is merged (a mapping with the same id, else the same name, is updated in
  place) or replaces the current mappings. The main result: what the preview announces is what the import does, provided
  the file does not name one mapping twice; without that proviso it is not.
\<close>

section \<open>Definitions\<close>

text \<open>\<open>==\<close> between the values of two dictionaries. Python compares the objects first, which matters for a NaN only;
  \<open>same\<close> tells whether two NaNs are one object.\<close>

fun val_eq :: "(f64 \<Rightarrow> f64 \<Rightarrow> bool) \<Rightarrow> pyval \<Rightarrow> pyval \<Rightarrow> bool" where
  "val_eq same (VFloat a) (VFloat b) \<longleftrightarrow> same a b \<or> f64_eq a b"
| "val_eq same (VList (x # xs)) (VList (y # ys)) \<longleftrightarrow> val_eq same x y \<and> val_eq same (VList xs) (VList ys)"
| "val_eq same v w \<longleftrightarrow> py_eq v w"

definition float_eq :: "(f64 \<Rightarrow> f64 \<Rightarrow> bool) \<Rightarrow> f64 \<Rightarrow> f64 \<Rightarrow> bool" where
  "float_eq same a b \<longleftrightarrow> same a b \<or> f64_eq a b"

definition dict_eq :: "(f64 \<Rightarrow> f64 \<Rightarrow> bool) \<Rightarrow> (str \<times> pyval) list \<Rightarrow> (str \<times> pyval) list \<Rightarrow> bool" where
  "dict_eq same a b \<longleftrightarrow> set (map fst a) = set (map fst b) \<and>
     list_all (\<lambda>k. case (map_of a k, map_of b k) of (Some v, Some w) \<Rightarrow> val_eq same v w | _ \<Rightarrow> False) (map fst a)"

definition serial_eq :: "(f64 \<Rightarrow> f64 \<Rightarrow> bool) \<Rightarrow> serial_settings \<Rightarrow> serial_settings \<Rightarrow> bool" where
  "serial_eq same a b \<longleftrightarrow> ss_port a = ss_port b \<and> dict_eq same (ss_match a) (ss_match b) \<and> val_eq same (ss_baudrate a) (ss_baudrate b) \<and>
     val_eq same (ss_bytesize a) (ss_bytesize b) \<and> ss_parity a = ss_parity b \<and> val_eq same (ss_stopbits a) (ss_stopbits b) \<and>
     ss_flowcontrol a = ss_flowcontrol b \<and> ss_rts_on_open a = ss_rts_on_open b \<and> ss_dtr_on_open a = ss_dtr_on_open b \<and>
     ss_exclusive a = ss_exclusive b \<and> ss_rs485_enabled a = ss_rs485_enabled b \<and>
     float_eq same (ss_rs485_delay_before_tx_ms a) (ss_rs485_delay_before_tx_ms b) \<and>
     float_eq same (ss_rs485_delay_after_tx_ms a) (ss_rs485_delay_after_tx_ms b) \<and>
     ss_rs485_rts_level_for_tx a = ss_rs485_rts_level_for_tx b \<and> ss_hangup_when_done a = ss_hangup_when_done b \<and> ss_nobreak a = ss_nobreak b"

definition network_eq :: "(f64 \<Rightarrow> f64 \<Rightarrow> bool) \<Rightarrow> network_settings \<Rightarrow> network_settings \<Rightarrow> bool" where
  "network_eq same a b \<longleftrightarrow> ns_mode a = ns_mode b \<and> ns_protocol a = ns_protocol b \<and> ns_bind_ip a = ns_bind_ip b \<and>
     val_eq same (ns_port a) (ns_port b) \<and> ns_remote_host a = ns_remote_host b \<and> val_eq same (ns_remote_port a) (ns_remote_port b) \<and>
     val_eq same (ns_max_connections a) (ns_max_connections b) \<and> ns_kick_old_user a = ns_kick_old_user b \<and>
     ns_allowed_client_ips a = ns_allowed_client_ips b \<and> ns_priority_client_ips a = ns_priority_client_ips b \<and>
     ns_read_only a = ns_read_only b \<and> val_eq same (ns_client_queue_max a) (ns_client_queue_max b) \<and> ns_tcp_keepalive a = ns_tcp_keepalive b \<and>
     val_eq same (ns_keepalive_idle_s a) (ns_keepalive_idle_s b) \<and> val_eq same (ns_keepalive_interval_s a) (ns_keepalive_interval_s b) \<and>
     val_eq same (ns_keepalive_count a) (ns_keepalive_count b) \<and> val_eq same (ns_connect_timeout_s a) (ns_connect_timeout_s b) \<and>
     ns_tls a = ns_tls b \<and> ns_tls_cert a = ns_tls_cert b \<and> ns_tls_key a = ns_tls_key b"

definition options_eq :: "(f64 \<Rightarrow> f64 \<Rightarrow> bool) \<Rightarrow> mapping_options \<Rightarrow> mapping_options \<Rightarrow> bool" where
  "options_eq same a b \<longleftrightarrow> mo_banner a = mo_banner b \<and> mo_openstr a = mo_openstr b \<and> mo_closestr a = mo_closestr b \<and>
     mo_closeon a = mo_closeon b \<and> val_eq same (mo_idle_timeout_s a) (mo_idle_timeout_s b) \<and>
     val_eq same (mo_max_connection_time_s a) (mo_max_connection_time_s b) \<and> mo_trace_both a = mo_trace_both b \<and>
     mo_trace_hexdump a = mo_trace_hexdump b \<and> mo_trace_timestamp a = mo_trace_timestamp b \<and>
     val_eq same (mo_trace_max_mb a) (mo_trace_max_mb b) \<and> val_eq same (mo_trace_keep a) (mo_trace_keep b) \<and>
     float_eq same (mo_rfc2217_poll_modem_interval_s a) (mo_rfc2217_poll_modem_interval_s b) \<and>
     float_eq same (mo_rfc2217_net_timeout_s a) (mo_rfc2217_net_timeout_s b) \<and>
     float_eq same (mo_modbus_response_timeout_s a) (mo_modbus_response_timeout_s b)"

definition mqtt_eq :: "(f64 \<Rightarrow> f64 \<Rightarrow> bool) \<Rightarrow> mqtt_settings \<Rightarrow> mqtt_settings \<Rightarrow> bool" where
  "mqtt_eq same a b \<longleftrightarrow> mq_enabled a = mq_enabled b \<and> mq_host a = mq_host b \<and> val_eq same (mq_port a) (mq_port b) \<and>
     mq_base_topic a = mq_base_topic b \<and> val_eq same (mq_qos a) (mq_qos b) \<and> mq_tls a = mq_tls b \<and> mq_username a = mq_username b \<and>
     mq_password a = mq_password b \<and> mq_client_id a = mq_client_id b \<and> mq_payload_format a = mq_payload_format b \<and>
     mq_group_id a = mq_group_id b \<and> mq_node_id a = mq_node_id b"

definition point_eq :: "(f64 \<Rightarrow> f64 \<Rightarrow> bool) \<Rightarrow> modbus_point \<Rightarrow> modbus_point \<Rightarrow> bool" where
  "point_eq same a b \<longleftrightarrow> mp_name a = mp_name b \<and> mp_unit a = mp_unit b \<and> mp_fn a = mp_fn b \<and> mp_address a = mp_address b \<and>
     mp_dtype a = mp_dtype b \<and> float_eq same (mp_scale a) (mp_scale b) \<and> mp_writable a = mp_writable b"

text \<open>\<open>a.to_dict() == b.to_dict()\<close>, and \<open>==\<close> of the dataclass.\<close>

definition mapping_eq :: "(f64 \<Rightarrow> f64 \<Rightarrow> bool) \<Rightarrow> mapping_config \<Rightarrow> mapping_config \<Rightarrow> bool" where
  "mapping_eq same a b \<longleftrightarrow> mc_id a = mc_id b \<and> mc_name a = mc_name b \<and> mc_enabled a = mc_enabled b \<and> mc_kind a = mc_kind b \<and>
     serial_eq same (mc_serial a) (mc_serial b) \<and> serial_eq same (mc_serial_b a) (mc_serial_b b) \<and>
     network_eq same (mc_network a) (mc_network b) \<and> options_eq same (mc_options a) (mc_options b) \<and> mqtt_eq same (mc_mqtt a) (mc_mqtt b) \<and>
     float_eq same (poll_interval_s (mc_poll a)) (poll_interval_s (mc_poll b)) \<and>
     list_all2 (point_eq same) (poll_points (mc_poll a)) (poll_points (mc_poll b))"

text \<open>Ids: \<open>fresh k\<close> is what the \<open>k\<close>-th call of \<open>_new_id\<close> returns, and the counter is threaded.\<close>

definition copy_mapping :: "(nat \<Rightarrow> bool) \<Rightarrow> (nat \<Rightarrow> str) \<Rightarrow> mapping_config \<Rightarrow> nat \<Rightarrow> mapping_config \<times> nat" where
  "copy_mapping isword fresh m k = (load_mapping isword (fresh k) m, if mc_id m = [] then Suc k else k)"

primrec copy_all :: "(nat \<Rightarrow> bool) \<Rightarrow> (nat \<Rightarrow> str) \<Rightarrow> mapping_config list \<Rightarrow> nat \<Rightarrow> mapping_config list \<times> nat" where
  "copy_all isword fresh [] k = ([], k)"
| "copy_all isword fresh (m # ms) k =
     (let (m', k1) = copy_mapping isword fresh m k; (ms', k2) = copy_all isword fresh ms k1 in (m' # ms', k2))"

definition first_index :: "('a \<Rightarrow> bool) \<Rightarrow> 'a list \<Rightarrow> nat option" where
  "first_index p xs = find (\<lambda>i. p (xs ! i)) [0 ..< length xs]"

text \<open>\<open>_match\<close>, as the position of the mapping it returns.\<close>

definition match_index :: "mapping_config list \<Rightarrow> mapping_config \<Rightarrow> nat option" where
  "match_index es m =
     (case first_index (\<lambda>e. mc_id e = mc_id m) es of
        Some i \<Rightarrow> Some i
      | None \<Rightarrow> first_index (\<lambda>e. mc_name e = mc_name m) es)"

text \<open>\<open>result.index(target)\<close>: the first entry that is the target or equal to it.\<close>

definition index_of :: "(f64 \<Rightarrow> f64 \<Rightarrow> bool) \<Rightarrow> mapping_config list \<Rightarrow> nat \<Rightarrow> nat" where
  "index_of same es i = (case find (\<lambda>j. j = i \<or> mapping_eq same (es ! j) (es ! i)) [0 ..< length es] of Some j \<Rightarrow> j | None \<Rightarrow> i)"

type_synonym merge_state = "mapping_config list \<times> mapping_config list \<times> nat"

definition merge_one :: "(nat \<Rightarrow> bool) \<Rightarrow> (f64 \<Rightarrow> f64 \<Rightarrow> bool) \<Rightarrow> (nat \<Rightarrow> str) \<Rightarrow> merge_state \<Rightarrow> mapping_config \<Rightarrow> merge_state" where
  "merge_one isword same fresh st m0 =
     (let (result, touched, k) = st; (m, k1) = copy_mapping isword fresh m0 k in
      case match_index result m of
        Some i \<Rightarrow>
          let m' = m\<lparr>mc_id := mc_id (result ! i)\<rparr> in
          if mapping_eq same m' (result ! i) then (result, touched, k1)
          else (result[index_of same result i := m'], touched @ [m'], k1)
      | None \<Rightarrow>
          let (m', k2) = (if list_ex (\<lambda>e. mc_id e = mc_id m) result then (m\<lparr>mc_id := fresh k1\<rparr>, Suc k1) else (m, k1)) in
          (result @ [m'], touched @ [m'], k2))"

definition replace_one :: "(nat \<Rightarrow> bool) \<Rightarrow> (nat \<Rightarrow> str) \<Rightarrow> mapping_config list \<times> nat \<Rightarrow> mapping_config \<Rightarrow> mapping_config list \<times> nat" where
  "replace_one isword fresh st m0 =
     (let (out, k) = st; (m, k1) = copy_mapping isword fresh m0 k in
      if mc_id m \<in> set (map mc_id out) then (out @ [m\<lparr>mc_id := fresh k1\<rparr>], Suc k1) else (out @ [m], k1))"

definition apply_import :: "(nat \<Rightarrow> bool) \<Rightarrow> (f64 \<Rightarrow> f64 \<Rightarrow> bool) \<Rightarrow> (nat \<Rightarrow> str) \<Rightarrow> mapping_config list \<Rightarrow> mapping_config list \<Rightarrow> str \<Rightarrow>
    config_error + mapping_config list \<times> mapping_config list" where
  "apply_import isword same fresh current incoming mode =
     (if mode \<notin> set [ascii ''merge'', ascii ''replace''] then Inl (ConfigError ''ImportMode'')
      else if mode = ascii ''replace'' then
        let (out, _) = foldl (replace_one isword fresh) ([], 0) incoming in Inr (out, out)
      else
        let (result, k) = copy_all isword fresh current 0;
            (result', touched, _) = foldl (merge_one isword same fresh) (result, [], k) incoming in
        Inr (result', touched))"

text \<open>\<open>_kind\<close>, as the parts of its text.\<close>

datatype kind_text = Bridge_kind str str | Client_kind str str str str pyval | Listen_kind str str str str pyval

definition kind_of :: "mapping_config \<Rightarrow> kind_text" where
  "kind_of m =
     (let port = ss_port (mc_serial m); net = mc_network m in
      if mc_kind m = ascii ''serialbridge'' then Bridge_kind port (ss_port (mc_serial_b m))
      else if ns_mode net = ascii ''client'' then Client_kind port (ns_mode net) (ns_protocol net) (ns_remote_host net) (ns_remote_port net)
      else Listen_kind port (ns_mode net) (ns_protocol net) (ns_bind_ip net) (ns_port net))"

datatype action = Add | Update | Same | Remove

record plan_row =
  pr_name :: str
  pr_kind :: kind_text
  pr_action :: action
  pr_target :: str

definition plan_row_of :: "(nat \<Rightarrow> bool) \<Rightarrow> (f64 \<Rightarrow> f64 \<Rightarrow> bool) \<Rightarrow> mapping_config list \<Rightarrow> str \<Rightarrow> mapping_config \<Rightarrow> plan_row" where
  "plan_row_of isword same current mode m =
     (case (if mode = ascii ''merge'' then match_index current m else None) of
        None \<Rightarrow> \<lparr>pr_name = mc_name m, pr_kind = kind_of m, pr_action = Add, pr_target = []\<rparr>
      | Some i \<Rightarrow>
          let probe = load_mapping isword [] (m\<lparr>mc_id := mc_id (current ! i)\<rparr>) in
          \<lparr>pr_name = mc_name m, pr_kind = kind_of m, pr_action = (if mapping_eq same probe (current ! i) then Same else Update),
            pr_target = mc_name (current ! i)\<rparr>)"

definition plan_rows :: "(nat \<Rightarrow> bool) \<Rightarrow> (f64 \<Rightarrow> f64 \<Rightarrow> bool) \<Rightarrow> mapping_config list \<Rightarrow> mapping_config list \<Rightarrow> str \<Rightarrow> plan_row list" where
  "plan_rows isword same current incoming mode =
     map (plan_row_of isword same current mode) incoming @
     (if mode = ascii ''replace''
      then map (\<lambda>e. \<lparr>pr_name = mc_name e, pr_kind = kind_of e, pr_action = Remove, pr_target = []\<rparr>) current else [])"

section \<open>Classic files\<close>

datatype import_source = Yaml_file | Conf_file

datatype classic_error = Not_read import_error | Nothing_to_import "(str \<times> warning) list"

record import_plan =
  ip_source :: import_source
  ip_mappings :: "mapping_config list"
  ip_warnings :: "(str \<times> warning) list"

text \<open>\<open>_classic_ser2net\<close>; the message of the last error is made of the warnings, which are not empty then.\<close>

definition classic_ser2net :: "(nat \<Rightarrow> bool) \<Rightarrow> (str \<Rightarrow> int option) \<Rightarrow> (str \<Rightarrow> bool) \<Rightarrow> (nat \<Rightarrow> str) \<Rightarrow> str \<Rightarrow> str \<Rightarrow> classic_error + import_plan" where
  "classic_ser2net isword servbyname isfile fresh raw filename =
     (case parse_ser2net_config isword servbyname isfile raw filename of
        Inl e \<Rightarrow> Inl (Not_read e)
      | Inr (dicts, ws) \<Rightarrow>
          if dicts = [] then Inl (Nothing_to_import ws)
          else Inr \<lparr>ip_source = (if looks_yaml raw then Yaml_file else Conf_file), ip_mappings = fst (copy_all isword fresh dicts 0),
                 ip_warnings = ws\<rparr>)"

section \<open>Lemmas: positions\<close>

lemma find_upt_Some: "find P [0 ..< n] = Some i \<longleftrightarrow> i < n \<and> P i \<and> (\<forall>j < i. \<not> P j)"
  by (auto simp: find_Some_iff)

lemma first_index_Some: "first_index p xs = Some i \<longleftrightarrow> i < length xs \<and> p (xs ! i) \<and> (\<forall>j < i. \<not> p (xs ! j))"
  by (simp add: first_index_def find_upt_Some)

lemma first_index_None: "first_index p xs = None \<longleftrightarrow> (\<forall>x \<in> set xs. \<not> p x)"
  by (auto simp: first_index_def find_None_iff all_set_conv_all_nth)

lemma match_index_less: "match_index es m = Some i \<Longrightarrow> i < length es"
  by (auto simp: match_index_def first_index_Some split: option.splits)

lemma match_index_None: "match_index es m = None \<longleftrightarrow> (\<forall>e \<in> set es. mc_id e \<noteq> mc_id m \<and> mc_name e \<noteq> mc_name m)"
  by (auto simp: match_index_def first_index_None first_index_Some split: option.splits)

text \<open>The entry that is replaced is the one that was matched: an equal entry before it would have been matched instead.\<close>

lemma index_of_match: "match_index es m = Some i \<Longrightarrow> index_of same es i = i"
proof -
  assume m: "match_index es m = Some i"
  have "\<not> mapping_eq same (es ! j) (es ! i)" if "j < i" for j
    using m that by (auto simp: match_index_def first_index_Some mapping_eq_def split: option.splits)
  then have "find (\<lambda>j. j = i \<or> mapping_eq same (es ! j) (es ! i)) [0 ..< length es] = Some i"
    using match_index_less [OF m] by (auto simp: find_upt_Some)
  then show ?thesis by (simp add: index_of_def)
qed

section \<open>Lemmas: the merge\<close>

text \<open>A mapping as \<open>from_dict\<close> returns it: it has an id, and reading its dictionary back changes nothing.\<close>

definition stored :: "(nat \<Rightarrow> bool) \<Rightarrow> mapping_config \<Rightarrow> bool" where
  "stored isword m \<longleftrightarrow> mc_id m \<noteq> [] \<and> load_mapping isword [] m = m"

lemma from_dict_stored: "word_class isword \<Longrightarrow> fresh \<noteq> [] \<Longrightarrow> stored isword (load_mapping isword fresh m)"
proof -
  assume "word_class isword" "fresh \<noteq> []"
  moreover from this have "mc_id (load_mapping isword fresh m) \<noteq> []" by (simp add: load_mapping_def)
  ultimately show ?thesis by (simp add: stored_def load_settles)
qed

lemma stored_load: "stored isword m \<Longrightarrow> load_mapping isword f m = m"
  by (cases m) (auto simp: stored_def load_mapping_def)

lemma stored_retarget: "stored isword m \<Longrightarrow> i \<noteq> [] \<Longrightarrow> load_mapping isword f (m\<lparr>mc_id := i\<rparr>) = m\<lparr>mc_id := i\<rparr>"
  by (cases m) (auto simp: stored_def load_mapping_def)

lemma copy_stored: "stored isword m \<Longrightarrow> copy_mapping isword fresh m k = (m, k)"
  by (simp add: copy_mapping_def stored_load) (simp add: stored_def)

lemma copy_all_stored: "\<forall>m \<in> set ms. stored isword m \<Longrightarrow> copy_all isword fresh ms k = (ms, k)"
  by (induction ms) (simp_all add: copy_stored)

text \<open>The merge as a whole: every current mapping with the mapping of the file that is its update, then the new ones.\<close>

definition updated :: "(f64 \<Rightarrow> f64 \<Rightarrow> bool) \<Rightarrow> mapping_config list \<Rightarrow> mapping_config list \<Rightarrow> nat \<Rightarrow> mapping_config" where
  "updated same current incoming i =
     (case find (\<lambda>m. match_index current m = Some i) incoming of
        None \<Rightarrow> current ! i
      | Some m \<Rightarrow> let m' = m\<lparr>mc_id := mc_id (current ! i)\<rparr> in if mapping_eq same m' (current ! i) then current ! i else m')"

definition merged :: "(f64 \<Rightarrow> f64 \<Rightarrow> bool) \<Rightarrow> mapping_config list \<Rightarrow> mapping_config list \<Rightarrow> mapping_config list" where
  "merged same current incoming =
     map (updated same current incoming) [0 ..< length current] @ filter (\<lambda>m. match_index current m = None) incoming"

text \<open>The file does not name one mapping twice: its ids and names are distinct, and no two of its mappings update the same one.\<close>

definition names_once :: "mapping_config list \<Rightarrow> mapping_config list \<Rightarrow> bool" where
  "names_once current incoming \<longleftrightarrow> distinct (map mc_id incoming) \<and> distinct (map mc_name incoming) \<and>
     distinct (filter (\<lambda>i. i \<noteq> None) (map (match_index current) incoming))"

lemma updated_id: "mc_id (updated same current incoming i) = mc_id (current ! i)"
  by (simp add: updated_def Let_def split: option.split)

lemma updated_name:
  "mc_name (updated same current incoming i) = mc_name (current ! i) \<and> (\<forall>m \<in> set incoming. match_index current m \<noteq> Some i) \<or>
   (\<exists>m \<in> set incoming. match_index current m = Some i \<and> mc_name (updated same current incoming i) = mc_name m)"
proof (cases "find (\<lambda>m. match_index current m = Some i) incoming")
  case None
  moreover from this have "\<forall>m \<in> set incoming. match_index current m \<noteq> Some i" by (auto simp: find_None_iff)
  ultimately show ?thesis by (simp add: updated_def)
next
  case (Some m)
  then have "m \<in> set incoming" "match_index current m = Some i" by (auto simp: find_Some_iff)
  moreover have "mc_name (updated same current incoming i) = mc_name m"
    using Some by (auto simp: updated_def Let_def mapping_eq_def)
  ultimately show ?thesis by blast
qed

lemma merged_simps:
  "i < length current \<Longrightarrow> merged same current incoming ! i = updated same current incoming i"
  "length (merged same current incoming) = length current + length (filter (\<lambda>m. match_index current m = None) incoming)"
  "set (merged same current incoming) = updated same current incoming ` {0 ..< length current} \<union> {m \<in> set incoming. match_index current m = None}"
  by (auto simp: merged_def nth_append)

lemma names_once_snoc:
  assumes "names_once current (pre @ [m])"
  shows "names_once current pre" and "p \<in> set pre \<Longrightarrow> mc_id p \<noteq> mc_id m \<and> mc_name p \<noteq> mc_name m"
    and "p \<in> set pre \<Longrightarrow> match_index current m = Some i \<Longrightarrow> match_index current p \<noteq> Some i"
  using assms by (auto simp: names_once_def) (metis image_eqI)+

lemma match_merged:
  assumes "names_once current (pre @ [m])"
  shows "match_index (merged same current pre) m = match_index current m"
proof -
  note once = names_once_snoc [OF assms]
  let ?r = "merged same current pre"
  have id: "first_index (\<lambda>e. mc_id e = mc_id m) ?r = first_index (\<lambda>e. mc_id e = mc_id m) current"
  proof (cases "first_index (\<lambda>e. mc_id e = mc_id m) current")
    case None
    then have "first_index (\<lambda>e. mc_id e = mc_id m) ?r = None" using once(2) by (auto simp: first_index_None merged_simps updated_id)
    then show ?thesis using None by simp
  next
    case (Some i)
    then have "first_index (\<lambda>e. mc_id e = mc_id m) ?r = Some i" by (auto simp: first_index_Some merged_simps updated_id)
    then show ?thesis using Some by simp
  qed
  show ?thesis
  proof (cases "first_index (\<lambda>e. mc_id e = mc_id m) current")
    case None
    show ?thesis
    proof (cases "first_index (\<lambda>e. mc_name e = mc_name m) current")
      case n: None
      then have "mc_name (updated same current pre j) \<noteq> mc_name m" if "j < length current" for j
        using updated_name [of same current pre j] once(2) nth_mem [OF that] unfolding first_index_None by metis
      then have "first_index (\<lambda>e. mc_name e = mc_name m) ?r = None" using once(2) by (auto simp: first_index_None merged_simps)
      then show ?thesis using id None n by (simp add: match_index_def)
    next
      case (Some i)
      then have i: "i < length current" "mc_name (current ! i) = mc_name m" "\<forall>j < i. mc_name (current ! j) \<noteq> mc_name m"
        by (auto simp: first_index_Some)
      have mi: "match_index current m = Some i" using None Some by (simp add: match_index_def)
      have "mc_name (?r ! i) = mc_name m"
        using updated_name [of same current pre i] i(1,2) once(3) [OF _ mi] by (auto simp: merged_simps)
      moreover have "mc_name (?r ! j) \<noteq> mc_name m" if "j < i" for j
        using updated_name [of same current pre j] i(1,3) that once(2) by (auto simp: merged_simps)
      ultimately have "first_index (\<lambda>e. mc_name e = mc_name m) ?r = Some i" using i(1) by (auto simp: first_index_Some merged_simps)
      then show ?thesis using id None Some by (simp add: match_index_def)
    qed
  next
    case (Some i)
    then show ?thesis using id by (simp add: match_index_def)
  qed
qed

lemma find_snoc: "find P (xs @ [x]) = (case find P xs of Some y \<Rightarrow> Some y | None \<Rightarrow> if P x then Some x else None)"
  by (induction xs) auto

lemma updated_snoc:
  assumes "names_once current (pre @ [m])"
  shows "updated same current (pre @ [m]) i =
    (if match_index current m = Some i
     then if mapping_eq same (m\<lparr>mc_id := mc_id (current ! i)\<rparr>) (current ! i) then current ! i else m\<lparr>mc_id := mc_id (current ! i)\<rparr>
     else updated same current pre i)"
proof (cases "match_index current m = Some i")
  case True
  then have "find (\<lambda>p. match_index current p = Some i) pre = None" using names_once_snoc(3) [OF assms] by (auto simp: find_None_iff)
  then show ?thesis using True by (simp add: updated_def find_snoc Let_def)
qed (simp add: updated_def find_snoc split: option.split)

text \<open>What a mapping of the file changes, and so what is restarted.\<close>

definition change :: "(f64 \<Rightarrow> f64 \<Rightarrow> bool) \<Rightarrow> mapping_config list \<Rightarrow> mapping_config \<Rightarrow> mapping_config option" where
  "change same current m =
     (case match_index current m of
        None \<Rightarrow> Some m
      | Some i \<Rightarrow> if mapping_eq same (m\<lparr>mc_id := mc_id (current ! i)\<rparr>) (current ! i) then None else Some (m\<lparr>mc_id := mc_id (current ! i)\<rparr>))"

lemma merge_step:
  assumes "names_once current (pre @ [m])" and "stored isword m"
  shows "merge_one isword same fresh (merged same current pre, touched, k) m =
    (merged same current (pre @ [m]), touched @ (case change same current m of None \<Rightarrow> [] | Some m' \<Rightarrow> [m']), k)"
proof (cases "match_index current m")
  case None
  have mm: "match_index (merged same current pre) m = None" using match_merged [OF assms(1)] None by simp
  then have "\<not> list_ex (\<lambda>e. mc_id e = mc_id m) (merged same current pre)" by (auto simp: match_index_None list_ex_iff)
  moreover have "merged same current (pre @ [m]) = merged same current pre @ [m]"
    using updated_snoc [OF assms(1), of same] None by (simp add: merged_def)
  ultimately show ?thesis using None mm by (simp add: merge_one_def copy_stored [OF assms(2)] change_def)
next
  case (Some i)
  have mm: "match_index (merged same current pre) m = Some i" using match_merged [OF assms(1)] Some by simp
  have i: "i < length current" using match_index_less [OF Some] .
  have none: "\<forall>p \<in> set pre. match_index current p \<noteq> Some i" using names_once_snoc(3) [OF assms(1) _ Some] by blast
  then have "find (\<lambda>p. match_index current p = Some i) pre = None" by (auto simp: find_None_iff)
  then have ri: "merged same current pre ! i = current ! i" using i by (simp add: merged_simps updated_def)
  let ?new = "updated same current (pre @ [m]) i"
  have "merged same current (pre @ [m]) = (merged same current pre)[i := ?new]"
    using updated_snoc [OF assms(1), of same] Some i
    by (auto simp: merged_def list_update_append intro!: nth_equalityI simp: nth_list_update)
  moreover have "(merged same current pre)[i := current ! i] = merged same current pre" using ri by (metis list_update_id)
  ultimately show ?thesis
    using Some mm ri updated_snoc [OF assms(1), of same i] by (simp add: merge_one_def copy_stored [OF assms(2)] change_def index_of_match [OF mm] Let_def)
qed

lemma merge_all:
  assumes "names_once current incoming" and "\<forall>m \<in> set incoming. stored isword m"
  shows "foldl (merge_one isword same fresh) (current, [], k) incoming = (merged same current incoming, List.map_filter (change same current) incoming, k)"
  using assms
proof (induction incoming rule: rev_induct)
  case Nil
  have "map ((!) current) [0 ..< length current] = current" by (rule map_nth)
  then show ?case by (simp add: merged_def updated_def [abs_def] map_filter_simps)
next
  case (snoc m pre)
  then show ?case using names_once_snoc(1) [OF snoc.prems(1)] merge_step [OF snoc.prems(1)]
    by (simp add: map_filter_def split: option.split)
qed

lemma merged_found:
  assumes "names_once current incoming" and "m \<in> set incoming" and "match_index current m = Some i"
  shows "updated same current incoming i =
    (if mapping_eq same (m\<lparr>mc_id := mc_id (current ! i)\<rparr>) (current ! i) then current ! i else m\<lparr>mc_id := mc_id (current ! i)\<rparr>)"
proof -
  obtain m' where f: "find (\<lambda>m. match_index current m = Some i) incoming = Some m'"
    using assms(2,3) by (cases "find (\<lambda>m. match_index current m = Some i) incoming") (auto simp: find_None_iff)
  then have m': "m' \<in> set incoming" "match_index current m' = Some i" by (auto simp: find_Some_iff)
  have "m' = m"
  proof -
    have "inj_on (match_index current) {m \<in> set incoming. match_index current m \<noteq> None}"
      using assms(1) by (auto simp: names_once_def filter_map comp_def distinct_map)
    then show ?thesis using m' assms(2,3) by (auto simp: inj_on_def)
  qed
  then show ?thesis using f by (simp add: updated_def Let_def)
qed

lemma merge_returns: "\<exists>result touched. apply_import isword same fresh current incoming (ascii ''merge'') = Inr (result, touched)"
  by (simp add: apply_import_def ascii_def split_beta)

lemma merge_result:
  assumes "apply_import isword same fresh current incoming (ascii ''merge'') = Inr (result, touched)"
    and "\<forall>m \<in> set current. stored isword m" and "\<forall>m \<in> set incoming. stored isword m" and "names_once current incoming"
  shows "result = merged same current incoming \<and> touched = List.map_filter (change same current) incoming"
  using assms merge_all [OF assms(4,3), of same fresh]
  by (simp add: apply_import_def copy_all_stored ascii_def split: prod.splits)

section \<open>Properties\<close>

text \<open>C21: The preview of a merge tells what the merge does. For mappings as \<open>from_dict\<close> returns them and a file that does not
  name a mapping twice, every row \<open>add\<close> is a mapping that is appended as it is, in the order of the rows; every row \<open>update\<close>
  replaces the mapping it names in place and keeps its id; every row \<open>same\<close> leaves the mapping it names; a mapping that no
  row names is unchanged; and the mappings that are restarted are those of the rows \<open>add\<close> and \<open>update\<close>.\<close>
theorem import_as_previewed:
  assumes "apply_import isword same fresh current incoming (ascii ''merge'') = Inr (result, touched)"
    and "\<forall>m \<in> set current. stored isword m" and "\<forall>m \<in> set incoming. stored isword m" and "names_once current incoming"
    and "plan_rows isword same current incoming (ascii ''merge'') = rows"
  shows "drop (length current) result = map fst (filter (\<lambda>(m, r). pr_action r = Add) (zip incoming rows)) \<and>
    list_all2 (\<lambda>m r. pr_action r = Add \<or> (\<exists>i < length current. pr_target r = mc_name (current ! i) \<and>
      result ! i = (if pr_action r = Update then m\<lparr>mc_id := mc_id (current ! i)\<rparr> else current ! i))) incoming rows \<and>
    (\<forall>i < length current. result ! i = current ! i \<or> (\<exists>m \<in> set incoming. match_index current m = Some i)) \<and>
    map mc_id (take (length current) result) = map mc_id current \<and>
    length touched = length (filter (\<lambda>r. pr_action r \<noteq> Same) rows)"
proof -
  have r: "result = merged same current incoming" "touched = List.map_filter (change same current) incoming"
    using merge_result [OF assms(1-4)] by simp_all
  let ?row = "plan_row_of isword same current (ascii ''merge'')"
  have rows: "rows = map ?row incoming" using assms(5) by (auto simp: plan_rows_def ascii_def)
  have probe: "load_mapping isword [] (m\<lparr>mc_id := mc_id (current ! i)\<rparr>) = m\<lparr>mc_id := mc_id (current ! i)\<rparr>"
    if "m \<in> set incoming" "match_index current m = Some i" for m i
    using that assms(2,3) match_index_less [OF that(2)] by (auto intro!: stored_retarget simp: stored_def)
  have add: "pr_action (?row m) = Add \<longleftrightarrow> match_index current m = None" for m by (simp add: plan_row_of_def Let_def split: option.split)
  have same_row: "pr_action (?row m) = Same \<longleftrightarrow> change same current m = None" if "m \<in> set incoming" for m
    using probe [OF that] by (cases "match_index current m") (auto simp: plan_row_of_def change_def)
  have "list_all2 (\<lambda>m r. pr_action r = Add \<or> (\<exists>i < length current. pr_target r = mc_name (current ! i) \<and>
      result ! i = (if pr_action r = Update then m\<lparr>mc_id := mc_id (current ! i)\<rparr> else current ! i))) incoming rows"
    unfolding rows list.rel_map
  proof (rule list.rel_refl_strong)
    fix m assume m: "m \<in> set incoming"
    show "pr_action (?row m) = Add \<or> (\<exists>i < length current. pr_target (?row m) = mc_name (current ! i) \<and>
        result ! i = (if pr_action (?row m) = Update then m\<lparr>mc_id := mc_id (current ! i)\<rparr> else current ! i))"
    proof (cases "match_index current m")
      case (Some i)
      then show ?thesis using merged_found [OF assms(4) m Some, of same] probe [OF m Some] match_index_less [OF Some]
        by (auto simp: plan_row_of_def r merged_simps intro!: exI [of _ i])
    qed (simp add: add)
  qed
  moreover have "result ! i = current ! i \<or> (\<exists>m \<in> set incoming. match_index current m = Some i)" if "i < length current" for i
    using that by (auto simp: r merged_simps updated_def find_Some_iff split: option.split)
  moreover have "drop (length current) result = map fst (filter (\<lambda>(m, r). pr_action r = Add) (zip incoming rows))"
    unfolding rows zip_map2 by (simp add: r merged_def add filter_map comp_def split_beta zip_same_conv_map)
  moreover have "map mc_id (take (length current) result) = map mc_id current"
    by (auto simp: r merged_def updated_id intro!: nth_equalityI)
  moreover have "length touched = length (filter (\<lambda>r. pr_action r \<noteq> Same) rows)"
    by (simp add: rows r(2) map_filter_def filter_map comp_def same_row cong: filter_cong)
  ultimately show ?thesis by blast
qed

definition import_sample :: "str \<Rightarrow> string \<Rightarrow> int \<Rightarrow> mapping_config" where
  "import_sample i name port = (conn_mapping (\<lambda>_. True) i (sample_conn port))\<lparr>mc_name := ascii name\<rparr>"

definition sample_current :: "mapping_config list" where
  "sample_current = [import_sample [49] ''a'' 2000, import_sample [50] ''b'' 2001, import_sample [51] ''c'' 2002]"

definition sample_file :: "mapping_config list" where
  "sample_file = [import_sample [50] ''d'' 2003, import_sample [56] ''a'' 2000, import_sample [57] ''e'' 2004]"

lemma import_as_previewed_witness:
  "(case apply_import (\<lambda>_. True) (=) (\<lambda>_. [120]) sample_current sample_file (ascii ''merge'') of
      Inl _ \<Rightarrow> False
    | Inr (result, touched) \<Rightarrow> drop 3 result = [import_sample [57] ''e'' 2004] \<and> length touched = 2) \<and>
   map pr_action (plan_rows (\<lambda>_. True) (=) sample_current sample_file (ascii ''merge'')) = [Update, Same, Add]"
proof -
  let ?rows = "plan_rows (\<lambda>_. True) (=) sample_current sample_file (ascii ''merge'')"
  have rows: "map pr_action ?rows = [Update, Same, Add]" by code_simp
  then obtain r1 r2 r3 where l: "?rows = [r1, r2, r3]" "pr_action r1 = Update" "pr_action r2 = Same" "pr_action r3 = Add" by auto
  have st: "list_all (stored (\<lambda>_. True)) sample_current" "list_all (stored (\<lambda>_. True)) sample_file" by code_simp+
  have once: "names_once sample_current sample_file" by code_simp
  have f: "sample_file = [import_sample [50] ''d'' 2003, import_sample [56] ''a'' 2000, import_sample [57] ''e'' 2004]"
    by (simp add: sample_file_def)
  obtain result touched where a: "apply_import (\<lambda>_. True) (=) (\<lambda>_. [120]) sample_current sample_file (ascii ''merge'') = Inr (result, touched)"
    using merge_returns by blast
  have "length sample_current = 3" by (simp add: sample_current_def)
  moreover have "map fst (filter (\<lambda>(m, r). pr_action r = Add) (zip sample_file [r1, r2, r3])) = [import_sample [57] ''e'' 2004]"
    using l(2-4) by (simp add: f)
  ultimately show ?thesis using import_as_previewed [OF a _ _ once l(1)] st l a rows by (simp add: list_all_iff)
qed

section \<open>Where the preview is wrong\<close>

text \<open>A file may hold two mappings of one name, which a configuration allows. When neither is in the current configuration the
  preview announces two new mappings; the merge finds the first one by its name, and the second replaces it.\<close>

lemma merge_drops_namesake:
  "map pr_action (plan_rows (\<lambda>_. True) (=) [] [import_sample [49] ''a'' 2000, import_sample [50] ''a'' 2001] (ascii ''merge'')) = [Add, Add] \<and>
   (case apply_import (\<lambda>_. True) (=) (\<lambda>_. [120]) [] [import_sample [49] ''a'' 2000, import_sample [50] ''a'' 2001] (ascii ''merge'') of
      Inl _ \<Rightarrow> False
    | Inr (result, _) \<Rightarrow> map (ns_port \<circ> mc_network) result = [VInt 2001])"
  by code_simp

section \<open>Replacing\<close>

lemma replace_ids:
  assumes "foldl (replace_one isword fresh) (out, k) ms = (out', k')" and "distinct (map mc_id out)"
    and "inj fresh" and "\<forall>j \<ge> k. fresh j \<notin> mc_id ` set out" and "\<forall>m \<in> set ms. \<forall>j. fresh j \<noteq> mc_id m"
  shows "distinct (map mc_id out') \<and> (\<exists>new. out' = out @ new \<and> list_all2 (\<lambda>m n. \<exists>i. n = (load_mapping isword [] m)\<lparr>mc_id := i\<rparr>) ms new)"
  using assms
proof (induction ms arbitrary: out k)
  case (Cons m ms)
  have l: "\<exists>i. (load_mapping isword f m)\<lparr>mc_id := j\<rparr> = (load_mapping isword [] m)\<lparr>mc_id := i\<rparr>"
    "\<exists>i. load_mapping isword f m = (load_mapping isword [] m)\<lparr>mc_id := i\<rparr>" for f j
    by (cases m, auto simp: load_mapping_def)+
  obtain n k1 where st: "replace_one isword fresh (out, k) m = (out @ [n], k1)" and n: "\<exists>i. n = (load_mapping isword [] m)\<lparr>mc_id := i\<rparr>"
      "mc_id n \<notin> mc_id ` set out" "\<forall>j \<ge> k1. fresh j \<noteq> mc_id n" "k \<le> k1"
  proof (cases "mc_id (load_mapping isword (fresh k) m) \<in> set (map mc_id out)")
    case True
    show ?thesis
    proof (rule that [of "(load_mapping isword (fresh k) m)\<lparr>mc_id := fresh (if mc_id m = [] then Suc k else k)\<rparr>"])
    qed (use True l(1) Cons.prems(3,4) in \<open>auto simp: replace_one_def copy_mapping_def inj_eq\<close>)
  next
    case False
    show ?thesis
    proof (rule that [of "load_mapping isword (fresh k) m"])
    qed (use False l(2) Cons.prems(3,5) in \<open>auto simp: replace_one_def copy_mapping_def load_mapping_def inj_eq\<close>)
  qed
  then show ?case using Cons.IH [of "out @ [n]" k1] Cons.prems by (auto simp: st)
qed simp

text \<open>A replacing import takes over the mappings of the file in their order, with nothing but the ids changed, and leaves no two
  mappings with one id; all of them are started. The ids that \<open>_new_id\<close> draws are assumed to be new.\<close>
theorem replace_import:
  assumes "apply_import isword same fresh current incoming (ascii ''replace'') = Inr (out, touched)"
    and "inj fresh" and "\<forall>m \<in> set incoming. \<forall>j. fresh j \<noteq> mc_id m"
  shows "distinct (map mc_id out) \<and> touched = out \<and>
    list_all2 (\<lambda>m n. \<exists>i. n = (load_mapping isword [] m)\<lparr>mc_id := i\<rparr>) incoming out"
proof -
  obtain k where "foldl (replace_one isword fresh) ([], 0) incoming = (out, k)" "touched = out"
    using assms(1) by (auto simp: apply_import_def split: prod.splits if_splits)
  then show ?thesis using replace_ids [of isword fresh "[]" 0 incoming out k] assms(2,3) by simp
qed

lemma replace_returns: "\<exists>out touched. apply_import isword same fresh current incoming (ascii ''replace'') = Inr (out, touched)"
  by (simp add: apply_import_def ascii_def split_beta)

lemma replace_import_witness:
  "case apply_import (\<lambda>_. True) (=) (\<lambda>k. 120 # replicate k 120) [] [import_sample [49] ''a'' 2000, import_sample [49] ''b'' 2001] (ascii ''replace'') of
      Inl _ \<Rightarrow> False
    | Inr (out, touched) \<Rightarrow> distinct (map mc_id out) \<and> touched = out"
proof -
  let ?a = "apply_import (\<lambda>_. True) (=) (\<lambda>k. 120 # replicate k 120) [] [import_sample [49] ''a'' 2000, import_sample [49] ''b'' 2001] (ascii ''replace'')"
  obtain out touched where a: "?a = Inr (out, touched)" using replace_returns by blast
  have "inj (\<lambda>k. (120 :: nat) # replicate k 120)" by (auto simp: inj_def)
  moreover have "120 # replicate j 120 \<noteq> mc_id m" if "m \<in> set [import_sample [49] ''a'' 2000, import_sample [49] ''b'' 2001]" for m j
    using that by (auto simp: import_sample_def conn_mapping_def load_mapping_def conn_dict_def)
  ultimately show ?thesis using replace_import [OF a] a by simp
qed

end
