(* ===== verification/Serial_Port.thy ===== *)
theory Serial_Port
  imports Mapping_Dict "HOL-Library.List_Lexorder"
begin

text \<open>
  The serial side of the operating system: which device a mapping opens (\<open>app/engine/serial_io.py\<close>), the correction of the
  transport's write callback, the list of ports and its watcher (\<open>app/engine/portlist.py\<close>), and the keepalive options of a
  client's socket (\<open>app/engine/sockopts.py\<close>). What pyserial and the operating system return is given as arguments.
\<close>

section \<open>Definitions: the device to open\<close>

text \<open>What \<open>comports\<close> tells about a port; the attributes other than the device may be missing.\<close>

record port_info =
  pi_device :: str
  pi_name :: "str option"
  pi_description :: "str option"
  pi_hwid :: "str option"
  pi_vid :: pyval
  pi_pid :: pyval
  pi_serial_number :: "str option"
  pi_manufacturer :: "str option"
  pi_product :: "str option"
  pi_location :: "str option"

definition nibble_char :: "nat \<Rightarrow> nat" where
  "nibble_char d = (if d < 10 then 48 + d else 87 + d)"

fun hex_digits :: "nat \<Rightarrow> str" where
  "hex_digits n = (if n < 16 then [nibble_char n] else hex_digits (n div 16) @ [nibble_char (n mod 16)])"

declare hex_digits.simps [simp del]

text \<open>\<open>f"{v:04x}"\<close>: the sign counts as one of the four places.\<close>

definition hex04 :: "int \<Rightarrow> str" where
  "hex04 i = (let h = hex_digits (nat \<bar>i\<bar>) in
     if i < 0 then 45 # replicate (3 - length h) 48 @ h else replicate (4 - length h) 48 @ h)"

definition hexid :: "pyval \<Rightarrow> str option" where
  "hexid v = map_option hex04 (as_int v)"

text \<open>\<open>str(v).lower()\<close> of a wanted id. \<open>None\<close> stands for the text of a float or a list, which has a point, a letter or a
  bracket that no hexadecimal id has.\<close>

definition id_text :: "pyval \<Rightarrow> str option" where
  "id_text v = (case v of
       VStr s \<Rightarrow> Some (map (\<lambda>c. if 65 \<le> c \<and> c \<le> 90 then c + 32 else c) s)
     | VInt i \<Rightarrow> Some (dec_str i)
     | _ \<Rightarrow> None)"

definition wanted :: "(str \<times> pyval) list \<Rightarrow> string \<Rightarrow> pyval option" where
  "wanted want key = (case map_of want (ascii key) of Some v \<Rightarrow> if truthy v then Some v else None | None \<Rightarrow> None)"

definition same_text :: "str option \<Rightarrow> pyval \<Rightarrow> bool" where
  "same_text t v = (case (t, v) of (Some s, VStr w) \<Rightarrow> s = w | _ \<Rightarrow> False)"

definition match_port :: "port_info \<Rightarrow> (str \<times> pyval) list \<Rightarrow> bool" where
  "match_port p want =
     (let id_ok = (\<lambda>key v. case wanted want key of None \<Rightarrow> True | Some w \<Rightarrow> (case (hexid v, id_text w) of (Some a, Some b) \<Rightarrow> a = b | _ \<Rightarrow> False));
          text_ok = (\<lambda>key t. case wanted want key of None \<Rightarrow> True | Some w \<Rightarrow> same_text t w) in
      if \<not> id_ok ''vid'' (pi_vid p) then False
      else if \<not> id_ok ''pid'' (pi_pid p) then False
      else if \<not> text_ok ''serial_number'' (pi_serial_number p) then False
      else text_ok ''location'' (pi_location p))"

definition resolve_device :: "port_info list \<Rightarrow> serial_settings \<Rightarrow> str" where
  "resolve_device comports settings =
     (let want = filter (\<lambda>(k, v). truthy v) (ss_match settings) in
      if want \<noteq> [] then (case find (\<lambda>p. match_port p want) comports of Some p \<Rightarrow> pi_device p | None \<Rightarrow> ss_port settings)
      else ss_port settings)"

section \<open>Definitions: the write callback\<close>

text \<open>The transport as the callback sees it: the chunks that wait, whether the event loop calls back when the port is
  writable, whether it is being closed, and what was handed to the port.\<close>

record serial_transport =
  tr_buffer :: "bytes list"
  tr_armed :: bool
  tr_closing :: bool
  tr_sent :: bytes

text \<open>\<open>_write_ready\<close>; \<open>write_data\<close> and \<open>resume\<close> are the transport's \<open>_write_data\<close> and \<open>_maybe_resume_protocol\<close>.\<close>

definition write_ready :: "(bytes \<Rightarrow> serial_transport \<Rightarrow> serial_transport) \<Rightarrow> (serial_transport \<Rightarrow> serial_transport) \<Rightarrow> serial_transport \<Rightarrow> serial_transport" where
  "write_ready write_data resume t =
     (if tr_buffer t = [] then t\<lparr>tr_armed := False\<rparr>
      else
        let data = (if length (tr_buffer t) = 1 then last (tr_buffer t) else concat (tr_buffer t));
            t1 = resume (write_data data (t\<lparr>tr_buffer := []\<rparr>)) in
        if tr_buffer t1 = [] \<and> \<not> tr_closing t1 then t1\<lparr>tr_armed := False\<rparr> else t1)"

section \<open>Definitions: the list of ports\<close>

record port_entry =
  pe_device :: str
  pe_name :: str
  pe_description :: "str option"
  pe_hwid :: "str option"
  pe_vid :: "str option"
  pe_pid :: "str option"
  pe_serial_number :: "str option"
  pe_manufacturer :: "str option"
  pe_product :: "str option"
  pe_location :: "str option"
  pe_by_id :: "str option"
  pe_hardware :: "bool option"

text \<open>\<open>x or y\<close> for a missing or empty text.\<close>

definition text_or :: "str option \<Rightarrow> str \<Rightarrow> str" where
  "text_or t d = (case t of Some s \<Rightarrow> if s \<noteq> [] then s else d | None \<Rightarrow> d)"

definition normalize_port :: "port_info \<Rightarrow> str option \<Rightarrow> bool option \<Rightarrow> port_entry" where
  "normalize_port p by_id hardware =
     \<lparr>pe_device = pi_device p, pe_name = text_or (pi_name p) (pi_device p),
       pe_description = (let d = strip (text_or (pi_description p) []) in if d \<noteq> [] then Some d else None),
       pe_hwid = pi_hwid p, pe_vid = hexid (pi_vid p), pe_pid = hexid (pi_pid p), pe_serial_number = pi_serial_number p,
       pe_manufacturer = pi_manufacturer p, pe_product = pi_product p, pe_location = pi_location p,
       pe_by_id = by_id, pe_hardware = hardware\<rparr>"

text \<open>\<open>_by_id_links\<close>: \<open>names\<close> is the sorted listing of the folder (\<open>None\<close> when it cannot be read); the first name of a
  device stays.\<close>

definition BY_ID_DIR :: str where "BY_ID_DIR = ascii ''/dev/serial/by-id''"

definition by_id_links :: "(str \<Rightarrow> str) \<Rightarrow> str list option \<Rightarrow> str \<rightharpoonup> str" where
  "by_id_links realpath names =
     (case names of
        None \<Rightarrow> Map.empty
      | Some ns \<Rightarrow> foldl (\<lambda>out n. let link = BY_ID_DIR @ 47 # n in
          if out (realpath link) = None then out(realpath link \<mapsto> link) else out) Map.empty ns)"

text \<open>\<open>has_hardware\<close>: \<open>sys_type\<close> is what the kernel's file says about the port, \<open>None\<close> when it cannot be read.\<close>

definition has_hardware :: "bool \<Rightarrow> (str \<Rightarrow> str option) \<Rightarrow> str \<Rightarrow> bool option" where
  "has_hardware linux sys_type device =
     (let name = rev (takeWhile (\<lambda>c. c \<noteq> 47) (rev device)) in
      if \<not> linux \<or> take 4 name \<noteq> ascii ''ttyS'' then None
      else map_option (\<lambda>t. strip t \<noteq> [48]) (sys_type name))"

definition port_snapshot :: "bool \<Rightarrow> (str \<Rightarrow> str) \<Rightarrow> str list option \<Rightarrow> (str \<Rightarrow> str option) \<Rightarrow> port_info list \<Rightarrow> port_entry list" where
  "port_snapshot linux realpath names sys_type comports =
     (let links = (if linux then by_id_links realpath names else Map.empty) in
      sort_key pe_device (map (\<lambda>p. normalize_port p (links (realpath (pi_device p))) (has_hardware linux sys_type (pi_device p))) comports))"

definition visible_ports :: "port_entry list \<Rightarrow> bool \<Rightarrow> port_entry list" where
  "visible_ports ports show_all = (if show_all then ports else filter (\<lambda>p. pe_hardware p \<noteq> Some False) ports)"

definition find_port :: "port_entry list \<Rightarrow> str \<Rightarrow> port_entry option" where
  "find_port ports device = find (\<lambda>p. device \<noteq> [] \<and> (device = pe_device p \<or> Some device = pe_by_id p)) ports"

text \<open>\<open>apply_usb_match\<close> (\<open>app/web/routes/ops.py\<close>) for one side: \<open>shown\<close> and \<open>ticked\<close> are the box in the form, \<open>port\<close> is the entry of
  the selected port and \<open>old\<close> the side's stored settings. \<open>None\<close> is the \<open>ValueError\<close>.\<close>

definition usb_match :: "bool \<Rightarrow> bool \<Rightarrow> port_entry option \<Rightarrow> serial_settings option \<Rightarrow> serial_settings \<Rightarrow> serial_settings option" where
  "usb_match shown ticked port old settings =
     (if \<not> shown then Some settings
      else if \<not> ticked then Some (settings\<lparr>ss_match := []\<rparr>)
      else case port of
        Some e \<Rightarrow>
          (let vid = text_or (pe_vid e) []; pid = text_or (pe_pid e) []; sn = text_or (pe_serial_number e) [] in
           if vid \<noteq> [] \<and> pid \<noteq> [] then
             Some (settings\<lparr>ss_match := [(ascii ''vid'', VStr vid), (ascii ''pid'', VStr pid)] @
               (if sn \<noteq> [] then [(ascii ''serial_number'', VStr sn)] else [])\<rparr>)
           else None)
      | None \<Rightarrow>
          (case old of
             Some o' \<Rightarrow> if ss_match o' \<noteq> [] then Some (settings\<lparr>ss_match := ss_match o'\<rparr>) else None
           | None \<Rightarrow> None))"

text \<open>\<open>PortWatcher\<close>: the last snapshot, the version, and the lists the callback was called with.\<close>

record watcher =
  pw_ports :: "port_entry list"
  pw_version :: nat
  pw_calls :: "port_entry list list"

definition watcher_start :: "port_entry list \<Rightarrow> watcher" where
  "watcher_start ports = \<lparr>pw_ports = ports, pw_version = 1, pw_calls = []\<rparr>"

definition watcher_apply :: "port_entry list \<Rightarrow> watcher \<Rightarrow> watcher" where
  "watcher_apply new w =
     (if set (map pe_device new) \<noteq> set (map pe_device (pw_ports w))
      then w\<lparr>pw_ports := new, pw_version := Suc (pw_version w), pw_calls := pw_calls w @ [new]\<rparr>
      else w\<lparr>pw_ports := new\<rparr>)"

section \<open>Definitions: keepalive\<close>

datatype sockopt = SO_KEEPALIVE | TCP_KEEPIDLE | TCP_KEEPALIVE | TCP_KEEPINTVL | TCP_KEEPCNT | TCP_USER_TIMEOUT | SIO_KEEPALIVE_VALS

text \<open>The platform: Linux or macOS, and the names that the socket module has.\<close>

record platform =
  pf_linux :: bool
  pf_darwin :: bool
  pf_names :: "sockopt list"

definition LINUX_DATA_GIVE_UP_S :: int where "LINUX_DATA_GIVE_UP_S = 900"

text \<open>The state is the list of the options that were set; \<open>os\<close> tells which the system accepts. A call that raises ends
  \<open>enable_keepalive\<close>, except for the optional ones.\<close>

definition set_sockopt :: "(sockopt \<Rightarrow> int list \<Rightarrow> bool) \<Rightarrow> sockopt \<Rightarrow> int list \<Rightarrow> (sockopt \<times> int list) list \<Rightarrow> bool \<times> (sockopt \<times> int list) list" where
  "set_sockopt os opt vs sofar = (if os opt vs then (True, sofar @ [(opt, vs)]) else (False, sofar))"

definition set_optional :: "platform \<Rightarrow> (sockopt \<Rightarrow> int list \<Rightarrow> bool) \<Rightarrow> (sockopt \<times> int list) list \<Rightarrow> sockopt \<times> int \<Rightarrow> (sockopt \<times> int list) list" where
  "set_optional pf os sofar o' = (if fst o' \<in> set (pf_names pf) then snd (set_sockopt os (fst o') [snd o'] sofar) else sofar)"

definition idle_option :: "platform \<Rightarrow> sockopt option" where
  "idle_option pf =
     (if TCP_KEEPIDLE \<in> set (pf_names pf) then Some TCP_KEEPIDLE
      else if pf_darwin pf \<and> TCP_KEEPALIVE \<in> set (pf_names pf) then Some TCP_KEEPALIVE else None)"

definition optional_options :: "platform \<Rightarrow> int \<Rightarrow> int \<Rightarrow> int \<Rightarrow> (sockopt \<times> int) list" where
  "optional_options pf idle interval count =
     (let reap_s = idle + interval * count in
      (TCP_KEEPCNT, count) # (if pf_linux pf \<and> reap_s < LINUX_DATA_GIVE_UP_S then [(TCP_USER_TIMEOUT, reap_s * 1000)] else []))"

definition enable_keepalive :: "platform \<Rightarrow> (sockopt \<Rightarrow> int list \<Rightarrow> bool) \<Rightarrow> int \<Rightarrow> int \<Rightarrow> int \<Rightarrow> bool \<times> (sockopt \<times> int list) list" where
  "enable_keepalive pf os idle interval count =
     (let (ok, s1) = set_sockopt os SO_KEEPALIVE [1] [] in
      if \<not> ok then (False, s1)
      else case (idle_option pf, TCP_KEEPINTVL \<in> set (pf_names pf)) of
        (Some opt, True) \<Rightarrow>
          (let (ok2, s2) = set_sockopt os opt [idle] s1 in
           if \<not> ok2 then (False, s2)
           else
             let (ok3, s3) = set_sockopt os TCP_KEEPINTVL [interval] s2 in
             if \<not> ok3 then (False, s3) else (True, foldl (set_optional pf os) s3 (optional_options pf idle interval count)))
      | _ \<Rightarrow>
          if SIO_KEEPALIVE_VALS \<in> set (pf_names pf) then set_sockopt os SIO_KEEPALIVE_VALS [1, idle * 1000, interval * 1000] s1
          else (True, s1))"

text \<open>\<open>apply_keepalive\<close> on a mapping's settings: \<open>None\<close> when nothing went wrong; \<open>has_socket\<close> is whether the writer has a socket.\<close>

definition apply_keepalive :: "platform \<Rightarrow> (sockopt \<Rightarrow> int list \<Rightarrow> bool) \<Rightarrow> bool \<Rightarrow> bool \<Rightarrow> int \<Rightarrow> int \<Rightarrow> int \<Rightarrow> string option \<times> (sockopt \<times> int list) list" where
  "apply_keepalive pf os has_socket tcp_keepalive idle interval count =
     (if \<not> tcp_keepalive then (None, [])
      else if \<not> has_socket then (Some ''no underlying socket'', [])
      else let (ok, s) = enable_keepalive pf os idle interval count in (if ok then None else Some ''rejected'', s))"

section \<open>Lemmas\<close>

lemma watcher_apply_simps [simp]:
  "pw_ports (watcher_apply new w) = new"
  "pw_version (watcher_apply new w) = pw_version w + of_bool (set (map pe_device new) \<noteq> set (map pe_device (pw_ports w)))"
  "pw_calls (watcher_apply new w) = pw_calls w @ (if set (map pe_device new) \<noteq> set (map pe_device (pw_ports w)) then [new] else [])"
  by (auto simp: watcher_apply_def)

text \<open>The snapshots at which the set of devices differs from the one before.\<close>

fun changes :: "port_entry list \<Rightarrow> port_entry list list \<Rightarrow> port_entry list list" where
  "changes old [] = []"
| "changes old (new # rest) = (if set (map pe_device new) \<noteq> set (map pe_device old) then new # changes new rest else changes new rest)"

lemma watcher_run:
  "fold watcher_apply snaps w = \<lparr>pw_ports = last (pw_ports w # snaps), pw_version = pw_version w + length (changes (pw_ports w) snaps),
     pw_calls = pw_calls w @ changes (pw_ports w) snaps\<rparr>"
proof (induction snaps arbitrary: w)
  case Nil
  then show ?case by (cases w) simp
next
  case (Cons new rest)
  show ?case by (simp add: Cons.IH)
qed

text \<open>An id as it is written has no capital letter, so comparing it in small letters loses nothing.\<close>

lemma hex_digits_lower: "c \<in> set (hex_digits n) \<Longrightarrow> 48 \<le> c \<and> c \<le> 57 \<or> 97 \<le> c \<and> c \<le> 102"
proof (induction n rule: hex_digits.induct)
  case (1 n)
  have h: "d < 16 \<Longrightarrow> 48 \<le> nibble_char d \<and> nibble_char d \<le> 57 \<or> 97 \<le> nibble_char d \<and> nibble_char d \<le> 102" for d by (auto simp: nibble_char_def)
  show ?case
  proof (cases "n < 16")
    case True
    then show ?thesis using 1(2) h by (simp add: hex_digits.simps [of n])
  next
    case False
    then have "hex_digits n = hex_digits (n div 16) @ [nibble_char (n mod 16)]" by (subst hex_digits.simps) simp
    then show ?thesis using 1 False h [of "n mod 16"] by auto
  qed
qed

lemma hexid_lower: "hexid v = Some h \<Longrightarrow> id_text (VStr h) = Some h \<and> h \<noteq> []"
proof -
  assume "hexid v = Some h"
  then obtain i where h: "h = hex04 i" by (auto simp: hexid_def)
  have "\<not> (65 \<le> c \<and> c \<le> 90)" if "c \<in> set h" for c
    using that hex_digits_lower [of c "nat \<bar>i\<bar>"] unfolding h hex04_def Let_def by (auto split: if_splits)
  then have "map (\<lambda>c. if 65 \<le> c \<and> c \<le> 90 then c + 32 else c) h = h" by (intro map_idI) auto
  moreover have "hex_digits n \<noteq> []" for n by (subst hex_digits.simps) simp
  ultimately show ?thesis by (simp add: id_text_def h hex04_def Let_def)
qed

lemma usb_match_matches:
  assumes "usb_match True True (Some e) old s0 = Some s" and "pe_vid e = hexid vid" and "pe_pid e = hexid pid"
  shows "match_port q (ss_match s) \<longleftrightarrow> hexid (pi_vid q) = pe_vid e \<and> hexid (pi_pid q) = pe_pid e \<and>
      (text_or (pe_serial_number e) [] \<noteq> [] \<longrightarrow> pi_serial_number q = pe_serial_number e)"
    and "filter (\<lambda>(k, v). truthy v) (ss_match s) = ss_match s" and "ss_match s \<noteq> []"
proof -
  obtain a b where ab: "pe_vid e = Some a" "pe_pid e = Some b" "a \<noteq> []" "b \<noteq> []"
    using assms(1) by (auto simp: usb_match_def text_or_def Let_def split: option.splits if_splits)
  have l: "id_text (VStr a) = Some a" "id_text (VStr b) = Some b" using hexid_lower ab assms(2,3) by metis+
  have k: "ascii ''vid'' \<noteq> ascii ''pid''" "ascii ''vid'' \<noteq> ascii ''serial_number''" "ascii ''pid'' \<noteq> ascii ''serial_number''"
    "ascii ''location'' \<noteq> ascii ''vid''" "ascii ''location'' \<noteq> ascii ''pid''" "ascii ''location'' \<noteq> ascii ''serial_number''"
    by (simp_all add: ascii_def)
  have s: "ss_match s = [(ascii ''vid'', VStr a), (ascii ''pid'', VStr b)] @
      (if text_or (pe_serial_number e) [] \<noteq> [] then [(ascii ''serial_number'', VStr (text_or (pe_serial_number e) []))] else [])"
    using assms(1) ab by (auto simp: usb_match_def text_or_def Let_def)
  show "match_port q (ss_match s) \<longleftrightarrow> hexid (pi_vid q) = pe_vid e \<and> hexid (pi_pid q) = pe_pid e \<and>
      (text_or (pe_serial_number e) [] \<noteq> [] \<longrightarrow> pi_serial_number q = pe_serial_number e)"
    using k [THEN not_sym] k ab l unfolding s
    by (auto simp: match_port_def wanted_def same_text_def text_or_def Let_def split: option.splits if_splits)
  show "filter (\<lambda>(k, v). truthy v) (ss_match s) = ss_match s" "ss_match s \<noteq> []" using ab unfolding s by simp_all
qed

text \<open>After a callback the event loop calls back only when there is something left to write (or the port is being closed), and
  what was handed to the port and what waits is, in order, what waited before and what was added meanwhile.\<close>

lemma write_ready_quiet:
  "tr_armed (write_ready wd rs t) \<Longrightarrow> tr_buffer (write_ready wd rs t) \<noteq> [] \<or> tr_closing (write_ready wd rs t)"
  by (auto simp: write_ready_def Let_def split: if_splits)

lemma write_ready_order:
  assumes "\<And>d t. tr_buffer t = [] \<Longrightarrow> tr_sent (wd d t) @ concat (tr_buffer (wd d t)) = tr_sent t @ d"
    and "\<And>t. \<exists>new. tr_buffer (rs t) = tr_buffer t @ new \<and> tr_sent (rs t) = tr_sent t"
  shows "\<exists>new. tr_sent (write_ready wd rs t) @ concat (tr_buffer (write_ready wd rs t)) = tr_sent t @ concat (tr_buffer t) @ concat new"
proof (cases "tr_buffer t = []")
  case False
  let ?d = "if length (tr_buffer t) = 1 then last (tr_buffer t) else concat (tr_buffer t)"
  let ?t = "t\<lparr>tr_buffer := []\<rparr>"
  have d: "?d = concat (tr_buffer t)" by (auto simp: length_Suc_conv)
  obtain new where new: "tr_buffer (rs (wd ?d ?t)) = tr_buffer (wd ?d ?t) @ new" "tr_sent (rs (wd ?d ?t)) = tr_sent (wd ?d ?t)"
    using assms(2) by blast
  have "tr_sent (write_ready wd rs t) = tr_sent (rs (wd ?d ?t))" "tr_buffer (write_ready wd rs t) = tr_buffer (rs (wd ?d ?t))"
    using False by (simp_all add: write_ready_def Let_def)
  then show ?thesis using new assms(1) [of ?t ?d] d by (intro exI [of _ new]) simp
qed (simp add: write_ready_def exI [of _ "[]"])

text \<open>The limit for unacknowledged data is the time after which keepalive gives up, and never longer than the system's own.\<close>

lemma keepalive_user_timeout:
  assumes "snd (enable_keepalive pf os idle interval count) = opts" and "(TCP_USER_TIMEOUT, vs) \<in> set opts"
  shows "vs = [(idle + interval * count) * 1000] \<and> idle + interval * count < 900"
  using assms
  by (auto simp: enable_keepalive_def set_sockopt_def optional_options_def set_optional_def idle_option_def LINUX_DATA_GIVE_UP_S_def Let_def
      split: if_splits option.splits bool.splits)

section \<open>Properties\<close>

text \<open>A mapping bound to a device by its USB identity follows the device when the system numbers it anew: the identity
  stored from the list of ports makes \<open>resolve_device\<close> open whatever path a device with the same vendor, product and serial
  number has later, provided no such device comes before it in the list.\<close>
lemma usb_identity_found:
  assumes "usb_match True True (Some (normalize_port p by_id hw)) old s0 = Some s"
    and "comports = pre @ q # post"
    and "pi_vid q = pi_vid p" and "pi_pid q = pi_pid p" and "pi_serial_number q = pi_serial_number p"
    and "\<forall>r \<in> set pre. (hexid (pi_vid r), hexid (pi_pid r)) \<noteq> (hexid (pi_vid p), hexid (pi_pid p)) \<or>
      text_or (pi_serial_number p) [] \<noteq> [] \<and> pi_serial_number r \<noteq> pi_serial_number p"
  shows "resolve_device comports s = pi_device q"
proof -
  let ?e = "normalize_port p by_id hw"
  have e: "pe_vid ?e = hexid (pi_vid p)" "pe_pid ?e = hexid (pi_pid p)" "pe_serial_number ?e = pi_serial_number p"
    by (simp_all add: normalize_port_def)
  note m = usb_match_matches [OF assms(1) e(1,2)]
  have "match_port q (ss_match s)" "\<forall>r \<in> set pre. \<not> match_port r (ss_match s)"
    using assms(3-6) e m(1) by auto
  then have "find (\<lambda>p. match_port p (ss_match s)) comports = Some q"
    unfolding assms(2) by (induction pre) auto
  then show ?thesis using m(2,3) by (simp add: resolve_device_def)
qed

definition sample_port :: "string \<Rightarrow> str option \<Rightarrow> port_info" where
  "sample_port dev sn = \<lparr>pi_device = ascii dev, pi_name = None, pi_description = None, pi_hwid = None, pi_vid = VInt 0x403, pi_pid = VInt 0x6001,
     pi_serial_number = sn, pi_manufacturer = None, pi_product = None, pi_location = None\<rparr>"

lemma usb_identity_found_witness:
  "map_option (resolve_device [sample_port ''/dev/ttyUSB0'' (Some [66]), sample_port ''/dev/ttyUSB1'' (Some [65])])
     (usb_match True True (Some (normalize_port (sample_port ''/dev/ttyUSB0'' (Some [65])) None None)) None default_serial)
   = Some (ascii ''/dev/ttyUSB1'')"
proof -
  let ?p = "sample_port ''/dev/ttyUSB0'' (Some [65])"
  have "usb_match True True (Some (normalize_port ?p None None)) None default_serial \<noteq> None" by code_simp
  then obtain s where s: "usb_match True True (Some (normalize_port ?p None None)) None default_serial = Some s" by blast
  show ?thesis
    using usb_identity_found [OF s, of "[sample_port ''/dev/ttyUSB0'' (Some [66]), sample_port ''/dev/ttyUSB1'' (Some [65])]"
        "[sample_port ''/dev/ttyUSB0'' (Some [66])]" "sample_port ''/dev/ttyUSB1'' (Some [65])" "[]"]
    by (simp add: s) (simp add: sample_port_def text_or_def)
qed

end
