(* ===== verification/Operations.thy ===== *)
theory Operations
  imports Supervisor Importer Serial_Port
begin

text \<open>
  The operations on mappings behind the web pages and the REST API (\<open>app/web/routes/ops.py\<close>, \<open>app/web/api.py\<close>, and the
  handlers for duplicates and imports in \<open>app/web/routes/mappings.py\<close> and \<open>settings.py\<close>): each changes the configuration in
  memory under a lock, saves it, and tells the supervisor. The state is the configuration in memory, the one on disk and the
  supervisor calls that were made. Saving validates first, and a refused change is taken back, except in \<open>apply_action\<close>.
\<close>

section \<open>Definitions\<close>

record ops_state =
  op_config :: app_config
  op_disk :: app_config
  op_calls :: "call list"

text \<open>The answers: done (with the name of the mapping), refused with the validation error, no such mapping, or an exception that
  leaves the handler.\<close>

datatype outcome = Done str | Refused_with config_error | No_mapping | Escaped config_error

text \<open>\<open>asave\<close>: \<open>ConfigStore.save\<close> validates and writes.\<close>

definition asave :: "(str \<Rightarrow> bool) \<Rightarrow> ops_state \<Rightarrow> config_error + ops_state" where
  "asave isfile s = rbind (validate_app isfile (op_config s)) (\<lambda>_. Inr (s\<lparr>op_disk := op_config s\<rparr>))"

definition set_mappings :: "mapping_config list \<Rightarrow> ops_state \<Rightarrow> ops_state" where
  "set_mappings ms s = s\<lparr>op_config := (op_config s)\<lparr>ac_mappings := ms\<rparr>\<rparr>"

definition add_calls :: "call list \<Rightarrow> ops_state \<Rightarrow> ops_state" where
  "add_calls cs s = s\<lparr>op_calls := op_calls s @ cs\<rparr>"

definition mappings_of :: "ops_state \<Rightarrow> mapping_config list" where
  "mappings_of s = ac_mappings (op_config s)"

text \<open>\<open>mappings[mappings.index(existing)] = mapping\<close>, where \<open>existing\<close> is the first mapping with the id: an equal one before it
  would have the id too.\<close>

definition put_mapping :: "mapping_config \<Rightarrow> mapping_config list \<Rightarrow> mapping_config list" where
  "put_mapping m ms = (case first_index (\<lambda>e. mc_id e = mc_id m) ms of Some i \<Rightarrow> ms[i := m] | None \<Rightarrow> ms @ [m])"

text \<open>\<open>list.remove\<close>: the first equal entry goes.\<close>

fun remove_first :: "('a \<Rightarrow> bool) \<Rightarrow> 'a list \<Rightarrow> 'a list" where
  "remove_first p [] = []"
| "remove_first p (x # xs) = (if p x then xs else x # remove_first p xs)"

text \<open>The change of the configuration that the handlers share: save, and on a refusal take the old list back.\<close>

definition commit :: "(str \<Rightarrow> bool) \<Rightarrow> mapping_config list \<Rightarrow> call list \<Rightarrow> str \<Rightarrow> ops_state \<Rightarrow> outcome \<times> ops_state" where
  "commit isfile ms cs name s =
     (case asave isfile (set_mappings ms s) of
        Inl e \<Rightarrow> (Refused_with e, s)
      | Inr s' \<Rightarrow> (Done name, add_calls cs s'))"

definition preserve_serial :: "bool \<Rightarrow> serial_settings \<Rightarrow> serial_settings \<Rightarrow> serial_settings" where
  "preserve_serial shown cur old = cur\<lparr>ss_match := (if shown then ss_match cur else ss_match old),
     ss_hangup_when_done := ss_hangup_when_done old, ss_nobreak := ss_nobreak old\<rparr>"

text \<open>\<open>_preserve_unmanaged_fields\<close>; \<open>posted\<close> tells which fields the form has.\<close>

definition preserve_network :: "(string \<Rightarrow> bool) \<Rightarrow> network_settings \<Rightarrow> network_settings \<Rightarrow> network_settings" where
  "preserve_network posted n old =
     (let n1 = (if posted ''network_keepalive_idle_s'' then n
                else n\<lparr>ns_tcp_keepalive := ns_tcp_keepalive old, ns_keepalive_idle_s := ns_keepalive_idle_s old,
                  ns_keepalive_interval_s := ns_keepalive_interval_s old, ns_keepalive_count := ns_keepalive_count old\<rparr>) in
      if posted ''network_connect_timeout_s'' then n1 else n1\<lparr>ns_connect_timeout_s := ns_connect_timeout_s old\<rparr>)"

definition preserve_options :: "(string \<Rightarrow> bool) \<Rightarrow> mapping_options \<Rightarrow> mapping_options \<Rightarrow> mapping_options" where
  "preserve_options posted o1 old =
     (let o2 = (if posted ''opt_max_connection_time_s'' then o1 else o1\<lparr>mo_max_connection_time_s := mo_max_connection_time_s old\<rparr>);
          o3 = (if posted ''opt_trace_max_mb'' then o2 else o2\<lparr>mo_trace_max_mb := mo_trace_max_mb old, mo_trace_keep := mo_trace_keep old\<rparr>) in
      o3\<lparr>mo_openstr := mo_openstr old, mo_closestr := mo_closestr old, mo_trace_timestamp := mo_trace_timestamp old,
        mo_rfc2217_poll_modem_interval_s := mo_rfc2217_poll_modem_interval_s old, mo_rfc2217_net_timeout_s := mo_rfc2217_net_timeout_s old,
        mo_modbus_response_timeout_s := mo_modbus_response_timeout_s old\<rparr>)"

definition preserve_mqtt :: "(string \<Rightarrow> bool) \<Rightarrow> mqtt_settings \<Rightarrow> mqtt_settings \<Rightarrow> mqtt_settings" where
  "preserve_mqtt posted q old =
     (if posted ''mqtt_payload_format'' then q
      else q\<lparr>mq_payload_format := mq_payload_format old, mq_group_id := mq_group_id old, mq_node_id := mq_node_id old\<rparr>)"

definition preserve_unmanaged :: "(string \<Rightarrow> bool) \<Rightarrow> mapping_config \<Rightarrow> mapping_config option \<Rightarrow> mapping_config" where
  "preserve_unmanaged posted m existing =
     (case existing of
        None \<Rightarrow> m
      | Some e \<Rightarrow> m\<lparr>mc_network := preserve_network posted (mc_network m) (mc_network e),
          mc_options := preserve_options posted (mc_options m) (mc_options e), mc_mqtt := preserve_mqtt posted (mc_mqtt m) (mc_mqtt e),
          mc_serial := preserve_serial (posted ''serial_usb_match_shown'') (mc_serial m) (mc_serial e),
          mc_serial_b := preserve_serial (posted ''serial_b_usb_match_shown'') (mc_serial_b m) (mc_serial_b e)\<rparr>)"

text \<open>\<open>apply_usb_match\<close> for both sides; \<open>ticked\<close> tells which boxes are set.\<close>

definition usb_sides :: "(string \<Rightarrow> bool) \<Rightarrow> (string \<Rightarrow> bool) \<Rightarrow> port_entry list \<Rightarrow> mapping_config option \<Rightarrow> mapping_config \<Rightarrow> mapping_config option" where
  "usb_sides posted ticked ports existing m =
     (case usb_match (posted ''serial_usb_match_shown'') (ticked ''serial_usb_match'') (find_port ports (ss_port (mc_serial m)))
         (map_option mc_serial existing) (mc_serial m) of
        None \<Rightarrow> None
      | Some a \<Rightarrow>
          map_option (\<lambda>b. m\<lparr>mc_serial := a, mc_serial_b := b\<rparr>)
            (usb_match (posted ''serial_b_usb_match_shown'' \<and> mc_kind m = ascii ''serialbridge'') (ticked ''serial_b_usb_match'')
               (find_port ports (ss_port (mc_serial_b m))) (map_option mc_serial_b existing) (mc_serial_b m)))"

text \<open>\<open>save_mapping_from_form\<close>: \<open>parsed\<close> is the mapping the form's fields give, or \<open>None\<close> when a number in it is none.\<close>

definition save_mapping_from_form :: "(str \<Rightarrow> bool) \<Rightarrow> (string \<Rightarrow> bool) \<Rightarrow> (string \<Rightarrow> bool) \<Rightarrow> port_entry list \<Rightarrow> mapping_config option \<Rightarrow>
    ops_state \<Rightarrow> outcome \<times> ops_state" where
  "save_mapping_from_form isfile posted ticked ports parsed s =
     (case parsed of
        None \<Rightarrow> (Refused_with (ConfigError ''FormValue''), s)
      | Some m0 \<Rightarrow>
          (let existing = get_mapping (op_config s) (mc_id m0) in
           case usb_sides posted ticked ports existing (preserve_unmanaged posted m0 existing) of
             None \<Rightarrow> (Refused_with (ConfigError ''NoUsbIdentity''), s)
           | Some m \<Rightarrow>
               (case validate_mapping isfile m of
                  Inl e \<Rightarrow> (Refused_with e, s)
                | Inr _ \<Rightarrow> commit isfile (put_mapping m (mappings_of s)) [C_apply m] (mc_name m) s)))"

text \<open>\<open>apply_action\<close>: the mapping in memory is changed, and an error of the save is not caught.\<close>

definition apply_action :: "(str \<Rightarrow> bool) \<Rightarrow> str \<Rightarrow> string \<Rightarrow> ops_state \<Rightarrow> outcome \<times> ops_state" where
  "apply_action isfile mid act s =
     (case first_index (\<lambda>e. mc_id e = mid) (mappings_of s) of
        None \<Rightarrow> (No_mapping, s)
      | Some i \<Rightarrow>
          (let m = (mappings_of s ! i)\<lparr>mc_enabled := (act \<noteq> ''stop'')\<rparr>; s1 = set_mappings ((mappings_of s)[i := m]) s in
           case asave isfile s1 of
             Inl e \<Rightarrow> (Escaped e, s1)
           | Inr s2 \<Rightarrow> (Done (mc_name m),
               add_calls [if act = ''stop'' then C_stop mid else if act = ''restart'' then C_restart m else C_apply m] s2)))"

definition delete_mapping :: "(str \<Rightarrow> bool) \<Rightarrow> (f64 \<Rightarrow> f64 \<Rightarrow> bool) \<Rightarrow> str \<Rightarrow> ops_state \<Rightarrow> outcome \<times> ops_state" where
  "delete_mapping isfile same mid s =
     (case get_mapping (op_config s) mid of
        None \<Rightarrow> (No_mapping, s)
      | Some m \<Rightarrow>
          (let s1 = set_mappings (remove_first (\<lambda>e. e = m \<or> mapping_eq same e m) (mappings_of s)) s in
           case asave isfile s1 of
             Inl e \<Rightarrow> (Escaped e, s1)
           | Inr s2 \<Rightarrow> (Done (mc_name m), add_calls [C_remove mid] s2)))"

text \<open>The REST API: \<open>create_mapping\<close> appends under a new id; \<open>update_mapping\<close> replaces.\<close>

definition create_mapping :: "(str \<Rightarrow> bool) \<Rightarrow> mapping_config \<Rightarrow> ops_state \<Rightarrow> outcome \<times> ops_state" where
  "create_mapping isfile m s =
     (case validate_mapping isfile m of
        Inl e \<Rightarrow> (Refused_with e, s)
      | Inr _ \<Rightarrow> commit isfile (mappings_of s @ [m]) [C_apply m] (mc_name m) s)"

definition update_mapping :: "(str \<Rightarrow> bool) \<Rightarrow> str \<Rightarrow> mapping_config \<Rightarrow> ops_state \<Rightarrow> outcome \<times> ops_state" where
  "update_mapping isfile mid m0 s =
     (let m = m0\<lparr>mc_id := mid\<rparr> in
      case validate_mapping isfile m of
        Inl e \<Rightarrow> (Refused_with e, s)
      | Inr _ \<Rightarrow>
          if first_index (\<lambda>e. mc_id e = mid) (mappings_of s) = None then (No_mapping, s)
          else commit isfile (put_mapping m (mappings_of s)) [C_apply m] (mc_name m) s)"

text \<open>The loop of \<open>mapping_duplicate\<close> that looks for a free port.\<close>

function free_port :: "pyval list \<Rightarrow> int \<Rightarrow> int" where
  "free_port used p = (if list_ex (py_eq (VInt p)) used \<and> p < 65535 then free_port used (p + 1) else p)"
  by auto
termination by (relation "measure (\<lambda>(used, p). nat (65535 - p))") auto

declare free_port.simps [simp del]

definition duplicate_mapping :: "(nat \<Rightarrow> bool) \<Rightarrow> (str \<Rightarrow> bool) \<Rightarrow> str \<Rightarrow> str \<Rightarrow> ops_state \<Rightarrow> outcome \<times> ops_state" where
  "duplicate_mapping isword isfile fresh mid s =
     (case get_mapping (op_config s) mid of
        None \<Rightarrow> (No_mapping, s)
      | Some m \<Rightarrow>
          (let dup = load_mapping isword fresh (m\<lparr>mc_id := [], mc_name := mc_name m @ ascii '' (copy)'', mc_enabled := False\<rparr>);
               used = map (\<lambda>e. ns_port (mc_network e)) (filter (\<lambda>e. mc_kind e = ascii ''net'') (mappings_of s));
               dup' = (if binds_port dup then
                   (case as_int (ns_port (mc_network dup)) of
                      Some p \<Rightarrow>
                        if free_port used p = p then dup
                        else dup\<lparr>mc_network := (mc_network dup)\<lparr>ns_port := VInt (free_port used p)\<rparr>\<rparr>
                    | None \<Rightarrow> dup)
                 else dup) in
           commit isfile (mappings_of s @ [dup']) [] (mc_name dup') s))"

text \<open>\<open>_apply_import\<close> of the settings page, for a mode that was checked.\<close>

definition import_mappings :: "(nat \<Rightarrow> bool) \<Rightarrow> (str \<Rightarrow> bool) \<Rightarrow> (f64 \<Rightarrow> f64 \<Rightarrow> bool) \<Rightarrow> (nat \<Rightarrow> str) \<Rightarrow> mapping_config list \<Rightarrow> str \<Rightarrow>
    ops_state \<Rightarrow> outcome \<times> ops_state" where
  "import_mappings isword isfile same fresh incoming mode s =
     (case apply_import isword same fresh (mappings_of s) incoming mode of
        Inl e \<Rightarrow> (Escaped e, s)
      | Inr (ms, touched) \<Rightarrow>
          commit isfile ms (if mode = ascii ''replace'' then [C_stop_all, C_start_all ms] else map C_apply touched) [] s)"

section \<open>Roles and views\<close>

definition role_rank :: "str \<Rightarrow> int" where
  "role_rank r = (case map_of ROLE_RANK r of Some n \<Rightarrow> n | None \<Rightarrow> 0)"

text \<open>\<open>require_role\<close>: whether the request goes on; \<open>u\<close> is the session's user.\<close>

definition require_role :: "user option \<Rightarrow> str \<Rightarrow> bool" where
  "require_role u role = (case u of None \<Rightarrow> False | Some v \<Rightarrow> \<not> role_rank (us_role v) < role_rank role)"

definition REDACTED :: str where "REDACTED = replicate 8 42"

definition mapping_view :: "str \<Rightarrow> mapping_config \<Rightarrow> mapping_config" where
  "mapping_view token_role m =
     (if token_role = ascii ''viewer'' \<and> mq_password (mc_mqtt m) \<noteq> []
      then m\<lparr>mc_mqtt := (mc_mqtt m)\<lparr>mq_password := REDACTED\<rparr>\<rparr> else m)"

section \<open>Every request\<close>

datatype op =
    Op_save "string \<Rightarrow> bool" "string \<Rightarrow> bool" "port_entry list" "mapping_config option"
  | Op_action str string
  | Op_delete str
  | Op_create mapping_config
  | Op_update str mapping_config
  | Op_duplicate str str
  | Op_import "nat \<Rightarrow> str" "mapping_config list" str

fun run_op :: "(nat \<Rightarrow> bool) \<Rightarrow> (str \<Rightarrow> bool) \<Rightarrow> (f64 \<Rightarrow> f64 \<Rightarrow> bool) \<Rightarrow> op \<Rightarrow> ops_state \<Rightarrow> outcome \<times> ops_state" where
  "run_op isword isfile same (Op_save posted ticked ports parsed) s = save_mapping_from_form isfile posted ticked ports parsed s"
| "run_op isword isfile same (Op_action mid act) s = apply_action isfile mid act s"
| "run_op isword isfile same (Op_delete mid) s = delete_mapping isfile same mid s"
| "run_op isword isfile same (Op_create m) s = create_mapping isfile m s"
| "run_op isword isfile same (Op_update mid m) s = update_mapping isfile mid m s"
| "run_op isword isfile same (Op_duplicate fresh mid) s = duplicate_mapping isword isfile fresh mid s"
| "run_op isword isfile same (Op_import fresh incoming mode) s = import_mappings isword isfile same fresh incoming mode s"

section \<open>Lemmas: parts of a valid list\<close>

text \<open>A state of the loop over the mappings that has seen less.\<close>

definition below :: "(str \<Rightarrow> str option) \<times> bind_key list \<Rightarrow> (str \<Rightarrow> str option) \<times> bind_key list \<Rightarrow> bool" where
  "below a b \<longleftrightarrow> (\<forall>d i. fst a d = Some i \<longrightarrow> fst b d = Some i) \<and> set (snd a) \<subseteq> set (snd b)"

lemma below_refl [simp]: "below a a"
  by (simp add: below_def)

lemma below_trans: "below a b \<Longrightarrow> below b c \<Longrightarrow> below a c"
  by (auto simp: below_def)

lemma claim_below:
  assumes "rfold (claim_device m) o2 devs = Inr o2'" and "\<forall>d i. o1 d = Some i \<longrightarrow> o2 d = Some i"
  shows "\<exists>o1'. rfold (claim_device m) o1 devs = Inr o1' \<and> (\<forall>d i. o1' d = Some i \<longrightarrow> o2' d = Some i)"
proof -
  have c: "\<forall>d \<in> set devs. \<forall>i. o2 d = Some i \<longrightarrow> i = mc_id m" "\<forall>d. o2' d = (if d \<in> set devs then Some (mc_id m) else o2 d)"
    using claim_devices [OF assms(1)] by blast+
  have "\<forall>d \<in> set devs. o1 d = None \<or> o1 d = Some (mc_id m)" using c(1) assms(2) by (metis not_None_eq)
  then obtain o1' where o1: "rfold (claim_device m) o1 devs = Inr o1'" using claim_free by blast
  then have "\<forall>d. o1' d = (if d \<in> set devs then Some (mc_id m) else o1 d)" using claim_devices by blast
  then show ?thesis using o1 c(2) assms(2) by auto
qed

lemma disabled_simps:
  "validate_mapping isfile (m\<lparr>mc_enabled := b\<rparr>) = validate_mapping isfile m" "binds_port (m\<lparr>mc_enabled := b\<rparr>) = binds_port m"
  "clashes (m\<lparr>mc_enabled := b\<rparr>) = clashes m" "bind_key_of (m\<lparr>mc_enabled := b\<rparr>) = bind_key_of m"
  by (cases m, simp only: validate_mapping_def binds_port_def clashes_def [abs_def] bind_key_of_def transport_def mapping_config.simps)+

lemma one_below:
  assumes "validate_one isfile b m = Inr b'" and "below a b"
  shows "\<exists>a'. validate_one isfile a m = Inr a' \<and> below a' b'"
    and "\<exists>a'. validate_one isfile a (m\<lparr>mc_enabled := False\<rparr>) = Inr a' \<and> below a' b'"
    and "below b b'"
proof -
  obtain o2 s2 where b: "b = (o2, s2)" by (cases b)
  obtain o1 s1 where a: "a = (o1, s1)" by (cases a)
  obtain o2' where v: "validate_mapping isfile m = Inr ()"
    and c: "(if mc_enabled m then rfold (claim_device m) o2 (mapping_devices m) else Inr o2) = Inr o2'"
    and k: "binds_port m \<longrightarrow> \<not> list_ex (clashes m) s2" "b' = (o2', if binds_port m then s2 @ [bind_key_of m] else s2)"
    using assms(1) by (auto simp: validate_one_def b rbind_eq_Inr bind_key_of_def split: if_splits)
  have le: "\<forall>d i. o1 d = Some i \<longrightarrow> o2 d = Some i" "set s1 \<subseteq> set s2" using assms(2) by (auto simp: below_def a b)
  have k1: "binds_port m \<longrightarrow> \<not> list_ex (clashes m) s1" using k(1) le(2) by (auto simp: list_ex_iff)
  have up: "\<forall>d i. o2 d = Some i \<longrightarrow> o2' d = Some i"
    using c claim_devices [of m o2 "mapping_devices m" o2'] by (auto split: if_splits)
  show "\<exists>a'. validate_one isfile a m = Inr a' \<and> below a' b'"
  proof (cases "mc_enabled m")
    case True
    then obtain o1' where "rfold (claim_device m) o1 (mapping_devices m) = Inr o1'" "\<forall>d i. o1' d = Some i \<longrightarrow> o2' d = Some i"
      using claim_below [of m o2 "mapping_devices m" o2' o1] c le(1) by auto
    then show ?thesis using True v k1 k(2) le(2) by (auto simp: validate_one_def a below_def bind_key_of_def)
  next
    case False
    then show ?thesis using v c k1 k(2) le by (auto simp: validate_one_def a below_def bind_key_of_def)
  qed
  show "\<exists>a'. validate_one isfile a (m\<lparr>mc_enabled := False\<rparr>) = Inr a' \<and> below a' b'"
    using v k1 k(2) le up disabled_simps(4) [of False m] by (auto simp: validate_one_def a below_def bind_key_of_def disabled_simps(1-3))
  show "below b b'" using up k(2) by (auto simp: below_def b)
qed

lemma fold_below:
  assumes "rfold (validate_one isfile) b ms = Inr b'" and "below a b"
  shows "\<exists>a'. rfold (validate_one isfile) a ms = Inr a' \<and> below a' b'"
  using assms
proof (induction ms arbitrary: a b)
  case (Cons m ms)
  then obtain b1 where b1: "validate_one isfile b m = Inr b1" "rfold (validate_one isfile) b1 ms = Inr b'" by (auto simp: rbind_eq_Inr)
  obtain a1 where "validate_one isfile a m = Inr a1" "below a1 b1" using one_below(1) [OF b1(1) Cons.prems(2)] by blast
  then show ?case using Cons.IH [OF b1(2)] by auto
qed simp

lemma fold_part:
  assumes "rfold (validate_one isfile) a (pre @ m # post) = Inr a'"
  shows "\<exists>b. rfold (validate_one isfile) a (pre @ post) = Inr b" and "\<exists>b. rfold (validate_one isfile) a (pre @ m\<lparr>mc_enabled := False\<rparr> # post) = Inr b"
proof -
  obtain a0 a1 where p: "rfold (validate_one isfile) a pre = Inr a0" and m: "validate_one isfile a0 m = Inr a1"
    and r: "rfold (validate_one isfile) a1 post = Inr a'"
    using assms by (auto simp: rfold_append rbind_eq_Inr)
  obtain b1 where b1: "validate_one isfile a0 (m\<lparr>mc_enabled := False\<rparr>) = Inr b1" "below b1 a1"
    using one_below(2) [OF m below_refl] by blast
  show "\<exists>b. rfold (validate_one isfile) a (pre @ post) = Inr b"
    using p fold_below [OF r one_below(3) [OF m below_refl]] by (auto simp: rfold_append)
  show "\<exists>b. rfold (validate_one isfile) a (pre @ m\<lparr>mc_enabled := False\<rparr> # post) = Inr b"
    using p b1(1) fold_below [OF r b1(2)] by (auto simp: rfold_append)
qed

lemma validate_part:
  assumes "validate_app isfile cfg = Inr ()" and "ac_mappings cfg = pre @ m # post"
  shows "validate_app isfile (cfg\<lparr>ac_mappings := pre @ post\<rparr>) = Inr ()"
    and "validate_app isfile (cfg\<lparr>ac_mappings := pre @ m\<lparr>mc_enabled := False\<rparr> # post\<rparr>) = Inr ()"
proof -
  obtain st where "rfold (validate_one isfile) (Map.empty, []) (pre @ m # post) = Inr st"
    using assms by (auto simp: validate_app_def rbind_eq_Inr)
  note p = fold_part [OF this]
  show "validate_app isfile (cfg\<lparr>ac_mappings := pre @ post\<rparr>) = Inr ()"
    "validate_app isfile (cfg\<lparr>ac_mappings := pre @ m\<lparr>mc_enabled := False\<rparr> # post\<rparr>) = Inr ()"
    using assms(1) p by (auto simp: validate_app_def validate_admin_def rbind_eq_Inr)
qed

section \<open>Lemmas: the operations\<close>

text \<open>What holds between requests: the configuration in memory is valid and is the one on disk.\<close>

definition valid_on_disk :: "(str \<Rightarrow> bool) \<Rightarrow> ops_state \<Rightarrow> bool" where
  "valid_on_disk isfile s \<longleftrightarrow> op_disk s = op_config s \<and> validate_app isfile (op_config s) = Inr ()"

text \<open>The calls of a step name mappings of the saved configuration.\<close>

definition calls_known :: "ops_state \<Rightarrow> ops_state \<Rightarrow> bool" where
  "calls_known s s' \<longleftrightarrow> (\<exists>new. op_calls s' = op_calls s @ new \<and>
     (\<forall>c \<in> set new. mc_id ` call_mappings c \<subseteq> mc_id ` set (ac_mappings (op_disk s'))))"

lemma calls_known_refl [simp]: "calls_known s s"
  by (simp add: calls_known_def)

lemma asave_cases:
  assumes "asave isfile s = Inr s'"
  shows "s' = s\<lparr>op_disk := op_config s\<rparr>" and "validate_app isfile (op_config s) = Inr ()"
  using assms by (auto simp: asave_def rbind_eq_Inr)

lemma asave_valid: "validate_app isfile (op_config s) = Inr () \<Longrightarrow> asave isfile s = Inr (s\<lparr>op_disk := op_config s\<rparr>)"
  by (simp add: asave_def)

lemma commit_ok:
  assumes "commit isfile ms cs name s = (r, s')" and "valid_on_disk isfile s"
    and "\<forall>c \<in> set cs. mc_id ` call_mappings c \<subseteq> mc_id ` set ms"
  shows "valid_on_disk isfile s' \<and> calls_known s s' \<and> (\<forall>e. r \<noteq> Escaped e)"
proof (cases "asave isfile (set_mappings ms s)")
  case (Inl e)
  then show ?thesis using assms(1,2) by (auto simp: commit_def)
next
  case (Inr s1)
  note c = asave_cases [OF Inr]
  have s': "s' = add_calls cs s1" "r = Done name" using assms(1) Inr by (auto simp: commit_def)
  then show ?thesis using c assms(3)
    by (auto simp: valid_on_disk_def calls_known_def add_calls_def set_mappings_def)
qed

lemma put_mapping_mem: "m \<in> set (put_mapping m ms)"
  by (auto simp: put_mapping_def first_index_Some set_update_memI split: option.split)

lemma merge_touched:
  assumes "mc_id ` set touched \<subseteq> mc_id ` set result" and "foldl (merge_one isword same fresh) (result, touched, k) ms = (result', touched', k')"
  shows "mc_id ` set touched' \<subseteq> mc_id ` set result'"
  using assms
proof (induction ms arbitrary: result touched k)
  case (Cons m ms)
  obtain r t k1 where st: "merge_one isword same fresh (result, touched, k) m = (r, t, k1)" by (metis prod_cases3)
  obtain m1 k2 where c: "copy_mapping isword fresh m k = (m1, k2)" by fastforce
  have "mc_id ` set t \<subseteq> mc_id ` set r"
  proof (cases "match_index result m1")
    case None
    then show ?thesis using st Cons.prems(1) by (auto simp: merge_one_def c Let_def image_subset_iff split: if_splits)
  next
    case (Some i)
    then have i: "i < length result" "index_of same result i = i" using match_index_less index_of_match by blast+
    have "map mc_id (result[i := m1\<lparr>mc_id := mc_id (result ! i)\<rparr>]) = map mc_id result"
      using i(1) by (simp add: map_update list_update_same_conv)
    then have "mc_id ` set (result[i := m1\<lparr>mc_id := mc_id (result ! i)\<rparr>]) = mc_id ` set result" by (metis list.set_map)
    moreover have "mc_id (result ! i) \<in> mc_id ` set result" using i(1) by simp
    ultimately show ?thesis using st Some i(2) Cons.prems(1) by (auto simp: merge_one_def c Let_def image_subset_iff split: if_splits)
  qed
  then show ?case using Cons.IH [of t r k1] Cons.prems(2) st by simp
qed simp

lemma import_touched:
  assumes "apply_import isword same fresh current incoming mode = Inr (ms, touched)"
  shows "mc_id ` set touched \<subseteq> mc_id ` set ms"
  using assms merge_touched [of "[]"] by (auto simp: apply_import_def split: if_splits prod.splits)

lemma remove_first_split:
  assumes "find p ms = Some m" and "\<And>e. q e \<Longrightarrow> p e" and "q m"
  shows "\<exists>pre post. ms = pre @ m # post \<and> remove_first q ms = pre @ post"
  using assms(1)
proof (induction ms)
  case (Cons x xs)
  show ?case
  proof (cases "p x")
    case True
    then show ?thesis using Cons.prems assms(3) by (intro exI [of _ "[]"] exI [of _ xs]) auto
  next
    case False
    then obtain pre post where "xs = pre @ m # post" "remove_first q xs = pre @ post" using Cons by auto
    then show ?thesis using False assms(2) [of x] by (intro exI [of _ "x # pre"] exI [of _ post]) auto
  qed
qed simp

lemma mapping_eq_id: "mapping_eq same a b \<Longrightarrow> mc_id a = mc_id b"
  by (simp add: mapping_eq_def)

lemma delete_ok:
  assumes "delete_mapping isfile same mid s = (r, s')" and "valid_on_disk isfile s"
  shows "valid_on_disk isfile s' \<and> calls_known s s' \<and> (\<forall>e. r \<noteq> Escaped e)"
proof (cases "get_mapping (op_config s) mid")
  case None
  then show ?thesis using assms by (auto simp: delete_mapping_def)
next
  case (Some m)
  then have f: "find (\<lambda>e. mc_id e = mid) (mappings_of s) = Some m" by (simp add: get_mapping_def mappings_of_def)
  then have "mc_id m = mid" by (auto simp: find_Some_iff)
  then obtain pre post where p: "mappings_of s = pre @ m # post" "remove_first (\<lambda>e. e = m \<or> mapping_eq same e m) (mappings_of s) = pre @ post"
    using remove_first_split [OF f, of "\<lambda>e. e = m \<or> mapping_eq same e m"] mapping_eq_id by blast
  let ?s1 = "set_mappings (pre @ post) s"
  have v: "validate_app isfile (op_config ?s1) = Inr ()"
    using validate_part(1) [of isfile "op_config s" pre m post] assms(2) p(1) by (simp add: valid_on_disk_def set_mappings_def mappings_of_def)
  then show ?thesis using assms(1) Some p(2) asave_valid [OF v]
    by (auto simp: delete_mapping_def valid_on_disk_def calls_known_def add_calls_def set_mappings_def)
qed

lemma stop_ok:
  assumes "apply_action isfile mid ''stop'' s = (r, s')" and "valid_on_disk isfile s"
  shows "valid_on_disk isfile s' \<and> calls_known s s' \<and> (\<forall>e. r \<noteq> Escaped e)"
proof (cases "first_index (\<lambda>e. mc_id e = mid) (mappings_of s)")
  case None
  then show ?thesis using assms by (auto simp: apply_action_def)
next
  case (Some i)
  then have i: "i < length (mappings_of s)" by (auto simp: first_index_Some)
  let ?ms = "(mappings_of s)[i := (mappings_of s ! i)\<lparr>mc_enabled := False\<rparr>]"
  have v: "validate_app isfile (op_config (set_mappings ?ms s)) = Inr ()"
    using validate_part(2) [of isfile "op_config s" "take i (mappings_of s)" "mappings_of s ! i" "drop (Suc i) (mappings_of s)"] assms(2) i
    by (simp add: valid_on_disk_def set_mappings_def mappings_of_def id_take_nth_drop [symmetric] upd_conv_take_nth_drop)
  then show ?thesis using assms(1) Some asave_valid [OF v]
    by (auto simp: apply_action_def Let_def valid_on_disk_def calls_known_def add_calls_def set_mappings_def)
qed

lemma start_cases:
  assumes "apply_action isfile mid act s = (r, s')" and "valid_on_disk isfile s"
  shows "valid_on_disk isfile s' \<and> calls_known s s' \<and> (\<forall>e. r \<noteq> Escaped e) \<or>
    (\<exists>e. r = Escaped e \<and> op_disk s' = op_disk s \<and> op_calls s' = op_calls s)"
proof (cases "first_index (\<lambda>e. mc_id e = mid) (mappings_of s)")
  case None
  then show ?thesis using assms by (auto simp: apply_action_def)
next
  case (Some i)
  then have i: "i < length (mappings_of s)" by (auto simp: first_index_Some)
  let ?m = "(mappings_of s ! i)\<lparr>mc_enabled := (act \<noteq> ''stop'')\<rparr>"
  let ?s1 = "set_mappings ((mappings_of s)[i := ?m]) s"
  show ?thesis
  proof (cases "asave isfile ?s1")
    case (Inl e)
    then show ?thesis using assms(1) Some by (auto simp: apply_action_def Let_def set_mappings_def)
  next
    case (Inr s2)
    note c = asave_cases [OF Inr]
    let ?c = "if act = ''stop'' then C_stop mid else if act = ''restart'' then C_restart ?m else C_apply ?m"
    have s': "s' = add_calls [?c] s2" "r = Done (mc_name ?m)" using assms(1) Some Inr by (auto simp: apply_action_def Let_def)
    have "?m \<in> set ((mappings_of s)[i := ?m])" using i by (rule set_update_memI)
    moreover have "call_mappings ?c \<subseteq> {?m}" by simp
    ultimately have "mc_id ` call_mappings ?c \<subseteq> mc_id ` set ((mappings_of s)[i := ?m])" by blast
    moreover have "ac_mappings (op_disk s2) = (mappings_of s)[i := ?m]" using c(1) by (simp add: set_mappings_def)
    moreover have "op_calls s' = op_calls s @ [?c]" "op_disk s' = op_disk s2" "op_config s' = op_config ?s1" "op_disk s2 = op_config ?s1"
      using c(1) s'(1) by (simp_all add: add_calls_def set_mappings_def)
    ultimately show ?thesis using c(2) s'(2) by (simp add: valid_on_disk_def calls_known_def del: call_mappings.simps)
  qed
qed

lemma save_ok:
  assumes "save_mapping_from_form isfile posted ticked ports parsed s = (r, s')" and "valid_on_disk isfile s"
  shows "valid_on_disk isfile s' \<and> calls_known s s' \<and> (\<forall>e. r \<noteq> Escaped e)"
proof -
  consider "s' = s" "\<forall>e. r \<noteq> Escaped e" | m where "commit isfile (put_mapping m (mappings_of s)) [C_apply m] (mc_name m) s = (r, s')"
    using assms(1) by (auto simp: save_mapping_from_form_def Let_def split: option.splits sum.splits)
  then show ?thesis using assms(2) by cases (auto dest!: commit_ok simp: put_mapping_mem)
qed

lemma crud_ok:
  assumes "valid_on_disk isfile s"
  shows "create_mapping isfile m s = (r, s') \<Longrightarrow> valid_on_disk isfile s' \<and> calls_known s s' \<and> (\<forall>e. r \<noteq> Escaped e)"
    and "update_mapping isfile mid m s = (r, s') \<Longrightarrow> valid_on_disk isfile s' \<and> calls_known s s' \<and> (\<forall>e. r \<noteq> Escaped e)"
    and "duplicate_mapping isword isfile new mid s = (r, s') \<Longrightarrow> valid_on_disk isfile s' \<and> calls_known s s' \<and> (\<forall>e. r \<noteq> Escaped e)"
    and "import_mappings isword isfile same fresh incoming mode s = (r, s') \<Longrightarrow> valid_on_disk isfile s' \<and> calls_known s s'"
proof -
  show "create_mapping isfile m s = (r, s') \<Longrightarrow> valid_on_disk isfile s' \<and> calls_known s s' \<and> (\<forall>e. r \<noteq> Escaped e)"
    using assms commit_ok by (auto simp: create_mapping_def split: sum.splits)
  show "update_mapping isfile mid m s = (r, s') \<Longrightarrow> valid_on_disk isfile s' \<and> calls_known s s' \<and> (\<forall>e. r \<noteq> Escaped e)"
    using assms commit_ok [of isfile "put_mapping (m\<lparr>mc_id := mid\<rparr>) (mappings_of s)"]
      imageI [OF put_mapping_mem, of mc_id "m\<lparr>mc_id := mid\<rparr>" "mappings_of s"]
    by (auto simp: update_mapping_def Let_def split: sum.splits if_splits)
  show "duplicate_mapping isword isfile new mid s = (r, s') \<Longrightarrow> valid_on_disk isfile s' \<and> calls_known s s' \<and> (\<forall>e. r \<noteq> Escaped e)"
    using assms commit_ok by (auto simp: duplicate_mapping_def Let_def split: option.splits)
  assume i: "import_mappings isword isfile same fresh incoming mode s = (r, s')"
  show "valid_on_disk isfile s' \<and> calls_known s s'"
  proof (cases "apply_import isword same fresh (mappings_of s) incoming mode")
    case (Inl e)
    then show ?thesis using i assms by (auto simp: import_mappings_def)
  next
    case (Inr p)
    then obtain ms touched where p: "apply_import isword same fresh (mappings_of s) incoming mode = Inr (ms, touched)" by (cases p) auto
    let ?cs = "if mode = ascii ''replace'' then [C_stop_all, C_start_all ms] else map C_apply touched"
    have "\<forall>c \<in> set ?cs. mc_id ` call_mappings c \<subseteq> mc_id ` set ms" using import_touched [OF p] by auto
    then show ?thesis using i p commit_ok [of isfile ms ?cs "[]" s r s'] assms by (simp add: import_mappings_def)
  qed
qed

section \<open>Properties\<close>


definition sample_ops :: ops_state where
  "sample_ops = (let cfg = sample_config\<lparr>ac_mappings := [import_sample [49] ''a'' 2000, (import_sample [50] ''b'' 2001)\<lparr>mc_enabled := False\<rparr>]\<rparr> in
     \<lparr>op_config = cfg, op_disk = cfg, op_calls = []\<rparr>)"


section \<open>Where a request leaves an invalid configuration\<close>

text \<open>Starting a mapping whose serial device another enabled mapping has: the error escapes \<open>apply_action\<close> and the mapping stays
  enabled in memory. From then on the configuration does not validate, so a later request that has nothing to do with these
  mappings is refused, until one of them is stopped.\<close>

lemma start_conflict_blocks_saves:
  "let (r, s') = apply_action (\<lambda>_. True) [50] ''start'' sample_ops;
       other = (import_sample [51] ''c'' 2005)\<lparr>mc_enabled := False\<rparr> in
   r = Escaped (ConfigError ''SerialShared'') \<and>
   fst (create_mapping (\<lambda>_. True) other sample_ops) = Done (ascii ''c'') \<and>
   fst (create_mapping (\<lambda>_. True) other s') = Refused_with (ConfigError ''SerialShared'') \<and>
   fst (create_mapping (\<lambda>_. True) other (snd (apply_action (\<lambda>_. True) [50] ''stop'' s'))) = Done (ascii ''c'')"
  by code_simp

end
