(* ===== verification/Forms.thy ===== *)
theory Forms
  imports Operations Json
begin

text \<open>
  The parsing of the web forms (\<open>app/web/routes/forms.py\<close>): the mapping form, the directory and single-sign-on settings, the
  checks of user names and passwords. A form is the list of its fields as they were posted; of fields with one name the last
  counts, and only fields with ASCII names are ever read. The mapping form is read in two ways: strictly for a save, where a number that is none is an error, and leniently to
  show a rejected form again, where it becomes the default.
\<close>

section \<open>Definitions: fields\<close>

type_synonym form = "(string \<times> str) list"

definition form_get :: "form \<Rightarrow> string \<Rightarrow> str option" where
  "form_get f k = map_of (rev f) k"

text \<open>\<open>form.get(k, d)\<close>.\<close>

definition form_text :: "form \<Rightarrow> string \<Rightarrow> str \<Rightarrow> str" where
  "form_text f k d = (case form_get f k of Some v \<Rightarrow> v | None \<Rightarrow> d)"

text \<open>\<open>form.get(k, "").strip()\<close>.\<close>

definition form_strip :: "form \<Rightarrow> string \<Rightarrow> str" where
  "form_strip f k = strip (form_text f k [])"

definition posted :: "form \<Rightarrow> string \<Rightarrow> bool" where
  "posted f k \<longleftrightarrow> form_get f k \<noteq> None"

definition checkbox :: "form \<Rightarrow> string \<Rightarrow> bool" where
  "checkbox f k = (case form_get f k of None \<Rightarrow> False | Some v \<Rightarrow> v \<in> set [ascii ''on'', ascii ''true'', ascii ''1'', ascii ''yes''])"

text \<open>\<open>s or d\<close>.\<close>

definition or_else :: "str \<Rightarrow> str \<Rightarrow> str" where
  "or_else s d = (if s = [] then d else s)"

text \<open>\<open>_split\<close>: the words between blanks and commas.\<close>

definition split_words :: "str \<Rightarrow> str list" where
  "split_words s = filter (\<lambda>x. x \<noteq> []) (split_on 44 (map (\<lambda>c. if py_isspace c then 44 else c) s))"

text \<open>A \<open>ValueError\<close> of the parser: a number that is none, or points that are no JSON.\<close>

datatype form_error = Not_a_number | Bad_points

text \<open>\<open>_num\<close> with \<open>cast=int\<close> and with \<open>cast=float\<close>.\<close>

definition num_int :: "bool \<Rightarrow> form \<Rightarrow> string \<Rightarrow> int \<Rightarrow> form_error + pyval" where
  "num_int strict f k d =
     (case form_get f k of
        None \<Rightarrow> Inr (VInt d)
      | Some v \<Rightarrow> (case py_int v of Some i \<Rightarrow> Inr (VInt i) | None \<Rightarrow> if strict then Inl Not_a_number else Inr (VInt d)))"

definition num_float :: "bool \<Rightarrow> form \<Rightarrow> string \<Rightarrow> f64 \<Rightarrow> form_error + f64" where
  "num_float strict f k d =
     (case form_get f k of
        None \<Rightarrow> Inr d
      | Some v \<Rightarrow> (case py_float v of Some x \<Rightarrow> Inr x | None \<Rightarrow> if strict then Inl Not_a_number else Inr d))"

section \<open>Definitions: the mapping form\<close>

definition form_baud :: "bool \<Rightarrow> form \<Rightarrow> string \<Rightarrow> form_error + pyval" where
  "form_baud strict f pre =
     (let b = form_text f (pre @ ''baudrate'') (ascii ''9600'');
          v = (if b = ascii ''custom'' then form_strip f (pre @ ''custom_baud'') else b) in
      case py_int v of Some i \<Rightarrow> Inr (VInt i) | None \<Rightarrow> if strict then Inl Not_a_number else Inr (VInt 9600))"

text \<open>The default of the stop bits is the integer 1, which \<open>float\<close> turns into 1.0.\<close>

definition form_stopbits :: "bool \<Rightarrow> form \<Rightarrow> string \<Rightarrow> form_error + pyval" where
  "form_stopbits strict f pre =
     (case form_get f (pre @ ''stopbits'') of
        None \<Rightarrow> Inr (VFloat f64_one)
      | Some v \<Rightarrow> (case py_float v of Some x \<Rightarrow> Inr (VFloat x) | None \<Rightarrow> if strict then Inl Not_a_number else Inr (VInt 1)))"

definition serial_dict :: "bool \<Rightarrow> form \<Rightarrow> string \<Rightarrow> form_error + serial_settings" where
  "serial_dict strict f pre =
     rbind (form_baud strict f pre) (\<lambda>baud.
     rbind (num_int strict f (pre @ ''bytesize'') 8) (\<lambda>bytesize.
     rbind (form_stopbits strict f pre) (\<lambda>stopbits.
     rbind (num_float False f (pre @ ''rs485_delay_before_tx_ms'') f64_zero) (\<lambda>before.
     rbind (num_float False f (pre @ ''rs485_delay_after_tx_ms'') f64_zero) (\<lambda>after.
     Inr (default_serial\<lparr>ss_port := form_strip f (pre @ ''port''), ss_baudrate := baud, ss_bytesize := bytesize,
       ss_parity := form_text f (pre @ ''parity'') (ascii ''N''), ss_stopbits := stopbits,
       ss_flowcontrol := form_text f (pre @ ''flowcontrol'') (ascii ''none''),
       ss_rts_on_open := form_text f (pre @ ''rts_on_open'') (ascii ''keep''),
       ss_dtr_on_open := form_text f (pre @ ''dtr_on_open'') (ascii ''keep''),
       ss_exclusive := checkbox f (pre @ ''exclusive''), ss_rs485_enabled := checkbox f (pre @ ''rs485_enabled''),
       ss_rs485_delay_before_tx_ms := before, ss_rs485_delay_after_tx_ms := after,
       ss_rs485_rts_level_for_tx := checkbox f (pre @ ''rs485_rts_level_for_tx'')\<rparr>))))))"

definition form_bind :: "form \<Rightarrow> str" where
  "form_bind f =
     (let b = form_text f ''network_bind_ip'' (ascii ''0.0.0.0'') in
      or_else (if b = ascii ''custom'' then form_strip f ''network_bind_ip_custom'' else b) (ascii ''0.0.0.0''))"

text \<open>The keepalive fields and the connect timeout are read only if the form has them.\<close>

definition form_keepalive :: "bool \<Rightarrow> form \<Rightarrow> network_settings \<Rightarrow> form_error + network_settings" where
  "form_keepalive strict f n =
     (if \<not> posted f ''network_keepalive_idle_s'' then Inr n
      else
        rbind (num_int strict f ''network_keepalive_idle_s'' 60) (\<lambda>idle.
        rbind (num_int strict f ''network_keepalive_interval_s'' 10) (\<lambda>interval.
        rbind (num_int strict f ''network_keepalive_count'' 3) (\<lambda>count.
        Inr (n\<lparr>ns_tcp_keepalive := checkbox f ''network_tcp_keepalive'', ns_keepalive_idle_s := idle,
          ns_keepalive_interval_s := interval, ns_keepalive_count := count\<rparr>)))))"

definition form_connect :: "bool \<Rightarrow> form \<Rightarrow> network_settings \<Rightarrow> form_error + network_settings" where
  "form_connect strict f n =
     (if \<not> posted f ''network_connect_timeout_s'' then Inr n
      else rbind (num_float strict f ''network_connect_timeout_s'' 0x4024000000000000) (\<lambda>t. Inr (n\<lparr>ns_connect_timeout_s := VFloat t\<rparr>)))"

definition form_network :: "bool \<Rightarrow> form \<Rightarrow> form_error + network_settings" where
  "form_network strict f =
     rbind (num_int strict f ''network_port'' 4001) (\<lambda>port.
     rbind (if form_text f ''network_remote_port'' [] = [] then Inr (VInt 0) else num_int strict f ''network_remote_port'' 0) (\<lambda>remote.
     rbind (num_int strict f ''network_max_connections'' 1) (\<lambda>limit.
     rbind (num_int strict f ''network_client_queue_max'' 2048) (\<lambda>queue.
     rbind (form_keepalive strict f
       (default_network\<lparr>ns_mode := form_text f ''network_mode'' (ascii ''server''),
         ns_protocol := form_text f ''network_protocol'' (ascii ''raw''), ns_bind_ip := form_bind f, ns_port := port,
         ns_remote_host := form_strip f ''network_remote_host'', ns_remote_port := remote, ns_max_connections := limit,
         ns_kick_old_user := checkbox f ''network_kick_old_user'', ns_read_only := checkbox f ''network_read_only'',
         ns_allowed_client_ips := split_words (form_text f ''network_allowed_client_ips'' []),
         ns_priority_client_ips := split_words (form_text f ''network_priority_client_ips'' []),
         ns_client_queue_max := queue, ns_tls := checkbox f ''network_tls'',
         ns_tls_cert := form_strip f ''network_tls_cert'', ns_tls_key := form_strip f ''network_tls_key''\<rparr>))
     (form_connect strict f)))))"

definition form_trace :: "bool \<Rightarrow> form \<Rightarrow> mapping_options \<Rightarrow> form_error + mapping_options" where
  "form_trace strict f m =
     (if \<not> posted f ''opt_trace_max_mb'' then Inr m
      else
        rbind (num_float strict f ''opt_trace_max_mb'' 0x4024000000000000) (\<lambda>mb.
        rbind (num_int strict f ''opt_trace_keep'' 3) (\<lambda>keep.
        Inr (m\<lparr>mo_trace_max_mb := VFloat mb, mo_trace_keep := keep\<rparr>))))"

definition form_options :: "bool \<Rightarrow> form \<Rightarrow> form_error + mapping_options" where
  "form_options strict f =
     rbind (num_int strict f ''opt_idle_timeout_s'' 0) (\<lambda>idle.
     rbind (if \<not> posted f ''opt_max_connection_time_s'' then Inr default_options
            else rbind (num_int strict f ''opt_max_connection_time_s'' 0) (\<lambda>t. Inr (default_options\<lparr>mo_max_connection_time_s := t\<rparr>))) (\<lambda>m.
     form_trace strict f (m\<lparr>mo_banner := form_text f ''opt_banner'' [], mo_idle_timeout_s := idle,
       mo_closeon := form_text f ''opt_closeon'' [], mo_trace_both := form_strip f ''opt_trace_both'',
       mo_trace_hexdump := checkbox f ''opt_trace_hexdump''\<rparr>)))"

definition form_mqtt :: "bool \<Rightarrow> form \<Rightarrow> form_error + mqtt_settings" where
  "form_mqtt strict f =
     rbind (num_int strict f ''mqtt_port'' 1883) (\<lambda>port.
     rbind (num_int strict f ''mqtt_qos'' 0) (\<lambda>qos.
     let q = default_mqtt\<lparr>mq_enabled := checkbox f ''mqtt_enabled'', mq_host := form_strip f ''mqtt_host'', mq_port := port,
           mq_base_topic := form_strip f ''mqtt_base_topic'', mq_qos := qos, mq_tls := checkbox f ''mqtt_tls'',
           mq_username := form_strip f ''mqtt_username'', mq_password := form_text f ''mqtt_password'' [],
           mq_client_id := form_strip f ''mqtt_client_id''\<rparr> in
     Inr (if \<not> posted f ''mqtt_payload_format'' then q
          else q\<lparr>mq_payload_format := form_text f ''mqtt_payload_format'' (ascii ''plain''),
            mq_group_id := or_else (form_strip f ''mqtt_sparkplug_group_id'') (ascii ''ser2net''),
            mq_node_id := form_strip f ''mqtt_sparkplug_node_id''\<rparr>)))"

text \<open>\<open>_parse_modbus_points\<close>: the JSON values of the array.\<close>

definition parse_modbus_points :: "bool \<Rightarrow> str \<Rightarrow> form_error + json list" where
  "parse_modbus_points strict raw =
     (let s = strip raw in
      if s = [] then Inr []
      else case json_loads s of
        None \<Rightarrow> if strict then Inl Bad_points else Inr []
      | Some (JList ps) \<Rightarrow> Inr ps
      | Some _ \<Rightarrow> Inr [])"

text \<open>\<open>_build_mapping_dict\<close>: the dictionary as a mapping with the defaults where it has no key, and its points as JSON values.\<close>

definition build_mapping_dict :: "bool \<Rightarrow> form \<Rightarrow> form_error + mapping_config \<times> json list" where
  "build_mapping_dict strict f =
     rbind (form_network strict f) (\<lambda>network.
     rbind (form_options strict f) (\<lambda>options.
     rbind (serial_dict strict f ''serial_'') (\<lambda>a.
     rbind (serial_dict strict f ''serial_b_'') (\<lambda>b.
     rbind (form_mqtt strict f) (\<lambda>mqtt.
     rbind (num_float False f ''modbus_poll_interval_s'' 0x4014000000000000) (\<lambda>interval.
     rbind (parse_modbus_points strict (form_text f ''modbus_points'' [])) (\<lambda>points.
     Inr (\<lparr>mc_id = form_text f ''id'' [],
         mc_name = (if strict then form_strip f ''name'' else form_text f ''name'' []),
         mc_enabled = checkbox f ''enabled'', mc_kind = form_text f ''kind'' (ascii ''net''), mc_serial = a, mc_serial_b = b,
         mc_network = network, mc_options = options, mc_mqtt = mqtt,
         mc_poll = \<lparr>poll_interval_s = interval, poll_points = []\<rparr>\<rparr>, points))))))))"

text \<open>\<open>ModbusPoint.from_dict\<close> of a JSON value: what is false counts as an empty object; \<open>dict\<close> of a text is a \<open>ValueError\<close>
  and of another scalar a \<open>TypeError\<close>. \<open>Odd_point\<close> stands for the objects the record of a point has no value for (an attribute
  of another type than its annotation, a list of pairs).\<close>

datatype json_point_error = Value_error | Type_error | Odd_point

definition json_int :: "json \<Rightarrow> json_point_error + int" where
  "json_int v = (case v of JInt i \<Rightarrow> Inr i | JBool b \<Rightarrow> Inr (of_bool b) | _ \<Rightarrow> Inl Odd_point)"

definition json_str :: "json \<Rightarrow> json_point_error + str" where
  "json_str v = (case v of JStr s \<Rightarrow> Inr s | _ \<Rightarrow> Inl Odd_point)"

definition attr :: "(str \<times> json) list \<Rightarrow> string \<Rightarrow> (json \<Rightarrow> json_point_error + 'a) \<Rightarrow> 'a \<Rightarrow> json_point_error + 'a" where
  "attr d k conv dflt = (case map_of d (ascii k) of None \<Rightarrow> Inr dflt | Some v \<Rightarrow> conv v)"

definition point_of_dict :: "(str \<times> json) list \<Rightarrow> json_point_error + modbus_point" where
  "point_of_dict d =
     rbind (attr d ''name'' json_str []) (\<lambda>name.
     rbind (attr d ''unit'' json_int 1) (\<lambda>unit.
     rbind (attr d ''fn'' json_int 3) (\<lambda>fn.
     rbind (attr d ''address'' json_int 0) (\<lambda>address.
     rbind (attr d ''dtype'' json_str (ascii ''uint16'')) (\<lambda>dtype.
     rbind (attr d ''scale'' (\<lambda>v. case v of JFloat x \<Rightarrow> Inr x | _ \<Rightarrow> Inl Odd_point) f64_one) (\<lambda>scale.
     rbind (attr d ''writable'' (\<lambda>v. case v of JBool b \<Rightarrow> Inr b | _ \<Rightarrow> Inl Odd_point) False) (\<lambda>writable.
     Inr \<lparr>mp_name = name, mp_unit = unit, mp_fn = fn, mp_address = address, mp_dtype = dtype, mp_scale = scale,
       mp_writable = writable\<rparr>)))))))"

fun json_point :: "json \<Rightarrow> json_point_error + modbus_point" where
  "json_point JNull = point_of_dict []"
| "json_point (JBool b) = (if b then Inl Type_error else point_of_dict [])"
| "json_point (JInt i) = (if i \<noteq> 0 then Inl Type_error else point_of_dict [])"
| "json_point (JFloat x) = (if f64_truthy x then Inl Type_error else point_of_dict [])"
| "json_point (JStr s) = (if s \<noteq> [] then Inl Value_error else point_of_dict [])"
| "json_point (JList xs) = (if xs \<noteq> [] then Inl Odd_point else point_of_dict [])"
| "json_point (JDict d) = point_of_dict d"

text \<open>\<open>MappingConfig.from_dict(_mapping_from_form(form))\<close>; \<open>fresh\<close> is what \<open>_new_id\<close> gives.\<close>

datatype parse_error = In_form form_error | In_point json_point_error

definition mapping_from_form :: "(nat \<Rightarrow> bool) \<Rightarrow> str \<Rightarrow> bool \<Rightarrow> form \<Rightarrow> parse_error + mapping_config" where
  "mapping_from_form isword fresh strict f =
     (case build_mapping_dict strict f of
        Inl e \<Rightarrow> Inl (In_form e)
      | Inr (m, ps) \<Rightarrow>
          (case rmap json_point ps of
             Inl e \<Rightarrow> Inl (In_point e)
           | Inr points \<Rightarrow> Inr (load_mapping isword fresh (m\<lparr>mc_poll := (mc_poll m)\<lparr>poll_points := points\<rparr>\<rparr>))))"

text \<open>\<open>save_mapping_from_form\<close> on the fields of the form: a \<open>ValueError\<close> is answered, a \<open>TypeError\<close> leaves the handler. \<open>None\<close>: a
  point outside the model.\<close>

definition save_form :: "(nat \<Rightarrow> bool) \<Rightarrow> (str \<Rightarrow> bool) \<Rightarrow> port_entry list \<Rightarrow> str \<Rightarrow> form \<Rightarrow> ops_state \<Rightarrow> (outcome \<times> ops_state) option" where
  "save_form isword isfile ports fresh f s =
     (case mapping_from_form isword fresh True f of
        Inr m \<Rightarrow> Some (save_mapping_from_form isfile (posted f) (checkbox f) ports (Some m) s)
      | Inl (In_form e) \<Rightarrow> Some (save_mapping_from_form isfile (posted f) (checkbox f) ports None s)
      | Inl (In_point Value_error) \<Rightarrow> Some (save_mapping_from_form isfile (posted f) (checkbox f) ports None s)
      | Inl (In_point Type_error) \<Rightarrow> Some (Escaped (ConfigError ''TypeError''), s)
      | Inl (In_point Odd_point) \<Rightarrow> None)"

text \<open>\<open>_form_error\<close>: the mapping that is shown again; any exception of the parser gives an empty mapping with the posted name.\<close>

definition form_shown :: "(nat \<Rightarrow> bool) \<Rightarrow> str \<Rightarrow> app_config \<Rightarrow> form \<Rightarrow> mapping_config" where
  "form_shown isword fresh cfg f =
     (case mapping_from_form isword fresh False f of
        Inr m \<Rightarrow> preserve_unmanaged (posted f) m (get_mapping cfg (mc_id m))
      | Inl _ \<Rightarrow> \<lparr>mc_id = fresh, mc_name = form_text f ''name'' [], mc_enabled = True, mc_kind = ascii ''net'',
          mc_serial = default_serial, mc_serial_b = default_serial, mc_network = default_network, mc_options = default_options,
          mc_mqtt = default_mqtt, mc_poll = default_poll\<rparr>)"

section \<open>Definitions: accounts, directory and single sign-on\<close>

text \<open>\<open>_password_problem\<close> and \<open>_username_problem\<close>: a label for the message.\<close>

definition password_problem :: "str \<Rightarrow> str \<Rightarrow> string option" where
  "password_problem pw pw2 = (if length pw < 8 then Some ''PasswordShort'' else if pw \<noteq> pw2 then Some ''PasswordDiffers'' else None)"

definition name_char :: "nat \<Rightarrow> bool" where
  "name_char c \<longleftrightarrow> 65 \<le> c \<and> c \<le> 90 \<or> 97 \<le> c \<and> c \<le> 122 \<or> 48 \<le> c \<and> c \<le> 57 \<or> c = 46 \<or> c = 95 \<or> c = 45"

definition username_problem :: "str \<Rightarrow> string option" where
  "username_problem u =
     (if u = [] then Some ''UsernameRequired''
      else if \<not> (list_all name_char u \<and> length u \<le> 32) then Some ''UsernameBad'' else None)"

definition ldap_from_form :: "form \<Rightarrow> ldap_settings \<Rightarrow> ldap_settings" where
  "ldap_from_form f old = \<lparr>ld_enabled = checkbox f ''ldap_enabled'', ld_server_uri = form_strip f ''ldap_server_uri'',
     ld_start_tls = checkbox f ''ldap_start_tls'', ld_user_dn_template = form_strip f ''ldap_user_dn_template'',
     ld_bind_dn = form_strip f ''ldap_bind_dn'',
     ld_bind_password = or_else (form_text f ''ldap_bind_password'' []) (ld_bind_password old),
     ld_user_search_base = form_strip f ''ldap_user_search_base'',
     ld_user_search_filter = or_else (form_strip f ''ldap_user_search_filter'') (ascii ''(uid={username})''),
     ld_group_attr = or_else (form_strip f ''ldap_group_attr'') (ascii ''memberOf''),
     ld_admin_group = form_strip f ''ldap_admin_group'', ld_operator_group = form_strip f ''ldap_operator_group'',
     ld_viewer_group = form_strip f ''ldap_viewer_group'', ld_default_role = form_strip f ''ldap_default_role''\<rparr>"

definition oidc_from_form :: "form \<Rightarrow> oidc_settings \<Rightarrow> oidc_settings" where
  "oidc_from_form f old = \<lparr>oi_enabled = checkbox f ''oidc_enabled'', oi_issuer = form_strip f ''oidc_issuer'',
     oi_client_id = form_strip f ''oidc_client_id'',
     oi_client_secret = or_else (form_text f ''oidc_client_secret'' []) (oi_client_secret old),
     oi_redirect_uri = form_strip f ''oidc_redirect_uri'',
     oi_scopes = or_else (form_strip f ''oidc_scopes'') (ascii ''openid email profile''),
     oi_username_claim = or_else (form_strip f ''oidc_username_claim'') (ascii ''preferred_username''),
     oi_groups_claim = or_else (form_strip f ''oidc_groups_claim'') (ascii ''groups''),
     oi_admin_group = form_strip f ''oidc_admin_group'', oi_operator_group = form_strip f ''oidc_operator_group'',
     oi_viewer_group = form_strip f ''oidc_viewer_group'', oi_default_role = form_strip f ''oidc_default_role''\<rparr>"

section \<open>Lemmas\<close>

text \<open>Read leniently, every form gives a mapping.\<close>

lemma num_lenient: "\<exists>v. num_int False f k d = Inr v" "\<exists>x. num_float False f k e = Inr x"
  by (auto simp: num_int_def num_float_def split: option.splits)

lemma rbind_total: "\<exists>x. a = Inr x \<Longrightarrow> (\<And>x. \<exists>y. g x = Inr y) \<Longrightarrow> \<exists>y. rbind a g = Inr y"
  by auto

lemma Inr_total: "\<exists>y. Inr x = Inr y"
  by blast

lemmas lenient_intros = rbind_total num_lenient Inr_total

lemma serial_lenient: "\<exists>s. serial_dict False f pre = Inr s"
proof -
  have "\<exists>b. form_baud False f pre = Inr b" "\<exists>b. form_stopbits False f pre = Inr b"
    by (auto simp: form_baud_def form_stopbits_def Let_def split: option.splits)
  then show ?thesis unfolding serial_dict_def by (intro lenient_intros)
qed

lemma network_lenient: "\<exists>n. form_network False f = Inr n"
proof -
  have "\<exists>n'. form_keepalive False f n = Inr n'" "\<exists>n'. form_connect False f n = Inr n'" for n
    unfolding form_keepalive_def form_connect_def by (cases "posted f ''network_keepalive_idle_s''"; simp; intro lenient_intros)
      (cases "posted f ''network_connect_timeout_s''"; simp; intro lenient_intros)
  moreover have "\<exists>v. (if b then Inr (VInt 0) else num_int False f ''network_remote_port'' 0) = Inr v" for b
    using num_lenient by simp
  ultimately show ?thesis unfolding form_network_def by (intro lenient_intros)
qed

lemma options_lenient: "\<exists>m. form_options False f = Inr m"
proof -
  have "\<exists>m'. form_trace False f m = Inr m'" for m
    unfolding form_trace_def by (cases "posted f ''opt_trace_max_mb''"; simp; intro lenient_intros)
  moreover have "\<exists>m. (if b then Inr default_options
      else rbind (num_int False f ''opt_max_connection_time_s'' 0) (\<lambda>t. Inr (default_options\<lparr>mo_max_connection_time_s := t\<rparr>))) = Inr m" for b
    by (cases b; simp; intro lenient_intros)
  ultimately show ?thesis unfolding form_options_def by (intro lenient_intros)
qed

lemma lenient_total: "\<exists>r. build_mapping_dict False f = Inr r"
proof -
  have "\<exists>ps. parse_modbus_points False raw = Inr ps" for raw
    by (auto simp: parse_modbus_points_def Let_def split: option.splits json.splits)
  moreover have "\<exists>q. form_mqtt False f = Inr q" unfolding form_mqtt_def Let_def by (intro lenient_intros)
  ultimately show ?thesis unfolding build_mapping_dict_def
    by (intro lenient_intros network_lenient options_lenient serial_lenient)
qed

text \<open>An id that the form has is the id of the mapping.\<close>

lemma build_id: "build_mapping_dict strict f = Inr (m, ps) \<Longrightarrow> mc_id m = form_text f ''id'' []"
  by (auto simp: build_mapping_dict_def rbind_eq_Inr)

lemma mapping_from_form_id:
  assumes "mapping_from_form isword fresh strict f = Inr m" and "form_text f ''id'' [] \<noteq> []"
  shows "mc_id m = form_text f ''id'' []"
  using assms build_id by (auto simp: mapping_from_form_def load_mapping_def split: sum.splits prod.splits)

lemma get_put: "get_mapping (cfg\<lparr>ac_mappings := put_mapping m ms\<rparr>) (mc_id m) = Some m"
proof (cases "first_index (\<lambda>e. mc_id e = mc_id m) ms")
  case None
  then have "\<forall>x \<in> set ms. mc_id x \<noteq> mc_id m" by (simp add: first_index_None)
  then have "find (\<lambda>e. mc_id e = mc_id m) (ms @ [m]) = Some m" by (induction ms) auto
  then show ?thesis using None by (simp add: get_mapping_def put_mapping_def)
next
  case (Some i)
  then have "find (\<lambda>e. mc_id e = mc_id m) (ms[i := m]) = Some m"
    unfolding find_Some_iff by (auto simp: first_index_Some intro!: exI [of _ i])
  then show ?thesis using Some by (simp add: get_mapping_def put_mapping_def)
qed

lemma usb_match_only: "usb_match shown ticked port old s = Some s' \<Longrightarrow> s' = s\<lparr>ss_match := ss_match s'\<rparr> \<and> (\<not> shown \<longrightarrow> s' = s)"
  by (auto simp: usb_match_def Let_def split: if_splits option.splits)

lemma save_form_stored:
  assumes "save_form isword isfile ports fresh f s = Some (Done name, s')"
  obtains m new where "mapping_from_form isword fresh True f = Inr m"
    and "usb_sides (posted f) (checkbox f) ports (get_mapping (op_config s) (mc_id m))
      (preserve_unmanaged (posted f) m (get_mapping (op_config s) (mc_id m))) = Some new"
    and "get_mapping (op_disk s') (mc_id new) = Some new" and "validate_mapping isfile new = Inr ()"
proof -
  obtain m where m: "mapping_from_form isword fresh True f = Inr m"
    and d: "save_mapping_from_form isfile (posted f) (checkbox f) ports (Some m) s = (Done name, s')"
    using assms by (auto simp: save_form_def save_mapping_from_form_def split: sum.splits parse_error.splits json_point_error.splits)
  obtain new where n: "usb_sides (posted f) (checkbox f) ports (get_mapping (op_config s) (mc_id m))
      (preserve_unmanaged (posted f) m (get_mapping (op_config s) (mc_id m))) = Some new"
    and v: "validate_mapping isfile new = Inr ()"
    and c: "commit isfile (put_mapping new (mappings_of s)) [C_apply new] (mc_name new) s = (Done name, s')"
    using d by (auto simp: save_mapping_from_form_def Let_def split: option.splits sum.splits)
  have "op_disk s' = (op_config s)\<lparr>ac_mappings := put_mapping new (mappings_of s)\<rparr>"
    using c by (auto simp: commit_def asave_def set_mappings_def add_calls_def rbind_eq_Inr split: sum.splits)
  then show thesis using that [OF m n _ v] get_put by metis
qed

lemma usb_sides_only:
  assumes "usb_sides has ticked ports existing m = Some new"
  shows "new = m\<lparr>mc_serial := (mc_serial m)\<lparr>ss_match := ss_match (mc_serial new)\<rparr>,
      mc_serial_b := (mc_serial_b m)\<lparr>ss_match := ss_match (mc_serial_b new)\<rparr>\<rparr>"
    and "\<not> has ''serial_usb_match_shown'' \<Longrightarrow> mc_serial new = mc_serial m"
    and "\<not> has ''serial_b_usb_match_shown'' \<Longrightarrow> mc_serial_b new = mc_serial_b m"
  using assms by (cases m; auto simp: usb_sides_def split: option.splits dest: usb_match_only)+

text \<open>The comparison of a float with an integer as a witness evaluates it.\<close>

lemma f64_eq_int_code [code]: "f64_eq_int x i \<longleftrightarrow> f64_isfinite x \<and> (case f64_parts x of (m, k) \<Rightarrow> m = i * 2 ^ k)"
proof -
  have z: "nat \<bar>i\<bar> * 2 ^ n = (0 :: nat) \<longleftrightarrow> i = 0" for n by simp
  have "f64_scaled x = nat \<bar>i\<bar> * 2 ^ f64_unit_exp \<and> (f64_scaled x = 0 \<or> f64_neg x = (i < 0)) \<longleftrightarrow> f64_signed_scaled x = i * 2 ^ f64_unit_exp"
    (is "?l \<longleftrightarrow> ?r")
  proof
    assume ?l
    then have "int (f64_scaled x) = \<bar>i\<bar> * 2 ^ f64_unit_exp" by simp
    then show ?r using \<open>?l\<close> z by (auto simp: f64_signed_scaled_def abs_if)
  next
    assume r: ?r
    then have "\<bar>f64_signed_scaled x\<bar> = \<bar>i\<bar> * 2 ^ f64_unit_exp" by (simp add: abs_mult)
    then have "int (f64_scaled x) = int (nat \<bar>i\<bar> * 2 ^ f64_unit_exp)" by (simp add: f64_signed_scaled_def split: if_splits)
    then have "f64_scaled x = nat \<bar>i\<bar> * 2 ^ f64_unit_exp" by linarith
    moreover have "f64_neg x = (i < 0)" if "f64_scaled x \<noteq> 0"
    proof -
      have "(f64_signed_scaled x < 0) = (i < 0)" using r by (simp add: mult_less_0_iff)
      then show ?thesis using that by (auto simp: f64_signed_scaled_def split: if_splits)
    qed
    ultimately show ?l by blast
  qed
  also have "\<dots> \<longleftrightarrow> (case f64_parts x of (m, k) \<Rightarrow> m = i * 2 ^ k)"
    unfolding order_eq_iff [of "f64_signed_scaled x"] f64_scaled_compare by (cases "f64_parts x") auto
  finally show ?thesis by (simp add: f64_eq_int_def)
qed

section \<open>Properties\<close>

text \<open>C15: Editing a mapping with the form never resets a setting that the form did not post. When a save is accepted for a stored
  mapping, the configuration on disk has under its id a mapping whose keepalive settings, connect timeout, connection time limit,
  trace file limits, payload format and USB identities are the stored ones unless the form has the field that marks them, and whose
  settings that no form shows (open and close strings, trace time stamps, interoperation timeouts, hang-up and break flags) are the
  stored ones in any case.\<close>
theorem edit_keeps_hidden:
  assumes "save_form isword isfile ports fresh f s = Some (Done name, s')"
    and "get_mapping (op_config s) (mc_id old) = Some old" and "form_text f ''id'' [] = mc_id old" and "mc_id old \<noteq> []"
  shows "\<exists>new. get_mapping (op_disk s') (mc_id old) = Some new \<and>
    (posted f ''network_keepalive_idle_s'' \<or>
       ns_tcp_keepalive (mc_network new) = ns_tcp_keepalive (mc_network old) \<and>
       ns_keepalive_idle_s (mc_network new) = ns_keepalive_idle_s (mc_network old) \<and>
       ns_keepalive_interval_s (mc_network new) = ns_keepalive_interval_s (mc_network old) \<and>
       ns_keepalive_count (mc_network new) = ns_keepalive_count (mc_network old)) \<and>
    (posted f ''network_connect_timeout_s'' \<or> ns_connect_timeout_s (mc_network new) = ns_connect_timeout_s (mc_network old)) \<and>
    (posted f ''opt_max_connection_time_s'' \<or> mo_max_connection_time_s (mc_options new) = mo_max_connection_time_s (mc_options old)) \<and>
    (posted f ''opt_trace_max_mb'' \<or> mo_trace_max_mb (mc_options new) = mo_trace_max_mb (mc_options old) \<and>
       mo_trace_keep (mc_options new) = mo_trace_keep (mc_options old)) \<and>
    (posted f ''mqtt_payload_format'' \<or> mq_payload_format (mc_mqtt new) = mq_payload_format (mc_mqtt old) \<and>
       mq_group_id (mc_mqtt new) = mq_group_id (mc_mqtt old) \<and> mq_node_id (mc_mqtt new) = mq_node_id (mc_mqtt old)) \<and>
    (posted f ''serial_usb_match_shown'' \<or> ss_match (mc_serial new) = ss_match (mc_serial old)) \<and>
    (posted f ''serial_b_usb_match_shown'' \<or> ss_match (mc_serial_b new) = ss_match (mc_serial_b old)) \<and>
    mo_openstr (mc_options new) = mo_openstr (mc_options old) \<and> mo_closestr (mc_options new) = mo_closestr (mc_options old) \<and>
    mo_trace_timestamp (mc_options new) = mo_trace_timestamp (mc_options old) \<and>
    mo_rfc2217_poll_modem_interval_s (mc_options new) = mo_rfc2217_poll_modem_interval_s (mc_options old) \<and>
    mo_rfc2217_net_timeout_s (mc_options new) = mo_rfc2217_net_timeout_s (mc_options old) \<and>
    mo_modbus_response_timeout_s (mc_options new) = mo_modbus_response_timeout_s (mc_options old) \<and>
    ss_hangup_when_done (mc_serial new) = ss_hangup_when_done (mc_serial old) \<and> ss_nobreak (mc_serial new) = ss_nobreak (mc_serial old) \<and>
    ss_hangup_when_done (mc_serial_b new) = ss_hangup_when_done (mc_serial_b old) \<and> ss_nobreak (mc_serial_b new) = ss_nobreak (mc_serial_b old)"
proof -
  obtain m new where m: "mapping_from_form isword fresh True f = Inr m"
    and u: "usb_sides (posted f) (checkbox f) ports (get_mapping (op_config s) (mc_id m))
      (preserve_unmanaged (posted f) m (get_mapping (op_config s) (mc_id m))) = Some new"
    and g: "get_mapping (op_disk s') (mc_id new) = Some new"
    using save_form_stored [OF assms(1)] by blast
  have id: "mc_id m = mc_id old" using mapping_from_form_id [OF m] assms(3,4) by simp
  let ?p = "preserve_unmanaged (posted f) m (Some old)"
  have u': "usb_sides (posted f) (checkbox f) ports (Some old) ?p = Some new" using u id assms(2) by simp
  note only = usb_sides_only [OF u']
  have n: "mc_network new = mc_network ?p" "mc_options new = mc_options ?p" "mc_mqtt new = mc_mqtt ?p" "mc_id new = mc_id old"
    "ss_hangup_when_done (mc_serial new) = ss_hangup_when_done (mc_serial ?p)" "ss_nobreak (mc_serial new) = ss_nobreak (mc_serial ?p)"
    "ss_hangup_when_done (mc_serial_b new) = ss_hangup_when_done (mc_serial_b ?p)" "ss_nobreak (mc_serial_b new) = ss_nobreak (mc_serial_b ?p)"
    by (subst only(1), simp add: preserve_unmanaged_def id)+
  have k: "posted f ''serial_usb_match_shown'' \<or> ss_match (mc_serial new) = ss_match (mc_serial old)"
    "posted f ''serial_b_usb_match_shown'' \<or> ss_match (mc_serial_b new) = ss_match (mc_serial_b old)"
    by (cases "posted f ''serial_usb_match_shown''", simp_all add: only(2) preserve_unmanaged_def preserve_serial_def)
      (cases "posted f ''serial_b_usb_match_shown''", simp_all add: only(3) preserve_unmanaged_def preserve_serial_def)
  show ?thesis
    using g n(4) k unfolding n(1-3) n(5-8)
    by (intro exI [of _ new]) (simp add: n preserve_unmanaged_def preserve_network_def preserve_options_def preserve_mqtt_def preserve_serial_def Let_def)
qed

text \<open>A form that posts the required fields only.\<close>

definition sample_form :: form where
  "sample_form = [(''id'', [49]), (''name'', ascii ''renamed''), (''serial_port'', ascii ''/dev/ttyS9''),
     (''serial_baudrate'', ascii ''19200''), (''network_port'', ascii '' 2005 '')]"

definition sample_stored :: ops_state where
  "sample_stored = (let m = import_sample [49] ''a'' 2000;
       cfg = sample_config\<lparr>ac_mappings := [m\<lparr>mc_network := (mc_network m)\<lparr>ns_keepalive_idle_s := VInt 77\<rparr>,
         mc_options := (mc_options m)\<lparr>mo_openstr := ascii ''hello''\<rparr>\<rparr>]\<rparr> in
     \<lparr>op_config = cfg, op_disk = cfg, op_calls = []\<rparr>)"

lemma edit_keeps_hidden_witness:
  "case save_form (\<lambda>_. True) (\<lambda>_. True) [] [] sample_form sample_stored of
     Some (Done name, s') \<Rightarrow> name = ascii ''renamed'' \<and>
       (\<exists>new. get_mapping (op_disk s') [49] = Some new \<and> ns_keepalive_idle_s (mc_network new) = VInt 77 \<and>
         mo_openstr (mc_options new) = ascii ''hello'')
   | _ \<Rightarrow> False"
proof -
  let ?old = "hd (mappings_of sample_stored)"
  have "case save_form (\<lambda>_. True) (\<lambda>_. True) [] [] sample_form sample_stored of
      Some (Done name, s') \<Rightarrow> name = ascii ''renamed'' | _ \<Rightarrow> False" by code_simp
  then obtain s' where s: "save_form (\<lambda>_. True) (\<lambda>_. True) [] [] sample_form sample_stored = Some (Done (ascii ''renamed''), s')"
    by (auto split: option.splits prod.splits outcome.splits)
  have "mc_id (conn_mapping (\<lambda>_. True) [49] (sample_conn 2000)) = [49]" by code_simp
  then have o: "get_mapping (op_config sample_stored) (mc_id ?old) = Some ?old" "form_text sample_form ''id'' [] = mc_id ?old" "mc_id ?old \<noteq> []"
    "mc_id ?old = [49]" "\<not> posted sample_form ''network_keepalive_idle_s''" "ns_keepalive_idle_s (mc_network ?old) = VInt 77"
    "mo_openstr (mc_options ?old) = ascii ''hello''"
    by (simp_all add: sample_stored_def sample_form_def get_mapping_def mappings_of_def import_sample_def Let_def form_text_def form_get_def posted_def)
  obtain new where "get_mapping (op_disk s') [49] = Some new" "ns_keepalive_idle_s (mc_network new) = VInt 77"
    "mo_openstr (mc_options new) = ascii ''hello''"
    using edit_keeps_hidden [OF s o(1-3)] unfolding o(4,6,7) using o(5) by blast
  then show ?thesis by (simp add: s)
qed

section \<open>Where the parser raises\<close>

text \<open>A JSON array of points that holds a number: \<open>dict\<close> raises \<open>TypeError\<close>, which the handler does not catch, so the save ends
  in a server error where it should say what is wrong with the form. Text in place of the array is answered.\<close>

lemma number_point_raises:
  "map_option fst (save_form (\<lambda>_. True) (\<lambda>_. True) [] [] (sample_form @ [(''modbus_points'', ascii ''[1]'')]) sample_stored) =
     Some (Escaped (ConfigError ''TypeError''))"
  "map_option fst (save_form (\<lambda>_. True) (\<lambda>_. True) [] [] (sample_form @ [(''modbus_points'', ascii ''[x'')]) sample_stored) =
     Some (Refused_with (ConfigError ''FormValue''))"
  by code_simp+

end
