(* ===== verification/Json_Dump.thy ===== *)
theory Json_Dump
  imports Json
begin

text \<open>
  \<open>json.dumps\<close> of the flat objects the sources sign (session payloads, the OpenID Connect state, cluster
  beacons): integers and strings, with \<open>ensure_ascii\<close> escapes, and the proof that \<open>json.loads\<close> reads them
  back.
\<close>

section \<open>Printing\<close>

datatype jatom = AInt int | AStr str

fun atom_json :: "jatom \<Rightarrow> json" where
  "atom_json (AInt i) = JInt i"
| "atom_json (AStr s) = JStr s"

definition hex_lower :: "nat \<Rightarrow> nat" where
  "hex_lower d = (if d < 10 then 48 + d else 87 + d)"

text \<open>\<open>'\\u{0:04x}'.format(n)\<close>.\<close>

definition u_escape :: "nat \<Rightarrow> str" where
  "u_escape n = [92, 117, hex_lower (n div 4096 mod 16), hex_lower (n div 256 mod 16), hex_lower (n div 16 mod 16),
     hex_lower (n mod 16)]"

definition short_escapes :: "(nat \<times> nat) list" where
  "short_escapes = [(34, 34), (92, 92), (10, 110), (13, 114), (9, 116), (12, 102), (8, 98)]"

text \<open>\<open>py_encode_basestring_ascii\<close>: one character.\<close>

definition json_char :: "nat \<Rightarrow> str" where
  "json_char c =
     (case map_of short_escapes c of
        Some e \<Rightarrow> [92, e]
      | None \<Rightarrow>
          if 32 \<le> c \<and> c \<le> 126 then [c]
          else if c < 0x10000 then u_escape c
          else u_escape (0xD800 + (c - 0x10000) div 1024 mod 1024) @ u_escape (0xDC00 + (c - 0x10000) mod 1024))"

definition json_quote :: "str \<Rightarrow> str" where
  "json_quote s = 34 # concat (map json_char s) @ [34]"

fun atom_text :: "jatom \<Rightarrow> str" where
  "atom_text (AInt i) = dec_str i"
| "atom_text (AStr s) = json_quote s"

text \<open>\<open>json.dumps(d, separators=(isep, ksep))\<close>; the defaults are comma-space and colon-space.\<close>

fun pairs_text :: "str \<Rightarrow> str \<Rightarrow> (str \<times> jatom) list \<Rightarrow> str" where
  "pairs_text isep ksep [] = []"
| "pairs_text isep ksep [(k, v)] = json_quote k @ ksep @ atom_text v"
| "pairs_text isep ksep ((k, v) # p # ps) = json_quote k @ ksep @ atom_text v @ isep @ pairs_text isep ksep (p # ps)"

definition json_dumps :: "str \<Rightarrow> str \<Rightarrow> (str \<times> jatom) list \<Rightarrow> str" where
  "json_dumps isep ksep d = 123 # pairs_text isep ksep d @ [125]"

section \<open>Reading back\<close>

lemma hex_digit_lower: "d < 16 \<Longrightarrow> hex_digit (hex_lower d) = Some d"
  by (auto simp: hex_lower_def hex_digit_def)

lemma hex_places:
  fixes n :: nat
  assumes "n < 0x10000"
  shows "16 * (16 * (16 * (n div 4096 mod 16) + n div 256 mod 16) + n div 16 mod 16) + n mod 16 = n"
proof -
  have "n div 16 div 16 = n div 256" "n div 16 div 16 div 16 = n div 4096" by (simp_all flip: div_mult2_eq)
  moreover have "n div 4096 mod 16 = n div 4096" using assms by (simp add: less_mult_imp_div_less)
  ultimately show ?thesis
    using mult_div_mod_eq [of 16 n] mult_div_mod_eq [of 16 "n div 16"] mult_div_mod_eq [of 16 "n div 16 div 16"]
    by presburger
qed

lemma hex4_u_escape:
  assumes "n < 0x10000"
  shows "hex4 (drop 2 (u_escape n) @ r) = Some (n, r)"
  using hex_places [OF assms] less_mult_imp_div_less [of n 16 4096] assms
  by (simp add: hex4_def u_escape_def hex_digit_lower)

lemma json_unicode_escape:
  assumes "n < 0x10000" and "\<not> (0xD800 \<le> n \<and> n \<le> 0xDBFF)"
  shows "json_unicode (drop 2 (u_escape n) @ r) = Some (n, r)"
  using assms unfolding json_unicode_def by (subst hex4_u_escape) auto

lemma json_unicode_pair:
  assumes "0x10000 \<le> c" and "c < 0x110000"
  shows "json_unicode (drop 2 (u_escape (0xD800 + (c - 0x10000) div 1024 mod 1024)) @
    u_escape (0xDC00 + (c - 0x10000) mod 1024) @ r) = Some (c, r)"
proof -
  let ?h = "0xD800 + (c - 0x10000) div 1024 mod 1024" and ?l = "0xDC00 + (c - 0x10000) mod 1024"
  have q: "(c - 0x10000) div 1024 mod 1024 = (c - 0x10000) div 1024"
    using assms by (simp add: less_mult_imp_div_less)
  have h: "?h \<le> 0xDBFF" and l: "?l \<le> 0xDFFF"
    using mod_less_divisor [of 1024 "(c - 0x10000) div 1024"] mod_less_divisor [of 1024 "c - 0x10000"] by simp_all
  have u: "u_escape ?l = [92, 117] @ drop 2 (u_escape ?l)" by (simp add: u_escape_def)
  have "hex4 (drop 2 (u_escape ?h) @ u_escape ?l @ r) = Some (?h, u_escape ?l @ r)"
    using h by (intro hex4_u_escape) simp
  moreover have "take 2 (u_escape ?l @ r) = [92, 117]" "drop 2 (u_escape ?l @ r) = drop 2 (u_escape ?l) @ r"
    by (simp_all add: u_escape_def)
  moreover have "hex4 (drop 2 (u_escape ?l) @ r) = Some (?l, r)" using l by (intro hex4_u_escape) simp
  moreover have "0x10000 + (?h - 0xD800) * 1024 + (?l - 0xDC00) = c"
    using assms(1) q mult_div_mod_eq [of 1024 "c - 0x10000"] by simp
  ultimately show ?thesis using h l by (simp add: json_unicode_def)
qed

lemma json_string_char:
  assumes "c < 0x110000" and "\<not> (0xD800 \<le> c \<and> c \<le> 0xDFFF)"
  shows "json_string (Suc n) (json_char c @ r) = map_option (\<lambda>(t, q). (c # t, q)) (json_string n r)"
proof (cases "map_of short_escapes c")
  case (Some e)
  then have "(c, e) \<in> set short_escapes" by (rule map_of_SomeD)
  then show ?thesis using Some by (auto simp: short_escapes_def json_char_def json_escape_def)
next
  case None
  then have ne: "c \<noteq> 34" "c \<noteq> 92" by (auto simp: short_escapes_def split: if_splits)
  consider "32 \<le> c \<and> c \<le> 126" | "\<not> (32 \<le> c \<and> c \<le> 126)" "c < 0x10000" | "0x10000 \<le> c"
    by fastforce
  then show ?thesis
  proof cases
    case 1
    then show ?thesis using None ne by (simp add: json_char_def)
  next
    case 2
    have u: "u_escape c @ r = 92 # 117 # drop 2 (u_escape c) @ r" by (simp add: u_escape_def)
    have "json_unicode (drop 2 (u_escape c) @ r) = Some (c, r)"
      using assms 2 by (intro json_unicode_escape) auto
    then show ?thesis using None 2 ne by (simp add: json_char_def u)
  next
    case 3
    let ?h = "0xD800 + (c - 0x10000) div 1024 mod 1024" and ?l = "0xDC00 + (c - 0x10000) mod 1024"
    have u: "(u_escape ?h @ u_escape ?l) @ r = 92 # 117 # drop 2 (u_escape ?h) @ u_escape ?l @ r" by (simp add: u_escape_def)
    have "json_char c = u_escape ?h @ u_escape ?l" using None 3 by (simp add: json_char_def)
    then show ?thesis using json_unicode_pair [OF 3 assms(1), of r] by (simp only: u) simp
  qed
qed

lemma json_string_quote:
  assumes "list_all scalar_value s" and "length s < n"
  shows "json_string n (concat (map json_char s) @ 34 # r) = Some (s, r)"
  using assms
proof (induction s arbitrary: n)
  case Nil
  then show ?case by (cases n) auto
next
  case (Cons c s)
  then obtain k where k: "n = Suc k" "length s < k" by (cases n) auto
  have "json_string (Suc k) (json_char c @ concat (map json_char s) @ 34 # r)
    = map_option (\<lambda>(t, q). (c # t, q)) (json_string k (concat (map json_char s) @ 34 # r))"
    using Cons.prems(1) by (intro json_string_char) (auto simp: scalar_value_def)
  then show ?case using Cons k by simp
qed

text \<open>Numbers: what follows must not continue the literal.\<close>

definition ends_number :: "str \<Rightarrow> bool" where
  "ends_number r \<longleftrightarrow> r = [] \<or> hd r \<in> {44, 125, 93, 32}"

lemma dec_value_snoc: "dec_value (s @ [c]) = dec_value s * 10 + (c - 48)"
  by (simp add: dec_value_def)

lemma dec_value_digits: "dec_value (dec_digits n) = n"
proof (induction n rule: dec_digits.induct)
  case (1 n)
  then show ?case by (subst dec_digits.simps) (auto simp: dec_value_snoc, simp add: dec_value_def)
qed

lemma dec_digits_zero: "hd (dec_digits n) = 48 \<Longrightarrow> n = 0"
proof (induction n rule: dec_digits.induct)
  case (1 n)
  show ?case
  proof (cases "n < 10")
    case True
    then show ?thesis using "1.prems" by (simp add: dec_digits.simps)
  next
    case False
    then have "hd (dec_digits (n div 10)) = 48" using "1.prems" by (subst (asm) dec_digits.simps) simp
    then show ?thesis using "1.IH" False by simp
  qed
qed

text \<open>\<open>json_number\<close> after its optional sign.\<close>

definition json_unsigned :: "bool \<Rightarrow> str \<Rightarrow> (json \<times> str) option" where
  "json_unsigned neg s1 =
     (let ip = takeWhile ascii_digit s1; ip = (if ip \<noteq> [] \<and> hd ip = 48 then [48] else ip);
          r1 = drop (length ip) s1;
          fp = (if r1 \<noteq> [] \<and> hd r1 = 46 then takeWhile ascii_digit (tl r1) else []);
          r2 = (if fp = [] then r1 else drop (Suc (length fp)) r1);
          es = (if r2 \<noteq> [] \<and> hd r2 \<in> {101, 69} then tl r2 else []);
          esign = (if es \<noteq> [] \<and> hd es \<in> {43, 45} then [hd es] else []);
          ed = takeWhile ascii_digit (drop (length esign) es);
          r3 = (if ed = [] then r2 else drop (Suc (length esign + length ed)) r2);
          ex = (if esign = [45] then - int (dec_value ed) else int (dec_value ed)) in
      if ip = [] then None
      else if fp = [] \<and> ed = [] then Some (JInt (if neg then - int (dec_value ip) else int (dec_value ip)), r3)
      else Some (JFloat (f64_of_decimal neg (dec_value (ip @ fp)) (ex - int (length fp))), r3))"

lemma json_number_unsigned:
  "json_number s = json_unsigned (s \<noteq> [] \<and> hd s = 45) (if s \<noteq> [] \<and> hd s = 45 then tl s else s)"
  unfolding json_number_def json_unsigned_def Let_def ..

lemma json_unsigned_digits:
  assumes "ds \<noteq> []" and "\<forall>c \<in> set ds. ascii_digit c" and "hd ds = 48 \<Longrightarrow> ds = [48]" and "ends_number r"
  shows "json_unsigned neg (ds @ r) = Some (JInt (if neg then - int (dec_value ds) else int (dec_value ds)), r)"
proof -
  have r: "takeWhile ascii_digit r = []" using assms(4) by (cases r) (auto simp: ends_number_def ascii_digit_def)
  have tw: "takeWhile ascii_digit (ds @ r) = ds" using assms(2) r by (simp add: takeWhile_append)
  have ip: "(if ds \<noteq> [] \<and> hd ds = 48 then [48] else ds) = ds" using assms(3) by auto
  have r1: "drop (length ds) (ds @ r) = r" by simp
  have e: "(r \<noteq> [] \<and> hd r = 46) = False" "(r \<noteq> [] \<and> hd r \<in> {101, 69}) = False"
    using assms(4) by (auto simp: ends_number_def)
  show ?thesis
    unfolding json_unsigned_def Let_def tw ip r1 e if_False if_True HOL.simp_thms list.size takeWhile.simps
    using assms(1) by simp
qed

lemma dec_digits_number:
  "\<forall>c \<in> set (dec_digits n). ascii_digit c" "hd (dec_digits n) = 48 \<Longrightarrow> dec_digits n = [48]"
  using dec_digits_ascii [of _ n] dec_digits_zero [of n] by (auto simp: ascii_digit_def dec_digits.simps)

lemma json_number_dec_str:
  assumes "ends_number r"
  shows "json_number (dec_str i @ r) = Some (JInt i, r)"
proof (cases "i < 0")
  case True
  then show ?thesis
    using json_unsigned_digits [OF dec_digits_nonempty dec_digits_number assms, of "nat (- i)" True]
    by (simp add: json_number_unsigned dec_str_def dec_value_digits)
next
  case False
  have "hd (dec_digits (nat i)) \<noteq> 45"
    using dec_digits_ascii [OF hd_in_set, of "nat i"] by auto
  then show ?thesis using False
      json_unsigned_digits [OF dec_digits_nonempty dec_digits_number assms, of "nat i" False]
    by (simp add: json_number_unsigned dec_str_def dec_value_digits)
qed

lemma dec_str_head: "dec_str i \<noteq> []" "hd (dec_str i) = 45 \<or> 48 \<le> hd (dec_str i) \<and> hd (dec_str i) \<le> 57"
  using dec_digits_ascii [OF hd_in_set, of "nat i"] by (auto simp: dec_str_def)

lemma json_constant_words: "map fst json_constants = [[110, 117, 108, 108], [116, 114, 117, 101], [102, 97, 108, 115, 101], [78, 97, 78],
    [73, 110, 102, 105, 110, 105, 116, 121], [45, 73, 110, 102, 105, 110, 105, 116, 121]]"
  by code_simp

lemma json_constant_None: "\<forall>w \<in> set (map fst json_constants). \<not> is_prefix_of w s \<Longrightarrow> json_constant s = None"
  by (auto simp: json_constant_def filter_empty_conv split: list.splits prod.splits)
    (metis (mono_tags, lifting) case_prod_unfold filter_eq_ConsD fst_conv in_set_conv_decomp)

lemma json_constant_number: "json_constant (dec_str i @ r) = None"
proof -
  obtain c cs where c: "dec_str i = c # cs" by (cases "dec_str i") (use dec_str_head(1) in auto)
  then have "c = 45 \<or> 48 \<le> c \<and> c \<le> 57" using dec_str_head(2) [of i] by simp
  moreover have "cs \<noteq> [] \<and> 48 \<le> hd cs \<and> hd cs \<le> 57" if "c = 45"
  proof (cases "i < 0")
    case True
    then show ?thesis using c dec_digits_ascii [OF hd_in_set, of "nat (- i)"] by (auto simp: dec_str_def)
  next
    case False
    then show ?thesis using c that dec_digits_ascii [of 45 "nat i"] by (auto simp: dec_str_def)
  qed
  ultimately show ?thesis
    unfolding c by (intro json_constant_None, unfold json_constant_words) (cases cs, auto simp: is_prefix_of_def)
qed

definition atom_ok :: "jatom \<Rightarrow> bool" where
  "atom_ok v \<longleftrightarrow> (case v of AInt i \<Rightarrow> True | AStr s \<Rightarrow> list_all scalar_value s)"

definition atom_size :: "jatom \<Rightarrow> nat" where
  "atom_size v = (case v of AInt i \<Rightarrow> 0 | AStr s \<Rightarrow> length s)"

lemma json_value_atom:
  assumes "atom_ok v" and "atom_size v < n" and "ends_number r"
  shows "json_value (Suc n) (atom_text v @ r) = Some (atom_json v, r)"
proof (cases v)
  case (AInt i)
  obtain c cs where c: "dec_str i = c # cs" by (cases "dec_str i") (use dec_str_head(1) in auto)
  then have "c \<noteq> 34 \<and> c \<noteq> 91 \<and> c \<noteq> 123" using dec_str_head(2) [of i] by auto
  then have "json_value (Suc n) (dec_str i @ r) = (case json_constant (dec_str i @ r) of Some x \<Rightarrow> Some x | None \<Rightarrow> json_number (dec_str i @ r))"
    unfolding c by (simp split: option.split)
  then show ?thesis using AInt json_number_dec_str [OF assms(3), of i] by (simp add: json_constant_number)
next
  case (AStr s)
  then show ?thesis using assms json_string_quote [of s n r]
    by (simp add: json_quote_def atom_ok_def atom_size_def)
qed

lemma skip_ws_simps [simp]:
  "skip_ws [] = []" "skip_ws (c # r) = (if json_ws c then skip_ws r else c # r)"
  by (simp_all add: skip_ws_def)

lemma skip_ws_atom: "skip_ws (atom_text v @ r) = atom_text v @ r"
proof (cases v)
  case (AInt i)
  obtain c cs where c: "dec_str i = c # cs" by (cases "dec_str i") (use dec_str_head(1) in auto)
  then have "\<not> json_ws c" using dec_str_head(2) [of i] by (auto simp: json_ws_def)
  then show ?thesis using AInt c by simp
qed (simp add: json_quote_def json_ws_def)

lemma skip_ws_quote: "skip_ws (json_quote k @ r) = json_quote k @ r"
  by (simp add: json_quote_def json_ws_def)

text \<open>The separators of \<open>json.dumps\<close>: a comma or colon, possibly followed by one space.\<close>

definition sep_ok :: "nat \<Rightarrow> str \<Rightarrow> bool" where
  "sep_ok c s \<longleftrightarrow> s = [c] \<or> s = [c, 32]"

lemma dict_put_new: "k \<notin> fst ` set acc \<Longrightarrow> dict_put acc k v = acc @ [(k, v)]"
  by (simp add: dict_put_def)

definition pair_ok :: "nat \<Rightarrow> str \<times> jatom \<Rightarrow> bool" where
  "pair_ok n p \<longleftrightarrow> list_all scalar_value (fst p) \<and> length (fst p) < n \<and> atom_ok (snd p) \<and> atom_size (snd p) < n"

lemma json_pairs_step:
  assumes "json_string m body = Some (k, 58 # qa)" and "json_value m (skip_ws qa) = Some (v, e # qb)" and "\<not> json_ws e"
  shows "json_pairs (Suc m) acc (34 # body) =
    (if e = 125 then Some (JDict (dict_put acc k v), qb)
     else if e = 44 then json_pairs m (dict_put acc k v) (skip_ws qb) else None)"
  using assms by (simp add: json_ws_def)

lemma json_pairs_head:
  assumes "pair_ok n (k, v)" and "sep_ok 58 ksep" and "ends_number (e # q)" and "\<not> json_ws e"
  shows "json_pairs (Suc (Suc n)) acc (json_quote k @ ksep @ atom_text v @ e # q) =
    (if e = 125 then Some (JDict (dict_put acc k (atom_json v)), q)
     else if e = 44 then json_pairs (Suc n) (dict_put acc k (atom_json v)) (skip_ws q) else None)"
proof -
  let ?r = "atom_text v @ e # q"
  have s: "json_string (Suc n) (concat (map json_char k) @ 34 # ksep @ ?r) = Some (k, ksep @ ?r)"
    using assms(1) by (intro json_string_quote) (auto simp: pair_ok_def)
  have w: "skip_ws (ksep @ ?r) = ksep @ ?r" "\<exists>t. ksep = 58 # t" "skip_ws (tl ksep @ ?r) = ?r"
    using assms(2) skip_ws_atom [of v "e # q"] by (auto simp: sep_ok_def json_ws_def)
  then obtain t where t: "ksep = 58 # t" by blast
  have v: "json_value (Suc n) ?r = Some (atom_json v, e # q)"
    using assms(1,3) by (intro json_value_atom) (auto simp: pair_ok_def)
  have "json_pairs (Suc (Suc n)) acc (34 # concat (map json_char k) @ 34 # ksep @ ?r) =
    (if e = 125 then Some (JDict (dict_put acc k (atom_json v)), q)
     else if e = 44 then json_pairs (Suc n) (dict_put acc k (atom_json v)) (skip_ws q) else None)"
    using s v w(3) assms(4) unfolding t by (intro json_pairs_step [where qa = "t @ ?r"]) simp_all
  then show ?thesis by (simp only: json_quote_def append.simps append_assoc)
qed

lemma pair_ok_mono: "pair_ok n p \<Longrightarrow> n \<le> m \<Longrightarrow> pair_ok m p"
  by (auto simp: pair_ok_def)

lemma json_pairs_dumps:
  assumes "list_all (pair_ok n) d" and "d \<noteq> []" and "sep_ok 44 isep" and "sep_ok 58 ksep"
    and "distinct (map fst acc @ map fst d)"
  shows "json_pairs (Suc (n + length d)) acc (pairs_text isep ksep d @ 125 # r)
    = Some (JDict (acc @ map (\<lambda>(k, v). (k, atom_json v)) d), r)"
  using assms
proof (induction isep ksep d arbitrary: acc rule: pairs_text.induct)
  case (2 isep ksep k v)
  then have "pair_ok n (k, v)" by simp
  then have "json_pairs (Suc (Suc n)) acc (json_quote k @ ksep @ atom_text v @ 125 # r) =
      Some (JDict (dict_put acc k (atom_json v)), r)"
    using 2 by (subst json_pairs_head) (auto simp: ends_number_def json_ws_def)
  moreover have "dict_put acc k (atom_json v) = acc @ [(k, atom_json v)]"
    using 2 by (intro dict_put_new) auto
  ultimately show ?case by (simp del: json_pairs.simps)
next
  case (3 isep ksep k v p ps)
  let ?m = "n + length (p # ps)"
  obtain t where t: "isep = 44 # t" "t = [] \<or> t = [32]" using 3 by (auto simp: sep_ok_def)
  obtain k' v' where p: "p = (k', v')" by (cases p)
  have sk: "skip_ws (t @ pairs_text isep ksep (p # ps) @ 125 # r) = pairs_text isep ksep (p # ps) @ 125 # r"
    using t(2) skip_ws_quote by (cases ps) (auto simp: p json_ws_def)
  have ok: "pair_ok ?m (k, v)" using 3 pair_ok_mono [of n "(k, v)" ?m] by simp
  have k: "dict_put acc k (atom_json v) = acc @ [(k, atom_json v)]" using 3 by (intro dict_put_new) auto
  have "json_pairs (Suc (Suc ?m)) acc (json_quote k @ ksep @ atom_text v @ 44 # t @ pairs_text isep ksep (p # ps) @ 125 # r) =
      json_pairs (Suc ?m) (acc @ [(k, atom_json v)]) (pairs_text isep ksep (p # ps) @ 125 # r)"
    using ok 3 by (subst json_pairs_head) (auto simp: ends_number_def json_ws_def sk k simp del: json_pairs.simps)
  moreover have "json_pairs (Suc ?m) (acc @ [(k, atom_json v)]) (pairs_text isep ksep (p # ps) @ 125 # r)
      = Some (JDict ((acc @ [(k, atom_json v)]) @ map (\<lambda>(k, v). (k, atom_json v)) (p # ps)), r)"
    using 3 by (intro "3.IH") auto
  ultimately show ?case by (simp add: t(1) del: json_pairs.simps)
qed simp

lemma json_char_length: "1 \<le> length (json_char c)"
  by (auto simp: json_char_def u_escape_def split: option.splits)

lemma json_quote_length: "length s < length (json_quote s)"
proof (induction s)
  case (Cons c s)
  then show ?case using json_char_length [of c] by (simp add: json_quote_def)
qed (simp add: json_quote_def)

lemma atom_text_length: "atom_size v \<le> length (atom_text v)"
  by (cases v) (auto simp: atom_size_def intro: less_imp_le [OF json_quote_length])

lemma pairs_text_count: "length d \<le> length (pairs_text isep ksep d)"
proof (induction isep ksep d rule: pairs_text.induct)
  case (2 isep ksep k v)
  then show ?case using json_quote_length [of k] by simp
next
  case (3 isep ksep k v q qs)
  then show ?case using json_quote_length [of k] by simp
qed simp

lemma pairs_text_length:
  "p \<in> set d \<Longrightarrow> length (json_quote (fst p)) + atom_size (snd p) \<le> length (pairs_text isep ksep d)"
proof (induction isep ksep d rule: pairs_text.induct)
  case (2 isep ksep k v)
  then show ?case using atom_text_length [of v] by simp
next
  case (3 isep ksep k v q qs)
  then show ?case using atom_text_length [of v] by auto
qed simp

lemma json_loads_dumps:
  assumes "list_all (\<lambda>(k, v). list_all scalar_value k \<and> atom_ok v) d" and "d \<noteq> []" and "distinct (map fst d)"
    and "sep_ok 44 isep" and "sep_ok 58 ksep"
  shows "json_loads (json_dumps isep ksep d) = Some (JDict (map (\<lambda>(k, v). (k, atom_json v)) d))"
proof -
  let ?t = "pairs_text isep ksep d"
  let ?n = "2 * length (json_dumps isep ksep d)"
  obtain k v ds where d: "d = (k, v) # ds" using assms(2) by (cases d) auto
  have l: "?n = 2 * length ?t + 4" by (simp add: json_dumps_def)
  have len: "length d \<le> length ?t" by (rule pairs_text_count)
  have ok: "pair_ok (?n - 1 - length d) p" if "p \<in> set d" for p
    using assms(1) that pairs_text_length [OF that, of isep ksep] json_quote_length [of "fst p"] len
    unfolding l by (cases p) (auto simp: pair_ok_def list_all_iff)
  obtain q where q: "?t @ [125] = 34 # q" by (cases ds) (auto simp: d json_quote_def)
  have "json_pairs (Suc (?n - 1 - length d + length d)) [] (?t @ 125 # []) = Some (JDict ([] @ map (\<lambda>(k, v). (k, atom_json v)) d), [])"
    using assms ok by (intro json_pairs_dumps) (auto simp: list_all_iff)
  moreover have "Suc (?n - 1 - length d + length d) = ?n" using len unfolding l by simp
  ultimately have "json_pairs ?n [] (34 # q) = Some (JDict (map (\<lambda>(k, v). (k, atom_json v)) d), [])"
    using q by (simp only: append.simps)
  moreover have "json_value (Suc ?n) (123 # 34 # q) = json_pairs ?n [] (34 # q)"
    by (simp add: json_ws_def del: json_pairs.simps)
  ultimately show ?thesis
    unfolding json_loads_def json_dumps_def q by (simp add: json_ws_def del: json_pairs.simps json_value.simps)
qed

end
