(* ===== verification/Simulation.thy ===== *)
theory Simulation
  imports Prelude
begin

text \<open>
  Refinement of an abstract specification by a detailed component, both deterministic machines over the same
  operations and answers: a relation between their states that every operation keeps, with the same answer,
  makes every run give the same answers. \<open>pre\<close> is what the environment guarantees of an operation (that the
  clock does not go back, for instance).
\<close>

fun run_answers :: "('s \<Rightarrow> 'e \<Rightarrow> 's \<times> 'o) \<Rightarrow> 's \<Rightarrow> 'e list \<Rightarrow> 'o list" where
  "run_answers step s [] = []"
| "run_answers step s (e # es) = snd (step s e) # run_answers step (fst (step s e)) es"

fun run_state :: "('s \<Rightarrow> 'e \<Rightarrow> 's \<times> 'o) \<Rightarrow> 's \<Rightarrow> 'e list \<Rightarrow> 's" where
  "run_state step s [] = s"
| "run_state step s (e # es) = run_state step (fst (step s e)) es"

fun run_pre :: "('s \<Rightarrow> 'e \<Rightarrow> 's \<times> 'o) \<Rightarrow> ('s \<Rightarrow> 'e \<Rightarrow> bool) \<Rightarrow> 's \<Rightarrow> 'e list \<Rightarrow> bool" where
  "run_pre step pre s [] = True"
| "run_pre step pre s (e # es) = (pre s e \<and> run_pre step pre (fst (step s e)) es)"

locale simulation =
  fixes cstep :: "'c \<Rightarrow> 'e \<Rightarrow> 'c \<times> 'o"
    and astep :: "'a \<Rightarrow> 'e \<Rightarrow> 'a \<times> 'o"
    and rel :: "'c \<Rightarrow> 'a \<Rightarrow> bool"
    and pre :: "'a \<Rightarrow> 'e \<Rightarrow> bool"
  assumes step_sim: "rel c a \<Longrightarrow> pre a e \<Longrightarrow>
      snd (cstep c e) = snd (astep a e) \<and> rel (fst (cstep c e)) (fst (astep a e))"
begin

lemma run_sim:
  "rel c a \<Longrightarrow> run_pre astep pre a es \<Longrightarrow>
    run_answers cstep c es = run_answers astep a es \<and> rel (run_state cstep c es) (run_state astep a es)"
proof (induction es arbitrary: c a)
  case (Cons e es)
  then show ?case using step_sim [of c a e] by simp
qed simp

end

text \<open>When the operations carry times and the specification's state starts with the time of the last one, a run in
  the order of its times is such a run.\<close>

locale clocked_simulation = simulation cstep astep rel "\<lambda>a e. fst a \<le> time e"
  for cstep :: "'c \<Rightarrow> 'e \<Rightarrow> 'c \<times> 'o"
    and astep :: "real \<times> 'a \<Rightarrow> 'e \<Rightarrow> (real \<times> 'a) \<times> 'o"
    and rel :: "'c \<Rightarrow> real \<times> 'a \<Rightarrow> bool"
    and time :: "'e \<Rightarrow> real" +
  assumes clock: "fst (fst (astep a e)) = time e"
begin

lemma run_ordered:
  "sorted (map time es) \<Longrightarrow> \<forall>e \<in> set es. fst a \<le> time e \<Longrightarrow> run_pre astep (\<lambda>a e. fst a \<le> time e) a es"
proof (induction es arbitrary: a)
  case (Cons e es)
  then show ?case by (simp add: clock)
qed simp

lemma run_clocked:
  assumes "rel c a" and "sorted (map time es)" and "\<forall>e \<in> set es. fst a \<le> time e"
  shows "run_answers cstep c es = run_answers astep a es" and "rel (run_state cstep c es) (run_state astep a es)"
  using run_sim [OF assms(1) run_ordered [OF assms(2,3)]] by simp_all

end

lemma run_answers_append:
  "run_answers step s (es @ fs) = run_answers step s es @ run_answers step (run_state step s es) fs"
  by (induction es arbitrary: s) simp_all

lemma run_state_append: "run_state step s (es @ fs) = run_state step (run_state step s es) fs"
  by (induction es arbitrary: s) simp_all

end
