(* ===== verification/Auth.thy ===== *)
theory Auth
  imports Json_Dump App_Config Simulation
begin

text \<open>
  \<open>app/web/auth.py\<close>: password hashes, signed sessions and payloads, anonymous access, API tokens, CSRF and
  the login rate limiter. The cryptographic functions of the standard library are parameters: \<open>hmac\<close> (the
  HMAC-SHA256 digest of a key and a message), \<open>scrypt\<close> (password, salt, length; \<open>None\<close> is \<open>ValueError\<close>) and
  \<open>sha256hex\<close>. So are the clock and random values. A raised exception is \<open>Inl\<close>.
\<close>

datatype auth_error = EncodeError | CompareError | BadClaim

section \<open>Password hashing\<close>

definition hex_text :: "bytes \<Rightarrow> str" where
  "hex_text bs = concat (map (\<lambda>b. [hex_lower (unat b div 16), hex_lower (unat b mod 16)]) bs)"

definition hex_space :: "nat \<Rightarrow> bool" where
  "hex_space c \<longleftrightarrow> c = 32 \<or> 9 \<le> c \<and> c \<le> 13"

text \<open>\<open>bytes.fromhex\<close>.\<close>

fun fromhex :: "str \<Rightarrow> bytes option" where
  "fromhex [] = Some []"
| "fromhex [c] = (if hex_space c then Some [] else None)"
| "fromhex (c # d # r) =
     (if hex_space c then fromhex (d # r)
      else case (hex_digit c, hex_digit d) of
        (Some x, Some y) \<Rightarrow> map_option (\<lambda>bs. nbyte (16 * x + y) # bs) (fromhex r)
      | _ \<Rightarrow> None)"

definition DKLEN :: nat where "DKLEN = 32"

definition hash_password :: "(bytes \<Rightarrow> bytes \<Rightarrow> nat \<Rightarrow> bytes option) \<Rightarrow> bytes \<Rightarrow> str \<Rightarrow> str option" where
  "hash_password scrypt salt password =
     (case utf8_encode password of
        None \<Rightarrow> None
      | Some p \<Rightarrow> map_option (\<lambda>dk. ascii ''scrypt'' @ [36] @ hex_text salt @ [36] @ hex_text dk) (scrypt p salt DKLEN))"

definition verify_password :: "(bytes \<Rightarrow> bytes \<Rightarrow> nat \<Rightarrow> bytes option) \<Rightarrow> str \<Rightarrow> str \<Rightarrow> bool" where
  "verify_password scrypt password stored =
     (case split_on 36 stored of
        scheme # salt_hex # h # hs \<Rightarrow>
          if scheme \<noteq> ascii ''scrypt'' then False
          else (case (fromhex salt_hex, fromhex (join_with 36 (h # hs)), utf8_encode password) of
                  (Some salt, Some expected, Some p) \<Rightarrow> scrypt p salt (length expected) = Some expected
                | _ \<Rightarrow> False)
      | _ \<Rightarrow> False)"

section \<open>Base64\<close>

definition b64_char :: "nat \<Rightarrow> nat" where
  "b64_char v = (if v < 26 then 65 + v else if v < 52 then 71 + v else if v < 62 then v - 4 else if v = 62 then 45 else 95)"

text \<open>\<open>urlsafe_b64decode\<close> reads both alphabets (it translates one into the other).\<close>

definition b64_value :: "nat \<Rightarrow> nat option" where
  "b64_value c =
     (if 65 \<le> c \<and> c \<le> 90 then Some (c - 65) else if 97 \<le> c \<and> c \<le> 122 then Some (c - 71)
      else if 48 \<le> c \<and> c \<le> 57 then Some (c + 4) else if c = 45 \<or> c = 43 then Some 62
      else if c = 95 \<or> c = 47 then Some 63 else None)"

text \<open>\<open>_b64e\<close>: without padding.\<close>

fun b64e :: "bytes \<Rightarrow> str" where
  "b64e [] = []"
| "b64e [a] = [b64_char (unat a div 4), b64_char (unat a mod 4 * 16)]"
| "b64e [a, b] = [b64_char (unat a div 4), b64_char (unat a mod 4 * 16 + unat b div 16), b64_char (unat b mod 16 * 4)]"
| "b64e (a # b # c # r) =
     [b64_char (unat a div 4), b64_char (unat a mod 4 * 16 + unat b div 16),
      b64_char (unat b mod 16 * 4 + unat c div 64), b64_char (unat c mod 64)] @ b64e r"

text \<open>\<open>binascii.a2b_base64\<close> (not strict): \<open>q\<close> is the position in the group of four, \<open>l\<close> the bits left over, \<open>pads\<close>
  the padding characters seen; other characters are skipped.\<close>

fun a2b :: "nat \<Rightarrow> nat \<Rightarrow> nat \<Rightarrow> str \<Rightarrow> bytes option" where
  "a2b q l pads [] = (if q = 0 then Some [] else None)"
| "a2b q l pads (c # cs) =
     (if c = 61 then
        (if q \<ge> 2 then (if q + Suc pads \<ge> 4 then Some [] else a2b q l (Suc pads) cs) else a2b q l pads cs)
      else case b64_value c of
        None \<Rightarrow> a2b q l pads cs
      | Some v \<Rightarrow>
          if q = 0 then a2b 1 v 0 cs
          else if q = 1 then map_option (\<lambda>r. nbyte (l * 4 + v div 16) # r) (a2b 2 (v mod 16) 0 cs)
          else if q = 2 then map_option (\<lambda>r. nbyte (l * 16 + v div 4) # r) (a2b 3 (v mod 4) 0 cs)
          else map_option (\<lambda>r. nbyte (l * 64 + v) # r) (a2b 0 0 0 cs))"

text \<open>\<open>_b64d\<close>: pads to a multiple of four; text that is not ASCII is a \<open>ValueError\<close>.\<close>

definition b64d :: "str \<Rightarrow> bytes option" where
  "b64d s = (if list_all (\<lambda>c. c < 128) s then a2b 0 0 0 (s @ replicate (nat ((- int (length s)) mod 4)) 61) else None)"

section \<open>Signed tokens\<close>

text \<open>\<open>_sign\<close>: the secret is encoded as UTF-8, the payload as ASCII.\<close>

definition sign :: "(bytes \<Rightarrow> bytes \<Rightarrow> bytes) \<Rightarrow> str \<Rightarrow> str \<Rightarrow> auth_error + str" where
  "sign hmac secret payload =
     (case utf8_encode secret of
        None \<Rightarrow> Inl EncodeError
      | Some k \<Rightarrow> if list_all (\<lambda>c. c < 128) payload then Inr (b64e (hmac k (map nbyte payload))) else Inl EncodeError)"

text \<open>\<open>hmac.compare_digest\<close> of two strings raises \<open>TypeError\<close> unless both are ASCII.\<close>

definition compare_digest :: "str \<Rightarrow> str \<Rightarrow> auth_error + bool" where
  "compare_digest a b = (if list_all (\<lambda>c. c < 128) a \<and> list_all (\<lambda>c. c < 128) b then Inr (a = b) else Inl CompareError)"

text \<open>\<open>f"{payload}.{_sign(secret, payload)}"\<close> of a JSON object.\<close>

definition seal :: "(bytes \<Rightarrow> bytes \<Rightarrow> bytes) \<Rightarrow> str \<Rightarrow> (str \<times> jatom) list \<Rightarrow> auth_error + str" where
  "seal hmac secret d =
     (case utf8_encode (json_dumps [44, 32] [58, 32] d) of
        None \<Rightarrow> Inl EncodeError
      | Some b \<Rightarrow> rbind (sign hmac secret (b64e b)) (\<lambda>sig. Inr (b64e b @ [46] @ sig)))"

definition issue_session :: "(bytes \<Rightarrow> bytes \<Rightarrow> bytes) \<Rightarrow> str \<Rightarrow> int \<Rightarrow> int \<Rightarrow> str \<Rightarrow> int \<Rightarrow> auth_error + str" where
  "issue_session hmac secret now ttl username pwd_version =
     seal hmac secret [(ascii ''exp'', AInt (now + ttl)), (ascii ''u'', AStr username), (ascii ''v'', AInt pwd_version)]"

text \<open>\<open>{**data, "exp": ...}\<close>; the callers' \<open>data\<close> has no \<open>exp\<close> key.\<close>

definition sign_payload :: "(bytes \<Rightarrow> bytes \<Rightarrow> bytes) \<Rightarrow> str \<Rightarrow> int \<Rightarrow> (str \<times> jatom) list \<Rightarrow> int \<Rightarrow> auth_error + str" where
  "sign_payload hmac secret now d ttl = seal hmac secret (d @ [(ascii ''exp'', AInt (now + ttl))])"

text \<open>\<open>int(data.get(key, 0))\<close>.\<close>

definition claim_int :: "(str \<times> json) list \<Rightarrow> str \<Rightarrow> auth_error + int" where
  "claim_int d k =
     (case map_of d k of
        None \<Rightarrow> Inr 0
      | Some (JInt i) \<Rightarrow> Inr i
      | Some (JBool b) \<Rightarrow> Inr (of_bool b)
      | Some (JStr s) \<Rightarrow> (case py_int s of Some i \<Rightarrow> Inr i | None \<Rightarrow> Inl BadClaim)
      | Some (JFloat f) \<Rightarrow> (case f64_trunc f of Some i \<Rightarrow> Inr i | None \<Rightarrow> Inl BadClaim)
      | Some _ \<Rightarrow> Inl BadClaim)"

text \<open>\<open>str(data.get(key, ""))\<close>; \<open>pystr\<close> is \<open>str\<close> of a value that is not a string.\<close>

definition claim_str :: "(json \<Rightarrow> str) \<Rightarrow> (str \<times> json) list \<Rightarrow> str \<Rightarrow> str" where
  "claim_str pystr d k = (case map_of d k of None \<Rightarrow> [] | Some (JStr s) \<Rightarrow> s | Some v \<Rightarrow> pystr v)"

text \<open>The steps \<open>decode_session\<close> and \<open>read_payload\<close> share: signature, decoding, expiry. The JSON of a token signed
  here starts with an opening brace, so \<open>json.loads\<close> reads its bytes as UTF-8.\<close>

definition unseal :: "(bytes \<Rightarrow> bytes \<Rightarrow> bytes) \<Rightarrow> str \<Rightarrow> int \<Rightarrow> str option \<Rightarrow> auth_error + (str \<times> json) list option" where
  "unseal hmac secret now token =
     (case (case token of None \<Rightarrow> None | Some t \<Rightarrow> rpartition 46 t) of
        None \<Rightarrow> Inr None
      | Some (payload, sig) \<Rightarrow>
          rbind (sign hmac secret payload) (\<lambda>s.
          rbind (compare_digest sig s) (\<lambda>same.
          if \<not> same then Inr None
          else case (case b64d payload of None \<Rightarrow> None
                     | Some b \<Rightarrow> (case utf8_decode b of None \<Rightarrow> None | Some txt \<Rightarrow> json_loads txt)) of
            None \<Rightarrow> Inr None
          | Some (JDict d) \<Rightarrow> rbind (claim_int d (ascii ''exp'')) (\<lambda>e. Inr (if e \<le> now then None else Some d))
          | Some _ \<Rightarrow> Inl BadClaim)))"

definition decode_session :: "(bytes \<Rightarrow> bytes \<Rightarrow> bytes) \<Rightarrow> (json \<Rightarrow> str) \<Rightarrow> str \<Rightarrow> int \<Rightarrow> str option \<Rightarrow>
    auth_error + (str \<times> int) option" where
  "decode_session hmac pystr secret now token =
     rbind (unseal hmac secret now token) (\<lambda>r.
     case r of
       None \<Rightarrow> Inr None
     | Some d \<Rightarrow> rbind (claim_int d (ascii ''v'')) (\<lambda>v. Inr (Some (claim_str pystr d (ascii ''u''), v))))"

definition read_payload :: "(bytes \<Rightarrow> bytes \<Rightarrow> bytes) \<Rightarrow> str \<Rightarrow> int \<Rightarrow> str option \<Rightarrow> auth_error + (str \<times> json) list option" where
  "read_payload hmac secret now token = unseal hmac secret now token"

definition session_user :: "(bytes \<Rightarrow> bytes \<Rightarrow> bytes) \<Rightarrow> (json \<Rightarrow> str) \<Rightarrow> app_config \<Rightarrow> int \<Rightarrow> str option \<Rightarrow>
    auth_error + user option" where
  "session_user hmac pystr cfg now token =
     rbind (decode_session hmac pystr (ac_secret_key cfg) now token) (\<lambda>r.
     case r of
       None \<Rightarrow> Inr None
     | Some (u, v) \<Rightarrow>
         (case get_user cfg u of
            None \<Rightarrow> Inr None
          | Some usr \<Rightarrow> Inr (if us_pwd_version usr \<noteq> v then None else Some usr)))"

section \<open>Anonymous access\<close>

definition ANONYMOUS_USERNAME :: str where "ANONYMOUS_USERNAME = ascii ''(anonymous)''"

text \<open>\<open>_own_host_names\<close>; \<open>hostname\<close> is \<open>socket.gethostname()\<close> and \<open>lower\<close> is \<open>str.lower\<close>.\<close>

definition own_host_names :: "(str \<Rightarrow> str) \<Rightarrow> str \<Rightarrow> str list" where
  "own_host_names lower hostname =
     (let full = lower (strip hostname); short = hd (split_on 46 full) in
      filter (\<lambda>n. n \<noteq> []) [full, short, if short \<noteq> [] then short @ ascii ''.local'' else []])"

text \<open>\<open>_host_only\<close>: no port, no brackets, lower case.\<close>

definition host_only :: "(str \<Rightarrow> str) \<Rightarrow> str \<Rightarrow> str" where
  "host_only lower host_header =
     (let h = lower (strip host_header) in
      if is_prefix_of [91] h then (if 93 \<in> set h then takeWhile (\<lambda>c. c \<noteq> 93) (tl h) else [])
      else if length (filter (\<lambda>c. c = 58) h) = 1 then takeWhile (\<lambda>c. c \<noteq> 58) h
      else h)"

definition is_own_host :: "(str \<Rightarrow> str) \<Rightarrow> str \<Rightarrow> str \<Rightarrow> bool" where
  "is_own_host lower hostname host_header =
     (let name = host_only lower host_header in
      if name = [] then False
      else if ip_address name \<noteq> None then True
      else name = ascii ''localhost'' \<or> name \<in> set (own_host_names lower hostname))"

text \<open>\<open>_FORWARDED_HOST.findall\<close>: at a start position or after a separator, \<open>host=\<close> in any case, an optional quote, then
  the name. \<open>start\<close> says that the position is the beginning of the text; \<open>k\<close> characters of a match are skipped.\<close>

definition forwarded_sep :: "nat \<Rightarrow> bool" where
  "forwarded_sep c \<longleftrightarrow> c = 59 \<or> c = 44 \<or> py_isspace c"

definition host_value :: "str \<Rightarrow> (str \<times> nat) option" where
  "host_value s =
     (if lower_ascii (take 5 s) = ascii ''host='' then
        (let r = drop 5 s; quoted = is_prefix_of [34] r; r' = (if quoted then tl r else r);
             v = takeWhile (\<lambda>c. c \<noteq> 34 \<and> \<not> forwarded_sep c) r' in
         if v = [] then None else Some (v, 5 + of_bool quoted + length v))
      else None)"

fun forwarded_hosts :: "bool \<Rightarrow> nat \<Rightarrow> str \<Rightarrow> str list" where
  "forwarded_hosts start k [] = []"
| "forwarded_hosts start k (c # cs) =
     (if k > 0 then forwarded_hosts False (k - 1) cs
      else case (if start then host_value (c # cs) else None) of
        Some (v, n) \<Rightarrow> v # forwarded_hosts False (n - 1) cs
      | None \<Rightarrow>
          (case (if forwarded_sep c then host_value cs else None) of
             Some (v, n) \<Rightarrow> v # forwarded_hosts False n cs
           | None \<Rightarrow> forwarded_hosts False 0 cs))"

text \<open>The headers of a request that matter here; an absent one is \<open>None\<close>.\<close>

record req_headers =
  hd_host :: "str option"
  hd_xfh :: "str option"
  hd_fwd :: "str option"

definition claimed_hosts :: "req_headers \<Rightarrow> str list" where
  "claimed_hosts h =
     [case hd_host h of None \<Rightarrow> [] | Some x \<Rightarrow> x] @
     (case hd_xfh h of None \<Rightarrow> [] | Some x \<Rightarrow> if x = [] then [] else map strip (split_on 44 x)) @
     (case hd_fwd h of None \<Rightarrow> [] | Some x \<Rightarrow> if x = [] then [] else forwarded_hosts True 0 x)"

definition anonymous_user :: "(str \<Rightarrow> str) \<Rightarrow> str \<Rightarrow> app_config \<Rightarrow> req_headers \<Rightarrow> user option" where
  "anonymous_user lower hostname cfg h =
     (if ui_require_login (ac_admin_ui cfg) \<or> ac_users cfg = [] then None
      else if \<not> list_all (is_own_host lower hostname) (claimed_hosts h) then None
      else Some \<lparr>us_username = ANONYMOUS_USERNAME, us_password_hash = [], us_role = ui_anonymous_role (ac_admin_ui cfg),
             us_pwd_version = 0, us_source = ascii ''anonymous''\<rparr>)"

definition request_user :: "(bytes \<Rightarrow> bytes \<Rightarrow> bytes) \<Rightarrow> (json \<Rightarrow> str) \<Rightarrow> (str \<Rightarrow> str) \<Rightarrow> str \<Rightarrow> app_config \<Rightarrow> int \<Rightarrow>
    str option \<Rightarrow> req_headers \<Rightarrow> auth_error + user option" where
  "request_user hmac pystr lower hostname cfg now token h =
     rbind (session_user hmac pystr cfg now token) (\<lambda>u.
     Inr (case u of Some x \<Rightarrow> Some x | None \<Rightarrow> anonymous_user lower hostname cfg h))"

section \<open>API tokens and CSRF\<close>

definition API_TOKEN_PREFIX :: str where "API_TOKEN_PREFIX = ascii ''s2n_''"

text \<open>\<open>random\<close> is \<open>secrets.token_urlsafe(32)\<close>.\<close>

definition new_api_token :: "str \<Rightarrow> str" where
  "new_api_token random = API_TOKEN_PREFIX @ random"

definition hash_token :: "(bytes \<Rightarrow> str) \<Rightarrow> str \<Rightarrow> auth_error + str" where
  "hash_token sha256hex token = (case utf8_encode token of None \<Rightarrow> Inl EncodeError | Some b \<Rightarrow> Inr (sha256hex b))"

definition verify_token :: "(bytes \<Rightarrow> str) \<Rightarrow> str \<Rightarrow> str \<Rightarrow> auth_error + bool" where
  "verify_token sha256hex token stored =
     (if token = [] \<or> stored = [] then Inr False
      else rbind (hash_token sha256hex token) (\<lambda>h. compare_digest h stored))"

definition bearer_token :: "str \<Rightarrow> str" where
  "bearer_token header = (if lower_ascii (take 7 header) = ascii ''bearer '' then strip (drop 7 header) else [])"

definition csrf_token_matches :: "str option \<Rightarrow> str \<Rightarrow> auth_error + bool" where
  "csrf_token_matches cookie token =
     (case cookie of
        None \<Rightarrow> Inr False
      | Some c \<Rightarrow> if c = [] \<or> token = [] then Inr False else compare_digest token c)"

section \<open>Login rate limiter\<close>

record limiter =
  lm_max :: nat
  lm_window :: real
  lm_fails :: "str \<Rightarrow> real list"

definition limiter_init :: limiter where
  "limiter_init = \<lparr>lm_max = 8, lm_window = 300, lm_fails = (\<lambda>_. [])\<rparr>"

definition blocked :: "limiter \<Rightarrow> str \<Rightarrow> real \<Rightarrow> bool \<times> limiter" where
  "blocked l ip now =
     (let q = dropWhile (\<lambda>t. now - t > lm_window l) (lm_fails l ip) in
      (length q \<ge> lm_max l, l\<lparr>lm_fails := (lm_fails l)(ip := q)\<rparr>))"

definition record_failure :: "limiter \<Rightarrow> str \<Rightarrow> real \<Rightarrow> limiter" where
  "record_failure l ip now = l\<lparr>lm_fails := (lm_fails l)(ip := lm_fails l ip @ [now])\<rparr>"

definition limiter_reset :: "limiter \<Rightarrow> str \<Rightarrow> limiter" where
  "limiter_reset l ip = l\<lparr>lm_fails := (lm_fails l)(ip := [])\<rparr>"

section \<open>Lemmas: hexadecimal and base64\<close>

lemma unat_byte: "unat (b :: byte) < 256"
  using unsigned_less [of b, where 'a = nat] by simp

lemma fromhex_hex [simp]: "fromhex (hex_text bs) = Some bs"
proof (induction bs)
  case (Cons b bs)
  have u: "unat b < 256" by (rule unat_byte)
  then have d: "unat b div 16 < 16" "unat b mod 16 < 16" by auto
  have "\<not> hex_space (hex_lower (unat b div 16))" by (auto simp: hex_space_def hex_lower_def)
  moreover have "nbyte (16 * (unat b div 16) + unat b mod 16) = b" by (simp add: nbyte_def)
  ultimately show ?case using Cons d by (simp add: hex_text_def hex_digit_lower)
qed (simp add: hex_text_def)

lemma hex_text_chars: "c \<in> set (hex_text bs) \<Longrightarrow> 48 \<le> c \<and> c \<le> 102"
proof (induction bs)
  case (Cons b bs)
  have "unat b < 256" by (rule unat_byte)
  then have "unat b div 16 < 16" "unat b mod 16 < 16" by auto
  then show ?case using Cons by (auto simp: hex_text_def hex_lower_def)
qed (simp add: hex_text_def)

lemma b64_value_char: "v < 64 \<Longrightarrow> b64_value (b64_char v) = Some v" "b64_char v \<noteq> 61"
  by (auto simp: b64_char_def b64_value_def)

lemma b64_char_ascii: "b64_char v < 128" "b64_char v \<noteq> 46"
  by (auto simp: b64_char_def)

lemma byte_places:
  fixes a b c :: byte
  shows "unat a div 4 < 64" "unat a mod 4 * 16 + unat b div 16 < 64" "unat b mod 16 * 4 + unat c div 64 < 64"
    "unat c mod 64 < 64" "unat a mod 4 * 16 < 64" "unat b mod 16 * 4 < 64"
  using unat_byte [of a] unat_byte [of b] unat_byte [of c] by auto

lemma b64_joins:
  fixes a b c :: byte
  shows "nbyte (unat a div 4 * 4 + (unat a mod 4 * 16 + unat b div 16) div 16) = a"
    "nbyte ((unat a mod 4 * 16 + unat b div 16) mod 16 * 16 + (unat b mod 16 * 4 + unat c div 64) div 4) = b"
    "nbyte ((unat b mod 16 * 4 + unat c div 64) mod 4 * 64 + unat c mod 64) = c"
proof -
  have b: "unat b div 16 < 16" "unat c div 64 < 4" using unat_byte [of b] unat_byte [of c] by auto
  have "(unat a mod 4 * 16 + unat b div 16) div 16 = unat a mod 4" "(unat a mod 4 * 16 + unat b div 16) mod 16 = unat b div 16"
    "(unat b mod 16 * 4 + unat c div 64) div 4 = unat b mod 16" "(unat b mod 16 * 4 + unat c div 64) mod 4 = unat c div 64"
    using b by auto
  then show "nbyte (unat a div 4 * 4 + (unat a mod 4 * 16 + unat b div 16) div 16) = a"
    "nbyte ((unat a mod 4 * 16 + unat b div 16) mod 16 * 16 + (unat b mod 16 * 4 + unat c div 64) div 4) = b"
    "nbyte ((unat b mod 16 * 4 + unat c div 64) mod 4 * 64 + unat c mod 64) = c"
    by (simp_all add: nbyte_def)
qed

lemma b64e_chars: "c \<in> set (b64e bs) \<Longrightarrow> c < 128 \<and> c \<noteq> 46"
  by (induction bs rule: b64e.induct) (auto simp: b64_char_ascii)

lemma a2b_group:
  "a2b 0 0 0 (b64e (a # b # c # r) @ s) = map_option (\<lambda>x. a # b # c # x) (a2b 0 0 0 (b64e r @ s))"
proof -
  have "a2b 0 0 0 (b64e (a # b # c # r) @ s) =
    map_option (\<lambda>x. nbyte (unat a div 4 * 4 + (unat a mod 4 * 16 + unat b div 16) div 16) #
      nbyte ((unat a mod 4 * 16 + unat b div 16) mod 16 * 16 + (unat b mod 16 * 4 + unat c div 64) div 4) #
      nbyte ((unat b mod 16 * 4 + unat c div 64) mod 4 * 64 + unat c mod 64) # x) (a2b 0 0 0 (b64e r @ s))"
    by (simp add: b64_value_char byte_places option.map_comp comp_def)
  then show ?thesis by (simp only: b64_joins)
qed

lemma a2b_padded:
  "a2b 0 0 0 (b64e bs @ replicate (nat ((- int (length (b64e bs))) mod 4)) 61) = Some bs"
proof (induction bs rule: b64e.induct)
  case (2 a)
  have "nbyte (unat a div 4 * 4 + unat a mod 4 * 16 div 16) = a" using b64_joins(1) [of a 0] by simp
  then show ?case by (simp add: b64_value_char byte_places numeral_2_eq_2)
next
  case (3 a b)
  have "nbyte (unat a div 4 * 4 + (unat a mod 4 * 16 + unat b div 16) div 16) = a"
    "nbyte ((unat a mod 4 * 16 + unat b div 16) mod 16 * 16 + (unat b mod 16 * 4) div 4) = b"
    using b64_joins(1) [of a b] b64_joins(2) [of a b 0] by simp_all
  then show ?case by (simp add: b64_value_char byte_places)
next
  case (4 a b c r)
  have "(- int (length (b64e (a # b # c # r)))) mod 4 = (- int (length (b64e r))) mod 4" by simp presburger
  then show ?case using 4 by (simp only: a2b_group) simp
qed simp

lemma b64d_b64e: "b64d (b64e bs) = Some bs"
  using a2b_padded [of bs] b64e_chars [of _ bs] by (simp add: b64d_def list_all_iff)

section \<open>Lemmas: signed tokens\<close>

lemma json_char_ascii: "x \<in> set (json_char c) \<Longrightarrow> x < 128"
proof -
  have h: "hex_lower (m mod 16) < 128" for m
    using mod_less_divisor [of 16 m] by (auto simp: hex_lower_def)
  have u: "x < 128" if "x \<in> set (u_escape m)" for m using that h [of m] h [of "m div 16"] h [of "m div 256"] h [of "m div 4096"]
    by (auto simp: u_escape_def)
  show "x \<in> set (json_char c) \<Longrightarrow> x < 128"
    using map_of_SomeD [of short_escapes c] u
    by (auto simp: json_char_def short_escapes_def split: option.splits if_splits)
qed

lemma dec_str_ascii: "c \<in> set (dec_str i) \<Longrightarrow> c < 128"
  using dec_digits_ascii [of c] by (auto simp: dec_str_def split: if_splits) fastforce+

lemma atom_text_ascii: "c \<in> set (atom_text v) \<Longrightarrow> c < 128"
  by (cases v) (auto simp: json_quote_def dec_str_ascii json_char_ascii)

lemma pairs_text_ascii:
  "\<forall>c \<in> set isep \<union> set ksep. c < 128 \<Longrightarrow> c \<in> set (pairs_text isep ksep d) \<Longrightarrow> c < 128"
  by (induction isep ksep d rule: pairs_text.induct) (auto simp: json_quote_def json_char_ascii atom_text_ascii)

lemma json_dumps_ascii: "c \<in> set (json_dumps [44, 32] [58, 32] d) \<Longrightarrow> c < 128"
  using pairs_text_ascii [of "[44, 32]" "[58, 32]" c d] by (auto simp: json_dumps_def)

lemma utf8_ascii: "\<forall>c \<in> set s. c < 128 \<Longrightarrow> utf8_encode s = Some (map nbyte s)"
proof -
  assume a: "\<forall>c \<in> set s. c < 128"
  then have "concat (map utf8_char s) = map nbyte s" by (induction s) (auto simp: utf8_char_def)
  then show ?thesis using a by (auto simp: utf8_encode_def list_all_iff scalar_value_def)
qed

lemma sign_ascii: "sign hmac secret payload = Inr s \<Longrightarrow> list_all (\<lambda>c. c < 128) s \<and> 46 \<notin> set s"
  using b64e_chars by (auto simp: sign_def list_all_iff split: option.splits if_splits)

lemma seal_parts:
  assumes "seal hmac secret d = Inr t"
  obtains b sig where "utf8_encode (json_dumps [44, 32] [58, 32] d) = Some b" "sign hmac secret (b64e b) = Inr sig" "t = b64e b @ 46 # sig"
  using assms by (auto simp: seal_def rbind_eq_Inr split: option.splits)

definition flat_ok :: "(str \<times> jatom) list \<Rightarrow> bool" where
  "flat_ok d \<longleftrightarrow> d \<noteq> [] \<and> distinct (map fst d) \<and> list_all (\<lambda>(k, v). list_all scalar_value k \<and> atom_ok v) d"

text \<open>A sealed object is read back until it expires.\<close>

lemma unseal_seal:
  assumes "flat_ok d" and "seal hmac secret d = Inr t" and "map_of d (ascii ''exp'') = Some (AInt e)"
  shows "unseal hmac secret now (Some t) = Inr (if e \<le> now then None else Some (map (\<lambda>(k, v). (k, atom_json v)) d))"
proof -
  from assms(2) obtain b sig where b: "utf8_encode (json_dumps [44, 32] [58, 32] d) = Some b"
    and sig: "sign hmac secret (b64e b) = Inr sig" and t: "t = b64e b @ 46 # sig" by (rule seal_parts)
  have rp: "rpartition 46 t = Some (b64e b, sig)" unfolding t using sign_ascii [OF sig] by (intro rpartition_append) simp
  have cd: "compare_digest sig sig = Inr True" using sign_ascii [OF sig] by (simp add: compare_digest_def)
  have js: "json_loads (json_dumps [44, 32] [58, 32] d) = Some (JDict (map (\<lambda>(k, v). (k, atom_json v)) d))"
    using assms(1) by (intro json_loads_dumps) (auto simp: flat_ok_def sep_ok_def)
  have "claim_int (map (\<lambda>(k, v). (k, atom_json v)) d) (ascii ''exp'') = Inr e"
    using assms(3) map_of_map [of atom_json d] by (simp add: claim_int_def)
  then show ?thesis
    by (simp add: unseal_def rp sig cd b64d_b64e utf8_decode_encode [OF b] js)
qed

text \<open>Only a text signed with the secret is read at all.\<close>

lemma rpartition_join: "rpartition c s = Some (a, b) \<Longrightarrow> s = a @ c # b"
proof -
  assume "rpartition c s = Some (a, b)"
  then have c: "c \<in> set s" and ab: "a = rev (tl (dropWhile (\<lambda>x. x \<noteq> c) (rev s)))" "b = rev (takeWhile (\<lambda>x. x \<noteq> c) (rev s))"
    by (auto simp: rpartition_def split: if_splits)
  have "dropWhile (\<lambda>x. x \<noteq> c) (rev s) \<noteq> []" using c by simp
  then have "hd (dropWhile (\<lambda>x. x \<noteq> c) (rev s)) = c" using hd_dropWhile [of "\<lambda>x. x \<noteq> c" "rev s"] by blast
  then have "rev s = rev b @ c # rev a"
    using ab takeWhile_dropWhile_id [of "\<lambda>x. x \<noteq> c" "rev s"] c by (metis \<open>dropWhile (\<lambda>x. x \<noteq> c) (rev s) \<noteq> []\<close> list.collapse rev_rev_ident)
  then show "s = a @ c # b" by (metis append.assoc append_Cons append_Nil rev.simps(2) rev_append rev_rev_ident)
qed

lemma unseal_signed:
  assumes "unseal hmac secret now (Some t) = Inr (Some d)"
  shows "\<exists>payload sig. t = payload @ 46 # sig \<and> sign hmac secret payload = Inr sig"
proof -
  from assms obtain payload sig where rp: "rpartition 46 t = Some (payload, sig)"
    by (auto simp: unseal_def split: option.splits)
  then have "t = payload @ 46 # sig" by (rule rpartition_join)
  moreover have "sign hmac secret payload = Inr sig"
    using assms rp by (auto simp: unseal_def rbind_eq_Inr compare_digest_def split: if_splits)
  ultimately show ?thesis by blast
qed

lemma session_user_signed:
  assumes "session_user hmac pystr cfg now (Some t) = Inr (Some u)"
  shows "\<exists>payload sig. t = payload @ 46 # sig \<and> sign hmac (ac_secret_key cfg) payload = Inr sig"
proof (cases "unseal hmac (ac_secret_key cfg) now (Some t)")
  case (Inl e)
  then show ?thesis using assms by (simp add: session_user_def decode_session_def)
next
  case (Inr r)
  then obtain d where "r = Some d" using assms by (cases r) (auto simp: session_user_def decode_session_def)
  then show ?thesis using unseal_signed Inr by blast
qed

section \<open>Lemmas: the rate limiter\<close>

text \<open>The limiter's operations with their time, and the machine they make.\<close>

datatype limit_event = L_blocked str real | L_fail str real | L_reset str real

fun limit_time :: "limit_event \<Rightarrow> real" where
  "limit_time (L_blocked ip t) = t" | "limit_time (L_fail ip t) = t" | "limit_time (L_reset ip t) = t"

fun limit_step :: "limiter \<Rightarrow> limit_event \<Rightarrow> limiter \<times> bool option" where
  "limit_step l (L_blocked ip t) = (let (b, l') = blocked l ip t in (l', Some b))"
| "limit_step l (L_fail ip t) = (record_failure l ip t, None)"
| "limit_step l (L_reset ip t) = (limiter_reset l ip, None)"

text \<open>The specification keeps every failure since the last reset of an address: the address is blocked when at least
  \<open>mx\<close> of them are within the window.\<close>

type_synonym limit_spec = "real \<times> (str \<Rightarrow> real list)"

fun spec_limit_step :: "nat \<Rightarrow> real \<Rightarrow> limit_spec \<Rightarrow> limit_event \<Rightarrow> limit_spec \<times> bool option" where
  "spec_limit_step mx w (now, h) (L_blocked ip t) = ((t, h), Some (mx \<le> length (filter (\<lambda>f. t - f \<le> w) (h ip))))"
| "spec_limit_step mx w (now, h) (L_fail ip t) = ((t, h(ip := h ip @ [t])), None)"
| "spec_limit_step mx w (now, h) (L_reset ip t) = ((t, h(ip := [])), None)"

definition limit_rel :: "nat \<Rightarrow> real \<Rightarrow> limiter \<Rightarrow> limit_spec \<Rightarrow> bool" where
  "limit_rel mx w l a \<longleftrightarrow> lm_max l = mx \<and> lm_window l = w \<and>
     (\<forall>ip. sorted (snd a ip) \<and> (\<forall>f \<in> set (snd a ip). f \<le> fst a) \<and>
       (\<exists>old. snd a ip = old @ lm_fails l ip \<and> (\<forall>f \<in> set old. fst a - f > w)))"

lemma filter_recent:
  fixes w t :: real
  assumes "sorted xs"
  shows "filter (\<lambda>f. t - f \<le> w) xs = dropWhile (\<lambda>f. t - f > w) xs"
  using assms
proof (induction xs)
  case (Cons x xs)
  show ?case
  proof (cases "t - x > w")
    case False
    then have "\<forall>f \<in> set xs. t - f \<le> w" using Cons.prems by force
    then show ?thesis using False by simp
  qed (use Cons in simp)
qed simp

lemma limit_rel_blocked:
  assumes "limit_rel mx w l (now, h)" and "now \<le> t"
  shows "fst (blocked l ip t) = (mx \<le> length (filter (\<lambda>f. t - f \<le> w) (h ip)))" and "limit_rel mx w (snd (blocked l ip t)) (t, h)"
proof -
  have l: "lm_max l = mx" "lm_window l = w" using assms(1) by (simp_all add: limit_rel_def)
  have h: "sorted (h i)" "\<forall>f \<in> set (h i). f \<le> t" for i using assms by (force simp: limit_rel_def)+
  have old: "\<exists>old. h i = old @ lm_fails l i \<and> (\<forall>f \<in> set old. t - f > w)" for i
    using assms by (force simp: limit_rel_def)
  obtain o' where o': "h ip = o' @ lm_fails l ip" "\<forall>f \<in> set o'. t - f > w" using old by blast
  have "sorted (lm_fails l ip)" using h(1) [of ip] o'(1) by (simp add: sorted_append)
  moreover have "filter (\<lambda>f. t - f \<le> w) o' = []" using o'(2) by (fastforce simp: filter_empty_conv)
  ultimately have f: "filter (\<lambda>f. t - f \<le> w) (h ip) = dropWhile (\<lambda>f. t - f > w) (lm_fails l ip)"
    using o'(1) by (simp add: filter_recent)
  then show "fst (blocked l ip t) = (mx \<le> length (filter (\<lambda>f. t - f \<le> w) (h ip)))" by (simp add: blocked_def l Let_def)
  have split: "h ip = (o' @ takeWhile (\<lambda>f. t - f > w) (lm_fails l ip)) @ dropWhile (\<lambda>f. t - f > w) (lm_fails l ip)"
    "\<forall>f \<in> set (o' @ takeWhile (\<lambda>f. t - f > w) (lm_fails l ip)). t - f > w"
    using o' by (auto dest: set_takeWhileD)
  have "\<exists>old. h i = old @ ((lm_fails l)(ip := dropWhile (\<lambda>f. t - f > w) (lm_fails l ip))) i \<and> (\<forall>f \<in> set old. t - f > w)" for i
  proof (cases "i = ip")
    case True
    then show ?thesis using split by (metis fun_upd_same)
  qed (use old in simp)
  then show "limit_rel mx w (snd (blocked l ip t)) (t, h)"
    using h l by (auto simp: limit_rel_def blocked_def Let_def)
qed

lemma limit_step_sim:
  assumes "limit_rel mx w l a" and "fst a \<le> limit_time e"
  shows "snd (limit_step l e) = snd (spec_limit_step mx w a e) \<and> limit_rel mx w (fst (limit_step l e)) (fst (spec_limit_step mx w a e))"
proof -
  obtain now h where a: "a = (now, h)" by (cases a)
  show ?thesis
  proof (cases e)
    case (L_blocked ip t)
    have "now \<le> t" using assms(2) L_blocked a by simp
    from limit_rel_blocked [OF assms(1) [unfolded a] this, of ip] show ?thesis
      using L_blocked a by (auto simp: split_def Let_def)
  next
    case (L_fail ip t)
    then show ?thesis using assms unfolding a
      by (auto simp: limit_rel_def record_failure_def sorted_append) (fastforce+)
  next
    case (L_reset ip t)
    then show ?thesis using assms unfolding a by (fastforce simp: limit_rel_def limiter_reset_def)
  qed
qed

interpretation lim: clocked_simulation limit_step "spec_limit_step mx w" "limit_rel mx w" limit_time for mx w
proof unfold_locales
  show "fst (fst (spec_limit_step mx w a e)) = limit_time e" for a e by (cases a; cases e) auto
qed (rule limit_step_sim)

section \<open>Properties\<close>

text \<open>Toy stand-ins for the cryptographic functions, and an account.\<close>

definition toy_hmac :: "bytes \<Rightarrow> bytes \<Rightarrow> bytes" where
  "toy_hmac k m = take 4 (k @ m)"

definition toy_scrypt :: "bytes \<Rightarrow> bytes \<Rightarrow> nat \<Rightarrow> bytes option" where
  "toy_scrypt p s n = (if n = 0 then None else Some (take n (p @ s @ replicate n 0)))"

definition sample_account :: user where
  "sample_account = \<lparr>us_username = ascii ''ann'', us_password_hash = [], us_role = ascii ''admin'', us_pwd_version = 3, us_source = ascii ''local''\<rparr>"

definition sample_accounts :: app_config where
  "sample_accounts = sample_config\<lparr>ac_users := [sample_account]\<rparr>"

text \<open>C20: A session cookie signs its user in, and only that: the token issued for a user is accepted until it expires, as long
  as the account exists and its password version is the one signed, and then stands for that account; and any token that
  signs somebody in consists of a payload and the signature of that payload under the configured secret.\<close>
theorem session_sound:
  assumes "issue_session hmac (ac_secret_key cfg) issued ttl name v = Inr t" and "list_all scalar_value name"
  shows "session_user hmac pystr cfg now (Some t) =
      Inr (if issued + ttl \<le> now then None
           else case get_user cfg name of None \<Rightarrow> None | Some u \<Rightarrow> if us_pwd_version u = v then Some u else None) \<and>
    (session_user hmac pystr cfg now (Some other) = Inr (Some u') \<longrightarrow>
      (\<exists>payload sig. other = payload @ 46 # sig \<and> sign hmac (ac_secret_key cfg) payload = Inr sig))"
proof
  let ?d = "[(ascii ''exp'', AInt (issued + ttl)), (ascii ''u'', AStr name), (ascii ''v'', AInt v)]"
  have k: "ascii ''exp'' \<noteq> ascii ''u''" "ascii ''exp'' \<noteq> ascii ''v''" "ascii ''u'' \<noteq> ascii ''v''"
    "list_all scalar_value (ascii ''exp'')" "list_all scalar_value (ascii ''u'')" "list_all scalar_value (ascii ''v'')"
    by code_simp+
  have "flat_ok ?d" using assms(2) k by (simp add: flat_ok_def atom_ok_def)
  from unseal_seal [OF this assms(1) [unfolded issue_session_def], of "issued + ttl" now]
  have "unseal hmac (ac_secret_key cfg) now (Some t) =
      Inr (if issued + ttl \<le> now then None else Some (map (\<lambda>(k, v). (k, atom_json v)) ?d))" by simp
  then show "session_user hmac pystr cfg now (Some t) =
      Inr (if issued + ttl \<le> now then None
           else case get_user cfg name of None \<Rightarrow> None | Some u \<Rightarrow> if us_pwd_version u = v then Some u else None)"
    using k by (auto simp: session_user_def decode_session_def claim_int_def claim_str_def split: option.splits)
  show "session_user hmac pystr cfg now (Some other) = Inr (Some u') \<longrightarrow>
      (\<exists>payload sig. other = payload @ 46 # sig \<and> sign hmac (ac_secret_key cfg) payload = Inr sig)"
    using session_user_signed by blast
qed

theorem session_sound_witness:
  "\<exists>t. issue_session toy_hmac (ac_secret_key sample_accounts) 1000 60 (ascii ''ann'') 3 = Inr t \<and>
    session_user toy_hmac (\<lambda>_. []) sample_accounts 1059 (Some t) = Inr (Some sample_account) \<and>
    session_user toy_hmac (\<lambda>_. []) sample_accounts 1060 (Some t) = Inr None"
proof -
  have "case issue_session toy_hmac (ac_secret_key sample_accounts) 1000 60 (ascii ''ann'') 3 of Inr _ \<Rightarrow> True | Inl _ \<Rightarrow> False"
    by code_simp
  then obtain t where t: "issue_session toy_hmac (ac_secret_key sample_accounts) 1000 60 (ascii ''ann'') 3 = Inr t"
    by (auto split: sum.splits)
  have n: "list_all scalar_value (ascii ''ann'')" by code_simp
  have g: "get_user sample_accounts (ascii ''ann'') = Some sample_account" "us_pwd_version sample_account = 3" by code_simp+
  show ?thesis
    using t session_sound [OF t n, of "\<lambda>_. []" 1059] session_sound [OF t n, of "\<lambda>_. []" 1060] g by auto
qed

text \<open>A stored password hash accepts exactly the passwords that derive the same key: for any salt, checking a password
  against the hash stored for another one compares their scrypt keys, so the original password is always accepted.\<close>
theorem password_check:
  assumes "hash_password scrypt salt p = Some stored" and "utf8_encode p = Some b" and "utf8_encode p' = Some b'"
    and "\<forall>x s n k. scrypt x s n = Some k \<longrightarrow> length k = n"
  shows "verify_password scrypt p' stored \<longleftrightarrow> scrypt b' salt DKLEN = scrypt b salt DKLEN"
proof -
  from assms(1,2) obtain dk where dk: "scrypt b salt DKLEN = Some dk"
    and st: "stored = ascii ''scrypt'' @ 36 # hex_text salt @ 36 # hex_text dk"
    by (auto simp: hash_password_def)
  have no: "36 \<notin> set (ascii ''scrypt'')" by code_simp
  have "36 \<notin> set (hex_text x)" for x using hex_text_chars [of 36 x] by auto
  then have sp: "split_on 36 stored = [ascii ''scrypt'', hex_text salt, hex_text dk]"
    unfolding st using no by (simp add: split_on_append split_on_no_sep)
  have "length dk = DKLEN" using assms(4) dk by blast
  then show ?thesis using dk assms(3) by (simp add: verify_password_def sp)
qed

theorem password_check_witness:
  "\<exists>stored. hash_password toy_scrypt [1, 2] (ascii ''pw'') = Some stored \<and>
    verify_password toy_scrypt (ascii ''pw'') stored \<and> \<not> verify_password toy_scrypt (ascii ''no'') stored"
proof -
  have "case hash_password toy_scrypt [1, 2] (ascii ''pw'') of Some _ \<Rightarrow> True | None \<Rightarrow> False" by code_simp
  then obtain st where st: "hash_password toy_scrypt [1, 2] (ascii ''pw'') = Some st" by (auto split: option.splits)
  have b: "utf8_encode (ascii ''pw'') = Some [112, 119]" "utf8_encode (ascii ''no'') = Some [110, 111]" by code_simp+
  have l: "\<forall>x s n k. toy_scrypt x s n = Some k \<longrightarrow> length k = n"
    by (auto simp: toy_scrypt_def split: if_splits)
  have ne: "toy_scrypt [110, 111] [1, 2] DKLEN \<noteq> toy_scrypt [112, 119] [1, 2] DKLEN" by code_simp
  show ?thesis
    using st password_check [OF st b(1) b(1) l] password_check [OF st b(1) b(2) l] ne by blast
qed

text \<open>C36: The login rate limiter implements its specification: on any history of checks, failures and resets with a clock that
  does not go back, it answers that an address is blocked exactly when at least \<open>max_attempts\<close> of all the failures
  recorded for that address since its last reset lie within the window, although it forgets failures as it goes.\<close>
theorem limiter_refines:
  assumes "sorted (map limit_time es)"
  shows "run_answers limit_step \<lparr>lm_max = mx, lm_window = w, lm_fails = (\<lambda>_. [])\<rparr> es =
    run_answers (spec_limit_step mx w) (Min (set (0 # map limit_time es)), \<lambda>_. []) es"
proof -
  have "limit_rel mx w \<lparr>lm_max = mx, lm_window = w, lm_fails = (\<lambda>_. [])\<rparr> (Min (set (0 # map limit_time es)), \<lambda>_. [])"
    by (simp add: limit_rel_def)
  then show ?thesis by (rule lim.run_clocked) (simp_all add: assms)
qed

theorem limiter_refines_witness:
  "run_answers limit_step \<lparr>lm_max = 2, lm_window = 10, lm_fails = (\<lambda>_. [])\<rparr>
     [L_fail [1] 0, L_fail [1] 4, L_blocked [1] 5, L_blocked [1] 12, L_reset [1] 13, L_blocked [1] 13]
   = [None, None, Some True, Some False, None, Some False]"
proof -
  let ?es = "[L_fail [1] 0, L_fail [1] 4, L_blocked [1] 5, L_blocked [1] 12, L_reset [1] 13, L_blocked [1] 13]"
  have "sorted (map limit_time ?es)" by simp
  from limiter_refines [OF this, of 2 10] show ?thesis by simp
qed

end
