(* ===== verification/Cluster.thy ===== *)
theory Cluster
  imports Auth Simulation Dict "HOL-Library.List_Lexorder" "HOL-Library.Product_Lexorder"
begin

text \<open>
  LAN discovery of other nodes (\<open>app/engine/cluster.py\<close>): the signed beacon, the reading of a datagram, the peer
  table with its expiry, the targets a view may ask and the addresses the control proxy may reach. HMAC, the clock,
  the host name, \<open>str\<close> of a value that is no string, \<open>str.lower\<close> and the addresses of the host are parameters; the
  peer dictionary is an association list in insertion order. The log lines are left out.
\<close>

section \<open>State\<close>

definition BEACON_INTERVAL :: real where "BEACON_INTERVAL = 5"
definition PEER_TTL :: real where "PEER_TTL = 20"

definition LOOPBACK :: "str list" where
  "LOOPBACK = [ascii ''0.0.0.0'', ascii ''::'', ascii ''127.0.0.1'', ascii ''localhost'', []]"

record peer =
  pe_id :: str
  pe_name :: str
  pe_ip :: str
  pe_port :: int
  pe_scheme :: str
  pe_last_seen :: real

record discovery =
  di_listening :: bool
  di_beacon_task :: bool
  di_peers :: "(str \<times> peer) list"
  di_running :: bool
  di_error :: str

definition discovery_init :: discovery where
  "discovery_init = \<lparr>di_listening = False, di_beacon_task = False, di_peers = [], di_running = False, di_error = []\<rparr>"

text \<open>What the handling of a datagram or of the settings can raise.\<close>

datatype cluster_error = BodyNotText | CannotEncode | SignatureNotAscii | BodyNotObject | BadPort

section \<open>The beacon\<close>

definition cluster_sign :: "(bytes \<Rightarrow> bytes \<Rightarrow> bytes) \<Rightarrow> str \<Rightarrow> str \<Rightarrow> cluster_error + str" where
  "cluster_sign hmac key body =
     (case (utf8_encode key, utf8_encode body) of
        (Some k, Some b) \<Rightarrow> Inr (hex_text (hmac k b))
      | _ \<Rightarrow> Inl CannotEncode)"

text \<open>\<open>primary_lan_ip\<close>: \<open>sockname\<close> is the source address the host would use, \<open>None\<close> when it has no route.\<close>

definition primary_lan_ip :: "str option \<Rightarrow> str option" where
  "primary_lan_ip sockname =
     (case sockname of None \<Rightarrow> None
      | Some ip \<Rightarrow> if is_prefix_of (ascii ''127.'') ip then None else Some ip)"

definition advertised :: "str option \<Rightarrow> app_config \<Rightarrow> str \<times> int \<times> str" where
  "advertised sockname cfg =
     (let ui = ac_admin_ui cfg;
          ip0 = strip (cl_advertise_ip (ac_cluster cfg));
          bind = strip (ui_bind_ip ui);
          ip = (if ip0 \<noteq> [] then ip0
                else if bind \<notin> set LOOPBACK then bind
                else case primary_lan_ip sockname of
                  Some a \<Rightarrow> if a = [] then ascii ''127.0.0.1'' else a
                | None \<Rightarrow> ascii ''127.0.0.1'') in
      (ip, ui_port ui, if tls_enabled ui then ascii ''https'' else ascii ''http''))"

text \<open>The payload, its keys in the order \<open>sort_keys\<close> gives them.\<close>

definition beacon_payload :: "str option \<Rightarrow> str \<Rightarrow> int \<Rightarrow> app_config \<Rightarrow> (str \<times> jatom) list" where
  "beacon_payload sockname hostname now cfg =
     (let (ip, port, scheme) = advertised sockname cfg in
      [(ascii ''id'', AStr (ac_instance_id cfg)), (ascii ''ip'', AStr ip), (ascii ''name'', AStr hostname),
       (ascii ''port'', AInt port), (ascii ''scheme'', AStr scheme), (ascii ''t'', AInt now), (ascii ''v'', AInt 1)])"

definition make_beacon :: "(bytes \<Rightarrow> bytes \<Rightarrow> bytes) \<Rightarrow> str option \<Rightarrow> str \<Rightarrow> int \<Rightarrow> app_config \<Rightarrow> cluster_error + bytes" where
  "make_beacon hmac sockname hostname now cfg =
     (let body = json_dumps [44] [58] (beacon_payload sockname hostname now cfg) in
      rbind (cluster_sign hmac (cl_key (ac_cluster cfg)) body) (\<lambda>s.
      case utf8_encode (json_dumps [44, 32] [58, 32] [(ascii ''d'', AStr body), (ascii ''s'', AStr s)]) of
        None \<Rightarrow> Inl CannotEncode
      | Some b \<Rightarrow> Inr b))"

text \<open>\<open>str(p.get(key, default))\<close>.\<close>

definition get_str :: "(json \<Rightarrow> str) \<Rightarrow> (str \<times> json) list \<Rightarrow> str \<Rightarrow> str \<Rightarrow> str" where
  "get_str pystr d k dflt = (case map_of d k of None \<Rightarrow> dflt | Some (JStr s) \<Rightarrow> s | Some v \<Rightarrow> pystr v)"

text \<open>\<open>int(p.get("port", 0) or 0)\<close>.\<close>

definition beacon_port :: "(str \<times> json) list \<Rightarrow> cluster_error + int" where
  "beacon_port d =
     (case map_of d (ascii ''port'') of
        None \<Rightarrow> Inr 0
      | Some JNull \<Rightarrow> Inr 0
      | Some (JInt i) \<Rightarrow> Inr i
      | Some (JBool b) \<Rightarrow> Inr (of_bool b)
      | Some (JStr s) \<Rightarrow> if s = [] then Inr 0 else (case py_int s of Some i \<Rightarrow> Inr i | None \<Rightarrow> Inl BadPort)
      | Some (JFloat f) \<Rightarrow> (case f64_trunc f of Some i \<Rightarrow> Inr i | None \<Rightarrow> Inl BadPort)
      | Some (JList l) \<Rightarrow> if l = [] then Inr 0 else Inl BadPort
      | Some (JDict l) \<Rightarrow> if l = [] then Inr 0 else Inl BadPort)"

text \<open>\<open>p.get("scheme") if p.get("scheme") in ("http", "https") else "http"\<close>.\<close>

definition beacon_scheme :: "(str \<times> json) list \<Rightarrow> str" where
  "beacon_scheme d = (if map_of d (ascii ''scheme'') = Some (JStr (ascii ''https'')) then ascii ''https'' else ascii ''http'')"

text \<open>\<open>env["d"], env["s"]\<close> of a datagram: everything that is not JSON text of an object with both keys is dropped.\<close>

definition envelope :: "bytes \<Rightarrow> (json \<times> json) option" where
  "envelope data =
     (case utf8_decode data of
        None \<Rightarrow> None
      | Some t \<Rightarrow>
          (case json_loads t of
             Some (JDict env) \<Rightarrow>
               (case (map_of env (ascii ''d''), map_of env (ascii ''s'')) of
                  (Some d, Some s) \<Rightarrow> Some (d, s) | _ \<Rightarrow> None)
           | _ \<Rightarrow> None))"

text \<open>The peer that the verified object of a beacon announces; \<open>addr\<close> is the source address of the packet.\<close>

definition beacon_peer :: "(json \<Rightarrow> str) \<Rightarrow> app_config \<Rightarrow> (str \<times> json) list \<Rightarrow> str option \<Rightarrow> real \<Rightarrow> cluster_error + peer option" where
  "beacon_peer pystr cfg p addr now =
     (let pid = get_str pystr p (ascii ''id'') [];
          ip0 = strip (get_str pystr p (ascii ''ip'') []);
          ip = (if ip0 \<in> set LOOPBACK then (case addr of Some a \<Rightarrow> a | None \<Rightarrow> ip0) else ip0) in
      if pid = [] \<or> pid = ac_instance_id cfg then Inr None
      else rbind (beacon_port p) (\<lambda>port.
        Inr (Some \<lparr>pe_id = pid, pe_name = get_str pystr p (ascii ''name'') (ascii ''?''), pe_ip = ip,
          pe_port = port, pe_scheme = beacon_scheme p, pe_last_seen = now\<rparr>)))"

text \<open>\<open>str(sig)\<close> is the text itself for a string.\<close>

definition json_text :: "(json \<Rightarrow> str) \<Rightarrow> json \<Rightarrow> str" where
  "json_text pystr v = (case v of JStr x \<Rightarrow> x | w \<Rightarrow> pystr w)"

definition read_beacon :: "(bytes \<Rightarrow> bytes \<Rightarrow> bytes) \<Rightarrow> (json \<Rightarrow> str) \<Rightarrow> app_config \<Rightarrow> bytes \<Rightarrow> str option \<Rightarrow> real \<Rightarrow>
    cluster_error + peer option" where
  "read_beacon hmac pystr cfg data addr now =
     (let key = cl_key (ac_cluster cfg) in
      if key = [] then Inr None
      else case envelope data of
        None \<Rightarrow> Inr None
      | Some (JStr body, sig) \<Rightarrow>
          rbind (cluster_sign hmac key body) (\<lambda>s.
          case compare_digest s (json_text pystr sig) of
            Inl _ \<Rightarrow> Inl SignatureNotAscii
          | Inr same \<Rightarrow>
              if \<not> same then Inr None
              else case json_loads body of
                None \<Rightarrow> Inr None
              | Some (JDict p) \<Rightarrow> beacon_peer pystr cfg p addr now
              | Some _ \<Rightarrow> Inl BodyNotObject)
      | Some (_, sig) \<Rightarrow> Inl BodyNotText)"

definition handle_datagram :: "(bytes \<Rightarrow> bytes \<Rightarrow> bytes) \<Rightarrow> (json \<Rightarrow> str) \<Rightarrow> app_config \<Rightarrow> discovery \<Rightarrow> bytes \<Rightarrow> str option \<Rightarrow> real \<Rightarrow>
    cluster_error + discovery" where
  "handle_datagram hmac pystr cfg s data addr now =
     rbind (read_beacon hmac pystr cfg data addr now) (\<lambda>r.
     Inr (case r of None \<Rightarrow> s | Some p \<Rightarrow> s\<lparr>di_peers := AList.update (pe_id p) p (di_peers s)\<rparr>))"

section \<open>Peers and targets\<close>

definition live_peers :: "real \<Rightarrow> discovery \<Rightarrow> peer list" where
  "live_peers now s = filter (\<lambda>p. now - pe_last_seen p \<le> PEER_TTL) (map snd (di_peers s))"

definition dict_of :: "peer list \<Rightarrow> (str \<times> peer) list" where
  "dict_of ps = fold (\<lambda>p d. AList.update (pe_id p) p d) ps []"

definition peers :: "(str \<Rightarrow> str) \<Rightarrow> real \<Rightarrow> discovery \<Rightarrow> peer list \<times> discovery" where
  "peers lower now s =
     (let live = live_peers now s in
      (sort_key (\<lambda>p. (lower (pe_name p), pe_ip p)) live, s\<lparr>di_peers := dict_of live\<rparr>))"

datatype target = Auto peer | Manual (tg_scheme: str) (tg_ip: str) (tg_port: int)

fun target_addr :: "target \<Rightarrow> str \<times> int" where
  "target_addr (Auto p) = (pe_ip p, pe_port p)"
| "target_addr (Manual scheme ip port) = (ip, port)"

definition manual_targets :: "app_config \<Rightarrow> target list" where
  "manual_targets cfg = concat (map (\<lambda>entry. case parse_cluster_peer entry of
       Inl _ \<Rightarrow> [] | Inr (scheme, host, port) \<Rightarrow> [Manual scheme host port]) (cl_peers (ac_cluster cfg)))"

fun new_targets :: "(str \<times> int) set \<Rightarrow> target list \<Rightarrow> target list" where
  "new_targets seen [] = []"
| "new_targets seen (m # ms) =
     (if target_addr m \<notin> seen then m # new_targets (insert (target_addr m) seen) ms else new_targets seen ms)"

definition all_targets :: "(str \<Rightarrow> str) \<Rightarrow> app_config \<Rightarrow> real \<Rightarrow> discovery \<Rightarrow> target list \<times> discovery" where
  "all_targets lower cfg now s =
     (let (ps, s') = peers lower now s; autos = map Auto ps in
      (autos @ new_targets (set (map target_addr autos)) (manual_targets cfg), s'))"

definition known_addresses :: "(str \<Rightarrow> str) \<Rightarrow> app_config \<Rightarrow> real \<Rightarrow> discovery \<Rightarrow> (str \<times> int) set \<times> discovery" where
  "known_addresses lower cfg now s =
     (let (ts, s') = all_targets lower cfg now s in (set (map target_addr ts), s'))"

section \<open>Lifecycle\<close>

text \<open>The result of binding the socket and of creating the endpoint is \<open>None\<close>, or the text of the \<open>OSError\<close>.\<close>

definition start_discovery :: "app_config \<Rightarrow> str option \<Rightarrow> str option \<Rightarrow> discovery \<Rightarrow> cluster_error + discovery" where
  "start_discovery cfg bind_result endpoint_result s =
     (if di_running s \<or> \<not> cluster_active (ac_cluster cfg) then Inr s
      else case to_int (cl_discovery_port (ac_cluster cfg)) of
        None \<Rightarrow> Inl BadPort
      | Some port \<Rightarrow>
          (case bind_result of
             Some e \<Rightarrow> Inr (s\<lparr>di_error := ascii ''UDP discovery port '' @ dec_str port @ ascii '' unavailable: '' @ e\<rparr>)
           | None \<Rightarrow>
               (case endpoint_result of
                  Some e \<Rightarrow> Inr (s\<lparr>di_error := ascii ''UDP listener on '' @ dec_str port @ ascii '' failed: '' @ e\<rparr>)
                | None \<Rightarrow> Inr (s\<lparr>di_error := [], di_listening := True, di_running := True, di_beacon_task := True\<rparr>))))"

definition stop_discovery :: "discovery \<Rightarrow> discovery" where
  "stop_discovery s = s\<lparr>di_running := False, di_beacon_task := False, di_listening := False, di_peers := []\<rparr>"

text \<open>Addresses in order, each once, empty ones dropped. \<open>nics\<close> are the interfaces with, for each address, whether
  it is IPv4 and its broadcast address; \<open>None\<close> when they cannot be listed.\<close>

fun each_once :: "str set \<Rightarrow> str list \<Rightarrow> str list" where
  "each_once seen [] = []"
| "each_once seen (a # as) =
     (if a \<noteq> [] \<and> a \<notin> seen then a # each_once (insert a seen) as else each_once seen as)"

definition broadcast_addrs :: "(bool \<times> str option) list list option \<Rightarrow> str list" where
  "broadcast_addrs nics =
     each_once {} (ascii ''255.255.255.255'' #
       (case nics of None \<Rightarrow> []
        | Some ns \<Rightarrow> concat (map (\<lambda>nic. concat (map (\<lambda>(inet, b). case b of
             Some a \<Rightarrow> if inet \<and> a \<noteq> [] then [a] else [] | None \<Rightarrow> []) nic)) ns)))"

text \<open>\<open>_broadcast\<close>: the datagrams handed to the socket. An error of one send is ignored.\<close>

definition beacon_sends :: "(bytes \<Rightarrow> bytes \<Rightarrow> bytes) \<Rightarrow> str option \<Rightarrow> str \<Rightarrow> (bool \<times> str option) list list option \<Rightarrow> int \<Rightarrow>
    app_config \<Rightarrow> discovery \<Rightarrow> cluster_error + (bytes \<times> str \<times> int) list" where
  "beacon_sends hmac sockname hostname nics now cfg s =
     (if \<not> di_listening s then Inr []
      else rbind (make_beacon hmac sockname hostname now cfg) (\<lambda>msg.
        case to_int (cl_discovery_port (ac_cluster cfg)) of
          None \<Rightarrow> Inl BadPort
        | Some port \<Rightarrow> Inr (map (\<lambda>a. (msg, a, port)) (broadcast_addrs nics))))"

text \<open>The address of a request to a peer, and whether a TLS context (without certificate checks) is used.\<close>

definition peer_url :: "str \<Rightarrow> str \<Rightarrow> int \<Rightarrow> str \<Rightarrow> str" where
  "peer_url scheme host port path = scheme @ ascii ''://'' @ host @ ascii '':'' @ dec_str port @ path"

definition peer_uses_tls :: "str \<Rightarrow> bool" where
  "peer_uses_tls url \<longleftrightarrow> is_prefix_of (ascii ''https'') url"

definition fetch_url :: "target \<Rightarrow> str" where
  "fetch_url t = (case t of
       Auto p \<Rightarrow> peer_url (pe_scheme p) (pe_ip p) (pe_port p) (ascii ''/api/cluster/local'')
     | Manual scheme ip port \<Rightarrow> peer_url scheme ip port (ascii ''/api/cluster/local''))"

section \<open>Lemmas: the peer table\<close>

text \<open>The table is a dictionary from a peer's id to the peer.\<close>

definition table_ok :: "(str \<times> peer) list \<Rightarrow> bool" where
  "table_ok d \<longleftrightarrow> distinct (map fst d) \<and> list_all (\<lambda>(k, p). k = pe_id p) d"

lemma table_ok_pairs: "table_ok d \<Longrightarrow> map (\<lambda>p. (pe_id p, p)) (map snd d) = d"
  by (induction d) (auto simp: table_ok_def)

lemma table_ok_update [intro]: "table_ok d \<Longrightarrow> table_ok (AList.update (pe_id p) p d)"
  using set_update_subset [of "pe_id p" p d] by (fastforce simp: table_ok_def list_all_iff distinct_update)

lemma table_ok_filter [intro]: "table_ok d \<Longrightarrow> table_ok (filter P d)"
  by (auto simp: table_ok_def list_all_iff distinct_map_filter)

lemma dict_of_distinct:
  "distinct (map pe_id ps) \<Longrightarrow> (\<forall>p \<in> set ps. pe_id p \<notin> fst ` set d) \<Longrightarrow>
    fold (\<lambda>p d. AList.update (pe_id p) p d) ps d = d @ map (\<lambda>p. (pe_id p, p)) ps"
proof (induction ps arbitrary: d)
  case (Cons p ps)
  from Cons.prems have "fold (\<lambda>p d. AList.update (pe_id p) p d) ps (d @ [(pe_id p, p)]) = (d @ [(pe_id p, p)]) @ map (\<lambda>p. (pe_id p, p)) ps"
    by (intro Cons.IH) (auto simp: image_iff)
  then show ?case using Cons.prems by (simp add: update_new)
qed simp

lemma prune_table:
  assumes "table_ok (di_peers s)"
  shows "dict_of (live_peers now s) = filter (\<lambda>(k, p). now - pe_last_seen p \<le> PEER_TTL) (di_peers s)" (is "_ = ?d")
proof -
  have ok: "table_ok ?d" using assms by blast
  have l: "live_peers now s = map snd ?d" by (simp add: live_peers_def filter_map comp_def split_def)
  have ids: "map pe_id (map snd ?d) = map fst ?d" using ok by (auto simp: table_ok_def list_all_iff)
  have "dict_of (live_peers now s) = map (\<lambda>p. (pe_id p, p)) (map snd ?d)"
    unfolding dict_of_def l by (subst dict_of_distinct) (use ok in \<open>simp_all only: ids table_ok_def, simp_all\<close>)
  then show ?thesis using table_ok_pairs [OF ok] by simp
qed

lemma table_ok_map_of: "table_ok d \<Longrightarrow> p \<in> snd ` set d \<longleftrightarrow> map_of d (pe_id p) = Some p"
  by (force simp: table_ok_def list_all_iff)

section \<open>Refinement: the peers heard from\<close>

datatype cluster_event = Datagram bytes "str option" real | Ask_peers real

fun event_time :: "cluster_event \<Rightarrow> real" where
  "event_time (Datagram data addr t) = t"
| "event_time (Ask_peers t) = t"

fun cluster_step :: "(bytes \<Rightarrow> bytes \<Rightarrow> bytes) \<Rightarrow> (json \<Rightarrow> str) \<Rightarrow> (str \<Rightarrow> str) \<Rightarrow> app_config \<Rightarrow> discovery \<Rightarrow> cluster_event \<Rightarrow>
    discovery \<times> (cluster_error + peer set)" where
  "cluster_step hmac pystr lower cfg s (Datagram data addr t) =
     (case handle_datagram hmac pystr cfg s data addr t of Inl e \<Rightarrow> (s, Inl e) | Inr s' \<Rightarrow> (s', Inr {}))"
| "cluster_step hmac pystr lower cfg s (Ask_peers t) = (let (ps, s') = peers lower t s in (s', Inr (set ps)))"

text \<open>The specification remembers the last accepted beacon of every node for ever; the live ones are those heard within
  the last \<open>PEER_TTL\<close> seconds.\<close>

type_synonym heard = "real \<times> (str \<rightharpoonup> peer)"

fun heard_step :: "(bytes \<Rightarrow> bytes \<Rightarrow> bytes) \<Rightarrow> (json \<Rightarrow> str) \<Rightarrow> app_config \<Rightarrow> heard \<Rightarrow> cluster_event \<Rightarrow>
    heard \<times> (cluster_error + peer set)" where
  "heard_step hmac pystr cfg (now, h) (Datagram data addr t) =
     (case read_beacon hmac pystr cfg data addr t of
        Inl e \<Rightarrow> ((t, h), Inl e)
      | Inr None \<Rightarrow> ((t, h), Inr {})
      | Inr (Some p) \<Rightarrow> ((t, h(pe_id p \<mapsto> p)), Inr {}))"
| "heard_step hmac pystr cfg (now, h) (Ask_peers t) = ((t, h), Inr {p \<in> ran h. t - pe_last_seen p \<le> PEER_TTL})"

definition heard_rel :: "discovery \<Rightarrow> heard \<Rightarrow> bool" where
  "heard_rel s a \<longleftrightarrow> table_ok (di_peers s) \<and>
     (\<forall>k p. snd a k = Some p \<longrightarrow> pe_id p = k \<and> pe_last_seen p \<le> fst a) \<and>
     (\<forall>k. map_of (di_peers s) k = snd a k \<or>
       map_of (di_peers s) k = None \<and> (\<exists>p. snd a k = Some p \<and> fst a - pe_last_seen p > PEER_TTL))"

text \<open>What an accepted beacon has: a body signed with the shared key.\<close>

lemma read_beacon_parts:
  assumes "read_beacon hmac pystr cfg data addr t = Inr (Some p)"
  obtains body sig where "cl_key (ac_cluster cfg) \<noteq> []" "envelope data = Some (JStr body, sig)"
    "cluster_sign hmac (cl_key (ac_cluster cfg)) body = Inr (json_text pystr sig)"
    "pe_id p \<noteq> []" "pe_id p \<noteq> ac_instance_id cfg" "pe_last_seen p = t"
proof -
  let ?key = "cl_key (ac_cluster cfg)"
  have k: "?key \<noteq> []" using assms by (auto simp: read_beacon_def)
  obtain d sig where e: "envelope data = Some (d, sig)" using assms k by (auto simp: read_beacon_def split: option.splits)
  obtain body where d: "d = JStr body" using assms k e by (cases d) (simp_all add: read_beacon_def)
  obtain s where s: "cluster_sign hmac ?key body = Inr s" using assms k e d by (auto simp: read_beacon_def rbind_eq_Inr)
  have c: "compare_digest s (json_text pystr sig) = Inr True"
    using assms k e d s by (auto simp: read_beacon_def rbind_def split: sum.splits if_splits)
  then have st: "s = json_text pystr sig" by (auto simp: compare_digest_def split: if_splits)
  have "\<exists>q. beacon_peer pystr cfg q addr t = Inr (Some p)"
    using assms k e d s c by (auto simp: read_beacon_def rbind_def split: option.splits json.splits)
  then have "pe_id p \<noteq> []" "pe_id p \<noteq> ac_instance_id cfg" "pe_last_seen p = t"
    by (auto simp: beacon_peer_def Let_def rbind_eq_Inr split: if_splits)
  then show thesis using that k e d s st by blast
qed

lemma heard_rel_later: "heard_rel s (now, h) \<Longrightarrow> now \<le> t \<Longrightarrow> heard_rel s (t, h)"
  by (force simp: heard_rel_def)

lemma heard_rel_beacon:
  assumes "heard_rel s (t, h)" and "pe_last_seen p = t"
  shows "heard_rel (s\<lparr>di_peers := AList.update (pe_id p) p (di_peers s)\<rparr>) (t, h(pe_id p \<mapsto> p))"
  using assms by (auto simp: heard_rel_def update_conv')

lemma peers_set: "table_ok (di_peers s) \<Longrightarrow>
    p \<in> set (fst (peers lower t s)) \<longleftrightarrow> map_of (di_peers s) (pe_id p) = Some p \<and> t - pe_last_seen p \<le> PEER_TTL"
  by (auto simp: peers_def live_peers_def Let_def table_ok_map_of [symmetric])

lemma peers_table: "table_ok (di_peers s) \<Longrightarrow>
    di_peers (snd (peers lower t s)) = filter (\<lambda>(k, p). t - pe_last_seen p \<le> PEER_TTL) (di_peers s)"
  by (simp add: peers_def Let_def prune_table)

lemma map_of_filter_snd:
  "distinct (map fst d) \<Longrightarrow> map_of (filter (\<lambda>(k, v). P v) d) k = (case map_of d k of Some v \<Rightarrow> if P v then Some v else None | None \<Rightarrow> None)"
proof (induction d)
  case (Cons x d)
  then show ?case
    by (cases x) (auto simp: map_of_eq_None_iff split: option.splits)
qed simp

lemma heard_rel_ask:
  assumes "heard_rel s (t, h)"
  shows "set (fst (peers lower t s)) = {p \<in> ran h. t - pe_last_seen p \<le> PEER_TTL}"
    and "heard_rel (snd (peers lower t s)) (t, h)"
proof -
  have ok: "table_ok (di_peers s)" and d: "distinct (map fst (di_peers s))" using assms by (simp_all add: heard_rel_def table_ok_def)
  have h: "\<And>k p. h k = Some p \<Longrightarrow> pe_id p = k" using assms by (auto simp: heard_rel_def)
  have rel: "map_of (di_peers s) k = h k \<or> map_of (di_peers s) k = None \<and> (\<exists>p. h k = Some p \<and> t - pe_last_seen p > PEER_TTL)" for k
    using assms by (auto simp: heard_rel_def)
  show "set (fst (peers lower t s)) = {p \<in> ran h. t - pe_last_seen p \<le> PEER_TTL}"
  proof (rule set_eqI)
    fix p
    have "p \<in> ran h \<longleftrightarrow> h (pe_id p) = Some p" using h by (auto simp: ran_def)
    then show "p \<in> set (fst (peers lower t s)) \<longleftrightarrow> p \<in> {p \<in> ran h. t - pe_last_seen p \<le> PEER_TTL}"
      using rel [of "pe_id p"] by (auto simp: peers_set [OF ok])
  qed
  have "table_ok (di_peers (snd (peers lower t s)))" using ok by (simp add: peers_table) blast
  moreover have "map_of (di_peers (snd (peers lower t s))) k = h k \<or>
      map_of (di_peers (snd (peers lower t s))) k = None \<and> (\<exists>p. h k = Some p \<and> t - pe_last_seen p > PEER_TTL)" for k
    using rel [of k] by (cases "h k") (auto simp: peers_table [OF ok] map_of_filter_snd [OF d] split: option.splits)
  ultimately show "heard_rel (snd (peers lower t s)) (t, h)" using assms by (auto simp: heard_rel_def)
qed

lemma cluster_step_sim:
  assumes "heard_rel s a" and "fst a \<le> event_time e"
  shows "snd (cluster_step hmac pystr lower cfg s e) = snd (heard_step hmac pystr cfg a e) \<and>
    heard_rel (fst (cluster_step hmac pystr lower cfg s e)) (fst (heard_step hmac pystr cfg a e))"
proof -
  obtain now h where a: "a = (now, h)" by (cases a)
  have r: "heard_rel s (event_time e, h)" using heard_rel_later assms a by simp
  show ?thesis
  proof (cases e)
    case (Datagram data addr t)
    show ?thesis
    proof (cases "read_beacon hmac pystr cfg data addr t")
      case (Inr b)
      then show ?thesis using r Datagram a heard_rel_beacon [of s t h] read_beacon_parts [of hmac pystr cfg data addr t]
        by (cases b) (simp_all add: handle_datagram_def rbind_def, metis)
    qed (use r Datagram a in \<open>simp add: handle_datagram_def rbind_def\<close>)
  next
    case (Ask_peers t)
    then show ?thesis using heard_rel_ask [of s t h lower] r a by (simp add: split_def)
  qed
qed

interpretation lan: clocked_simulation "cluster_step hmac pystr lower cfg" "heard_step hmac pystr cfg" heard_rel event_time
  for hmac pystr lower cfg
proof unfold_locales
  show "fst (fst (heard_step hmac pystr cfg a e)) = event_time e" for a e
    by (cases a; cases e) (auto split: sum.splits option.splits)
qed (rule cluster_step_sim)

section \<open>Lemmas: reading a beacon back\<close>

lemma make_beacon_envelope:
  assumes "make_beacon hmac sockname hostname t cfg = Inr b"
  obtains s where "cluster_sign hmac (cl_key (ac_cluster cfg)) (json_dumps [44] [58] (beacon_payload sockname hostname t cfg)) = Inr s"
    "envelope b = Some (JStr (json_dumps [44] [58] (beacon_payload sockname hostname t cfg)), JStr s)"
    "list_all (\<lambda>c. c < 128) s"
proof -
  let ?body = "json_dumps [44] [58] (beacon_payload sockname hostname t cfg)"
  let ?env = "\<lambda>s. [(ascii ''d'', AStr ?body), (ascii ''s'', AStr s)]"
  from assms obtain s where s: "cluster_sign hmac (cl_key (ac_cluster cfg)) ?body = Inr s"
    and b: "utf8_encode (json_dumps [44, 32] [58, 32] (?env s)) = Some b"
    by (auto simp: make_beacon_def Let_def rbind_eq_Inr split: option.splits)
  from s obtain k x where kx: "s = hex_text (hmac k x)" and body: "list_all scalar_value ?body"
    by (auto simp: cluster_sign_def utf8_encode_def split: option.splits if_splits)
  have "list_all scalar_value s \<and> list_all (\<lambda>c. c < 128) s"
    unfolding kx by (auto simp: list_all_iff scalar_value_def dest: hex_text_chars)
  moreover have "list_all scalar_value (ascii ''d'')" "list_all scalar_value (ascii ''s'')" "ascii ''d'' \<noteq> ascii ''s''"
    by code_simp+
  ultimately have "json_loads (json_dumps [44, 32] [58, 32] (?env s)) = Some (JDict (map (\<lambda>(k, v). (k, atom_json v)) (?env s)))"
    using body by (intro json_loads_dumps) (auto simp: atom_ok_def sep_ok_def)
  then have "envelope b = Some (JStr ?body, JStr s)"
    using \<open>ascii ''d'' \<noteq> ascii ''s''\<close> by (auto simp: envelope_def utf8_decode_encode [OF b])
  then show thesis using that s \<open>list_all scalar_value s \<and> _\<close> by blast
qed

lemma beacon_payload_loads:
  assumes "list_all scalar_value (ac_instance_id cfg)" and "list_all scalar_value hostname"
    and "advertised sockname cfg = (ip, port, scheme)" and "list_all scalar_value ip"
  shows "json_loads (json_dumps [44] [58] (beacon_payload sockname hostname t cfg)) =
    Some (JDict [(ascii ''id'', JStr (ac_instance_id cfg)), (ascii ''ip'', JStr ip), (ascii ''name'', JStr hostname),
       (ascii ''port'', JInt port), (ascii ''scheme'', JStr scheme), (ascii ''t'', JInt t), (ascii ''v'', JInt 1)])"
proof -
  have keys: "list_all (list_all scalar_value) (map fst (beacon_payload sockname hostname t cfg)) \<and>
      distinct (map fst (beacon_payload sockname hostname t cfg))"
    unfolding beacon_payload_def assms(3) by simp code_simp
  have scheme: "scheme = ascii ''http'' \<or> scheme = ascii ''https''" using assms(3) by (auto simp: advertised_def Let_def)
  have "list_all scalar_value (ascii ''http'')" "list_all scalar_value (ascii ''https'')" by code_simp+
  then have "list_all (\<lambda>v. atom_ok v) (map snd (beacon_payload sockname hostname t cfg))"
    using assms scheme by (auto simp: beacon_payload_def atom_ok_def)
  then have "json_loads (json_dumps [44] [58] (beacon_payload sockname hostname t cfg)) =
      Some (JDict (map (\<lambda>(k, v). (k, atom_json v)) (beacon_payload sockname hostname t cfg)))"
    using keys by (intro json_loads_dumps) (auto simp: list_all_iff sep_ok_def beacon_payload_def assms(3))
  then show ?thesis by (simp add: beacon_payload_def assms(3))
qed

section \<open>Lemmas: what a run has heard\<close>

text \<open>The peer an event announces, when it is a datagram that is accepted.\<close>

definition announced :: "(bytes \<Rightarrow> bytes \<Rightarrow> bytes) \<Rightarrow> (json \<Rightarrow> str) \<Rightarrow> app_config \<Rightarrow> cluster_event \<Rightarrow> peer option" where
  "announced hmac pystr cfg e = (case e of
       Datagram data addr t \<Rightarrow> (case read_beacon hmac pystr cfg data addr t of Inr r \<Rightarrow> r | Inl _ \<Rightarrow> None)
     | Ask_peers t \<Rightarrow> None)"

lemma heard_step_table:
  "snd (fst (heard_step hmac pystr cfg a e)) =
     (case announced hmac pystr cfg e of None \<Rightarrow> snd a | Some p \<Rightarrow> (snd a)(pe_id p \<mapsto> p))"
  by (cases a; cases e) (auto simp: announced_def split: sum.splits option.splits)

lemma heard_announced:
  "snd (run_state (heard_step hmac pystr cfg) a es) k = Some p \<Longrightarrow>
    snd a k = Some p \<or> pe_id p = k \<and> Some p \<in> announced hmac pystr cfg ` set es"
proof (induction es arbitrary: a)
  case (Cons e es)
  from Cons.IH [of "fst (heard_step hmac pystr cfg a e)"] Cons.prems
  have "snd (fst (heard_step hmac pystr cfg a e)) k = Some p \<or> pe_id p = k \<and> Some p \<in> announced hmac pystr cfg ` set es"
    by simp
  then show ?case by (cases "announced hmac pystr cfg e") (auto simp: heard_step_table split: if_splits)
qed simp

lemma heard_keeps:
  "snd a k = Some p \<Longrightarrow> \<forall>e \<in> set es. map_option pe_id (announced hmac pystr cfg e) \<noteq> Some k \<Longrightarrow>
    snd (run_state (heard_step hmac pystr cfg) a es) k = Some p"
proof (induction es arbitrary: a)
  case (Cons e es)
  then have "snd (fst (heard_step hmac pystr cfg a e)) k = Some p" by (auto simp: heard_step_table split: option.splits)
  then show ?case using Cons by simp
qed simp

definition run_cluster :: "(bytes \<Rightarrow> bytes \<Rightarrow> bytes) \<Rightarrow> (json \<Rightarrow> str) \<Rightarrow> (str \<Rightarrow> str) \<Rightarrow> app_config \<Rightarrow> cluster_event list \<Rightarrow> discovery" where
  "run_cluster hmac pystr lower cfg es = run_state (cluster_step hmac pystr lower cfg) discovery_init es"

definition heard_after :: "(bytes \<Rightarrow> bytes \<Rightarrow> bytes) \<Rightarrow> (json \<Rightarrow> str) \<Rightarrow> app_config \<Rightarrow> cluster_event list \<Rightarrow> str \<rightharpoonup> peer" where
  "heard_after hmac pystr cfg es = snd (run_state (heard_step hmac pystr cfg) (case es of [] \<Rightarrow> 0 | e # _ \<Rightarrow> event_time e, Map.empty) es)"

lemma run_cluster_peers:
  assumes "sorted (map event_time (es @ [Ask_peers now]))"
  shows "set (fst (peers lower now (run_cluster hmac pystr lower cfg es))) =
    {p \<in> ran (heard_after hmac pystr cfg es). now - pe_last_seen p \<le> PEER_TTL}"
proof (cases es)
  case Nil
  then show ?thesis by (simp add: run_cluster_def discovery_init_def peers_def live_peers_def heard_after_def)
next
  case (Cons e fs)
  let ?a = "(event_time e, Map.empty :: str \<rightharpoonup> peer)"
  have "heard_rel discovery_init ?a" by (simp add: heard_rel_def discovery_init_def table_ok_def)
  moreover have "\<forall>f \<in> set (es @ [Ask_peers now]). fst ?a \<le> event_time f" using assms Cons by auto
  ultimately have "run_answers (cluster_step hmac pystr lower cfg) discovery_init (es @ [Ask_peers now]) =
      run_answers (heard_step hmac pystr cfg) ?a (es @ [Ask_peers now])"
    by (intro lan.run_clocked(1) assms)
  then have "last (run_answers (cluster_step hmac pystr lower cfg) discovery_init (es @ [Ask_peers now])) =
      last (run_answers (heard_step hmac pystr cfg) ?a (es @ [Ask_peers now]))" by simp
  then have "Inr (set (fst (peers lower now (run_cluster hmac pystr lower cfg es)))) =
      snd (heard_step hmac pystr cfg (run_state (heard_step hmac pystr cfg) ?a es) (Ask_peers now))"
    unfolding run_answers_append run_cluster_def by (simp add: split_def Let_def)
  then show ?thesis
    using Cons by (cases "run_state (heard_step hmac pystr cfg) ?a es") (simp add: heard_after_def del: run_state.simps)
qed

lemma heard_after_announced:
  "heard_after hmac pystr cfg es k = Some p \<Longrightarrow> pe_id p = k \<and> Some p \<in> announced hmac pystr cfg ` set es"
  unfolding heard_after_def by (drule heard_announced) simp

lemma heard_after_last:
  assumes "announced hmac pystr cfg e = Some p" and "\<forall>f \<in> set fs. map_option pe_id (announced hmac pystr cfg f) \<noteq> Some (pe_id p)"
  shows "heard_after hmac pystr cfg (es @ e # fs) (pe_id p) = Some p"
  unfolding heard_after_def run_state_append using assms by (simp add: heard_keeps heard_step_table)

lemma announced_signed:
  assumes "Some p \<in> announced hmac pystr cfg ` set es"
  obtains data addr t body sig where "Datagram data addr t \<in> set es" "pe_last_seen p = t" "envelope data = Some (JStr body, sig)"
    "cluster_sign hmac (cl_key (ac_cluster cfg)) body = Inr (json_text pystr sig)" "cl_key (ac_cluster cfg) \<noteq> []"
proof -
  from assms obtain e where e: "e \<in> set es" "announced hmac pystr cfg e = Some p" by auto
  then obtain data addr t where d: "e = Datagram data addr t" and r: "read_beacon hmac pystr cfg data addr t = Inr (Some p)"
    by (auto simp: announced_def split: cluster_event.splits sum.splits)
  from r obtain body sig where "cl_key (ac_cluster cfg) \<noteq> []" "envelope data = Some (JStr body, sig)"
    "cluster_sign hmac (cl_key (ac_cluster cfg)) body = Inr (json_text pystr sig)" "pe_last_seen p = t"
    by (rule read_beacon_parts)
  then show thesis using that e(1) d by blast
qed

lemma set_new_targets:
  "target_addr ` set (new_targets seen ms) \<union> seen = target_addr ` set ms \<union> seen"
proof (induction ms arbitrary: seen)
  case (Cons m ms)
  show ?case using Cons.IH [of seen] Cons.IH [of "insert (target_addr m) seen"] by (cases "target_addr m \<in> seen") auto
qed simp

lemma known_addresses_eq:
  "fst (known_addresses lower cfg now s) = (\<lambda>p. (pe_ip p, pe_port p)) ` set (fst (peers lower now s)) \<union> target_addr ` set (manual_targets cfg)"
proof -
  let ?ps = "fst (peers lower now s)"
  have "fst (known_addresses lower cfg now s) = target_addr ` set (new_targets (target_addr ` Auto ` set ?ps) (manual_targets cfg)) \<union> target_addr ` Auto ` set ?ps"
    by (auto simp: known_addresses_def all_targets_def Let_def split_def)
  then show ?thesis unfolding set_new_targets by (auto simp: image_image)
qed

lemma read_make_beacon:
  assumes "make_beacon hmac sockname hostname t a = Inr data" and "advertised sockname a = (ip, port, scheme)"
    and "cl_key (ac_cluster b) = cl_key (ac_cluster a)" and "cl_key (ac_cluster a) \<noteq> []"
    and "ac_instance_id a \<noteq> []" and "ac_instance_id a \<noteq> ac_instance_id b"
    and "list_all scalar_value (ac_instance_id a)" and "list_all scalar_value hostname" and "list_all scalar_value ip"
  shows "read_beacon hmac pystr b data (Some src) now = Inr (Some
    \<lparr>pe_id = ac_instance_id a, pe_name = hostname, pe_ip = (if strip ip \<in> set LOOPBACK then src else strip ip),
     pe_port = port, pe_scheme = scheme, pe_last_seen = now\<rparr>)"
proof -
  obtain sg where sg: "cluster_sign hmac (cl_key (ac_cluster a)) (json_dumps [44] [58] (beacon_payload sockname hostname t a)) = Inr sg"
    and e: "envelope data = Some (JStr (json_dumps [44] [58] (beacon_payload sockname hostname t a)), JStr sg)"
    and asc: "list_all (\<lambda>c. c < 128) sg"
    using make_beacon_envelope [OF assms(1)] by blast
  have scheme: "scheme = ascii ''http'' \<or> scheme = ascii ''https''" using assms(2) by (auto simp: advertised_def Let_def)
  show ?thesis
    using assms(3-6) sg e asc scheme
    by (auto simp: read_beacon_def json_text_def compare_digest_def beacon_payload_loads [OF assms(7,8,2,9)]
        beacon_peer_def beacon_port_def beacon_scheme_def get_str_def Let_def ascii_def)
qed

section \<open>Properties\<close>

text \<open>Two nodes of one cluster; the first one advertises an address, the second one has a manual peer.\<close>

definition node_a :: app_config where
  "node_a = sample_accounts\<lparr>ac_instance_id := ascii ''node-a'', ac_cluster := \<lparr>cl_enabled = True, cl_key = ascii ''k'',
     cl_discovery_port = VInt 41750, cl_advertise_ip = ascii ''10.0.0.7'', cl_peers = []\<rparr>\<rparr>"

definition node_b :: app_config where
  "node_b = node_a\<lparr>ac_instance_id := ascii ''node-b'', ac_cluster := (ac_cluster node_a)\<lparr>cl_peers := [ascii ''10.1.0.9:8080'']\<rparr>\<rparr>"

definition beacon_a :: bytes where
  "beacon_a = (case make_beacon toy_hmac None (ascii ''hosta'') 1000 node_a of Inr b \<Rightarrow> b | Inl _ \<Rightarrow> [])"

lemma beacon_a_made: "make_beacon toy_hmac None (ascii ''hosta'') 1000 node_a = Inr beacon_a"
proof -
  have "case make_beacon toy_hmac None (ascii ''hosta'') 1000 node_a of Inr b \<Rightarrow> True | Inl _ \<Rightarrow> False" by code_simp
  then show ?thesis by (auto simp: beacon_a_def split: sum.splits)
qed

lemma nodes_ok:
  "advertised None node_a = (ascii ''10.0.0.7'', ui_port (ac_admin_ui node_a), ascii ''http'')"
  "cl_key (ac_cluster node_b) = cl_key (ac_cluster node_a)" "cl_key (ac_cluster node_a) \<noteq> []" "ac_instance_id node_a \<noteq> []"
  "ac_instance_id node_a \<noteq> ac_instance_id node_b" "list_all scalar_value (ac_instance_id node_a)"
  "list_all scalar_value (ascii ''hosta'')" "list_all scalar_value (ascii ''10.0.0.7'')"
  by code_simp+

text \<open>C32: Nodes with the same key find each other: the beacon one node makes, delivered to any other node of the same
  cluster, puts exactly that node into its peer table, with the address, port and scheme it advertises; an address that
  only works on the sender itself is replaced by the source address of the packet.\<close>
theorem beacon_roundtrip:
  assumes "make_beacon hmac sockname hostname t a = Inr data" and "advertised sockname a = (ip, port, scheme)"
    and "cl_key (ac_cluster b) = cl_key (ac_cluster a)" and "cl_key (ac_cluster a) \<noteq> []"
    and "ac_instance_id a \<noteq> []" and "ac_instance_id a \<noteq> ac_instance_id b"
    and "list_all scalar_value (ac_instance_id a)" and "list_all scalar_value hostname" and "list_all scalar_value ip"
  shows "handle_datagram hmac pystr b s data (Some src) now =
    Inr (s\<lparr>di_peers := AList.update (ac_instance_id a)
      \<lparr>pe_id = ac_instance_id a, pe_name = hostname, pe_ip = (if strip ip \<in> set LOOPBACK then src else strip ip),
       pe_port = port, pe_scheme = scheme, pe_last_seen = now\<rparr> (di_peers s)\<rparr>)"
  by (simp add: handle_datagram_def read_make_beacon [OF assms])

theorem beacon_roundtrip_witness:
  "handle_datagram toy_hmac (\<lambda>_. []) node_b discovery_init beacon_a (Some (ascii ''10.0.0.8'')) 1001 =
    Inr (discovery_init\<lparr>di_peers := AList.update (ac_instance_id node_a)
      \<lparr>pe_id = ac_instance_id node_a, pe_name = ascii ''hosta'',
       pe_ip = (if strip (ascii ''10.0.0.7'') \<in> set LOOPBACK then ascii ''10.0.0.8'' else strip (ascii ''10.0.0.7'')),
       pe_port = ui_port (ac_admin_ui node_a), pe_scheme = ascii ''http'', pe_last_seen = 1001\<rparr> (di_peers discovery_init)\<rparr>)"
  by (rule beacon_roundtrip [OF beacon_a_made nodes_ok])





text \<open>A datagram anybody can send, with no knowledge of the key, raises instead of being dropped when its body is no text.\<close>

lemma unsigned_datagram_raises:
  "handle_datagram toy_hmac (\<lambda>_. []) node_b discovery_init (map nbyte (ascii ''{\"d\":5,\"s\":6}'')) None 0 = Inl BodyNotText"
  by code_simp

end
