(* ===== verification/App_State.thy ===== *)
theory App_State
  imports Supervisor Cluster Json
begin

text \<open>
  The shared state's own files (\<open>app/state.py\<close>): the audit trail, the per-mapping logs with their retention, the trace
  files of a mapping and the engine's start and stop order. Files are texts (the audit trail) or bytes (logs); the
  clock's texts, the time stamp parser and the directory contents are parameters.
\<close>

section \<open>Lines of a text\<close>

text \<open>The characters \<open>str.splitlines\<close> splits at.\<close>

definition line_break :: "nat \<Rightarrow> bool" where
  "line_break c \<longleftrightarrow> c \<in> {10, 11, 12, 13, 28, 29, 30, 133, 8232, 8233}"

text \<open>\<open>s.splitlines(keepends=keep)\<close>.\<close>

function splitlines :: "bool \<Rightarrow> str \<Rightarrow> str list" where
  "splitlines keep s =
     (if s = [] then []
      else let a = takeWhile (\<lambda>c. \<not> line_break c) s; r = dropWhile (\<lambda>c. \<not> line_break c) s in
        case r of
          [] \<Rightarrow> [a]
        | c # cs \<Rightarrow>
            if c = 13 \<and> is_prefix_of [10] cs then (a @ (if keep then [13, 10] else [])) # splitlines keep (tl cs)
            else (a @ (if keep then [c] else [])) # splitlines keep cs)"
  by pat_completeness auto
termination
proof (relation "measure (\<lambda>(keep, s). length s)")
  fix keep s a r c cs
  assume "s \<noteq> []" and "r = dropWhile (\<lambda>c. \<not> line_break c) s" and "r = c # cs"
  then have "length (c # cs) \<le> length s" by (metis length_dropWhile_le)
  then show "((keep, tl cs), keep, s) \<in> measure (\<lambda>(keep, s). length s)" "((keep, cs), keep, s) \<in> measure (\<lambda>(keep, s). length s)" by auto
qed simp

declare splitlines.simps [simp del]

section \<open>The audit trail\<close>

definition AUDIT_LOG_MAX_BYTES :: nat where "AUDIT_LOG_MAX_BYTES = 5 * 1024 * 1024"

text \<open>\<open>_CONTROL.sub(" ", s)\<close>.\<close>

definition no_control :: "str \<Rightarrow> str" where
  "no_control s = map (\<lambda>c. if c < 32 \<or> c = 127 then 32 else c) s"

text \<open>\<open>audit.log.1\<close> and \<open>audit.log\<close>; \<open>None\<close> when the file does not exist.\<close>

record audit_files =
  af_old :: "str option"
  af_cur :: "str option"

definition audit_line :: "str \<Rightarrow> str \<Rightarrow> str \<Rightarrow> str \<Rightarrow> str \<Rightarrow> str" where
  "audit_line stamp ip action detail user = join_with 9 (map no_control [stamp, ip, action, take 500 detail, user])"

text \<open>\<open>os.path.getsize\<close> of a text file is the length of its UTF-8 bytes.\<close>

definition text_size :: "str \<Rightarrow> nat" where
  "text_size s = length (concat (map utf8_char s))"

definition rotates :: "audit_files \<Rightarrow> bool" where
  "rotates f \<longleftrightarrow> (case af_cur f of None \<Rightarrow> False | Some t \<Rightarrow> text_size t > AUDIT_LOG_MAX_BYTES)"

definition audit :: "str \<Rightarrow> str \<Rightarrow> str \<Rightarrow> str \<Rightarrow> str \<Rightarrow> audit_files \<Rightarrow> audit_files" where
  "audit stamp ip action detail user f =
     (let g = (if rotates f then \<lparr>af_old = af_cur f, af_cur = None\<rparr> else f) in
      g\<lparr>af_cur := Some ((case af_cur g of None \<Rightarrow> [] | Some t \<Rightarrow> t) @ audit_line stamp ip action detail user @ [10])\<rparr>)"

text \<open>A record of \<open>read_audit\<close>: time, address, action, detail, user.\<close>

type_synonym audit_record = "str \<times> str \<times> str \<times> str \<times> str"

definition read_record :: "str \<Rightarrow> audit_record option" where
  "read_record line =
     (let parts = split_on 9 line; p = parts @ replicate (5 - length parts) [] in
      if length parts < 3 then None else Some (p ! 0, p ! 1, p ! 2, p ! 3, p ! 4))"

definition file_records :: "str option \<Rightarrow> audit_record list" where
  "file_records t = (case t of None \<Rightarrow> [] | Some x \<Rightarrow> List.map_filter read_record (splitlines False x))"

definition read_audit :: "audit_files \<Rightarrow> audit_record list" where
  "read_audit f = rev (file_records (af_old f) @ file_records (af_cur f))"

section \<open>Lemmas: lines and records\<close>

lemma splitlines_Nil [simp]: "splitlines keep [] = []"
  by (simp add: splitlines.simps)

lemma splitlines_step:
  assumes "dropWhile (\<lambda>c. \<not> line_break c) s = c # cs"
  shows "splitlines keep s =
    (if c = 13 \<and> is_prefix_of [10] cs then (takeWhile (\<lambda>c. \<not> line_break c) s @ (if keep then [13, 10] else [])) # splitlines keep (tl cs)
     else (takeWhile (\<lambda>c. \<not> line_break c) s @ (if keep then [c] else [])) # splitlines keep cs)"
  using assms by (subst splitlines.simps) (auto simp: Let_def)

lemma splitlines_single: "\<forall>c \<in> set s. \<not> line_break c \<Longrightarrow> splitlines keep s = (if s = [] then [] else [s])"
proof -
  assume "\<forall>c \<in> set s. \<not> line_break c"
  then have "takeWhile (\<lambda>c. \<not> line_break c) s = s" "dropWhile (\<lambda>c. \<not> line_break c) s = []" by simp_all
  then show ?thesis by (subst splitlines.simps) (simp only: Let_def list.case)
qed

lemma is_prefix_one [simp]: "is_prefix_of [a] (b # bs) \<longleftrightarrow> a = b" "\<not> is_prefix_of [a] []"
  by (auto simp: is_prefix_of_def)

lemma splitlines_line: "\<forall>c \<in> set x. \<not> line_break c \<Longrightarrow> splitlines keep (x @ 10 # y) = (x @ (if keep then [10] else [])) # splitlines keep y"
  using splitlines_step [of "x @ 10 # y" 10 y keep] by (simp add: takeWhile_append2 dropWhile_append2 line_break_def)

lemma splitlines_append: "splitlines keep (x @ 10 # y) = splitlines keep (x @ [10]) @ splitlines keep y"
proof (induction "length x" arbitrary: x rule: less_induct)
  case less
  show ?case
  proof (cases "\<forall>c \<in> set x. \<not> line_break c")
    case True
    then show ?thesis using splitlines_line [of x keep y] splitlines_line [of x keep "[]"] by simp
  next
    case False
    then obtain c where c: "c \<in> set x" "line_break c" by blast
    let ?p = "takeWhile (\<lambda>c. \<not> line_break c) x"
    obtain d q where q: "dropWhile (\<lambda>c. \<not> line_break c) x = d # q" "line_break d"
      using False by (metis dropWhile_eq_Nil_conv hd_dropWhile list.exhaust_sel)
    have len: "length q < length x" using q(1) by (metis length_dropWhile_le length_Cons less_eq_Suc_le)
    have step: "splitlines keep (x @ z) =
        (if d = 13 \<and> is_prefix_of [10] (q @ z) then (?p @ (if keep then [13, 10] else [])) # splitlines keep (tl (q @ z))
         else (?p @ (if keep then [d] else [])) # splitlines keep (q @ z))" for z
      using splitlines_step [of "x @ z" d "q @ z" keep] c q(1) by (simp add: takeWhile_append1 [of c] dropWhile_append1 [of c])
    have IH: "splitlines keep (w @ 10 # y) = splitlines keep (w @ [10]) @ splitlines keep y" if "length w < length x" for w
      using less that by blast
    show ?thesis
    proof (cases q)
      case Nil
      then show ?thesis using step [of "10 # y"] step [of "[10]"] IH [of "[]"] len by simp
    next
      case (Cons e w)
      then have "length w < length x" "length (e # w) < length x" using len by simp_all
      then show ?thesis using step [of "10 # y"] step [of "[10]"] IH [of w] IH [of "e # w"] Cons by simp
    qed
  qed
qed

lemma splitlines_tabs: "p \<in> set (splitlines False s) \<Longrightarrow> count_list p 9 \<le> count_list s 9"
proof (induction "length s" arbitrary: s rule: less_induct)
  case less
  let ?a = "takeWhile (\<lambda>c. \<not> line_break c) s" and ?r = "dropWhile (\<lambda>c. \<not> line_break c) s"
  have s: "count_list s 9 = count_list ?a 9 + count_list ?r 9"
    by (metis count_list_append takeWhile_dropWhile_id)
  show ?case
  proof (cases ?r)
    case Nil
    then show ?thesis using less.prems by (simp add: splitlines_single split: if_splits)
  next
    case (Cons c cs)
    have len: "length cs < length s" "length (tl cs) < length s"
      using Cons by (metis length_dropWhile_le length_Cons less_eq_Suc_le, metis length_dropWhile_le length_Cons length_tl less_eq_Suc_le diff_le_self order_le_less_trans)
    have "p = ?a \<or> p \<in> set (splitlines False cs) \<or> p \<in> set (splitlines False (tl cs))"
      using less.prems unfolding splitlines_step [OF Cons] by (auto split: if_splits)
    moreover have "count_list cs 9 \<le> count_list ?r 9" "count_list (tl cs) 9 \<le> count_list cs 9" using Cons by (simp, cases cs, simp_all)
    ultimately show ?thesis using less.hyps [OF len(1)] less.hyps [OF len(2)] s by fastforce
  qed
qed

lemma length_split_on: "length (split_on sep s) = Suc (count_list s sep)"
  by (induction s) (auto split: list.splits)

text \<open>Text with at most one tab has no record.\<close>

lemma no_records: "count_list s 9 \<le> 1 \<Longrightarrow> List.map_filter read_record (splitlines False s) = []"
proof -
  assume s: "count_list s 9 \<le> 1"
  have "read_record p = None" if "p \<in> set (splitlines False s)" for p
    using splitlines_tabs [OF that] s by (simp add: read_record_def length_split_on)
  then show ?thesis by (simp add: List.map_filter_def filter_empty_conv)
qed

lemma tab_free: "9 \<notin> set (no_control s)"
  by (auto simp: no_control_def)

lemma break_free: "c \<in> set (no_control s) \<Longrightarrow> line_break c \<Longrightarrow> c \<in> {133, 8232, 8233}"
  by (auto simp: no_control_def line_break_def split: if_splits)

lemma read_record_parts:
  "\<forall>p \<in> set [a, b, c, d]. 9 \<notin> set p \<Longrightarrow> read_record (join_with 9 [a, b, c, d]) = Some (a, b, c, d, [])"
  "\<forall>p \<in> set [a, b, c, d, e]. 9 \<notin> set p \<Longrightarrow> read_record (join_with 9 [a, b, c, d, e]) = Some (a, b, c, d, e)"
  by (simp_all add: read_record_def split_on_append split_on_no_sep)

definition first_line :: "str \<Rightarrow> str" where
  "first_line s = takeWhile (\<lambda>c. \<not> line_break c) s"

text \<open>The lines of one audit entry hold exactly one record. A separator that is no control character cuts it short.\<close>

lemma audit_line_record:
  assumes "\<forall>c \<in> set (no_control stamp @ no_control ip @ no_control action). \<not> line_break c"
  shows "List.map_filter read_record (splitlines False (audit_line stamp ip action detail user @ [10])) =
    [(no_control stamp, no_control ip, no_control action, first_line (no_control (take 500 detail)),
      if \<exists>c \<in> set (no_control (take 500 detail)). line_break c then [] else first_line (no_control user))]"
proof -
  let ?a = "no_control stamp" and ?b = "no_control ip" and ?c = "no_control action"
    and ?d = "no_control (take 500 detail)" and ?u = "no_control user" and ?nb = "\<lambda>c. \<not> line_break c"
  let ?h = "?a @ 9 # ?b @ 9 # ?c @ [9]" and ?t = "?d @ 9 # ?u"
  have l: "audit_line stamp ip action detail user = ?h @ ?t" by (simp add: audit_line_def)
  have nb: "?nb 9" "line_break 10" by (simp_all add: line_break_def)
  have h: "\<forall>c \<in> set ?h. ?nb c" using assms nb by auto
  have tw: "takeWhile ?nb (?h @ z) = ?h @ takeWhile ?nb z" and dw: "dropWhile ?nb (?h @ z) = dropWhile ?nb z" for z
    using h by (simp_all add: takeWhile_append2 dropWhile_append2)
  have tabs: "9 \<notin> set (first_line x)" if "9 \<notin> set x" for x using that by (auto simp: first_line_def dest: set_takeWhileD)
  have r4: "read_record (?h @ first_line ?d) = Some (?a, ?b, ?c, first_line ?d, [])"
    using read_record_parts(1) [of ?a ?b ?c "first_line ?d"] tab_free tabs by simp
  have r5: "read_record (?h @ ?d @ 9 # first_line ?u) = Some (?a, ?b, ?c, ?d, first_line ?u)"
    using read_record_parts(2) [of ?a ?b ?c ?d "first_line ?u"] tab_free tabs by simp
  have split: "\<exists>rest. splitlines False (?h @ ?t @ [10]) = (?h @ takeWhile ?nb (?t @ [10])) # splitlines False rest \<and> count_list rest 9 \<le> 1"
  proof -
    obtain c cs where c: "dropWhile ?nb (?t @ [10]) = c # cs"
      using nb by (metis append_is_Nil_conv dropWhile_eq_Nil_conv in_set_conv_decomp list.exhaust)
    have n13: "c \<noteq> 13"
    proof
      assume "c = 13"
      then have "13 \<in> set (?t @ [10])" using c set_dropWhileD [of 13 ?nb "?t @ [10]"] by simp
      then show False by (auto simp: no_control_def split: if_splits)
    qed
    have "count_list (?t @ [10]) 9 = count_list (takeWhile ?nb (?t @ [10])) 9 + count_list (c # cs) 9"
      using c by (metis count_list_append takeWhile_dropWhile_id)
    moreover have "count_list (?t @ [10]) 9 = 1" by (simp add: tab_free)
    moreover have "count_list cs 9 \<le> count_list (c # cs) 9" by simp
    ultimately have cs: "count_list cs 9 \<le> 1" by linarith
    have d: "dropWhile ?nb (?h @ ?t @ [10]) = c # cs" using trans [OF dw c] .
    have "splitlines False (?h @ ?t @ [10]) = takeWhile ?nb (?h @ ?t @ [10]) # splitlines False cs"
      unfolding splitlines_step [OF d] using n13 by (simp only: if_False append_Nil2 simp_thms)
    then show ?thesis unfolding tw using cs by blast
  qed
  then obtain rest where rest: "splitlines False (?h @ ?t @ [10]) = (?h @ takeWhile ?nb (?t @ [10])) # splitlines False rest"
    and none: "List.map_filter read_record (splitlines False rest) = []" using no_records by blast
  show ?thesis
  proof (cases "\<exists>c \<in> set ?d. line_break c")
    case True
    then have "takeWhile ?nb (?t @ [10]) = first_line ?d" by (auto simp: first_line_def takeWhile_append1)
    then show ?thesis using rest none r4 True by (simp add: l List.map_filter_simps)
  next
    case False
    then have "takeWhile ?nb (?t @ [10]) = ?d @ 9 # first_line ?u" and "first_line ?d = ?d"
      using nb takeWhile_tail [of ?nb 10 ?u "[]"] by (simp_all add: first_line_def takeWhile_append2 takeWhile_eq_all_conv)
    then show ?thesis using rest none r5 False by (simp add: l List.map_filter_simps)
  qed
qed

text \<open>A file of whole lines, as \<open>audit\<close> leaves it.\<close>

definition whole_lines :: "str option \<Rightarrow> bool" where
  "whole_lines t \<longleftrightarrow> (case t of None \<Rightarrow> True | Some x \<Rightarrow> x = [] \<or> last x = 10)"

lemma file_records_append:
  "whole_lines t \<Longrightarrow> file_records (Some ((case t of None \<Rightarrow> [] | Some x \<Rightarrow> x) @ y)) = file_records t @ List.map_filter read_record (splitlines False y)"
proof -
  assume w: "whole_lines t"
  define x where "x = (case t of None \<Rightarrow> [] | Some x \<Rightarrow> x)"
  show ?thesis
  proof (cases "x = []")
    case True
    then show ?thesis by (cases t) (simp_all add: x_def file_records_def List.map_filter_simps)
  next
    case False
    then obtain z where z: "t = Some (z @ [10])" using w
      by (cases t) (auto simp: x_def whole_lines_def, metis append_butlast_last_id)
    then show ?thesis using splitlines_append [of False z y] by (simp add: file_records_def List.map_filter_def)
  qed
qed

section \<open>Properties\<close>



text \<open>A line separator that is no control character hides who did it: the record has no user.\<close>

lemma audit_user_hidden:
  "read_audit (audit (ascii ''t'') (ascii ''10.0.0.1'') (ascii ''save'') (ascii ''a'' @ 8232 # ascii ''b'') (ascii ''ann'')
     \<lparr>af_old = None, af_cur = None\<rparr>) =
   [(ascii ''t'', ascii ''10.0.0.1'', ascii ''save'', ascii ''a'', [])]"
  by code_simp

end
