(* ===== verification/Settings.thy ===== *)
theory Settings
  imports Forms Auth App_State
begin

text \<open>
  Accounts, sign-in and settings behind the web pages (\<open>app/web/routes/login.py\<close>, \<open>settings.py\<close>, the group mapping of
  \<open>web/ldap_auth.py\<close> and the claims of \<open>web/oidc_auth.py\<close>). A handler is a function of the request and the state: the
  configuration in memory and on disk, the login limiter and the imports waiting for confirmation. Where a handler checks first and
  changes the configuration later, under the lock, the check and the change are two functions, so that the handlers' races can be stated;
  the change addresses the account by its name. What the directory, the identity provider, the hash functions and the clock answer
  is given as arguments. Log lines, audit records and the texts of the pages are left out.
\<close>

section \<open>Requests and answers\<close>

record web_env =
  en_isfile :: "str \<Rightarrow> bool"
  en_scrypt :: "bytes \<Rightarrow> bytes \<Rightarrow> nat \<Rightarrow> bytes option"
  en_sha256 :: "bytes \<Rightarrow> str"
  en_lower :: "str \<Rightarrow> str"

text \<open>\<open>rq_user\<close> is the user the gate found for the request.\<close>

record request =
  rq_user :: "user option"
  rq_csrf :: "str option"
  rq_form :: form

record pending =
  pd_created :: real
  pd_user :: str
  pd_plan :: "mapping_config list"

record web_state =
  ws_ops :: ops_state
  ws_limiter :: limiter
  ws_pending :: "(str \<times> pending) list"
  ws_cluster_restarts :: nat

datatype raised = R_config config_error | R_auth auth_error | R_overflow

text \<open>A page with a message, the refusals, an exception that leaves the handler, and an answer that sets the session cookie for an
  account and its password version.\<close>

datatype reply = Forbidden | Csrf_failed | Redirect | Too_many | Page_ok | Page_error string | Refused_page config_error
  | Preview str "config_error option" | Session_for str int | Raises raised

abbreviation web_config :: "web_state \<Rightarrow> app_config" where
  "web_config s \<equiv> op_config (ws_ops s)"

definition change_config :: "(app_config \<Rightarrow> app_config) \<Rightarrow> web_state \<Rightarrow> web_state" where
  "change_config g s = s\<lparr>ws_ops := (ws_ops s)\<lparr>op_config := g (web_config s)\<rparr>\<rparr>"

text \<open>The two ways a handler saves: a refused change is taken back, or the exception leaves the handler and the change stays.\<close>

definition try_change :: "web_env \<Rightarrow> (app_config \<Rightarrow> app_config) \<Rightarrow> web_state \<Rightarrow> reply \<times> web_state" where
  "try_change e g s =
     (case asave (en_isfile e) (ws_ops (change_config g s)) of
        Inl err \<Rightarrow> (Refused_page err, s)
      | Inr ops \<Rightarrow> (Page_ok, s\<lparr>ws_ops := ops\<rparr>))"

definition must_change :: "web_env \<Rightarrow> (app_config \<Rightarrow> app_config) \<Rightarrow> reply \<Rightarrow> web_state \<Rightarrow> reply \<times> web_state" where
  "must_change e g answer s =
     (case asave (en_isfile e) (ws_ops (change_config g s)) of
        Inl err \<Rightarrow> (Raises (R_config err), change_config g s)
      | Inr ops \<Rightarrow> (answer, s\<lparr>ws_ops := ops\<rparr>))"

definition csrf_check :: "request \<Rightarrow> reply + unit" where
  "csrf_check rq =
     (case csrf_token_matches (rq_csrf rq) (form_text (rq_form rq) ''_csrf'' []) of
        Inl err \<Rightarrow> Inl (Raises (R_auth err))
      | Inr same \<Rightarrow> if same then Inr () else Inl Csrf_failed)"

text \<open>The first lines of most handlers.\<close>

definition admit :: "string \<Rightarrow> request \<Rightarrow> reply + unit" where
  "admit role rq = (if require_role (rq_user rq) (ascii role) then csrf_check rq else Inl Forbidden)"

definition answer_or :: "reply + 'a \<Rightarrow> ('a \<Rightarrow> web_state \<Rightarrow> reply \<times> web_state) \<Rightarrow> web_state \<Rightarrow> reply \<times> web_state" where
  "answer_or c k s = (case c of Inl r \<Rightarrow> (r, s) | Inr x \<Rightarrow> k x s)"

section \<open>Sign-in\<close>

text \<open>\<open>role_for_groups\<close> for the groups of the four role settings.\<close>

definition role_for_groups :: "(str \<Rightarrow> str) \<Rightarrow> str list \<Rightarrow> str \<Rightarrow> str \<Rightarrow> str \<Rightarrow> str \<Rightarrow> str option" where
  "role_for_groups lower groups adm oper view dflt =
     (let lowered = map lower groups;
          member = (\<lambda>name. let g = lower (strip name) in g \<noteq> [] \<and> list_ex (contains_sub g) lowered) in
      if member adm then Some (ascii ''admin'')
      else if member oper then Some (ascii ''operator'')
      else if member view then Some (ascii ''viewer'')
      else if dflt \<noteq> [] then Some dflt else None)"

definition update_user :: "str \<Rightarrow> (user \<Rightarrow> user) \<Rightarrow> app_config \<Rightarrow> app_config" where
  "update_user name g c = c\<lparr>ac_users := update_first (\<lambda>u. us_username u = name) g (ac_users c)\<rparr>"

text \<open>\<open>login_post\<close>; \<open>groups\<close> is what the directory answers for this name and password (\<open>None\<close>: not authenticated), asked for only
  when the account is unknown or not a local one.\<close>

definition external_sign_in :: "web_env \<Rightarrow> str \<Rightarrow> str \<Rightarrow> str \<Rightarrow> web_state \<Rightarrow> reply \<times> web_state" where
  "external_sign_in e name role source s =
     (let (c, u) = upsert_external_user (web_config s) name role source in
      must_change e (\<lambda>_. c) (Session_for (us_username u) (us_pwd_version u)) s)"

definition login_failed :: "str \<Rightarrow> real \<Rightarrow> web_state \<Rightarrow> reply \<times> web_state" where
  "login_failed ip now s = (Page_error ''BadLogin'', s\<lparr>ws_limiter := record_failure (ws_limiter s) ip now\<rparr>)"

definition directory_login :: "web_env \<Rightarrow> str \<Rightarrow> real \<Rightarrow> str list option \<Rightarrow> str \<Rightarrow> web_state \<Rightarrow> reply \<times> web_state" where
  "directory_login e ip now groups name s =
     (let l = ac_ldap (web_config s) in
      case (if ld_enabled l then groups else None) of
        None \<Rightarrow> login_failed ip now s
      | Some gs \<Rightarrow>
          (case role_for_groups (en_lower e) gs (ld_admin_group l) (ld_operator_group l) (ld_viewer_group l) (ld_default_role l) of
             None \<Rightarrow> login_failed ip now s
           | Some role \<Rightarrow>
               (case external_sign_in e name role (ascii ''ldap'') s of
                  (Session_for n v, s') \<Rightarrow> (Session_for n v, s'\<lparr>ws_limiter := limiter_reset (ws_limiter s') ip\<rparr>)
                | r \<Rightarrow> r)))"

definition login_name :: "form \<Rightarrow> str" where
  "login_name f = or_else (strip (or_else (form_text f ''username'' []) (ascii ''admin''))) (ascii ''admin'')"

definition login_post :: "web_env \<Rightarrow> str \<Rightarrow> real \<Rightarrow> str list option \<Rightarrow> request \<Rightarrow> web_state \<Rightarrow> reply \<times> web_state" where
  "login_post e ip now groups rq =
     answer_or (csrf_check rq) (\<lambda>_ s.
       let (stop, lim) = blocked (ws_limiter s) ip now; s1 = s\<lparr>ws_limiter := lim\<rparr>; f = rq_form rq; name = login_name f in
       if stop then (Too_many, s1)
       else case get_user (web_config s) name of
         None \<Rightarrow> directory_login e ip now groups name s1
       | Some u \<Rightarrow>
           if us_source u \<noteq> ascii ''local'' then directory_login e ip now groups name s1
           else if verify_password (en_scrypt e) (form_text f ''password'' []) (us_password_hash u)
           then (Session_for (us_username u) (us_pwd_version u), s1\<lparr>ws_limiter := limiter_reset lim ip\<rparr>)
           else login_failed ip now s1)"

text \<open>\<open>username_from_claims\<close> and \<open>role_from_claims\<close>; \<open>pystr\<close> is \<open>str\<close> of a value that is no text. \<open>None\<close>: the groups cannot be
  iterated (\<open>TypeError\<close>).\<close>

fun json_truthy :: "json \<Rightarrow> bool" where
  "json_truthy JNull = False"
| "json_truthy (JBool b) = b"
| "json_truthy (JInt i) = (i \<noteq> 0)"
| "json_truthy (JFloat x) = f64_truthy x"
| "json_truthy (JStr s) = (s \<noteq> [])"
| "json_truthy (JList xs) = (xs \<noteq> [])"
| "json_truthy (JDict d) = (d \<noteq> [])"

definition username_from_claims :: "(json \<Rightarrow> str) \<Rightarrow> (str \<times> json) list \<Rightarrow> oidc_settings \<Rightarrow> str" where
  "username_from_claims pystr claims o' =
     (case find (\<lambda>v. json_truthy v)
        (List.map_filter (map_of claims) [oi_username_claim o', ascii ''preferred_username'', ascii ''email'', ascii ''sub'']) of
        None \<Rightarrow> [] | Some v \<Rightarrow> json_text pystr v)"

definition claim_groups :: "(json \<Rightarrow> str) \<Rightarrow> (str \<times> json) list \<Rightarrow> oidc_settings \<Rightarrow> str list option" where
  "claim_groups pystr claims o' =
     (case map_of claims (oi_groups_claim o') of
        None \<Rightarrow> Some []
      | Some v \<Rightarrow>
          if \<not> json_truthy v then Some []
          else case v of JStr s \<Rightarrow> Some [s] | JList xs \<Rightarrow> Some (map (json_text pystr) xs) | JDict d \<Rightarrow> Some (map fst d) | _ \<Rightarrow> None)"

text \<open>\<open>oidc_callback\<close>: \<open>sealed\<close> is what \<open>read_payload\<close> made of the state cookie, \<open>code\<close> and \<open>st\<close> are the query's, \<open>claims\<close> what
  the identity provider certifies. A cookie without the redirect address or the nonce is a \<open>KeyError\<close>.\<close>

definition oidc_callback :: "web_env \<Rightarrow> (json \<Rightarrow> str) \<Rightarrow> auth_error + (str \<times> json) list option \<Rightarrow> str \<Rightarrow> str \<Rightarrow> (str \<times> json) list option \<Rightarrow>
    web_state \<Rightarrow> reply \<times> web_state" where
  "oidc_callback e pystr sealed code st claims s =
     (let o' = ac_oidc (web_config s) in
      if \<not> oi_enabled o' then (Redirect, s)
      else case sealed of
        Inl err \<Rightarrow> (Raises (R_auth err), s)
      | Inr data \<Rightarrow>
          (case (if data = None \<or> data = Some [] \<or> code = [] then Inr False
                 else compare_digest st (claim_str pystr (the data) (ascii ''s''))) of
             Inl err \<Rightarrow> (Raises (R_auth err), s)
           | Inr same \<Rightarrow>
               if \<not> same then (Page_error ''StateMismatch'', s)
               else if map_of (the data) (ascii ''r'') = None \<or> map_of (the data) (ascii ''n'') = None then (Raises (R_auth BadClaim), s)
               else case claims of
                 None \<Rightarrow> (Page_error ''SsoFailed'', s)
               | Some cl \<Rightarrow>
                   (case claim_groups pystr cl o' of
                      None \<Rightarrow> (Raises (R_auth BadClaim), s)
                    | Some gs \<Rightarrow>
                        (case (username_from_claims pystr cl o',
                               role_for_groups (en_lower e) gs (oi_admin_group o') (oi_operator_group o') (oi_viewer_group o') (oi_default_role o')) of
                           (name, Some role) \<Rightarrow>
                             if name = [] then (Page_error ''NoRole'', s) else external_sign_in e name role (ascii ''oidc'') s
                         | (_, None) \<Rightarrow> (Page_error ''NoRole'', s)))))"

text \<open>First-run setup. The gate lets a request through to it while there is no account; the change replaces all accounts.\<close>

definition setup_check :: "web_env \<Rightarrow> bytes \<Rightarrow> request \<Rightarrow> reply + str \<times> str" where
  "setup_check e salt rq =
     rbind (csrf_check rq) (\<lambda>_.
     let f = rq_form rq; name = login_name f; pw = form_text f ''password'' [] in
     case username_problem name of
       Some p \<Rightarrow> Inl (Page_error p)
     | None \<Rightarrow>
         (case password_problem pw (form_text f ''password2'' []) of
            Some p \<Rightarrow> Inl (Page_error p)
          | None \<Rightarrow> (case hash_password (en_scrypt e) salt pw of None \<Rightarrow> Inl (Raises (R_auth EncodeError)) | Some h \<Rightarrow> Inr (name, h))))"

definition setup_commit :: "web_env \<Rightarrow> str \<times> str \<Rightarrow> web_state \<Rightarrow> reply \<times> web_state" where
  "setup_commit e nh =
     must_change e (\<lambda>c. c\<lparr>ac_users := [\<lparr>us_username = fst nh, us_password_hash = snd nh, us_role = ascii ''admin'', us_pwd_version = 1,
       us_source = ascii ''local''\<rparr>]\<rparr>) (Session_for (fst nh) 1)"

definition setup_post :: "web_env \<Rightarrow> bytes \<Rightarrow> request \<Rightarrow> web_state \<Rightarrow> reply \<times> web_state" where
  "setup_post e salt rq s =
     (if ac_users (web_config s) \<noteq> [] then (Redirect, s) else answer_or (setup_check e salt rq) (setup_commit e) s)"

section \<open>Accounts\<close>

definition settings_password_post :: "web_env \<Rightarrow> bytes \<Rightarrow> request \<Rightarrow> web_state \<Rightarrow> reply \<times> web_state" where
  "settings_password_post e salt rq =
     answer_or (csrf_check rq) (\<lambda>_ s.
       let f = rq_form rq; new = form_text f ''password'' [] in
       case rq_user rq of
         None \<Rightarrow> (Page_error ''CurrentWrong'', s)
       | Some u \<Rightarrow>
           if us_source u = ascii ''anonymous'' then (Page_error ''SignIn'', s)
           else if us_source u \<noteq> ascii ''local'' then (Page_error ''Managed'', s)
           else if \<not> verify_password (en_scrypt e) (form_text f ''current'' []) (us_password_hash u) then (Page_error ''CurrentWrong'', s)
           else case password_problem new (form_text f ''password2'' []) of
             Some p \<Rightarrow> (Page_error p, s)
           | None \<Rightarrow>
               (case hash_password (en_scrypt e) salt new of
                  None \<Rightarrow> (Raises (R_auth EncodeError), s)
                | Some h \<Rightarrow>
                    must_change e (update_user (us_username u) (\<lambda>v. v\<lparr>us_password_hash := h, us_pwd_version := us_pwd_version v + 1\<rparr>))
                      (Session_for (us_username u) (us_pwd_version u + 1)) s))"

definition create_check :: "web_env \<Rightarrow> bytes \<Rightarrow> request \<Rightarrow> web_state \<Rightarrow> reply + user" where
  "create_check e salt rq s =
     rbind (admit ''admin'' rq) (\<lambda>_.
     let f = rq_form rq; name = form_strip f ''username''; role = form_text f ''role'' (ascii ''viewer''); pw = form_text f ''password'' [] in
     case username_problem name of
       Some p \<Rightarrow> Inl (Page_error p)
     | None \<Rightarrow>
         if role \<notin> set ROLES then Inl (Page_error ''BadRole'')
         else case password_problem pw (form_text f ''password2'' []) of
           Some p \<Rightarrow> Inl (Page_error p)
         | None \<Rightarrow>
             if get_user (web_config s) name \<noteq> None then Inl (Page_error ''UserExists'')
             else case hash_password (en_scrypt e) salt pw of
               None \<Rightarrow> Inl (Raises (R_auth EncodeError))
             | Some h \<Rightarrow> Inr \<lparr>us_username = name, us_password_hash = h, us_role = role, us_pwd_version = 1, us_source = ascii ''local''\<rparr>)"

definition create_commit :: "web_env \<Rightarrow> user \<Rightarrow> web_state \<Rightarrow> reply \<times> web_state" where
  "create_commit e u = must_change e (\<lambda>c. c\<lparr>ac_users := ac_users c @ [u]\<rparr>) Page_ok"

definition settings_users_create :: "web_env \<Rightarrow> bytes \<Rightarrow> request \<Rightarrow> web_state \<Rightarrow> reply \<times> web_state" where
  "settings_users_create e salt rq s = answer_or (create_check e salt rq s) (create_commit e) s"

definition role_check :: "str \<Rightarrow> request \<Rightarrow> web_state \<Rightarrow> reply + str" where
  "role_check name rq s =
     rbind (admit ''admin'' rq) (\<lambda>_.
     let role = form_text (rq_form rq) ''role'' (ascii ''viewer'') in
     case get_user (web_config s) name of
       None \<Rightarrow> Inl (Page_error ''NoUser'')
     | Some u \<Rightarrow>
         if role \<notin> set ROLES then Inl (Page_error ''BadRole'')
         else if us_role u = ascii ''admin'' \<and> role \<noteq> ascii ''admin'' \<and> admin_count (web_config s) \<le> 1 then Inl (Page_error ''LastAdmin'')
         else Inr role)"

definition role_commit :: "web_env \<Rightarrow> str \<Rightarrow> str \<Rightarrow> web_state \<Rightarrow> reply \<times> web_state" where
  "role_commit e name role =
     must_change e (update_user name (\<lambda>u. u\<lparr>us_role := role, us_pwd_version := us_pwd_version u + 1\<rparr>)) Page_ok"

definition settings_users_role :: "web_env \<Rightarrow> str \<Rightarrow> request \<Rightarrow> web_state \<Rightarrow> reply \<times> web_state" where
  "settings_users_role e name rq s = answer_or (role_check name rq s) (role_commit e name) s"

definition delete_check :: "str \<Rightarrow> request \<Rightarrow> web_state \<Rightarrow> reply + unit" where
  "delete_check name rq s =
     rbind (admit ''admin'' rq) (\<lambda>_.
     case get_user (web_config s) name of
       None \<Rightarrow> Inl (Page_error ''NoUser'')
     | Some u \<Rightarrow>
         if map_option us_username (rq_user rq) = Some name then Inl (Page_error ''OwnAccount'')
         else if us_role u = ascii ''admin'' \<and> admin_count (web_config s) \<le> 1 then Inl (Page_error ''LastAdmin'')
         else Inr ())"

definition delete_commit :: "web_env \<Rightarrow> str \<Rightarrow> web_state \<Rightarrow> reply \<times> web_state" where
  "delete_commit e name = must_change e (\<lambda>c. c\<lparr>ac_users := filter (\<lambda>u. us_username u \<noteq> name) (ac_users c)\<rparr>) Page_ok"

definition settings_users_delete :: "web_env \<Rightarrow> str \<Rightarrow> request \<Rightarrow> web_state \<Rightarrow> reply \<times> web_state" where
  "settings_users_delete e name rq s = answer_or (delete_check name rq s) (\<lambda>_. delete_commit e name) s"

section \<open>Access to the web pages, API token, TLS\<close>

text \<open>\<open>int(float(v) * 60)\<close>: a text that is no number and a NaN are \<open>ValueError\<close>, an infinity is \<open>OverflowError\<close>.\<close>

datatype minutes_error = Not_minutes | Overflows

definition minutes_s :: "str \<Rightarrow> minutes_error + int" where
  "minutes_s v =
     (case py_float v of
        None \<Rightarrow> Inl Not_minutes
      | Some x \<Rightarrow>
          (let y = f64_mul x 0x404E000000000000 in
           if f64_isinf y then Inl Overflows else case f64_trunc y of None \<Rightarrow> Inl Not_minutes | Some i \<Rightarrow> Inr i))"

definition settings_access_post :: "web_env \<Rightarrow> request \<Rightarrow> web_state \<Rightarrow> reply \<times> web_state" where
  "settings_access_post e rq =
     answer_or (admit ''admin'' rq) (\<lambda>_ s.
       let f = rq_form rq; role = form_text f ''anonymous_role'' (ascii ''viewer''); ui = ac_admin_ui (web_config s);
           lang = or_else (form_text f ''default_language'' []) (ui_language ui);
           lang' = (if lang \<in> set UI_LANGUAGES then lang else ui_language ui) in
       if role \<notin> set ROLES then (Page_error ''BadRole'', s)
       else case (if posted f ''session_minutes'' then map_sum id VInt (minutes_s (form_text f ''session_minutes'' []))
                  else Inr (ac_session_timeout_s (web_config s))) of
         Inl Not_minutes \<Rightarrow> (Page_error ''BadMinutes'', s)
       | Inl Overflows \<Rightarrow> (Raises R_overflow, s)
       | Inr t \<Rightarrow>
           try_change e (\<lambda>c. c\<lparr>ac_admin_ui := (ac_admin_ui c)\<lparr>ui_require_login := checkbox f ''require_login'', ui_anonymous_role := role,
             ui_language := lang'\<rparr>, ac_session_timeout_s := t\<rparr>) s)"

text \<open>The token itself is shown once; \<open>random\<close> is \<open>secrets.token_urlsafe(32)\<close>.\<close>

definition settings_api_token_post :: "web_env \<Rightarrow> str \<Rightarrow> request \<Rightarrow> web_state \<Rightarrow> reply \<times> web_state" where
  "settings_api_token_post e random rq =
     answer_or (admit ''admin'' rq) (\<lambda>_ s.
       let role = form_text (rq_form rq) ''api_token_role'' (ascii ''admin'');
           role' = (if role \<in> set ROLES then role else ascii ''admin'') in
       case hash_token (en_sha256 e) (new_api_token random) of
         Inl err \<Rightarrow> (Raises (R_auth err), s)
       | Inr h \<Rightarrow> must_change e (\<lambda>c. c\<lparr>ac_api_token_hash := h, ac_api_token_role := role'\<rparr>) Page_ok s)"

definition settings_api_token_revoke :: "web_env \<Rightarrow> request \<Rightarrow> web_state \<Rightarrow> reply \<times> web_state" where
  "settings_api_token_revoke e rq =
     answer_or (admit ''admin'' rq) (\<lambda>_. must_change e (\<lambda>c. c\<lparr>ac_api_token_hash := []\<rparr>) Page_ok)"

definition set_tls :: "str \<Rightarrow> str \<Rightarrow> app_config \<Rightarrow> app_config" where
  "set_tls cert key c = c\<lparr>ac_admin_ui := (ac_admin_ui c)\<lparr>ui_tls_cert := cert, ui_tls_key := key\<rparr>\<rparr>"

definition settings_tls_post :: "web_env \<Rightarrow> request \<Rightarrow> web_state \<Rightarrow> reply \<times> web_state" where
  "settings_tls_post e rq =
     answer_or (admit ''admin'' rq) (\<lambda>_. try_change e (set_tls (form_strip (rq_form rq) ''tls_cert'') (form_strip (rq_form rq) ''tls_key'')))"

text \<open>\<open>generated\<close>: whether the certificate and its key were written to these paths.\<close>

definition settings_tls_generate :: "web_env \<Rightarrow> bool \<Rightarrow> str \<Rightarrow> str \<Rightarrow> request \<Rightarrow> web_state \<Rightarrow> reply \<times> web_state" where
  "settings_tls_generate e generated cert key rq =
     answer_or (admit ''admin'' rq) (\<lambda>_ s.
       if \<not> generated then (Page_error ''NoCertificate'', s) else must_change e (set_tls cert key) Page_ok s)"

section \<open>Directory, single sign-on, notifications, cluster\<close>

definition settings_ldap_post :: "web_env \<Rightarrow> request \<Rightarrow> web_state \<Rightarrow> reply \<times> web_state" where
  "settings_ldap_post e rq =
     answer_or (admit ''admin'' rq) (\<lambda>_. try_change e (\<lambda>c. c\<lparr>ac_ldap := ldap_from_form (rq_form rq) (ac_ldap c)\<rparr>))"

definition settings_oidc_post :: "web_env \<Rightarrow> request \<Rightarrow> web_state \<Rightarrow> reply \<times> web_state" where
  "settings_oidc_post e rq =
     answer_or (admit ''admin'' rq) (\<lambda>_. try_change e (\<lambda>c. c\<lparr>ac_oidc := oidc_from_form (rq_form rq) (ac_oidc c)\<rparr>))"

text \<open>\<open>_notify_from_form\<close>: the number errors first; the names of the events are ASCII, and so are the fields of their boxes.\<close>

definition event_names :: "string list" where
  "event_names = [''device_lost'', ''device_back'', ''start_failed'', ''client_connected'', ''client_disconnected'', ''login_failed'']"

definition notify_from_form :: "form \<Rightarrow> notification_settings \<Rightarrow> minutes_error + notification_settings" where
  "notify_from_form f old =
     (case (let p = form_text f ''notify_smtp_port'' [] in if p = [] then Some 587 else py_int p) of
        None \<Rightarrow> Inl Not_minutes
      | Some port \<Rightarrow>
          rbind (let r = form_text f ''notify_repeat_min'' [] in if r = [] then Inr 300 else minutes_s r) (\<lambda>repeat.
          let url = form_strip f ''notify_webhook_url'' in
          Inr \<lparr>nt_enabled = checkbox f ''notify_enabled'',
            nt_events = map ascii (filter (\<lambda>ev. checkbox f (''notify_event_'' @ ev)) event_names),
            nt_repeat_s = VInt repeat,
            nt_webhook_url = (if url \<noteq> [] then url else if checkbox f ''notify_webhook_clear'' then [] else nt_webhook_url old),
            nt_webhook_format = form_text f ''notify_webhook_format'' (ascii ''json''),
            nt_telegram_chat_id = form_strip f ''notify_telegram_chat_id'', nt_email_to = form_strip f ''notify_email_to'',
            nt_email_from = form_strip f ''notify_email_from'', nt_smtp_host = form_strip f ''notify_smtp_host'', nt_smtp_port = VInt port,
            nt_smtp_security = form_text f ''notify_smtp_security'' (ascii ''starttls''),
            nt_smtp_username = form_strip f ''notify_smtp_username'',
            nt_smtp_password = or_else (form_text f ''notify_smtp_password'' []) (nt_smtp_password old)\<rparr>))"

text \<open>With \<open>then=test\<close> a saved change also sends a test message, which changes the text of the page only.\<close>

definition settings_notifications_post :: "web_env \<Rightarrow> request \<Rightarrow> web_state \<Rightarrow> reply \<times> web_state" where
  "settings_notifications_post e rq =
     answer_or (admit ''admin'' rq) (\<lambda>_ s.
       case notify_from_form (rq_form rq) (ac_notifications (web_config s)) of
         Inl Not_minutes \<Rightarrow> (Refused_page (ConfigError ''NotifyNumbers''), s)
       | Inl Overflows \<Rightarrow> (Raises R_overflow, s)
       | Inr n \<Rightarrow> try_change e (\<lambda>c. c\<lparr>ac_notifications := n\<rparr>) s)"

text \<open>A saved change restarts the discovery.\<close>

definition settings_cluster_post :: "web_env \<Rightarrow> request \<Rightarrow> web_state \<Rightarrow> reply \<times> web_state" where
  "settings_cluster_post e rq =
     answer_or (admit ''admin'' rq) (\<lambda>_ s.
       let f = rq_form rq; p = form_text f ''discovery_port'' [] in
       case (if p = [] then Some 41750 else py_int p) of
         None \<Rightarrow> (Page_error ''BadPort'', s)
       | Some port \<Rightarrow>
           let (r, s') = try_change e (\<lambda>c. c\<lparr>ac_cluster := \<lparr>cl_enabled = (form_get f ''enabled'' = Some (ascii ''on'')),
                 cl_key = form_strip f ''key'', cl_discovery_port = VInt port, cl_advertise_ip = form_strip f ''advertise_ip'',
                 cl_peers = filter (\<lambda>l. l \<noteq> []) (map strip (splitlines False (form_text f ''peers'' [])))\<rparr>\<rparr>) s in
           (r, if r = Page_ok then s'\<lparr>ws_cluster_restarts := ws_cluster_restarts s' + 1\<rparr> else s'))"

section \<open>Imports and backups\<close>

definition PENDING_TTL_S :: real where "PENDING_TTL_S = 900"

definition pending_put :: "real \<Rightarrow> str \<Rightarrow> str \<Rightarrow> mapping_config list \<Rightarrow> (str \<times> pending) list \<Rightarrow> (str \<times> pending) list" where
  "pending_put now token who plan pend =
     (let live = filter (\<lambda>(_, v). \<not> now - pd_created v > PENDING_TTL_S) pend in
      AList.update token \<lparr>pd_created = now, pd_user = who, pd_plan = plan\<rparr> (drop (length live - 19) live))"

definition pending_get :: "real \<Rightarrow> str \<Rightarrow> str \<Rightarrow> (str \<times> pending) list \<Rightarrow> pending option" where
  "pending_get now token who pend =
     (case map_of pend token of
        None \<Rightarrow> None
      | Some v \<Rightarrow> if pd_user v \<noteq> who \<or> now - pd_created v > PENDING_TTL_S then None else Some v)"

definition who :: "request \<Rightarrow> str" where
  "who rq = (case rq_user rq of None \<Rightarrow> [] | Some u \<Rightarrow> us_username u)"

text \<open>What the import of mappings needs besides the request: the word class, the identity of NaNs and the fresh ids.\<close>

record import_env =
  ie_isword :: "nat \<Rightarrow> bool"
  ie_same :: "f64 \<Rightarrow> f64 \<Rightarrow> bool"
  ie_fresh :: "nat \<Rightarrow> str"

definition run_import :: "web_env \<Rightarrow> import_env \<Rightarrow> mapping_config list \<Rightarrow> str \<Rightarrow> web_state \<Rightarrow> reply \<times> web_state" where
  "run_import e ie plan mode s =
     (case import_mappings (ie_isword ie) (en_isfile e) (ie_same ie) (ie_fresh ie) plan mode (ws_ops s) of
        (Refused_with err, ops) \<Rightarrow> (Refused_page err, s\<lparr>ws_ops := ops\<rparr>)
      | (Escaped err, ops) \<Rightarrow> (Raises (R_config err), s\<lparr>ws_ops := ops\<rparr>)
      | (_, ops) \<Rightarrow> (Page_ok, s\<lparr>ws_ops := ops\<rparr>))"

text \<open>\<open>config_import\<close>: \<open>plan\<close> is what \<open>parse_mappings_file\<close> made of the upload. The preview tells whether the result would validate and
  keeps the plan for the user; without a preview step the mappings are replaced at once.\<close>

definition config_import :: "web_env \<Rightarrow> import_env \<Rightarrow> real \<Rightarrow> str \<Rightarrow> config_error + mapping_config list \<Rightarrow> request \<Rightarrow> web_state \<Rightarrow> reply \<times> web_state" where
  "config_import e ie now token plan rq =
     answer_or (admit ''operator'' rq) (\<lambda>_ s.
       let f = rq_form rq; mode = form_text f ''mode'' (ascii ''merge'') in
       case plan of
         Inl err \<Rightarrow> (Refused_page err, s)
       | Inr ms \<Rightarrow>
           if form_get f ''step'' \<noteq> Some (ascii ''preview'') then run_import e ie ms (ascii ''replace'') s
           else case apply_import (ie_isword ie) (ie_same ie) (ie_fresh ie) (mappings_of (ws_ops s)) ms mode of
             Inl _ \<Rightarrow> (Page_error ''BadMode'', s)
           | Inr (cand, _) \<Rightarrow>
               (Preview token (case validate_app (en_isfile e) ((web_config s)\<lparr>ac_mappings := cand\<rparr>) of Inl err \<Rightarrow> Some err | Inr _ \<Rightarrow> None),
                s\<lparr>ws_pending := pending_put now token (who rq) ms (ws_pending s)\<rparr>))"

definition config_import_apply :: "web_env \<Rightarrow> import_env \<Rightarrow> real \<Rightarrow> request \<Rightarrow> web_state \<Rightarrow> reply \<times> web_state" where
  "config_import_apply e ie now rq =
     answer_or (admit ''operator'' rq) (\<lambda>_ s.
       let f = rq_form rq; token = form_text f ''token'' []; mode = form_text f ''mode'' (ascii ''merge'') in
       case pending_get now token (who rq) (ws_pending s) of
         None \<Rightarrow> (Page_error ''Expired'', s)
       | Some item \<Rightarrow>
           if mode \<notin> set [ascii ''merge'', ascii ''replace''] then (Page_error ''BadMode'', s)
           else run_import e ie (pd_plan item) mode (s\<lparr>ws_pending := AList.delete token (ws_pending s)\<rparr>))"

text \<open>\<open>backup_restore\<close>: \<open>restored\<close> is the configuration read from the backup, \<open>None\<close> if it cannot be read. The secret key and the
  node's id stay.\<close>

definition restore_config :: "app_config \<Rightarrow> app_config \<Rightarrow> app_config" where
  "restore_config restored cur = restored\<lparr>ac_secret_key := ac_secret_key cur, ac_instance_id := ac_instance_id cur\<rparr>"

definition backup_restore :: "web_env \<Rightarrow> app_config option \<Rightarrow> request \<Rightarrow> web_state \<Rightarrow> reply \<times> web_state" where
  "backup_restore e restored rq =
     answer_or (admit ''admin'' rq) (\<lambda>_ s.
       case restored of
         None \<Rightarrow> (Page_error ''NoBackup'', s)
       | Some c \<Rightarrow>
           if ac_users c = [] then (Page_error ''NoAccounts'', s)
           else let (r, s') = try_change e (restore_config c) s in
             (r, if r = Page_ok
                 then s'\<lparr>ws_ops := add_calls [C_stop_all, C_start_all (mappings_of (ws_ops s'))] (ws_ops s'),
                   ws_cluster_restarts := ws_cluster_restarts s' + 1\<rparr>
                 else s'))"

section \<open>The audit page\<close>

definition AUDIT_PAGE :: nat where "AUDIT_PAGE = 100"

definition record_text :: "audit_record \<Rightarrow> str" where
  "record_text r = (case r of (t, ip, act, d, u) \<Rightarrow> join_with 9 [t, ip, act, d, u])"

text \<open>\<open>_audit_records\<close>: the records left by the three filters (stripped; an empty one keeps all).\<close>

definition audit_records :: "(str \<Rightarrow> str) \<Rightarrow> str \<Rightarrow> str \<Rightarrow> str \<Rightarrow> audit_record list \<Rightarrow> audit_record list" where
  "audit_records lower q act user rs =
     (let q' = strip q; act' = strip act; user' = strip user in
      filter (\<lambda>r. q' = [] \<or> contains_sub (lower q') (lower (record_text r)))
        (filter (\<lambda>(_, _, _, _, u). user' = [] \<or> u = user')
          (filter (\<lambda>(_, _, a, _, _). act' = [] \<or> a = act') rs)))"

text \<open>\<open>audit_page\<close>: the number of pages, the page shown for the query's \<open>page\<close>, and its rows.\<close>

definition audit_pages :: "'a list \<Rightarrow> nat" where
  "audit_pages rs = max 1 ((length rs + AUDIT_PAGE - 1) div AUDIT_PAGE)"

definition audit_page_no :: "str option \<Rightarrow> 'a list \<Rightarrow> nat" where
  "audit_page_no page rs =
     (let p = (case py_int (case page of None \<Rightarrow> ascii ''1'' | Some v \<Rightarrow> v) of None \<Rightarrow> 1 | Some i \<Rightarrow> max 1 i) in
      min (nat p) (audit_pages rs))"

definition audit_rows :: "nat \<Rightarrow> 'a list \<Rightarrow> 'a list" where
  "audit_rows page rs = take AUDIT_PAGE (drop ((page - 1) * AUDIT_PAGE) rs)"

text \<open>\<open>_csv_cell\<close>: a character that starts a formula is quoted.\<close>

definition formula_start :: "nat \<Rightarrow> bool" where
  "formula_start c \<longleftrightarrow> c \<in> {61, 43, 45, 64, 9, 13}"

definition csv_cell :: "str \<Rightarrow> str" where
  "csv_cell v = (case v of [] \<Rightarrow> [] | c # _ \<Rightarrow> if formula_start c then 39 # v else v)"

section \<open>Every request\<close>

datatype web_op =
    W_login str real "str list option" request
  | W_sso "json \<Rightarrow> str" "auth_error + (str \<times> json) list option" str str "(str \<times> json) list option"
  | W_setup bytes request
  | W_password bytes request
  | W_create bytes request
  | W_role str request
  | W_delete str request
  | W_access request
  | W_token str request
  | W_revoke request
  | W_tls request
  | W_tls_generate bool str str request
  | W_ldap request
  | W_oidc request
  | W_notify request
  | W_cluster request
  | W_import import_env real str "config_error + mapping_config list" request
  | W_import_apply import_env real request
  | W_restore "app_config option" request

fun run_web :: "web_env \<Rightarrow> web_op \<Rightarrow> web_state \<Rightarrow> reply \<times> web_state" where
  "run_web e (W_login ip now groups rq) s = login_post e ip now groups rq s"
| "run_web e (W_sso pystr sealed code st claims) s = oidc_callback e pystr sealed code st claims s"
| "run_web e (W_setup salt rq) s = setup_post e salt rq s"
| "run_web e (W_password salt rq) s = settings_password_post e salt rq s"
| "run_web e (W_create salt rq) s = settings_users_create e salt rq s"
| "run_web e (W_role name rq) s = settings_users_role e name rq s"
| "run_web e (W_delete name rq) s = settings_users_delete e name rq s"
| "run_web e (W_access rq) s = settings_access_post e rq s"
| "run_web e (W_token random rq) s = settings_api_token_post e random rq s"
| "run_web e (W_revoke rq) s = settings_api_token_revoke e rq s"
| "run_web e (W_tls rq) s = settings_tls_post e rq s"
| "run_web e (W_tls_generate ok cert key rq) s = settings_tls_generate e ok cert key rq s"
| "run_web e (W_ldap rq) s = settings_ldap_post e rq s"
| "run_web e (W_oidc rq) s = settings_oidc_post e rq s"
| "run_web e (W_notify rq) s = settings_notifications_post e rq s"
| "run_web e (W_cluster rq) s = settings_cluster_post e rq s"
| "run_web e (W_import ie now token plan rq) s = config_import e ie now token plan rq s"
| "run_web e (W_import_apply ie now rq) s = config_import_apply e ie now rq s"
| "run_web e (W_restore restored rq) s = backup_restore e restored rq s"

primrec run_webs :: "web_env \<Rightarrow> web_op list \<Rightarrow> web_state \<Rightarrow> reply list \<times> web_state" where
  "run_webs e [] s = ([], s)"
| "run_webs e (op # ops) s = (let (r, s1) = run_web e op s; (rs, s2) = run_webs e ops s1 in (r # rs, s2))"

section \<open>Lemmas: saving\<close>

named_theorems handler_defs \<open>the handlers that change accounts or settings\<close>

declare settings_password_post_def [handler_defs] settings_users_create_def [handler_defs] settings_users_role_def [handler_defs]
  settings_users_delete_def [handler_defs] settings_access_post_def [handler_defs] settings_api_token_post_def [handler_defs]
  settings_api_token_revoke_def [handler_defs] settings_tls_post_def [handler_defs] settings_tls_generate_def [handler_defs]
  settings_ldap_post_def [handler_defs] settings_oidc_post_def [handler_defs] settings_notifications_post_def [handler_defs]
  settings_cluster_post_def [handler_defs] config_import_def [handler_defs] config_import_apply_def [handler_defs]
  backup_restore_def [handler_defs] Let_def [handler_defs]

text \<open>The state after a saved change.\<close>

definition saved :: "app_config \<Rightarrow> web_state \<Rightarrow> web_state" where
  "saved c s = s\<lparr>ws_ops := (ws_ops s)\<lparr>op_config := c, op_disk := c\<rparr>\<rparr>"

lemma saved_simps [simp]: "web_config (saved c s) = c" "op_disk (ws_ops (saved c s)) = c" "ws_pending (saved c s) = ws_pending s"
  "ws_limiter (saved c s) = ws_limiter s"
  by (simp_all add: saved_def)

lemma try_change_eq:
  "try_change e g s =
     (case validate_app (en_isfile e) (g (web_config s)) of Inl err \<Rightarrow> (Refused_page err, s) | Inr _ \<Rightarrow> (Page_ok, saved (g (web_config s)) s))"
  by (auto simp: try_change_def change_config_def asave_def saved_def split: sum.splits)

lemma must_change_eq:
  "must_change e g a s =
     (case validate_app (en_isfile e) (g (web_config s)) of
        Inl err \<Rightarrow> (Raises (R_config err), change_config g s) | Inr _ \<Rightarrow> (a, saved (g (web_config s)) s))"
  by (auto simp: must_change_def change_config_def asave_def saved_def split: sum.splits)

lemma change_config_config [simp]: "web_config (change_config g s) = g (web_config s)"
  by (simp add: change_config_def)

lemma answer_or_simps [simp]: "answer_or (Inl r) k s = (r, s)" "answer_or (Inr x) k s = k x s"
  by (simp_all add: answer_or_def)

text \<open>A refusal before the change is never a validation error that leaves the handler.\<close>

lemma admit_Inl: "admit role rq = Inl r \<Longrightarrow> r \<noteq> Raises (R_config x)" "csrf_check rq = Inl r \<Longrightarrow> r \<noteq> Raises (R_config x)"
  by (auto simp: admit_def csrf_check_def split: if_splits sum.splits)

lemma admit_page: "admit role rq = Inl r \<Longrightarrow> r \<noteq> Page_ok \<and> r \<noteq> Session_for n v" "csrf_check rq = Inl r \<Longrightarrow> r \<noteq> Page_ok \<and> r \<noteq> Session_for n v"
  by (auto simp: admit_def csrf_check_def split: if_splits sum.splits)

lemma admit_Inr: "admit role rq = Inr x \<Longrightarrow> require_role (rq_user rq) (ascii role)"
  by (simp add: admit_def split: if_splits)

text \<open>Accounts and token are not part of the validation.\<close>

lemma validate_accounts [simp]:
  "validate_app isfile (c\<lparr>ac_users := us\<rparr>) = validate_app isfile c"
  "validate_app isfile (c\<lparr>ac_api_token_hash := h\<rparr>) = validate_app isfile c"
  "validate_app isfile (c\<lparr>ac_api_token_role := rl\<rparr>) = validate_app isfile c"
  by (simp_all add: validate_app_def validate_admin_def)

lemma validate_update_user [simp]: "validate_app isfile (update_user name g c) = validate_app isfile c"
  by (simp add: update_user_def)

lemma validate_upsert [simp]: "validate_app isfile (fst (upsert_external_user c name role source)) = validate_app isfile c"
  by (auto simp: upsert_external_user_def Let_def split: option.splits)

lemma validate_set_tls:
  assumes "validate_app isfile c = Inr ()" and "isfile cert" "isfile key" "cert \<noteq> []" "key \<noteq> []"
  shows "validate_app isfile (set_tls cert key c) = Inr ()"
  using assms by (auto simp: validate_app_def validate_admin_def set_tls_def Let_def rbind_eq_Inr)

section \<open>Lemmas: accounts\<close>

lemma count_update_first:
  "find p xs = Some u \<Longrightarrow> length (filter q (update_first p f xs)) + of_bool (q u) = length (filter q xs) + of_bool (q (f u))"
  by (induction xs) (auto split: if_splits)

lemma count_filter_out:
  assumes "distinct (map f xs)" and "find (\<lambda>x. f x = n) xs = Some u"
  shows "length (filter q (filter (\<lambda>x. f x \<noteq> n) xs)) + of_bool (q u) = length (filter q xs)"
  using assms
proof (induction xs)
  case (Cons x xs)
  have "filter (\<lambda>x. f x \<noteq> f y \<and> q x) xs = filter q xs" if "f y \<notin> f ` set xs" for y
    using that by (intro filter_cong) (auto simp: image_iff)
  then show ?case using Cons by (auto split: if_splits)
qed simp

lemma update_first_absent: "find p xs = None \<Longrightarrow> update_first p f xs = xs"
  by (induction xs) (auto split: if_splits)

lemma map_update_first: "(\<And>x. g (f x) = g x) \<Longrightarrow> map g (update_first p f xs) = map g xs"
  by (induction xs) auto

lemma get_user_name: "get_user c name = Some u \<Longrightarrow> us_username u = name \<and> u \<in> set (ac_users c)"
  by (auto simp: get_user_def find_Some_iff)

lemma get_user_None: "get_user c name = None \<longleftrightarrow> name \<notin> us_username ` set (ac_users c)"
  by (auto simp: get_user_def find_None_iff)

lemma get_update_user:
  assumes "\<And>u. us_username (g u) = us_username u"
  shows "get_user (update_user name g c) n = (if n = name then map_option g (get_user c n) else get_user c n)"
  using assms find_update_first [of "\<lambda>u. us_username u = name" g "ac_users c"]
    find_update_other [of "\<lambda>u. us_username u = n" "\<lambda>u. us_username u = name" g "ac_users c"]
  by (auto simp: get_user_def update_user_def)

lemma names_update_user: "(\<And>u. us_username (g u) = us_username u) \<Longrightarrow> map us_username (ac_users (update_user name g c)) = map us_username (ac_users c)"
  by (simp add: update_user_def map_update_first)

text \<open>What the settings keep: the configuration validates and is the one on disk, the account names are different, and there is an
  administrator.\<close>

definition sound_state :: "web_env \<Rightarrow> web_state \<Rightarrow> bool" where
  "sound_state e s \<longleftrightarrow> valid_on_disk (en_isfile e) (ws_ops s) \<and> distinct (map us_username (ac_users (web_config s))) \<and>
     0 < admin_count (web_config s)"

definition good :: "web_env \<Rightarrow> reply \<times> web_state \<Rightarrow> bool" where
  "good e rs \<longleftrightarrow> sound_state e (snd rs) \<and> (\<forall>x. fst rs \<noteq> Raises (R_config x))"

lemma good_pair: "good e (r, s) \<longleftrightarrow> sound_state e s \<and> (\<forall>x. r \<noteq> Raises (R_config x))"
  by (simp add: good_def)

lemma good_answer_or:
  assumes "\<And>r x. c = Inl r \<Longrightarrow> r \<noteq> Raises (R_config x)" and "sound_state e s" and "\<And>y. c = Inr y \<Longrightarrow> good e (k y s)"
  shows "good e (answer_or c k s)"
  using assms by (cases c) (auto simp: good_pair)

text \<open>A change that keeps the accounts, saved or refused.\<close>

lemma good_try:
  assumes "sound_state e s" and "ac_users (g (web_config s)) = ac_users (web_config s)"
  shows "good e (try_change e g s)"
  using assms by (auto simp: try_change_eq good_pair sound_state_def valid_on_disk_def admin_count_def split: sum.splits)

lemma good_must:
  assumes "sound_state e s" and "validate_app (en_isfile e) (g (web_config s)) = Inr ()" and "\<And>x. a \<noteq> Raises (R_config x)"
    and "distinct (map us_username (ac_users (g (web_config s))))" and "0 < admin_count (g (web_config s))"
  shows "good e (must_change e g a s)"
  using assms by (auto simp: must_change_eq good_pair sound_state_def valid_on_disk_def)

lemma sound_valid: "sound_state e s \<Longrightarrow> validate_app (en_isfile e) (web_config s) = Inr ()"
  by (simp add: sound_state_def valid_on_disk_def)

lemma good_password:
  assumes "sound_state e s"
  shows "good e (settings_password_post e salt rq s)"
proof -
  have c: "admin_count (update_user name (\<lambda>v. v\<lparr>us_password_hash := h, us_pwd_version := us_pwd_version v + 1\<rparr>) cfg) = admin_count cfg" for name h cfg
  proof (cases "find (\<lambda>u. us_username u = name) (ac_users cfg)")
    case None
    then show ?thesis by (simp add: update_user_def admin_count_def update_first_absent)
  next
    case (Some u)
    then show ?thesis using count_update_first [OF Some, of "\<lambda>u. us_role u = ascii ''admin''"
      "\<lambda>v. v\<lparr>us_password_hash := h, us_pwd_version := us_pwd_version v + 1\<rparr>"] by (simp add: update_user_def admin_count_def)
  qed
  have "good e (must_change e (update_user name (\<lambda>v. v\<lparr>us_password_hash := h, us_pwd_version := us_pwd_version v + 1\<rparr>)) (Session_for n v) s)" for name h n v
    using assms c by (intro good_must) (auto simp: sound_valid names_update_user sound_state_def)
  then show ?thesis using assms unfolding settings_password_post_def Let_def
    by (intro good_answer_or admit_Inl(2)) (auto simp: good_pair split: option.splits)
qed

lemma good_role:
  assumes "sound_state e s"
  shows "good e (settings_users_role e name rq s)"
  unfolding settings_users_role_def
proof (intro good_answer_or assms)
  fix r x assume "role_check name rq s = Inl r"
  then show "r \<noteq> Raises (R_config x)" using admit_Inl(1)
    by (auto simp: role_check_def Let_def rbind_eq_Inl split: option.splits if_splits)
next
  fix role assume "role_check name rq s = Inr role"
  then obtain u where u: "get_user (web_config s) name = Some u"
    and a: "\<not> (us_role u = ascii ''admin'' \<and> role \<noteq> ascii ''admin'' \<and> admin_count (web_config s) \<le> 1)"
    by (auto simp: role_check_def Let_def rbind_eq_Inr split: option.splits if_splits)
  let ?f = "\<lambda>u. u\<lparr>us_role := role, us_pwd_version := us_pwd_version u + 1\<rparr>"
  have "admin_count (update_user name ?f (web_config s)) + of_bool (us_role u = ascii ''admin'') = admin_count (web_config s) + of_bool (role = ascii ''admin'')"
    using count_update_first [OF u [unfolded get_user_def], of "\<lambda>u. us_role u = ascii ''admin''" ?f] by (simp add: update_user_def admin_count_def)
  moreover have "0 < admin_count (web_config s)" using assms by (simp add: sound_state_def)
  ultimately have "0 < admin_count (update_user name ?f (web_config s))" using a
    by (cases "us_role u = ascii ''admin''"; cases "role = ascii ''admin''"; simp)
  then show "good e (role_commit e name role s)" using assms unfolding role_commit_def
    by (intro good_must) (auto simp: sound_valid names_update_user sound_state_def)
qed

lemma good_delete:
  assumes "sound_state e s"
  shows "good e (settings_users_delete e name rq s)"
  unfolding settings_users_delete_def
proof (intro good_answer_or assms)
  fix r x assume "delete_check name rq s = Inl r"
  then show "r \<noteq> Raises (R_config x)" using admit_Inl(1)
    by (auto simp: delete_check_def rbind_eq_Inl split: option.splits if_splits)
next
  fix y assume "delete_check name rq s = Inr y"
  then obtain u where u: "get_user (web_config s) name = Some u" and a: "\<not> (us_role u = ascii ''admin'' \<and> admin_count (web_config s) \<le> 1)"
    by (auto simp: delete_check_def rbind_eq_Inr split: option.splits if_splits)
  let ?us = "ac_users (web_config s)"
  have d: "distinct (map us_username ?us)" using assms by (simp add: sound_state_def)
  have "admin_count ((web_config s)\<lparr>ac_users := filter (\<lambda>u. us_username u \<noteq> name) ?us\<rparr>) + of_bool (us_role u = ascii ''admin'') = admin_count (web_config s)"
    using count_filter_out [OF d u [unfolded get_user_def], of "\<lambda>u. us_role u = ascii ''admin''"] by (simp add: admin_count_def)
  moreover have "0 < admin_count (web_config s)" using assms by (simp add: sound_state_def)
  ultimately have "0 < admin_count ((web_config s)\<lparr>ac_users := filter (\<lambda>u. us_username u \<noteq> name) ?us\<rparr>)" using a
    by (cases "us_role u = ascii ''admin''"; simp)
  then show "good e (delete_commit e name s)" using assms d unfolding delete_commit_def
    by (intro good_must) (auto simp: sound_valid distinct_map_filter)
qed

lemma good_create:
  assumes "sound_state e s"
  shows "good e (settings_users_create e salt rq s)"
  unfolding settings_users_create_def
proof (intro good_answer_or assms)
  fix r x assume "create_check e salt rq s = Inl r"
  then show "r \<noteq> Raises (R_config x)" using admit_Inl(1)
    by (auto simp: create_check_def Let_def rbind_eq_Inl split: option.splits if_splits)
next
  fix u assume "create_check e salt rq s = Inr u"
  then have "get_user (web_config s) (us_username u) = None"
    by (auto simp: create_check_def Let_def rbind_eq_Inr split: option.splits if_splits)
  then show "good e (create_commit e u s)" using assms unfolding create_commit_def
    by (intro good_must) (auto simp: sound_valid get_user_None sound_state_def admin_count_def)
qed

lemma good_login:
  assumes "sound_state e s"
  shows "good e (login_post e ip now None rq s)"
proof -
  have f: "good e (login_failed ip now s1)" if "sound_state e s1" for s1
    using that by (simp add: login_failed_def good_pair sound_state_def)
  have l: "sound_state e (s\<lparr>ws_limiter := lim\<rparr>)" for lim using assms by (simp add: sound_state_def)
  show ?thesis using assms f l unfolding login_post_def
    by (intro good_answer_or admit_Inl(2))
      (auto simp: good_pair directory_login_def Let_def split: option.splits prod.splits)
qed

lemma good_setup: "sound_state e s \<Longrightarrow> good e (setup_post e salt rq s)"
  by (auto simp: setup_post_def good_pair sound_state_def admin_count_def)

lemma import_config:
  "web_config (snd (run_import e ie plan mode s)) = (web_config s)\<lparr>ac_mappings := ac_mappings (web_config (snd (run_import e ie plan mode s)))\<rparr>"
  by (auto simp: run_import_def import_mappings_def commit_def set_mappings_def add_calls_def asave_def rbind_def
      split: prod.splits outcome.splits sum.splits)

lemma good_import:
  assumes "sound_state e s" and "mode \<in> set [ascii ''merge'', ascii ''replace'']"
  shows "good e (run_import e ie plan mode s)"
proof -
  have m: "\<exists>ms t. apply_import isword same fresh cur plan mode = Inr (ms, t)" for isword same fresh cur
    using assms(2) by (auto simp: apply_import_def Let_def split: prod.splits)
  have "valid_on_disk (en_isfile e) (ws_ops (snd (run_import e ie plan mode s))) \<and> (\<forall>x. fst (run_import e ie plan mode s) \<noteq> Raises (R_config x))"
    using assms(1) m [of "ie_isword ie" "ie_same ie" "ie_fresh ie" "mappings_of (ws_ops s)"]
    by (auto simp: run_import_def import_mappings_def commit_def set_mappings_def add_calls_def asave_def rbind_def sound_state_def valid_on_disk_def
        split: prod.splits outcome.splits sum.splits)
  moreover have "ac_users (web_config (snd (run_import e ie plan mode s))) = ac_users (web_config s)"
    by (subst import_config) simp
  ultimately show ?thesis using assms(1) by (simp add: good_def sound_state_def admin_count_def)
qed

lemma good_imports:
  assumes "sound_state e s"
  shows "good e (config_import e ie now token plan rq s)" and "good e (config_import_apply e ie now rq s)"
proof -
  have p: "sound_state e (s\<lparr>ws_pending := q\<rparr>)" for q using assms by (simp add: sound_state_def)
  show "good e (config_import e ie now token plan rq s)" using assms p good_import unfolding config_import_def
    by (intro good_answer_or admit_Inl(1)) (auto simp: good_pair Let_def split: sum.splits)
  show "good e (config_import_apply e ie now rq s)" using assms p good_import unfolding config_import_apply_def
    by (intro good_answer_or admit_Inl(1)) (auto simp: good_pair Let_def split: option.splits)
qed

text \<open>The requests after which there is still an administrator: everything but a restored backup and a sign-in through the directory or
  the identity provider, which bring their own accounts and roles. A generated certificate is where its path says.\<close>

fun keeps_admin :: "web_env \<Rightarrow> web_op \<Rightarrow> bool" where
  "keeps_admin e (W_login ip now groups rq) = (groups = None)"
| "keeps_admin e (W_sso pystr sealed code st claims) = False"
| "keeps_admin e (W_restore restored rq) = False"
| "keeps_admin e (W_tls_generate ok cert key rq) = (ok \<longrightarrow> en_isfile e cert \<and> en_isfile e key \<and> cert \<noteq> [] \<and> key \<noteq> [])"
| "keeps_admin e _ = True"

lemma good_run_web:
  assumes "sound_state e s" and "keeps_admin e op"
  shows "good e (run_web e op s)"
proof (cases op)
  case (W_access rq)
  show ?thesis using assms(1) unfolding W_access run_web.simps settings_access_post_def
    by (intro good_answer_or admit_Inl(1)) (auto simp: good_pair Let_def split: sum.splits minutes_error.splits intro!: good_try)
next
  case (W_token random rq)
  show ?thesis using assms(1) unfolding W_token run_web.simps settings_api_token_post_def
    by (intro good_answer_or admit_Inl(1))
      (auto simp: good_pair Let_def sound_valid split: sum.splits intro!: good_must simp: sound_state_def admin_count_def)
next
  case (W_revoke rq)
  have "good e (must_change e (\<lambda>c. c\<lparr>ac_api_token_hash := []\<rparr>) Page_ok s)"
    using assms(1) by (intro good_must) (auto simp: sound_valid, auto simp: sound_state_def admin_count_def)
  then show ?thesis using assms(1) unfolding W_revoke run_web.simps settings_api_token_revoke_def
    by (intro good_answer_or admit_Inl(1))
next
  case (W_tls rq)
  show ?thesis using assms(1) unfolding W_tls run_web.simps settings_tls_post_def
    by (intro good_answer_or admit_Inl(1) good_try) (auto simp: set_tls_def)
next
  case (W_tls_generate ok cert key rq)
  have "ac_users (set_tls cert key c) = ac_users c" for c by (simp add: set_tls_def)
  then have "good e (must_change e (set_tls cert key) Page_ok s)" if ok
    using that assms W_tls_generate by (intro good_must validate_set_tls) (auto simp: sound_valid, auto simp: sound_state_def admin_count_def)
  then show ?thesis using assms(1) unfolding W_tls_generate run_web.simps settings_tls_generate_def
    by (intro good_answer_or admit_Inl(1)) (auto simp: good_pair)
next
  case (W_ldap rq)
  show ?thesis using assms(1) unfolding W_ldap run_web.simps settings_ldap_post_def
    by (intro good_answer_or admit_Inl(1) good_try) auto
next
  case (W_oidc rq)
  show ?thesis using assms(1) unfolding W_oidc run_web.simps settings_oidc_post_def
    by (intro good_answer_or admit_Inl(1) good_try) auto
next
  case (W_notify rq)
  show ?thesis using assms(1) unfolding W_notify run_web.simps settings_notifications_post_def
    by (intro good_answer_or admit_Inl(1)) (auto simp: good_pair split: sum.splits minutes_error.splits intro!: good_try)
next
  case (W_cluster rq)
  have "good e (case try_change e g s of (r, s') \<Rightarrow> (r, if r = Page_ok then s'\<lparr>ws_cluster_restarts := n s'\<rparr> else s'))"
    if "\<And>c. ac_users (g c) = ac_users c" for g n
    using good_try [OF assms(1), of g] that by (auto simp: good_def sound_state_def split: prod.splits)
  then show ?thesis using assms(1) unfolding W_cluster run_web.simps settings_cluster_post_def
    by (intro good_answer_or admit_Inl(1)) (auto simp: good_pair Let_def split: option.splits)
qed (use assms good_login good_setup good_password good_create good_role good_delete good_imports in auto)

section \<open>Lemmas: who may change what\<close>

text \<open>The request of an operation on the settings; a sign-in and the first setup have no user yet.\<close>

fun op_request :: "web_op \<Rightarrow> request option" where
  "op_request (W_login ip now groups rq) = None"
| "op_request (W_sso pystr sealed code st claims) = None"
| "op_request (W_setup salt rq) = None"
| "op_request (W_password salt rq) = Some rq"
| "op_request (W_create salt rq) = Some rq"
| "op_request (W_role name rq) = Some rq"
| "op_request (W_delete name rq) = Some rq"
| "op_request (W_access rq) = Some rq"
| "op_request (W_token random rq) = Some rq"
| "op_request (W_revoke rq) = Some rq"
| "op_request (W_tls rq) = Some rq"
| "op_request (W_tls_generate ok cert key rq) = Some rq"
| "op_request (W_ldap rq) = Some rq"
| "op_request (W_oidc rq) = Some rq"
| "op_request (W_notify rq) = Some rq"
| "op_request (W_cluster rq) = Some rq"
| "op_request (W_import ie now token plan rq) = Some rq"
| "op_request (W_import_apply ie now rq) = Some rq"
| "op_request (W_restore restored rq) = Some rq"

definition csrf_ok :: "request \<Rightarrow> bool" where
  "csrf_ok rq \<longleftrightarrow> csrf_token_matches (rq_csrf rq) (form_text (rq_form rq) ''_csrf'' []) = Inr True"

lemma not_csrf: "\<not> csrf_ok rq \<Longrightarrow> \<exists>r. csrf_check rq = Inl r" "\<not> csrf_ok rq \<Longrightarrow> \<exists>r. admit role rq = Inl r"
  by (auto simp: csrf_ok_def csrf_check_def admit_def split: sum.splits)

lemma not_admin: "\<not> require_role (rq_user rq) (ascii role) \<Longrightarrow> admit role rq = Inl Forbidden"
  by (simp add: admit_def)

lemmas check_defs = create_check_def role_check_def delete_check_def

lemma unadmitted_unchanged:
  assumes "op_request op = Some rq" and "\<not> csrf_ok rq"
  shows "snd (run_web e op s) = s"
proof -
  obtain a b c where "csrf_check rq = Inl a" "admit ''admin'' rq = Inl b" "admit ''operator'' rq = Inl c"
    using not_csrf [OF assms(2)] by metis
  then show ?thesis using assms(1) by (cases op) (auto simp: handler_defs check_defs)
qed

text \<open>The handlers that any user or an operator may call.\<close>

lemma admin_only:
  assumes "op_request op = Some rq" and "\<not> require_role (rq_user rq) (ascii ''admin'')"
    and "\<And>salt. op \<noteq> W_password salt rq" and "\<And>ie now token plan. op \<noteq> W_import ie now token plan rq"
    and "\<And>ie now. op \<noteq> W_import_apply ie now rq"
  shows "run_web e op s = (Forbidden, s)"
  using assms not_admin [of rq "''admin''"] by (cases op) (auto simp: handler_defs check_defs)

lemma password_effect:
  assumes "settings_password_post e salt rq s = (r, s')"
  shows "s' = s \<and> (\<forall>n v. r \<noteq> Session_for n v) \<or> (\<exists>me h. rq_user rq = Some me \<and> us_source me = ascii ''local'' \<and>
      verify_password (en_scrypt e) (form_text (rq_form rq) ''current'' []) (us_password_hash me) \<and>
      web_config s' = update_user (us_username me) (\<lambda>v. v\<lparr>us_password_hash := h, us_pwd_version := us_pwd_version v + 1\<rparr>) (web_config s))"
proof (cases "csrf_check rq")
  case (Inr x)
  then show ?thesis using assms
    by (auto simp: settings_password_post_def Let_def must_change_eq split: option.splits if_splits sum.splits)
qed (use assms in \<open>auto simp: settings_password_post_def csrf_check_def split: sum.splits if_splits\<close>)

lemma imports_config:
  assumes "op = W_import ie now token plan rq \<or> op = W_import_apply ie now rq"
  shows "web_config (snd (run_web e op s)) = (web_config s)\<lparr>ac_mappings := ac_mappings (web_config (snd (run_web e op s)))\<rparr>"
    and "\<not> require_role (rq_user rq) (ascii ''operator'') \<Longrightarrow> web_config (snd (run_web e op s)) = web_config s"
proof -
  have p: "web_config (s\<lparr>ws_pending := q\<rparr>) = web_config s" for q by simp
  have i: "web_config (snd (run_import e ie ms mode (s\<lparr>ws_pending := q\<rparr>))) =
      (web_config s)\<lparr>ac_mappings := ac_mappings (web_config (snd (run_import e ie ms mode (s\<lparr>ws_pending := q\<rparr>))))\<rparr>" for q ms mode
    using import_config [of e ie ms mode "s\<lparr>ws_pending := q\<rparr>"] by (simp add: p)
  show "web_config (snd (run_web e op s)) = (web_config s)\<lparr>ac_mappings := ac_mappings (web_config (snd (run_web e op s)))\<rparr>"
    using assms i import_config [of e ie _ _ s]
    by (cases "admit ''operator'' rq") (auto simp: handler_defs split: sum.splits option.splits prod.splits)
  show "web_config (snd (run_web e op s)) = web_config s" if "\<not> require_role (rq_user rq) (ascii ''operator'')"
    using assms not_admin [OF that] by (auto simp: handler_defs)
qed

text \<open>Only an administrator changes settings and accounts. A request without the matching cross-site token changes nothing at all.
  A request of anybody who is not an administrator changes at most the list of mappings, and that only as an operator, and the password
  hash and password version of the requester's own local account, and that only with the current password.\<close>
lemma settings_authorised:
  assumes "op_request op = Some rq" and "run_web e op s = (r, s')"
  shows "(s' = s \<or> csrf_token_matches (rq_csrf rq) (form_text (rq_form rq) ''_csrf'' []) = Inr True) \<and>
    (require_role (rq_user rq) (ascii ''admin'') \<or>
      web_config s' = (web_config s)\<lparr>ac_mappings := ac_mappings (web_config s'), ac_users := ac_users (web_config s')\<rparr> \<and>
      (ac_mappings (web_config s') = ac_mappings (web_config s) \<or> require_role (rq_user rq) (ascii ''operator'')) \<and>
      (ac_users (web_config s') = ac_users (web_config s) \<or>
        (\<exists>me h. rq_user rq = Some me \<and> us_source me = ascii ''local'' \<and>
          verify_password (en_scrypt e) (form_text (rq_form rq) ''current'' []) (us_password_hash me) \<and>
          ac_users (web_config s') = update_first (\<lambda>u. us_username u = us_username me)
            (\<lambda>u. u\<lparr>us_password_hash := h, us_pwd_version := us_pwd_version u + 1\<rparr>) (ac_users (web_config s)))))"
    (is "?csrf \<and> (?admin \<or> ?rest)")
proof
  show ?csrf using unadmitted_unchanged [OF assms(1), of e s] assms(2) by (auto simp: csrf_ok_def)
  show "?admin \<or> ?rest"
  proof (cases ?admin)
    case n: False
    consider (own) salt where "op = W_password salt rq" | (lists) ie now token plan where "op = W_import ie now token plan rq \<or> op = W_import_apply ie now rq"
      | (other) "s' = s" using admin_only [OF assms(1) n, of e s] assms(2) by fastforce
    then have ?rest
    proof cases
      case own
      then show ?thesis using password_effect [of e salt rq s r s'] assms(2) by (auto simp: update_user_def)
    next
      case lists
      have "s' = snd (run_web e op s)" using assms(2) by simp
      then show ?thesis using imports_config [OF lists, of e s]
        by (cases "web_config s"; cases "web_config s'"; cases "require_role (rq_user rq) (ascii ''operator'')") simp_all
    qed simp
    then show ?thesis ..
  qed simp
qed

section \<open>Lemmas: sessions after a change\<close>

text \<open>What a token says does not depend on when it is read.\<close>

lemma decode_same:
  assumes "decode_session hmac pystr secret now tok = Inr (Some a)" and "decode_session hmac pystr secret now' tok = Inr (Some b)"
  shows "a = b"
proof -
  obtain d where d: "unseal hmac secret now tok = Inr (Some d)" using assms(1) by (auto simp: decode_session_def rbind_eq_Inr split: option.splits)
  obtain d' where d': "unseal hmac secret now' tok = Inr (Some d')" using assms(2) by (auto simp: decode_session_def rbind_eq_Inr split: option.splits)
  have "d = d'" using d d' by (auto simp: unseal_def rbind_eq_Inr split: option.splits if_splits json.splits)
  then show ?thesis using assms d d' by (auto simp: decode_session_def rbind_eq_Inr)
qed

lemma session_user_cases:
  assumes "session_user hmac pystr cfg now tok = Inr (Some u)"
  obtains name where "decode_session hmac pystr (ac_secret_key cfg) now tok = Inr (Some (name, us_pwd_version u))" and "get_user cfg name = Some u"
proof -
  obtain r where r: "decode_session hmac pystr (ac_secret_key cfg) now tok = Inr r"
    "(case r of None \<Rightarrow> Inr None | Some (n, v) \<Rightarrow>
       case get_user cfg n of None \<Rightarrow> Inr None | Some usr \<Rightarrow> Inr (if us_pwd_version usr \<noteq> v then None else Some usr)) = (Inr (Some u) :: auth_error + user option)"
    using assms unfolding session_user_def rbind_eq_Inr by blast
  show thesis
  proof (cases r)
    case (Some nv)
    then show ?thesis using r that by (cases nv) (auto split: option.splits if_splits)
  qed (use r in simp)
qed

text \<open>The account stays and its password version does not go back; the secret stays.\<close>

definition grows :: "str \<Rightarrow> app_config \<Rightarrow> app_config \<Rightarrow> bool" where
  "grows name c c' \<longleftrightarrow> ac_secret_key c' = ac_secret_key c \<and>
     (\<forall>u. get_user c name = Some u \<longrightarrow> (\<exists>u'. get_user c' name = Some u' \<and> us_pwd_version u \<le> us_pwd_version u'))"

lemma grows_refl [simp]: "grows name c c"
  by (simp add: grows_def)

lemma grows_trans: "grows name a b \<Longrightarrow> grows name b c \<Longrightarrow> grows name a c"
  unfolding grows_def by (metis order_trans)

lemma grows_try: "grows name (web_config s) (g (web_config s)) \<Longrightarrow> grows name (web_config s) (web_config (snd (try_change e g s)))"
  by (auto simp: try_change_eq split: sum.splits)

lemma grows_must: "grows name (web_config s) (g (web_config s)) \<Longrightarrow> grows name (web_config s) (web_config (snd (must_change e g a s)))"
  by (auto simp: must_change_eq split: sum.splits)

lemma grows_answer:
  "(\<And>x. c = Inr x \<Longrightarrow> grows name (web_config s) (web_config (snd (k x s)))) \<Longrightarrow> grows name (web_config s) (web_config (snd (answer_or c k s)))"
  by (cases c) auto

lemma grows_same: "ac_secret_key c' = ac_secret_key c \<Longrightarrow> ac_users c' = ac_users c \<Longrightarrow> grows name c c'"
  by (simp add: grows_def get_user_def)

lemma grows_update:
  assumes "\<And>u. us_username (g u) = us_username u" and "\<And>u. us_pwd_version u \<le> us_pwd_version (g u)"
  shows "grows name c (update_user n g c)"
  using assms get_update_user [of g n c] by (auto simp: grows_def) (auto simp: update_user_def)

lemma grows_upsert: "grows name c (fst (upsert_external_user c n role source))"
proof (cases "get_user c n")
  case None
  then show ?thesis by (auto simp: upsert_external_user_def grows_def get_user_def Let_def find_append)
next
  case (Some u)
  then have "fst (upsert_external_user c n role source) = update_user n (refresh_external role source) c"
    by (simp add: upsert_external_user_def update_user_def)
  then show ?thesis by (simp add: grows_update refresh_external_def)
qed

lemma grows_external: "grows name (web_config s) (web_config (snd (external_sign_in e n role source s)))"
  unfolding external_sign_in_def using grows_upsert [of name "web_config s" n role source]
  by (auto simp: Let_def split_def intro: grows_must)

lemma grows_login: "grows name (web_config s) (web_config (snd (login_post e ip now groups rq s)))"
proof -
  have d: "grows name (web_config s1) (web_config (snd (directory_login e ip now groups n s1)))" for n s1
    using grows_external [of name s1 e n]
    by (auto simp: directory_login_def login_failed_def Let_def split: option.splits prod.splits reply.splits if_splits) (metis snd_conv)+
  have "grows name (web_config s) (web_config (snd (directory_login e ip now groups n (s\<lparr>ws_limiter := l\<rparr>))))" for n l
    using d [of "s\<lparr>ws_limiter := l\<rparr>" n] by simp
  then show ?thesis unfolding login_post_def
    by (intro grows_answer) (auto simp: Let_def login_failed_def split: option.splits prod.splits)
qed

text \<open>The requests that leave an account in place: not its deletion, and not a restored backup.\<close>

fun spares :: "str \<Rightarrow> web_op \<Rightarrow> bool" where
  "spares name (W_delete n rq) = (n \<noteq> name)"
| "spares name (W_restore restored rq) = False"
| "spares name _ = True"

lemma grows_accounts:
  shows "grows name (web_config s) (web_config (snd (settings_password_post e salt rq s)))"
    and "grows name (web_config s) (web_config (snd (settings_users_role e n rq s)))"
    and "grows name (web_config s) (web_config (snd (settings_users_create e salt rq s)))"
    and "n \<noteq> name \<Longrightarrow> grows name (web_config s) (web_config (snd (settings_users_delete e n rq s)))"
proof -
  show "grows name (web_config s) (web_config (snd (settings_password_post e salt rq s)))"
    using password_effect [of e salt rq s "fst (settings_password_post e salt rq s)" "snd (settings_password_post e salt rq s)"]
    by (auto intro!: grows_update)
  show "grows name (web_config s) (web_config (snd (settings_users_role e n rq s)))"
    unfolding settings_users_role_def role_commit_def by (intro grows_answer grows_must grows_update) auto
  show "grows name (web_config s) (web_config (snd (settings_users_create e salt rq s)))"
    unfolding settings_users_create_def create_commit_def
    by (intro grows_answer grows_must) (auto simp: grows_def get_user_def find_append)
  assume "n \<noteq> name"
  then have "find (\<lambda>u. us_username u = name) (filter (\<lambda>u. us_username u \<noteq> n) us) = find (\<lambda>u. us_username u = name) us" for us :: "user list"
    by (induction us) auto
  then show "grows name (web_config s) (web_config (snd (settings_users_delete e n rq s)))"
    unfolding settings_users_delete_def delete_commit_def by (intro grows_answer grows_must) (auto simp: grows_def get_user_def)
qed

lemma grows_settings:
  shows "grows name (web_config s) (web_config (snd (settings_access_post e rq s)))"
    and "grows name (web_config s) (web_config (snd (settings_notifications_post e rq s)))"
    and "grows name (web_config s) (web_config (snd (settings_cluster_post e rq s)))"
    and "grows name (web_config s) (web_config (snd (settings_api_token_post e random rq s)))"
    and "grows name (web_config s) (web_config (snd (settings_tls_generate e ok cert key rq s)))"
proof -
  show "grows name (web_config s) (web_config (snd (settings_access_post e rq s)))" unfolding settings_access_post_def
    by (intro grows_answer) (auto simp: Let_def split: sum.splits minutes_error.splits intro!: grows_try grows_same)
  show "grows name (web_config s) (web_config (snd (settings_notifications_post e rq s)))" unfolding settings_notifications_post_def
    by (intro grows_answer) (auto split: sum.splits minutes_error.splits intro!: grows_try grows_same)
  have "grows name (web_config s) (web_config (snd (case try_change e g s of (r, s') \<Rightarrow> (r, if r = Page_ok then s'\<lparr>ws_cluster_restarts := n s'\<rparr> else s'))))"
    if "\<And>c. ac_users (g c) = ac_users c" "\<And>c. ac_secret_key (g c) = ac_secret_key c" for g n
    using grows_try [of name s g e] that grows_same [of "g (web_config s)" "web_config s" name] by (auto split: prod.splits)
  then show "grows name (web_config s) (web_config (snd (settings_cluster_post e rq s)))" unfolding settings_cluster_post_def
    by (intro grows_answer) (auto simp: Let_def split: option.splits)
  show "grows name (web_config s) (web_config (snd (settings_api_token_post e random rq s)))" unfolding settings_api_token_post_def
    by (intro grows_answer) (auto simp: Let_def split: sum.splits intro!: grows_must grows_same)
  show "grows name (web_config s) (web_config (snd (settings_tls_generate e ok cert key rq s)))" unfolding settings_tls_generate_def
    by (intro grows_answer) (auto simp: set_tls_def intro!: grows_must grows_same)
qed

lemma grows_sso: "grows name (web_config s) (web_config (snd (oidc_callback e pystr sealed code st claims s)))"
  using grows_external [of name s e]
  by (auto simp: oidc_callback_def Let_def split: sum.splits option.splits prod.splits)

lemma grows_imports:
  assumes "op = W_import ie now token plan rq \<or> op = W_import_apply ie now rq"
  shows "grows name (web_config s) (web_config (snd (run_web e op s)))"
  using imports_config(1) [OF assms, of e s] by (metis grows_same app_config.select_convs(3,7) app_config.surjective app_config.update_convs(13))

lemma grows_run:
  assumes "spares name op" and "ac_users (web_config s) \<noteq> []"
  shows "grows name (web_config s) (web_config (snd (run_web e op s)))"
proof (cases op)
  case (W_setup salt rq)
  then show ?thesis using assms(2) by (simp add: setup_post_def)
next
  case (W_tls rq)
  show ?thesis unfolding W_tls run_web.simps settings_tls_post_def by (intro grows_answer grows_try grows_same) (auto simp: set_tls_def)
next
  case (W_ldap rq)
  show ?thesis unfolding W_ldap run_web.simps settings_ldap_post_def by (intro grows_answer grows_try grows_same) auto
next
  case (W_oidc rq)
  show ?thesis unfolding W_oidc run_web.simps settings_oidc_post_def by (intro grows_answer grows_try grows_same) auto
next
  case (W_revoke rq)
  show ?thesis unfolding W_revoke run_web.simps settings_api_token_revoke_def by (intro grows_answer grows_must grows_same) auto
next
  case (W_import ie now token plan rq)
  then show ?thesis using grows_imports by blast
next
  case (W_import_apply ie now rq)
  then show ?thesis using grows_imports by blast
qed (use assms grows_login grows_sso grows_accounts grows_settings in auto)

lemma grows_runs:
  assumes "list_all (spares name) ops" and "get_user (web_config s) name = Some u" and "run_webs e ops s = (rs, s')"
  shows "grows name (web_config s) (web_config s')"
  using assms
proof (induction ops arbitrary: s u rs)
  case (Cons op ops)
  obtain r s1 where 1: "run_web e op s = (r, s1)" by fastforce
  obtain rs1 where 2: "run_webs e ops s1 = (rs1, s')" using Cons.prems(3) 1 by (auto split: prod.splits)
  have g: "grows name (web_config s) (web_config s1)"
    using grows_run [of name op s e] Cons.prems(1) get_user_name [OF Cons.prems(2)] 1 by (cases "ac_users (web_config s)") simp_all
  then obtain u' where "get_user (web_config s1) name = Some u'" using Cons.prems(2) by (auto simp: grows_def)
  then show ?case using Cons.IH [OF _ _ 2] Cons.prems(1) g grows_trans by auto
qed simp

text \<open>A successful change of a role or a password counts the account's version up.\<close>

lemma signed_out:
  assumes "op = W_role name rq \<or> op = W_password salt rq \<and> map_option us_username (rq_user rq) = Some name"
    and "run_web e op s = (r, s1)" and "r = Page_ok \<or> (\<exists>n v. r = Session_for n v)"
  shows "\<forall>u. get_user (web_config s) name = Some u \<longrightarrow> (\<exists>u1. get_user (web_config s1) name = Some u1 \<and> us_pwd_version u1 = us_pwd_version u + 1)"
    and "ac_secret_key (web_config s1) = ac_secret_key (web_config s)"
proof -
  have "\<exists>g. web_config s1 = update_user name g (web_config s) \<and> (\<forall>u. us_username (g u) = us_username u \<and> us_pwd_version (g u) = us_pwd_version u + 1)"
  proof (cases "op = W_role name rq")
    case True
    then obtain role where "web_config s1 = update_user name (\<lambda>u. u\<lparr>us_role := role, us_pwd_version := us_pwd_version u + 1\<rparr>) (web_config s)"
      using assms(2,3) admit_page(1) [of "''admin''" rq]
      by (cases "role_check name rq s") (auto simp: settings_users_role_def role_commit_def must_change_eq role_check_def Let_def rbind_eq_Inl
        split: sum.splits option.splits if_splits)
    then show ?thesis by (intro exI [of _ "\<lambda>u. u\<lparr>us_role := role, us_pwd_version := us_pwd_version u + 1\<rparr>"]) simp
  next
    case False
    then have p: "settings_password_post e salt rq s = (r, s1)" and m: "map_option us_username (rq_user rq) = Some name" using assms(1,2) by auto
    have "r \<noteq> Page_ok" using p admit_page(2) [of rq]
      by (cases "csrf_check rq") (auto simp: settings_password_post_def Let_def must_change_eq split: option.splits if_splits sum.splits)
    then obtain h where "web_config s1 = update_user name (\<lambda>v. v\<lparr>us_password_hash := h, us_pwd_version := us_pwd_version v + 1\<rparr>) (web_config s)"
      using password_effect [OF p] assms(3) m by auto
    then show ?thesis by (intro exI [of _ "\<lambda>v. v\<lparr>us_password_hash := h, us_pwd_version := us_pwd_version v + 1\<rparr>"]) simp
  qed
  then obtain g where g: "web_config s1 = update_user name g (web_config s)" "\<And>u. us_username (g u) = us_username u" "\<And>u. us_pwd_version (g u) = us_pwd_version u + 1"
    by blast
  show "\<forall>u. get_user (web_config s) name = Some u \<longrightarrow> (\<exists>u1. get_user (web_config s1) name = Some u1 \<and> us_pwd_version u1 = us_pwd_version u + 1)"
    using g get_update_user [of g name "web_config s" name] by auto
  show "ac_secret_key (web_config s1) = ac_secret_key (web_config s)" by (simp add: g(1) update_user_def)
qed

section \<open>Properties\<close>


text \<open>C10: Changing a password or a role signs out for good. When an account's role was changed by an administrator, or its password by its owner, a
  session cookie that was accepted for the account before is accepted for nobody afterwards, at no time and after no sequence
  of further requests, as long as the account is not deleted and no backup is restored.\<close>
theorem revoked_for_good:
  assumes "session_user hmac pystr (web_config s) now (Some tok) = Inr (Some u)"
    and "op = W_role (us_username u) rq \<or> op = W_password salt rq \<and> map_option us_username (rq_user rq) = Some (us_username u)"
    and "run_web e op s = (r, s1)" and "r = Page_ok \<or> (\<exists>n v. r = Session_for n v)"
    and "list_all (spares (us_username u)) ops" and "run_webs e ops s1 = (rs, s')"
  shows "session_user hmac pystr (web_config s') now' (Some tok) \<noteq> Inr (Some x)"
proof
  assume x: "session_user hmac pystr (web_config s') now' (Some tok) = Inr (Some x)"
  obtain name where d: "decode_session hmac pystr (ac_secret_key (web_config s)) now (Some tok) = Inr (Some (name, us_pwd_version u))"
    and g: "get_user (web_config s) name = Some u" using session_user_cases [OF assms(1)] .
  obtain name' where d': "decode_session hmac pystr (ac_secret_key (web_config s')) now' (Some tok) = Inr (Some (name', us_pwd_version x))"
    and g': "get_user (web_config s') name' = Some x" using session_user_cases [OF x] .
  have n: "us_username u = name" using get_user_name [OF g] by simp
  obtain u1 where u1: "get_user (web_config s1) name = Some u1" "us_pwd_version u1 = us_pwd_version u + 1"
    and k1: "ac_secret_key (web_config s1) = ac_secret_key (web_config s)"
    using signed_out [OF assms(2-4)] g n by auto
  have "grows name (web_config s1) (web_config s')" using grows_runs [OF _ u1(1) assms(6)] assms(5) n by simp
  then obtain u' where u': "get_user (web_config s') name = Some u'" "us_pwd_version u1 \<le> us_pwd_version u'"
    and k: "ac_secret_key (web_config s') = ac_secret_key (web_config s1)" using u1(1) by (auto simp: grows_def)
  have "(name, us_pwd_version u) = (name', us_pwd_version x)" using decode_same [OF d] d' k k1 by simp
  then show False using g' u' u1(2) by simp
qed

section \<open>Witnesses\<close>

definition toy_env :: web_env where
  "toy_env = \<lparr>en_isfile = (\<lambda>_. True), en_scrypt = toy_scrypt, en_sha256 = (\<lambda>_. ascii ''00''), en_lower = lower_ascii\<rparr>"

definition sample_bob :: user where
  "sample_bob = \<lparr>us_username = ascii ''bob'', us_password_hash = [], us_role = ascii ''admin'', us_pwd_version = 1, us_source = ascii ''local''\<rparr>"

definition sample_web :: "user list \<Rightarrow> web_state" where
  "sample_web us = (let cfg = sample_config\<lparr>ac_users := us\<rparr> in
     \<lparr>ws_ops = \<lparr>op_config = cfg, op_disk = cfg, op_calls = []\<rparr>, ws_limiter = limiter_init, ws_pending = [], ws_cluster_restarts = 0\<rparr>)"

definition sample_request :: "user \<Rightarrow> form \<Rightarrow> request" where
  "sample_request u f = \<lparr>rq_user = Some u, rq_csrf = Some (ascii ''t''), rq_form = (''_csrf'', ascii ''t'') # f\<rparr>"

lemma sample_sound: "sound_state toy_env (sample_web [sample_account, sample_bob])"
proof -
  have "validate_app (\<lambda>_. True) sample_config = Inr ()" by code_simp
  then have "validate_app (\<lambda>_. True) (sample_config\<lparr>ac_users := [sample_account, sample_bob]\<rparr>) = Inr ()" by simp
  moreover have "distinct (map us_username [sample_account, sample_bob])" "0 < admin_count (sample_config\<lparr>ac_users := [sample_account, sample_bob]\<rparr>)"
    by code_simp+
  ultimately show ?thesis by (simp add: sound_state_def valid_on_disk_def sample_web_def toy_env_def Let_def)
qed


lemma revoked_for_good_witness:
  "\<exists>tok s1. session_user toy_hmac (\<lambda>_. []) (web_config (sample_web [sample_account, sample_bob])) 1000 (Some tok) = Inr (Some sample_bob) \<and>
     run_web toy_env (W_role (ascii ''bob'') (sample_request sample_account [(''role'', ascii ''viewer'')])) (sample_web [sample_account, sample_bob]) =
       (Page_ok, s1) \<and>
     (\<forall>now' x. session_user toy_hmac (\<lambda>_. []) (web_config s1) now' (Some tok) \<noteq> Inr (Some x))"
proof -
  let ?s = "sample_web [sample_account, sample_bob]" and ?rq = "sample_request sample_account [(''role'', ascii ''viewer'')]"
  have "case issue_session toy_hmac (ac_secret_key (web_config ?s)) 900 600 (ascii ''bob'') 1 of
      Inl _ \<Rightarrow> False | Inr t \<Rightarrow> session_user toy_hmac (\<lambda>_. []) (web_config ?s) 1000 (Some t) = Inr (Some sample_bob)" by code_simp
  then obtain tok where t: "session_user toy_hmac (\<lambda>_. []) (web_config ?s) 1000 (Some tok) = Inr (Some sample_bob)" by (auto split: sum.splits)
  have "fst (run_web toy_env (W_role (ascii ''bob'') ?rq) ?s) = Page_ok" by code_simp
  then obtain s1 where s1: "run_web toy_env (W_role (ascii ''bob'') ?rq) ?s = (Page_ok, s1)" by (metis prod.collapse)
  have n: "us_username sample_bob = ascii ''bob''" by (simp add: sample_bob_def)
  show ?thesis using t s1 revoked_for_good [OF t _ s1, of ?rq "[]" "[]" "[]" s1] n by auto
qed

section \<open>Where the accounts go wrong\<close>

text \<open>The check for the last administrator comes before the lock. Two administrators who demote each other while a third request holds the
  lock both pass it, and then nobody is left.\<close>

lemma demotion_race:
  "let s = sample_web [sample_account, sample_bob]; rq = sample_request sample_account [(''role'', ascii ''viewer'')];
       s1 = snd (role_commit toy_env (ascii ''bob'') (ascii ''viewer'') s);
       s2 = snd (role_commit toy_env (ascii ''ann'') (ascii ''viewer'') s1) in
   role_check (ascii ''bob'') rq s = Inr (ascii ''viewer'') \<and> role_check (ascii ''ann'') (rq\<lparr>rq_user := Some sample_bob\<rparr>) s = Inr (ascii ''viewer'') \<and>
   admin_count (web_config s) = 2 \<and> admin_count (web_config s2) = 0"
  by code_simp

text \<open>A setup request that passed the gate before the first administrator was created replaces all accounts when it arrives later.\<close>

lemma setup_race:
  "let s = sample_web []; f = (\<lambda>n. [(''username'', ascii n), (''password'', ascii ''secret-1''), (''password2'', ascii ''secret-1'')]);
       rq = (\<lambda>n. (sample_request sample_account (f n))\<lparr>rq_user := None\<rparr>);
       a = setup_check toy_env [1] (rq ''ann''); b = setup_check toy_env [1] (rq ''eve''); s1 = snd (answer_or a (setup_commit toy_env) s) in
   map us_username (ac_users (web_config s1)) = [ascii ''ann''] \<and>
   fst (setup_post toy_env [1] (rq ''eve'') s1) = Redirect \<and>
   map us_username (ac_users (web_config (snd (answer_or b (setup_commit toy_env) s1)))) = [ascii ''eve'']"
  by code_simp

text \<open>A single sign-on under the name of a local account takes the account over: the only administrator becomes a viewer of the
  identity provider and can no longer sign in with the password.\<close>

lemma sso_takes_account:
  "let s0 = sample_web [sample_account];
       s = change_config (\<lambda>c. c\<lparr>ac_oidc := (ac_oidc c)\<lparr>oi_enabled := True, oi_issuer := ascii ''https://id'', oi_client_id := [97], oi_client_secret := [98],
         oi_default_role := ascii ''viewer''\<rparr>\<rparr>) s0;
       sealed = Inr (Some [(ascii ''s'', JStr [115]), (ascii ''n'', JStr [110]), (ascii ''r'', JStr [114])]);
       (r, s') = oidc_callback toy_env (\<lambda>_. []) sealed [99] [115] (Some [(ascii ''preferred_username'', JStr (ascii ''ann''))]) s in
   r = Session_for (ascii ''ann'') 4 \<and> admin_count (web_config s) = 1 \<and> admin_count (web_config s') = 0 \<and>
   map us_source (ac_users (web_config s')) = [ascii ''oidc'']"
  by code_simp

text \<open>A session survives the deletion of its account when an account of the same name is created again: both start with version 1.\<close>

lemma recreated_account_session:
  assumes "decode_session hmac pystr (ac_secret_key sample_config) now tok = Inr (Some (ascii ''bob'', 1))"
  shows "let rq = sample_request sample_account; s1 = snd (settings_users_delete toy_env (ascii ''bob'') (rq []) (sample_web [sample_account, sample_bob]));
      s2 = snd (settings_users_create toy_env [1] (rq [(''username'', ascii ''bob''), (''role'', ascii ''admin''), (''password'', ascii ''secret-2''),
        (''password2'', ascii ''secret-2'')]) s1) in
    session_user hmac pystr (web_config s1) now tok = Inr None \<and>
    (\<exists>u. session_user hmac pystr (web_config s2) now tok = Inr (Some u) \<and> us_role u = ascii ''admin'')"
proof -
  let ?rq = "sample_request sample_account"
  let ?s1 = "snd (settings_users_delete toy_env (ascii ''bob'') (?rq []) (sample_web [sample_account, sample_bob]))"
  let ?s2 = "snd (settings_users_create toy_env [1] (?rq [(''username'', ascii ''bob''), (''role'', ascii ''admin''), (''password'', ascii ''secret-2''),
        (''password2'', ascii ''secret-2'')]) ?s1)"
  have "let s1 = web_config ?s1; s2 = web_config (snd (settings_users_create toy_env [1] (?rq [(''username'', ascii ''bob''), (''role'', ascii ''admin''),
        (''password'', ascii ''secret-2''), (''password2'', ascii ''secret-2'')]) ?s1)) in
    ac_secret_key s1 = ac_secret_key sample_config \<and> ac_secret_key s2 = ac_secret_key sample_config \<and> get_user s1 (ascii ''bob'') = None \<and>
    map_option (\<lambda>u. (us_pwd_version u, us_role u)) (get_user s2 (ascii ''bob'')) = Some (1, ascii ''admin'')"
    by code_simp
  then have k: "ac_secret_key (web_config ?s1) = ac_secret_key sample_config" "ac_secret_key (web_config ?s2) = ac_secret_key sample_config"
    "get_user (web_config ?s1) (ascii ''bob'') = None"
    "map_option (\<lambda>u. (us_pwd_version u, us_role u)) (get_user (web_config ?s2) (ascii ''bob'')) = Some (1, ascii ''admin'')"
    unfolding Let_def by blast+
  obtain u where u: "get_user (web_config ?s2) (ascii ''bob'') = Some u" "us_pwd_version u = 1" "us_role u = ascii ''admin''" using k(4) by auto
  have "session_user hmac pystr (web_config ?s1) now tok = Inr None" unfolding session_user_def k(1) assms by (simp add: k(3))
  moreover have "session_user hmac pystr (web_config ?s2) now tok = Inr (Some u)" unfolding session_user_def k(2) assms by (simp add: u(1,2))
  ultimately show ?thesis using u(3) unfolding Let_def by blast
qed

text \<open>Restoring a backup brings the old password versions back while the secret stays, so a session that a password change had
  ended is accepted again.\<close>

lemma restore_revives_session:
  assumes "decode_session hmac pystr (ac_secret_key sample_config) now tok = Inr (Some (ascii ''bob'', 1))"
  shows "let old = web_config (sample_web [sample_account, sample_bob]); s = sample_web [sample_account, sample_bob\<lparr>us_pwd_version := 2\<rparr>];
      s' = snd (backup_restore toy_env (Some old) (sample_request sample_account []) s) in
    session_user hmac pystr (web_config s) now tok = Inr None \<and> session_user hmac pystr (web_config s') now tok = Inr (Some sample_bob)"
proof -
  let ?s = "sample_web [sample_account, sample_bob\<lparr>us_pwd_version := 2\<rparr>]"
  let ?s' = "snd (backup_restore toy_env (Some (web_config (sample_web [sample_account, sample_bob]))) (sample_request sample_account []) ?s)"
  have "let s = web_config ?s; s' = web_config ?s' in
    ac_secret_key s = ac_secret_key sample_config \<and> ac_secret_key s' = ac_secret_key sample_config \<and>
    get_user s (ascii ''bob'') = Some (sample_bob\<lparr>us_pwd_version := 2\<rparr>) \<and> get_user s' (ascii ''bob'') = Some sample_bob \<and> us_pwd_version sample_bob = 1"
    by code_simp
  then have k: "ac_secret_key (web_config ?s) = ac_secret_key sample_config" "ac_secret_key (web_config ?s') = ac_secret_key sample_config"
    "get_user (web_config ?s) (ascii ''bob'') = Some (sample_bob\<lparr>us_pwd_version := 2\<rparr>)" "get_user (web_config ?s') (ascii ''bob'') = Some sample_bob"
    "us_pwd_version sample_bob = 1"
    unfolding Let_def by blast+
  have "session_user hmac pystr (web_config ?s) now tok = Inr None" unfolding session_user_def k(1) assms by (simp add: k(3))
  moreover have "session_user hmac pystr (web_config ?s') now tok = Inr (Some sample_bob)"
    unfolding session_user_def k(2) assms by (simp add: k(4,5))
  ultimately show ?thesis unfolding Let_def by blast
qed

text \<open>An infinite session lifetime is an \<open>OverflowError\<close>, which the handler does not catch.\<close>

lemma infinite_minutes_raise: "minutes_s (ascii ''inf'') = Inl Overflows" "minutes_s (ascii ''nan'') = Inl Not_minutes"
  by code_simp+

section \<open>Pages of the audit log\<close>

lemma audit_page_range: "1 \<le> audit_page_no page rs" "audit_page_no page rs \<le> audit_pages rs"
  by (auto simp: audit_page_no_def audit_pages_def Let_def max_def min_def AUDIT_PAGE_def split: option.splits)

text \<open>The pages in order are all the records.\<close>

lemma audit_rows_concat: "concat (map (\<lambda>p. audit_rows p rs) [1 ..< Suc n]) = take (n * AUDIT_PAGE) rs"
proof (induction n)
  case (Suc n)
  have "concat (map (\<lambda>p. audit_rows p rs) [1 ..< Suc (Suc n)]) = take (n * AUDIT_PAGE) rs @ audit_rows (Suc n) rs"
    using Suc by (simp only: upt_Suc_append le_add1 One_nat_def Suc_le_mono zero_le map_append concat_append) simp
  also have "\<dots> = take (n * AUDIT_PAGE + AUDIT_PAGE) rs" by (simp add: audit_rows_def take_add)
  finally show ?case by (simp add: add.commute)
qed simp

lemma audit_pages_cover: "concat (map (\<lambda>p. audit_rows p rs) [1 ..< Suc (audit_pages rs)]) = rs"
proof -
  have "length rs \<le> audit_pages rs * AUDIT_PAGE" unfolding audit_pages_def AUDIT_PAGE_def by (auto simp: max_def)
  then show ?thesis unfolding audit_rows_concat by simp
qed

text \<open>No cell of the exported table is taken for a formula.\<close>

lemma csv_cell_safe: "csv_cell v = c # r \<Longrightarrow> \<not> formula_start c"
  by (auto simp: csv_cell_def formula_start_def split: list.splits if_splits)

text \<open>A pending import is handed back to its user only, and at most twenty wait at a time.\<close>

lemma pending_bound: "length (pending_put now token w plan pend) \<le> 20"
proof -
  have "length (AList.update k v xs) \<le> Suc (length xs)" for k :: str and v :: pending and xs by (induction xs) auto
  from this [of token _ "drop (length live - 19) live" for live] show ?thesis
    unfolding pending_put_def Let_def by (rule order_trans) (simp add: numeral_eq_Suc)
qed

lemma pending_own: "pending_get now token w pend = Some item \<Longrightarrow> pd_user item = w \<and> now - pd_created item \<le> PENDING_TTL_S \<and> (token, item) \<in> set pend"
  by (auto simp: pending_get_def map_of_SomeD split: option.splits if_splits)

end
