(* ===== verification/Sign_In.thy ===== *)
theory Sign_In
  imports Settings
begin

text \<open>
  Sign-in from outside: the questions to an LDAP directory (\<open>app/web/ldap_auth.py\<close>) and the OpenID Connect flow
  (\<open>app/web/oidc_auth.py\<close>, \<open>oidc_login\<close> and \<open>oidc_callback\<close> of \<open>app/web/routes/login.py\<close>). The directory, the identity
  provider and the libraries that talk to them are parameters; an exception they raise is \<open>None\<close>.
\<close>

section \<open>The directory\<close>

text \<open>\<open>ldap3\<close>: whether a bind with a name and a password succeeds, the groups of an entry, the entries a search finds, the two
  escapes; and \<open>str.format\<close> with the user name.\<close>

record ldap_env =
  lp_installed :: bool
  lp_bind :: "str \<Rightarrow> str \<Rightarrow> bool"
  lp_groups :: "str \<Rightarrow> str list option"
  lp_find :: "str \<Rightarrow> str \<Rightarrow> (str \<times> str list) list option"
  lp_escape_rdn :: "str \<Rightarrow> str"
  lp_escape_filter :: "str \<Rightarrow> str"
  lp_format :: "str \<Rightarrow> str \<Rightarrow> str option"

definition ldap_direct :: "ldap_env \<Rightarrow> ldap_settings \<Rightarrow> str \<Rightarrow> str \<Rightarrow> str list option" where
  "ldap_direct x l username password =
     (case lp_format x (ld_user_dn_template l) (lp_escape_rdn x username) of
        None \<Rightarrow> None
      | Some dn \<Rightarrow> if lp_bind x dn password then Some (case lp_groups x dn of None \<Rightarrow> [] | Some gs \<Rightarrow> gs) else None)"

definition ldap_search :: "ldap_env \<Rightarrow> ldap_settings \<Rightarrow> str \<Rightarrow> str \<Rightarrow> str list option" where
  "ldap_search x l username password =
     (if \<not> lp_bind x (ld_bind_dn l) (ld_bind_password l) then None
      else case lp_format x (ld_user_search_filter l) (lp_escape_filter x username) of
        None \<Rightarrow> None
      | Some flt \<Rightarrow>
          (case lp_find x (ld_user_search_base l) flt of
             Some ((dn, gs) # _) \<Rightarrow> if lp_bind x dn password then Some gs else None
           | _ \<Rightarrow> None))"

definition ldap_authenticate :: "ldap_env \<Rightarrow> ldap_settings \<Rightarrow> str \<Rightarrow> str \<Rightarrow> str list option" where
  "ldap_authenticate x l username password =
     (if username = [] \<or> password = [] \<or> \<not> lp_installed x then None
      else if strip (ld_user_dn_template l) \<noteq> [] then ldap_direct x l username password
      else ldap_search x l username password)"

text \<open>\<open>login_post\<close> with the directory.\<close>

definition ldap_login :: "web_env \<Rightarrow> ldap_env \<Rightarrow> str \<Rightarrow> real \<Rightarrow> request \<Rightarrow> web_state \<Rightarrow> reply \<times> web_state" where
  "ldap_login e x ip now rq s =
     login_post e ip now (ldap_authenticate x (ac_ldap (web_config s)) (login_name (rq_form rq)) (form_text (rq_form rq) ''password'' [])) rq s"

section \<open>The identity provider\<close>

text \<open>Fetching a document, posting a form, and the check of a token against keys, issuer and audience (\<open>jwt.decode\<close> and \<open>validate\<close>).\<close>

record oidc_env =
  od_installed :: bool
  od_fetch :: "str \<Rightarrow> json option"
  od_post :: "str \<Rightarrow> (string \<times> str) list \<Rightarrow> json option"
  od_decode :: "json \<Rightarrow> json \<Rightarrow> json \<Rightarrow> str \<Rightarrow> (str \<times> json) list option"

definition DISCOVERY_TTL :: real where "DISCOVERY_TTL = 3600"

type_synonym discovery_cache = "str \<rightharpoonup> json \<times> real"

definition issuer_base :: "str \<Rightarrow> str" where
  "issuer_base issuer = rstrip_of (\<lambda>c. c = 47) issuer"

definition discover :: "oidc_env \<Rightarrow> real \<Rightarrow> str \<Rightarrow> discovery_cache \<Rightarrow> json option \<times> discovery_cache" where
  "discover x now issuer cache =
     (let base = issuer_base issuer;
          ask = (case od_fetch x (base @ ascii ''/.well-known/openid-configuration'') of
                   None \<Rightarrow> (None, cache)
                 | Some doc \<Rightarrow> (Some doc, cache(base \<mapsto> (doc, now)))) in
      case cache base of
        Some (doc, t) \<Rightarrow> if now - t < DISCOVERY_TTL then (Some doc, cache) else ask
      | None \<Rightarrow> ask)"

text \<open>\<open>d[key]\<close> of an object: \<open>None\<close> for a missing key or for something else than an object.\<close>

definition json_key :: "string \<Rightarrow> json \<Rightarrow> json option" where
  "json_key k j = (case j of JDict d \<Rightarrow> map_of d (ascii k) | _ \<Rightarrow> None)"

text \<open>\<open>urllib.parse.urlencode\<close> of texts.\<close>

definition url_safe :: "byte \<Rightarrow> bool" where
  "url_safe b \<longleftrightarrow> (let c = unat b in 48 \<le> c \<and> c \<le> 57 \<or> 65 \<le> c \<and> c \<le> 90 \<or> 97 \<le> c \<and> c \<le> 122 \<or> c \<in> set [95, 46, 45, 126])"

definition quote_plus :: "str \<Rightarrow> str option" where
  "quote_plus s = map_option (\<lambda>bs. concat (map (\<lambda>b. if url_safe b then [unat b] else if b = 32 then [43]
       else 37 # map (\<lambda>d. if d < 10 then 48 + d else 55 + d) [unat b div 16, unat b mod 16]) bs)) (utf8_encode s)"

fun urlencode :: "(string \<times> str) list \<Rightarrow> str option" where
  "urlencode [] = Some []"
| "urlencode ((k, v) # ps) =
     (case (quote_plus v, urlencode ps) of
        (Some q, Some r) \<Rightarrow> Some (ascii k @ [61] @ q @ (if ps = [] then [] else [38]) @ r)
      | _ \<Rightarrow> None)"

definition build_authorize_url :: "oidc_env \<Rightarrow> real \<Rightarrow> oidc_settings \<Rightarrow> str \<Rightarrow> str \<Rightarrow> str \<Rightarrow> discovery_cache \<Rightarrow> str option \<times> discovery_cache" where
  "build_authorize_url x now o' redirect_uri st nonce cache =
     (case discover x now (oi_issuer o') cache of
        (None, c) \<Rightarrow> (None, c)
      | (Some doc, c) \<Rightarrow>
          (case (json_key ''authorization_endpoint'' doc,
                 urlencode [(''response_type'', ascii ''code''), (''client_id'', oi_client_id o'), (''redirect_uri'', redirect_uri),
                   (''scope'', or_else (oi_scopes o') (ascii ''openid email profile'')), (''state'', st), (''nonce'', nonce)]) of
             (Some (JStr url), Some q) \<Rightarrow> (Some (url @ [63] @ q), c)
           | _ \<Rightarrow> (None, c)))"

text \<open>\<open>complete\<close>: the code is exchanged for a token, the token is checked, and its nonce is compared.\<close>

definition oidc_complete :: "oidc_env \<Rightarrow> real \<Rightarrow> oidc_settings \<Rightarrow> str \<Rightarrow> str \<Rightarrow> str \<Rightarrow> discovery_cache \<Rightarrow> (str \<times> json) list option \<times> discovery_cache" where
  "oidc_complete x now o' redirect_uri code nonce cache =
     (if \<not> od_installed x then (None, cache)
      else case discover x now (oi_issuer o') cache of
        (None, c) \<Rightarrow> (None, c)
      | (Some doc, c) \<Rightarrow>
          (case json_key ''token_endpoint'' doc of
             Some (JStr url) \<Rightarrow>
               (case Option.bind (od_post x url [(''grant_type'', ascii ''authorization_code''), (''code'', code), (''redirect_uri'', redirect_uri),
                       (''client_id'', oi_client_id o'), (''client_secret'', oi_client_secret o')]) (json_key ''id_token'') of
                  None \<Rightarrow> (None, c)
                | Some id_token \<Rightarrow>
                    if \<not> json_truthy id_token then (None, c)
                    else case json_key ''jwks_uri'' doc of
                      Some (JStr uri) \<Rightarrow>
                        (case od_fetch x uri of
                           None \<Rightarrow> (None, c)
                         | Some jwks \<Rightarrow>
                             (case od_decode x id_token jwks (case json_key ''issuer'' doc of None \<Rightarrow> JStr (issuer_base (oi_issuer o')) | Some i \<Rightarrow> i) (oi_client_id o') of
                                None \<Rightarrow> (None, c)
                              | Some claims \<Rightarrow>
                                  (if nonce \<noteq> [] \<and> map_of claims (ascii ''nonce'') \<noteq> Some (JStr nonce) then None else Some claims, c)))
                    | _ \<Rightarrow> (None, c))
           | _ \<Rightarrow> (None, c)))"

section \<open>The two requests of a single sign-on\<close>

definition oidc_redirect_uri :: "oidc_settings \<Rightarrow> str \<Rightarrow> str \<Rightarrow> str \<Rightarrow> str \<Rightarrow> str \<Rightarrow> str" where
  "oidc_redirect_uri o' fwd_proto url_scheme fwd_host host netloc =
     (let u = strip (oi_redirect_uri o') in
      if u \<noteq> [] then u
      else or_else fwd_proto url_scheme @ ascii ''://'' @ or_else fwd_host (or_else host netloc) @ ascii ''/auth/oidc/callback'')"

datatype sso_start = Sso_off | Sso_unreachable | Sso_raises auth_error | Sso_redirect str str

text \<open>\<open>st\<close> and \<open>nonce\<close> are the random tokens; the answer has the address of the provider and the cookie, sealed for ten minutes.\<close>

definition oidc_login :: "oidc_env \<Rightarrow> (bytes \<Rightarrow> bytes \<Rightarrow> bytes) \<Rightarrow> int \<Rightarrow> str \<Rightarrow> str \<Rightarrow> str \<Rightarrow> app_config \<Rightarrow> discovery_cache \<Rightarrow> sso_start \<times> discovery_cache" where
  "oidc_login x hmac now redirect_uri st nonce cfg cache =
     (if \<not> oi_enabled (ac_oidc cfg) then (Sso_off, cache)
      else case build_authorize_url x (real_of_int now) (ac_oidc cfg) redirect_uri st nonce cache of
        (None, c) \<Rightarrow> (Sso_unreachable, c)
      | (Some url, c) \<Rightarrow>
          (case sign_payload hmac (ac_secret_key cfg) now [(ascii ''s'', AStr st), (ascii ''n'', AStr nonce), (ascii ''r'', AStr redirect_uri)] 600 of
             Inl err \<Rightarrow> (Sso_raises err, c)
           | Inr cookie \<Rightarrow> (Sso_redirect url cookie, c)))"

text \<open>\<open>oidc_callback\<close> with the provider.\<close>

definition sso_callback :: "web_env \<Rightarrow> oidc_env \<Rightarrow> (bytes \<Rightarrow> bytes \<Rightarrow> bytes) \<Rightarrow> (json \<Rightarrow> str) \<Rightarrow> int \<Rightarrow> str option \<Rightarrow> str \<Rightarrow> str \<Rightarrow> discovery_cache \<Rightarrow>
    web_state \<Rightarrow> reply \<times> web_state" where
  "sso_callback e x hmac pystr now cookie code st cache s =
     (let sealed = read_payload hmac (ac_secret_key (web_config s)) now cookie;
          claims = (case sealed of
              Inr (Some d) \<Rightarrow>
                fst (oidc_complete x (real_of_int now) (ac_oidc (web_config s)) (claim_str pystr d (ascii ''r'')) code (claim_str pystr d (ascii ''n'')) cache)
            | _ \<Rightarrow> None) in
      oidc_callback e pystr sealed code st claims s)"

section \<open>Lemmas\<close>

text \<open>A directory login means a bind with the password that was typed, which is not empty.\<close>

lemma ldap_verified:
  assumes "ldap_authenticate x l username password = Some gs"
  shows "username \<noteq> [] \<and> password \<noteq> [] \<and> (\<exists>dn. lp_bind x dn password)"
  using assms by (auto simp: ldap_authenticate_def ldap_direct_def ldap_search_def split: if_splits option.splits list.splits)

lemma ldap_session:
  assumes "ldap_login e x ip now rq s = (Session_for name v, s')"
    and "\<forall>u. get_user (web_config s) (login_name (rq_form rq)) = Some u \<longrightarrow> us_source u \<noteq> ascii ''local''"
  shows "form_text (rq_form rq) ''password'' [] \<noteq> [] \<and> (\<exists>dn. lp_bind x dn (form_text (rq_form rq) ''password'' []))"
proof -
  have "\<exists>gs. ldap_authenticate x (ac_ldap (web_config s)) (login_name (rq_form rq)) (form_text (rq_form rq) ''password'' []) = Some gs"
  proof (rule ccontr)
    assume "\<not> ?thesis"
    then have n: "ldap_authenticate x (ac_ldap (web_config s)) (login_name (rq_form rq)) (form_text (rq_form rq) ''password'' []) = None" by auto
    have "directory_login e ip now None n' s1 \<noteq> (Session_for name v, s')" for n' s1
      by (simp add: directory_login_def login_failed_def Let_def)
    then show False
      using assms unfolding ldap_login_def n login_post_def
      by (auto simp: answer_or_def csrf_check_def Let_def split: sum.splits prod.splits if_splits option.splits)
  qed
  then show ?thesis using ldap_verified by blast
qed

text \<open>A fetched document is used for an hour.\<close>

lemma discover_cached:
  assumes "discover x now issuer cache = (Some doc, c)"
  shows "\<exists>t. c (issuer_base issuer) = Some (doc, t) \<and> now - t < DISCOVERY_TTL"
  using assms by (auto simp: discover_def Let_def DISCOVERY_TTL_def split: option.splits if_splits)

lemma completed:
  assumes "oidc_complete x now o' uri code nonce cache = (Some claims, c)"
  shows "(\<exists>tok keys iss. od_decode x tok keys iss (oi_client_id o') = Some claims) \<and> (nonce \<noteq> [] \<longrightarrow> map_of claims (ascii ''nonce'') = Some (JStr nonce))"
  using assms by (auto simp: oidc_complete_def split: if_splits option.splits prod.splits json.splits)

lemma callback_session:
  assumes "oidc_callback e pystr sealed code st claims s = (Session_for name v, s')"
  shows "\<exists>d cl gs role. sealed = Inr (Some d) \<and> st = claim_str pystr d (ascii ''s'') \<and> claims = Some cl \<and> code \<noteq> [] \<and>
    claim_groups pystr cl (ac_oidc (web_config s)) = Some gs \<and>
    role_for_groups (en_lower e) gs (oi_admin_group (ac_oidc (web_config s))) (oi_operator_group (ac_oidc (web_config s)))
      (oi_viewer_group (ac_oidc (web_config s))) (oi_default_role (ac_oidc (web_config s))) = Some role \<and>
    external_sign_in e (username_from_claims pystr cl (ac_oidc (web_config s))) role (ascii ''oidc'') s = (Session_for name v, s')"
  using assms by (auto simp: oidc_callback_def compare_digest_def Let_def split: if_splits sum.splits option.splits)

lemma external_session:
  assumes "external_sign_in e name role source s = (Session_for n v, s')"
  shows "n = name \<and> (\<exists>u. get_user (web_config s') name = Some u \<and> us_role u = role \<and> us_source u = source \<and> us_pwd_version u = v)"
proof -
  obtain c u where c: "upsert_external_user (web_config s) name role source = (c, u)" by fastforce
  then have "web_config s' = c" "n = us_username u" "v = us_pwd_version u"
    using assms by (auto simp: external_sign_in_def must_change_eq saved_def split: sum.splits)
  then show ?thesis using upsert_external_user_spec [OF c] by simp
qed

text \<open>The cookie of the first request, read back.\<close>

lemma sealed_state:
  assumes "sign_payload hmac secret now0 [(ascii ''s'', AStr st), (ascii ''n'', AStr nonce), (ascii ''r'', AStr uri)] 600 = Inr tok"
    and "list_all scalar_value st" and "list_all scalar_value nonce" and "list_all scalar_value uri"
  shows "read_payload hmac secret now (Some tok) = Inr (if now0 + 600 \<le> now then None else
    Some [(ascii ''s'', JStr st), (ascii ''n'', JStr nonce), (ascii ''r'', JStr uri), (ascii ''exp'', JInt (now0 + 600))])"
proof -
  have "flat_ok ([(ascii ''s'', AStr st), (ascii ''n'', AStr nonce), (ascii ''r'', AStr uri)] @ [(ascii ''exp'', AInt (now0 + 600))])"
    using assms(2-4) by (simp add: flat_ok_def ascii_def atom_ok_def scalar_value_def)
  then show ?thesis
    using unseal_seal [OF _ assms(1) [unfolded sign_payload_def], of "now0 + 600" now] by (simp add: read_payload_def ascii_def)
qed

section \<open>Properties\<close>


text \<open>A provider with one user, and a login that ends in a session.\<close>

definition toy_provider :: oidc_env where
  "toy_provider = \<lparr>od_installed = True,
     od_fetch = (\<lambda>_. Some (JDict [(ascii ''authorization_endpoint'', JStr (ascii ''https://id/auth'')), (ascii ''token_endpoint'', JStr (ascii ''https://id/token'')),
       (ascii ''jwks_uri'', JStr (ascii ''https://id/keys''))])),
     od_post = (\<lambda>_ _. Some (JDict [(ascii ''id_token'', JStr (ascii ''j''))])),
     od_decode = (\<lambda>_ _ _ _. Some [(ascii ''sub'', JStr (ascii ''eve'')), (ascii ''nonce'', JStr (ascii ''n1''))])\<rparr>"

definition sso_web :: web_state where
  "sso_web = change_config (\<lambda>c. c\<lparr>ac_oidc := (ac_oidc c)\<lparr>oi_enabled := True, oi_issuer := ascii ''https://id'', oi_client_id := [97], oi_client_secret := [98],
     oi_default_role := ascii ''viewer''\<rparr>\<rparr>) (sample_web [sample_account])"


section \<open>Findings\<close>

text \<open>A group is looked for as a part of the names of the user's groups, so a group whose name contains the one of the administrators makes an
  administrator.\<close>

lemma group_substring:
  "role_for_groups lower_ascii [ascii ''cn=former-ser2net-admins,dc=ex''] (ascii ''ser2net-admins'') [] [] [] = Some (ascii ''admin'')"
  by code_simp

end
