(* ===== verification/Web_Gate.thy ===== *)
theory Web_Gate
  imports Settings
begin

text \<open>
  The gate in front of every page (\<open>GuardMiddleware\<close> in \<open>app/web/server.py\<close>), the role checks of the mapping pages
  (\<open>app/web/routes/mappings.py\<close>), the endpoints that cluster peers call and the proxy that calls them
  (\<open>app/web/routes/cluster.py\<close>), the browser console (\<open>app/web/routes/console.py\<close>) and the small helpers of \<open>system.py\<close>, \<open>common.py\<close>
  and \<open>i18n.py\<close>. The main results connect gate, roles and settings: who may reach a handler, and what a request must carry to change
  the settings.
\<close>

section \<open>The gate\<close>

record gate_env =
  ge_hmac :: "bytes \<Rightarrow> bytes \<Rightarrow> bytes"
  ge_pystr :: "json \<Rightarrow> str"
  ge_lower :: "str \<Rightarrow> str"
  ge_hostname :: str
  ge_sha256 :: "bytes \<Rightarrow> str"

text \<open>What the gate reads of a request; an absent header is the empty text, an absent cookie \<open>None\<close>.\<close>

record http_request =
  hr_method :: str
  hr_path :: str
  hr_csrf_cookie :: "str option"
  hr_csrf_header :: str
  hr_session :: "str option"
  hr_headers :: req_headers
  hr_authorization :: str

datatype verdict = Pass "user option" | To_setup | To_root | To_login | Unauthorized | Csrf_denied
  | Api_setup | Api_no_token | Api_denied | Api_read_only

definition CLUSTER_PEER_PATHS :: "str list" where
  "CLUSTER_PEER_PATHS = [ascii ''/api/cluster/local'', ascii ''/api/cluster/control'', ascii ''/api/cluster/mapping-data'',
     ascii ''/api/cluster/mapping-save'']"

definition PUBLIC_PREFIXES :: "str list" where
  "PUBLIC_PREFIXES = [ascii ''/static'', ascii ''/auth/'', ascii ''/lang/'']"

definition PUBLIC_PATHS :: "str list" where
  "PUBLIC_PATHS = [ascii ''/login'', ascii ''/setup'', ascii ''/healthz'', ascii ''/favicon.ico''] @ CLUSTER_PEER_PATHS"

definition is_public :: "str \<Rightarrow> bool" where
  "is_public path \<longleftrightarrow> path \<in> set PUBLIC_PATHS \<or> list_ex (\<lambda>p. is_prefix_of p path) PUBLIC_PREFIXES"

definition changes_state :: "str \<Rightarrow> bool" where
  "changes_state m \<longleftrightarrow> m \<in> set [ascii ''POST'', ascii ''PUT'', ascii ''DELETE'', ascii ''PATCH'']"

definition needs_csrf :: "http_request \<Rightarrow> bool" where
  "needs_csrf rq \<longleftrightarrow> changes_state (hr_method rq) \<and> is_prefix_of (ascii ''/api/'') (hr_path rq) \<and> hr_path rq \<notin> set CLUSTER_PEER_PATHS"

definition setup_path :: "str \<Rightarrow> bool" where
  "setup_path path \<longleftrightarrow> path \<in> set [ascii ''/setup'', ascii ''/healthz''] \<or> is_prefix_of (ascii ''/static'') path \<or> is_prefix_of (ascii ''/lang/'') path"

text \<open>\<open>_dispatch_ui\<close> up to the call of the handler; \<open>Pass\<close> carries the user the handler sees.\<close>

definition dispatch_ui :: "gate_env \<Rightarrow> app_config \<Rightarrow> int \<Rightarrow> http_request \<Rightarrow> auth_error + verdict" where
  "dispatch_ui g cfg now rq =
     (let path = hr_path rq in
      rbind (if needs_csrf rq then csrf_token_matches (hr_csrf_cookie rq) (hr_csrf_header rq) else Inr True) (\<lambda>fine.
      if \<not> fine then Inr Csrf_denied
      else if ac_users cfg = [] then Inr (if setup_path path then Pass None else To_setup)
      else if path = ascii ''/setup'' then Inr To_root
      else if is_public path then Inr (Pass None)
      else
        rbind (request_user (ge_hmac g) (ge_pystr g) (ge_lower g) (ge_hostname g) cfg now (hr_session rq) (hr_headers rq)) (\<lambda>u.
        Inr (case u of
               Some v \<Rightarrow> Pass (Some v)
             | None \<Rightarrow> if is_prefix_of (ascii ''/api'') path then Unauthorized else To_login))))"

definition dispatch_api :: "gate_env \<Rightarrow> app_config \<Rightarrow> http_request \<Rightarrow> auth_error + verdict" where
  "dispatch_api g cfg rq =
     (if hr_path rq \<in> set [ascii ''/api/v1/health'', ascii ''/api/v1/openapi.json''] then Inr (Pass None)
      else if ac_users cfg = [] then Inr Api_setup
      else if ac_api_token_hash cfg = [] then Inr Api_no_token
      else
        rbind (verify_token (ge_sha256 g) (bearer_token (hr_authorization rq)) (ac_api_token_hash cfg)) (\<lambda>fine.
        Inr (if \<not> fine then Api_denied
             else if changes_state (hr_method rq) \<and> role_rank (ac_api_token_role cfg) < role_rank (ascii ''operator'') then Api_read_only
             else Pass None)))"

definition dispatch :: "gate_env \<Rightarrow> app_config \<Rightarrow> int \<Rightarrow> http_request \<Rightarrow> auth_error + verdict" where
  "dispatch g cfg now rq =
     (if is_prefix_of (ascii ''/api/v1'') (hr_path rq) then dispatch_api g cfg rq else dispatch_ui g cfg now rq)"

section \<open>The mapping pages\<close>

text \<open>The handlers behind the gate: the role first, then the operation. \<open>None\<close>: refused before the operation (role, unknown action,
  empty or too long selection).\<close>

definition ACTIONS :: "str list" where
  "ACTIONS = [ascii ''start'', ascii ''stop'', ascii ''restart'']"

definition action_name :: "str \<Rightarrow> string" where
  "action_name a = (if a = ascii ''stop'' then ''stop'' else if a = ascii ''restart'' then ''restart'' else ''start'')"

definition page_save :: "(nat \<Rightarrow> bool) \<Rightarrow> (str \<Rightarrow> bool) \<Rightarrow> port_entry list \<Rightarrow> str \<Rightarrow> user option \<Rightarrow> form \<Rightarrow> ops_state \<Rightarrow> (outcome \<times> ops_state) option" where
  "page_save isword isfile ports fresh u f s =
     (if \<not> require_role u (ascii ''operator'') then None else save_form isword isfile ports fresh f s)"

definition page_delete :: "(str \<Rightarrow> bool) \<Rightarrow> (f64 \<Rightarrow> f64 \<Rightarrow> bool) \<Rightarrow> user option \<Rightarrow> str \<Rightarrow> ops_state \<Rightarrow> (outcome \<times> ops_state) option" where
  "page_delete isfile same u mid s = (if \<not> require_role u (ascii ''operator'') then None else Some (delete_mapping isfile same mid s))"

definition page_action :: "(str \<Rightarrow> bool) \<Rightarrow> user option \<Rightarrow> str \<Rightarrow> str \<Rightarrow> ops_state \<Rightarrow> (outcome \<times> ops_state) option" where
  "page_action isfile u mid action s =
     (if \<not> require_role u (ascii ''operator'') \<or> action \<notin> set ACTIONS then None else Some (apply_action isfile mid (action_name action) s))"

text \<open>\<open>mapping_bulk\<close>: the selected ids in order; an exception ends the loop. The names of those that were done.\<close>

fun bulk_loop :: "(str \<Rightarrow> bool) \<Rightarrow> str \<Rightarrow> str list \<Rightarrow> ops_state \<Rightarrow> config_error option \<times> str list \<times> ops_state" where
  "bulk_loop isfile action [] s = (None, [], s)"
| "bulk_loop isfile action (mid # mids) s =
     (case apply_action isfile mid (action_name action) s of
        (Escaped e, s1) \<Rightarrow> (Some e, [], s1)
      | (Done name, s1) \<Rightarrow> (let (e, names, s2) = bulk_loop isfile action mids s1 in (e, name # names, s2))
      | (_, s1) \<Rightarrow> bulk_loop isfile action mids s1)"

definition page_bulk :: "(str \<Rightarrow> bool) \<Rightarrow> user option \<Rightarrow> str \<Rightarrow> str list \<Rightarrow> ops_state \<Rightarrow> (config_error option \<times> str list \<times> ops_state) option" where
  "page_bulk isfile u action selection s =
     (let mids = filter (\<lambda>i. i \<noteq> []) selection in
      if \<not> require_role u (ascii ''operator'') \<or> action \<notin> set ACTIONS \<or> mids = [] \<or> length mids > 500 then None
      else Some (bulk_loop isfile action mids s))"

section \<open>Cluster peers\<close>

text \<open>The guard of the peer-facing endpoints: the key of the request against the shared one.\<close>

definition peer_guard :: "cluster_settings \<Rightarrow> str \<Rightarrow> auth_error + bool" where
  "peer_guard c key = (if cluster_active c \<and> key \<noteq> [] then compare_digest key (cl_key c) else Inr False)"

datatype peer_answer = P_forbidden | P_bad_action | P_not_found | P_refused outcome | P_done str | P_mapping mapping_config | P_raises raised

definition cluster_control :: "(str \<Rightarrow> bool) \<Rightarrow> str \<Rightarrow> form \<Rightarrow> ops_state \<Rightarrow> peer_answer \<times> ops_state" where
  "cluster_control isfile key f s =
     (case peer_guard (ac_cluster (op_config s)) key of
        Inl e \<Rightarrow> (P_raises (R_auth e), s)
      | Inr fine \<Rightarrow>
          if \<not> fine then (P_forbidden, s)
          else let action = form_text f ''action'' [] in
            if action \<notin> set ACTIONS then (P_bad_action, s)
            else case apply_action isfile (form_text f ''mapping_id'' []) (action_name action) s of
              (Done name, s') \<Rightarrow> (P_done name, s')
            | (Escaped e, s') \<Rightarrow> (P_raises (R_config e), s')
            | (_, s') \<Rightarrow> (P_not_found, s'))"

definition cluster_mapping_data :: "str \<Rightarrow> str \<Rightarrow> app_config \<Rightarrow> peer_answer" where
  "cluster_mapping_data key mid cfg =
     (case peer_guard (ac_cluster cfg) key of
        Inl e \<Rightarrow> P_raises (R_auth e)
      | Inr fine \<Rightarrow> if \<not> fine then P_forbidden else case get_mapping cfg mid of None \<Rightarrow> P_not_found | Some m \<Rightarrow> P_mapping m)"

text \<open>\<open>None\<close>: a point outside the model of the form.\<close>

definition cluster_mapping_save :: "(nat \<Rightarrow> bool) \<Rightarrow> (str \<Rightarrow> bool) \<Rightarrow> port_entry list \<Rightarrow> str \<Rightarrow> str \<Rightarrow> form \<Rightarrow> ops_state \<Rightarrow> (peer_answer \<times> ops_state) option" where
  "cluster_mapping_save isword isfile ports fresh key f s =
     (case peer_guard (ac_cluster (op_config s)) key of
        Inl e \<Rightarrow> Some (P_raises (R_auth e), s)
      | Inr fine \<Rightarrow>
          if \<not> fine then Some (P_forbidden, s)
          else map_option (\<lambda>(r, s'). (case r of Done name \<Rightarrow> P_done name | Escaped e \<Rightarrow> P_raises (R_config e) | _ \<Rightarrow> P_refused r, s'))
            (save_form isword isfile ports fresh f s))"

text \<open>The browser-facing proxy: \<open>require_peer_access\<close>, the address of the request, and what is sent to the peer.\<close>

definition require_peer_access :: "user option \<Rightarrow> bool" where
  "require_peer_access u \<longleftrightarrow> map_option us_source u \<noteq> Some (ascii ''anonymous'') \<and> require_role u (ascii ''operator'')"

datatype proxy = X_denied | X_bad_port | X_bad_action | X_unknown | X_call str str int str "(string \<times> str) list"

definition peer_from_request :: "(str \<times> int) set \<Rightarrow> form \<Rightarrow> proxy + str \<times> str \<times> int" where
  "peer_from_request known f =
     (case py_int (form_text f ''port'' (ascii ''0'')) of
        None \<Rightarrow> Inl X_bad_port
      | Some port \<Rightarrow>
          let host = form_text f ''host'' [] in
          if (host, port) \<notin> known then Inl X_unknown else Inr (form_text f ''scheme'' (ascii ''http''), host, port))"

definition control_peer :: "user option \<Rightarrow> (str \<times> int) set \<Rightarrow> form \<Rightarrow> proxy" where
  "control_peer u known f =
     (if \<not> require_peer_access u then X_denied
      else if py_int (form_text f ''port'' (ascii ''0'')) = None then X_bad_port
      else if form_text f ''action'' [] \<notin> set ACTIONS then X_bad_action
      else case peer_from_request known f of
        Inl x \<Rightarrow> x
      | Inr (scheme, host, port) \<Rightarrow> X_call scheme host port (ascii ''/api/cluster/control'')
          [(''mapping_id'', form_text f ''mid'' []), (''action'', form_text f ''action'' [])])"

definition peer_form :: "user option \<Rightarrow> (str \<times> int) set \<Rightarrow> form \<Rightarrow> proxy" where
  "peer_form u known q =
     (if \<not> require_peer_access u then X_denied
      else case peer_from_request known q of
        Inl x \<Rightarrow> x
      | Inr (scheme, host, port) \<Rightarrow>
          X_call scheme host port (ascii ''/api/cluster/mapping-data?mid='' @ form_text q ''mid'' []) [])"

definition peer_save :: "user option \<Rightarrow> (str \<times> int) set \<Rightarrow> form \<Rightarrow> proxy" where
  "peer_save u known f =
     (if \<not> require_peer_access u then X_denied
      else case peer_from_request known f of
        Inl x \<Rightarrow> x
      | Inr (scheme, host, port) \<Rightarrow>
          X_call scheme host port (ascii ''/api/cluster/mapping-save'')
            (filter (\<lambda>(k, _). k \<notin> set [''_peer_scheme'', ''_peer_host'', ''_peer_port'', ''_csrf'', ''scheme'', ''host'', ''port'']) f))"

section \<open>The browser console\<close>

text \<open>\<open>_authorize\<close>: \<open>origin\<close> is the request's header, \<open>netloc\<close> the network location of a URL.\<close>

definition ws_authorize :: "gate_env \<Rightarrow> (str \<Rightarrow> str) \<Rightarrow> app_config \<Rightarrow> int \<Rightarrow> str option \<Rightarrow> req_headers \<Rightarrow> str \<Rightarrow> auth_error + user option" where
  "ws_authorize g netloc cfg now session h origin =
     rbind (request_user (ge_hmac g) (ge_pystr g) (ge_lower g) (ge_hostname g) cfg now session h) (\<lambda>u.
     Inr (if origin \<noteq> [] \<and> Some (netloc origin) \<noteq> hd_host h then None else u))"

definition interactive :: "mapping_config \<Rightarrow> user \<Rightarrow> bool" where
  "interactive m u \<longleftrightarrow> mc_kind m = ascii ''net'' \<and> \<not> ns_read_only (mc_network m) \<and> role_rank (us_role u) \<ge> role_rank (ascii ''operator'')"

text \<open>What the receiver writes to the device for a message of the browser.\<close>

definition console_input :: "mapping_config \<Rightarrow> user \<Rightarrow> bytes \<Rightarrow> bytes list" where
  "console_input m u data = (if data \<noteq> [] \<and> interactive m u then [data] else [])"

text \<open>\<open>access_watch\<close>: whether an open console stays open after a new look at the user.\<close>

definition console_stays :: "user \<Rightarrow> user option \<Rightarrow> bool" where
  "console_stays u now = (case now of None \<Rightarrow> False | Some v \<Rightarrow> us_role v = us_role u)"

text \<open>The queues of \<open>_Monitor\<close> and \<open>_TrafficMonitor\<close>, by their capacity; \<open>None\<close> is the end mark.\<close>

definition monitor_feed :: "nat \<Rightarrow> 'a \<Rightarrow> 'a option list \<Rightarrow> 'a option list" where
  "monitor_feed cap x q = (if length q < cap then q @ [Some x] else tl q @ [Some x])"

definition monitor_close :: "nat \<Rightarrow> 'a option list \<Rightarrow> 'a option list" where
  "monitor_close cap q = (if length q < cap then q @ [None] else q)"

text \<open>\<open>struct.pack(">Bd", direction, ts) + data\<close>.\<close>

definition traffic_frame :: "byte \<Rightarrow> f64 \<Rightarrow> bytes \<Rightarrow> bytes" where
  "traffic_frame direction ts data = direction # be_bytes 8 (uint ts) @ data"

section \<open>Helpers of the pages\<close>

definition client_ip :: "str option \<Rightarrow> str" where
  "client_ip host =
     (let ip = (case host of None \<Rightarrow> ascii ''?'' | Some h \<Rightarrow> h) in
      if is_prefix_of (ascii ''::ffff:'') ip \<and> 46 \<in> set ip then drop 7 ip else ip)"

text \<open>The target of the redirect after a change of the language.\<close>

definition safe_next :: "str \<Rightarrow> str" where
  "safe_next nxt =
     (let n = or_else nxt (ascii ''/'') in
      if \<not> is_prefix_of (ascii ''/'') n \<or> is_prefix_of (ascii ''//'') n \<or> 92 \<in> set n then ascii ''/'' else n)"

text \<open>\<open>_metric_label\<close>: the three replacements, in order.\<close>

definition metric_label :: "str \<Rightarrow> str" where
  "metric_label name = map (\<lambda>c. if c = 10 then 32 else c)
     (concat (map (\<lambda>c. if c = 34 then [92, 34] else [c]) (concat (map (\<lambda>c. if c = 92 then [92, 92] else [c]) name))))"

definition kind_label :: "mapping_config \<Rightarrow> str" where
  "kind_label m = (if mc_kind m = ascii ''serialbridge'' then ascii ''serial'' @ [8596] @ ascii ''serial''
     else ns_mode (mc_network m) @ [47] @ ns_protocol (mc_network m))"

text \<open>\<open>_fmt_uptime\<close> of a whole number of seconds.\<close>

definition fmt_uptime :: "int \<Rightarrow> str" where
  "fmt_uptime seconds =
     (let s = max 0 seconds; d = s div 86400; h = s mod 86400 div 3600; m = s mod 3600 div 60 in
      if d \<noteq> 0 then dec_str d @ ascii ''d '' @ dec_str h @ ascii ''h''
      else if h \<noteq> 0 then dec_str h @ ascii ''h '' @ dec_str m @ ascii ''m''
      else dec_str m @ ascii ''m'')"

definition LANGUAGES :: "str list" where "LANGUAGES = [ascii ''en'', ascii ''tr'']"

text \<open>\<open>negotiate\<close>: a round of the loop over the browser's preferences, with the best language so far and its weight.\<close>

definition language_weight :: "str \<Rightarrow> f64" where
  "language_weight params =
     (let p = strip params in
      if is_prefix_of (ascii ''q='') p then (case py_float (drop 2 p) of Some q \<Rightarrow> q | None \<Rightarrow> f64_zero) else f64_one)"

definition f64_greater :: "f64 \<Rightarrow> f64 \<Rightarrow> bool" where
  "f64_greater a b \<longleftrightarrow> \<not> f64_isnan a \<and> \<not> f64_isnan b \<and> f64_signed_scaled a > f64_signed_scaled b"

definition negotiate_part :: "(str \<Rightarrow> str) \<Rightarrow> str \<times> f64 \<Rightarrow> str \<Rightarrow> str \<times> f64" where
  "negotiate_part lower best part =
     (let p = strip part; tag = takeWhile (\<lambda>c. c \<noteq> 59) p; params = drop (length tag + 1) p;
          q = language_weight params; code = takeWhile (\<lambda>c. c \<noteq> 45) (lower (strip tag)) in
      if code \<in> set LANGUAGES \<and> f64_greater q (snd best) then (code, q) else best)"

definition negotiate :: "(str \<Rightarrow> str) \<Rightarrow> str option \<Rightarrow> str \<Rightarrow> str \<Rightarrow> str" where
  "negotiate lower cookie accept dflt =
     (case cookie of
        Some c \<Rightarrow> if c \<in> set LANGUAGES then c else if dflt \<in> set LANGUAGES then dflt
          else fst (foldl (negotiate_part lower) (ascii ''en'', f64_zero) (split_on 44 accept))
      | None \<Rightarrow> if dflt \<in> set LANGUAGES then dflt
          else fst (foldl (negotiate_part lower) (ascii ''en'', f64_zero) (split_on 44 accept)))"

section \<open>Lemmas\<close>

lemma negotiate_language: "negotiate lower cookie accept dflt \<in> set LANGUAGES"
proof -
  have "fst (foldl (negotiate_part lower) b ps) \<in> set LANGUAGES" if "fst b \<in> set LANGUAGES" for b ps
    using that by (induction ps arbitrary: b) (auto simp: negotiate_part_def Let_def)
  moreover have "ascii ''en'' \<in> set LANGUAGES" by (simp add: LANGUAGES_def)
  ultimately show ?thesis by (auto simp: negotiate_def split: option.splits)
qed

text \<open>The redirect stays on this server.\<close>

lemma safe_next_local: "\<exists>r. safe_next nxt = 47 # r \<and> (\<forall>c. r = c # tl r \<longrightarrow> c \<noteq> 47 \<and> c \<noteq> 92)"
proof (cases "safe_next nxt = [47]")
  case False
  then have "is_prefix_of [47] (safe_next nxt)" "\<not> is_prefix_of [47, 47] (safe_next nxt)" "92 \<notin> set (safe_next nxt)"
    by (auto simp: safe_next_def Let_def ascii_def split: if_splits)
  then show ?thesis by (cases "safe_next nxt"; cases "tl (safe_next nxt)") (auto simp: is_prefix_of_iff)
qed simp

text \<open>A label never ends the quoted value it stands in: every quote has an odd number of backslashes before it, so the text splits
  into plain characters and escapes.\<close>

fun label_ok :: "str \<Rightarrow> bool" where
  "label_ok [] = True"
| "label_ok (c # cs) = (if c = 92 then (case cs of d # ds \<Rightarrow> d \<in> {92, 34} \<and> label_ok ds | [] \<Rightarrow> False) else c \<noteq> 34 \<and> c \<noteq> 10 \<and> label_ok cs)"

lemma metric_label_ok: "label_ok (metric_label name)"
  by (induction name) (auto simp: metric_label_def)

text \<open>A monitor that is not read keeps the newest items.\<close>

lemma monitor_feed_last:
  assumes "0 < cap"
  shows "foldl (\<lambda>q x. monitor_feed cap x q) [] xs = map Some (drop (length xs - cap) xs)"
proof (induction xs rule: rev_induct)
  case (snoc x xs)
  have "tl (drop n ys) = drop (Suc n) ys" for n and ys :: "'a list" by (simp add: drop_Suc tl_drop)
  then show ?case using snoc assms by (auto simp: monitor_feed_def map_tl [symmetric] Suc_diff_le)
qed simp

text \<open>Only an operator types on a device, and only on one that is not read-only.\<close>

lemma console_input_role:
  "data' \<in> set (console_input m u data) \<Longrightarrow> require_role (Some u) (ascii ''operator'') \<and> \<not> ns_read_only (mc_network m) \<and> mc_kind m = ascii ''net''"
  by (auto simp: console_input_def interactive_def require_role_def split: if_splits)

text \<open>The proxy sends to a peer only for a signed-in operator, and only with an address of the list.\<close>

lemma proxy_guarded:
  assumes "X_call scheme host port path fs \<in> {control_peer u known f, peer_form u known f, peer_save u known f}"
  shows "(host, port) \<in> known" and "\<exists>v. u = Some v \<and> us_source v \<noteq> ascii ''anonymous'' \<and> \<not> role_rank (us_role v) < role_rank (ascii ''operator'')"
proof -
  have "require_peer_access u" using assms by (auto simp: control_peer_def peer_form_def peer_save_def split: if_splits)
  then show "\<exists>v. u = Some v \<and> us_source v \<noteq> ascii ''anonymous'' \<and> \<not> role_rank (us_role v) < role_rank (ascii ''operator'')"
    by (cases u) (auto simp: require_peer_access_def require_role_def)
  show "(host, port) \<in> known" using assms
    by (auto simp: control_peer_def peer_form_def peer_save_def peer_from_request_def Let_def split: if_splits option.splits)
qed

text \<open>The operations of the mapping pages need an operator.\<close>

lemma pages_need_operator:
  "page_save isword isfile ports fresh u f s = Some x \<Longrightarrow> require_role u (ascii ''operator'')"
  "page_delete isfile same u mid s = Some y \<Longrightarrow> require_role u (ascii ''operator'')"
  "page_action isfile u mid action s = Some y \<Longrightarrow> require_role u (ascii ''operator'')"
  "page_bulk isfile u action mids s = Some z \<Longrightarrow> require_role u (ascii ''operator'')"
  by (auto simp: page_save_def page_delete_def page_action_def page_bulk_def Let_def split: if_splits)

section \<open>Lemmas: what passed the gate\<close>

lemma request_user_cases:
  assumes "request_user hmac pystr lower hostname cfg now tok h = Inr (Some u)"
  shows "u \<in> set (ac_users cfg) \<and> decode_session hmac pystr (ac_secret_key cfg) now tok = Inr (Some (us_username u, us_pwd_version u)) \<or>
    \<not> ui_require_login (ac_admin_ui cfg) \<and> us_role u = ui_anonymous_role (ac_admin_ui cfg) \<and> us_source u = ascii ''anonymous'' \<and>
      list_all (is_own_host lower hostname) (claimed_hosts h)"
proof -
  obtain r where r: "session_user hmac pystr cfg now tok = Inr r" and u: "(case r of Some x \<Rightarrow> Some x | None \<Rightarrow> anonymous_user lower hostname cfg h) = Some u"
    using assms by (auto simp: request_user_def rbind_eq_Inr)
  show ?thesis
  proof (cases r)
    case None
    then show ?thesis using u by (auto simp: anonymous_user_def split: if_splits)
  next
    case (Some x)
    then obtain name where "decode_session hmac pystr (ac_secret_key cfg) now tok = Inr (Some (name, us_pwd_version u))" "get_user cfg name = Some u"
      using r u session_user_cases [of hmac pystr cfg now tok u] by auto
    then show ?thesis using get_user_name by fastforce
  qed
qed

lemma csrf_matches: "csrf_token_matches cookie token = Inr True \<longleftrightarrow> (\<exists>c. cookie = Some c \<and> c \<noteq> [] \<and> token = c \<and> list_all (\<lambda>x. x < 128) c)"
  by (auto simp: csrf_token_matches_def compare_digest_def split: option.splits if_splits)

lemma verified_token:
  "verify_token sha token h = Inr True \<Longrightarrow> h \<noteq> [] \<and> token \<noteq> [] \<and> (\<exists>b. utf8_encode token = Some b \<and> sha b = h)"
  by (auto simp: verify_token_def hash_token_def compare_digest_def rbind_eq_Inr split: if_splits option.splits)

lemma setup_paths_public: "setup_path path \<Longrightarrow> is_public path"
  by (auto simp: setup_path_def is_public_def PUBLIC_PATHS_def PUBLIC_PREFIXES_def)

lemma rank_admin: "\<not> role_rank r < role_rank (ascii ''admin'') \<longleftrightarrow> r = ascii ''admin''"
proof -
  have "role_rank (ascii ''admin'') = 3" "role_rank (ascii ''viewer'') = 1" "role_rank (ascii ''operator'') = 2" by code_simp+
  moreover have "role_rank r = 0" if "r \<notin> {ascii ''admin'', ascii ''viewer'', ascii ''operator''}"
    using that by (auto simp: role_rank_def ROLE_RANK_def)
  ultimately show ?thesis by (cases "r \<in> {ascii ''admin'', ascii ''viewer'', ascii ''operator''}") auto
qed

lemma passed_ui:
  assumes "dispatch_ui g cfg now rq = Inr (Pass u)" and "\<not> is_public (hr_path rq)"
  shows "\<exists>v. u = Some v \<and> request_user (ge_hmac g) (ge_pystr g) (ge_lower g) (ge_hostname g) cfg now (hr_session rq) (hr_headers rq) = Inr (Some v)"
  using assms setup_paths_public by (auto simp: dispatch_ui_def Let_def rbind_eq_Inr split: if_splits option.splits)

text \<open>The settings without the mappings and without what the owner of an account may change.\<close>

definition settings_part :: "app_config \<Rightarrow> app_config" where
  "settings_part c = c\<lparr>ac_mappings := [], ac_users := map (\<lambda>u. u\<lparr>us_password_hash := [], us_pwd_version := 0\<rparr>) (ac_users c)\<rparr>"

lemma settings_part_kept:
  assumes "op_request op = Some rq" and "run_web e op s = (r, s')" and "\<not> require_role (rq_user rq) (ascii ''admin'')"
  shows "settings_part (web_config s') = settings_part (web_config s)"
proof -
  let ?c = "web_config s" and ?c' = "web_config s'" and ?f = "\<lambda>u :: user. u\<lparr>us_password_hash := [], us_pwd_version := 0\<rparr>"
  have a: "?c' = ?c\<lparr>ac_mappings := ac_mappings ?c', ac_users := ac_users ?c'\<rparr>" and
    b: "ac_users ?c' = ac_users ?c \<or> (\<exists>me h. ac_users ?c' = update_first (\<lambda>u. us_username u = us_username (me :: user))
            (\<lambda>u. u\<lparr>us_password_hash := h, us_pwd_version := us_pwd_version u + 1\<rparr>) (ac_users ?c))"
    using settings_authorised [OF assms(1,2)] assms(3) by blast+
  have "map ?f (ac_users ?c') = map ?f (ac_users ?c)" using b by (auto simp: map_update_first)
  then show ?thesis using a by (cases ?c; cases ?c') (simp add: settings_part_def)
qed

section \<open>Properties\<close>

text \<open>C11: What the gate lets through. A request reaches a handler of the REST API only at the two public addresses or with a bearer token
  whose hash is the stored one, and with a read-only token only if it changes nothing. Elsewhere, a changing request to the API addresses
  carries the cross-site token of its cookie; before the first setup only the setup page, the health check and static parts are
  reached; afterwards never the setup page, and every page that is not public only for a user: the account that the session cookie is signed
  for, in its current password version, or the anonymous visitor, if the login requirement is off and every host the request names is
  this machine.\<close>
theorem gate_admits:
  assumes "dispatch g cfg now rq = Inr (Pass u)"
  shows "if is_prefix_of (ascii ''/api/v1'') (hr_path rq) then
      hr_path rq \<in> {ascii ''/api/v1/health'', ascii ''/api/v1/openapi.json''} \<or>
      ac_users cfg \<noteq> [] \<and> ac_api_token_hash cfg \<noteq> [] \<and>
      (\<exists>b. utf8_encode (bearer_token (hr_authorization rq)) = Some b \<and> ge_sha256 g b = ac_api_token_hash cfg) \<and>
      (changes_state (hr_method rq) \<longrightarrow> role_rank (ascii ''operator'') \<le> role_rank (ac_api_token_role cfg))
    else
      (changes_state (hr_method rq) \<and> is_prefix_of (ascii ''/api/'') (hr_path rq) \<and> hr_path rq \<notin> set CLUSTER_PEER_PATHS \<longrightarrow>
        hr_csrf_header rq \<noteq> [] \<and> hr_csrf_cookie rq = Some (hr_csrf_header rq)) \<and>
      (if ac_users cfg = [] then setup_path (hr_path rq)
       else hr_path rq \<noteq> ascii ''/setup'' \<and>
         (is_public (hr_path rq) \<or>
          (\<exists>v. u = Some v \<and>
            (v \<in> set (ac_users cfg) \<and>
              decode_session (ge_hmac g) (ge_pystr g) (ac_secret_key cfg) now (hr_session rq) = Inr (Some (us_username v, us_pwd_version v)) \<or>
             \<not> ui_require_login (ac_admin_ui cfg) \<and> us_role v = ui_anonymous_role (ac_admin_ui cfg) \<and> us_source v = ascii ''anonymous'' \<and>
              list_all (is_own_host (ge_lower g) (ge_hostname g)) (claimed_hosts (hr_headers rq))))))"
proof (cases "is_prefix_of (ascii ''/api/v1'') (hr_path rq)")
  case True
  then have d: "dispatch_api g cfg rq = Inr (Pass u)" using assms by (simp add: dispatch_def)
  show ?thesis
  proof (cases "hr_path rq \<in> set [ascii ''/api/v1/health'', ascii ''/api/v1/openapi.json'']")
    case False
    then have "verify_token (ge_sha256 g) (bearer_token (hr_authorization rq)) (ac_api_token_hash cfg) = Inr True" "ac_users cfg \<noteq> []"
      "changes_state (hr_method rq) \<longrightarrow> \<not> role_rank (ac_api_token_role cfg) < role_rank (ascii ''operator'')"
      using d by (auto simp: dispatch_api_def rbind_eq_Inr split: if_splits)
    then show ?thesis using True verified_token by fastforce
  qed (use True in auto)
next
  case False
  then have d: "dispatch_ui g cfg now rq = Inr (Pass u)" using assms by (simp add: dispatch_def)
  have c: "needs_csrf rq \<Longrightarrow> csrf_token_matches (hr_csrf_cookie rq) (hr_csrf_header rq) = Inr True"
    using d by (auto simp: dispatch_ui_def Let_def rbind_eq_Inr split: if_splits)
  have "if ac_users cfg = [] then setup_path (hr_path rq) else hr_path rq \<noteq> ascii ''/setup''"
    using d by (auto simp: dispatch_ui_def Let_def rbind_eq_Inr split: if_splits)
  moreover have "\<exists>v. u = Some v \<and> request_user (ge_hmac g) (ge_pystr g) (ge_lower g) (ge_hostname g) cfg now (hr_session rq) (hr_headers rq) = Inr (Some v)"
    if "\<not> is_public (hr_path rq)" using passed_ui [OF d that] .
  ultimately show ?thesis using False c [unfolded needs_csrf_def csrf_matches] request_user_cases by (auto split: if_splits) blast+
qed

text \<open>C12: Changing a setting takes an administrator's session. When a request passed the gate to a page that is not public and its handler
  changed accounts, roles or any other setting (the mappings and the requester's own password apart), then the request came with a session cookie
  signed for an account that is an administrator in its current password version, or the login requirement was switched off and visitors had been
  given the administrator role; and it carried the cross-site token of its cookie.\<close>
theorem settings_need_admin:
  assumes "dispatch g (web_config s) now hr = Inr (Pass u)" and "\<not> is_public (hr_path hr)" and "\<not> is_prefix_of (ascii ''/api/v1'') (hr_path hr)"
    and "op_request op = Some rq" and "rq_user rq = u" and "run_web e op s = (r, s')"
    and "settings_part (web_config s') \<noteq> settings_part (web_config s)"
  shows "((\<exists>v \<in> set (ac_users (web_config s)). us_role v = ascii ''admin'' \<and>
        decode_session (ge_hmac g) (ge_pystr g) (ac_secret_key (web_config s)) now (hr_session hr) = Inr (Some (us_username v, us_pwd_version v))) \<or>
      \<not> ui_require_login (ac_admin_ui (web_config s)) \<and> ui_anonymous_role (ac_admin_ui (web_config s)) = ascii ''admin'') \<and>
    (\<exists>c. rq_csrf rq = Some c \<and> c \<noteq> [] \<and> form_get (rq_form rq) ''_csrf'' = Some c)"
proof -
  obtain v where v: "u = Some v"
    and q: "request_user (ge_hmac g) (ge_pystr g) (ge_lower g) (ge_hostname g) (web_config s) now (hr_session hr) (hr_headers hr) = Inr (Some v)"
    using passed_ui [of g "web_config s" now hr u] assms(1-3) by (auto simp: dispatch_def)
  have "require_role (rq_user rq) (ascii ''admin'')" using settings_part_kept [OF assms(4,6)] assms(7) by blast
  then have "us_role v = ascii ''admin''" using assms(5) v rank_admin by (simp add: require_role_def)
  then have "(\<exists>v \<in> set (ac_users (web_config s)). us_role v = ascii ''admin'' \<and>
        decode_session (ge_hmac g) (ge_pystr g) (ac_secret_key (web_config s)) now (hr_session hr) = Inr (Some (us_username v, us_pwd_version v))) \<or>
      \<not> ui_require_login (ac_admin_ui (web_config s)) \<and> ui_anonymous_role (ac_admin_ui (web_config s)) = ascii ''admin''"
    using request_user_cases [OF q] by auto
  moreover have "csrf_token_matches (rq_csrf rq) (form_text (rq_form rq) ''_csrf'' []) = Inr True"
    using settings_authorised [OF assms(4,6)] assms(7) by auto
  then have "\<exists>c. rq_csrf rq = Some c \<and> c \<noteq> [] \<and> form_get (rq_form rq) ''_csrf'' = Some c"
    by (auto simp: csrf_matches form_text_def split: option.splits)
  ultimately show ?thesis by blast
qed

section \<open>Witnesses\<close>

definition toy_gate :: gate_env where
  "toy_gate = \<lparr>ge_hmac = toy_hmac, ge_pystr = (\<lambda>_. []), ge_lower = lower_ascii, ge_hostname = ascii ''box'', ge_sha256 = (\<lambda>_. ascii ''00'')\<rparr>"

definition sample_http :: "str \<Rightarrow> str \<Rightarrow> str \<Rightarrow> http_request" where
  "sample_http meth path tok = \<lparr>hr_method = meth, hr_path = path, hr_csrf_cookie = Some (ascii ''t''), hr_csrf_header = [], hr_session = Some tok,
     hr_headers = \<lparr>hd_host = Some (ascii ''box''), hd_xfh = None, hd_fwd = None\<rparr>, hr_authorization = []\<rparr>"

lemma sample_passes:
  "\<exists>tok. dispatch toy_gate (web_config (sample_web [sample_account, sample_bob])) 1000 (sample_http (ascii ''POST'') (ascii ''/settings/users'') tok) =
     Inr (Pass (Some sample_account))"
proof -
  have "case issue_session toy_hmac (ac_secret_key (web_config (sample_web [sample_account, sample_bob]))) 900 600 (ascii ''ann'') 3 of
      Inl _ \<Rightarrow> False
    | Inr t \<Rightarrow> dispatch toy_gate (web_config (sample_web [sample_account, sample_bob])) 1000 (sample_http (ascii ''POST'') (ascii ''/settings/users'') t) =
        Inr (Pass (Some sample_account))" by code_simp
  then show ?thesis by (auto split: sum.splits)
qed

lemma gate_admits_witness:
  "\<exists>tok. dispatch toy_gate (web_config (sample_web [sample_account, sample_bob])) 1000 (sample_http (ascii ''POST'') (ascii ''/settings/users'') tok) =
      Inr (Pass (Some sample_account)) \<and>
    decode_session toy_hmac (\<lambda>_. []) (ascii ''k'') 1000 (Some tok) = Inr (Some (ascii ''ann'', 3))"
proof -
  let ?cfg = "web_config (sample_web [sample_account, sample_bob])" and ?rq = "sample_http (ascii ''POST'') (ascii ''/settings/users'')"
  obtain tok where t: "dispatch toy_gate ?cfg 1000 (?rq tok) = Inr (Pass (Some sample_account))" using sample_passes by blast
  have "\<not> is_prefix_of (ascii ''/api/v1'') (ascii ''/settings/users'')" "\<not> is_public (ascii ''/settings/users'')" by code_simp+
  moreover have "ac_users ?cfg \<noteq> []" "ui_require_login (ac_admin_ui ?cfg)" "ac_secret_key ?cfg = ascii ''k''" by code_simp+
  ultimately have "decode_session toy_hmac (\<lambda>_. []) (ascii ''k'') 1000 (Some tok) = Inr (Some (ascii ''ann'', 3))"
    using gate_admits [OF t] by (simp add: sample_http_def toy_gate_def sample_account_def)
  then show ?thesis using t by blast
qed

lemma settings_need_admin_witness:
  "\<exists>tok. \<exists>v \<in> set [sample_account, sample_bob]. us_role v = ascii ''admin'' \<and>
     decode_session toy_hmac (\<lambda>_. []) (ascii ''k'') 1000 (Some tok) = Inr (Some (us_username v, us_pwd_version v))"
proof -
  let ?s = "sample_web [sample_account, sample_bob]" and ?hr = "sample_http (ascii ''POST'') (ascii ''/settings/users'')"
    and ?rq = "sample_request sample_account [(''role'', ascii ''viewer'')]"
  let ?op = "W_role (ascii ''bob'') ?rq"
  obtain tok where t: "dispatch toy_gate (web_config ?s) 1000 (?hr tok) = Inr (Pass (Some sample_account))" using sample_passes by blast
  obtain r s' where r: "run_web toy_env ?op ?s = (r, s')" by fastforce
  have "map us_role (ac_users (settings_part (web_config (snd (run_web toy_env ?op ?s))))) \<noteq> map us_role (ac_users (settings_part (web_config ?s)))"
    by code_simp
  then have d: "settings_part (web_config s') \<noteq> settings_part (web_config ?s)" using r by auto
  have p: "\<not> is_prefix_of (ascii ''/api/v1'') (hr_path (?hr tok))" "\<not> is_public (hr_path (?hr tok))" by (simp_all add: sample_http_def) code_simp+
  have "ac_users (web_config ?s) = [sample_account, sample_bob]" "ui_require_login (ac_admin_ui (web_config ?s))"
    "ac_secret_key (web_config ?s) = ascii ''k''" by code_simp+
  then have "\<exists>v \<in> set [sample_account, sample_bob]. us_role v = ascii ''admin'' \<and>
     decode_session toy_hmac (\<lambda>_. []) (ascii ''k'') 1000 (Some tok) = Inr (Some (us_username v, us_pwd_version v))"
    using settings_need_admin [OF t p(2,1) _ _ r d, of ?rq] by (simp add: sample_request_def sample_http_def toy_gate_def)
  then show ?thesis by blast
qed

section \<open>Findings\<close>

text \<open>The proxy to a peer checks host and port against the known addresses, but takes the scheme from the form as it is: with the scheme below
  the address of the call, and with it the shared key in its header, is another host's.\<close>

lemma scheme_escapes_allowlist:
  "case control_peer (Some sample_account) {(ascii ''10.0.0.2'', 8080)}
      [(''scheme'', ascii ''http://other/?''), (''host'', ascii ''10.0.0.2''), (''port'', ascii ''8080''), (''action'', ascii ''stop'')] of
     X_call scheme host port path _ \<Rightarrow> is_prefix_of (ascii ''http://other/'') (peer_url scheme host port path)
   | _ \<Rightarrow> False"
  by code_simp

text \<open>A shared key with a character outside ASCII is accepted by the settings page, but then every peer request raises instead of being
  answered.\<close>

lemma foreign_key_raises:
  assumes "cluster_active c" and "\<not> list_all (\<lambda>x. x < 128) (cl_key c)" and "key \<noteq> []"
  shows "peer_guard c key = Inl CompareError"
  using assms by (simp add: peer_guard_def compare_digest_def)

text \<open>A console whose queue is full when its mapping ends never sees the end mark: the oldest item makes room for data, not for the mark.\<close>

lemma end_mark_lost: "length q = cap \<Longrightarrow> None \<notin> set q \<Longrightarrow> None \<notin> set (monitor_close cap q)"
  by (simp add: monitor_close_def)

end
