(* ===== verification/Logs.thy ===== *)
theory Logs
  imports App_State "HOL-Library.Sublist"
begin

text \<open>
  The per-mapping logs of \<open>app/state.py\<close>: the ring of recent messages, the retention that rewrites a file, the tail
  shown in the browser, and the pruning of logs whose mapping is gone. A log file is its bytes; the time stamp of
  a line is read by a parameter (it depends on the time zone).
\<close>

section \<open>Decoding that drops what is invalid\<close>

text \<open>\<open>bs.decode("utf-8", errors="ignore")\<close>.\<close>

function utf8_ignore :: "bytes \<Rightarrow> str" where
  "utf8_ignore bs =
     (if bs = [] then []
      else case utf8_next bs of
        Some (c, r) \<Rightarrow> c # utf8_ignore r
      | None \<Rightarrow> utf8_ignore (drop (bad_length bs) bs))"
  by pat_completeness auto
termination
proof (relation "measure length")
  fix bs :: bytes and x c r
  assume "utf8_next bs = Some x" "(c, r) = x"
  then show "(r, bs) \<in> measure length" using utf8_next_shorter [of bs c r] by auto
next
  fix bs :: bytes
  assume "bs \<noteq> []"
  moreover have "0 < bad_length bs" by (auto simp: bad_length_def Let_def split: list.splits)
  ultimately show "(drop (bad_length bs) bs, bs) \<in> measure length" by auto
qed simp

declare utf8_ignore.simps [simp del]

section \<open>Retention\<close>

definition LOG_MAX_BYTES :: nat where "LOG_MAX_BYTES = 100 * 1024 * 1024"
definition LOG_MAX_AGE_DAYS :: nat where "LOG_MAX_AGE_DAYS = 15"

definition utf8_bytes :: "str \<Rightarrow> bytes" where
  "utf8_bytes s = concat (map utf8_char s)"

text \<open>\<open>parse\<close> is \<open>_parse_log_ts\<close>. Lines are dropped up to the first one that is recent or has no time stamp.\<close>

definition age_filter :: "(str \<Rightarrow> real option) \<Rightarrow> real \<Rightarrow> str \<Rightarrow> str" where
  "age_filter parse cutoff content =
     concat (dropWhile (\<lambda>line. case parse line of None \<Rightarrow> False | Some ts \<Rightarrow> \<not> ts \<ge> cutoff) (splitlines True content))"

text \<open>\<open>text[nl + 1:] if nl != -1 else text\<close>.\<close>

definition after_newline :: "str \<Rightarrow> str" where
  "after_newline t = (if 10 \<in> set t then tl (dropWhile (\<lambda>c. c \<noteq> 10) t) else t)"

text \<open>A slice \<open>[-0:]\<close> is the whole.\<close>

definition size_cap :: "nat \<Rightarrow> str \<Rightarrow> str" where
  "size_cap max_bytes data =
     (let encoded = utf8_bytes data in
      if length encoded > max_bytes
      then after_newline (utf8_ignore (if max_bytes = 0 then encoded else drop (length encoded - max_bytes) encoded)) else data)"

text \<open>\<open>_trim_log_file\<close>: whether the file changed, and its bytes after.\<close>

definition trim_log_file :: "(str \<Rightarrow> real option) \<Rightarrow> real \<Rightarrow> nat \<Rightarrow> bytes \<Rightarrow> bool \<times> bytes" where
  "trim_log_file parse cutoff max_bytes file =
     (let content = utf8_replace file in
      if content = [] then (False, file)
      else let data = size_cap max_bytes (age_filter parse cutoff content) in
        if data = content then (False, file) else (True, utf8_bytes data))"

section \<open>Reading and pruning\<close>

text \<open>\<open>fh.readline()\<close> drops the bytes up to and including the first newline.\<close>

definition drop_line :: "bytes \<Rightarrow> bytes" where
  "drop_line bs = drop 1 (dropWhile (\<lambda>b. b \<noteq> 10) bs)"

definition read_mapping_log :: "nat \<Rightarrow> nat \<Rightarrow> bytes option \<Rightarrow> str list" where
  "read_mapping_log limit tail_bytes file =
     (case file of
        None \<Rightarrow> []
      | Some bs \<Rightarrow>
          let data = (if length bs > tail_bytes then drop_line (drop (length bs - tail_bytes) bs) else bs) in
          rev (last_n limit (splitlines False (utf8_replace data))))"

text \<open>\<open>log\<close>: the ring of the last thousand messages.\<close>

definition log_append :: "str \<Rightarrow> str list \<Rightarrow> str list" where
  "log_append msg logs = last_n 1000 (logs @ [msg])"

text \<open>\<open>prune_mapping_logs\<close>: the names that stay in the directory.\<close>

definition has_suffix :: "str \<Rightarrow> str \<Rightarrow> bool" where
  "has_suffix x s \<longleftrightarrow> is_prefix_of (rev x) (rev s)"

definition prune_mapping_logs :: "app_config \<Rightarrow> str list \<Rightarrow> str list" where
  "prune_mapping_logs cfg names =
     (let valid = map mc_id (ac_mappings cfg) in
      filter (\<lambda>fn. \<not> (has_suffix (ascii ''.log'') fn \<and> take (length fn - 4) fn \<notin> set valid)) names)"

text \<open>\<open>trace_files\<close>: the names with the mapping's prefix, newest first.\<close>

definition trace_file_names :: "(str \<Rightarrow> bool) \<Rightarrow> (str \<Rightarrow> real) \<Rightarrow> str \<Rightarrow> str list \<Rightarrow> str list" where
  "trace_file_names isfile mtime mid names =
     rev (sort_key mtime (rev (filter isfile (filter (is_prefix_of (mid @ [45])) names))))"

section \<open>Lemmas\<close>

lemma concat_splitlines: "concat (splitlines True s) = s"
proof (induction "length s" arbitrary: s rule: less_induct)
  case less
  let ?a = "takeWhile (\<lambda>c. \<not> line_break c) s"
  show ?case
  proof (cases "dropWhile (\<lambda>c. \<not> line_break c) s")
    case Nil
    then show ?thesis by (simp add: splitlines_single)
  next
    case (Cons c cs)
    have s: "s = ?a @ c # cs" using Cons by (metis takeWhile_dropWhile_id)
    have len: "length cs < length s" by (subst s) simp
    then have "length (tl cs) < length s" by simp
    then show ?thesis unfolding splitlines_step [OF Cons]
      using less [OF len] less [of "tl cs"] s by (cases cs) auto
  qed
qed

lemma utf8_ignore_next: "bs \<noteq> [] \<Longrightarrow> utf8_next bs = Some (c, r) \<Longrightarrow> utf8_ignore bs = c # utf8_ignore r"
  by (subst utf8_ignore.simps) simp

lemma utf8_ignore_cont: "is_cont b \<Longrightarrow> utf8_ignore (b # bs) = utf8_ignore bs"
proof -
  assume b: "is_cont b"
  then have "utf8_next (b # bs) = None" by (auto simp: is_cont_def Let_def split: list.splits)
  moreover have "bad_length (b # bs) = 1" using b by (auto simp: is_cont_def bad_length_def Let_def)
  ultimately show ?thesis by (subst utf8_ignore.simps) simp
qed

lemma utf8_char_conts: "b \<in> set (drop k (utf8_char c)) \<Longrightarrow> 0 < k \<Longrightarrow> scalar_value c \<Longrightarrow> is_cont b"
proof -
  assume b: "b \<in> set (drop k (utf8_char c))" and k: "0 < k" and c: "scalar_value c"
  have "set (drop k (utf8_char c)) \<subseteq> set (drop 1 (utf8_char c))" using set_drop_subset_set_drop [of 1 k] k by simp
  then have "b \<in> set (drop 1 (utf8_char c))" using b by blast
  moreover have "x mod 64 < (64 :: nat)" for x by simp
  then have "128 + x mod 64 < (256 :: nat) \<and> 128 + x mod 64 < (192 :: nat)" for x by (simp add: order.strict_trans [of _ 64])
  ultimately show "is_cont b" by (auto simp: utf8_char_def is_cont_def split: if_splits)
qed

lemma utf8_ignore_conts: "\<forall>b \<in> set bs. is_cont b \<Longrightarrow> utf8_ignore (bs @ r) = utf8_ignore r"
  by (induction bs) (simp_all add: utf8_ignore_cont)

lemma utf8_ignore_bytes: "list_all scalar_value s \<Longrightarrow> utf8_ignore (utf8_bytes s) = s"
proof (induction s)
  case (Cons c s)
  have "utf8_ignore (utf8_char c @ utf8_bytes s) = c # utf8_ignore (utf8_bytes s)"
    by (rule utf8_ignore_next) (use Cons.prems in \<open>simp_all add: utf8_next_char\<close>)
  then show ?case using Cons by (simp add: utf8_bytes_def)
qed (simp add: utf8_bytes_def utf8_ignore.simps)

text \<open>The last bytes of a text, decoded leniently, are the end of the text.\<close>

lemma utf8_tail:
  "list_all scalar_value s \<Longrightarrow>
    \<exists>n. utf8_ignore (drop k (utf8_bytes s)) = drop n s \<and> length (utf8_bytes (drop n s)) \<le> length (utf8_bytes s) - k"
proof (induction s arbitrary: k)
  case Nil
  then show ?case by (simp add: utf8_bytes_def utf8_ignore.simps)
next
  case (Cons c s)
  let ?c = "utf8_char c"
  have b: "utf8_bytes (c # s) = ?c @ utf8_bytes s" by (simp add: utf8_bytes_def)
  consider "k = 0" | "0 < k" "k < length ?c" | "length ?c \<le> k" "0 < k" by linarith
  then show ?case
  proof cases
    case 1
    then show ?thesis using utf8_ignore_bytes [OF Cons.prems] by (intro exI [of _ 0]) simp
  next
    case 2
    have "utf8_ignore (drop k ?c @ utf8_bytes s) = s"
      using utf8_ignore_conts [of "drop k ?c"] utf8_char_conts [of _ k c] 2 Cons.prems utf8_ignore_bytes by simp
    then show ?thesis using 2 by (intro exI [of _ 1]) (simp add: b)
  next
    case 3
    obtain n where "utf8_ignore (drop (k - length ?c) (utf8_bytes s)) = drop n s"
      "length (utf8_bytes (drop n s)) \<le> length (utf8_bytes s) - (k - length ?c)" using Cons by auto
    then show ?thesis using 3 by (intro exI [of _ "Suc n"]) (simp add: b)
  qed
qed

lemma after_newline_drop: "\<exists>n. after_newline t = drop n t"
proof (cases "10 \<in> set t")
  case True
  have "tl (dropWhile (\<lambda>c. c \<noteq> 10) t) = drop (Suc (length (takeWhile (\<lambda>c. c \<noteq> 10) t))) t"
    by (simp add: dropWhile_eq_drop drop_Suc tl_drop)
  then show ?thesis using True by (auto simp: after_newline_def)
qed (auto simp: after_newline_def intro: exI [of _ 0])

lemma utf8_bytes_drop: "length (utf8_bytes (drop n s)) \<le> length (utf8_bytes s)"
proof -
  have "utf8_bytes s = utf8_bytes (take n s) @ utf8_bytes (drop n s)"
    unfolding utf8_bytes_def by (simp flip: map_append concat_append)
  then show ?thesis by simp
qed

lemma size_cap_tail:
  assumes "list_all scalar_value s" and "0 < max_bytes"
  shows "\<exists>n. size_cap max_bytes s = drop n s" and "length (utf8_bytes (size_cap max_bytes s)) \<le> max_bytes"
    and "length (utf8_bytes s) \<le> max_bytes \<Longrightarrow> size_cap max_bytes s = s"
proof -
  let ?k = "length (utf8_bytes s) - max_bytes"
  obtain n where n: "utf8_ignore (drop ?k (utf8_bytes s)) = drop n s" "length (utf8_bytes (drop n s)) \<le> length (utf8_bytes s) - ?k"
    using utf8_tail [OF assms(1)] by blast
  obtain m where m: "after_newline (drop n s) = drop m (drop n s)" using after_newline_drop by blast
  have big: "size_cap max_bytes s = drop m (drop n s)" if "length (utf8_bytes s) > max_bytes"
    using that n(1) m assms(2) by (simp add: size_cap_def Let_def)
  have small: "size_cap max_bytes s = s" if "length (utf8_bytes s) \<le> max_bytes" using that by (simp add: size_cap_def Let_def)
  show "length (utf8_bytes s) \<le> max_bytes \<Longrightarrow> size_cap max_bytes s = s" by (rule small)
  show "\<exists>n. size_cap max_bytes s = drop n s"
    using big small by (cases "length (utf8_bytes s) \<le> max_bytes") (auto intro: exI [of _ 0])
  show "length (utf8_bytes (size_cap max_bytes s)) \<le> max_bytes"
    using big small n(2) utf8_bytes_drop [of m "drop n s"] by (cases "length (utf8_bytes s) \<le> max_bytes") auto
qed

lemma utf8_replace_scalar: "list_all scalar_value (utf8_replace bs)"
proof (induction bs rule: utf8_replace.induct)
  case (1 bs)
  have "scalar_value c" if "utf8_next bs = Some (c, r)" for c r
    using that by (cases bs) (auto simp: scalar_value_def is_cont_def Let_def split: if_splits list.splits)
  moreover have "scalar_value 0xFFFD" by (simp add: scalar_value_def)
  ultimately show ?case using 1 by (subst utf8_replace.simps) (auto split: option.splits)
qed

lemma age_filter_drop: "\<exists>n. age_filter parse cutoff content = drop n content"
proof -
  let ?P = "\<lambda>line. case parse line of None \<Rightarrow> False | Some ts \<Rightarrow> \<not> ts \<ge> cutoff"
  let ?ls = "splitlines True content"
  have "content = concat (takeWhile ?P ?ls) @ age_filter parse cutoff content"
    unfolding age_filter_def by (metis concat_append concat_splitlines takeWhile_dropWhile_id)
  then have "age_filter parse cutoff content = drop (length (concat (takeWhile ?P ?ls))) content"
    by (metis append_eq_conv_conj)
  then show ?thesis by blast
qed

section \<open>Properties\<close>

text \<open>Log retention only ever drops the beginning of a log and always respects the limit: the text after it is an end of the text
  before, is no larger than the limit, and is exactly the lines from the first recent one when those fit.\<close>
lemma log_trim:
  assumes "0 < max_bytes" and "trim_log_file parse cutoff max_bytes file = (True, file')"
  shows "\<exists>n. file' = utf8_bytes (drop n (utf8_replace file)) \<and> length file' \<le> max_bytes \<and>
    (length (utf8_bytes (age_filter parse cutoff (utf8_replace file))) \<le> max_bytes \<longrightarrow>
      file' = utf8_bytes (age_filter parse cutoff (utf8_replace file)))"
proof -
  let ?t = "utf8_replace file" and ?a = "age_filter parse cutoff (utf8_replace file)"
  obtain n where n: "?a = drop n ?t" using age_filter_drop by blast
  have sc: "list_all scalar_value ?a" using utf8_replace_scalar by (auto simp: n list_all_iff dest: in_set_dropD)
  obtain m where m: "size_cap max_bytes ?a = drop m ?a" using size_cap_tail(1) [OF sc assms(1)] by blast
  have f: "file' = utf8_bytes (size_cap max_bytes ?a)" using assms(2) by (auto simp: trim_log_file_def Let_def split: if_splits)
  have "file' = utf8_bytes (drop (m + n) ?t)" using f m n by simp
  then show ?thesis using size_cap_tail(2,3) [OF sc assms(1)] f by auto
qed

theorem log_trim_witness:
  "\<exists>n. map nbyte (ascii ''3 c'' @ [10]) = utf8_bytes (drop n (utf8_replace (map nbyte (ascii ''1 a'' @ 10 # ascii ''2 b'' @ 10 # ascii ''3 c'' @ [10])))) \<and>
    length (map nbyte (ascii ''3 c'' @ [10])) \<le> 6"
proof -
  let ?parse = "\<lambda>line. if is_prefix_of (ascii ''1'') line then Some 0 else Some 5"
  have "trim_log_file ?parse 1 6 (map nbyte (ascii ''1 a'' @ 10 # ascii ''2 b'' @ 10 # ascii ''3 c'' @ [10])) = (True, map nbyte (ascii ''3 c'' @ [10]))"
    by code_simp
  then show ?thesis using log_trim [of 6 ?parse 1] by fastforce
qed

end
