(* ===== verification/Pages.thy ===== *)
theory Pages
  imports Web_Gate Cluster Logs Bridge
begin

text \<open>
  What the program tells about itself: the answers of the REST API (\<open>app/web/api.py\<close>), the metrics (\<open>app/web/routes/system.py\<close>), a node's
  description for its cluster and the fleet table (\<open>app/web/routes/cluster.py\<close>), and the trace files offered for download
  (\<open>app/web/routes/mappings.py\<close>). The lemmas say what these answers keep to themselves.
\<close>

section \<open>The REST API\<close>

text \<open>The status of the running mappings (\<open>all_status\<close>) is a map from ids.\<close>

type_synonym statuses = "str \<rightharpoonup> runner_status"

datatype api_answer = A_not_found | A_unknown_action | A_raises config_error
  | A_mapping mapping_config "runner_status option" | A_mappings "(mapping_config \<times> runner_status option) list"
  | A_deleted str | A_action str str | A_health nat

definition api_view :: "app_config \<Rightarrow> statuses \<Rightarrow> mapping_config \<Rightarrow> mapping_config \<times> runner_status option" where
  "api_view cfg st m = (mapping_view (ac_api_token_role cfg) m, st (mc_id m))"

definition api_list_mappings :: "app_config \<Rightarrow> statuses \<Rightarrow> api_answer" where
  "api_list_mappings cfg st = A_mappings (map (api_view cfg st) (ac_mappings cfg))"

definition api_get_mapping :: "app_config \<Rightarrow> statuses \<Rightarrow> str \<Rightarrow> api_answer" where
  "api_get_mapping cfg st mid = (case get_mapping cfg mid of None \<Rightarrow> A_not_found | Some m \<Rightarrow> (case api_view cfg st m of (v, r) \<Rightarrow> A_mapping v r))"

definition api_delete_mapping :: "(str \<Rightarrow> bool) \<Rightarrow> (f64 \<Rightarrow> f64 \<Rightarrow> bool) \<Rightarrow> str \<Rightarrow> ops_state \<Rightarrow> api_answer \<times> ops_state" where
  "api_delete_mapping isfile same mid s =
     (case delete_mapping isfile same mid s of
        (Done _, s') \<Rightarrow> (A_deleted mid, s') | (Escaped e, s') \<Rightarrow> (A_raises e, s') | (_, s') \<Rightarrow> (A_not_found, s'))"

definition api_mapping_action :: "(str \<Rightarrow> bool) \<Rightarrow> str \<Rightarrow> str \<Rightarrow> ops_state \<Rightarrow> api_answer \<times> ops_state" where
  "api_mapping_action isfile mid action s =
     (if action \<notin> set ACTIONS then (A_unknown_action, s)
      else case apply_action isfile mid (action_name action) s of
        (Done _, s') \<Rightarrow> (A_action mid action, s') | (Escaped e, s') \<Rightarrow> (A_raises e, s') | (_, s') \<Rightarrow> (A_not_found, s'))"

definition api_health :: "app_config \<Rightarrow> api_answer" where
  "api_health cfg = A_health (length (ac_mappings cfg))"

section \<open>Metrics\<close>

definition metric_line :: "string \<Rightarrow> str \<Rightarrow> int \<Rightarrow> str" where
  "metric_line name lbl n = ascii ''ser2net_mapping_'' @ ascii name @ [123] @ lbl @ [125, 32] @ dec_str n"

definition metric_lines :: "statuses \<Rightarrow> mapping_config \<Rightarrow> str list" where
  "metric_lines st m =
     (let lbl = ascii ''mapping='' @ [34] @ metric_label (mc_name m) @ [34] @ ascii '',id='' @ [34] @ mc_id m @ [34];
          num = (\<lambda>f. case st (mc_id m) of None \<Rightarrow> 0 | Some r \<Rightarrow> f r) in
      [metric_line ''running'' lbl (num (\<lambda>r. of_bool (rs_state r = ascii ''running''))),
       metric_line ''clients'' lbl (num (\<lambda>r. int (rs_client_count r))),
       metric_line ''bytes_in_total'' lbl (num rs_bytes_in),
       metric_line ''bytes_out_total'' lbl (num rs_bytes_out),
       metric_line ''reconnects_total'' lbl (num rs_reconnects),
       metric_line ''dropped_clients_total'' lbl (num rs_dropped_clients)])"

definition metrics :: "statuses \<Rightarrow> app_config \<Rightarrow> str" where
  "metrics st cfg =
     join_with 10 ([ascii ''# ser2net metrics'', ascii ''ser2net_up 1'', ascii ''ser2net_mappings_total '' @ dec_str (int (length (ac_mappings cfg)))] @
       concat (map (metric_lines st) (ac_mappings cfg))) @ [10]"

section \<open>A node of the cluster\<close>

record mapping_row =
  mr_id :: str
  mr_name :: str
  mr_enabled :: bool
  mr_kind :: str
  mr_endpoint :: str
  mr_serial :: str
  mr_state :: str
  mr_client_count :: nat
  mr_bytes_in :: int
  mr_bytes_out :: int

record node_payload =
  np_id :: str
  np_name :: str
  np_ip :: str
  np_port :: int
  np_scheme :: str
  np_uptime_s :: int
  np_running :: nat
  np_rows :: "mapping_row list"

text \<open>\<open>_mapping_endpoint\<close>; \<open>pytext\<close> is \<open>str\<close> of a port.\<close>

definition mapping_endpoint :: "(pyval \<Rightarrow> str) \<Rightarrow> mapping_config \<Rightarrow> str" where
  "mapping_endpoint pytext m =
     (if mc_kind m = ascii ''serialbridge'' then ss_port (mc_serial m) @ [32, 8596, 32] @ ss_port (mc_serial_b m)
      else if ns_mode (mc_network m) = ascii ''client'' then [8594, 32] @ ns_remote_host (mc_network m) @ [58] @ pytext (ns_remote_port (mc_network m))
      else ns_bind_ip (mc_network m) @ [58] @ pytext (ns_port (mc_network m)))"

definition mapping_row_of :: "(pyval \<Rightarrow> str) \<Rightarrow> statuses \<Rightarrow> mapping_config \<Rightarrow> mapping_row" where
  "mapping_row_of pytext st m =
     (let r = st (mc_id m) in
      \<lparr>mr_id = mc_id m, mr_name = mc_name m, mr_enabled = mc_enabled m, mr_kind = kind_label m, mr_endpoint = mapping_endpoint pytext m,
       mr_serial = ss_port (mc_serial m), mr_state = (case r of None \<Rightarrow> ascii ''stopped'' | Some x \<Rightarrow> rs_state x),
       mr_client_count = (case r of None \<Rightarrow> 0 | Some x \<Rightarrow> rs_client_count x),
       mr_bytes_in = (case r of None \<Rightarrow> 0 | Some x \<Rightarrow> rs_bytes_in x), mr_bytes_out = (case r of None \<Rightarrow> 0 | Some x \<Rightarrow> rs_bytes_out x)\<rparr>)"

definition local_node_payload :: "(pyval \<Rightarrow> str) \<Rightarrow> str option \<Rightarrow> str \<Rightarrow> int \<Rightarrow> statuses \<Rightarrow> app_config \<Rightarrow> node_payload" where
  "local_node_payload pytext sockname hostname uptime st cfg =
     (let (ip, port, scheme) = advertised sockname cfg; rows = map (mapping_row_of pytext st) (ac_mappings cfg) in
      \<lparr>np_id = ac_instance_id cfg, np_name = hostname, np_ip = ip, np_port = port, np_scheme = scheme, np_uptime_s = uptime,
       np_running = length (filter (\<lambda>m. map_option rs_state (st (mc_id m)) = Some (ascii ''running'')) (ac_mappings cfg)), np_rows = rows\<rparr>)"

text \<open>\<open>cluster_local\<close>, guarded by the key; \<open>Inl\<close>: the comparison raises, \<open>None\<close>: forbidden.\<close>

definition cluster_local :: "(pyval \<Rightarrow> str) \<Rightarrow> str option \<Rightarrow> str \<Rightarrow> int \<Rightarrow> statuses \<Rightarrow> str \<Rightarrow> app_config \<Rightarrow> auth_error + node_payload option" where
  "cluster_local pytext sockname hostname uptime st key cfg =
     rbind (peer_guard (ac_cluster cfg) key) (\<lambda>fine.
     Inr (if fine then Some (local_node_payload pytext sockname hostname uptime st cfg) else None))"

text \<open>A row of the fleet table: where the node is reached and what it answered (\<open>None\<close>: offline). The fields of an answer win over the
  address that was asked, as in \<open>_node_from\<close>.\<close>

record node_row =
  nr_self :: bool
  nr_online :: bool
  nr_ip :: str
  nr_port :: int
  nr_scheme :: str
  nr_name :: str
  nr_uptime :: str
  nr_running :: nat
  nr_rows :: "mapping_row list"

definition own_row :: "node_payload \<Rightarrow> node_row" where
  "own_row p = \<lparr>nr_self = True, nr_online = True, nr_ip = np_ip p, nr_port = np_port p, nr_scheme = np_scheme p, nr_name = np_name p,
     nr_uptime = fmt_uptime (np_uptime_s p), nr_running = np_running p, nr_rows = np_rows p\<rparr>"

fun target_name :: "target \<Rightarrow> str" where
  "target_name (Auto p) = pe_name p"
| "target_name (Manual scheme ip port) = ip @ [58] @ dec_str port"

fun target_scheme :: "target \<Rightarrow> str" where
  "target_scheme (Auto p) = pe_scheme p"
| "target_scheme (Manual scheme ip port) = scheme"

definition node_from :: "target \<Rightarrow> node_payload option \<Rightarrow> node_row" where
  "node_from t data =
     (case data of
        None \<Rightarrow> \<lparr>nr_self = False, nr_online = False, nr_ip = fst (target_addr t), nr_port = snd (target_addr t), nr_scheme = target_scheme t,
          nr_name = target_name t, nr_uptime = [], nr_running = 0, nr_rows = []\<rparr>
      | Some p \<Rightarrow> (own_row p)\<lparr>nr_self := False\<rparr>)"

text \<open>\<open>cluster_status\<close>: the table of the browser; \<open>ask\<close> is what a target answers.\<close>

definition cluster_status :: "user option \<Rightarrow> app_config \<Rightarrow> node_payload \<Rightarrow> target list \<Rightarrow> (target \<Rightarrow> node_payload option) \<Rightarrow> node_row list" where
  "cluster_status u cfg own targets ask =
     (if \<not> cluster_active (ac_cluster cfg) then []
      else own_row own # (if map_option us_source u = Some (ascii ''anonymous'') then [] else map (\<lambda>t. node_from t (ask t)) targets))"

section \<open>Trace files\<close>

text \<open>\<open>mapping_trace_file\<close>: the file that is sent, by its name.\<close>

definition mapping_trace_file :: "(str \<Rightarrow> bool) \<Rightarrow> (str \<Rightarrow> real) \<Rightarrow> str list \<Rightarrow> app_config \<Rightarrow> str \<Rightarrow> str \<Rightarrow> str option" where
  "mapping_trace_file isfile mtime names cfg mid name =
     (if get_mapping cfg mid = None then None else find (\<lambda>n. n = name) (trace_file_names isfile mtime mid names))"

section \<open>Files of a mapping\<close>

definition mapping_log_path :: "str \<Rightarrow> str \<Rightarrow> str" where
  "mapping_log_path logs_dir mid = path_join logs_dir (mid @ ascii ''.log'')"

section \<open>Lemmas: what stays inside\<close>

text \<open>The configuration without its secrets: accounts, keys, tokens and the passwords of the brokers, the directory and the mail server.\<close>

definition public_config :: "app_config \<Rightarrow> app_config" where
  "public_config c = c\<lparr>ac_users := [], ac_secret_key := [], ac_api_token_hash := [],
     ac_ldap := (ac_ldap c)\<lparr>ld_bind_password := []\<rparr>, ac_oidc := (ac_oidc c)\<lparr>oi_client_secret := []\<rparr>,
     ac_cluster := (ac_cluster c)\<lparr>cl_key := []\<rparr>,
     ac_mappings := map (\<lambda>m. m\<lparr>mc_mqtt := (mc_mqtt m)\<lparr>mq_password := []\<rparr>\<rparr>) (ac_mappings c)\<rparr>"

text \<open>What a node tells its peers, and what the metrics tell, does not depend on the secrets.\<close>

lemma payload_no_secrets:
  assumes "public_config c = public_config c'"
  shows "local_node_payload pytext sockname hostname uptime st c = local_node_payload pytext sockname hostname uptime st c'"
    and "metrics st c = metrics st c'"
proof -
  have p: "local_node_payload pytext sockname hostname uptime st c = local_node_payload pytext sockname hostname uptime st (public_config c)" for c
    by (simp add: local_node_payload_def advertised_def public_config_def mapping_row_of_def mapping_endpoint_def kind_label_def Let_def comp_def filter_map)
  then show "local_node_payload pytext sockname hostname uptime st c = local_node_payload pytext sockname hostname uptime st c'" using assms by metis
  have "metric_lines st (m\<lparr>mc_mqtt := q\<rparr>) = metric_lines st m" for m q by (simp add: metric_lines_def)
  then have "metrics st c = metrics st (public_config c)" for c by (simp add: metrics_def public_config_def comp_def)
  then show "metrics st c = metrics st c'" using assms by metis
qed

text \<open>A read-only token does not see the password of a broker.\<close>

lemma read_only_view:
  assumes "ac_api_token_role cfg = ascii ''viewer''" and "api_get_mapping cfg st mid = A_mapping m r"
  shows "mq_password (mc_mqtt m) \<in> {[], REDACTED}"
  using assms by (auto simp: api_get_mapping_def api_view_def mapping_view_def split: option.splits if_splits)

text \<open>A visitor without a login sees no other node.\<close>

lemma visitor_sees_own:
  assumes "us_source u = ascii ''anonymous''"
  shows "list_all nr_self (cluster_status (Some u) cfg own targets ask)"
  using assms by (simp add: cluster_status_def own_row_def)

text \<open>Whatever name is asked for, the file sent is one of the directory whose name starts with the mapping's id.\<close>

lemma trace_download_own:
  assumes "mapping_trace_file isfile mtime names cfg mid name = Some n"
  shows "n = name \<and> n \<in> set names \<and> is_prefix_of (mid @ [45]) n \<and> isfile n"
proof -
  have "find (\<lambda>n. n = name) (trace_file_names isfile mtime mid names) = Some n" using assms by (simp add: mapping_trace_file_def split: if_splits)
  then have "n = name" "n \<in> set (trace_file_names isfile mtime mid names)" by (auto simp: find_Some_iff)
  then show ?thesis by (simp add: trace_file_names_def)
qed

section \<open>Findings\<close>

text \<open>The prefix decides whose a trace is: with the ids \<open>a\<close> and \<open>a-b\<close> the traces of the second mapping are listed for the first as well, and
  are deleted with it.\<close>

lemma trace_of_another: "trace_file_names (\<lambda>_. True) (\<lambda>_. 0) (ascii ''a'') [ascii ''a-b-both.log''] = [ascii ''a-b-both.log'']"
  by code_simp

text \<open>The id of a mapping is taken from the form as it is, and the names of its files are built from it: an operator can save a mapping whose log
  and trace lie outside the directories they are meant for.\<close>

lemma id_leaves_directory:
  "case save_form (\<lambda>_. True) (\<lambda>_. True) [] [] ((''id'', ascii ''../../x'') # tl sample_form) sample_stored of
     Some (Done _, s') \<Rightarrow>
       (case get_mapping (op_disk s') (ascii ''../../x'') of
          Some m \<Rightarrow> mapping_log_path (ascii ''/data/logs'') (mc_id m) = ascii ''/data/logs/../../x.log'' \<and>
            is_prefix_of (ascii ''/data/traces/../../x-'') (trace_path (ascii ''/data/traces'') m)
        | None \<Rightarrow> False)
   | _ \<Rightarrow> False"
  by code_simp

end
