(* ===== verification/Spec2Isabelle.thy ===== *)
theory Spec2Isabelle
  imports Gateway Sparkplug_Node Supervisor Notify Startup Sign_In Pages
begin

text \<open>
  Verification of ser2net, a serial-to-network bridge (Python, under \<open>src/app\<close>).

  \<^bold>\<open>The program.\<close> A configuration (\<open>config.py\<close>) lists mappings. A mapping joins one serial port to the network, either
  as a transparent bridge for TCP clients or a UDP peer (\<open>engine/bridge.py\<close>, with the client protocols of
  \<open>engine/protocols\<close>), or as a Modbus/TCP gateway to an RTU bus (\<open>engine/modbus_gateway.py\<close> over \<open>engine/modbus.py\<close>) that
  can also poll points and publish them by MQTT (\<open>engine/mqtt_pub.py\<close>), plainly or as a Sparkplug B edge node
  (\<open>engine/sparkplug_node.py\<close> over \<open>engine/sparkplug.py\<close>). The supervisor (\<open>engine/supervisor.py\<close>) owns the running mappings.
  The web side lets a request through its gate (\<open>web/server.py\<close>) if it is authenticated (\<open>web/auth.py\<close>, or by a directory or identity
  provider), reads its form (\<open>web/routes/forms.py\<close>), changes the configuration (\<open>web/routes/ops.py\<close>, \<open>web/api.py\<close>) or the
  settings and accounts (\<open>web/routes/settings.py\<close>, \<open>login.py\<close>), saves it with a backup, and calls the supervisor. Configurations of the classic ser2net are imported (\<open>ser2net_import.py\<close>,
  \<open>importer.py\<close>). Nodes find each other on the LAN by signed beacons (\<open>engine/cluster.py\<close>). \<open>state.py\<close> keeps the audit trail
  and the logs, \<open>notify.py\<close> turns status changes into messages.

  \<^bold>\<open>Theories and sources.\<close>

  \<^item> The language: \<open>Prelude\<close> (bytes, text, results), \<open>Dict\<close>, \<open>Utf8\<close>, \<open>Py_Float\<close>, \<open>Py_Value\<close>, \<open>Py_Parse\<close>, \<open>Json\<close>, \<open>Json_Dump\<close>,
    \<open>Ipaddr\<close>, \<open>Ip_Text\<close> hold what the sources use of Python and its standard library.
  \<^item> Interfaces: \<open>Framing\<close> (a parser that takes frames off a growing buffer), \<open>Telnet\<close> (a session that hands data through
    unchanged), \<open>Simulation\<close> (a component that refines an abstract machine), \<open>Supervisor\<close> (what a runner owes its owner).
  \<^item> Field bus: \<open>Modbus\<close> (\<open>engine/modbus.py\<close>), \<open>Gateway\<close> and \<open>Gateway_Runner\<close> (\<open>engine/modbus_gateway.py\<close>), \<open>Mqtt_Pub\<close>
    (\<open>engine/mqtt_pub.py\<close>), \<open>Sparkplug\<close> (\<open>engine/sparkplug.py\<close>), \<open>Sparkplug_Node\<close> (\<open>engine/sparkplug_node.py\<close>).
  \<^item> Bridge: \<open>Telnet\<close> and \<open>Rfc2217\<close> (\<open>engine/protocols\<close>), \<open>Tracer\<close> and \<open>Bridge\<close> (\<open>engine/bridge.py\<close>), \<open>Serial_Port\<close>
    (\<open>engine/serial_io.py\<close>, \<open>engine/portlist.py\<close>, \<open>engine/sockopts.py\<close>), \<open>Supervisor\<close> (\<open>engine/supervisor.py\<close>).
  \<^item> Configuration: \<open>Config\<close>, \<open>App_Config\<close>, \<open>Mapping_Dict\<close> and \<open>Backups\<close> (\<open>config.py\<close>), \<open>Startup\<close> (\<open>ConfigStore.save\<close>, \<open>runtime.py\<close>,
    \<open>console.py\<close>, \<open>healthcheck.py\<close>, \<open>standalone.py\<close>).
  \<^item> Import: \<open>Ser2net_Conn\<close>, \<open>Ser2net_V3\<close>, \<open>Ser2net_Yaml\<close>, \<open>Yaml_Reader\<close>, \<open>Ser2net_Assemble\<close>, \<open>Ser2net_Import\<close>
    (\<open>ser2net_import.py\<close>), \<open>Importer\<close> (\<open>importer.py\<close>).
  \<^item> Service: \<open>Auth\<close> (\<open>web/auth.py\<close>), \<open>Operations\<close> (\<open>web/routes/ops.py\<close>, \<open>web/api.py\<close>, parts of \<open>web/routes/mappings.py\<close> and
    \<open>settings.py\<close>), \<open>Cluster\<close> (\<open>engine/cluster.py\<close>, \<open>engine/netinfo.py\<close>), \<open>App_State\<close> and \<open>Logs\<close> (\<open>state.py\<close>), \<open>Notify\<close>
    (\<open>notify.py\<close>).
  \<^item> Web: \<open>Forms\<close> (\<open>web/routes/forms.py\<close>), \<open>Settings\<close> (\<open>web/routes/settings.py\<close>, \<open>web/routes/login.py\<close>), \<open>Sign_In\<close>
    (\<open>web/ldap_auth.py\<close>, \<open>web/oidc_auth.py\<close>), \<open>Web_Gate\<close> (\<open>web/server.py\<close>, \<open>web/routes/mappings.py\<close>, \<open>cluster.py\<close>, \<open>console.py\<close>,
    \<open>common.py\<close>, \<open>i18n.py\<close>), \<open>Pages\<close> (the answers of \<open>web/api.py\<close>, \<open>system.py\<close> and \<open>cluster.py\<close>).

  \<^bold>\<open>How the code is represented.\<close> A class or dataclass is a record with one field per attribute, a method a function from
  that record to its result and the new record. Bytes are lists of 8-bit words, a text is the list of its code points, a
  dictionary an association list in insertion order where its order shows, a float its bit pattern. A field that the code
  tests with \<open>isinstance\<close> is a \<open>pyval\<close>. A raised exception is \<open>Inl\<close> of an error datatype, by kind and not by message text.
  A coroutine is cut at its \<open>await\<close>s: what happens between two of them is one step, and a run is a list of steps in any order
  that the event loop could choose (the bridge's pumps and clients, the supervisor's calls).

  Code outside the repository is a parameter: HMAC, scrypt and SHA-256, the clock and the time zone, random ids, the serial
  device and pyserial's RFC 2217 port manager, the MQTT client (what is handed to it is returned), the service database, the
  table of Unicode word characters, the existence of a file, what the system tells about ports and addresses. A theorem that
  relies on such a parameter says so in a hypothesis, and its witness gives a concrete one.

  \<^bold>\<open>What is proved.\<close>

  \<^item> Modbus: the value a client or a poll gets is the one on the bus, for every way a TCP stream is cut into pieces; an RTU frame is
    accepted exactly if its checksum fits, and no change inside one byte goes unnoticed; a coil write changes its coil only.
  \<^item> Sparkplug: a payload that is encoded is decoded as it was, any bytes give a well-typed payload or a documented error, sequence
    numbers of a node follow each other through births, data and deaths, a change is reported once, a command writes
    what it names.
  \<^item> Sessions and bridge: data arrives unchanged through raw and telnet sessions under any chunking, negotiation comes to rest, a
    client gets a contiguous part of the serial stream, admission follows the access list and the limit, a read-only bridge
    writes nothing to the port, the end marker is found across chunks exactly where a search of the whole stream finds it, the
    trace accounts for every byte.
  \<^item> Configuration: a configuration that validates has no two enabled mappings on one device or listener, every sequence of
    requests to the web operations leaves a valid configuration on disk, a loaded mapping is a fixed point of loading, a save keeps the
    replaced configuration among the backups, and neither a failing file operation nor a loss of power at any moment of a save leaves
    anything but the complete old or new file.
  \<^item> Web: what a request must carry to pass the gate, and that a request behind it changes a setting only with an administrator's session
    and the cross-site token; requests never remove the last administrator; a session is gone for good once its account's
    password or role changed; a single sign-on is bound to the browser that began it and to the token of that flow; saving the edit form
    keeps what the form does not show.
  \<^item> Supervisor: calls that the lock and the caller's order allow never leave two runners on one port, and each call ends.
  \<^item> Import: reading always ends, an imported set of mappings validates, no imported port is open to more peers or bound to a
    wider address than in its file, the preview tells what the import does.
  \<^item> Service: a session is accepted only if it was signed here and has not expired, the limiter counts the failures of its window,
    a beacon is read as it was sent, a peer is listed exactly for its lifetime and only a trusted one may be proxied to, an audit
    record stays one record, a trimmed log keeps its newest lines within the bounds, notifications stay within queue and rate.

  \<^bold>\<open>Locales and their interpretations.\<close> \<open>stream_framing\<close>: the Modbus/TCP reader (\<open>tcp\<close>) and the MQTT line reader (\<open>ln\<close>).
  \<open>transparent_session\<close>: the raw (\<open>rw\<close>) and the telnet (\<open>tn\<close>) session. \<open>simulation\<close> and its extension \<open>clocked_simulation\<close>: the
  rate limiter against a list of all failures (\<open>lim\<close>), the peer table against everything heard (\<open>lan\<close>). \<open>runner_contract\<close>:
  the bridge and the gateway as runners of the supervisor (\<open>prog\<close>).

  \<^bold>\<open>Loops and fuel.\<close> Loops over a shrinking text or buffer are functions with a measure. The recursive YAML reader takes the
  fuel four times the weight of the remaining lines plus four, since one item passes at most four calls that consume
  nothing, and its theorem says that the fuel is never used up. The loop that drains a buffer takes the length of the
  buffer, since every frame has a byte. The search for a free name or port ends because finitely many are taken.

  \<^bold>\<open>What modelling found.\<close> These lemmas show inputs or interleavings on which the code does not do what its comments say. Engine:
  \<open>set_topic_misdirected\<close>, \<open>kick_race\<close>, \<open>double_save_orphan\<close>, \<open>unsigned_datagram_raises\<close>, \<open>port_superscript_raises\<close>,
  \<open>port_nul_raises\<close>, \<open>escape_raises\<close>, \<open>merge_drops_namesake\<close>. State and files: \<open>audit_user_hidden\<close>, \<open>start_conflict_blocks_saves\<close>,
  \<open>backup_leftover\<close>, \<open>trace_of_another\<close>, \<open>id_leaves_directory\<close>. Start: \<open>probe_elsewhere\<close>, \<open>headless_loopback\<close>, \<open>loopback6_refused\<close>.
  Accounts: \<open>demotion_race\<close>, \<open>setup_race\<close>, \<open>sso_takes_account\<close>, \<open>recreated_account_session\<close>, \<open>restore_revives_session\<close>,
  \<open>group_substring\<close>. Pages: \<open>number_point_raises\<close>, \<open>infinite_minutes_raise\<close>, \<open>scheme_escapes_allowlist\<close>,
  \<open>foreign_key_raises\<close>, \<open>end_mark_lost\<close>.

  \<^bold>\<open>Not modelled.\<close> Sockets, TLS contexts, task cancellation and threads beyond their effect at an \<open>await\<close>; the opening of a serial
  port; the HTTP framework, the templates and the pages that only show state; the libraries for LDAP, tokens and certificates
  (parameters, or not called by a modelled part); the process itself (event loop, signals, Windows service), the bootstrap and the build
  tools; sending of mails and web hooks; texts of log lines and of error messages; Python's recursion limit; \<open>from_dict\<close> of JSON
  values whose fields have a type that the program itself never writes, and with it the reading of \<open>config.json\<close> and of an uploaded
  file. These are I/O and calls into other people's code, or would need a model of every Python value in every field.
\<close>

end
